(* ===== verification/ZGW_Prelude.thy ===== *)
theory ZGW_Prelude
  imports Main "HOL-Library.Word"
begin

text \<open>
  Shared vocabulary of the gateway model: the C integer types as machine words, byte buffers as
  lists, the XOR of buffers, reads and writes of C arrays with the out-of-range case made explicit,
  and the list and word lemmas that the component theories share. Facts that the component proofs
  feed to the simplifier are gathered in the collections \<open>buf_simps\<close> (lengths and prefixes of
  buffers) and \<open>xor_simps\<close> (algebra of bytewise XOR).
\<close>

unbundle bit_operations_syntax

section \<open>C integer types and buffers\<close>

type_synonym byte = "8 word"
type_synonym u16 = "16 word"
type_synonym u32 = "32 word"
type_synonym u64 = "64 word"
type_synonym buffer = "byte list"

text \<open>\<open>nodeid_t\<close> of \<open>src/src/RD_types.h\<close> is a 16-bit unsigned integer.\<close>

type_synonym nodeid = u16

named_theorems buf_simps \<open>lengths and prefixes of byte buffers\<close>
named_theorems xor_simps \<open>algebra of bytewise exclusive or\<close>

section \<open>Reading and writing C arrays\<close>

text \<open>
  \<open>store_at i xs buf\<close> is \<open>memcpy(buf + i, xs, n)\<close> into an array whose size is the length of
  \<open>buf\<close>; a write that runs past the end of the array is \<open>None\<close>.
\<close>

definition store_at :: "nat \<Rightarrow> 'a list \<Rightarrow> 'a list \<Rightarrow> 'a list option" where
  "store_at i xs buf =
     (if i + length xs \<le> length buf
      then Some (take i buf @ xs @ drop (i + length xs) buf) else None)"

lemma store_at_length [buf_simps]: "store_at i xs buf = Some buf' \<Longrightarrow> length buf' = length buf"
  by (auto simp: store_at_def split: if_splits)

lemma store_at_Some_iff [buf_simps]:
  "(\<exists>buf'. store_at i xs buf = Some buf') \<longleftrightarrow> i + length xs \<le> length buf"
  by (auto simp: store_at_def)

lemma store_at_None_iff [buf_simps]: "store_at i xs buf = None \<longleftrightarrow> length buf < i + length xs"
  by (auto simp: store_at_def)

lemma store_at_read_back:
  assumes "store_at i xs buf = Some buf'"
  shows "take (length xs) (drop i buf') = xs"
  using assms by (auto simp: store_at_def split: if_splits)

lemma store_at_frame:
  assumes "store_at i xs buf = Some buf'" and "j < i \<or> i + length xs \<le> j" and "j < length buf"
  shows "buf' ! j = buf ! j"
  using assms by (auto simp: store_at_def nth_append split: if_splits)

section \<open>Bytewise exclusive or\<close>

definition xor_bytes :: "buffer \<Rightarrow> buffer \<Rightarrow> buffer" where
  "xor_bytes = map2 (XOR)"

lemma xor_bytes_simps [simp]:
  "xor_bytes [] ys = []"
  "xor_bytes xs [] = []"
  "xor_bytes (x # xs) (y # ys) = (x XOR y) # xor_bytes xs ys"
  by (simp_all add: xor_bytes_def)

lemma length_xor_bytes [simp, buf_simps]:
  "length (xor_bytes xs ys) = min (length xs) (length ys)"
  by (simp add: xor_bytes_def)

lemma nth_xor_bytes [xor_simps]:
  "i < length xs \<Longrightarrow> i < length ys \<Longrightarrow> xor_bytes xs ys ! i = xs ! i XOR ys ! i"
  by (simp add: xor_bytes_def)

lemma xor_bytes_commute: "xor_bytes xs ys = xor_bytes ys xs"
  by (induction xs ys rule: list_induct2') (simp_all add: xor.commute)

lemma xor_cancel_left [simp]: "(a :: 'a::len word) XOR (a XOR b) = b"
  by (simp add: xor.assoc [symmetric])

lemma xor_cancel_right [simp]: "(b XOR a) XOR (a :: 'a::len word) = b"
  by (simp add: xor.assoc)

lemma xor_bytes_cancel [xor_simps]:
  "length ys \<le> length xs \<Longrightarrow> xor_bytes xs (xor_bytes xs ys) = ys"
  by (induction xs ys rule: list_induct2') simp_all

lemma xor_bytes_cancel_right [xor_simps]:
  "length xs \<le> length ys \<Longrightarrow> xor_bytes (xor_bytes xs ys) ys = xs"
  by (induction xs ys rule: list_induct2') simp_all

lemma xor_bytes_append [xor_simps]:
  "length xs = length ys \<Longrightarrow>
     xor_bytes (xs @ xs') (ys @ ys') = xor_bytes xs ys @ xor_bytes xs' ys'"
  by (simp add: xor_bytes_def)

lemma take_xor_bytes [xor_simps]:
  "take n (xor_bytes xs ys) = xor_bytes (take n xs) (take n ys)"
  by (simp add: xor_bytes_def take_map take_zip)

lemma xor_bytes_zero: "length xs \<le> n \<Longrightarrow> xor_bytes (replicate n 0) xs = xs"
proof (induction xs arbitrary: n)
  case (Cons x xs)
  then show ?case by (cases n) simp_all
qed simp

lemma xor_bytes_assoc:
  "xor_bytes (xor_bytes xs ys) zs = xor_bytes xs (xor_bytes ys zs)"
proof (induction xs arbitrary: ys zs)
  case (Cons x xs)
  then show ?case by (cases ys; cases zs) (simp_all add: xor.assoc)
qed simp

text \<open>
  The exclusive-or checksum of a buffer. The serial frame layer starts it at \<open>0xFF\<close>; a buffer
  followed by its own checksum sums to zero, and changing exactly one byte changes the sum.
\<close>

definition xor_sum :: "byte \<Rightarrow> buffer \<Rightarrow> byte" where
  "xor_sum init xs = fold (XOR) xs init"

lemma xor_sum_Nil [simp]: "xor_sum a [] = a"
  by (simp add: xor_sum_def)

lemma xor_sum_Cons [simp]: "xor_sum a (x # xs) = xor_sum (a XOR x) xs"
  by (simp add: xor_sum_def xor.commute)

lemma xor_sum_append [xor_simps]: "xor_sum a (xs @ ys) = xor_sum (xor_sum a xs) ys"
  by (simp add: xor_sum_def)

lemma xor_sum_shift: "xor_sum (a XOR b) xs = xor_sum a xs XOR b"
proof (induction xs arbitrary: a)
  case (Cons x xs)
  have "xor_sum ((a XOR b) XOR x) xs = xor_sum ((a XOR x) XOR b) xs"
    by (simp add: xor.assoc xor.commute xor.left_commute)
  then show ?case by (simp add: Cons)
qed simp

lemma xor_sum_own_checksum: "xor_sum a (xs @ [xor_sum a xs]) = 0"
  by (simp add: xor_simps)

lemma word_xor_eq_self_iff: "a XOR b = a \<longleftrightarrow> b = (0 :: 'a::len word)"
  by (metis xor.right_neutral xor_cancel_left)

lemma xor_sum_update:
  assumes "i < length xs"
  shows "xor_sum a (xs[i := xs ! i XOR d]) = xor_sum a xs XOR d"
  using assms
proof (induction xs arbitrary: a i)
  case (Cons x xs)
  show ?case
  proof (cases i)
    case 0
    then show ?thesis by (simp add: xor.assoc [symmetric] xor_sum_shift)
  next
    case (Suc j)
    with Cons show ?thesis by simp
  qed
qed simp

section \<open>Frames and work buffers\<close>

text \<open>Reading a byte of a received frame; \<open>0\<close> stands for memory behind the modelled part.\<close>

definition byte_at :: "buffer \<Rightarrow> nat \<Rightarrow> byte" where
  "byte_at b i = (if i < length b then b ! i else 0)"

text \<open>Writing \<open>xs\<close> at the offset \<open>off\<close> of a work buffer.\<close>

definition wr :: "nat \<Rightarrow> buffer \<Rightarrow> buffer \<Rightarrow> buffer" where
  "wr off xs b = take off b @ xs @ drop (off + length xs) b"

section \<open>Search in lists\<close>

text \<open>
  The pattern of most table walks in the gateway: the first element that satisfies a test, or the
  first index of one.
\<close>

primrec find_index :: "('a \<Rightarrow> bool) \<Rightarrow> 'a list \<Rightarrow> nat option" where
  "find_index P [] = None"
| "find_index P (x # xs) = (if P x then Some 0 else map_option Suc (find_index P xs))"

lemma find_index_Some:
  "find_index P xs = Some i \<Longrightarrow> i < length xs \<and> P (xs ! i) \<and> (\<forall>j<i. \<not> P (xs ! j))"
proof (induction xs arbitrary: i)
  case (Cons x xs)
  show ?case
  proof (cases "P x")
    case False
    with Cons.prems obtain k where k: "find_index P xs = Some k" "i = Suc k" by auto
    from Cons.IH [OF k(1)] k(2) False show ?thesis
      by (auto simp: less_Suc_eq_0_disj)
  qed (use Cons.prems in simp)
qed simp

lemma find_index_None: "find_index P xs = None \<longleftrightarrow> (\<forall>x\<in>set xs. \<not> P x)"
  by (induction xs) auto

lemma find_index_update:
  "(i < length xs \<Longrightarrow> P y = P (xs ! i)) \<Longrightarrow> find_index P (xs[i := y]) = find_index P xs"
  by (induction xs arbitrary: i) (auto split: nat.split)

lemma find_index_ex: "(\<exists>i. find_index P xs = Some i) \<longleftrightarrow> (\<exists>x\<in>set xs. P x)"
  using find_index_None [of P xs] by (cases "find_index P xs") auto

section \<open>Words of different widths\<close>

lemma unat_byte_less [simp]: "unat (b :: byte) < 256"
  using unsigned_less [of b] by simp

lemma unat_u16_less [simp]: "unat (w :: u16) < 65536"
  using unsigned_less [of w] by simp

lemma unat_ucast_byte [simp]: "unat (ucast (b :: byte) :: u16) = unat b"
proof -
  have "unat b < 2 ^ 16" by (rule less_trans [OF unat_byte_less]) simp
  then show ?thesis by (simp add: unsigned_ucast_eq take_bit_nat_eq_self)
qed

lemma unat_of_nat_byte [simp]: "n < 256 \<Longrightarrow> unat (of_nat n :: byte) = n"
  by (simp add: unat_of_nat)

lemma unat_of_nat_u16 [simp]: "n < 65536 \<Longrightarrow> unat (of_nat n :: u16) = n"
  by (simp add: unat_of_nat)

text \<open>Big-endian split of a 16-bit value into two bytes and back.\<close>

definition hi_byte :: "u16 \<Rightarrow> byte" where
  "hi_byte w = ucast (drop_bit 8 w)"

definition lo_byte :: "u16 \<Rightarrow> byte" where
  "lo_byte w = ucast w"

definition u16_of_bytes :: "byte \<Rightarrow> byte \<Rightarrow> u16" where
  "u16_of_bytes hi lo = push_bit 8 (ucast hi) OR ucast lo"

lemma u16_of_bytes_split [simp]: "u16_of_bytes (hi_byte w) (lo_byte w) = w"
  unfolding u16_of_bytes_def hi_byte_def lo_byte_def
  by (rule bit_eqI) (auto simp: bit_simps)

lemma hi_byte_u16_of_bytes [simp]: "hi_byte (u16_of_bytes h l) = h"
  unfolding u16_of_bytes_def hi_byte_def
  by (rule bit_eqI) (auto simp: bit_simps dest: bit_imp_le_length)

lemma lo_byte_u16_of_bytes [simp]: "lo_byte (u16_of_bytes h l) = l"
  unfolding u16_of_bytes_def lo_byte_def
  by (rule bit_eqI) (auto simp: bit_simps dest: bit_imp_le_length)

section \<open>Byte strings as numbers\<close>

text \<open>
  \<open>le_nat\<close> and \<open>be_nat\<close> read a byte string as a number, least or most significant byte first;
  \<open>be_bytes n\<close> writes a number into \<open>n\<close> bytes. Arithmetic that C code does byte by byte with a
  carry is specified through them.
\<close>

primrec le_nat :: "buffer \<Rightarrow> nat" where
  "le_nat [] = 0"
| "le_nat (b # bs) = unat b + 256 * le_nat bs"

definition be_nat :: "buffer \<Rightarrow> nat" where
  "be_nat bs = le_nat (rev bs)"

primrec le_bytes :: "nat \<Rightarrow> nat \<Rightarrow> buffer" where
  "le_bytes 0 x = []"
| "le_bytes (Suc n) x = of_nat x # le_bytes n (x div 256)"

definition be_bytes :: "nat \<Rightarrow> nat \<Rightarrow> buffer" where
  "be_bytes n x = rev (le_bytes n x)"

lemma length_le_bytes [simp]: "length (le_bytes n x) = n"
  by (induction n arbitrary: x) simp_all

lemma length_be_bytes [simp, buf_simps]: "length (be_bytes n x) = n"
  by (simp add: be_bytes_def)

lemma le_nat_less: "le_nat bs < 256 ^ length bs"
proof (induction bs)
  case (Cons b bs)
  have "unat b + 256 * le_nat bs < 256 + 256 * le_nat bs" by simp
  also have "\<dots> = 256 * (le_nat bs + 1)" by simp
  also have "\<dots> \<le> 256 * 256 ^ length bs" using Cons by (intro mult_le_mono2) linarith
  finally show ?case by simp
qed simp

lemma be_nat_less: "be_nat bs < 256 ^ length bs"
  using le_nat_less [of "rev bs"] by (simp add: be_nat_def)

lemma le_bytes_le_nat: "le_bytes (length bs) (le_nat bs) = bs"
proof (induction bs)
  case (Cons b bs)
  have "(unat b + 256 * le_nat bs) div 256 = le_nat bs" by (simp add: div_add1_eq)
  moreover have "of_nat (unat b + 256 * le_nat bs) = b"
  proof -
    have z: "(256 :: byte) = 0" by simp
    have "(of_nat (256 * le_nat bs) :: byte) = 0" by (simp only: of_nat_mult of_nat_numeral z mult_zero_left)
    then show ?thesis by simp
  qed
  ultimately show ?case using Cons by simp
qed simp

lemma be_bytes_be_nat: "be_bytes (length bs) (be_nat bs) = bs"
  using le_bytes_le_nat [of "rev bs"] by (simp add: be_bytes_def be_nat_def)

lemma be_bytes_unique: "length bs = n \<Longrightarrow> be_nat bs = x \<Longrightarrow> bs = be_bytes n x"
  using be_bytes_be_nat by metis

lemma le_nat_le_bytes: "le_nat (le_bytes n x) = x mod 256 ^ n"
proof (induction n arbitrary: x)
  case (Suc n)
  have "x mod (256 * 256 ^ n) = x mod 256 + 256 * (x div 256 mod 256 ^ n)"
    by (simp add: mod_mult2_eq)
  with Suc show ?case by (simp add: unat_of_nat)
qed simp

lemma be_nat_be_bytes: "be_nat (be_bytes n x) = x mod 256 ^ n"
  by (simp add: be_nat_def be_bytes_def le_nat_le_bytes)

end
