(* ===== verification/Contiki_Core.thy ===== *)
theory Contiki_Core
  imports ZGW_Prelude
begin

text \<open>
  The pieces of the Contiki runtime that the gateway is written against: one-shot timers
  (\<open>contiki/core/sys/timer.c\<close>), singly linked lists of objects (\<open>contiki/core/lib/list.c\<close>) and
  fixed pools of memory blocks (\<open>contiki/core/lib/memb.c\<close>).

  A list is modelled by the sequence of the objects reached from its head, a pool by the vector of
  its reference counts; an object of a pool is named by its index, which is what a pointer into the
  pool's array stands for. Two interfaces are stated as locales for the clients of these
  libraries: \<open>obj_list\<close>, the laws of a list of objects without duplicates, and \<open>block_pool\<close>,
  the laws of a bounded pool.
\<close>

section \<open>Timers\<close>

record timer =
  t_interval :: u64
  t_start :: u64

definition timer_set :: "u64 \<Rightarrow> u64 \<Rightarrow> timer" where
  "timer_set clock intv = \<lparr>t_interval = intv, t_start = clock\<rparr>"

definition timer_restart :: "u64 \<Rightarrow> timer \<Rightarrow> timer" where
  "timer_restart clock t = t\<lparr>t_start := clock\<rparr>"

definition timer_reset :: "timer \<Rightarrow> timer" where
  "timer_reset t = t\<lparr>t_start := t_start t + t_interval t\<rparr>"

definition timer_expired :: "u64 \<Rightarrow> timer \<Rightarrow> bool" where
  "timer_expired clock t = (t_interval t < (clock - t_start t) + 1)"

lemma timer_expired_iff:
  assumes "unat (clock - t_start t) + 1 < 2 ^ 64"
  shows "timer_expired clock t \<longleftrightarrow> unat (t_interval t) \<le> unat (clock - t_start t)"
proof -
  have "unat ((clock - t_start t) + 1) = unat (clock - t_start t) + 1"
    using assms by (simp add: unat_word_ariths)
  then show ?thesis by (simp add: timer_expired_def word_less_nat_alt less_Suc_eq_le)
qed

section \<open>Linked lists\<close>

definition list_init :: "'a list" where
  "list_init = []"

definition list_head :: "'a list \<Rightarrow> 'a option" where
  "list_head l = (case l of [] \<Rightarrow> None | x # _ \<Rightarrow> Some x)"

definition list_tail :: "'a list \<Rightarrow> 'a option" where
  "list_tail l = (if l = [] then None else Some (last l))"

text \<open>The loop of \<open>list_remove\<close> unlinks the first occurrence and returns.\<close>

primrec list_remove :: "'a list \<Rightarrow> 'a \<Rightarrow> 'a list" where
  "list_remove [] item = []"
| "list_remove (x # l) item = (if x = item then l else x # list_remove l item)"

definition list_add :: "'a list \<Rightarrow> 'a \<Rightarrow> 'a list" where
  "list_add l item = list_remove l item @ [item]"

definition list_push :: "'a list \<Rightarrow> 'a \<Rightarrow> 'a list" where
  "list_push l item = item # list_remove l item"

definition list_chop :: "'a list \<Rightarrow> 'a option \<times> 'a list" where
  "list_chop l = (if l = [] then (None, []) else (Some (last l), butlast l))"

definition list_pop :: "'a list \<Rightarrow> 'a option \<times> 'a list" where
  "list_pop l = (case l of [] \<Rightarrow> (None, []) | x # xs \<Rightarrow> (Some x, xs))"

definition list_length :: "'a list \<Rightarrow> nat" where
  "list_length l = length l"

text \<open>The element after the (unique) occurrence of an item.\<close>

primrec list_item_next :: "'a list \<Rightarrow> 'a \<Rightarrow> 'a option" where
  "list_item_next [] item = None"
| "list_item_next (x # l) item = (if x = item then list_head l else list_item_next l item)"

definition list_contains :: "'a list \<Rightarrow> 'a \<Rightarrow> bool" where
  "list_contains l item = (\<exists>x\<in>set l. x = item)"

primrec list_insert :: "'a list \<Rightarrow> 'a option \<Rightarrow> 'a \<Rightarrow> 'a list" where
  "list_insert [] prev item = [item]"
| "list_insert (x # l) prev item =
     (case prev of None \<Rightarrow> list_push (x # l) item
      | Some p \<Rightarrow> if x = p then x # item # l else x # list_insert l prev item)"

lemma list_remove_notin [simp]: "x \<notin> set l \<Longrightarrow> list_remove l x = l"
  by (induction l) auto

lemma set_list_remove_subset: "set (list_remove l x) \<subseteq> set l"
  by (induction l) auto

lemma distinct_list_remove: "distinct l \<Longrightarrow> distinct (list_remove l x)"
  by (induction l) (use set_list_remove_subset in fastforce)+

lemma set_list_remove: "distinct l \<Longrightarrow> set (list_remove l x) = set l - {x}"
  by (induction l) auto

lemma list_remove_filter: "distinct l \<Longrightarrow> list_remove l x = filter (\<lambda>y. y \<noteq> x) l"
  by (induction l) (auto intro: filter_True [symmetric])

lemma length_list_remove:
  "length (list_remove l x) = (if x \<in> set l then length l - 1 else length l)"
  by (induction l) (auto dest: length_pos_if_in_set)

lemma list_head_simps [simp]: "list_head [] = None" "list_head (x # l) = Some x"
  by (simp_all add: list_head_def)

lemma list_pop_simps [simp]: "list_pop [] = (None, [])" "list_pop (x # l) = (Some x, l)"
  by (simp_all add: list_pop_def)

lemma list_contains_iff [simp]: "list_contains l x \<longleftrightarrow> x \<in> set l"
  by (simp add: list_contains_def)

lemma list_head_Some_in: "list_head l = Some x \<Longrightarrow> x \<in> set l"
  by (cases l) auto

lemma list_item_next_in: "list_item_next l x = Some y \<Longrightarrow> y \<in> set l"
  by (induction l) (auto split: if_splits dest: list_head_Some_in)

lemma list_item_next_split:
  "x \<notin> set xs \<Longrightarrow> list_item_next (xs @ x # ys) x = list_head ys"
  by (induction xs) auto

text \<open>The interface the queue clients rely on: add appends, remove deletes, no duplicates.\<close>

locale obj_list =
  fixes add :: "'l \<Rightarrow> 'a \<Rightarrow> 'l"
    and remove :: "'l \<Rightarrow> 'a \<Rightarrow> 'l"
    and items :: "'l \<Rightarrow> 'a list"
  assumes items_add: "distinct (items l) \<Longrightarrow> items (add l x) = filter (\<lambda>y. y \<noteq> x) (items l) @ [x]"
    and items_remove: "distinct (items l) \<Longrightarrow> items (remove l x) = filter (\<lambda>y. y \<noteq> x) (items l)"
begin

lemma distinct_add: "distinct (items l) \<Longrightarrow> distinct (items (add l x))"
  by (simp add: items_add)

lemma distinct_remove: "distinct (items l) \<Longrightarrow> distinct (items (remove l x))"
  by (simp add: items_remove)

lemma add_fresh: "distinct (items l) \<Longrightarrow> x \<notin> set (items l) \<Longrightarrow> items (add l x) = items l @ [x]"
  by (auto simp: items_add intro: filter_True)

lemma remove_add_fresh:
  "distinct (items l) \<Longrightarrow> x \<notin> set (items l) \<Longrightarrow> items (remove (add l x) x) = items l"
  by (auto simp: items_remove distinct_add add_fresh intro: filter_True)

lemma remove_keeps_order:
  "distinct (items l) \<Longrightarrow> y \<noteq> x \<Longrightarrow> y \<in> set (items (remove l x)) \<longleftrightarrow> y \<in> set (items l)"
  by (auto simp: items_remove)

end

interpretation cl: obj_list list_add list_remove "\<lambda>l. l"
  by unfold_locales (simp_all add: list_add_def list_remove_filter)

section \<open>Memory pools\<close>

text \<open>
  \<open>MEMB(name, type, num)\<close> declares an array of \<open>num\<close> blocks and a vector of reference counts. A
  block is named by its index.
\<close>

type_synonym memb = "nat list"

definition memb_init :: "memb \<Rightarrow> memb" where
  "memb_init m = map (\<lambda>_. 0) m"

definition memb_alloc :: "memb \<Rightarrow> nat option \<times> memb" where
  "memb_alloc m =
     (case find_index (\<lambda>c. c = 0) m of
        Some i \<Rightarrow> (Some i, m[i := m ! i + 1])
      | None \<Rightarrow> (None, m))"

definition memb_free :: "memb \<Rightarrow> nat \<Rightarrow> int \<times> memb" where
  "memb_free m i =
     (if i < length m
      then let c = (if m ! i > 0 then m ! i - 1 else m ! i) in (int c, m[i := c])
      else (-1, m))"

definition memb_inmemb :: "memb \<Rightarrow> nat \<Rightarrow> bool" where
  "memb_inmemb m i = (i < length m)"

definition memb_free_count :: "memb \<Rightarrow> nat" where
  "memb_free_count m = length (filter (\<lambda>c. c = 0) m)"

definition memb_used :: "memb \<Rightarrow> nat set" where
  "memb_used m = {i. i < length m \<and> m ! i > 0}"

definition memb_ok :: "memb \<Rightarrow> bool" where
  "memb_ok m = (\<forall>c\<in>set m. c \<le> 1)"

lemma memb_alloc_cases:
  obtains (full) "memb_alloc m = (None, m)" "\<And>i. i < length m \<Longrightarrow> m ! i \<noteq> 0"
  | (block) i where "memb_alloc m = (Some i, m[i := 1])" "i < length m" "m ! i = 0"
proof (cases "find_index (\<lambda>c. c = 0) m")
  case None
  then have "\<forall>c\<in>set m. c \<noteq> 0" by (simp only: find_index_None)
  then have "\<And>i. i < length m \<Longrightarrow> m ! i \<noteq> 0" by simp
  moreover from None have "memb_alloc m = (None, m)" by (simp add: memb_alloc_def)
  ultimately show ?thesis by (rule full [rotated])
next
  case (Some i)
  with find_index_Some [OF Some] show ?thesis
    by (intro block [of i]) (auto simp: memb_alloc_def)
qed

locale block_pool =
  fixes alloc :: "'p \<Rightarrow> nat option \<times> 'p"
    and free :: "'p \<Rightarrow> nat \<Rightarrow> 'p"
    and used :: "'p \<Rightarrow> nat set"
    and size :: "'p \<Rightarrow> nat"
    and ok :: "'p \<Rightarrow> bool"
  assumes alloc_fresh: "ok p \<Longrightarrow> alloc p = (Some i, p') \<Longrightarrow> i \<notin> used p"
    and alloc_used: "ok p \<Longrightarrow> alloc p = (Some i, p') \<Longrightarrow> used p' = insert i (used p)"
    and alloc_full: "ok p \<Longrightarrow> alloc p = (None, p') \<Longrightarrow> p' = p \<and> used p = {..<size p}"
    and alloc_ok: "ok p \<Longrightarrow> alloc p = (r, p') \<Longrightarrow> ok p' \<and> size p' = size p"
    and free_used: "ok p \<Longrightarrow> used (free p i) = used p - {i}"
    and free_ok: "ok p \<Longrightarrow> ok (free p i) \<and> size (free p i) = size p"
    and used_bound: "ok p \<Longrightarrow> used p \<subseteq> {..<size p}"
begin

lemma free_alloc_restores:
  "ok p \<Longrightarrow> alloc p = (Some i, p') \<Longrightarrow> used (free p' i) = used p"
  using alloc_fresh alloc_used alloc_ok free_used by auto

lemma alloc_succeeds:
  assumes "ok p" and "card (used p) < size p"
  shows "\<exists>i p'. alloc p = (Some i, p')"
proof (cases "fst (alloc p)")
  case None
  then have "alloc p = (None, snd (alloc p))" by (metis prod.collapse)
  with assms show ?thesis using alloc_full by fastforce
next
  case (Some i)
  then show ?thesis by (metis prod.collapse)
qed

lemma card_used_le: "ok p \<Longrightarrow> card (used p) \<le> size p"
  using used_bound by (metis card_lessThan card_mono finite_lessThan)

end

interpretation mb: block_pool memb_alloc "\<lambda>m i. snd (memb_free m i)" memb_used length memb_ok
proof (unfold_locales, goal_cases)
  case (1 p i p')
  then show ?case by (cases p rule: memb_alloc_cases) (auto simp: memb_used_def)
next
  case (2 p i p')
  then show ?case
    by (cases p rule: memb_alloc_cases) (auto simp: memb_used_def nth_list_update)
next
  case (3 p p')
  then show ?case by (cases p rule: memb_alloc_cases) (auto simp: memb_used_def)
next
  case (4 p r p')
  then show ?case
    by (cases p rule: memb_alloc_cases) (auto simp: memb_ok_def dest: set_update_subset_insert [THEN subsetD])
next
  case (5 p i)
  then show ?case
    by (auto simp: memb_used_def memb_free_def memb_ok_def Let_def nth_list_update split: if_splits)
next
  case (6 p i)
  then have "i < length p \<Longrightarrow> p ! i \<le> 1" by (simp add: memb_ok_def)
  with 6 show ?case
    by (auto simp: memb_free_def memb_ok_def Let_def dest: set_update_subset_insert [THEN subsetD])
next
  case (7 p)
  then show ?case by (auto simp: memb_used_def)
qed

lemma memb_free_count_0: "memb_free_count m = 0 \<longleftrightarrow> memb_alloc m = (None, m)"
proof (cases m rule: memb_alloc_cases)
  case full
  then show ?thesis by (auto simp: memb_free_count_def filter_empty_conv in_set_conv_nth)
next
  case (block i)
  then show ?thesis by (auto simp: memb_free_count_def filter_empty_conv in_set_conv_nth)
qed

lemma filter_length_update:
  "i < length m \<Longrightarrow> m ! i = 0 \<Longrightarrow> c \<noteq> 0 \<Longrightarrow>
     Suc (length (filter (\<lambda>c. c = 0) (m[i := c]))) = length (filter (\<lambda>c. c = 0) (m :: nat list))"
proof (induction m arbitrary: i)
  case (Cons x m)
  then show ?case by (cases i) auto
qed simp

lemma memb_free_count_alloc:
  "memb_alloc m = (Some i, m') \<Longrightarrow> Suc (memb_free_count m') = memb_free_count m"
  by (cases m rule: memb_alloc_cases) (auto simp: memb_free_count_def filter_length_update)

lemma memb_free_count_free:
  assumes "memb_ok m" and "i \<in> memb_used m"
  shows "memb_free_count (snd (memb_free m i)) = Suc (memb_free_count m)"
proof -
  have i: "i < length m" "m ! i = 1" using assms by (auto simp: memb_used_def memb_ok_def in_set_conv_nth) (metis le_antisym Suc_leI nth_mem)+
  then have m: "(m[i := 0])[i := 1] = m" by (metis list_update_id list_update_overwrite)
  have "Suc (length (filter (\<lambda>c. c = 0) ((m[i := 0])[i := 1]))) = length (filter (\<lambda>c. c = 0) (m[i := 0]))"
    using i by (intro filter_length_update) simp_all
  then show ?thesis using i m by (simp add: memb_free_count_def memb_free_def)
qed

end
