(* ===== verification/Serial_Frame.thy ===== *)
theory Serial_Frame
  imports Contiki_Core
begin

text \<open>
  The frame layer of the serial link to the Z-Wave module (\<open>src/src/serialapi/conhandle.c\<close>):
  framing and checksum on transmission (\<open>ConTxFrame\<close>), the receive state machine with
  acknowledgements and timeouts (\<open>ConUpdate\<close>) and initialisation (\<open>ConInit\<close>).

  The port of \<open>contiki/cpu/native/linux-serial.c\<close> is the pair of the bytes that the module will
  deliver and the bytes written so far. \<open>SerialGetBuffer\<close> blocks until it has all bytes and ends
  the process when the line fails; running out of bytes in the middle of a frame is the error
  \<open>SerialReadError\<close>. The C arrays \<open>tx_buffer\<close> and \<open>serBuf\<close> have 255 bytes: a write behind their
  end is an error value too. The clock does not advance during one call.
\<close>

section \<open>Data\<close>

datatype con_rx_state =
  stateSOFHunt | stateLen | stateType | stateCmd | stateData | stateChecksum

datatype con_ret =
    conIdle | conFrameReceived | conFrameSent | conFrameErr
  | conRxTimeout | conTxTimeout | conTxErr | conTxWait

datatype con_error = TxBufferOverflow | SerBufOverflow | SerialReadError

record con =
  serBuf :: buffer
  serBufLen :: byte
  con_state :: con_rx_state
  bChecksum_RX :: byte
  timeOutACK :: timer
  timeOutRX :: timer
  rxActive :: bool
  AckNakNeeded :: bool
  rx :: buffer
  tx :: buffer
  now :: u64

abbreviation SOF :: byte where "SOF \<equiv> 0x01"
abbreviation ACK :: byte where "ACK \<equiv> 0x06"
abbreviation NAK :: byte where "NAK \<equiv> 0x15"
abbreviation CAN :: byte where "CAN \<equiv> 0x18"

definition SERBUF_MAX :: nat where "SERBUF_MAX = 255"
definition FRAME_LENGTH_MIN :: nat where "FRAME_LENGTH_MIN = 3"
definition FRAME_LENGTH_MAX :: nat where "FRAME_LENGTH_MAX = SERBUF_MAX"

section \<open>The port\<close>

definition SerialCheck :: "con \<Rightarrow> bool" where
  "SerialCheck c = (rx c \<noteq> [])"

definition SerialGetBuffer :: "nat \<Rightarrow> con \<Rightarrow> con_error + (buffer \<times> con)" where
  "SerialGetBuffer n c =
     (if length (rx c) < n then Inl SerialReadError
      else Inr (take n (rx c), c\<lparr>rx := drop n (rx c)\<rparr>))"

definition SerialPutBuffer :: "buffer \<Rightarrow> con \<Rightarrow> con" where
  "SerialPutBuffer bs c = c\<lparr>tx := tx c @ bs\<rparr>"

definition SerialPutByte :: "byte \<Rightarrow> con \<Rightarrow> con" where
  "SerialPutByte b c = SerialPutBuffer [b] c"

section \<open>Operations\<close>

text \<open>
  \<open>ConTxFrame\<close> assembles the frame in the 255-byte array \<open>tx_buffer\<close>; the last byte goes to index
  \<open>len + 4\<close>. \<open>Buf\<close> is the data handed over, whose length is the \<open>len\<close> parameter of the C
  function.
\<close>

definition con_frame :: "byte \<Rightarrow> byte \<Rightarrow> buffer \<Rightarrow> buffer" where
  "con_frame cmd ty Buf =
     (let body = [of_nat (length Buf) + 3, ty, cmd] @ Buf
      in SOF # body @ [xor_sum 0xFF body])"

definition ConTxFrame :: "byte \<Rightarrow> byte \<Rightarrow> buffer \<Rightarrow> con \<Rightarrow> con_error + con" where
  "ConTxFrame cmd ty Buf c =
     (case store_at 0 (con_frame cmd ty Buf) (replicate 255 0) of
        None \<Rightarrow> Inl TxBufferOverflow
      | Some tx_buffer \<Rightarrow>
          Inr ((SerialPutBuffer (take (length Buf + 5) tx_buffer) c)
                 \<lparr>AckNakNeeded := True, timeOutACK := timer_restart (now c) (timeOutACK c)\<rparr>))"

text \<open>The body of the receive loop for one byte: the \<open>switch (con_state)\<close> of \<open>ConUpdate\<close>.\<close>

definition con_reset_rx :: "con \<Rightarrow> con" where
  "con_reset_rx c = c\<lparr>con_state := stateSOFHunt, rxActive := False\<rparr>"

definition con_hunt :: "byte \<Rightarrow> con \<Rightarrow> con_ret \<times> con" where
  "con_hunt b c =
     (if b = SOF then
        (conIdle, c\<lparr>bChecksum_RX := 0xFF, serBufLen := 0, rxActive := True,
                    con_state := stateLen, timeOutRX := timer_restart (now c) (timeOutRX c)\<rparr>)
      else if AckNakNeeded c then
        if b = ACK then (conFrameSent, c\<lparr>AckNakNeeded := False\<rparr>)
        else if b = NAK then (conTxErr, c\<lparr>AckNakNeeded := False\<rparr>)
        else if b = CAN then (conTxWait, c\<lparr>AckNakNeeded := False\<rparr>)
        else (conIdle, c)
      else (conIdle, c))"

definition con_frame_body :: "bool \<Rightarrow> byte \<Rightarrow> con \<Rightarrow> con_error + (con_ret \<times> con)" where
  "con_frame_body acknowledge b c =
     (case SerialGetBuffer (unat b) c of
        Inl e \<Rightarrow> Inl e
      | Inr (body, c1) \<Rightarrow>
          (case store_at 0 (b # body) (serBuf c1) of
             None \<Rightarrow> Inl SerBufOverflow
           | Some buf \<Rightarrow>
               let sum = xor_sum 0xFF (take (unat b + 1) buf);
                   c2 = c1\<lparr>serBuf := buf, serBufLen := b, bChecksum_RX := sum\<rparr>;
                   (ret, c3) =
                     (if acknowledge then
                        if sum = 0 then (conFrameReceived, SerialPutByte ACK c2)
                        else (conFrameErr, SerialPutByte NAK c2)
                      else (conIdle, SerialPutByte CAN c2))
               in Inr (ret, con_reset_rx c3)))"

definition con_byte :: "bool \<Rightarrow> byte \<Rightarrow> con \<Rightarrow> con_error + (con_ret \<times> con)" where
  "con_byte acknowledge b c =
     (case con_state c of
        stateSOFHunt \<Rightarrow> Inr (con_hunt b c)
      | stateLen \<Rightarrow>
          if unat b < FRAME_LENGTH_MIN \<or> unat b > FRAME_LENGTH_MAX
          then Inr (conIdle, con_reset_rx c)
          else con_frame_body acknowledge b c
      | _ \<Rightarrow> Inr (conIdle, con_reset_rx c))"

lemma con_hunt_rx [simp]: "rx (snd (con_hunt b c)) = rx c"
  by (simp add: con_hunt_def)

lemma con_frame_body_rx:
  "con_frame_body a b c = Inr (ret, c') \<Longrightarrow> rx c' = drop (unat b) (rx c)"
  by (auto simp: con_frame_body_def SerialGetBuffer_def SerialPutByte_def SerialPutBuffer_def
        con_reset_rx_def Let_def split: if_splits option.splits)

lemma con_byte_rx: "con_byte a b c = Inr (ret, c') \<Longrightarrow> length (rx c') \<le> length (rx c)"
  by (cases "con_state c")
     (auto simp: con_byte_def con_reset_rx_def dest: con_frame_body_rx
        split: if_splits dest: arg_cong [where f = "\<lambda>p. rx (snd p)"])

text \<open>The \<open>do ... while ((retVal == conIdle) && SerialCheck())\<close> loop.\<close>

function con_loop :: "bool \<Rightarrow> con \<Rightarrow> con_error + (con_ret \<times> con)" where
  "con_loop acknowledge c =
     (if \<not> SerialCheck c then Inr (conIdle, c)
      else case con_byte acknowledge (hd (rx c)) (c\<lparr>rx := tl (rx c)\<rparr>) of
             Inl e \<Rightarrow> Inl e
           | Inr (ret, c') \<Rightarrow> if ret = conIdle then con_loop acknowledge c' else Inr (ret, c'))"
  by pat_completeness auto
termination
proof (relation "measure (\<lambda>(_, c). length (rx c))", simp, goal_cases)
  case (1 acknowledge c x ret c')
  then have "length (rx c') \<le> length (tl (rx c))"
    using con_byte_rx [of acknowledge "hd (rx c)" "c\<lparr>rx := tl (rx c)\<rparr>" ret c'] by simp
  with 1 show ?case by (cases "rx c") (auto simp: SerialCheck_def)
qed

declare con_loop.simps [simp del]

definition con_timeouts :: "con_ret \<times> con \<Rightarrow> con_ret \<times> con" where
  "con_timeouts = (\<lambda>(ret, c).
     if ret \<noteq> conIdle then (ret, c)
     else
       let (ret1, c1) = (if rxActive c \<and> timer_expired (now c) (timeOutRX c)
                         then (conRxTimeout, con_reset_rx c) else (ret, c))
       in if AckNakNeeded c1 \<and> timer_expired (now c1) (timeOutACK c1)
          then (conTxTimeout, c1\<lparr>AckNakNeeded := False\<rparr>) else (ret1, c1))"

definition ConUpdate :: "bool \<Rightarrow> con \<Rightarrow> con_error + (con_ret \<times> con)" where
  "ConUpdate acknowledge c =
     (case con_loop acknowledge c of Inl e \<Rightarrow> Inl e | Inr p \<Rightarrow> Inr (con_timeouts p))"

text \<open>\<open>ConInit\<close>; \<open>rc\<close> is the result of \<open>SerialInit\<close>.\<close>

definition ConInit :: "bool \<Rightarrow> con \<Rightarrow> bool \<times> con" where
  "ConInit rc c =
     (let c1 = c\<lparr>serBufLen := 0, con_state := stateSOFHunt,
                 timeOutACK := timer_set (now c) 1500, timeOutRX := timer_set (now c) 1500\<rparr>
      in (rc, if rc then SerialPutByte ACK c1 else c1))"

definition ConTypeToStr :: "con_ret \<Rightarrow> string" where
  "ConTypeToStr t =
     (case t of
        conIdle \<Rightarrow> ''conIdle'' | conFrameReceived \<Rightarrow> ''conFrameReceived''
      | conFrameSent \<Rightarrow> ''conFrameSent'' | conFrameErr \<Rightarrow> ''conFrameErr''
      | conRxTimeout \<Rightarrow> ''conRxTimeout'' | conTxTimeout \<Rightarrow> ''conTxTimeout''
      | conTxErr \<Rightarrow> ''conTxErr'' | conTxWait \<Rightarrow> ''conTxWait'')"

section \<open>One frame on the line\<close>

lemmas serial_defs = SerialCheck_def SerialGetBuffer_def SerialPutByte_def SerialPutBuffer_def

lemma con_loop_idle_byte:
  assumes "rx c = b # bs" and "con_byte a b (c\<lparr>rx := bs\<rparr>) = Inr (conIdle, c')"
  shows "con_loop a c = con_loop a c'"
  using assms by (subst con_loop.simps) (simp add: SerialCheck_def)

lemma con_loop_skip_noise:
  assumes "con_state c = stateSOFHunt" and "\<not> AckNakNeeded c" and "\<forall>b\<in>set noise. b \<noteq> SOF"
    and "rx c = noise @ bs"
  shows "con_loop a c = con_loop a (c\<lparr>rx := bs\<rparr>)"
  using assms
proof (induction noise arbitrary: c)
  case (Cons b noise)
  have "con_loop a c = con_loop a (c\<lparr>rx := noise @ bs\<rparr>)"
    by (rule con_loop_idle_byte [of _ b "noise @ bs"]) (use Cons.prems in \<open>simp_all add: con_byte_def con_hunt_def\<close>)
  also have "\<dots> = con_loop a (c\<lparr>rx := bs\<rparr>)"
    using Cons.IH [of "c\<lparr>rx := noise @ bs\<rparr>"] Cons.prems by simp
  finally show ?case .
next
  case Nil
  then show ?case by (cases c) simp
qed

lemma take_store_at_0: "store_at 0 xs buf = Some buf' \<Longrightarrow> take (length xs) buf' = xs"
  by (auto simp: store_at_def split: if_splits)

text \<open>
  A complete frame whose length byte is admissible is read in one call: the verdict depends on the
  checksum alone, one answer byte is written and the bytes behind the frame stay on the line.
\<close>

definition frame_done :: "bool \<Rightarrow> byte \<Rightarrow> buffer \<Rightarrow> buffer \<Rightarrow> con \<Rightarrow> con" where
  "frame_done ok l body rest c =
     c\<lparr>serBuf := (l # body) @ drop (length body + 1) (serBuf c), serBufLen := l,
       con_state := stateSOFHunt, bChecksum_RX := xor_sum 0xFF (l # body),
       timeOutRX := timer_restart (now c) (timeOutRX c), rxActive := False,
       rx := rest, tx := tx c @ [if ok then ACK else NAK]\<rparr>"

lemma con_frame_body_full:
  assumes "length body = unat l" and "unat l < length (serBuf c)" and "rx c = body @ rest"
  shows "con_frame_body True l c =
    Inr (if xor_sum 0xFF (l # body) = 0 then conFrameReceived else conFrameErr,
         c\<lparr>serBuf := (l # body) @ drop (length body + 1) (serBuf c), serBufLen := l,
           con_state := stateSOFHunt, bChecksum_RX := xor_sum 0xFF (l # body),
           rxActive := False, rx := rest,
           tx := tx c @ [if xor_sum 0xFF (l # body) = 0 then ACK else NAK]\<rparr>)"
proof -
  have "store_at 0 (l # body) (serBuf c) = Some ((l # body) @ drop (length body + 1) (serBuf c))"
    using assms by (simp add: store_at_def)
  then show ?thesis
    using assms by (simp add: con_frame_body_def serial_defs con_reset_rx_def Let_def)
qed

lemma con_loop_frame:
  assumes "con_state c = stateSOFHunt" and "length (serBuf c) = SERBUF_MAX"
    and "3 \<le> unat l" and "unat l < 255" and "length body = unat l"
    and "rx c = SOF # l # body @ rest"
  shows "con_loop True c =
    (let ok = (xor_sum 0xFF (l # body) = 0)
     in Inr (if ok then conFrameReceived else conFrameErr, frame_done ok l body rest c))"
proof -
  let ?c1 = "c\<lparr>bChecksum_RX := 0xFF, serBufLen := 0, rxActive := True, con_state := stateLen,
      timeOutRX := timer_restart (now c) (timeOutRX c), rx := l # body @ rest\<rparr>"
  have "con_loop True c = con_loop True ?c1"
    by (rule con_loop_idle_byte [of _ SOF "l # body @ rest"])
       (use assms in \<open>simp_all add: con_byte_def con_hunt_def\<close>)
  also have "\<dots> = (let ok = (xor_sum 0xFF (l # body) = 0)
     in Inr (if ok then conFrameReceived else conFrameErr, frame_done ok l body rest c))"
    using assms
    by (subst con_loop.simps)
       (simp add: SerialCheck_def con_byte_def FRAME_LENGTH_MIN_def FRAME_LENGTH_MAX_def
          SERBUF_MAX_def con_frame_body_full [where rest = rest] frame_done_def Let_def)
  finally show ?thesis .
qed

lemma ConUpdate_frame:
  assumes "con_state c = stateSOFHunt" and "length (serBuf c) = SERBUF_MAX" and "\<not> AckNakNeeded c"
    and "\<forall>b\<in>set noise. b \<noteq> SOF"
    and "3 \<le> unat l" and "unat l < 255" and "length body = unat l"
    and "rx c = noise @ SOF # l # body @ rest"
  shows "ConUpdate True c =
    (let ok = (xor_sum 0xFF (l # body) = 0)
     in Inr (if ok then conFrameReceived else conFrameErr, frame_done ok l body rest c))"
proof -
  have "con_loop True c = con_loop True (c\<lparr>rx := SOF # l # body @ rest\<rparr>)"
    by (rule con_loop_skip_noise) (use assms in simp_all)
  moreover have "frame_done ok l body rest (c\<lparr>rx := bs\<rparr>) = frame_done ok l body rest c" for ok bs
    by (simp add: frame_done_def)
  ultimately show ?thesis
    using assms by (simp add: ConUpdate_def con_loop_frame [where rest = rest] Let_def con_timeouts_def)
qed

lemma length_con_frame [simp]: "length (con_frame cmd ty Buf) = length Buf + 5"
  by (simp add: con_frame_def Let_def)

lemma ConTxFrame_sent:
  assumes "length Buf \<le> 250"
  shows "ConTxFrame cmd ty Buf c =
    Inr (c\<lparr>tx := tx c @ con_frame cmd ty Buf, AckNakNeeded := True,
           timeOutACK := timer_restart (now c) (timeOutACK c)\<rparr>)"
proof -
  have "store_at 0 (con_frame cmd ty Buf) (replicate 255 0) =
      Some (con_frame cmd ty Buf @ replicate (250 - length Buf) 0)"
    using assms by (simp add: store_at_def)
  then show ?thesis by (simp add: ConTxFrame_def SerialPutBuffer_def)
qed

definition con_body :: "byte \<Rightarrow> byte \<Rightarrow> buffer \<Rightarrow> buffer" where
  "con_body cmd ty Buf =
     [ty, cmd] @ Buf @ [xor_sum 0xFF ([of_nat (length Buf) + 3, ty, cmd] @ Buf)]"

lemma con_frame_split: "con_frame cmd ty Buf = SOF # (of_nat (length Buf) + 3) # con_body cmd ty Buf"
  by (simp add: con_frame_def con_body_def Let_def)

lemma con_len_byte: "n \<le> 250 \<Longrightarrow> unat (of_nat n + 3 :: byte) = n + 3"
proof -
  assume "n \<le> 250"
  then have "unat (of_nat (n + 3) :: byte) = n + 3" by (intro unat_of_nat_byte) simp
  then show ?thesis by simp
qed

lemma con_body_sum: "xor_sum 0xFF ((of_nat (length Buf) + 3) # con_body cmd ty Buf) = 0"
  using xor_sum_own_checksum [of "0xFF" "[of_nat (length Buf) + 3, ty, cmd] @ Buf"]
  by (simp add: con_body_def)

lemma length_con_body [simp]: "length (con_body cmd ty Buf) = length Buf + 3"
  by (simp add: con_body_def)

section \<open>The state machine keeps its invariant\<close>

text \<open>
  Between two calls the machine hunts for a start byte or waits for the length byte; it is marked
  active exactly in the second case and the receive buffer keeps its size.
\<close>

definition con_inv :: "con \<Rightarrow> bool" where
  "con_inv c \<longleftrightarrow> length (serBuf c) = SERBUF_MAX \<and>
     (con_state c = stateSOFHunt \<and> \<not> rxActive c \<or> con_state c = stateLen \<and> rxActive c)"

lemma con_hunt_inv: "con_inv c \<Longrightarrow> con_state c = stateSOFHunt \<Longrightarrow> con_inv (snd (con_hunt b c))"
  by (auto simp: con_hunt_def con_inv_def)

lemma con_frame_body_inv:
  "con_inv c \<Longrightarrow> con_frame_body a b c = Inr (ret, c') \<Longrightarrow> con_inv c'"
  by (auto simp: con_frame_body_def serial_defs con_reset_rx_def con_inv_def Let_def
        dest: store_at_length split: if_splits option.splits)

lemma con_byte_inv:
  assumes "con_inv c" and "con_byte a b c = Inr (ret, c')"
  shows "con_inv c'"
proof (cases "con_state c = stateSOFHunt")
  case True
  with assms show ?thesis using con_hunt_inv [of c b] by (simp add: con_byte_def)
next
  case False
  with assms(1) have st: "con_state c = stateLen" by (auto simp: con_inv_def)
  have "con_inv (con_reset_rx c)" using assms(1) by (simp add: con_reset_rx_def con_inv_def)
  with st assms show ?thesis
    by (auto simp: con_byte_def dest: con_frame_body_inv split: if_splits)
qed

lemma con_inv_rx [simp]: "con_inv (c\<lparr>rx := bs\<rparr>) = con_inv c"
  by (simp add: con_inv_def)

lemma con_loop_inv: "con_inv c \<Longrightarrow> con_loop a c = Inr (ret, c') \<Longrightarrow> con_inv c'"
proof (induction a c arbitrary: ret c' rule: con_loop.induct)
  case (1 a c)
  show ?case
  proof (cases "SerialCheck c")
    case False
    with 1 show ?thesis by (simp add: con_loop.simps)
  next
    case True
    with 1(3) obtain r d where b: "con_byte a (hd (rx c)) (c\<lparr>rx := tl (rx c)\<rparr>) = Inr (r, d)"
      by (subst (asm) con_loop.simps) (auto split: sum.splits)
    have "con_inv d" by (rule con_byte_inv [OF _ b]) (use 1(2) in simp)
    with True b 1(1) [OF _ b refl] 1(3) show ?thesis
      by (subst (asm) (2) con_loop.simps) (auto split: if_splits)
  qed
qed

lemma con_timeouts_inv: "con_inv c \<Longrightarrow> con_inv (snd (con_timeouts (ret, c)))"
  by (auto simp: con_timeouts_def con_reset_rx_def con_inv_def Let_def)

section \<open>Properties\<close>

text \<open>
  C1. Frame round trip over the serial line: for every command, type and payload of at most 250
  bytes, the bytes that \<open>ConTxFrame\<close> writes, arriving at a hunting receiver behind any noise
  without a start byte and in front of any further bytes, make \<open>ConUpdate\<close> report
  \<open>conFrameReceived\<close>, answer with exactly one ACK, hold length, type, command and payload in
  \<open>serBuf\<close>, and leave the further bytes on the line.
\<close>

theorem serial_frame_roundtrip:
  assumes "length Buf \<le> 250" and "ConTxFrame cmd ty Buf s = Inr s'" and "tx s = []"
    and "con_inv c" and "con_state c = stateSOFHunt" and "\<not> AckNakNeeded c"
    and "\<forall>b\<in>set noise. b \<noteq> SOF" and "rx c = noise @ tx s' @ rest"
  shows "\<exists>c'. ConUpdate True c = Inr (conFrameReceived, c') \<and>
    take (length Buf + 3) (serBuf c') = [of_nat (length Buf + 3), ty, cmd] @ Buf \<and>
    unat (serBufLen c') = length Buf + 3 \<and> rx c' = rest \<and> tx c' = tx c @ [ACK] \<and>
    con_inv c' \<and> con_state c' = stateSOFHunt"
proof -
  let ?l = "of_nat (length Buf) + 3 :: byte" and ?body = "con_body cmd ty Buf"
  have line: "rx c = noise @ SOF # ?l # ?body @ rest"
    using assms ConTxFrame_sent [OF assms(1), of cmd ty s] by (auto simp: con_frame_split)
  have len: "unat ?l = length Buf + 3" using assms(1) by (rule con_len_byte)
  have "ConUpdate True c = Inr (conFrameReceived, frame_done True ?l ?body rest c)"
    by (subst ConUpdate_frame [OF _ _ _ _ _ _ _ line])
       (use assms len con_body_sum in \<open>auto simp: con_inv_def\<close>)
  with len assms show ?thesis
    by (auto simp: frame_done_def con_inv_def con_body_def SERBUF_MAX_def numeral_3_eq_3)
qed

text \<open>
  C2. Error detection of the serial line: when the bytes of such a frame arrive with exactly one
  byte behind the length byte changed, \<open>ConUpdate\<close> reports \<open>conFrameErr\<close>, answers with exactly
  one NAK and consumes exactly the damaged frame.
\<close>

theorem serial_single_byte_error_detected:
  assumes "length Buf \<le> 250" and "con_inv c" and "con_state c = stateSOFHunt"
    and "\<not> AckNakNeeded c" and "2 \<le> i" and "i < length Buf + 5" and "d \<noteq> 0"
    and "rx c = (con_frame cmd ty Buf)[i := con_frame cmd ty Buf ! i XOR d] @ rest"
  shows "\<exists>c'. ConUpdate True c = Inr (conFrameErr, c') \<and> rx c' = rest \<and>
    tx c' = tx c @ [NAK] \<and> con_inv c'"
proof -
  let ?l = "of_nat (length Buf) + 3 :: byte" and ?body = "con_body cmd ty Buf"
  define j where "j = i - 2"
  let ?bad = "?body[j := ?body ! j XOR d]"
  have i: "i = Suc (Suc j)" and j: "j < length ?body" using assms(5,6) by (simp_all add: j_def)
  have line: "rx c = [] @ SOF # ?l # ?bad @ rest" using assms(8) by (simp add: i con_frame_split)
  have len: "unat ?l = length Buf + 3" using assms(1) by (rule con_len_byte)
  have "xor_sum 0xFF (?l # ?bad) = d"
    using xor_sum_update [of "Suc j" "?l # ?body" "0xFF" d] j con_body_sum [of Buf cmd ty] by simp
  then have "ConUpdate True c = Inr (conFrameErr, frame_done False ?l ?bad rest c)"
    by (subst ConUpdate_frame [OF _ _ _ _ _ _ _ line])
       (use assms len in \<open>auto simp: con_inv_def\<close>)
  with assms show ?thesis
    by (auto simp: frame_done_def con_inv_def SERBUF_MAX_def)
qed

text \<open>
  Every operation of the frame layer keeps the invariant of the receive state machine.
\<close>

lemma serial_invariant_kept:
  "(ConTxFrame cmd ty Buf c = Inr c1 \<longrightarrow> con_inv c \<longrightarrow> con_inv c1) \<and>
   (ConUpdate a c = Inr (ret, c2) \<longrightarrow> con_inv c \<longrightarrow> con_inv c2) \<and>
   (\<not> rxActive c \<longrightarrow> length (serBuf c) = SERBUF_MAX \<longrightarrow> con_inv (snd (ConInit rc c)))"
proof (intro conjI impI)
  assume "ConTxFrame cmd ty Buf c = Inr c1" and "con_inv c"
  then show "con_inv c1"
    by (auto simp: ConTxFrame_def SerialPutBuffer_def con_inv_def split: option.splits)
next
  assume u: "ConUpdate a c = Inr (ret, c2)" and inv: "con_inv c"
  then obtain r d where d: "con_loop a c = Inr (r, d)" "con_timeouts (r, d) = (ret, c2)"
    by (auto simp: ConUpdate_def split: sum.splits)
  with con_timeouts_inv [OF con_loop_inv [OF inv d(1)], of r] show "con_inv c2" by simp
next
  assume "\<not> rxActive c" and "length (serBuf c) = SERBUF_MAX"
  then show "con_inv (snd (ConInit rc c))"
    by (simp add: ConInit_def con_inv_def SerialPutByte_def SerialPutBuffer_def Let_def)
qed

text \<open>
  C4. Bounds of the frame layer: a transmission overruns the 255-byte array \<open>tx_buffer\<close> exactly
  when the payload is longer than 250 bytes, and a frame whose length byte is 255, which the range
  check admits, overruns the receive buffer.
\<close>

theorem serial_buffer_overruns:
  "(ConTxFrame cmd ty Buf c = Inl TxBufferOverflow \<longleftrightarrow> 250 < length Buf) \<and>
   (con_inv c \<longrightarrow> con_state c = stateLen \<longrightarrow> rx c = 255 # body \<longrightarrow> 255 \<le> length body \<longrightarrow>
      ConUpdate a c = Inl SerBufOverflow)"
proof (intro conjI impI)
  show "ConTxFrame cmd ty Buf c = Inl TxBufferOverflow \<longleftrightarrow> 250 < length Buf"
    by (auto simp: ConTxFrame_def store_at_def)
next
  assume a: "con_inv c" "con_state c = stateLen" "rx c = 255 # body" "255 \<le> length body"
  then have "con_frame_body a 255 (c\<lparr>rx := body\<rparr>) = Inl SerBufOverflow"
    by (simp add: con_frame_body_def SerialGetBuffer_def con_inv_def SERBUF_MAX_def store_at_def)
  with a show "ConUpdate a c = Inl SerBufOverflow"
    by (simp add: ConUpdate_def con_loop.simps [of a c] SerialCheck_def con_byte_def
          FRAME_LENGTH_MIN_def FRAME_LENGTH_MAX_def SERBUF_MAX_def)
qed

section \<open>Witnesses\<close>

definition con0 :: con where
  "con0 = \<lparr>serBuf = replicate 255 0, serBufLen = 0, con_state = stateSOFHunt, bChecksum_RX = 0,
     timeOutACK = timer_set 0 1500, timeOutRX = timer_set 0 1500, rxActive = False,
     AckNakNeeded = False, rx = [], tx = [], now = 0\<rparr>"

lemma con0_inv [simp]: "con_inv (con0\<lparr>rx := bs\<rparr>)" "con_inv con0"
  by (simp_all add: con0_def con_inv_def SERBUF_MAX_def)

lemma con0_sel [simp]:
  "con_state con0 = stateSOFHunt" "\<not> AckNakNeeded con0" "tx con0 = []" "\<not> rxActive con0"
  "length (serBuf con0) = 255"
  by (simp_all add: con0_def)

theorem serial_frame_roundtrip_witness:
  "\<exists>s' c'. ConTxFrame 0x13 0 [5, 2, 0x20, 1] con0 = Inr s' \<and>
     ConUpdate True (con0\<lparr>rx := [0x55] @ tx s' @ [ACK]\<rparr>) = Inr (conFrameReceived, c') \<and>
     rx c' = [ACK] \<and> tx c' = [ACK]"
proof -
  obtain s' where s: "ConTxFrame 0x13 0 [5, 2, 0x20, 1] con0 = Inr s'"
    using ConTxFrame_sent [of "[5, 2, 0x20, 1]" "0x13" 0 con0] by simp
  have "\<exists>c'. ConUpdate True (con0\<lparr>rx := [0x55] @ tx s' @ [ACK]\<rparr>) = Inr (conFrameReceived, c') \<and>
      take (length [5, 2, 0x20, 1 :: byte] + 3) (serBuf c') =
        [of_nat (length [5, 2, 0x20, 1 :: byte] + 3), 0, 0x13] @ [5, 2, 0x20, 1] \<and>
      unat (serBufLen c') = length [5, 2, 0x20, 1 :: byte] + 3 \<and> rx c' = [ACK] \<and>
      tx c' = tx (con0\<lparr>rx := [0x55] @ tx s' @ [ACK]\<rparr>) @ [ACK] \<and> con_inv c' \<and>
      con_state c' = stateSOFHunt"
    by (rule serial_frame_roundtrip [OF _ s]) simp_all
  with s show ?thesis by auto
qed

theorem serial_single_byte_error_detected_witness:
  "\<exists>c'. ConUpdate True (con0\<lparr>rx := [1, 4, 0, 0x14, 7, 0xEF]\<rparr>) = Inr (conFrameErr, c') \<and>
     tx c' = [NAK]"
  using serial_single_byte_error_detected
    [of "[7]" "con0\<lparr>rx := [1, 4, 0, 0x14, 7, 0xEF]\<rparr>" 3 7 "0x13" 0 "[]"]
  by (auto simp: con_frame_def Let_def)

lemma serial_invariant_kept_witness:
  "con_inv (snd (ConInit True con0))"
  using serial_invariant_kept [of 0 0 "[]" con0 con0 True conIdle con0 True] by (simp add: SERBUF_MAX_def)

theorem serial_buffer_overruns_witness:
  "ConUpdate True (con0\<lparr>con_state := stateLen, rxActive := True, rx := 255 # replicate 255 0\<rparr>) =
     Inl SerBufOverflow"
  using serial_buffer_overruns [of 0 0 "[]"
    "con0\<lparr>con_state := stateLen, rxActive := True, rx := 255 # replicate 255 0\<rparr>" "replicate 255 0" True]
  by (simp add: con_inv_def SERBUF_MAX_def)

end
