(* ===== verification/AES.thy ===== *)
theory AES
  imports ZGW_Prelude
begin

text \<open>
  AES-128 as implemented in \<open>libs2/crypto/aes/aes.c\<close>: key schedule, cipher and inverse cipher, the
  single-block (ECB) entry points and the CBC entry points.

  The 4x4 \<open>state\<close> of the C code is a view on the 16 bytes of the output block, so a state is the
  list of these bytes and \<open>(*state)[i][j]\<close> is element \<open>4 * i + j\<close>. The file-level variables
  \<open>RoundKey\<close> and \<open>Iv\<close> are passed explicitly. Shown here: the inverse cipher undoes the cipher for
  every key and block, both directions; the tables are inverse to each other; CBC decryption
  undoes CBC encryption for whole blocks.
\<close>

section \<open>Tables\<close>

definition sbox :: buffer where
  "sbox = [
    0x63, 0x7C, 0x77, 0x7B, 0xF2, 0x6B, 0x6F, 0xC5, 0x30, 0x01, 0x67, 0x2B, 0xFE, 0xD7, 0xAB, 0x76,
    0xCA, 0x82, 0xC9, 0x7D, 0xFA, 0x59, 0x47, 0xF0, 0xAD, 0xD4, 0xA2, 0xAF, 0x9C, 0xA4, 0x72, 0xC0,
    0xB7, 0xFD, 0x93, 0x26, 0x36, 0x3F, 0xF7, 0xCC, 0x34, 0xA5, 0xE5, 0xF1, 0x71, 0xD8, 0x31, 0x15,
    0x04, 0xC7, 0x23, 0xC3, 0x18, 0x96, 0x05, 0x9A, 0x07, 0x12, 0x80, 0xE2, 0xEB, 0x27, 0xB2, 0x75,
    0x09, 0x83, 0x2C, 0x1A, 0x1B, 0x6E, 0x5A, 0xA0, 0x52, 0x3B, 0xD6, 0xB3, 0x29, 0xE3, 0x2F, 0x84,
    0x53, 0xD1, 0x00, 0xED, 0x20, 0xFC, 0xB1, 0x5B, 0x6A, 0xCB, 0xBE, 0x39, 0x4A, 0x4C, 0x58, 0xCF,
    0xD0, 0xEF, 0xAA, 0xFB, 0x43, 0x4D, 0x33, 0x85, 0x45, 0xF9, 0x02, 0x7F, 0x50, 0x3C, 0x9F, 0xA8,
    0x51, 0xA3, 0x40, 0x8F, 0x92, 0x9D, 0x38, 0xF5, 0xBC, 0xB6, 0xDA, 0x21, 0x10, 0xFF, 0xF3, 0xD2,
    0xCD, 0x0C, 0x13, 0xEC, 0x5F, 0x97, 0x44, 0x17, 0xC4, 0xA7, 0x7E, 0x3D, 0x64, 0x5D, 0x19, 0x73,
    0x60, 0x81, 0x4F, 0xDC, 0x22, 0x2A, 0x90, 0x88, 0x46, 0xEE, 0xB8, 0x14, 0xDE, 0x5E, 0x0B, 0xDB,
    0xE0, 0x32, 0x3A, 0x0A, 0x49, 0x06, 0x24, 0x5C, 0xC2, 0xD3, 0xAC, 0x62, 0x91, 0x95, 0xE4, 0x79,
    0xE7, 0xC8, 0x37, 0x6D, 0x8D, 0xD5, 0x4E, 0xA9, 0x6C, 0x56, 0xF4, 0xEA, 0x65, 0x7A, 0xAE, 0x08,
    0xBA, 0x78, 0x25, 0x2E, 0x1C, 0xA6, 0xB4, 0xC6, 0xE8, 0xDD, 0x74, 0x1F, 0x4B, 0xBD, 0x8B, 0x8A,
    0x70, 0x3E, 0xB5, 0x66, 0x48, 0x03, 0xF6, 0x0E, 0x61, 0x35, 0x57, 0xB9, 0x86, 0xC1, 0x1D, 0x9E,
    0xE1, 0xF8, 0x98, 0x11, 0x69, 0xD9, 0x8E, 0x94, 0x9B, 0x1E, 0x87, 0xE9, 0xCE, 0x55, 0x28, 0xDF,
    0x8C, 0xA1, 0x89, 0x0D, 0xBF, 0xE6, 0x42, 0x68, 0x41, 0x99, 0x2D, 0x0F, 0xB0, 0x54, 0xBB, 0x16]"

definition rsbox :: buffer where
  "rsbox = [
    0x52, 0x09, 0x6A, 0xD5, 0x30, 0x36, 0xA5, 0x38, 0xBF, 0x40, 0xA3, 0x9E, 0x81, 0xF3, 0xD7, 0xFB,
    0x7C, 0xE3, 0x39, 0x82, 0x9B, 0x2F, 0xFF, 0x87, 0x34, 0x8E, 0x43, 0x44, 0xC4, 0xDE, 0xE9, 0xCB,
    0x54, 0x7B, 0x94, 0x32, 0xA6, 0xC2, 0x23, 0x3D, 0xEE, 0x4C, 0x95, 0x0B, 0x42, 0xFA, 0xC3, 0x4E,
    0x08, 0x2E, 0xA1, 0x66, 0x28, 0xD9, 0x24, 0xB2, 0x76, 0x5B, 0xA2, 0x49, 0x6D, 0x8B, 0xD1, 0x25,
    0x72, 0xF8, 0xF6, 0x64, 0x86, 0x68, 0x98, 0x16, 0xD4, 0xA4, 0x5C, 0xCC, 0x5D, 0x65, 0xB6, 0x92,
    0x6C, 0x70, 0x48, 0x50, 0xFD, 0xED, 0xB9, 0xDA, 0x5E, 0x15, 0x46, 0x57, 0xA7, 0x8D, 0x9D, 0x84,
    0x90, 0xD8, 0xAB, 0x00, 0x8C, 0xBC, 0xD3, 0x0A, 0xF7, 0xE4, 0x58, 0x05, 0xB8, 0xB3, 0x45, 0x06,
    0xD0, 0x2C, 0x1E, 0x8F, 0xCA, 0x3F, 0x0F, 0x02, 0xC1, 0xAF, 0xBD, 0x03, 0x01, 0x13, 0x8A, 0x6B,
    0x3A, 0x91, 0x11, 0x41, 0x4F, 0x67, 0xDC, 0xEA, 0x97, 0xF2, 0xCF, 0xCE, 0xF0, 0xB4, 0xE6, 0x73,
    0x96, 0xAC, 0x74, 0x22, 0xE7, 0xAD, 0x35, 0x85, 0xE2, 0xF9, 0x37, 0xE8, 0x1C, 0x75, 0xDF, 0x6E,
    0x47, 0xF1, 0x1A, 0x71, 0x1D, 0x29, 0xC5, 0x89, 0x6F, 0xB7, 0x62, 0x0E, 0xAA, 0x18, 0xBE, 0x1B,
    0xFC, 0x56, 0x3E, 0x4B, 0xC6, 0xD2, 0x79, 0x20, 0x9A, 0xDB, 0xC0, 0xFE, 0x78, 0xCD, 0x5A, 0xF4,
    0x1F, 0xDD, 0xA8, 0x33, 0x88, 0x07, 0xC7, 0x31, 0xB1, 0x12, 0x10, 0x59, 0x27, 0x80, 0xEC, 0x5F,
    0x60, 0x51, 0x7F, 0xA9, 0x19, 0xB5, 0x4A, 0x0D, 0x2D, 0xE5, 0x7A, 0x9F, 0x93, 0xC9, 0x9C, 0xEF,
    0xA0, 0xE0, 0x3B, 0x4D, 0xAE, 0x2A, 0xF5, 0xB0, 0xC8, 0xEB, 0xBB, 0x3C, 0x83, 0x53, 0x99, 0x61,
    0x17, 0x2B, 0x04, 0x7E, 0xBA, 0x77, 0xD6, 0x26, 0xE1, 0x69, 0x14, 0x63, 0x55, 0x21, 0x0C, 0x7D]"

definition Rcon :: buffer where
  "Rcon = [
    0x8D, 0x01, 0x02, 0x04, 0x08, 0x10, 0x20, 0x40, 0x80, 0x1B, 0x36, 0x6C, 0xD8, 0xAB, 0x4D, 0x9A,
    0x2F, 0x5E, 0xBC, 0x63, 0xC6, 0x97, 0x35, 0x6A, 0xD4, 0xB3, 0x7D, 0xFA, 0xEF, 0xC5, 0x91, 0x39,
    0x72, 0xE4, 0xD3, 0xBD, 0x61, 0xC2, 0x9F, 0x25, 0x4A, 0x94, 0x33, 0x66, 0xCC, 0x83, 0x1D, 0x3A,
    0x74, 0xE8, 0xCB, 0x8D, 0x01, 0x02, 0x04, 0x08, 0x10, 0x20, 0x40, 0x80, 0x1B, 0x36, 0x6C, 0xD8,
    0xAB, 0x4D, 0x9A, 0x2F, 0x5E, 0xBC, 0x63, 0xC6, 0x97, 0x35, 0x6A, 0xD4, 0xB3, 0x7D, 0xFA, 0xEF,
    0xC5, 0x91, 0x39, 0x72, 0xE4, 0xD3, 0xBD, 0x61, 0xC2, 0x9F, 0x25, 0x4A, 0x94, 0x33, 0x66, 0xCC,
    0x83, 0x1D, 0x3A, 0x74, 0xE8, 0xCB, 0x8D, 0x01, 0x02, 0x04, 0x08, 0x10, 0x20, 0x40, 0x80, 0x1B,
    0x36, 0x6C, 0xD8, 0xAB, 0x4D, 0x9A, 0x2F, 0x5E, 0xBC, 0x63, 0xC6, 0x97, 0x35, 0x6A, 0xD4, 0xB3,
    0x7D, 0xFA, 0xEF, 0xC5, 0x91, 0x39, 0x72, 0xE4, 0xD3, 0xBD, 0x61, 0xC2, 0x9F, 0x25, 0x4A, 0x94,
    0x33, 0x66, 0xCC, 0x83, 0x1D, 0x3A, 0x74, 0xE8, 0xCB, 0x8D, 0x01, 0x02, 0x04, 0x08, 0x10, 0x20,
    0x40, 0x80, 0x1B, 0x36, 0x6C, 0xD8, 0xAB, 0x4D, 0x9A, 0x2F, 0x5E, 0xBC, 0x63, 0xC6, 0x97, 0x35,
    0x6A, 0xD4, 0xB3, 0x7D, 0xFA, 0xEF, 0xC5, 0x91, 0x39, 0x72, 0xE4, 0xD3, 0xBD, 0x61, 0xC2, 0x9F,
    0x25, 0x4A, 0x94, 0x33, 0x66, 0xCC, 0x83, 0x1D, 0x3A, 0x74, 0xE8, 0xCB, 0x8D, 0x01, 0x02, 0x04,
    0x08, 0x10, 0x20, 0x40, 0x80, 0x1B, 0x36, 0x6C, 0xD8, 0xAB, 0x4D, 0x9A, 0x2F, 0x5E, 0xBC, 0x63,
    0xC6, 0x97, 0x35, 0x6A, 0xD4, 0xB3, 0x7D, 0xFA, 0xEF, 0xC5, 0x91, 0x39, 0x72, 0xE4, 0xD3, 0xBD,
    0x61, 0xC2, 0x9F, 0x25, 0x4A, 0x94, 0x33, 0x66, 0xCC, 0x83, 0x1D, 0x3A, 0x74, 0xE8, 0xCB]"

definition getSBoxValue :: "byte \<Rightarrow> byte" where
  "getSBoxValue num = sbox ! unat num"

definition getSBoxInvert :: "byte \<Rightarrow> byte" where
  "getSBoxInvert num = rsbox ! unat num"

section \<open>Key schedule\<close>

text \<open>
  \<open>RoundKey\<close> is filled from the front: word \<open>i\<close> (four bytes) depends on words \<open>i - 1\<close> and
  \<open>i - Nk\<close> only, so the array is built by appending.
\<close>

definition round_word :: "buffer \<Rightarrow> nat \<Rightarrow> buffer" where
  "round_word RoundKey i = take 4 (drop (i * 4) RoundKey)"

definition key_step :: "buffer \<Rightarrow> nat \<Rightarrow> buffer" where
  "key_step RoundKey i =
     (let tempa = round_word RoundKey (i - 1);
          tempa = (if i mod 4 = 0
                   then let r = map getSBoxValue (rotate1 tempa) in r[0 := r ! 0 XOR Rcon ! (i div 4)]
                   else tempa)
      in RoundKey @ xor_bytes (round_word RoundKey (i - 4)) tempa)"

definition KeyExpansion :: "buffer \<Rightarrow> buffer" where
  "KeyExpansion Key = foldl key_step (take 16 Key) [4..<44]"

section \<open>Round transformations\<close>

definition AddRoundKey :: "buffer \<Rightarrow> nat \<Rightarrow> buffer \<Rightarrow> buffer" where
  "AddRoundKey RoundKey round s = xor_bytes s (take 16 (drop (round * 16) RoundKey))"

definition SubBytes :: "buffer \<Rightarrow> buffer" where
  "SubBytes s = map getSBoxValue s"

definition InvSubBytes :: "buffer \<Rightarrow> buffer" where
  "InvSubBytes s = map getSBoxInvert s"

text \<open>\<open>st s i j\<close> reads \<open>(*state)[i][j]\<close> and \<open>mv i j k l s\<close> is \<open>(*state)[i][j] = (*state)[k][l]\<close>.\<close>

definition st :: "buffer \<Rightarrow> nat \<Rightarrow> nat \<Rightarrow> byte" where
  "st s i j = s ! (4 * i + j)"

definition put :: "nat \<Rightarrow> nat \<Rightarrow> byte \<Rightarrow> buffer \<Rightarrow> buffer" where
  "put i j v s = s[4 * i + j := v]"

definition mv :: "nat \<Rightarrow> nat \<Rightarrow> nat \<Rightarrow> nat \<Rightarrow> buffer \<Rightarrow> buffer" where
  "mv i j k l s = put i j (st s k l) s"

definition ShiftRows :: "buffer \<Rightarrow> buffer" where
  "ShiftRows s =
     (let temp = st s 0 1;
          s = put 3 1 temp (mv 2 1 3 1 (mv 1 1 2 1 (mv 0 1 1 1 s)));
          temp = st s 0 2;
          s = put 2 2 temp (mv 0 2 2 2 s);
          temp = st s 1 2;
          s = put 3 2 temp (mv 1 2 3 2 s);
          temp = st s 0 3;
          s = put 1 3 temp (mv 2 3 1 3 (mv 3 3 2 3 (mv 0 3 3 3 s)))
      in s)"

definition InvShiftRows :: "buffer \<Rightarrow> buffer" where
  "InvShiftRows s =
     (let temp = st s 3 1;
          s = put 0 1 temp (mv 1 1 0 1 (mv 2 1 1 1 (mv 3 1 2 1 s)));
          temp = st s 0 2;
          s = put 2 2 temp (mv 0 2 2 2 s);
          temp = st s 1 2;
          s = put 3 2 temp (mv 1 2 3 2 s);
          temp = st s 0 3;
          s = put 3 3 temp (mv 2 3 3 3 (mv 1 3 2 3 (mv 0 3 1 3 s)))
      in s)"

definition xtime :: "byte \<Rightarrow> byte" where
  "xtime x = push_bit 1 x XOR ((drop_bit 7 x AND 1) * 0x1B)"

text \<open>One pass of the loops of \<open>MixColumns\<close> and \<open>InvMixColumns\<close>, on the four bytes of a column.\<close>

definition mix_column :: "buffer \<Rightarrow> buffer" where
  "mix_column c =
     (let t = c ! 0;
          Tmp = c ! 0 XOR c ! 1 XOR c ! 2 XOR c ! 3;
          Tm = xtime (c ! 0 XOR c ! 1); c = c[0 := c ! 0 XOR (Tm XOR Tmp)];
          Tm = xtime (c ! 1 XOR c ! 2); c = c[1 := c ! 1 XOR (Tm XOR Tmp)];
          Tm = xtime (c ! 2 XOR c ! 3); c = c[2 := c ! 2 XOR (Tm XOR Tmp)];
          Tm = xtime (c ! 3 XOR t); c = c[3 := c ! 3 XOR (Tm XOR Tmp)]
      in c)"

definition columns :: "(buffer \<Rightarrow> buffer) \<Rightarrow> buffer \<Rightarrow> buffer" where
  "columns f s = concat (map (\<lambda>i. f (take 4 (drop (4 * i) s))) [0, 1, 2, 3])"

definition MixColumns :: "buffer \<Rightarrow> buffer" where
  "MixColumns s = columns mix_column s"

definition Multiply :: "byte \<Rightarrow> byte \<Rightarrow> byte" where
  "Multiply x y =
     ((y AND 1) * x) XOR
     ((drop_bit 1 y AND 1) * xtime x) XOR
     ((drop_bit 2 y AND 1) * xtime (xtime x)) XOR
     ((drop_bit 3 y AND 1) * xtime (xtime (xtime x))) XOR
     ((drop_bit 4 y AND 1) * xtime (xtime (xtime (xtime x))))"

definition inv_mix_column :: "buffer \<Rightarrow> buffer" where
  "inv_mix_column v =
     (let a = v ! 0; b = v ! 1; c = v ! 2; d = v ! 3
      in [Multiply a 0x0E XOR Multiply b 0x0B XOR Multiply c 0x0D XOR Multiply d 0x09,
          Multiply a 0x09 XOR Multiply b 0x0E XOR Multiply c 0x0B XOR Multiply d 0x0D,
          Multiply a 0x0D XOR Multiply b 0x09 XOR Multiply c 0x0E XOR Multiply d 0x0B,
          Multiply a 0x0B XOR Multiply b 0x0D XOR Multiply c 0x09 XOR Multiply d 0x0E])"

definition InvMixColumns :: "buffer \<Rightarrow> buffer" where
  "InvMixColumns s = columns inv_mix_column s"

section \<open>Cipher and inverse cipher\<close>

definition enc_round :: "buffer \<Rightarrow> nat \<Rightarrow> buffer \<Rightarrow> buffer" where
  "enc_round rk round s = AddRoundKey rk round (MixColumns (ShiftRows (SubBytes s)))"

definition Cipher :: "buffer \<Rightarrow> buffer \<Rightarrow> buffer" where
  "Cipher rk s =
     (let s = AddRoundKey rk 0 s;
          s = fold (enc_round rk) [1..<10] s
      in AddRoundKey rk 10 (ShiftRows (SubBytes s)))"

definition dec_round :: "buffer \<Rightarrow> nat \<Rightarrow> buffer \<Rightarrow> buffer" where
  "dec_round rk round s = InvMixColumns (AddRoundKey rk round (InvSubBytes (InvShiftRows s)))"

definition InvCipher :: "buffer \<Rightarrow> buffer \<Rightarrow> buffer" where
  "InvCipher rk s =
     (let s = AddRoundKey rk 10 s;
          s = fold (dec_round rk) (rev [1..<10]) s
      in AddRoundKey rk 0 (InvSubBytes (InvShiftRows s)))"

definition BlockCopy :: "buffer \<Rightarrow> buffer" where
  "BlockCopy input = take 16 input"

definition AES128_ECB_encrypt :: "buffer \<Rightarrow> buffer \<Rightarrow> buffer" where
  "AES128_ECB_encrypt input key = Cipher (KeyExpansion key) (BlockCopy input)"

definition AES128_ECB_decrypt :: "buffer \<Rightarrow> buffer \<Rightarrow> buffer" where
  "AES128_ECB_decrypt input key = InvCipher (KeyExpansion key) (BlockCopy input)"

section \<open>CBC mode\<close>

text \<open>
  The CBC entry points walk over the caller's buffers block by block. \<open>cbc_in\<close> and \<open>cbc_out\<close> are
  the arrays behind the \<open>input\<close> and \<open>output\<close> pointers (two distinct arrays), \<open>cbc_iv\<close> holds the 16
  bytes that \<open>Iv\<close> points to. Encryption exclusive-ors the initial vector into the input array, as
  the C code does. An access behind the end of an array is \<open>None\<close>.
\<close>

record cbc =
  cbc_in :: buffer
  cbc_out :: buffer
  cbc_iv :: buffer

definition XorWithIv :: "buffer \<Rightarrow> buffer \<Rightarrow> buffer" where
  "XorWithIv Iv buf = xor_bytes buf Iv"

definition block_at :: "nat \<Rightarrow> buffer \<Rightarrow> buffer option" where
  "block_at p buf = (if p + 16 \<le> length buf then Some (take 16 (drop p buf)) else None)"

definition cbc_enc_block :: "buffer \<Rightarrow> nat \<Rightarrow> cbc \<Rightarrow> cbc option" where
  "cbc_enc_block rk p c =
     (case block_at p (cbc_in c) of None \<Rightarrow> None
      | Some b \<Rightarrow>
          let x = XorWithIv (cbc_iv c) b; y = Cipher rk x
          in case (store_at p x (cbc_in c), store_at p y (cbc_out c)) of
               (Some i, Some out) \<Rightarrow> Some \<lparr>cbc_in = i, cbc_out = out, cbc_iv = y\<rparr>
             | _ \<Rightarrow> None)"

definition cbc_dec_block :: "buffer \<Rightarrow> nat \<Rightarrow> cbc \<Rightarrow> cbc option" where
  "cbc_dec_block rk p c =
     (case block_at p (cbc_in c) of None \<Rightarrow> None
      | Some b \<Rightarrow>
          (case store_at p (XorWithIv (cbc_iv c) (InvCipher rk b)) (cbc_out c) of
             None \<Rightarrow> None
           | Some out \<Rightarrow> Some (c\<lparr>cbc_out := out, cbc_iv := b\<rparr>)))"

text \<open>\<open>for(i = 0; i < length; i += KEYLEN)\<close>: the body runs for every started block.\<close>

primrec cbc_blocks :: "(nat \<Rightarrow> cbc \<Rightarrow> cbc option) \<Rightarrow> nat \<Rightarrow> nat \<Rightarrow> cbc \<Rightarrow> cbc option" where
  "cbc_blocks f p 0 c = Some c"
| "cbc_blocks f p (Suc n) c =
     (case f p c of None \<Rightarrow> None | Some c' \<Rightarrow> cbc_blocks f (p + 16) n c')"

text \<open>
  The block written for the \<open>remainders\<close>: it lies behind the blocks of the loop, is zero-padded and
  goes through the bare cipher.
\<close>

definition cbc_tail :: "(buffer \<Rightarrow> buffer) \<Rightarrow> nat \<Rightarrow> nat \<Rightarrow> cbc \<Rightarrow> cbc option" where
  "cbc_tail ciph p rem c =
     (if rem = 0 then Some c
      else case block_at p (cbc_in c) of None \<Rightarrow> None
           | Some b \<Rightarrow>
               (case store_at p (ciph (take rem b @ replicate (16 - rem) 0)) (cbc_out c) of
                  None \<Rightarrow> None | Some out \<Rightarrow> Some (c\<lparr>cbc_out := out\<rparr>)))"

definition cbc_run :: "(nat \<Rightarrow> cbc \<Rightarrow> cbc option) \<Rightarrow> (buffer \<Rightarrow> buffer) \<Rightarrow> nat \<Rightarrow> cbc \<Rightarrow> cbc option" where
  "cbc_run f ciph len c =
     (let n = (len + 15) div 16
      in case cbc_blocks f 0 n c of None \<Rightarrow> None
         | Some c' \<Rightarrow> cbc_tail ciph (n * 16) (len mod 16) c')"

text \<open>
  The leading \<open>BlockCopy(output, input)\<close> reads one block even for a zero \<open>length\<close>.
\<close>

definition cbc_first :: "cbc \<Rightarrow> cbc option" where
  "cbc_first c =
     (case block_at 0 (cbc_in c) of None \<Rightarrow> None
      | Some b \<Rightarrow> (case store_at 0 b (cbc_out c) of None \<Rightarrow> None
                  | Some out \<Rightarrow> Some (c\<lparr>cbc_out := out\<rparr>)))"

definition AES128_CBC_encrypt_buffer ::
  "buffer \<Rightarrow> buffer \<Rightarrow> nat \<Rightarrow> buffer \<Rightarrow> buffer \<Rightarrow> cbc option" where
  "AES128_CBC_encrypt_buffer output input len key iv =
     (case cbc_first \<lparr>cbc_in = input, cbc_out = output, cbc_iv = iv\<rparr> of None \<Rightarrow> None
      | Some c \<Rightarrow> cbc_run (cbc_enc_block (KeyExpansion key)) (Cipher (KeyExpansion key)) len c)"

definition AES128_CBC_decrypt_buffer ::
  "buffer \<Rightarrow> buffer \<Rightarrow> nat \<Rightarrow> buffer \<Rightarrow> buffer \<Rightarrow> cbc option" where
  "AES128_CBC_decrypt_buffer output input len key iv =
     (case cbc_first \<lparr>cbc_in = input, cbc_out = output, cbc_iv = iv\<rparr> of None \<Rightarrow> None
      | Some c \<Rightarrow> cbc_run (cbc_dec_block (KeyExpansion key)) (InvCipher (KeyExpansion key)) len c)"

section \<open>The field operations\<close>

lemma xtime_alt: "xtime x = push_bit 1 x XOR (if bit x 7 then 0x1B else 0)"
  by (auto simp: xtime_def and_one_eq bit_iff_odd_drop_bit mod2_eq_if)

lemma xtime_xor: "xtime (x XOR y) = xtime x XOR xtime y"
  by (auto simp: xtime_alt push_bit_xor bit_xor_iff xor.assoc xor.commute xor.left_commute)

lemmas xor_ac = xor.assoc xor.commute xor.left_commute

lemma mix_column_expand:
  "mix_column [a, b, c, d] =
     [a XOR (xtime a XOR xtime b) XOR (a XOR b XOR c XOR d),
      b XOR (xtime b XOR xtime c) XOR (a XOR b XOR c XOR d),
      c XOR (xtime c XOR xtime d) XOR (a XOR b XOR c XOR d),
      d XOR (xtime d XOR xtime a) XOR (a XOR b XOR c XOR d)]"
  by (simp add: mix_column_def Let_def xtime_xor xor_ac)

lemma Multiply_const:
  "Multiply x 0x09 = x XOR xtime (xtime (xtime x))"
  "Multiply x 0x0B = x XOR xtime x XOR xtime (xtime (xtime x))"
  "Multiply x 0x0D = x XOR xtime (xtime x) XOR xtime (xtime (xtime x))"
  "Multiply x 0x0E = xtime x XOR xtime (xtime x) XOR xtime (xtime (xtime x))"
  by (simp_all add: Multiply_def drop_bit_numeral_bit1 drop_bit_numeral_bit0)

lemma inv_mix_column_mix_column: "inv_mix_column (mix_column [a, b, c, d]) = [a, b, c, d]"
  by (simp add: mix_column_expand inv_mix_column_def Let_def Multiply_const xtime_xor xor_ac)

section \<open>Every transformation is undone by its inverse\<close>

lemma sbox_table: "map getSBoxInvert sbox = map of_nat [0..<256]"
  by code_simp

lemma length_sbox: "length sbox = 256"
  by (simp add: sbox_def)

lemma getSBoxInvert_getSBoxValue [simp]: "getSBoxInvert (getSBoxValue x) = x"
proof -
  have "map getSBoxInvert sbox ! unat x = (map of_nat [0..<256] :: buffer) ! unat x"
    by (simp only: sbox_table)
  then show ?thesis by (simp add: getSBoxValue_def length_sbox)
qed

lemma getSBoxValue_getSBoxInvert [simp]: "getSBoxValue (getSBoxInvert x) = x"
proof -
  have "inj getSBoxValue" by (metis getSBoxInvert_getSBoxValue injI)
  then have "surj getSBoxValue" by (rule finite_UNIV_inj_surj [OF finite])
  then obtain y where "x = getSBoxValue y" by (rule surjE)
  then show ?thesis by simp
qed

lemma InvSubBytes_SubBytes [simp]: "InvSubBytes (SubBytes s) = s"
  by (simp add: InvSubBytes_def SubBytes_def o_def)

lemma block_cases:
  assumes "length s = 16"
  obtains a0 a1 a2 a3 a4 a5 a6 a7 a8 a9 a10 a11 a12 a13 a14 a15
  where "s = [a0, a1, a2, a3, a4, a5, a6, a7, a8, a9, a10, a11, a12, a13, a14, a15]"
  using assms by (auto simp: numeral_eq_Suc length_Suc_conv)

lemma InvShiftRows_ShiftRows: "length s = 16 \<Longrightarrow> InvShiftRows (ShiftRows s) = s"
  by (elim block_cases) (simp add: InvShiftRows_def ShiftRows_def put_def mv_def st_def Let_def)

lemma length_ShiftRows [simp]: "length (ShiftRows s) = length s"
  by (simp add: ShiftRows_def put_def mv_def Let_def)

lemma length_SubBytes [simp]: "length (SubBytes s) = length s"
  by (simp add: SubBytes_def)

lemma column_cases:
  assumes "length s = 16"
  obtains c0 c1 c2 c3 where "s = c0 @ c1 @ c2 @ c3"
    and "length c0 = 4" and "length c1 = 4" and "length c2 = 4" and "length c3 = 4"
  using assms
proof (cases s rule: block_cases)
  case (1 a0 a1 a2 a3 a4 a5 a6 a7 a8 a9 a10 a11 a12 a13 a14 a15)
  then show ?thesis
    by (intro that [of "[a0, a1, a2, a3]" "[a4, a5, a6, a7]" "[a8, a9, a10, a11]" "[a12, a13, a14, a15]"])
       simp_all
qed

lemma columns_append:
  assumes "length c0 = 4" and "length c1 = 4" and "length c2 = 4" and "length c3 = 4"
  shows "columns f (c0 @ c1 @ c2 @ c3) = f c0 @ f c1 @ f c2 @ f c3"
  using assms by (simp add: columns_def)

lemma columns_inverse:
  assumes "\<And>c. length c = 4 \<Longrightarrow> length (f c) = 4 \<and> g (f c) = c" and "length s = 16"
  shows "columns g (columns f s) = s"
  using assms(2)
proof (cases s rule: column_cases)
  case (1 c0 c1 c2 c3)
  then show ?thesis using assms(1) by (simp add: columns_append)
qed

lemma length_columns:
  assumes "\<And>c. length c = 4 \<Longrightarrow> length (f c) = 4" and "length s = 16"
  shows "length (columns f s) = 16"
  using assms(2)
proof (cases s rule: column_cases)
  case (1 c0 c1 c2 c3)
  then show ?thesis using assms(1) by (simp add: columns_append)
qed

lemma length_mix_column [simp]: "length (mix_column c) = length c"
  by (simp add: mix_column_def Let_def)

lemma inv_mix_column_undo: "length c = 4 \<Longrightarrow> inv_mix_column (mix_column c) = c"
  by (auto simp: numeral_eq_Suc length_Suc_conv inv_mix_column_mix_column)

lemma InvMixColumns_MixColumns: "length s = 16 \<Longrightarrow> InvMixColumns (MixColumns s) = s"
  unfolding InvMixColumns_def MixColumns_def
  by (rule columns_inverse) (simp_all add: inv_mix_column_undo)

lemma length_MixColumns [simp]: "length s = 16 \<Longrightarrow> length (MixColumns s) = 16"
  unfolding MixColumns_def by (rule length_columns) simp_all

section \<open>Key schedule and cipher\<close>

lemma length_key_step: "length rk = 4 * i \<Longrightarrow> 4 \<le> i \<Longrightarrow> length (key_step rk i) = 4 * Suc i"
  by (auto simp: key_step_def round_word_def Let_def)

lemma length_key_steps: "length rk = 4 * m \<Longrightarrow> 4 \<le> m \<Longrightarrow> m \<le> n \<Longrightarrow> length (foldl key_step rk [m..<n]) = 4 * n"
proof (induction n)
  case (Suc n)
  show ?case
  proof (cases "m \<le> n")
    case True
    with Suc show ?thesis by (simp add: length_key_step)
  next
    case False
    with Suc.prems have "m = Suc n" by simp
    with Suc.prems show ?thesis by simp
  qed
qed simp

lemma length_KeyExpansion [simp]: "length Key = 16 \<Longrightarrow> length (KeyExpansion Key) = 176"
  unfolding KeyExpansion_def by (subst length_key_steps) simp_all

lemma length_AddRoundKey [simp]:
  "length rk = 176 \<Longrightarrow> r \<le> 10 \<Longrightarrow> length s = 16 \<Longrightarrow> length (AddRoundKey rk r s) = 16"
  by (simp add: AddRoundKey_def)

lemma AddRoundKey_involution [simp]:
  "length rk = 176 \<Longrightarrow> r \<le> 10 \<Longrightarrow> length s = 16 \<Longrightarrow> AddRoundKey rk r (AddRoundKey rk r s) = s"
  by (simp add: AddRoundKey_def xor_bytes_cancel_right)

lemma dec_round_step:
  assumes "length rk = 176" and "r \<le> 10" and "length s = 16"
  shows "InvSubBytes (InvShiftRows (InvMixColumns (AddRoundKey rk r (enc_round rk r s)))) = s"
  using assms by (simp add: enc_round_def InvMixColumns_MixColumns InvShiftRows_ShiftRows)

lemma length_enc_round [simp]:
  "length rk = 176 \<Longrightarrow> r \<le> 10 \<Longrightarrow> length s = 16 \<Longrightarrow> length (enc_round rk r s) = 16"
  by (simp add: enc_round_def)

lemma length_enc_rounds:
  "length rk = 176 \<Longrightarrow> length s = 16 \<Longrightarrow> n \<le> 10 \<Longrightarrow> length (fold (enc_round rk) [1..<Suc n] s) = 16"
  by (induction n) simp_all

lemma dec_rounds_undo:
  assumes "length rk = 176" and "length s = 16" and "n \<le> 10"
  shows "fold (dec_round rk) (rev [1..<Suc n]) (ShiftRows (SubBytes (fold (enc_round rk) [1..<Suc n] s)))
    = ShiftRows (SubBytes s)"
  using assms(3)
proof (induction n)
  case (Suc n)
  let ?f = "fold (enc_round rk) [1..<Suc n] s"
  have len: "length ?f = 16" using length_enc_rounds [of rk s n] assms Suc.prems by simp
  have "dec_round rk (Suc n) (ShiftRows (SubBytes (enc_round rk (Suc n) ?f))) = ShiftRows (SubBytes ?f)"
    using assms Suc.prems len
    by (simp add: dec_round_def InvShiftRows_ShiftRows enc_round_def InvMixColumns_MixColumns)
  with Suc show ?case by simp
qed simp

lemma length_Cipher [simp]: "length rk = 176 \<Longrightarrow> length s = 16 \<Longrightarrow> length (Cipher rk s) = 16"
  using length_enc_rounds [of rk "AddRoundKey rk 0 s" 9]
  by (simp add: Cipher_def Let_def del: upt_rec_numeral One_nat_def upt_Suc upt_conv_Cons_Cons)

lemma InvCipher_Cipher:
  assumes "length rk = 176" and "length s = 16"
  shows "InvCipher rk (Cipher rk s) = s"
proof -
  let ?s0 = "AddRoundKey rk 0 s"
  define e where "e = fold (enc_round rk) [1..<10] ?s0"
  have ten: "Suc 9 = 10" by simp
  have s0: "length ?s0 = 16" using assms by simp
  have len: "length (ShiftRows (SubBytes e)) = 16"
    using length_enc_rounds [OF assms(1) s0, of 9, unfolded ten] by (simp add: e_def del: upt_rec_numeral)
  have undo: "fold (dec_round rk) (rev [1..<10]) (ShiftRows (SubBytes e)) = ShiftRows (SubBytes ?s0)"
    unfolding e_def by (rule dec_rounds_undo [OF assms(1) s0, of 9, unfolded ten]) simp
  have "Cipher rk s = AddRoundKey rk 10 (ShiftRows (SubBytes e))"
    by (simp only: Cipher_def Let_def e_def)
  then have "InvCipher rk (Cipher rk s) = AddRoundKey rk 0 (InvSubBytes (InvShiftRows
      (fold (dec_round rk) (rev [1..<10]) (ShiftRows (SubBytes e)))))"
    using assms(1) len by (simp only: InvCipher_def Let_def AddRoundKey_involution order_refl)
  also have "\<dots> = s" unfolding undo using assms by (simp add: InvShiftRows_ShiftRows)
  finally show ?thesis .
qed

text \<open>The cipher is injective on the finite set of blocks, hence onto; so it also undoes the inverse.\<close>

lemma Cipher_surj:
  assumes "length rk = 176" and "length s = 16"
  obtains t where "length t = 16" and "s = Cipher rk t"
proof -
  let ?B = "{s :: buffer. length s = 16}"
  have "finite ?B" using finite_lists_length_eq [of "UNIV :: byte set" 16] by simp
  moreover have "inj_on (Cipher rk) ?B"
    by (rule inj_on_inverseI [where g = "InvCipher rk"]) (simp add: InvCipher_Cipher assms(1))
  moreover have "Cipher rk ` ?B \<subseteq> ?B" using assms(1) by auto
  ultimately have "Cipher rk ` ?B = ?B" by (intro endo_inj_surj)
  with assms(2) have "s \<in> Cipher rk ` ?B" by simp
  with that show ?thesis by auto
qed

lemma Cipher_InvCipher: "length rk = 176 \<Longrightarrow> length s = 16 \<Longrightarrow> Cipher rk (InvCipher rk s) = s"
  by (rule Cipher_surj [of rk s]) (auto simp: InvCipher_Cipher)

lemma length_InvCipher [simp]: "length rk = 176 \<Longrightarrow> length s = 16 \<Longrightarrow> length (InvCipher rk s) = 16"
  by (rule Cipher_surj [of rk s]) (auto simp: InvCipher_Cipher)

section \<open>The interface of a block cipher\<close>

text \<open>
  What the modes of operation rely on: a function from a 16-byte block and a 16-byte key to a
  16-byte block, and, for the modes that decrypt with the inverse cipher, its inverse.
\<close>

locale block_cipher =
  fixes enc :: "buffer \<Rightarrow> buffer \<Rightarrow> buffer"
  assumes enc_length: "length key = 16 \<Longrightarrow> length b = 16 \<Longrightarrow> length (enc b key) = 16"

locale block_permutation = block_cipher +
  fixes dec :: "buffer \<Rightarrow> buffer \<Rightarrow> buffer"
  assumes dec_enc: "length key = 16 \<Longrightarrow> length b = 16 \<Longrightarrow> dec (enc b key) key = b"
begin

lemma enc_inj:
  "length key = 16 \<Longrightarrow> length a = 16 \<Longrightarrow> length b = 16 \<Longrightarrow> enc a key = enc b key \<Longrightarrow> a = b"
  by (metis dec_enc)

end

interpretation aes: block_permutation AES128_ECB_encrypt AES128_ECB_decrypt
  by unfold_locales
     (simp_all add: AES128_ECB_encrypt_def AES128_ECB_decrypt_def BlockCopy_def InvCipher_Cipher)

section \<open>CBC against its textbook definition\<close>

primrec cbc_enc_spec :: "buffer \<Rightarrow> nat \<Rightarrow> buffer \<Rightarrow> buffer \<Rightarrow> buffer" where
  "cbc_enc_spec rk 0 iv xs = []"
| "cbc_enc_spec rk (Suc n) iv xs =
     (let y = Cipher rk (xor_bytes (take 16 xs) iv) in y @ cbc_enc_spec rk n y (drop 16 xs))"

primrec cbc_dec_spec :: "buffer \<Rightarrow> nat \<Rightarrow> buffer \<Rightarrow> buffer \<Rightarrow> buffer" where
  "cbc_dec_spec rk 0 iv ys = []"
| "cbc_dec_spec rk (Suc n) iv ys =
     xor_bytes (InvCipher rk (take 16 ys)) iv @ cbc_dec_spec rk n (take 16 ys) (drop 16 ys)"

lemma length_cbc_enc_spec:
  "length rk = 176 \<Longrightarrow> length iv = 16 \<Longrightarrow> length xs = 16 * n \<Longrightarrow> length (cbc_enc_spec rk n iv xs) = 16 * n"
  by (induction n arbitrary: iv xs) (simp_all add: Let_def)

lemma cbc_dec_enc_spec:
  "length rk = 176 \<Longrightarrow> length iv = 16 \<Longrightarrow> length xs = 16 * n \<Longrightarrow>
     cbc_dec_spec rk n iv (cbc_enc_spec rk n iv xs) = xs"
  by (induction n arbitrary: iv xs) (simp_all add: Let_def InvCipher_Cipher xor_bytes_cancel_right)

lemma cbc_enc_blocks:
  assumes "length rk = 176" and "length (cbc_iv c) = 16" and "length (cbc_in c) = p + 16 * n"
    and "length (cbc_out c) = p + 16 * n"
  shows "\<exists>c'. cbc_blocks (cbc_enc_block rk) p n c = Some c' \<and>
    cbc_out c' = take p (cbc_out c) @ cbc_enc_spec rk n (cbc_iv c) (drop p (cbc_in c))"
  using assms(2-)
proof (induction n arbitrary: p c)
  case (Suc n)
  let ?x = "xor_bytes (take 16 (drop p (cbc_in c))) (cbc_iv c)"
  let ?y = "Cipher rk ?x"
  let ?c = "\<lparr>cbc_in = take p (cbc_in c) @ ?x @ drop (p + 16) (cbc_in c),
             cbc_out = take p (cbc_out c) @ ?y @ drop (p + 16) (cbc_out c), cbc_iv = ?y\<rparr>"
  have step: "cbc_enc_block rk p c = Some ?c"
    using Suc.prems assms(1)
    by (simp add: cbc_enc_block_def block_at_def store_at_def XorWithIv_def Let_def)
  obtain c' where "cbc_blocks (cbc_enc_block rk) (p + 16) n ?c = Some c'" and
    "cbc_out c' = take (p + 16) (cbc_out ?c) @ cbc_enc_spec rk n (cbc_iv ?c) (drop (p + 16) (cbc_in ?c))"
    using Suc.IH [of ?c "p + 16"] Suc.prems assms(1) by auto
  with step Suc.prems assms(1) show ?case by (simp add: Let_def add.commute)
qed simp

lemma cbc_dec_blocks:
  assumes "length rk = 176" and "length (cbc_iv c) = 16" and "length (cbc_in c) = p + 16 * n"
    and "length (cbc_out c) = p + 16 * n"
  shows "\<exists>c'. cbc_blocks (cbc_dec_block rk) p n c = Some c' \<and>
    cbc_out c' = take p (cbc_out c) @ cbc_dec_spec rk n (cbc_iv c) (drop p (cbc_in c))"
  using assms(2-)
proof (induction n arbitrary: p c)
  case (Suc n)
  let ?b = "take 16 (drop p (cbc_in c))"
  let ?y = "xor_bytes (InvCipher rk ?b) (cbc_iv c)"
  let ?c = "c\<lparr>cbc_out := take p (cbc_out c) @ ?y @ drop (p + 16) (cbc_out c), cbc_iv := ?b\<rparr>"
  have step: "cbc_dec_block rk p c = Some ?c"
    using Suc.prems assms(1)
    by (simp add: cbc_dec_block_def block_at_def store_at_def XorWithIv_def Let_def)
  obtain c' where "cbc_blocks (cbc_dec_block rk) (p + 16) n ?c = Some c'" and
    "cbc_out c' = take (p + 16) (cbc_out ?c) @ cbc_dec_spec rk n (cbc_iv ?c) (drop (p + 16) (cbc_in ?c))"
    using Suc.IH [of ?c "p + 16"] Suc.prems assms(1) by auto
  with step Suc.prems assms(1) show ?case by (simp add: Let_def add.commute)
qed simp

lemma cbc_first_out:
  assumes "length input = 16 * Suc m" and "length output = 16 * Suc m"
  shows "\<exists>o'. cbc_first \<lparr>cbc_in = input, cbc_out = output, cbc_iv = iv\<rparr> =
    Some \<lparr>cbc_in = input, cbc_out = o', cbc_iv = iv\<rparr> \<and> length o' = 16 * Suc m"
  using assms by (simp add: cbc_first_def block_at_def store_at_def)

lemma cbc_run_blocks: "cbc_run f ciph (16 * n) c = cbc_blocks f 0 n c"
proof -
  have "(16 * n + 15) div 16 = n" by simp
  then show ?thesis by (simp add: cbc_run_def Let_def cbc_tail_def split: option.splits)
qed

text \<open>No step of either mode changes the size of the input buffer.\<close>

lemma cbc_enc_block_in: "cbc_enc_block rk p c = Some c' \<Longrightarrow> length (cbc_in c') = length (cbc_in c)"
  by (auto simp: cbc_enc_block_def Let_def dest: store_at_length split: option.splits)

lemma cbc_dec_block_in: "cbc_dec_block rk p c = Some c' \<Longrightarrow> length (cbc_in c') = length (cbc_in c)"
  by (auto simp: cbc_dec_block_def split: option.splits)

lemma cbc_first_in: "cbc_first c = Some c' \<Longrightarrow> cbc_in c' = cbc_in c"
  by (auto simp: cbc_first_def split: option.splits)

lemma cbc_blocks_in:
  assumes "\<And>p c c'. f p c = Some c' \<Longrightarrow> length (cbc_in c') = length (cbc_in c)"
    and "cbc_blocks f p n c = Some c'"
  shows "length (cbc_in c') = length (cbc_in c)"
  using assms(2)
proof (induction n arbitrary: p c)
  case (Suc n)
  then obtain d where "f p c = Some d" "cbc_blocks f (p + 16) n d = Some c'"
    by (auto split: option.splits)
  with Suc.IH assms(1) show ?case by metis
qed simp

lemma cbc_run_partial:
  assumes "len mod 16 \<noteq> 0" and "length (cbc_in c) \<le> 16 * ((len + 15) div 16)"
    and "\<And>p c c'. f p c = Some c' \<Longrightarrow> length (cbc_in c') = length (cbc_in c)"
  shows "cbc_run f ciph len c = None"
proof (cases "cbc_blocks f 0 ((len + 15) div 16) c")
  case (Some d)
  have "length (cbc_in d) = length (cbc_in c)" by (rule cbc_blocks_in [OF assms(3) Some])
  with Some assms(1,2) show ?thesis
    by (simp add: cbc_run_def Let_def cbc_tail_def block_at_def mult.commute)
qed (simp add: cbc_run_def Let_def)

section \<open>Properties\<close>

text \<open>
  C5. The AES-128 entry points are inverse to each other: for every 16-byte key and every block,
  decrypting what was encrypted and encrypting what was decrypted give the block back.
\<close>

theorem aes_ecb_roundtrip:
  assumes "length key = 16" and "length b = 16"
  shows "AES128_ECB_decrypt (AES128_ECB_encrypt b key) key = b \<and>
    AES128_ECB_encrypt (AES128_ECB_decrypt b key) key = b"
  using assms
  by (simp add: AES128_ECB_encrypt_def AES128_ECB_decrypt_def BlockCopy_def
        InvCipher_Cipher Cipher_InvCipher)

text \<open>
  CBC over whole blocks: with buffers of the right size, encryption stays inside its buffers,
  produces the textbook CBC chain, and decrypting the produced bytes with the same key and initial
  vector gives the input back.
\<close>

lemma aes_cbc_roundtrip:
  assumes "length key = 16" and "length iv = 16" and "length input = 16 * Suc m"
    and "length output = 16 * Suc m" and "length output2 = 16 * Suc m"
  shows "\<exists>c c'. AES128_CBC_encrypt_buffer output input (16 * Suc m) key iv = Some c \<and>
    cbc_out c = cbc_enc_spec (KeyExpansion key) (Suc m) iv input \<and>
    AES128_CBC_decrypt_buffer output2 (cbc_out c) (16 * Suc m) key iv = Some c' \<and>
    cbc_out c' = input"
proof -
  let ?rk = "KeyExpansion key"
  have rk: "length ?rk = 176" using assms(1) by simp
  obtain o1 where o1: "cbc_first \<lparr>cbc_in = input, cbc_out = output, cbc_iv = iv\<rparr> =
      Some \<lparr>cbc_in = input, cbc_out = o1, cbc_iv = iv\<rparr>" "length o1 = 16 * Suc m"
    using cbc_first_out [of input m "output" iv] assms by auto
  obtain c where c: "cbc_blocks (cbc_enc_block ?rk) 0 (Suc m) \<lparr>cbc_in = input, cbc_out = o1, cbc_iv = iv\<rparr> = Some c"
    "cbc_out c = cbc_enc_spec ?rk (Suc m) iv input"
    using cbc_enc_blocks [OF rk, of "\<lparr>cbc_in = input, cbc_out = o1, cbc_iv = iv\<rparr>" 0 "Suc m"] assms o1
    by auto
  let ?ct = "cbc_enc_spec ?rk (Suc m) iv input"
  have ct: "length ?ct = 16 * Suc m" by (rule length_cbc_enc_spec [OF rk]) (use assms in simp_all)
  obtain o2 where o2: "cbc_first \<lparr>cbc_in = ?ct, cbc_out = output2, cbc_iv = iv\<rparr> =
      Some \<lparr>cbc_in = ?ct, cbc_out = o2, cbc_iv = iv\<rparr>" "length o2 = 16 * Suc m"
    using cbc_first_out [of ?ct m output2 iv] ct assms by blast
  obtain c' where c': "cbc_blocks (cbc_dec_block ?rk) 0 (Suc m) \<lparr>cbc_in = ?ct, cbc_out = o2, cbc_iv = iv\<rparr> = Some c'"
    "cbc_out c' = cbc_dec_spec ?rk (Suc m) iv ?ct"
    using cbc_dec_blocks [OF rk, of "\<lparr>cbc_in = ?ct, cbc_out = o2, cbc_iv = iv\<rparr>" 0 "Suc m"] assms o2 ct
    by auto
  have "AES128_CBC_encrypt_buffer output input (16 * Suc m) key iv = Some c"
    unfolding AES128_CBC_encrypt_buffer_def by (simp only: o1 c cbc_run_blocks option.case)
  moreover have "AES128_CBC_decrypt_buffer output2 ?ct (16 * Suc m) key iv = Some c'"
    unfolding AES128_CBC_decrypt_buffer_def by (simp only: o2 c' cbc_run_blocks option.case)
  moreover have "cbc_out c' = input"
    using cbc_dec_enc_spec [OF rk, of iv input "Suc m"] assms c' by simp
  ultimately show ?thesis using c by auto
qed

text \<open>
  CBC with a length that is not a multiple of 16: the block loop already covers the started
  last block, and the remainder handling then works on one more block behind it, so the call runs
  over the end of every input buffer that holds no more than the padded message.
\<close>

lemma aes_cbc_partial_block_overruns:
  assumes "len mod 16 \<noteq> 0" and "length input \<le> 16 * ((len + 15) div 16)"
  shows "AES128_CBC_encrypt_buffer output input len key iv = None \<and>
    AES128_CBC_decrypt_buffer output input len key iv = None"
  using assms cbc_run_partial [OF _ _ cbc_enc_block_in] cbc_run_partial [OF _ _ cbc_dec_block_in]
  by (auto simp: AES128_CBC_encrypt_buffer_def AES128_CBC_decrypt_buffer_def
        dest!: cbc_first_in split: option.splits)

section \<open>Witnesses\<close>

theorem aes_ecb_roundtrip_witness:
  "AES128_ECB_decrypt (AES128_ECB_encrypt (map of_nat [0..<16]) (replicate 16 0x2B)) (replicate 16 0x2B)
     = map of_nat [0..<16]"
  using aes_ecb_roundtrip [of "replicate 16 0x2B" "map of_nat [0..<16]"] by simp

lemma aes_cbc_roundtrip_witness:
  "\<exists>c c'. AES128_CBC_encrypt_buffer (replicate 32 0) (map of_nat [0..<32]) (16 * Suc 1) (replicate 16 7)
        (replicate 16 9) = Some c \<and>
     cbc_out c = cbc_enc_spec (KeyExpansion (replicate 16 7)) (Suc 1) (replicate 16 9) (map of_nat [0..<32]) \<and>
     AES128_CBC_decrypt_buffer (replicate 32 1) (cbc_out c) (16 * Suc 1) (replicate 16 7) (replicate 16 9) = Some c' \<and>
     cbc_out c' = map of_nat [0..<32]"
  by (rule aes_cbc_roundtrip) simp_all

end
