(* ===== verification/S2_Keys.thy ===== *)
theory S2_Keys
  imports AES
begin

text \<open>
  The key material of Security 2: AES-CMAC (\<open>libs2/crypto/aes-cmac/aes_cmac.c\<close>), the counter-mode
  generator (\<open>libs2/crypto/ctr_drbg/ctr_drbg.c\<close>), key derivation (\<open>libs2/crypto/kderiv/kderiv.c\<close>),
  the nonce generator (\<open>libs2/crypto/nextnonce/nextnonce.c\<close>) and the key scrambler
  (\<open>libs2/crypto/key_scrambler/ZW_s2_key_scrambler.c\<close>).

  \<open>aes.h\<close> binds \<open>AES128_ECB_encrypt\<close> either to the software cipher of \<open>aes.c\<close> or to a hardware
  routine, so every definition takes the block cipher \<open>enc\<close> as its first argument (block, then key);
  the lemmas are proved for any \<open>block_cipher\<close> and the properties state them for the cipher of
  \<open>aes.c\<close>. The byte-wise carry loops are specified by arithmetic on big-endian numbers.
\<close>

section \<open>CMAC\<close>

definition xor_128 :: "buffer \<Rightarrow> buffer \<Rightarrow> buffer" where
  "xor_128 a b = xor_bytes (take 16 a) (take 16 b)"

text \<open>The loop runs from the last byte to the first; the list is the reversed array.\<close>

primrec leftshift_rev :: "byte \<Rightarrow> buffer \<Rightarrow> buffer" where
  "leftshift_rev overflow [] = []"
| "leftshift_rev overflow (b # bs) =
     (push_bit 1 b OR overflow) # leftshift_rev (if b AND 0x80 \<noteq> 0 then 1 else 0) bs"

definition leftshift_onebit :: "buffer \<Rightarrow> buffer" where
  "leftshift_onebit input = rev (leftshift_rev 0 (rev input))"

definition const_Rb :: buffer where
  "const_Rb = replicate 15 0 @ [0x87]"

definition subkey_double :: "buffer \<Rightarrow> buffer" where
  "subkey_double L =
     (if L ! 0 AND 0x80 = 0 then leftshift_onebit L else xor_128 (leftshift_onebit L) const_Rb)"

definition generate_subkey :: "(buffer \<Rightarrow> buffer \<Rightarrow> buffer) \<Rightarrow> buffer \<Rightarrow> buffer \<times> buffer" where
  "generate_subkey enc key =
     (let L = enc (replicate 16 0) key; K1 = subkey_double L; K2 = subkey_double K1 in (K1, K2))"

definition padding :: "buffer \<Rightarrow> nat \<Rightarrow> buffer" where
  "padding lastb len =
     map (\<lambda>j. if j < len then lastb ! j else if j = len then 0x80 else 0) [0..<16]"

text \<open>
  The block counter \<open>n\<close> is an 8-bit variable, so the number of blocks is reduced modulo 256.
\<close>

definition cmac_blocks :: "buffer \<Rightarrow> nat \<times> bool" where
  "cmac_blocks message =
     (let n = unat (of_nat ((length message + 15) div 16) :: byte)
      in if n = 0 then (1, False) else (n, length message mod 16 = 0))"

definition aes_cmac_calculate :: "(buffer \<Rightarrow> buffer \<Rightarrow> buffer) \<Rightarrow> buffer \<Rightarrow> buffer \<Rightarrow> buffer" where
  "aes_cmac_calculate enc key message =
     (let (K1, K2) = generate_subkey enc key;
          (n, flag) = cmac_blocks message;
          lastb = drop (16 * (n - 1)) message;
          M_last = (if flag then xor_128 lastb K1
                    else xor_128 (padding lastb (length message mod 16)) K2);
          X = fold (\<lambda>i X. enc (xor_128 X (drop (16 * i) message)) key) [0..<n - 1] (replicate 16 0)
      in enc (xor_128 X M_last) key)"

datatype cmac_verify = CMAC_VALID | CMAC_INVALID

definition aes_cmac_verify ::
  "(buffer \<Rightarrow> buffer \<Rightarrow> buffer) \<Rightarrow> buffer \<Rightarrow> buffer \<Rightarrow> buffer \<Rightarrow> cmac_verify" where
  "aes_cmac_verify enc key message mac =
     (let calculated_mac = aes_cmac_calculate enc key message
      in if \<exists>count\<in>{..<16}. mac ! count \<noteq> calculated_mac ! count then CMAC_INVALID else CMAC_VALID)"

section \<open>Counter-mode generator\<close>

record ctr_drbg =
  df :: byte
  drbg_v :: buffer
  drbg_k :: buffer

text \<open>\<open>while (size--)\<close>: from the last byte on, until a byte does not wrap to zero.\<close>

primrec increment_rev :: "buffer \<Rightarrow> buffer" where
  "increment_rev [] = []"
| "increment_rev (b # bs) = (b + 1) # (if b + 1 \<noteq> 0 then bs else increment_rev bs)"

definition AES_CTR_DRBG_Increment :: "buffer \<Rightarrow> buffer" where
  "AES_CTR_DRBG_Increment xs = rev (increment_rev (rev xs))"

definition AES_CTR_DRBG_Update ::
  "(buffer \<Rightarrow> buffer \<Rightarrow> buffer) \<Rightarrow> ctr_drbg \<Rightarrow> buffer \<Rightarrow> ctr_drbg" where
  "AES_CTR_DRBG_Update enc ctx seed =
     (let v1 = AES_CTR_DRBG_Increment (drbg_v ctx); t1 = enc v1 (drbg_k ctx);
          v2 = AES_CTR_DRBG_Increment v1; t2 = enc v2 (drbg_k ctx);
          tmp = xor_bytes (t1 @ t2) seed
      in ctx\<lparr>drbg_k := take 16 tmp, drbg_v := take 16 (drop 16 tmp)\<rparr>)"

definition AES_CTR_DRBG_Reseed ::
  "(buffer \<Rightarrow> buffer \<Rightarrow> buffer) \<Rightarrow> ctr_drbg \<Rightarrow> buffer \<Rightarrow> ctr_drbg" where
  "AES_CTR_DRBG_Reseed enc ctx seed = AES_CTR_DRBG_Update enc ctx seed"

definition AES_CTR_DRBG_Instantiate ::
  "(buffer \<Rightarrow> buffer \<Rightarrow> buffer) \<Rightarrow> buffer \<Rightarrow> buffer \<Rightarrow> ctr_drbg" where
  "AES_CTR_DRBG_Instantiate enc entropy personal =
     AES_CTR_DRBG_Reseed enc \<lparr>df = 0, drbg_v = replicate 16 0, drbg_k = replicate 16 0\<rparr>
       (xor_bytes entropy personal)"

text \<open>With \<open>RANDLEN = OUTLEN\<close> the generation loop runs once.\<close>

definition AES_CTR_DRBG_Generate ::
  "(buffer \<Rightarrow> buffer \<Rightarrow> buffer) \<Rightarrow> ctr_drbg \<Rightarrow> buffer \<times> ctr_drbg" where
  "AES_CTR_DRBG_Generate enc ctx =
     (let ctx1 = ctx\<lparr>drbg_v := AES_CTR_DRBG_Increment (drbg_v ctx)\<rparr>;
          rand = take 16 (enc (drbg_v ctx1) (drbg_k ctx1))
      in (rand, AES_CTR_DRBG_Update enc ctx1 (replicate 32 0)))"

section \<open>Nonce generation\<close>

definition ckdf_nonce0_expand :: "(buffer \<Rightarrow> buffer \<Rightarrow> buffer) \<Rightarrow> buffer \<Rightarrow> buffer" where
  "ckdf_nonce0_expand enc prk =
     (let ei = replicate 15 0x88;
          t1 = aes_cmac_calculate enc prk (ei @ [0] @ ei @ [1]);
          t2 = aes_cmac_calculate enc prk (t1 @ ei @ [2])
      in t1 @ t2)"

definition next_nonce_instantiate ::
  "(buffer \<Rightarrow> buffer \<Rightarrow> buffer) \<Rightarrow> buffer \<Rightarrow> buffer \<Rightarrow> buffer \<Rightarrow> ctr_drbg" where
  "next_nonce_instantiate enc ei_sender ei_receiver k_nonce =
     (let X = aes_cmac_calculate enc (replicate 16 0x26) (take 16 ei_sender @ take 16 ei_receiver)
      in AES_CTR_DRBG_Instantiate enc (ckdf_nonce0_expand enc X) k_nonce)"

definition next_nonce_generate ::
  "(buffer \<Rightarrow> buffer \<Rightarrow> buffer) \<Rightarrow> ctr_drbg \<Rightarrow> buffer \<times> ctr_drbg" where
  "next_nonce_generate enc ctx = AES_CTR_DRBG_Generate enc ctx"

section \<open>Key derivation\<close>

record s2_keyset =
  ccm_key :: buffer
  nonce_pstring :: buffer
  mpan_key :: buffer

definition generic_expand ::
  "(buffer \<Rightarrow> buffer \<Rightarrow> buffer) \<Rightarrow> buffer \<Rightarrow> buffer \<Rightarrow> s2_keyset" where
  "generic_expand enc network_key constant_nk =
     (let nk = take 15 constant_nk;
          k1 = aes_cmac_calculate enc network_key (nk @ [1]);
          k2 = aes_cmac_calculate enc network_key (k1 @ nk @ [2]);
          k3 = aes_cmac_calculate enc network_key (k2 @ nk @ [3]);
          k4 = aes_cmac_calculate enc network_key (k3 @ nk @ [4])
      in \<lparr>ccm_key = k1, nonce_pstring = k2 @ k3, mpan_key = k4\<rparr>)"

definition networkkey_expand :: "(buffer \<Rightarrow> buffer \<Rightarrow> buffer) \<Rightarrow> buffer \<Rightarrow> s2_keyset" where
  "networkkey_expand enc network_key = generic_expand enc network_key (replicate 15 0x55)"

definition tempkey_extract :: "(buffer \<Rightarrow> buffer \<Rightarrow> buffer) \<Rightarrow> buffer \<Rightarrow> buffer \<Rightarrow> buffer" where
  "tempkey_extract enc ecdh_share_secret auth_tag =
     aes_cmac_calculate enc (replicate 16 0x33) (take 32 ecdh_share_secret @ take 64 auth_tag)"

definition tempkey_expand :: "(buffer \<Rightarrow> buffer \<Rightarrow> buffer) \<Rightarrow> buffer \<Rightarrow> s2_keyset" where
  "tempkey_expand enc prk = generic_expand enc prk (replicate 15 0x88)"

section \<open>Key scrambler\<close>

definition ZW_s2_key_scrambler_descramble ::
  "(buffer \<Rightarrow> buffer \<Rightarrow> buffer) \<Rightarrow> buffer \<Rightarrow> buffer \<Rightarrow> buffer" where
  "ZW_s2_key_scrambler_descramble enc scramble_key key =
     xor_bytes (enc (replicate 16 0) scramble_key) key"

section \<open>The carry loops are arithmetic on big-endian numbers\<close>

lemma mod_radix: "(r :: nat) < 256 \<Longrightarrow> (r + 256 * k) mod (256 * m) = r + 256 * (k mod m)"
  by (simp add: mod_mult2_eq)

lemma msb_byte: "(b :: byte) AND 0x80 \<noteq> 0 \<longleftrightarrow> 128 \<le> unat b"
proof -
  have "b AND 0x80 \<noteq> 0 \<longleftrightarrow> bit b 7" using and_exp_eq_0_iff_not_bit [of b 7] by simp
  also have "\<dots> \<longleftrightarrow> bit (unat b) 7" by (simp add: bit_unsigned_iff)
  also have "\<dots> \<longleftrightarrow> odd (unat b div 128)" by (simp add: bit_iff_odd)
  also have "\<dots> \<longleftrightarrow> 128 \<le> unat b"
  proof -
    have "unat b div 128 < 2" by (simp add: less_mult_imp_div_less)
    then show ?thesis by (cases "unat b div 128") auto
  qed
  finally show ?thesis .
qed

lemma double_mod_256:
  "(c :: nat) < 2 \<Longrightarrow> n < 256 \<Longrightarrow> (2 * n + c) mod 256 + 256 * (if 128 \<le> n then 1 else 0) = 2 * n + c"
  by (cases "128 \<le> n") (simp_all add: le_mod_geq)

lemma shift_byte:
  assumes "ov = 0 \<or> ov = 1"
  shows "unat (push_bit 1 b OR ov) + 256 * (if b AND 0x80 \<noteq> 0 then 1 else 0) = 2 * unat b + unat (ov :: byte)"
proof -
  have "push_bit 1 b OR ov = 2 * b + ov"
    using assms by (auto simp: or_one_eq push_bit_eq_mult mult.commute)
  then have "unat (push_bit 1 b OR ov) = (2 * unat b + unat ov) mod 256"
    by (simp add: unat_word_ariths mod_simps)
  moreover have "unat ov < 2" using assms by auto
  moreover have "unat b < 256" by (rule unat_byte_less)
  ultimately show ?thesis unfolding msb_byte by (simp only: double_mod_256)
qed

lemma le_nat_leftshift_rev:
  "ov = 0 \<or> ov = 1 \<Longrightarrow> le_nat (leftshift_rev ov bs) = (2 * le_nat bs + unat ov) mod 256 ^ length bs"
proof (induction bs arbitrary: ov)
  case (Cons b bs)
  let ?c = "if b AND 0x80 \<noteq> 0 then 1 else 0 :: nat" and ?cb = "if b AND 0x80 \<noteq> 0 then 1 else 0 :: byte"
  let ?r = "unat (push_bit 1 b OR ov)"
  have c: "unat ?cb = ?c" by simp
  have "2 * le_nat (b # bs) + unat ov = ?r + 256 * (2 * le_nat bs + ?c)"
    using shift_byte [OF Cons.prems, of b] by (simp only: le_nat.simps distrib_left)
  then have "(2 * le_nat (b # bs) + unat ov) mod 256 ^ length (b # bs) =
      ?r + 256 * ((2 * le_nat bs + ?c) mod 256 ^ length bs)"
    by (simp only: list.size power_Suc add_Suc_right add_0_right mod_radix [OF unat_byte_less])
  also have "\<dots> = le_nat (leftshift_rev ov (b # bs))"
    using Cons.IH [of ?cb] by (simp add: c)
  finally show ?case ..
qed simp

lemma length_leftshift_rev [simp]: "length (leftshift_rev ov bs) = length bs"
  by (induction bs arbitrary: ov) simp_all

lemma length_leftshift_onebit [simp]: "length (leftshift_onebit bs) = length bs"
  by (simp add: leftshift_onebit_def)

lemma be_nat_leftshift_onebit: "be_nat (leftshift_onebit bs) = (2 * be_nat bs) mod 256 ^ length bs"
  using le_nat_leftshift_rev [of 0 "rev bs"] by (simp add: be_nat_def leftshift_onebit_def)

lemma le_nat_increment_rev: "le_nat (increment_rev bs) = (le_nat bs + 1) mod 256 ^ length bs"
proof (induction bs)
  case (Cons b bs)
  show ?case
  proof (cases "b + 1 = 0")
    case True
    then have "b = -1" by (simp add: eq_neg_iff_add_eq_0)
    then have "unat b = 255" by (simp add: unsigned_minus_1_eq_mask mask_eq_exp_minus_1)
    then have "le_nat (b # bs) + 1 = 0 + 256 * (le_nat bs + 1)" by simp
    then show ?thesis using True Cons mod_radix [of 0 "le_nat bs + 1" "256 ^ length bs"] by simp
  next
    case False
    then have u: "unat (b + 1) = unat b + 1"
      by (metis add.commute unatSuc Suc_eq_plus1)
    then have "unat b + 1 < 256" by (metis unat_byte_less)
    then have "(le_nat (b # bs) + 1) mod (256 * 256 ^ length bs) = unat b + 1 + 256 * (le_nat bs mod 256 ^ length bs)"
      using mod_radix [of "unat b + 1" "le_nat bs" "256 ^ length bs"] by (simp add: algebra_simps)
    with False u show ?thesis using le_nat_less [of bs] by simp
  qed
qed simp

lemma length_increment_rev [simp]: "length (increment_rev bs) = length bs"
  by (induction bs) simp_all

lemma length_Increment [simp]: "length (AES_CTR_DRBG_Increment bs) = length bs"
  by (simp add: AES_CTR_DRBG_Increment_def)

lemma be_nat_Increment: "be_nat (AES_CTR_DRBG_Increment bs) = (be_nat bs + 1) mod 256 ^ length bs"
  using le_nat_increment_rev [of "rev bs"] by (simp add: be_nat_def AES_CTR_DRBG_Increment_def)

section \<open>CMAC against its specification\<close>

text \<open>
  NIST SP 800-38B over numbers: subkeys are doublings in the field of 128-bit polynomials, the
  message is cut into 16-byte chunks, the last chunk is padded and masked, and the chunks are
  chained through the cipher.
\<close>

definition gf_double :: "nat \<Rightarrow> nat" where
  "gf_double x = ((2 * x) mod 2 ^ 128) XOR (if 2 ^ 127 \<le> x then 0x87 else 0)"

fun chunks16 :: "buffer \<Rightarrow> buffer list" where
  "chunks16 xs = (if length xs \<le> 16 then [xs] else take 16 xs # chunks16 (drop 16 xs))"

declare chunks16.simps [simp del]

definition cmac_spec :: "(buffer \<Rightarrow> buffer \<Rightarrow> buffer) \<Rightarrow> buffer \<Rightarrow> buffer \<Rightarrow> buffer" where
  "cmac_spec enc key message =
     (let L = be_nat (enc (replicate 16 0) key);
          K1 = be_bytes 16 (gf_double L); K2 = be_bytes 16 (gf_double (gf_double L));
          cs = chunks16 message; l = last cs;
          m = (if length l = 16 then xor_bytes l K1
               else xor_bytes (l @ [0x80] @ replicate (15 - length l) 0) K2)
      in fold (\<lambda>c X. enc (xor_bytes X c) key) (butlast cs @ [m]) (replicate 16 0))"

lemma le_nat_append: "le_nat (xs @ ys) = le_nat xs + 256 ^ length xs * le_nat ys"
  by (induction xs) (simp_all add: algebra_simps)

lemma be_nat_Cons: "be_nat (b # bs) = unat b * 256 ^ length bs + be_nat bs"
  by (simp add: be_nat_def le_nat_append mult.commute)

lemma div_radix: "(r :: nat) < m \<Longrightarrow> 128 * m \<le> a * m + r \<longleftrightarrow> 128 \<le> a"
proof -
  assume r: "r < m"
  have "128 * m \<le> a * m + r \<longleftrightarrow> 128 \<le> (a * m + r) div m"
    by (rule less_eq_div_iff_mult_less_eq [symmetric]) (use r in simp)
  also have "(a * m + r) div m = a" using r by simp
  finally show ?thesis .
qed

lemma msb_be_nat:
  assumes "length bs = 16"
  shows "bs ! 0 AND 0x80 \<noteq> 0 \<longleftrightarrow> 2 ^ 127 \<le> be_nat bs"
proof -
  obtain b cs where bs: "bs = b # cs" and cs: "length cs = 15" using assms by (cases bs) auto
  have "be_nat cs < 256 ^ 15" using be_nat_less [of cs] cs by simp
  then have "128 * 256 ^ 15 \<le> be_nat bs \<longleftrightarrow> 128 \<le> unat b"
    using div_radix [of "be_nat cs" "256 ^ 15" "unat b"] by (simp add: bs be_nat_Cons cs)
  moreover have "(2 :: nat) ^ 127 = 128 * 256 ^ 15" by simp
  ultimately show ?thesis using msb_byte [of b] by (simp add: bs)
qed

lemma xor_low_byte: "unat ((b :: byte) XOR c) + 256 * l = (unat b + 256 * l) XOR unat c"
proof -
  have radix: "unat (d :: byte) + 256 * l = push_bit 8 l OR unat d" for d
  proof -
    have "push_bit 8 l OR unat d = push_bit 8 l + unat d"
      by (rule disjunctive_add_eq_or [symmetric])
         (auto simp: bit_eq_iff bit_simps dest: bit_imp_le_length)
    then show ?thesis by (simp add: push_bit_eq_mult)
  qed
  show ?thesis unfolding radix
    by (rule bit_eqI) (auto simp: bit_simps dest: bit_imp_le_length)
qed

lemma be_nat_xor_Rb:
  assumes "length bs = 16"
  shows "be_nat (xor_128 bs const_Rb) = be_nat bs XOR 0x87"
proof -
  obtain cs b where bs: "bs = cs @ [b]" and cs: "length cs = 15"
    using assms by (cases bs rule: rev_cases) auto
  have "xor_128 bs const_Rb = xor_bytes cs (replicate 15 0) @ [b XOR 0x87]"
    by (simp add: xor_128_def const_Rb_def bs cs xor_bytes_append)
  also have "xor_bytes cs (replicate 15 0) = cs"
    using cs by (simp add: xor_bytes_commute [of cs] xor_bytes_zero)
  finally show ?thesis using xor_low_byte [of b "0x87" "le_nat (rev cs)"]
    by (simp add: be_nat_def bs)
qed

lemma length_subkey_double [simp]: "length L = 16 \<Longrightarrow> length (subkey_double L) = 16"
  by (simp add: subkey_double_def xor_128_def const_Rb_def)

lemma be_nat_subkey_double:
  assumes "length L = 16"
  shows "be_nat (subkey_double L) = gf_double (be_nat L)"
  using assms be_nat_leftshift_onebit [of L] msb_be_nat [OF assms] be_nat_xor_Rb [of "leftshift_onebit L"]
  by (cases "L ! 0 AND 0x80 = 0") (simp_all add: subkey_double_def gf_double_def)

lemma subkey_double_spec: "length L = 16 \<Longrightarrow> subkey_double L = be_bytes 16 (gf_double (be_nat L))"
  by (rule be_bytes_unique) (simp_all add: be_nat_subkey_double)

lemma chunks16_index:
  "chunks16 xs = map (\<lambda>i. take 16 (drop (16 * i) xs)) [0..<max 1 ((length xs + 15) div 16)]"
proof (induction xs rule: chunks16.induct)
  case (1 xs)
  show ?case
  proof (cases "length xs \<le> 16")
    case True
    then have "max 1 ((length xs + 15) div 16) = 1" by simp
    with True show ?thesis by (simp add: chunks16.simps [of xs])
  next
    case False
    let ?k = "(length (drop 16 xs) + 15) div 16"
    have k: "(length xs + 15) div 16 = Suc ?k" and k1: "max 1 ?k = ?k" using False by auto
    have "chunks16 xs = take 16 xs # map (\<lambda>i. take 16 (drop (16 * i) (drop 16 xs))) [0..<?k]"
      using 1 False k1 by (simp add: chunks16.simps [of xs])
    also have "\<dots> = map (\<lambda>i. take 16 (drop (16 * i) xs)) [0..<Suc ?k]"
      by (simp add: map_upt_Suc add.commute del: upt_Suc)
    finally show ?thesis by (simp only: k) simp
  qed
qed

lemma padding_spec:
  assumes "r < 16" and "length l = r"
  shows "padding l r = l @ [0x80] @ replicate (15 - r) 0"
  using assms by (intro nth_equalityI) (auto simp: padding_def nth_append nth_Cons')

context block_cipher
begin

text \<open>Facts that hold for every cipher with the interface \<open>block_cipher\<close>.\<close>

lemma length_generate_subkey:
  "length key = 16 \<Longrightarrow> generate_subkey enc key = (K1, K2) \<Longrightarrow> length K1 = 16 \<and> length K2 = 16"
  by (auto simp: generate_subkey_def Let_def enc_length)

lemma generate_subkey_spec:
  assumes "length key = 16"
  shows "generate_subkey enc key =
    (let L = be_nat (enc (replicate 16 0) key)
     in (be_bytes 16 (gf_double L), be_bytes 16 (gf_double (gf_double L))))"
proof -
  let ?L = "enc (replicate 16 0) key"
  have "length ?L = 16" using assms by (simp add: enc_length)
  then show ?thesis
    using subkey_double_spec [of ?L] subkey_double_spec [of "subkey_double ?L"] be_nat_subkey_double [of ?L]
    by (simp add: generate_subkey_def Let_def)
qed

lemma length_cmac_fold:
  assumes "length key = 16" and "length X = 16" and "n * 16 \<le> length m"
  shows "length (fold (\<lambda>i X. enc (xor_128 X (drop (16 * i) m)) key) [0..<n] X) = 16"
  using assms(3)
proof (induction n)
  case (Suc n)
  then show ?case using assms(1) by (simp add: xor_128_def enc_length)
qed (use assms in simp)

lemma cmac_fold_chunks:
  assumes "length key = 16" and "length X = 16" and "n * 16 \<le> length m"
  shows "fold (\<lambda>i X. enc (xor_128 X (drop (16 * i) m)) key) [0..<n] X =
    fold (\<lambda>c X. enc (xor_bytes X c) key) (map (\<lambda>i. take 16 (drop (16 * i) m)) [0..<n]) X"
  using assms(3)
proof (induction n)
  case (Suc n)
  then show ?case
    using length_cmac_fold [OF assms(1,2), of n m] by (simp add: xor_128_def)
qed simp

end

lemma cmac_block_count:
  assumes "length m \<le> 4080"
  shows "cmac_blocks m = (max 1 ((length m + 15) div 16), m \<noteq> [] \<and> length m mod 16 = 0)"
proof -
  have "(length m + 15) div 16 < 256" using assms by simp
  then have "unat (of_nat ((length m + 15) div 16) :: byte) = (length m + 15) div 16" by simp
  moreover have "(length m + 15) div 16 = 0 \<longleftrightarrow> m = []" by (cases m) auto
  ultimately show ?thesis by (auto simp: cmac_blocks_def Let_def)
qed

lemma last_chunk:
  assumes "N = max 1 ((length m + 15) div 16)"
  shows "butlast (chunks16 m) = map (\<lambda>i. take 16 (drop (16 * i) m)) [0..<N - 1]"
    and "last (chunks16 m) = drop (16 * (N - 1)) m"
    and "length (drop (16 * (N - 1)) m) \<le> 16"
    and "length (drop (16 * (N - 1)) m) = 16 \<longleftrightarrow> m \<noteq> [] \<and> length m mod 16 = 0"
    and "m = [] \<or> length m mod 16 \<noteq> 0 \<Longrightarrow> length (drop (16 * (N - 1)) m) = length m mod 16"
    and "(N - 1) * 16 \<le> length m"
proof -
  have "N \<noteq> 0" using assms by simp
  then obtain k where N: "N = Suc k" by (cases N) auto
  have ch: "chunks16 m = map (\<lambda>i. take 16 (drop (16 * i) m)) [0..<k] @ [take 16 (drop (16 * k) m)]"
    unfolding chunks16_index assms [symmetric] N by simp
  have k: "Suc k = max 1 ((length m + 15) div 16)" using assms N by simp
  have ge: "16 * k \<le> length m" and le: "length m \<le> 16 * k + 16" and z: "m = [] \<or> 16 * k < length m"
    using k by (auto simp: max_def split: if_splits)
  then obtain r where r: "length m = 16 * k + r" "r \<le> 16" using le_Suc_ex by fastforce
  have mod: "length m mod 16 = (if r = 16 then 0 else r)" using r by simp
  have full: "length m = 16 * k + 16 \<longleftrightarrow> m \<noteq> [] \<and> length m mod 16 = 0"
    using mod r z by auto
  have part: "m = [] \<or> length m mod 16 \<noteq> 0 \<Longrightarrow> length m - 16 * k = length m mod 16"
    using mod r by (auto split: if_splits)
  show "butlast (chunks16 m) = map (\<lambda>i. take 16 (drop (16 * i) m)) [0..<N - 1]"
    using ch N by simp
  show "last (chunks16 m) = drop (16 * (N - 1)) m" using ch N le by simp
  show "length (drop (16 * (N - 1)) m) \<le> 16" using N le by simp
  show "length (drop (16 * (N - 1)) m) = 16 \<longleftrightarrow> m \<noteq> [] \<and> length m mod 16 = 0"
    using N full ge le by auto
  show "m = [] \<or> length m mod 16 \<noteq> 0 \<Longrightarrow> length (drop (16 * (N - 1)) m) = length m mod 16"
    using N part by simp
  show "(N - 1) * 16 \<le> length m" using N ge by simp
qed

context block_cipher
begin

lemma cmac_spec_eq:
  assumes "length key = 16" and "length m \<le> 4080"
  shows "aes_cmac_calculate enc key m = cmac_spec enc key m \<and> length (cmac_spec enc key m) = 16"
proof -
  define N where "N = max 1 ((length m + 15) div 16)"
  note lc = last_chunk [OF N_def]
  let ?l = "drop (16 * (N - 1)) m"
  let ?step = "\<lambda>c X. enc (xor_bytes X c) key"
  let ?L = "be_nat (enc (replicate 16 0) key)"
  let ?K1 = "be_bytes 16 (gf_double ?L)" and ?K2 = "be_bytes 16 (gf_double (gf_double ?L))"
  let ?X = "fold (\<lambda>i X. enc (xor_128 X (drop (16 * i) m)) key) [0..<N - 1] (replicate 16 0)"
  let ?M = "if m \<noteq> [] \<and> length m mod 16 = 0 then xor_bytes ?l ?K1
            else xor_bytes (?l @ [0x80] @ replicate (15 - length ?l) 0) ?K2"
  have X: "?X = fold ?step (butlast (chunks16 m)) (replicate 16 0)"
    using cmac_fold_chunks [OF assms(1) _ lc(6)] by (simp add: lc(1))
  have lenX: "length ?X = 16" by (rule length_cmac_fold [OF assms(1) _ lc(6)]) simp
  have M: "(if m \<noteq> [] \<and> length m mod 16 = 0 then xor_128 ?l ?K1
       else xor_128 (padding ?l (length m mod 16)) ?K2) = ?M"
    using lc(3,4,5) padding_spec [of "length ?l" ?l] by (auto simp: xor_128_def)
  have lenM: "length ?M = 16" using lc(3-5) by auto
  have cb: "cmac_blocks m = (N, m \<noteq> [] \<and> length m mod 16 = 0)"
    using cmac_block_count [OF assms(2)] by (simp only: N_def)
  have "aes_cmac_calculate enc key m = enc (xor_128 ?X ?M) key"
    by (simp only: aes_cmac_calculate_def generate_subkey_spec [OF assms(1)] cb Let_def prod.case M)
  moreover have "xor_128 ?X ?M = xor_bytes ?X ?M"
    unfolding xor_128_def [of ?X] by (simp only: lenX lenM take_all order_refl)
  ultimately have calc: "aes_cmac_calculate enc key m = enc (xor_bytes ?X ?M) key" by (simp only:)
  have spec: "cmac_spec enc key m = enc (xor_bytes ?X ?M) key"
    by (simp only: cmac_spec_def Let_def lc(2,4) X fold_append fold_simps o_apply)
  have "length (enc (xor_bytes ?X ?M) key) = 16"
    using assms(1) lenX lenM by (intro enc_length) auto
  with calc spec show ?thesis by simp
qed

lemma length_cmac [simp]:
  "length key = 16 \<Longrightarrow> length m \<le> 4080 \<Longrightarrow> length (aes_cmac_calculate enc key m) = 16"
  using cmac_spec_eq by simp

lemma cmac_verify_iff:
  assumes "length key = 16" and "length m \<le> 4080" and "length mac = 16"
  shows "aes_cmac_verify enc key m mac = CMAC_VALID \<longleftrightarrow> mac = cmac_spec enc key m"
  using assms cmac_spec_eq [OF assms(1,2)]
  by (auto simp: aes_cmac_verify_def Let_def intro: nth_equalityI)

lemma generate_spec:
  assumes "length (drbg_k ctx) = 16" and "length (drbg_v ctx) = 16"
  shows "AES_CTR_DRBG_Generate enc ctx =
    (let E = (\<lambda>i. enc (be_bytes 16 ((be_nat (drbg_v ctx) + i) mod 2 ^ 128)) (drbg_k ctx))
     in (E 1, ctx\<lparr>drbg_k := E 2, drbg_v := E 3\<rparr>))"
proof -
  have inc: "AES_CTR_DRBG_Increment bs = be_bytes 16 ((be_nat bs + 1) mod 2 ^ 128)"
    if "length bs = 16" for bs
    using be_nat_Increment [of bs] that by (intro be_bytes_unique) simp_all
  let ?v = "be_nat (drbg_v ctx)"
  have val: "be_nat (be_bytes 16 (x mod 2 ^ 128)) = x mod 2 ^ 128" for x
    using be_nat_be_bytes [of 16 "x mod 2 ^ 128"] by simp
  have v1: "AES_CTR_DRBG_Increment (drbg_v ctx) = be_bytes 16 ((?v + 1) mod 2 ^ 128)"
    using assms by (intro inc)
  have v2: "AES_CTR_DRBG_Increment (be_bytes 16 ((?v + i) mod 2 ^ 128)) = be_bytes 16 ((?v + Suc i) mod 2 ^ 128)" for i
    by (subst inc) (simp_all only: val length_be_bytes mod_add_left_eq, simp)
  have "length (enc (be_bytes 16 x) (drbg_k ctx)) = 16" for x using assms(1) by (simp add: enc_length)
  then show ?thesis
    using v1 v2 [of 1] v2 [of 2]
    by (simp add: AES_CTR_DRBG_Generate_def AES_CTR_DRBG_Update_def Let_def numeral_2_eq_2 numeral_3_eq_3
        xor_bytes_commute [of _ "replicate _ _"] xor_bytes_zero)
qed

lemma instantiate_ok:
  assumes "length entropy = 32" and "length personal = 32"
  shows "length (drbg_k (AES_CTR_DRBG_Instantiate enc entropy personal)) = 16 \<and>
    length (drbg_v (AES_CTR_DRBG_Instantiate enc entropy personal)) = 16"
  using assms
  by (simp add: AES_CTR_DRBG_Instantiate_def AES_CTR_DRBG_Reseed_def AES_CTR_DRBG_Update_def Let_def enc_length)

lemma generic_expand_lengths:
  assumes "length key = 16" and "length nk = 15"
  shows "length (ccm_key (generic_expand enc key nk)) = 16 \<and>
    length (nonce_pstring (generic_expand enc key nk)) = 32 \<and> length (mpan_key (generic_expand enc key nk)) = 16"
  using assms by (simp add: generic_expand_def Let_def)

lemma length_ckdf_nonce0_expand: "length prk = 16 \<Longrightarrow> length (ckdf_nonce0_expand enc prk) = 32"
  by (simp add: ckdf_nonce0_expand_def Let_def)

lemma nonce_instantiate_ok:
  assumes "length ei_s = 16" and "length ei_r = 16" and "length k_nonce = 32"
  shows "length (drbg_k (next_nonce_instantiate enc ei_s ei_r k_nonce)) = 16 \<and>
    length (drbg_v (next_nonce_instantiate enc ei_s ei_r k_nonce)) = 16"
  unfolding next_nonce_instantiate_def Let_def
  by (rule instantiate_ok) (use assms in \<open>simp_all add: length_ckdf_nonce0_expand\<close>)

end

section \<open>Properties\<close>

text \<open>
  C8. CMAC is the specified one: for every key and every message of at most 4080 bytes,
  \<open>aes_cmac_calculate\<close> (subkeys by byte-wise shifts, block loop over indices, padding loop) computes
  the NIST CMAC stated over numbers and chunks, and \<open>aes_cmac_verify\<close> accepts exactly this value.
\<close>

theorem cmac_refines_spec:
  assumes "length key = 16" and "length m \<le> 4080"
  shows "aes_cmac_calculate AES128_ECB_encrypt key m = cmac_spec AES128_ECB_encrypt key m \<and>
    (\<forall>mac. length mac = 16 \<longrightarrow> (aes_cmac_verify AES128_ECB_encrypt key m mac = CMAC_VALID \<longleftrightarrow>
       mac = cmac_spec AES128_ECB_encrypt key m))"
  using assms aes.cmac_spec_eq aes.cmac_verify_iff by blast

text \<open>
  The 8-bit block counter of \<open>aes_cmac_calculate\<close>: two messages of the same length between 4097
  and 4111 bytes have the same MAC under every key as soon as their first few bytes (the length
  modulo 16) agree, whatever the other four thousand bytes are.
\<close>

lemma cmac_long_messages_collide:
  assumes "0 < r" and "r < 16" and "length m1 = 4096 + r" and "length m2 = 4096 + r"
    and "take r m1 = take r m2"
  shows "aes_cmac_calculate enc key m1 = aes_cmac_calculate enc key m2"
proof -
  have mod: "(4096 + r) mod 16 = r" using assms(2) mod_mult_self1 [of r 256 16] by (simp add: add.commute)
  have blocks: "cmac_blocks m = (1, False)" if "length m = 4096 + r" for m
  proof -
    have "(length m + 15) div 16 = 257" "length m mod 16 = r" using that assms(1,2) mod by auto
    then show ?thesis using assms(1) by (simp add: cmac_blocks_def)
  qed
  have "m1 ! j = m2 ! j" if "j < r" for j
    using that assms(5) by (metis nth_take)
  then have "padding m1 r = padding m2 r" by (simp add: padding_def)
  moreover have "length m1 mod 16 = r" "length m2 mod 16 = r" using assms mod by auto
  ultimately show ?thesis
    by (simp add: aes_cmac_calculate_def blocks [OF assms(3)] blocks [OF assms(4)] Let_def)
qed

text \<open>
  C10. The nonce generator is the specified one: with a 16-byte key and counter, one call of
  \<open>next_nonce_generate\<close> returns the encryption of the counter plus one and replaces key and counter
  by the encryptions of the counter plus two and plus three, where the counter is read as a
  big-endian number modulo 2 to the 128; the new state is again well-formed.
\<close>

theorem next_nonce_generate_spec:
  assumes "length (drbg_k ctx) = 16" and "length (drbg_v ctx) = 16"
  shows "next_nonce_generate AES128_ECB_encrypt ctx =
    (let E = (\<lambda>i. AES128_ECB_encrypt (be_bytes 16 ((be_nat (drbg_v ctx) + i) mod 2 ^ 128)) (drbg_k ctx))
     in (E 1, ctx\<lparr>drbg_k := E 2, drbg_v := E 3\<rparr>)) \<and>
    length (drbg_k (snd (next_nonce_generate AES128_ECB_encrypt ctx))) = 16 \<and>
    length (drbg_v (snd (next_nonce_generate AES128_ECB_encrypt ctx))) = 16"
  using aes.generate_spec [OF assms] assms(1)
  by (simp add: next_nonce_generate_def Let_def aes.enc_length)

text \<open>
  Key material fits its users: expanding a 16-byte network key or temporary key gives a
  16-byte CCM key, a 32-byte nonce personalisation string and a 16-byte MPAN key; the temporary key
  extracted from a shared secret and both public keys has 16 bytes; and a nonce generator
  instantiated with such a personalisation string and 16-byte entropy inputs is well-formed.
\<close>

lemma key_material_well_formed:
  assumes "length key = 16" and "length secret = 32" and "length tag = 64"
    and "length ei_s = 16" and "length ei_r = 16"
  shows "(let ks = networkkey_expand AES128_ECB_encrypt key;
              prk = tempkey_extract AES128_ECB_encrypt secret tag;
              ts = tempkey_expand AES128_ECB_encrypt prk;
              g = next_nonce_instantiate AES128_ECB_encrypt ei_s ei_r (nonce_pstring ks)
          in length (ccm_key ks) = 16 \<and> length (nonce_pstring ks) = 32 \<and> length (mpan_key ks) = 16 \<and>
             length prk = 16 \<and> length (ccm_key ts) = 16 \<and> length (nonce_pstring ts) = 32 \<and>
             length (mpan_key ts) = 16 \<and> length (drbg_k g) = 16 \<and> length (drbg_v g) = 16)"
proof -
  have "length (tempkey_extract AES128_ECB_encrypt secret tag) = 16"
    using assms by (simp add: tempkey_extract_def)
  then show ?thesis
    using assms aes.generic_expand_lengths [of key "replicate 15 0x55"]
      aes.generic_expand_lengths [of "tempkey_extract AES128_ECB_encrypt secret tag" "replicate 15 0x88"]
      aes.nonce_instantiate_ok [OF assms(4,5), of "nonce_pstring (networkkey_expand AES128_ECB_encrypt key)"]
    by (simp add: networkkey_expand_def tempkey_expand_def Let_def)
qed

text \<open>
  Scrambling a network key twice with the same scrambling key gives the key back.
\<close>

lemma key_scrambler_involution:
  assumes "length scramble_key = 16" and "length key = 16"
  shows "ZW_s2_key_scrambler_descramble AES128_ECB_encrypt scramble_key
     (ZW_s2_key_scrambler_descramble AES128_ECB_encrypt scramble_key key) = key"
  using assms aes.enc_length [of scramble_key "replicate 16 0"]
  by (simp add: ZW_s2_key_scrambler_descramble_def xor_bytes_cancel)

section \<open>Witnesses\<close>

theorem cmac_refines_spec_witness:
  "aes_cmac_verify AES128_ECB_encrypt (replicate 16 1) [1, 2, 3]
     (cmac_spec AES128_ECB_encrypt (replicate 16 1) [1, 2, 3]) = CMAC_VALID"
  using cmac_refines_spec [of "replicate 16 1" "[1, 2, 3]"] aes.cmac_spec_eq [of "replicate 16 1" "[1, 2, 3]"]
  by simp

lemma cmac_long_messages_collide_witness:
  "aes_cmac_calculate AES128_ECB_encrypt (replicate 16 0) (7 # replicate 4096 0) =
     aes_cmac_calculate AES128_ECB_encrypt (replicate 16 0) (7 # replicate 4096 0xFF)"
  by (rule cmac_long_messages_collide [of 1]) simp_all

theorem next_nonce_generate_spec_witness:
  "length (drbg_v (snd (next_nonce_generate AES128_ECB_encrypt
      \<lparr>df = 0, drbg_v = replicate 16 0xFF, drbg_k = replicate 16 0\<rparr>))) = 16"
  by (rule next_nonce_generate_spec [THEN conjunct2, THEN conjunct2]) simp_all

end
