(* ===== verification/S2_CCM.thy ===== *)
theory S2_CCM
  imports AES
begin

text \<open>
  Authenticated encryption of Security 2 (\<open>libs2/crypto/ccm/ccm.c\<close>), with the parameters the build
  fixes (\<open>CCM_USE_PREDEFINED_VALUES\<close>: \<open>q = 2\<close>, \<open>n = 13\<close>, \<open>t = 8\<close>). The block cipher is an argument,
  as in \<open>S2_Keys\<close>. The buffer that is encrypted and decrypted in place is a list of bytes; the 16-bit
  parameters of the C functions truncate lengths, which is written out as \<open>mod 65536\<close>.

  Shown for every \<open>block_cipher\<close>, and stated for AES: decryption of an encryption succeeds and gives
  the plaintext back, and the only ciphertext that decryption accepts for a plaintext is the one that
  encryption produces for it.
\<close>

abbreviation ccm_q :: nat where "ccm_q \<equiv> 2"
abbreviation ccm_n :: nat where "ccm_n \<equiv> 13"
abbreviation ccm_t :: nat where "ccm_t \<equiv> 8"

section \<open>Formatting\<close>

definition convert_to_octet_string :: "nat \<Rightarrow> nat \<Rightarrow> buffer" where
  "convert_to_octet_string len q = replicate (q - 2) 0 @ [of_nat (len div 256), of_nat len]"

definition format_b0 :: "nat \<Rightarrow> nat \<Rightarrow> buffer \<Rightarrow> buffer" where
  "format_b0 t len nonce =
     [0x40 OR push_bit 3 (of_nat ((t - 2) div 2) AND 7) OR (of_nat (ccm_q - 1) AND 7)]
     @ take ccm_n nonce @ take ccm_q (convert_to_octet_string len ccm_q)"

definition ciph_block :: "(buffer \<Rightarrow> buffer \<Rightarrow> buffer) \<Rightarrow> buffer \<Rightarrow> buffer \<Rightarrow> buffer" where
  "ciph_block enc b key = enc b key"

definition bit_xor :: "buffer \<Rightarrow> buffer \<Rightarrow> nat \<Rightarrow> buffer" where
  "bit_xor b next_block sz = xor_bytes (take sz b) (take sz next_block) @ drop sz next_block"

text \<open>
  The block loop that \<open>format_aad\<close> and \<open>format_payload_block\<close> share: \<open>X\<close> is \<open>blocks[0]\<close>, and
  \<open>mac_block\<close> is the content of \<open>blocks[1]\<close> in pass \<open>i\<close>; a last, partial block is zero-padded.
\<close>

definition no_of_blocks :: "nat \<Rightarrow> nat" where
  "no_of_blocks len = (if len mod 16 \<noteq> 0 then len div 16 + 1 else len div 16)"

definition mac_block :: "buffer \<Rightarrow> nat \<Rightarrow> buffer" where
  "mac_block P i =
     (if i = no_of_blocks (length P) - 1 \<and> length P mod 16 \<noteq> 0
      then take (length P mod 16) (drop (16 * i) P) @ replicate (16 - length P mod 16) 0
      else take 16 (drop (16 * i) P))"

definition mac_step :: "(buffer \<Rightarrow> buffer \<Rightarrow> buffer) \<Rightarrow> buffer \<Rightarrow> buffer \<Rightarrow> buffer \<Rightarrow> buffer" where
  "mac_step enc key b X = ciph_block enc (bit_xor b X 16) key"

definition mac_loop :: "(buffer \<Rightarrow> buffer \<Rightarrow> buffer) \<Rightarrow> buffer \<Rightarrow> buffer \<Rightarrow> buffer \<Rightarrow> buffer" where
  "mac_loop enc key P X =
     fold (\<lambda>i. mac_step enc key (mac_block P i)) [0..<no_of_blocks (length P)] X"

text \<open>
  \<open>aad_start\<close> header bytes and the capacity of the first block. The length is a 32-bit value, so the
  last branch of the C function is never taken.
\<close>

definition aad_header :: "buffer \<Rightarrow> buffer \<times> nat" where
  "aad_header aad =
     (if length aad < 65280 then ([0, of_nat (length aad)], 14)
      else ([0xFF, 0xFE, 0, 1, 0, 0], 10))"

definition aad_first_block :: "buffer \<Rightarrow> buffer" where
  "aad_first_block aad =
     (let (hdr, cap) = aad_header aad
      in hdr @ take cap aad @ replicate (cap - length aad) 0)"

definition format_aad :: "(buffer \<Rightarrow> buffer \<Rightarrow> buffer) \<Rightarrow> buffer \<Rightarrow> buffer \<Rightarrow> buffer \<Rightarrow> buffer" where
  "format_aad enc X aad key =
     (let cap = snd (aad_header aad);
          X1 = mac_step enc key (aad_first_block aad) X
      in if length aad > cap then mac_loop enc key (drop cap aad) X1 else X1)"

definition format_payload_block ::
  "(buffer \<Rightarrow> buffer \<Rightarrow> buffer) \<Rightarrow> buffer \<Rightarrow> buffer \<Rightarrow> buffer \<Rightarrow> buffer" where
  "format_payload_block enc X P key = mac_loop enc key P X"

section \<open>Counter mode\<close>

definition ctr_block :: "buffer \<Rightarrow> nat \<Rightarrow> buffer" where
  "ctr_block nonce i =
     [of_nat (ccm_q - 1) AND 7] @ take ccm_n nonce @ [of_nat (i div 256), of_nat i]"

definition ctr_key_stream :: "(buffer \<Rightarrow> buffer \<Rightarrow> buffer) \<Rightarrow> buffer \<Rightarrow> buffer \<Rightarrow> nat \<Rightarrow> buffer" where
  "ctr_key_stream enc key nonce i = ciph_block enc (ctr_block nonce i) key"

text \<open>One pass \<open>i >= 1\<close>; \<open>rem\<close> is the 16-bit variable \<open>length\<close>.\<close>

definition ctr_data_step ::
  "(buffer \<Rightarrow> buffer \<Rightarrow> buffer) \<Rightarrow> buffer \<Rightarrow> buffer \<Rightarrow> nat \<Rightarrow> buffer \<times> nat \<Rightarrow> buffer \<times> nat" where
  "ctr_data_step enc key nonce i = (\<lambda>(dat, rem).
     let off = (i - 1) * 16;
         m = (if 16 \<le> rem then 16 else rem)
     in (take off dat @ bit_xor (ctr_key_stream enc key nonce i) (drop off dat) m,
         (rem + 65536 - 16) mod 65536))"

definition ctr_data ::
  "(buffer \<Rightarrow> buffer \<Rightarrow> buffer) \<Rightarrow> buffer \<Rightarrow> buffer \<Rightarrow> nat \<Rightarrow> nat \<Rightarrow> buffer \<Rightarrow> buffer" where
  "ctr_data enc key nonce num data_len dat =
     fst (fold (ctr_data_step enc key nonce) [1..<num] (dat, data_len))"

datatype ccm_mode = ENCRYPT | DECRYPT

text \<open>
  The data and, for \<open>ENCRYPT\<close>, the masked MAC, or, for \<open>DECRYPT\<close>, the first key-stream block.
\<close>

definition encrypt_or_decrypt ::
  "(buffer \<Rightarrow> buffer \<Rightarrow> buffer) \<Rightarrow> buffer \<Rightarrow> nat \<Rightarrow> nat \<Rightarrow> buffer \<Rightarrow> nat \<Rightarrow> buffer \<Rightarrow> buffer \<Rightarrow> ccm_mode
     \<Rightarrow> buffer \<times> buffer" where
  "encrypt_or_decrypt enc dat data_len num nonce mac_len key mac mode =
     (let s0 = ctr_key_stream enc key nonce 0
      in (ctr_data enc key nonce num data_len dat,
          case mode of ENCRYPT \<Rightarrow> bit_xor s0 mac mac_len | DECRYPT \<Rightarrow> s0))"

section \<open>Entry points\<close>

definition ccm_mac ::
  "(buffer \<Rightarrow> buffer \<Rightarrow> buffer) \<Rightarrow> buffer \<Rightarrow> buffer \<Rightarrow> buffer \<Rightarrow> buffer \<Rightarrow> buffer" where
  "ccm_mac enc key nonce aad P =
     (let X = ciph_block enc (format_b0 ccm_t (length P) nonce) key;
          X = format_aad enc X aad key
      in format_payload_block enc X P key)"

definition CCM_encrypt_and_auth ::
  "(buffer \<Rightarrow> buffer \<Rightarrow> buffer) \<Rightarrow> buffer \<Rightarrow> buffer \<Rightarrow> buffer \<Rightarrow> buffer \<Rightarrow> nat \<times> buffer" where
  "CCM_encrypt_and_auth enc key nonce aad P =
     (let mac = ccm_mac enc key nonce aad P;
          counter_blocks = no_of_blocks (length P) + 1;
          (C, mac) = encrypt_or_decrypt enc P (length P) counter_blocks nonce ccm_t key mac ENCRYPT
      in (length P + ccm_t, C @ take ccm_t mac))"

definition CCM_decrypt_and_auth ::
  "(buffer \<Rightarrow> buffer \<Rightarrow> buffer) \<Rightarrow> buffer \<Rightarrow> buffer \<Rightarrow> buffer \<Rightarrow> buffer \<Rightarrow> nat \<times> buffer" where
  "CCM_decrypt_and_auth enc key nonce aad C =
     (if length C < ccm_t then (0, C)
      else
        let len = length C - ccm_t;
            num = (no_of_blocks len + 1) mod 65536;
            (dat, s0) = encrypt_or_decrypt enc C (len mod 65536) num nonce ccm_t key [] DECRYPT;
            mac = take ccm_t (bit_xor (drop len dat) s0 ccm_t);
            X = ccm_mac enc key nonce aad (take (len mod 65536) dat)
        in (if take ccm_t X \<noteq> mac then 0 else len mod 65536, dat))"

section \<open>The key stream\<close>

lemma xor_bytes_take_right [xor_simps]: "length xs \<le> n \<Longrightarrow> xor_bytes xs (take n ys) = xor_bytes xs ys"
  by (induction xs ys arbitrary: n rule: list_induct2') (auto simp: take_Cons' Suc_le_eq)

lemma bit_xor_alt: "m \<le> length ks \<Longrightarrow> bit_xor ks X m = xor_bytes (take m X) ks @ drop m X"
  by (simp add: bit_xor_def xor_bytes_commute [of "take m ks"] xor_bytes_take_right)

lemma length_ctr_block: "length nonce \<ge> 13 \<Longrightarrow> length (ctr_block nonce i) = 16"
  by (simp add: ctr_block_def)

lemma length_mac_block:
  assumes "i < no_of_blocks (length P)"
  shows "length (mac_block P i) = 16"
proof -
  define r where "r = length P mod 16"
  define q where "q = length P div 16"
  have len: "length P = 16 * q + r" and r: "r < 16" by (simp_all add: q_def r_def)
  have nb: "no_of_blocks (length P) = (if r \<noteq> 0 then q + 1 else q)"
    by (simp add: no_of_blocks_def r_def q_def)
  show ?thesis
  proof (cases "i = no_of_blocks (length P) - 1 \<and> r \<noteq> 0")
    case True
    then have "i = q" using nb by simp
    with True len r show ?thesis by (simp add: mac_block_def r_def [symmetric])
  next
    case False
    with assms nb have "i < q" by (auto split: if_splits)
    then have "16 * i + 16 \<le> length P" using len by linarith
    with False show ?thesis by (simp add: mac_block_def r_def [symmetric])
  qed
qed

lemma no_of_blocks_bounds: "len \<le> 16 * no_of_blocks len" "16 * no_of_blocks len < len + 16"
proof -
  define q r where "q = len div 16" and "r = len mod 16"
  have "len = 16 * q + r" "r < 16" by (simp_all add: q_def r_def)
  moreover have "no_of_blocks len = (if r \<noteq> 0 then q + 1 else q)"
    by (simp add: no_of_blocks_def q_def r_def)
  ultimately show "len \<le> 16 * no_of_blocks len" "16 * no_of_blocks len < len + 16" by simp_all
qed

text \<open>The key stream of the first \<open>k\<close> data blocks.\<close>

definition ks_upto :: "(buffer \<Rightarrow> buffer \<Rightarrow> buffer) \<Rightarrow> buffer \<Rightarrow> buffer \<Rightarrow> nat \<Rightarrow> buffer" where
  "ks_upto enc key nonce k = concat (map (ctr_key_stream enc key nonce) [1..<Suc k])"

context block_cipher
begin

lemma length_ctr_key_stream:
  "length key = 16 \<Longrightarrow> 13 \<le> length nonce \<Longrightarrow> length (ctr_key_stream enc key nonce i) = 16"
  by (simp add: ctr_key_stream_def ciph_block_def enc_length length_ctr_block)

lemma length_ks_upto: "length key = 16 \<Longrightarrow> 13 \<le> length nonce \<Longrightarrow> length (ks_upto enc key nonce k) = 16 * k"
  by (induction k) (simp_all add: ks_upto_def length_ctr_key_stream)

lemma ctr_data_fold:
  assumes "length key = 16" and "13 \<le> length nonce" and "len \<le> length dat" and "len < 65536"
    and "16 * k < len + 16"
  shows "fst (fold (ctr_data_step enc key nonce) [1..<Suc k] (dat, len)) =
      xor_bytes (take (min (16 * k) len) dat) (ks_upto enc key nonce k) @ drop (min (16 * k) len) dat \<and>
    (16 * k \<le> len \<longrightarrow> snd (fold (ctr_data_step enc key nonce) [1..<Suc k] (dat, len)) = len - 16 * k)"
  using assms(5)
proof (induction k)
  case 0
  then show ?case by (simp add: ks_upto_def)
next
  case (Suc k)
  let ?ks = "ctr_key_stream enc key nonce (Suc k)" and ?K = "ks_upto enc key nonce k"
  define m where "m = min 16 (len - 16 * k)"
  have k: "16 * k < len" using Suc.prems by simp
  have K: "length ?K = 16 * k" and ks: "length ?ks = 16"
    using assms by (simp_all add: length_ks_upto length_ctr_key_stream)
  obtain d rem where f: "fold (ctr_data_step enc key nonce) [1..<Suc k] (dat, len) = (d, rem)"
    by fastforce
  have d: "d = xor_bytes (take (16 * k) dat) ?K @ drop (16 * k) dat" and rem: "rem = len - 16 * k"
    using Suc f k by (simp_all add: min_def)
  have len16: "length (xor_bytes (take (16 * k) dat) ?K) = 16 * k" using K k assms(3) by simp
  have "fold (ctr_data_step enc key nonce) [1..<Suc (Suc k)] (dat, len) =
      ctr_data_step enc key nonce (Suc k) (d, rem)"
    using f by simp
  also have "\<dots> = (take (16 * k) d @ bit_xor ?ks (drop (16 * k) d) m, (rem + 65536 - 16) mod 65536)"
    by (simp add: ctr_data_step_def rem m_def min_def mult.commute Let_def)
  also have "take (16 * k) d = xor_bytes (take (16 * k) dat) ?K" using d len16 by (metis append_eq_conv_conj)
  also have "drop (16 * k) d = drop (16 * k) dat" using d len16 by (metis append_eq_conv_conj)
  also have "bit_xor ?ks (drop (16 * k) dat) m = xor_bytes (take m (drop (16 * k) dat)) ?ks @ drop (16 * k + m) dat"
    using ks by (simp add: bit_xor_alt m_def add.commute)
  finally have step: "fold (ctr_data_step enc key nonce) [1..<Suc (Suc k)] (dat, len) =
      (xor_bytes (take (16 * k + m) dat) (ks_upto enc key nonce (Suc k)) @ drop (16 * k + m) dat,
       (rem + 65536 - 16) mod 65536)"
    using K k assms(3) by (simp add: take_add ks_upto_def xor_bytes_append)
  moreover have "16 * k + m = min (16 * Suc k) len" using k by (simp add: m_def)
  moreover have "16 * Suc k \<le> len \<longrightarrow> (rem + 65536 - 16) mod 65536 = len - 16 * Suc k"
    using rem assms(4) by (auto simp: le_mod_geq)
  ultimately show ?case by (simp only: fst_conv snd_conv simp_thms)
qed

lemma ctr_data_eq:
  assumes "length key = 16" and "13 \<le> length nonce" and "len \<le> length dat" and "len < 65536"
  shows "ctr_data enc key nonce (no_of_blocks len + 1) len dat =
    xor_bytes (take len dat) (ks_upto enc key nonce (no_of_blocks len)) @ drop len dat"
proof -
  have "min (16 * no_of_blocks len) len = len" using no_of_blocks_bounds(1) by simp
  then show ?thesis
    using ctr_data_fold [OF assms no_of_blocks_bounds(2)] by (simp add: ctr_data_def)
qed

lemma length_mac_step: "length key = 16 \<Longrightarrow> length b = 16 \<Longrightarrow> length X = 16 \<Longrightarrow> length (mac_step enc key b X) = 16"
  by (simp add: mac_step_def ciph_block_def bit_xor_def enc_length)

lemma length_mac_loop:
  assumes "length key = 16" and "length X = 16"
  shows "length (mac_loop enc key P X) = 16"
proof -
  have "length (fold (\<lambda>i. mac_step enc key (mac_block P i)) [0..<n] X) = 16"
    if "n \<le> no_of_blocks (length P)" for n
    using that assms by (induction n) (simp_all add: length_mac_step length_mac_block)
  then show ?thesis by (simp add: mac_loop_def)
qed

lemma length_ccm_mac:
  assumes "length key = 16" and "13 \<le> length nonce"
  shows "length (ccm_mac enc key nonce aad P) = 16"
proof -
  have "length (format_b0 8 (length P) nonce) = 16"
    using assms(2) by (simp add: format_b0_def convert_to_octet_string_def)
  moreover have "length (aad_first_block aad) = 16"
    by (auto simp: aad_first_block_def aad_header_def)
  ultimately show ?thesis
    using assms(1)
    by (simp add: ccm_mac_def format_payload_block_def length_mac_loop format_aad_def Let_def
        ciph_block_def enc_length length_mac_step)
qed

lemma encrypt_eq:
  assumes "length key = 16" and "13 \<le> length nonce" and "length P < 65536"
  shows "CCM_encrypt_and_auth enc key nonce aad P =
    (length P + 8, xor_bytes P (ks_upto enc key nonce (no_of_blocks (length P))) @
       xor_bytes (take 8 (ctr_key_stream enc key nonce 0)) (take 8 (ccm_mac enc key nonce aad P)))"
  using assms
  by (simp add: CCM_encrypt_and_auth_def encrypt_or_decrypt_def ctr_data_eq [simplified] Let_def bit_xor_def
      length_ctr_key_stream length_ccm_mac)

lemma decrypt_eq:
  assumes "length key = 16" and "13 \<le> length nonce" and "length C = len + 8" and "len < 65536"
  shows "CCM_decrypt_and_auth enc key nonce aad C =
    (let P = xor_bytes (take len C) (ks_upto enc key nonce (no_of_blocks len))
     in (if take 8 (ccm_mac enc key nonce aad P) =
            xor_bytes (drop len C) (take 8 (ctr_key_stream enc key nonce 0)) then len else 0,
         P @ drop len C))"
proof -
  let ?P = "xor_bytes (take len C) (ks_upto enc key nonce (no_of_blocks len))"
  have lenP: "length ?P = len"
    using assms no_of_blocks_bounds(1) [of len] by (simp add: length_ks_upto)
  have "16 * no_of_blocks len < 65536 + 16" using no_of_blocks_bounds(2) [of len] assms(4) by linarith
  then have nb: "(no_of_blocks len + 1) mod 65536 = no_of_blocks len + 1" by simp
  have dat: "ctr_data enc key nonce (no_of_blocks len + 1) len C = ?P @ drop len C"
    by (rule ctr_data_eq) (use assms in simp_all)
  show ?thesis
    using assms lenP nb dat
    by (auto simp: CCM_decrypt_and_auth_def encrypt_or_decrypt_def Let_def bit_xor_def
        length_ctr_key_stream)
qed

lemma decrypt_encrypt:
  assumes "length key = 16" and "13 \<le> length nonce" and "length P < 65536"
  shows "\<exists>tag. length tag = 8 \<and>
    CCM_decrypt_and_auth enc key nonce aad (snd (CCM_encrypt_and_auth enc key nonce aad P)) = (length P, P @ tag)"
proof -
  let ?K = "ks_upto enc key nonce (no_of_blocks (length P))"
  let ?s = "take 8 (ctr_key_stream enc key nonce 0)" and ?m = "take 8 (ccm_mac enc key nonce aad P)"
  let ?tag = "xor_bytes ?s ?m"
  have K: "length P \<le> length ?K" using assms no_of_blocks_bounds(1) by (simp add: length_ks_upto)
  have tag: "length ?tag = 8" and undo: "xor_bytes ?tag ?s = ?m"
    using assms xor_bytes_cancel [of ?m ?s]
    by (simp_all add: length_ctr_key_stream length_ccm_mac xor_bytes_commute [of "xor_bytes _ _"])
  have "CCM_decrypt_and_auth enc key nonce aad (xor_bytes P ?K @ ?tag) = (length P, P @ ?tag)"
    using K tag undo assms by (subst decrypt_eq [where len = "length P"]) (simp_all add: Let_def xor_bytes_cancel_right)
  with tag show ?thesis using assms by (auto simp: encrypt_eq)
qed

lemma decrypt_accepts_only_encryptions:
  assumes "length key = 16" and "13 \<le> length nonce" and "length C < 65536 + 8"
    and "CCM_decrypt_and_auth enc key nonce aad C = (r, dat)" and "r \<noteq> 0"
  shows "length C = r + 8 \<and> CCM_encrypt_and_auth enc key nonce aad (take r dat) = (length C, C)"
proof -
  define len where "len = length C - 8"
  have "8 \<le> length C" using assms(4,5) by (auto simp: CCM_decrypt_and_auth_def split: if_splits)
  then have C: "length C = len + 8" and len: "len < 65536" using assms(3) by (simp_all add: len_def)
  let ?K = "ks_upto enc key nonce (no_of_blocks len)"
  let ?P = "xor_bytes (take len C) ?K" and ?s = "take 8 (ctr_key_stream enc key nonce 0)"
  have K: "len \<le> length ?K" using assms no_of_blocks_bounds(1) by (simp add: length_ks_upto)
  have "(if take 8 (ccm_mac enc key nonce aad ?P) = xor_bytes (drop len C) ?s then len else 0,
         ?P @ drop len C) = (r, dat)"
    using decrypt_eq [OF assms(1,2) C len, of aad] assms(4) by (simp add: Let_def)
  with assms(5) have r: "r = len" and dat: "dat = ?P @ drop len C"
    and mac: "take 8 (ccm_mac enc key nonce aad ?P) = xor_bytes (drop len C) ?s"
    by (auto split: if_splits)
  have P: "take r dat = ?P" "length ?P = len" using C K r dat by simp_all
  have undo: "xor_bytes ?s (xor_bytes (drop len C) ?s) = drop len C"
    using C assms xor_bytes_cancel [of "drop len C" ?s]
    by (simp add: length_ctr_key_stream xor_bytes_commute [of "drop len C"])
  have "xor_bytes ?P ?K = take len C" using K C by (simp add: xor_bytes_cancel_right)
  then have "CCM_encrypt_and_auth enc key nonce aad ?P = (len + 8, take len C @ drop len C)"
    using encrypt_eq [OF assms(1,2), of ?P aad] P(2) len mac undo by simp
  with P r C show ?thesis by simp
qed

end

section \<open>Properties\<close>

text \<open>
  C13. Authenticated encryption round trip: for every key, nonce, additional data and plaintext of
  less than 65536 bytes, \<open>CCM_encrypt_and_auth\<close> returns the plaintext length plus 8 as the length of
  its output, and \<open>CCM_decrypt_and_auth\<close> on that output returns the plaintext length and leaves the
  plaintext at the front of the buffer.
\<close>

theorem ccm_roundtrip:
  assumes "length key = 16" and "13 \<le> length nonce" and "length P < 65536"
    and "CCM_encrypt_and_auth AES128_ECB_encrypt key nonce aad P = (n, C)"
  shows "n = length P + 8 \<and> length C = n \<and>
    (\<exists>tag. CCM_decrypt_and_auth AES128_ECB_encrypt key nonce aad C = (length P, P @ tag))"
proof -
  have C: "C = snd (CCM_encrypt_and_auth AES128_ECB_encrypt key nonce aad P)" and n: "n = length P + 8"
    using assms(4) aes.encrypt_eq [OF assms(1-3), of aad] by simp_all
  have "length C = n"
    using assms no_of_blocks_bounds(1) [of "length P"]
    by (simp add: C n aes.encrypt_eq aes.length_ks_upto aes.length_ctr_key_stream aes.length_ccm_mac)
  with n C aes.decrypt_encrypt [OF assms(1-3), of aad] show ?thesis by auto
qed

text \<open>
  C14. Authentication: whenever \<open>CCM_decrypt_and_auth\<close> accepts a ciphertext, that ciphertext is
  exactly what \<open>CCM_encrypt_and_auth\<close> produces for the plaintext it returned; every other byte string
  that decrypts to this plaintext is rejected.
\<close>

theorem ccm_accepts_only_encryptions:
  assumes "length key = 16" and "13 \<le> length nonce" and "length C < 65536 + 8"
    and "CCM_decrypt_and_auth AES128_ECB_encrypt key nonce aad C = (r, dat)" and "r \<noteq> 0"
  shows "length C = r + 8 \<and> CCM_encrypt_and_auth AES128_ECB_encrypt key nonce aad (take r dat) = (length C, C)"
  using assms by (rule aes.decrypt_accepts_only_encryptions)

text \<open>
  Encoding of the additional data: for less than 65280 bytes the first two bytes of its first
  block are the big-endian length, as NIST SP 800-38C demands, exactly when there are fewer than 256
  bytes; above that the high byte of the length is dropped.
\<close>

lemma ccm_aad_length_encoding:
  assumes "length aad < 65280"
  shows "take 2 (aad_first_block aad) = be_bytes 2 (length aad) \<longleftrightarrow> length aad < 256"
proof -
  have "take 2 (aad_first_block aad) = [0, of_nat (length aad)]"
    using assms by (simp add: aad_first_block_def aad_header_def)
  moreover have "be_bytes 2 (length aad) = [of_nat (length aad div 256), of_nat (length aad)]"
    by (simp add: be_bytes_def numeral_2_eq_2)
  moreover have "of_nat (length aad div 256) = (0 :: byte) \<longleftrightarrow> length aad < 256"
  proof -
    have "length aad div 256 < 256" using assms by simp
    then have "unat (of_nat (length aad div 256) :: byte) = length aad div 256" by (rule unat_of_nat_byte)
    then show ?thesis by (simp only: word_unat_eq_iff unat_0 div_eq_0_iff) simp
  qed
  ultimately show ?thesis by auto
qed

section \<open>Witnesses\<close>

theorem ccm_roundtrip_witness:
  "\<exists>n C tag. CCM_encrypt_and_auth AES128_ECB_encrypt (replicate 16 1) (replicate 13 2) [3, 4] [5, 6, 7] = (n, C) \<and>
     n = 11 \<and> CCM_decrypt_and_auth AES128_ECB_encrypt (replicate 16 1) (replicate 13 2) [3, 4] C = (3, [5, 6, 7] @ tag)"
proof -
  obtain n C where nC: "CCM_encrypt_and_auth AES128_ECB_encrypt (replicate 16 1) (replicate 13 2) [3, 4] [5, 6, 7] = (n, C)"
    by fastforce
  from ccm_roundtrip [OF _ _ _ nC] have "n = length [5, 6, 7 :: byte] + 8"
    and "\<exists>tag. CCM_decrypt_and_auth AES128_ECB_encrypt (replicate 16 1) (replicate 13 2) [3, 4] C =
      (length [5, 6, 7 :: byte], [5, 6, 7] @ tag)"
    by simp_all
  with nC show ?thesis by (simp add: numeral_3_eq_3)
qed

theorem ccm_accepts_only_encryptions_witness:
  "\<exists>C dat. CCM_decrypt_and_auth AES128_ECB_encrypt (replicate 16 1) (replicate 13 2) [3] C = (3, dat) \<and>
     CCM_encrypt_and_auth AES128_ECB_encrypt (replicate 16 1) (replicate 13 2) [3] (take 3 dat) = (length C, C)"
proof -
  let ?C = "snd (CCM_encrypt_and_auth AES128_ECB_encrypt (replicate 16 1) (replicate 13 2) [3] [5, 6, 7])"
  obtain tag where d: "length tag = 8"
    "CCM_decrypt_and_auth AES128_ECB_encrypt (replicate 16 1) (replicate 13 2) [3] ?C = (3, [5, 6, 7] @ tag)"
    using aes.decrypt_encrypt [of "replicate 16 1" "replicate 13 2" "[5, 6, 7]" "[3]"] by auto
  have "length ?C < 65536 + 8" by (simp add: aes.encrypt_eq aes.length_ks_upto)
  then have "CCM_encrypt_and_auth AES128_ECB_encrypt (replicate 16 1) (replicate 13 2) [3] (take 3 ([5, 6, 7] @ tag)) =
      (length ?C, ?C)"
    by (intro ccm_accepts_only_encryptions [OF _ _ _ d(2), THEN conjunct2]) simp_all
  with d(2) show ?thesis by blast
qed

end
