(* ===== verification/S2_Span.thy ===== *)
theory S2_Span
  imports S2_Keys S2_CCM
begin

text \<open>
  The context of the Security 2 transport (\<open>libs2/protocol/S2.c\<close>, \<open>libs2/include/s2_protocol.h\<close>) and
  the operations on its tables: the table of singlecast nonces (SPAN), the table of multicast nonces
  (MPAN), the list of nodes that are out of multicast sync (MOS), sequence numbers, nonce reports and
  the additional authenticated data.

  \<open>struct S2\<close> is the record \<open>s2\<close>. Pointers into its tables (\<open>ctxt->mpan\<close>, the results of the two
  find functions) are indices. The global generator \<open>s2_ctr_drbg\<close> is the field \<open>prng\<close>. \<open>ctxt->buf\<close> and
  \<open>ctxt->length\<close> are one field, the bytes to send. Calls that leave the library are appended to the log
  \<open>outs\<close>, newest first. The field \<open>fault\<close> is set where the C code would access memory outside an array.
  A received frame is a pair of the memory from its first byte on and its length.

  The sizes are those of the build for controllers (\<open>ZW_CONTROLLER\<close>).
\<close>

section \<open>Data\<close>

abbreviation (input) SPAN_TABLE_SIZE :: nat where "SPAN_TABLE_SIZE \<equiv> 254"
abbreviation (input) MPAN_TABLE_SIZE :: nat where "MPAN_TABLE_SIZE \<equiv> 254"
abbreviation (input) MOS_LIST_LENGTH :: nat where "MOS_LIST_LENGTH \<equiv> 3"
abbreviation (input) N_SEC_CLASS :: nat where "N_SEC_CLASS \<equiv> 7"
abbreviation (input) WORKBUF_BYTES :: nat where "WORKBUF_BYTES \<equiv> 1302"
abbreviation (input) AUTH_TAG_LEN :: nat where "AUTH_TAG_LEN \<equiv> 8"

datatype span_state = SPAN_NOT_USED | SPAN_NO_SEQ | SPAN_SOS | SPAN_SOS_LOCAL_NONCE
  | SPAN_SOS_REMOTE_NONCE | SPAN_INSTANTIATE | SPAN_NEGOTIATED

datatype mpan_state = MPAN_NOT_USED | MPAN_SET | MPAN_MOS

datatype states = IDLE | WAIT_NONCE_RAPORT | SENDING_MSG | SENDING_MULTICAST | VERIFYING_DELIVERY
  | IS_MOS_WAIT_REPLY

record s2_connection =
  l_node :: nodeid
  r_node :: nodeid
  tx_options :: byte
  rx_options :: byte
  zw_tx_options :: byte
  zw_rx_status :: byte
  zw_rx_RSSIval :: byte
  mgrp_group_id :: byte
  con_class :: byte

text \<open>The field \<open>sp_d\<close> is the union of the generator and the nonce of the receiver, see below.\<close>

record span =
  sp_d :: ctr_drbg
  lnode :: nodeid
  rnode :: nodeid
  rx_seq :: byte
  tx_seq :: byte
  sp_class :: byte
  sp_state :: span_state

record mpan =
  owner_id :: nodeid
  group_id :: byte
  inner_state :: buffer
  mp_class :: byte
  mp_state :: mpan_state

record mos_entry =
  mos_node :: nodeid
  mos_group :: byte

datatype s2_out =
    Send_frame s2_connection buffer bool
  | Send_frame_no_cb s2_connection buffer
  | Send_frame_multi s2_connection buffer bool
  | Set_timeout nat
  | Stop_timeout
  | Timer_fired
  | Send_accepted s2_connection
  | Send_done_event byte
  | Msg_received s2_connection buffer
  | Inclusion_send_done bool
  | Inclusion_post_event s2_connection buffer
  | Inclusion_decryption_failure s2_connection
  | Resynchronization_event nodeid byte nodeid

record s2 =
  sg :: "s2_keyset list"
  loaded_keys :: byte
  my_home_id :: u32
  peer :: s2_connection
  tx_data :: buffer
  mpan_ptr :: "nat option"
  span_table :: "span list"
  mpan_table :: "mpan list"
  mos_list :: "mos_entry list"
  fsm :: states
  retry :: byte
  inclusion_idle :: bool
  workbuf :: buffer
  prng :: ctr_drbg
  outs :: "s2_out list"
  fault :: bool

definition emit :: "s2_out \<Rightarrow> s2 \<Rightarrow> s2" where
  "emit e s = s\<lparr>outs := e # outs s\<rparr>"

definition upd_span :: "nat \<Rightarrow> (span \<Rightarrow> span) \<Rightarrow> s2 \<Rightarrow> s2" where
  "upd_span i f s = s\<lparr>span_table := (span_table s)[i := f (span_table s ! i)]\<rparr>"

definition upd_mpan :: "nat \<Rightarrow> (mpan \<Rightarrow> mpan) \<Rightarrow> s2 \<Rightarrow> s2" where
  "upd_mpan i f s = s\<lparr>mpan_table := (mpan_table s)[i := f (mpan_table s ! i)]\<rparr>"

text \<open>
  The union: \<open>r_nonce[0..15]\<close> lies over \<open>rng.df\<close> and \<open>rng.v[0..14]\<close>; \<open>rng.v[15]\<close> and \<open>rng.k\<close> are not
  touched when a nonce is stored.
\<close>

definition get_r_nonce :: "ctr_drbg \<Rightarrow> buffer" where
  "get_r_nonce d = df d # take 15 (drbg_v d)"

definition set_r_nonce :: "buffer \<Rightarrow> ctr_drbg \<Rightarrow> ctr_drbg" where
  "set_r_nonce n d = d\<lparr>df := n ! 0, drbg_v := take 15 (drop 1 n) @ drop 15 (drbg_v d)\<rparr>"

text \<open>
  \<open>ctxt->sg[class_id]\<close> and \<open>loaded_keys & (1 << class_id)\<close>. A class outside the array reads keys from
  the memory behind it (\<open>fault\<close>); the model takes the last entry then.
\<close>

definition sg_at :: "s2 \<Rightarrow> byte \<Rightarrow> s2_keyset" where
  "sg_at s c = (if unat c < length (sg s) then sg s ! unat c else last (sg s))"

definition key_loaded :: "s2 \<Rightarrow> byte \<Rightarrow> bool" where
  "key_loaded s c = bit (loaded_keys s) (unat c)"

definition check_class :: "byte \<Rightarrow> s2 \<Rightarrow> s2" where
  "check_class c s = s\<lparr>fault := fault s \<or> N_SEC_CLASS \<le> unat c\<rparr>"

text \<open>Writing into \<open>ctxt->workbuf\<close>.\<close>

definition write_wb :: "nat \<Rightarrow> buffer \<Rightarrow> s2 \<Rightarrow> s2" where
  "write_wb off xs s =
     s\<lparr>workbuf := wr off xs (workbuf s), fault := fault s \<or> WORKBUF_BYTES < off + length xs\<rparr>"

definition modify_wb :: "nat \<Rightarrow> (byte \<Rightarrow> byte) \<Rightarrow> s2 \<Rightarrow> s2" where
  "modify_wb off f s = write_wb off [f (byte_at (workbuf s) off)] s"

section \<open>Tables\<close>

definition lookup_mpan :: "nodeid \<Rightarrow> byte \<Rightarrow> s2 \<Rightarrow> nat option" where
  "lookup_mpan owner gid s =
     find_index (\<lambda>m. mp_state m \<noteq> MPAN_NOT_USED \<and> group_id m = gid \<and> owner_id m = owner \<and>
        key_loaded s (mp_class m)) (mpan_table s)"

definition find_mpan_by_group_id ::
  "(buffer \<Rightarrow> buffer \<Rightarrow> buffer) \<Rightarrow> nodeid \<Rightarrow> byte \<Rightarrow> bool \<Rightarrow> s2 \<Rightarrow> nat option \<times> s2" where
  "find_mpan_by_group_id enc owner gid create_new s =
     (case lookup_mpan owner gid s of
        Some i \<Rightarrow> (Some i, s)
      | None \<Rightarrow>
          if \<not> create_new then (None, s)
          else
            let (rnd, g) = AES_CTR_DRBG_Generate enc (prng s);
                i = (case find_index (\<lambda>m. mp_state m = MPAN_NOT_USED) (mpan_table s) of
                       Some i \<Rightarrow> i
                     | None \<Rightarrow> unat (rnd ! 0) mod MPAN_TABLE_SIZE);
                (inner, g2) = AES_CTR_DRBG_Generate enc g
            in (Some i,
                upd_mpan i (\<lambda>m. m\<lparr>mp_state := (if owner \<noteq> 0 then MPAN_MOS else MPAN_SET), group_id := gid,
                    owner_id := owner, mp_class := con_class (peer s), inner_state := inner\<rparr>)
                  (s\<lparr>prng := g2\<rparr>)))"

definition lookup_span :: "s2_connection \<Rightarrow> s2 \<Rightarrow> nat option" where
  "lookup_span con s =
     find_index (\<lambda>sp. sp_state sp \<noteq> SPAN_NOT_USED \<and> lnode sp = l_node con \<and> rnode sp = r_node con)
       (span_table s)"

definition find_span_by_node ::
  "(buffer \<Rightarrow> buffer \<Rightarrow> buffer) \<Rightarrow> s2_connection \<Rightarrow> s2 \<Rightarrow> nat \<times> s2" where
  "find_span_by_node enc con s =
     (case lookup_span con s of
        Some i \<Rightarrow> (i, s)
      | None \<Rightarrow>
          let (rnd, g) = AES_CTR_DRBG_Generate enc (prng s);
              i = (case find_index (\<lambda>sp. sp_state sp = SPAN_NOT_USED) (span_table s) of
                     Some i \<Rightarrow> i
                   | None \<Rightarrow> unat (rnd ! 0) mod SPAN_TABLE_SIZE)
          in (i, upd_span i (\<lambda>sp. sp\<lparr>sp_state := SPAN_NO_SEQ, lnode := l_node con, rnode := r_node con,
                  tx_seq := rnd ! 1\<rparr>) (s\<lparr>prng := g\<rparr>)))"

definition S2_span_ok ::
  "(buffer \<Rightarrow> buffer \<Rightarrow> buffer) \<Rightarrow> s2_connection \<Rightarrow> s2 \<Rightarrow> bool \<times> s2" where
  "S2_span_ok enc con s =
     (let (i, s') = find_span_by_node enc con s; sp = span_table s' ! i
      in ((sp_state sp = SPAN_NEGOTIATED \<or> sp_state sp = SPAN_SOS_REMOTE_NONCE) \<and>
            sp_class sp = con_class con, s'))"

definition S2_verify_seq ::
  "(buffer \<Rightarrow> buffer \<Rightarrow> buffer) \<Rightarrow> s2_connection \<Rightarrow> byte \<Rightarrow> s2 \<Rightarrow> bool \<times> s2" where
  "S2_verify_seq enc con seq s =
     (let (i, s') = find_span_by_node enc con s; sp = span_table s' ! i
      in if sp_state sp = SPAN_NO_SEQ \<or> 2 \<le> rx_seq sp - seq
         then (True, upd_span i (\<lambda>sp. sp\<lparr>rx_seq := seq\<rparr>) s')
         else (False, s'))"

definition S2_is_node_mos :: "nodeid \<Rightarrow> s2 \<Rightarrow> bool" where
  "S2_is_node_mos node s = (find_index (\<lambda>m. mos_node m = node) (mos_list s) \<noteq> None)"

definition S2_set_node_mos :: "nodeid \<Rightarrow> s2 \<Rightarrow> s2" where
  "S2_set_node_mos node s =
     (case mpan_ptr s of
        None \<Rightarrow> s
      | Some m \<Rightarrow>
          if (fsm s = VERIFYING_DELIVERY \<or> fsm s = SENDING_MSG) \<and> tx_options (peer s) AND 6 \<noteq> 0
          then (case find_index (\<lambda>e. mos_node e = 0) (mos_list s) of
                  None \<Rightarrow> s
                | Some i \<Rightarrow> s\<lparr>mos_list := (mos_list s)
                     [i := \<lparr>mos_node = node, mos_group = group_id (mpan_table s ! m)\<rparr>]\<rparr>)
          else s)"

definition S2_is_mos :: "nodeid \<Rightarrow> bool \<Rightarrow> s2 \<Rightarrow> bool \<times> s2" where
  "S2_is_mos node clear s =
     (case find_index (\<lambda>m. owner_id m = node \<and> mp_state m = MPAN_MOS) (mpan_table s) of
        Some i \<Rightarrow> (True, if clear then upd_mpan i (\<lambda>m. m\<lparr>mp_state := MPAN_NOT_USED\<rparr>) s else s)
      | None \<Rightarrow> (False, s))"

definition S2_free_mpan :: "nodeid \<Rightarrow> byte \<Rightarrow> s2 \<Rightarrow> s2" where
  "S2_free_mpan owner gid s =
     (case find_index (\<lambda>m. group_id m = gid \<and> owner_id m = owner) (mpan_table s) of
        Some i \<Rightarrow> upd_mpan i (\<lambda>m. m\<lparr>mp_state := MPAN_NOT_USED\<rparr>) s
      | None \<Rightarrow> s)"

section \<open>Multicast nonce\<close>

text \<open>
  \<open>bigint_add\<close> of \<open>curve25519/generic/bigint.c\<close>: byte 0 is the least significant one. The final carry
  is the return value.
\<close>

fun bigint_add :: "u16 \<Rightarrow> buffer \<Rightarrow> buffer \<Rightarrow> buffer \<times> byte" where
  "bigint_add tmp (a # as) (b # bs) =
     (let t = ucast a + ucast b + tmp; (r, c) = bigint_add (drop_bit 8 t) as bs
      in (ucast (t AND 0xFF) # r, c))"
| "bigint_add tmp _ _ = ([], ucast tmp)"

definition next_mpan_state :: "mpan \<Rightarrow> mpan" where
  "next_mpan_state m = m\<lparr>inner_state := fst (bigint_add 0 (inner_state m) (replicate 15 0 @ [1]))\<rparr>"

section \<open>Nonce reports\<close>

definition S2_send_nonce_report ::
  "(buffer \<Rightarrow> buffer \<Rightarrow> buffer) \<Rightarrow> s2_connection \<Rightarrow> byte \<Rightarrow> s2 \<Rightarrow> s2" where
  "S2_send_nonce_report enc con flags s =
     (let (i, s1) = find_span_by_node enc con s;
          seq = tx_seq (span_table s1 ! i);
          (rnd, g) = AES_CTR_DRBG_Generate enc (prng s1);
          s2 = (if flags AND 1 \<noteq> 0
                then upd_span i (\<lambda>sp. sp\<lparr>sp_state := SPAN_SOS_LOCAL_NONCE, sp_d := set_r_nonce rnd (sp_d sp)\<rparr>)
                       (s1\<lparr>prng := g\<rparr>)
                else s1);
          s3 = upd_span i (\<lambda>sp. sp\<lparr>tx_seq := tx_seq sp + 1\<rparr>) s2
      in emit (Send_frame_no_cb con
           ([0x9F, 2, seq, flags] @ (if flags AND 1 \<noteq> 0 then get_r_nonce (sp_d (span_table s2 ! i)) else []))) s3)"

text \<open>Returns the flags of the report, or 0 for a duplicate. \<open>buf[3]\<close> is read whatever the length is.\<close>

definition S2_register_nonce ::
  "(buffer \<Rightarrow> buffer \<Rightarrow> buffer) \<Rightarrow> buffer \<Rightarrow> nat \<Rightarrow> s2 \<Rightarrow> byte \<times> s2" where
  "S2_register_nonce enc buf len s =
     (case S2_verify_seq enc (peer s) (byte_at buf 2) s of
        (False, s1) \<Rightarrow> (0, s1)
      | (True, s1) \<Rightarrow>
          let (i, s2) = find_span_by_node enc (peer s1) s1;
              flags = byte_at buf 3;
              s3 = (if 20 \<le> len \<and> flags AND 1 \<noteq> 0
                    then upd_span i (\<lambda>sp. sp\<lparr>sp_d := set_r_nonce (map (byte_at buf) [4..<20]) (sp_d sp),
                           sp_state := SPAN_SOS_REMOTE_NONCE\<rparr>) s2
                    else s2);
              s4 = (if flags AND 2 \<noteq> 0 \<and> 3 \<le> len then S2_set_node_mos (r_node (peer s3)) s3 else s3)
          in (flags, s4))"

section \<open>Additional authenticated data\<close>

text \<open>
  The bytes that are written into the 64-byte array; the empty list is the return value 0. The size
  check counts 8 bytes beside the header, also when the addresses take two bytes each.
\<close>

definition S2_make_aad :: "u32 \<Rightarrow> nodeid \<Rightarrow> nodeid \<Rightarrow> buffer \<Rightarrow> nat \<Rightarrow> nat \<Rightarrow> buffer" where
  "S2_make_aad home sender receiver msg hdr_len msg_len =
     (if 64 < hdr_len - 2 + 8 then []
      else
        (if 0x100 \<le> sender \<or> 0x100 \<le> receiver
         then [ucast (drop_bit 8 sender), ucast sender, ucast (drop_bit 8 receiver), ucast receiver]
         else [ucast sender, ucast receiver]) @
        [ucast (drop_bit 24 home), ucast (drop_bit 16 home), ucast (drop_bit 8 home), ucast home,
         of_nat (msg_len div 256), of_nat msg_len] @
        take (hdr_len - 2) (drop 2 msg))"

definition check_aad :: "buffer \<Rightarrow> s2 \<Rightarrow> s2" where
  "check_aad aad s = s\<lparr>fault := fault s \<or> 64 < length aad\<rparr>"

section \<open>Connections\<close>

definition S2_is_peernode :: "s2_connection \<Rightarrow> s2 \<Rightarrow> bool" where
  "S2_is_peernode con s = (l_node con = l_node (peer s) \<and> r_node con = r_node (peer s))"

definition S2_set_peer :: "s2_connection \<Rightarrow> buffer \<Rightarrow> nat \<Rightarrow> s2 \<Rightarrow> s2" where
  "S2_set_peer con buf len s = s\<lparr>peer := con, tx_data := take len buf\<rparr>"

definition IS_LR_NODE :: "nodeid \<Rightarrow> bool" where
  "IS_LR_NODE n = (256 \<le> n \<and> n \<le> 4000)"

definition convert_normal_to_lr_keyclass :: "s2_connection \<Rightarrow> s2_connection" where
  "convert_normal_to_lr_keyclass con =
     (if con_class con = 2 then con\<lparr>con_class := 4\<rparr>
      else if con_class con = 1 then con\<lparr>con_class := 3\<rparr> else con)"

definition convert_lr_to_normal_keyclass :: "s2_connection \<Rightarrow> s2_connection" where
  "convert_lr_to_normal_keyclass con =
     (if con_class con = 4 then con\<lparr>con_class := 2\<rparr>
      else if con_class con = 3 then con\<lparr>con_class := 1\<rparr> else con)"

section \<open>Context\<close>

definition S2_network_key_update ::
  "(buffer \<Rightarrow> buffer \<Rightarrow> buffer) \<Rightarrow> byte \<Rightarrow> buffer \<Rightarrow> bool \<Rightarrow> s2 \<Rightarrow> bool \<times> s2" where
  "S2_network_key_update enc class_id net_key temp_key_expand s =
     (if N_SEC_CLASS \<le> unat class_id then (False, s)
      else
        let ks = (if temp_key_expand then tempkey_expand enc net_key else networkkey_expand enc net_key)
        in (True, s\<lparr>sg := (sg s)[unat class_id := ks],
                    loaded_keys := loaded_keys s OR push_bit (unat class_id) 1\<rparr>))"

text \<open>
  \<open>s2_restore_keys\<close> of \<open>s2_inclusion.c\<close>. The key store is outside the library: \<open>keystore k\<close> is the key it
  holds for the key class \<open>k\<close>, if any. The pairs are \<open>m_key_slot_pair\<close>.
\<close>

definition s2_restore_keys ::
  "(buffer \<Rightarrow> buffer \<Rightarrow> buffer) \<Rightarrow> (byte \<Rightarrow> buffer option) \<Rightarrow> s2 \<Rightarrow> s2" where
  "s2_restore_keys enc keystore s =
     fold (\<lambda>(k, slot) s. case keystore k of
            Some key \<Rightarrow> snd (S2_network_key_update enc slot key False s)
          | None \<Rightarrow> s)
       [(1, 0), (2, 1), (4, 2), (8, 3), (0x10, 4)] (s\<lparr>loaded_keys := 0\<rparr>)"

definition zero_drbg :: ctr_drbg where
  "zero_drbg = \<lparr>df = 0, drbg_v = replicate 16 0, drbg_k = replicate 16 0\<rparr>"

definition zero_con :: s2_connection where
  "zero_con = \<lparr>l_node = 0, r_node = 0, tx_options = 0, rx_options = 0, zw_tx_options = 0,
     zw_rx_status = 0, zw_rx_RSSIval = 0, mgrp_group_id = 0, con_class = 0\<rparr>"

definition zero_span :: span where
  "zero_span = \<lparr>sp_d = zero_drbg, lnode = 0, rnode = 0, rx_seq = 0, tx_seq = 0, sp_class = 0,
     sp_state = SPAN_NOT_USED\<rparr>"

definition zero_mpan :: mpan where
  "zero_mpan = \<lparr>owner_id = 0, group_id = 0, inner_state = replicate 16 0, mp_class = 0,
     mp_state = MPAN_NOT_USED\<rparr>"

definition zero_keys :: s2_keyset where
  "zero_keys = \<lparr>ccm_key = replicate 16 0, nonce_pstring = replicate 32 0, mpan_key = replicate 16 0\<rparr>"

text \<open>The cleared context; the generator \<open>g\<close> is global and not part of it.\<close>

definition zero_ctx :: "u32 \<Rightarrow> ctr_drbg \<Rightarrow> s2" where
  "zero_ctx home g =
     \<lparr>sg = replicate N_SEC_CLASS zero_keys, loaded_keys = 0, my_home_id = home, peer = zero_con,
      tx_data = [], mpan_ptr = None, span_table = replicate SPAN_TABLE_SIZE zero_span,
      mpan_table = replicate MPAN_TABLE_SIZE zero_mpan,
      mos_list = replicate MOS_LIST_LENGTH \<lparr>mos_node = 0, mos_group = 0\<rparr>, fsm = IDLE, retry = 0,
      inclusion_idle = True, workbuf = replicate WORKBUF_BYTES 0, prng = g, outs = [], fault = False\<rparr>"

definition S2_init_prng :: "(buffer \<Rightarrow> buffer \<Rightarrow> buffer) \<Rightarrow> buffer \<Rightarrow> ctr_drbg" where
  "S2_init_prng enc entropy = AES_CTR_DRBG_Instantiate enc entropy (replicate 32 0)"

definition S2_init_ctx ::
  "(buffer \<Rightarrow> buffer \<Rightarrow> buffer) \<Rightarrow> (byte \<Rightarrow> buffer option) \<Rightarrow> u32 \<Rightarrow> ctr_drbg \<Rightarrow> s2" where
  "S2_init_ctx enc keystore home g = s2_restore_keys enc keystore (zero_ctx home g)"

end
