(* ===== verification/S2_Message.thy ===== *)
theory S2_Message
  imports S2_Span
begin

text \<open>
  Encryption and decryption of messages in \<open>libs2/protocol/S2.c\<close>: \<open>S2_encrypt_and_send\<close>,
  \<open>S2_encrypt_and_send_multi\<close> and \<open>S2_decrypt_msg\<close>, with the extensions in the clear and in the encrypted
  part of a message.

  \<open>S2_send_raw\<close> reports a refused frame to the state machine, and \<open>S2_decrypt_msg\<close> reports a message of
  an unknown multicast group; what the state machine does on these two events is defined here, so that
  the recursion of the C code between the two layers is a plain sequence of definitions. Whether the
  radio layer accepts a frame (the result of \<open>S2_send_frame\<close>) is the argument \<open>ok\<close>.

  Lengths stay far below 65536, so the 16-bit length variables of the C code do not wrap.
\<close>

section \<open>Completion of a transmission\<close>

abbreviation (input) S2_TRANSMIT_COMPLETE_OK :: byte where "S2_TRANSMIT_COMPLETE_OK \<equiv> 0"
abbreviation (input) S2_TRANSMIT_COMPLETE_NO_ACK :: byte where "S2_TRANSMIT_COMPLETE_NO_ACK \<equiv> 1"
abbreviation (input) S2_TRANSMIT_COMPLETE_FAIL :: byte where "S2_TRANSMIT_COMPLETE_FAIL \<equiv> 2"
abbreviation (input) S2_TRANSMIT_COMPLETE_VERIFIED :: byte where "S2_TRANSMIT_COMPLETE_VERIFIED \<equiv> 5"

definition S2_post_send_done_event :: "byte \<Rightarrow> s2 \<Rightarrow> s2" where
  "S2_post_send_done_event status s =
     emit (Send_done_event status)
       (emit (Inclusion_send_done (status = S2_TRANSMIT_COMPLETE_OK \<or> status = S2_TRANSMIT_COMPLETE_VERIFIED)) s)"

text \<open>The event \<open>SEND_DONE\<close> in each state.\<close>

definition fsm_send_done :: "byte \<Rightarrow> u16 \<Rightarrow> s2 \<Rightarrow> s2" where
  "fsm_send_done status time s =
     (case fsm s of
        IDLE \<Rightarrow> emit (Inclusion_send_done (status = S2_TRANSMIT_COMPLETE_OK)) s
      | IS_MOS_WAIT_REPLY \<Rightarrow> emit (Inclusion_send_done (status = S2_TRANSMIT_COMPLETE_OK)) s
      | WAIT_NONCE_RAPORT \<Rightarrow>
          if status = S2_TRANSMIT_COMPLETE_OK then emit (Set_timeout (unat time)) s
          else S2_post_send_done_event status (s\<lparr>fsm := IDLE\<rparr>)
      | SENDING_MSG \<Rightarrow> S2_post_send_done_event status (s\<lparr>fsm := IDLE\<rparr>)
      | VERIFYING_DELIVERY \<Rightarrow>
          if status = S2_TRANSMIT_COMPLETE_OK then emit (Set_timeout (unat time)) s
          else S2_post_send_done_event status (s\<lparr>fsm := IDLE\<rparr>)
      | SENDING_MULTICAST \<Rightarrow> s\<lparr>fault := True\<rparr>)"

definition S2_send_raw ::
  "(buffer \<Rightarrow> buffer \<Rightarrow> buffer) \<Rightarrow> bool \<Rightarrow> buffer \<Rightarrow> s2 \<Rightarrow> s2" where
  "S2_send_raw enc ok frame s =
     (let s1 = emit (Send_frame (peer s) frame ok) s
      in if ok
         then let (i, s2) = find_span_by_node enc (peer s1) s1
              in upd_span i (\<lambda>sp. sp\<lparr>tx_seq := tx_seq sp + 1\<rparr>) s2
         else fsm_send_done S2_TRANSMIT_COMPLETE_FAIL 0 s1)"

definition S2_send_nonce_get :: "(buffer \<Rightarrow> buffer \<Rightarrow> buffer) \<Rightarrow> bool \<Rightarrow> s2 \<Rightarrow> s2" where
  "S2_send_nonce_get enc ok s =
     (let (i, s1) = find_span_by_node enc (peer s) s
      in S2_send_raw enc ok [0x9F, 1, tx_seq (span_table s1 ! i)] s1)"

section \<open>Encryption\<close>

text \<open>
  One pass of the loop over the MOS list: \<open>p\<close> is the write position, \<open>k\<close> the number of extensions so
  far. The position advances by the three header bytes only.
\<close>

definition add_mpan_ext :: "nat \<Rightarrow> nat \<times> nat \<times> s2 \<Rightarrow> nat \<times> nat \<times> s2" where
  "add_mpan_ext i = (\<lambda>(p, k, s).
     let e = mos_list s ! i
     in if mos_node e = r_node (peer s)
        then (case lookup_mpan 0 (mos_group e) s of
                None \<Rightarrow> (p, k, s)
              | Some m \<Rightarrow>
                  (p + 3, k + 1,
                   (write_wb (p + 3) (inner_state (mpan_table s ! m)) (write_wb p [19, 0xC2, mos_group e] s))
                     \<lparr>mos_list := (mos_list s)[i := e\<lparr>mos_node := 0\<rparr>]\<rparr>))
        else (p, k, s))"

definition S2_add_mpan_extensions :: "nat \<Rightarrow> s2 \<Rightarrow> nat \<times> s2" where
  "S2_add_mpan_extensions off s =
     (let (p, k, s1) = fold add_mpan_ext [0..<MOS_LIST_LENGTH] (off, 0, s)
      in (k * 19, if k = 0 then s1 else modify_wb (off + (k - 1) * 19 + 1) (\<lambda>b. b AND 0x7F) s1))"

text \<open>The three extensions in the clear: sender nonce, multicast group, multicast out of sync.\<close>

definition sn_ext :: "(buffer \<Rightarrow> buffer \<Rightarrow> buffer) \<Rightarrow> nat \<Rightarrow> s2 \<Rightarrow> buffer \<times> s2" where
  "sn_ext enc i s =
     (if sp_state (span_table s ! i) = SPAN_SOS_REMOTE_NONCE
      then
        let (ei_sender, g) = AES_CTR_DRBG_Generate enc (prng s);
            ei_receiver = get_r_nonce (sp_d (span_table s ! i));
            c = con_class (peer s);
            rng = next_nonce_instantiate enc ei_sender ei_receiver (nonce_pstring (sg_at s c))
        in ([18, 0x41] @ ei_sender,
            check_class c (upd_span i (\<lambda>sp. sp\<lparr>sp_d := rng, sp_class := c, sp_state := SPAN_NEGOTIATED\<rparr>)
              (s\<lparr>prng := g\<rparr>)))
      else ([], s))"

definition mgrp_ext :: "s2 \<Rightarrow> buffer \<times> s2" where
  "mgrp_ext s =
     (case mpan_ptr s of
        None \<Rightarrow> ([], s)
      | Some m \<Rightarrow>
          if tx_options (peer s) AND 6 = 0 then ([], s)
          else
            (if S2_is_node_mos (r_node (peer s)) s then [] else [3, 0x43, group_id (mpan_table s ! m)],
             if tx_options (peer s) AND 4 \<noteq> 0 \<and> retry s = 2 then upd_mpan m next_mpan_state s else s))"

definition mos_ext :: "s2 \<Rightarrow> buffer \<times> s2" where
  "mos_ext s =
     (case mpan_ptr s of
        None \<Rightarrow> ([], s)
      | Some m \<Rightarrow>
          if mp_state (mpan_table s ! m) = MPAN_MOS
          then ([2, 4], (upd_mpan m (\<lambda>m. m\<lparr>mp_state := MPAN_NOT_USED\<rparr>) s)\<lparr>mpan_ptr := None\<rparr>)
          else ([], s))"

text \<open>The header in the work buffer and its length; the more flag is only ever set on the first extension.\<close>

definition build_header :: "(buffer \<Rightarrow> buffer \<Rightarrow> buffer) \<Rightarrow> nat \<Rightarrow> s2 \<Rightarrow> nat \<times> s2" where
  "build_header enc i s =
     (let s1 = write_wb 0 [0x9F, 3, tx_seq (span_table s ! i), 0] s;
          (e1, s2) = sn_ext enc i s1;
          (e2, s3) = mgrp_ext s2;
          (e3, s4) = mos_ext s3;
          exts = filter (\<lambda>e. e \<noteq> []) [e1, e2, e3];
          s5 = write_wb 4 (concat exts) s4;
          s6 = (if exts \<noteq> [] then modify_wb 3 (\<lambda>b. b OR 1) s5 else s5);
          s7 = (if 1 < length exts then modify_wb 5 (\<lambda>b. b OR 0x80) s6 else s6)
      in (4 + length (concat exts), s7))"

text \<open>From the additional data on: \<open>len\<close> bytes of plaintext stand behind the header in the work buffer.\<close>

definition seal_and_send :: "(buffer \<Rightarrow> buffer \<Rightarrow> buffer) \<Rightarrow> bool \<Rightarrow> nat \<Rightarrow> nat \<Rightarrow> nat \<Rightarrow> s2 \<Rightarrow> s2" where
  "seal_and_send enc ok i hdr_len len s =
     (let aad = S2_make_aad (my_home_id s) (l_node (peer s)) (r_node (peer s)) (workbuf s) hdr_len
                  (len + hdr_len + AUTH_TAG_LEN);
          (nonce, rng) = next_nonce_generate enc (sp_d (span_table s ! i));
          c = con_class (peer s);
          s1 = check_class c (check_aad aad (upd_span i (\<lambda>sp. sp\<lparr>sp_d := rng\<rparr>) s));
          (msg_len, ct) = CCM_encrypt_and_auth enc (ccm_key (sg_at s c)) nonce aad
                            (take len (drop hdr_len (workbuf s)));
          s2 = write_wb hdr_len ct s1
      in S2_send_raw enc ok (take (msg_len + hdr_len) (workbuf s2)) (s2\<lparr>workbuf := take WORKBUF_BYTES (workbuf s2)\<rparr>))"

definition S2_encrypt_and_send :: "(buffer \<Rightarrow> buffer \<Rightarrow> buffer) \<Rightarrow> bool \<Rightarrow> s2 \<Rightarrow> s2" where
  "S2_encrypt_and_send enc ok s =
     (let (i, s1) = find_span_by_node enc (peer s) s;
          (hdr_len, s2) = build_header enc i s1;
          (shdr_len, s3) = S2_add_mpan_extensions hdr_len s2;
          s4 = (if shdr_len \<noteq> 0 then modify_wb 3 (\<lambda>b. b OR 2) s3 else s3)
      in seal_and_send enc ok i hdr_len (length (tx_data s4) + shdr_len)
           (write_wb (hdr_len + shdr_len) (tx_data s4) s4))"

definition S2_encrypt_and_send_multi :: "(buffer \<Rightarrow> buffer \<Rightarrow> buffer) \<Rightarrow> bool \<Rightarrow> s2 \<Rightarrow> s2" where
  "S2_encrypt_and_send_multi enc ok s =
     (case mpan_ptr s of
        None \<Rightarrow> s\<lparr>fault := True\<rparr>
      | Some m \<Rightarrow>
          let mp = mpan_table s ! m;
              s1 = write_wb 7 (tx_data s) (write_wb 0 [0x9F, 3, 0xFF, 1, 3, 0x43, group_id mp] s);
              len = length (tx_data s1);
              aad = S2_make_aad (my_home_id s1) (l_node (peer s1)) (r_node (peer s1)) (workbuf s1) 7
                      (len + 7 + AUTH_TAG_LEN);
              ks = sg_at s1 (mp_class mp);
              nonce = enc (inner_state mp) (mpan_key ks);
              s2 = check_class (mp_class mp) (check_aad aad (upd_mpan m next_mpan_state s1));
              (msg_len, ct) = CCM_encrypt_and_auth enc (ccm_key ks) nonce aad (take len (drop 7 (workbuf s2)));
              s3 = write_wb 7 ct s2;
              frame = take (msg_len + 7) (workbuf s3);
              s4 = emit (Send_frame_multi (peer s3) frame ok) (s3\<lparr>workbuf := take WORKBUF_BYTES (workbuf s3)\<rparr>)
          in if ok then s4 else fsm_send_done S2_TRANSMIT_COMPLETE_FAIL 0 s4)"

section \<open>Decryption\<close>

datatype decrypt_return_code = AUTH_OK | PARSE_FAIL | AUTH_FAIL | SEQUENCE_FAIL

text \<open>
  One extension in the clear at position \<open>pos\<close>. \<open>sp\<close> is the SPAN entry, absent for a multicast message;
  \<open>nn\<close> are the two local nonce arrays of \<open>S2_decrypt_msg\<close>, which have no initial value. The first
  component is false for \<open>goto parse_fail\<close>.
\<close>

definition clear_ext ::
  "(buffer \<Rightarrow> buffer \<Rightarrow> buffer) \<Rightarrow> s2_connection \<Rightarrow> nat option \<Rightarrow> buffer \<Rightarrow> nat \<Rightarrow> nat \<Rightarrow>
     nat option \<times> (buffer \<times> buffer) \<times> s2 \<Rightarrow> bool \<times> nat option \<times> (buffer \<times> buffer) \<times> s2" where
  "clear_ext enc con sp msg pos ext_len = (\<lambda>(mp, nn, s).
     let t = byte_at msg (pos + 1)
     in if t AND 0x3F = 1
        then (case sp of
                None \<Rightarrow> (True, mp, nn, s)
              | Some i \<Rightarrow>
                  if sp_state (span_table s ! i) = SPAN_SOS_LOCAL_NONCE \<and> ext_len = 18
                  then
                    let s_nonce = map (byte_at msg) [pos + 2..<pos + 18];
                        r_nonce = get_r_nonce (sp_d (span_table s ! i));
                        c = sp_class (span_table s ! i);
                        rng = next_nonce_instantiate enc s_nonce r_nonce (nonce_pstring (sg_at s c))
                    in (True, mp, (s_nonce, r_nonce),
                        check_class c (upd_span i (\<lambda>sp. sp\<lparr>sp_state := SPAN_INSTANTIATE, sp_d := rng\<rparr>) s))
                  else (True, mp, nn, s))
        else if t AND 0x3F = 3
        then (if ext_len \<noteq> 3 then (False, mp, nn, s)
              else let (mp', s') = find_mpan_by_group_id enc (r_node con) (byte_at msg (pos + 2))
                                     (rx_options con AND 1 = 0) s
                   in (True, mp', nn, s'))
        else if t AND 0x3F = 4
        then (if ext_len \<noteq> 2 then (False, mp, nn, s) else (True, mp, nn, S2_set_node_mos (r_node con) s))
        else (t AND 0x40 = 0, mp, nn, s))"

text \<open>The loop over the extensions in the clear; the second component is the header length.\<close>

function parse_ext ::
  "(buffer \<Rightarrow> buffer \<Rightarrow> buffer) \<Rightarrow> s2_connection \<Rightarrow> nat option \<Rightarrow> buffer \<Rightarrow> nat \<Rightarrow> nat \<Rightarrow>
     nat option \<times> (buffer \<times> buffer) \<times> s2 \<Rightarrow> bool \<times> nat \<times> nat option \<times> (buffer \<times> buffer) \<times> s2" where
  "parse_ext enc con sp msg msg_len pos acc =
     (let ext_len = unat (byte_at msg pos); hdr_len = pos + ext_len
      in if msg_len < hdr_len + AUTH_TAG_LEN \<or> ext_len = 0 then (False, hdr_len, acc)
         else
           let (go, acc') = clear_ext enc con sp msg pos ext_len acc
           in if \<not> go then (False, hdr_len, acc')
              else if byte_at msg (pos + 1) AND 0x80 \<noteq> 0 then parse_ext enc con sp msg msg_len hdr_len acc'
              else (True, hdr_len, acc'))"
  by pat_completeness auto

termination
  by (relation "measure (\<lambda>(enc, con, sp, msg, msg_len, pos, acc). msg_len - pos)") auto

text \<open>
  The trial of the security classes for a singlecast message: \<open>n\<close> passes are left, \<open>len\<close> is the length
  of the ciphertext. The first component is the decrypted length, 0 for \<open>goto auth_fail\<close>.
\<close>

primrec try_classes ::
  "nat \<Rightarrow> (buffer \<Rightarrow> buffer \<Rightarrow> buffer) \<Rightarrow> nat \<Rightarrow> buffer \<Rightarrow> nat \<Rightarrow> buffer \<times> buffer \<Rightarrow> buffer \<Rightarrow> s2 \<Rightarrow>
     nat \<times> buffer \<times> s2" where
  "try_classes 0 enc i aad len nn ct s = (0, ct, s)"
| "try_classes (Suc n) enc i aad len nn ct s =
     (let c = sp_class (span_table s ! i);
          (decrypt_len, dat, s1) =
            (if key_loaded s c
             then let (nonce, rng) = next_nonce_generate enc (sp_d (span_table s ! i));
                      (r, dat) = CCM_decrypt_and_auth enc (ccm_key (sg_at s c)) nonce aad ct
                  in (r, dat, check_class c (upd_span i (\<lambda>sp. sp\<lparr>sp_d := rng\<rparr>) s))
             else (0, ct, s))
      in if decrypt_len \<noteq> 0
         then (decrypt_len, dat, upd_span i (\<lambda>sp. sp\<lparr>sp_state := SPAN_NEGOTIATED\<rparr>) s1)
         else if fsm s1 \<noteq> IDLE \<or> sp_state (span_table s1 ! i) = SPAN_NEGOTIATED then (0, dat, s1)
         else
           let c' = (if N_SEC_CLASS \<le> unat (c + 1) then 0 else c + 1);
               rng = next_nonce_instantiate enc (fst nn) (snd nn) (nonce_pstring (sg_at s1 c'))
           in try_classes n enc i aad len nn (take len (workbuf s1))
                (upd_span i (\<lambda>sp. sp\<lparr>sp_class := c', sp_d := rng\<rparr>) s1))"

text \<open>The event \<open>GOT_ENC_MSG_MOS\<close> in each state.\<close>

definition fsm_enc_msg_mos :: "s2_connection \<Rightarrow> s2 \<Rightarrow> s2" where
  "fsm_enc_msg_mos con s =
     (case fsm s of
        IDLE \<Rightarrow> (S2_set_peer con [] 0 (emit (Set_timeout 10) s))\<lparr>fsm := IS_MOS_WAIT_REPLY\<rparr>
      | IS_MOS_WAIT_REPLY \<Rightarrow> (S2_set_peer con [] 0 (emit (Set_timeout 10) s))\<lparr>fsm := IS_MOS_WAIT_REPLY\<rparr>
      | SENDING_MULTICAST \<Rightarrow> s\<lparr>fault := True\<rparr>
      | _ \<Rightarrow> s)"

text \<open>After a singlecast message was decrypted: class of the connection, and the multicast group if the
  message is a follow-up.\<close>

definition note_followup :: "s2_connection \<Rightarrow> nat option \<Rightarrow> s2 \<Rightarrow> s2_connection \<times> s2" where
  "note_followup con mp s =
     (case mp of
        None \<Rightarrow> (con, s)
      | Some m \<Rightarrow>
          let con' = con\<lparr>rx_options := rx_options con OR 2\<rparr>
          in (con', if mp_state (mpan_table s ! m) = MPAN_MOS
                    then fsm_enc_msg_mos con' (s\<lparr>mpan_ptr := Some m\<rparr>)
                    else upd_mpan m next_mpan_state s))"

text \<open>One encrypted extension at position \<open>pos\<close>; \<open>sp\<close> is absent for a multicast message.\<close>

definition enc_ext ::
  "(buffer \<Rightarrow> buffer \<Rightarrow> buffer) \<Rightarrow> nat option \<Rightarrow> buffer \<Rightarrow> nat \<Rightarrow> nat \<Rightarrow> s2_connection \<times> s2 \<Rightarrow>
     bool \<times> s2_connection \<times> s2" where
  "enc_ext enc sp dat pos ext_len = (\<lambda>(con, s).
     if byte_at dat (pos + 1) AND 0x3F = 2
     then (case sp of
             None \<Rightarrow> (False, con, s)
           | Some i \<Rightarrow>
               if ext_len \<noteq> 19 then (False, con, s)
               else case find_mpan_by_group_id enc (r_node con) (byte_at dat (pos + 2)) True s of
                      (None, s') \<Rightarrow> (False, con, s')
                    | (Some m, s') \<Rightarrow>
                        (True, con\<lparr>rx_options := rx_options con OR 2\<rparr>,
                         upd_mpan m (\<lambda>m. m\<lparr>inner_state := map (byte_at dat) [pos + 3..<pos + 19],
                           mp_state := MPAN_SET, mp_class := sp_class (span_table s' ! i)\<rparr>) s'))
     else (byte_at dat (pos + 1) AND 0x40 = 0, con, s))"

function parse_enc_ext ::
  "(buffer \<Rightarrow> buffer \<Rightarrow> buffer) \<Rightarrow> nat option \<Rightarrow> buffer \<Rightarrow> nat \<Rightarrow> nat \<Rightarrow> s2_connection \<times> s2 \<Rightarrow>
     bool \<times> nat \<times> s2_connection \<times> s2" where
  "parse_enc_ext enc sp dat decrypt_len pos acc =
     (let ext_len = unat (byte_at dat pos); hdr_len = pos + ext_len
      in if decrypt_len < hdr_len \<or> ext_len = 0 then (False, hdr_len, acc)
         else
           let (go, acc') = enc_ext enc sp dat pos ext_len acc
           in if \<not> go then (False, hdr_len, acc')
              else if byte_at dat (pos + 1) AND 0x80 \<noteq> 0 then parse_enc_ext enc sp dat decrypt_len hdr_len acc'
              else (True, hdr_len, acc'))"
  by pat_completeness auto

termination
  by (relation "measure (\<lambda>(enc, sp, dat, decrypt_len, pos, acc). decrypt_len + 1 - pos)") auto

declare parse_ext.simps [simp del] parse_enc_ext.simps [simp del]

definition auth_fail ::
  "(buffer \<Rightarrow> buffer \<Rightarrow> buffer) \<Rightarrow> s2_connection \<Rightarrow> nat option \<Rightarrow> nat option \<Rightarrow> s2 \<Rightarrow>
     decrypt_return_code \<times> s2_connection \<times> buffer \<times> nat \<times> s2" where
  "auth_fail enc con sp mp s =
     (let s1 = (case mp of None \<Rightarrow> s | Some m \<Rightarrow> upd_mpan m (\<lambda>m. m\<lparr>mp_state := MPAN_MOS\<rparr>) s);
          s2 = (case sp of None \<Rightarrow> s1 | Some i \<Rightarrow> upd_span i (\<lambda>sp. sp\<lparr>sp_state := SPAN_SOS\<rparr>) s1);
          s3 = (if rx_options con AND 1 = 0
                then S2_send_nonce_report enc con (if mp \<noteq> None then 3 else 1) s2 else s2)
      in (AUTH_FAIL, con, [], 0, s3))"

text \<open>From the decrypted text \<open>dat\<close> on.\<close>

definition finish_decrypt ::
  "(buffer \<Rightarrow> buffer \<Rightarrow> buffer) \<Rightarrow> s2_connection \<Rightarrow> nat option \<Rightarrow> byte \<Rightarrow> nat \<Rightarrow> buffer \<Rightarrow> s2 \<Rightarrow>
     decrypt_return_code \<times> s2_connection \<times> buffer \<times> nat \<times> s2" where
  "finish_decrypt enc con sp flags decrypt_len dat s =
     (case (if flags AND 2 \<noteq> 0 then parse_enc_ext enc sp dat decrypt_len 0 (con, s) else (True, 0, con, s)) of
        (False, _, con', s') \<Rightarrow> (PARSE_FAIL, con', [], 0, s')
      | (True, hdr_len, con', s') \<Rightarrow> (AUTH_OK, con', drop hdr_len dat, decrypt_len - hdr_len, s'))"

text \<open>The copy of the ciphertext in the work buffer, for the trial of several classes.\<close>

definition save_ciphertext :: "nat \<Rightarrow> buffer \<Rightarrow> s2 \<Rightarrow> s2" where
  "save_ciphertext i ct s =
     (if fsm s = IDLE \<and> sp_state (span_table s ! i) = SPAN_INSTANTIATE
      then let s1 = write_wb 0 ct s in s1\<lparr>workbuf := take WORKBUF_BYTES (workbuf s1)\<rparr>
      else s)"

definition decrypt_single ::
  "(buffer \<Rightarrow> buffer \<Rightarrow> buffer) \<Rightarrow> s2_connection \<Rightarrow> nat \<Rightarrow> nat option \<Rightarrow> buffer \<times> buffer \<Rightarrow> byte \<Rightarrow> buffer \<Rightarrow>
     nat \<Rightarrow> nat \<Rightarrow> s2 \<Rightarrow> decrypt_return_code \<times> s2_connection \<times> buffer \<times> nat \<times> s2" where
  "decrypt_single enc con i mp nn flags msg msg_len hdr_len s =
     (if sp_state (span_table s ! i) \<noteq> SPAN_NEGOTIATED \<and> sp_state (span_table s ! i) \<noteq> SPAN_INSTANTIATE
      then auth_fail enc con (Some i) mp s
      else
        let ct = take (msg_len - hdr_len) (drop hdr_len msg);
            aad = S2_make_aad (my_home_id s) (r_node con) (l_node con) msg hdr_len msg_len;
            (decrypt_len, dat, s3) = try_classes N_SEC_CLASS enc i aad (msg_len - hdr_len) nn ct
                                       (save_ciphertext i ct (check_aad aad s))
        in if decrypt_len = 0 then auth_fail enc con (Some i) mp s3
           else
             let (con', s4) = note_followup (con\<lparr>con_class := sp_class (span_table s3 ! i)\<rparr>) mp s3
             in if aad = [] then auth_fail enc con' (Some i) mp s4
                else finish_decrypt enc con' (Some i) flags decrypt_len dat s4)"

definition decrypt_multi ::
  "(buffer \<Rightarrow> buffer \<Rightarrow> buffer) \<Rightarrow> s2_connection \<Rightarrow> nat option \<Rightarrow> byte \<Rightarrow> buffer \<Rightarrow> nat \<Rightarrow> nat \<Rightarrow> s2 \<Rightarrow>
     decrypt_return_code \<times> s2_connection \<times> buffer \<times> nat \<times> s2" where
  "decrypt_multi enc con mp flags msg msg_len hdr_len s =
     (case mp of
        None \<Rightarrow> auth_fail enc con None mp s
      | Some m \<Rightarrow>
          if mp_state (mpan_table s ! m) \<noteq> MPAN_SET then auth_fail enc con None mp s
          else
            let e = mpan_table s ! m;
                con1 = con\<lparr>l_node := ucast (group_id e)\<rparr>;
                ct = take (msg_len - hdr_len) (drop hdr_len msg);
                aad = S2_make_aad (my_home_id s) (r_node con1) (l_node con1) msg hdr_len msg_len;
                ks = sg_at s (mp_class e);
                nonce = enc (inner_state e) (mpan_key ks);
                s1 = check_class (mp_class e) (check_aad aad (upd_mpan m next_mpan_state s));
                (decrypt_len, dat) = CCM_decrypt_and_auth enc (ccm_key ks) nonce aad ct;
                con2 = con1\<lparr>con_class := mp_class e\<rparr>
            in if decrypt_len = 0 \<or> aad = [] then auth_fail enc con2 None mp s1
               else finish_decrypt enc con2 None flags decrypt_len dat s1)"

text \<open>The check of the sequence number and the SPAN entry of a singlecast message.\<close>

definition rx_entry ::
  "(buffer \<Rightarrow> buffer \<Rightarrow> buffer) \<Rightarrow> s2_connection \<Rightarrow> buffer \<Rightarrow> s2 \<Rightarrow> bool \<times> nat option \<times> s2" where
  "rx_entry enc con msg s =
     (if rx_options con AND 1 \<noteq> 0 then (True, None, s)
      else case S2_verify_seq enc con (byte_at msg 2) s of
             (False, s1) \<Rightarrow> (False, None, s1)
           | (True, s1) \<Rightarrow> let (i, s2) = find_span_by_node enc con s1 in (True, Some i, s2))"

definition parse_clear ::
  "(buffer \<Rightarrow> buffer \<Rightarrow> buffer) \<Rightarrow> buffer \<times> buffer \<Rightarrow> s2_connection \<Rightarrow> nat option \<Rightarrow> buffer \<Rightarrow> nat \<Rightarrow> s2 \<Rightarrow>
     bool \<times> nat \<times> nat option \<times> (buffer \<times> buffer) \<times> s2" where
  "parse_clear enc nn0 con sp msg msg_len s =
     (if byte_at msg 3 AND 1 \<noteq> 0 then parse_ext enc con sp msg msg_len 4 (None, nn0, s)
      else (True, 4, None, nn0, s))"

definition S2_decrypt_msg ::
  "(buffer \<Rightarrow> buffer \<Rightarrow> buffer) \<Rightarrow> buffer \<times> buffer \<Rightarrow> s2_connection \<Rightarrow> buffer \<Rightarrow> nat \<Rightarrow> s2 \<Rightarrow>
     decrypt_return_code \<times> s2_connection \<times> buffer \<times> nat \<times> s2" where
  "S2_decrypt_msg enc nn0 con msg msg_len s =
     (let flags = byte_at msg 3
      in if msg_len < 4 + AUTH_TAG_LEN then (PARSE_FAIL, con, [], 0, s)
         else case rx_entry enc con msg s of
             (False, _, s1) \<Rightarrow> (SEQUENCE_FAIL, con, [], 0, s1)
           | (True, sp, s1) \<Rightarrow>
               (case parse_clear enc nn0 con sp msg msg_len s1 of
                  (False, _, _, _, s2) \<Rightarrow> (PARSE_FAIL, con, [], 0, s2)
                | (True, hdr_len, mp, nn, s2) \<Rightarrow>
                    (case sp of
                       None \<Rightarrow> decrypt_multi enc con mp flags msg msg_len hdr_len s2
                     | Some i \<Rightarrow> decrypt_single enc con i mp nn flags msg msg_len hdr_len s2)))"

section \<open>Invariants of the extension loops\<close>

lemma parse_ext_invar:
  assumes "\<And>pos l acc go acc'. clear_ext enc con sp msg pos l acc = (go, acc') \<Longrightarrow> I acc \<Longrightarrow> I acc'" and "I acc"
  shows "I (snd (snd (parse_ext enc con sp msg msg_len pos acc)))"
  using assms
proof (induction enc con sp msg msg_len pos acc rule: parse_ext.induct)
  case (1 enc con sp msg msg_len pos acc)
  let ?l = "unat (byte_at msg pos)"
  obtain go acc' where c: "clear_ext enc con sp msg pos ?l acc = (go, acc')"
    by (cases "clear_ext enc con sp msg pos ?l acc")
  have "I acc'" using 1(2) [OF c] 1(3) .
  then have "I (snd (snd (parse_ext enc con sp msg msg_len (pos + ?l) acc')))"
    if "\<not> (msg_len < pos + ?l + AUTH_TAG_LEN \<or> ?l = 0)" "go" "byte_at msg (pos + 1) AND 0x80 \<noteq> 0"
    using 1(1) [OF refl refl that(1) refl c [symmetric] _ that(3) 1(2)] that(2) by simp
  then show ?case by (subst parse_ext.simps) (use \<open>I acc'\<close> 1(3) c in \<open>simp add: Let_def\<close>)
qed

lemma parse_enc_ext_invar:
  assumes "\<And>pos l acc go acc'. enc_ext enc sp dat pos l acc = (go, acc') \<Longrightarrow> I acc \<Longrightarrow> I acc'" and "I acc"
  shows "I (snd (snd (parse_enc_ext enc sp dat decrypt_len pos acc)))"
  using assms
proof (induction enc sp dat decrypt_len pos acc rule: parse_enc_ext.induct)
  case (1 enc sp dat decrypt_len pos acc)
  let ?l = "unat (byte_at dat pos)"
  obtain go acc' where c: "enc_ext enc sp dat pos ?l acc = (go, acc')"
    by (cases "enc_ext enc sp dat pos ?l acc")
  have "I acc'" using 1(2) [OF c] 1(3) .
  then have "I (snd (snd (parse_enc_ext enc sp dat decrypt_len (pos + ?l) acc')))"
    if "\<not> (decrypt_len < pos + ?l \<or> ?l = 0)" "go" "byte_at dat (pos + 1) AND 0x80 \<noteq> 0"
    using 1(1) [OF refl refl that(1) refl c [symmetric] _ that(3) 1(2)] that(2) by simp
  then show ?case by (subst parse_enc_ext.simps) (use \<open>I acc'\<close> 1(3) c in \<open>simp add: Let_def\<close>)
qed

end
