(* ===== verification/S2_FSM.thy ===== *)
theory S2_FSM
  imports S2_Message
begin

text \<open>
  The state machine of \<open>libs2/protocol/S2.c\<close> (\<open>S2_fsm_post_event\<close>), the functions the application calls
  and the handler for received frames. An event carries the data the C code passes in \<open>event_data_t\<close>.
  The switch over the state is one definition per state.

  Calls into the inclusion state machine and into the application are entries of the log; when such a
  callback calls back into the library, that call is a later step of the model. The log also holds the
  acceptance of a transmission (\<open>Send_accepted\<close>, the return value 1 of \<open>S2_send_data\<close> and its variants)
  and the expiry of the timer (\<open>Timer_fired\<close>), so that the promises of the library are statements about
  the log.
\<close>

section \<open>State machine\<close>

datatype s2_event =
    SEND_MSG s2_connection buffer
  | SEND_MULTICAST s2_connection buffer
  | SEND_DONE byte u16
  | GOT_NONCE_GET s2_connection buffer nat
  | GOT_NONCE_RAPORT s2_connection buffer nat
  | GOT_ENC_MSG s2_connection
  | GOT_BAD_ENC_MSG s2_connection
  | GOT_ENC_MSG_MOS s2_connection
  | TIMEOUT
  | ABORT
  | SEND_FOLLOW_UP

abbreviation (input) SEND_DATA_TIMEOUT :: nat where "SEND_DATA_TIMEOUT \<equiv> 65000"

definition emit_S2_synchronization_event :: "s2_connection \<Rightarrow> buffer \<Rightarrow> s2 \<Rightarrow> s2" where
  "emit_S2_synchronization_event con buf s =
     emit (Resynchronization_event (r_node con) (byte_at buf 2) (l_node con)) s"

text \<open>The label \<open>send_msg_state_enter\<close>.\<close>

definition send_msg_state_enter :: "(buffer \<Rightarrow> buffer \<Rightarrow> buffer) \<Rightarrow> bool \<Rightarrow> s2 \<Rightarrow> s2" where
  "send_msg_state_enter enc ok s =
     (let s1 = (if tx_options (peer s) AND 1 \<noteq> 0
                then emit (Set_timeout SEND_DATA_TIMEOUT) (s\<lparr>fsm := VERIFYING_DELIVERY\<rparr>)
                else s\<lparr>fsm := SENDING_MSG\<rparr>);
          s2 = S2_encrypt_and_send enc ok s1
      in s2\<lparr>retry := retry s2 - 1\<rparr>)"

text \<open>The states \<open>IDLE\<close> and \<open>IS_MOS_WAIT_REPLY\<close>.\<close>

definition fsm_idle :: "(buffer \<Rightarrow> buffer \<Rightarrow> buffer) \<Rightarrow> bool \<Rightarrow> s2_event \<Rightarrow> s2 \<Rightarrow> s2" where
  "fsm_idle enc ok e s =
     (case e of
        SEND_MSG con buf \<Rightarrow>
          (case S2_span_ok enc con s of
             (True, s1) \<Rightarrow> send_msg_state_enter enc ok ((S2_set_peer con buf (length buf) s1)\<lparr>retry := 2\<rparr>)
           | (False, s1) \<Rightarrow>
               emit (Set_timeout SEND_DATA_TIMEOUT)
                 (S2_send_nonce_get enc ok
                    (S2_set_peer con buf (length buf) (s1\<lparr>fsm := WAIT_NONCE_RAPORT, retry := 2\<rparr>))))
      | GOT_NONCE_GET con buf len \<Rightarrow>
          if 3 \<le> len
          then (case S2_verify_seq enc con (byte_at buf 2) s of
                  (True, s1) \<Rightarrow> S2_send_nonce_report enc con 1 s1
                | (False, s1) \<Rightarrow> s1)
          else s
      | GOT_NONCE_RAPORT con buf len \<Rightarrow>
          emit_S2_synchronization_event con buf
            (snd (S2_register_nonce enc buf len (S2_set_peer con buf len s)))
      | SEND_MULTICAST con buf \<Rightarrow>
          let (m, s1) = find_mpan_by_group_id enc 0 (ucast (r_node con)) True (S2_set_peer con buf (length buf) s)
          in S2_encrypt_and_send_multi enc ok (s1\<lparr>mpan_ptr := m, fsm := SENDING_MSG\<rparr>)
      | SEND_DONE status time \<Rightarrow> fsm_send_done status time s
      | GOT_ENC_MSG_MOS con \<Rightarrow> fsm_enc_msg_mos con s
      | TIMEOUT \<Rightarrow>
          if fsm s = IS_MOS_WAIT_REPLY
          then let s1 = s\<lparr>mpan_ptr := None, fsm := IDLE\<rparr> in S2_send_nonce_report enc (peer s1) 2 s1
          else s
      | _ \<Rightarrow> s)"

definition fsm_wait_nonce :: "(buffer \<Rightarrow> buffer \<Rightarrow> buffer) \<Rightarrow> bool \<Rightarrow> s2_event \<Rightarrow> s2 \<Rightarrow> s2" where
  "fsm_wait_nonce enc ok e s =
     (case e of
        SEND_DONE status time \<Rightarrow> fsm_send_done status time s
      | TIMEOUT \<Rightarrow> S2_post_send_done_event S2_TRANSMIT_COMPLETE_FAIL (s\<lparr>fsm := IDLE\<rparr>)
      | GOT_NONCE_RAPORT con buf len \<Rightarrow>
          if S2_is_peernode con s
          then let (flags, s1) = S2_register_nonce enc buf len s
               in if flags AND 1 \<noteq> 0 then send_msg_state_enter enc ok s1 else s1
          else emit_S2_synchronization_event con buf s
      | _ \<Rightarrow> s)"

definition fsm_sending :: "s2_event \<Rightarrow> s2 \<Rightarrow> s2" where
  "fsm_sending e s =
     (case e of
        SEND_DONE status time \<Rightarrow> fsm_send_done status time s
      | GOT_NONCE_RAPORT con buf len \<Rightarrow>
          if S2_is_peernode con s then s else emit_S2_synchronization_event con buf s
      | _ \<Rightarrow> s)"

definition fsm_verifying :: "(buffer \<Rightarrow> buffer \<Rightarrow> buffer) \<Rightarrow> bool \<Rightarrow> s2_event \<Rightarrow> s2 \<Rightarrow> s2" where
  "fsm_verifying enc ok e s =
     (case e of
        SEND_DONE status time \<Rightarrow> fsm_send_done status time s
      | GOT_ENC_MSG con \<Rightarrow>
          if \<not> S2_is_peernode con s then s
          else if S2_is_node_mos (r_node con) s \<and> 0 < retry s
          then send_msg_state_enter enc ok
                 (s\<lparr>tx_data := [], peer := (peer s)\<lparr>tx_options := tx_options (peer s) AND 0xFE\<rparr>\<rparr>)
          else S2_post_send_done_event S2_TRANSMIT_COMPLETE_VERIFIED (emit Stop_timeout (s\<lparr>fsm := IDLE\<rparr>))
      | TIMEOUT \<Rightarrow> S2_post_send_done_event S2_TRANSMIT_COMPLETE_OK (s\<lparr>fsm := IDLE\<rparr>)
      | GOT_NONCE_RAPORT con buf len \<Rightarrow>
          if S2_is_peernode con s
          then let (flags, s1) = S2_register_nonce enc buf len s
               in if flags = 0 then s1
                  else let s2 = (if flags = 2 then s1\<lparr>tx_data := []\<rparr> else s1)
                       in if retry s2 = 0
                          then S2_post_send_done_event S2_TRANSMIT_COMPLETE_FAIL (s2\<lparr>fsm := IDLE\<rparr>)
                          else send_msg_state_enter enc ok s2
          else emit_S2_synchronization_event con buf s
      | _ \<Rightarrow> s)"

definition S2_fsm_post_event :: "(buffer \<Rightarrow> buffer \<Rightarrow> buffer) \<Rightarrow> bool \<Rightarrow> s2_event \<Rightarrow> s2 \<Rightarrow> s2" where
  "S2_fsm_post_event enc ok e s =
     (case fsm s of
        IDLE \<Rightarrow> fsm_idle enc ok e s
      | IS_MOS_WAIT_REPLY \<Rightarrow> fsm_idle enc ok e s
      | WAIT_NONCE_RAPORT \<Rightarrow> fsm_wait_nonce enc ok e s
      | SENDING_MSG \<Rightarrow> fsm_sending e s
      | VERIFYING_DELIVERY \<Rightarrow> fsm_verifying enc ok e s
      | SENDING_MULTICAST \<Rightarrow> s\<lparr>fault := True\<rparr>)"

section \<open>Functions of the library\<close>

definition S2_is_send_data_busy :: "s2 \<Rightarrow> bool" where
  "S2_is_send_data_busy s = (fsm s \<noteq> IDLE \<and> fsm s \<noteq> IS_MOS_WAIT_REPLY)"

definition S2_is_busy :: "s2 \<Rightarrow> bool" where
  "S2_is_busy s = (\<not> inclusion_idle s \<or> (fsm s \<noteq> IDLE \<and> fsm s \<noteq> IS_MOS_WAIT_REPLY))"

definition S2_is_send_data_multicast_busy :: "s2 \<Rightarrow> bool" where
  "S2_is_send_data_multicast_busy s = (fsm s \<noteq> IDLE)"

text \<open>The three events that the callers of \<open>S2_send_data_all_cast\<close> pass as \<open>ev\<close>.\<close>

datatype s2_cast = CAST_MULTICAST | CAST_MSG | CAST_FOLLOW_UP

definition S2_send_data_all_cast ::
  "(buffer \<Rightarrow> buffer \<Rightarrow> buffer) \<Rightarrow> bool \<Rightarrow> s2_connection \<Rightarrow> buffer \<Rightarrow> s2_cast \<Rightarrow> s2 \<Rightarrow> bool \<times> s2" where
  "S2_send_data_all_cast enc ok con buf ev s =
     (if length buf = 0 \<or> 1280 < length buf \<or> S2_is_send_data_busy s then (False, s)
      else
        let s1 = emit (Send_accepted con) s
        in (True,
            case ev of
              CAST_MULTICAST \<Rightarrow> S2_fsm_post_event enc ok (SEND_MULTICAST con buf) s1
            | CAST_MSG \<Rightarrow> S2_fsm_post_event enc ok (SEND_MSG con buf) s1
            | CAST_FOLLOW_UP \<Rightarrow>
                S2_fsm_post_event enc ok (SEND_MSG con buf)
                  (case lookup_mpan 0 (mgrp_group_id con) s1 of
                     None \<Rightarrow> s1 | Some m \<Rightarrow> s1\<lparr>mpan_ptr := Some m\<rparr>)))"

definition S2_send_data ::
  "(buffer \<Rightarrow> buffer \<Rightarrow> buffer) \<Rightarrow> bool \<Rightarrow> s2_connection \<Rightarrow> buffer \<Rightarrow> s2 \<Rightarrow> bool \<times> s2" where
  "S2_send_data enc ok dst buf s =
     S2_send_data_all_cast enc ok
       (if IS_LR_NODE (r_node dst) then convert_normal_to_lr_keyclass dst else dst) buf CAST_MSG s"

definition S2_send_data_multicast ::
  "(buffer \<Rightarrow> buffer \<Rightarrow> buffer) \<Rightarrow> bool \<Rightarrow> s2_connection \<Rightarrow> buffer \<Rightarrow> s2 \<Rightarrow> bool \<times> s2" where
  "S2_send_data_multicast enc ok con buf s = S2_send_data_all_cast enc ok con buf CAST_MULTICAST s"

datatype zwave_s2_keyset = ZWAVE_KEYSET | ZWAVE_LONG_RANGE_KEYSET | UNKNOWN_KEYSET

definition with_keyset ::
  "(buffer \<Rightarrow> buffer \<Rightarrow> buffer) \<Rightarrow> bool \<Rightarrow> s2_connection \<Rightarrow> zwave_s2_keyset \<Rightarrow> buffer \<Rightarrow> s2_cast \<Rightarrow> s2 \<Rightarrow> bool \<times> s2"
where
  "with_keyset enc ok con keyset payload ev s =
     (case keyset of
        ZWAVE_KEYSET \<Rightarrow> S2_send_data_all_cast enc ok con payload ev s
      | ZWAVE_LONG_RANGE_KEYSET \<Rightarrow>
          S2_send_data_all_cast enc ok (convert_normal_to_lr_keyclass con) payload ev s
      | UNKNOWN_KEYSET \<Rightarrow> (False, s))"

definition S2_send_data_singlecast_follow_up_with_keyset ::
  "(buffer \<Rightarrow> buffer \<Rightarrow> buffer) \<Rightarrow> bool \<Rightarrow> s2_connection \<Rightarrow> zwave_s2_keyset \<Rightarrow> buffer \<Rightarrow> s2 \<Rightarrow> bool \<times> s2" where
  "S2_send_data_singlecast_follow_up_with_keyset enc ok con keyset payload s =
     with_keyset enc ok con keyset payload CAST_FOLLOW_UP s"

definition S2_send_data_multicast_with_keyset ::
  "(buffer \<Rightarrow> buffer \<Rightarrow> buffer) \<Rightarrow> bool \<Rightarrow> s2_connection \<Rightarrow> zwave_s2_keyset \<Rightarrow> buffer \<Rightarrow> s2 \<Rightarrow> bool \<times> s2" where
  "S2_send_data_multicast_with_keyset enc ok con keyset payload s =
     with_keyset enc ok con keyset payload CAST_MULTICAST s"

definition S2_send_data_singlecast_with_keyset ::
  "(buffer \<Rightarrow> buffer \<Rightarrow> buffer) \<Rightarrow> bool \<Rightarrow> s2_connection \<Rightarrow> zwave_s2_keyset \<Rightarrow> buffer \<Rightarrow> s2 \<Rightarrow> bool \<times> s2" where
  "S2_send_data_singlecast_with_keyset enc ok con keyset payload s =
     with_keyset enc ok con keyset payload CAST_MSG s"

definition S2_send_frame_done_notify :: "(buffer \<Rightarrow> buffer \<Rightarrow> buffer) \<Rightarrow> byte \<Rightarrow> u16 \<Rightarrow> s2 \<Rightarrow> s2" where
  "S2_send_frame_done_notify enc status tx_time s = S2_fsm_post_event enc True (SEND_DONE status tx_time) s"

definition S2_timeout_notify :: "(buffer \<Rightarrow> buffer \<Rightarrow> buffer) \<Rightarrow> bool \<Rightarrow> s2 \<Rightarrow> s2" where
  "S2_timeout_notify enc ok s = S2_fsm_post_event enc ok TIMEOUT (emit Timer_fired s)"

section \<open>Received frames\<close>

text \<open>
  A decrypted message. \<open>plain\<close> is the memory from its first byte on, \<open>len\<close> its length; \<open>cmds\<close> is
  \<open>S2_get_commands_supported\<close>, which the application provides.
\<close>

definition deliver ::
  "(buffer \<Rightarrow> buffer \<Rightarrow> buffer) \<Rightarrow> bool \<Rightarrow> (nodeid \<Rightarrow> byte \<Rightarrow> buffer) \<Rightarrow> s2_connection \<Rightarrow> buffer \<Rightarrow> nat \<Rightarrow> s2 \<Rightarrow> s2" where
  "deliver enc ok cmds src plain len s =
     (if len = 0 then s
      else if byte_at plain 0 = 0x9F \<and> byte_at plain 1 \<noteq> 0x0E
      then (if rx_options src AND 1 \<noteq> 0 then s
            else if byte_at plain 1 = 0x0D
            then let classes = cmds (l_node src) (con_class src)
                 in if 40 < length classes + 2 then s
                    else snd (S2_send_data enc ok src ([0x9F, 0x0E] @ classes) s)
            else emit (Inclusion_post_event src (take len plain)) (s\<lparr>tx_data := take len plain\<rparr>))
      else emit (Msg_received (if IS_LR_NODE (r_node src) then convert_lr_to_normal_keyclass src else src)
             (take len plain)) s)"

text \<open>
  \<open>ok1\<close> and \<open>ok2\<close> answer the call of \<open>S2_send_frame\<close> by the state machine and by the reply to a request
  for the supported commands; \<open>nn0\<close> is the initial content of the nonce arrays of \<open>S2_decrypt_msg\<close>.
\<close>

definition S2_application_command_handler ::
  "(buffer \<Rightarrow> buffer \<Rightarrow> buffer) \<Rightarrow> bool \<Rightarrow> bool \<Rightarrow> buffer \<times> buffer \<Rightarrow> (nodeid \<Rightarrow> byte \<Rightarrow> buffer) \<Rightarrow>
     s2_connection \<Rightarrow> buffer \<Rightarrow> nat \<Rightarrow> s2 \<Rightarrow> s2" where
  "S2_application_command_handler enc ok1 ok2 nn0 cmds src buf len s =
     (if byte_at buf 0 \<noteq> 0x9F then s
      else if byte_at buf 1 = 1
      then (if rx_options src AND 1 = 0 \<and> 3 \<le> len
            then (case S2_verify_seq enc src (byte_at buf 2) s of
                    (True, s1) \<Rightarrow> S2_send_nonce_report enc src 1 s1
                  | (False, s1) \<Rightarrow> s1)
            else s)
      else if byte_at buf 1 = 2 then S2_fsm_post_event enc ok1 (GOT_NONCE_RAPORT src buf len) s
      else if byte_at buf 1 = 3
      then (case S2_decrypt_msg enc nn0 src buf len s of
              (AUTH_OK, src', plain, plain_len, s1) \<Rightarrow>
                deliver enc ok2 cmds src' plain plain_len (S2_fsm_post_event enc ok1 (GOT_ENC_MSG src') s1)
            | (AUTH_FAIL, src', plain, plain_len, s1) \<Rightarrow>
                emit (Inclusion_decryption_failure src') (S2_fsm_post_event enc ok1 (GOT_BAD_ENC_MSG src') s1)
            | (_, src', plain, plain_len, s1) \<Rightarrow> s1)
      else if fsm s \<noteq> IDLE \<and> byte_at buf 1 \<noteq> 7 then s
      else if rx_options src AND 1 = 0
      then emit (Inclusion_post_event (src\<lparr>con_class := 0xFF\<rparr>) (take len buf)) (s\<lparr>tx_data := take len buf\<rparr>)
      else s)"

section \<open>Runs\<close>

text \<open>What the environment can do to a context.\<close>

datatype s2_input =
    In_send s2_cast s2_connection buffer bool
  | In_send_lr s2_connection buffer bool
  | In_send_done byte u16
  | In_timeout bool
  | In_frame s2_connection buffer nat "buffer \<times> buffer" bool bool
  | In_key byte buffer bool
  | In_free_mpan nodeid byte
  | In_inclusion bool

definition s2_step ::
  "(buffer \<Rightarrow> buffer \<Rightarrow> buffer) \<Rightarrow> (nodeid \<Rightarrow> byte \<Rightarrow> buffer) \<Rightarrow> s2_input \<Rightarrow> s2 \<Rightarrow> s2" where
  "s2_step enc cmds inp s =
     (case inp of
        In_send ev con buf ok \<Rightarrow> snd (S2_send_data_all_cast enc ok con buf ev s)
      | In_send_lr con buf ok \<Rightarrow> snd (S2_send_data enc ok con buf s)
      | In_send_done status time \<Rightarrow> S2_send_frame_done_notify enc status time s
      | In_timeout ok \<Rightarrow> S2_timeout_notify enc ok s
      | In_frame con buf len nn0 ok1 ok2 \<Rightarrow> S2_application_command_handler enc ok1 ok2 nn0 cmds con buf len s
      | In_key c key temp \<Rightarrow> snd (S2_network_key_update enc c key temp s)
      | In_free_mpan owner gid \<Rightarrow> S2_free_mpan owner gid s
      | In_inclusion b \<Rightarrow> s\<lparr>inclusion_idle := b\<rparr>)"

text \<open>
  The array types of the C code: keys and nonces have 16 bytes, a key store returns 16 bytes, the
  generator has a 16-byte key and counter.
\<close>

definition drbg_ok :: "ctr_drbg \<Rightarrow> bool" where
  "drbg_ok d = (length (drbg_k d) = 16 \<and> length (drbg_v d) = 16)"

fun input_ok :: "s2_input \<Rightarrow> bool" where
  "input_ok (In_frame con buf len nn0 ok1 ok2) = (length (fst nn0) = 16 \<and> length (snd nn0) = 16)"
| "input_ok (In_key c key temp) = (length key = 16)"
| "input_ok _ = True"

inductive s2_reachable ::
  "(buffer \<Rightarrow> buffer \<Rightarrow> buffer) \<Rightarrow> (nodeid \<Rightarrow> byte \<Rightarrow> buffer) \<Rightarrow> s2 \<Rightarrow> bool"
  for enc :: "buffer \<Rightarrow> buffer \<Rightarrow> buffer" and cmds :: "nodeid \<Rightarrow> byte \<Rightarrow> buffer" where
  init: "\<lbrakk>drbg_ok g; \<And>k key. keystore k = Some key \<Longrightarrow> length key = 16\<rbrakk> \<Longrightarrow>
           s2_reachable enc cmds (S2_init_ctx enc keystore home g)"
| step: "\<lbrakk>s2_reachable enc cmds s; input_ok inp\<rbrakk> \<Longrightarrow> s2_reachable enc cmds (s2_step enc cmds inp s)"

end
