(* ===== verification/S2_Delivery.thy ===== *)
theory S2_Delivery
  imports S2_FSM
begin

text \<open>
  What the Security 2 transport promises to its user about transmissions: each one that is accepted is
  reported exactly once, costs a bounded number of frames, and every state in which the library waits has
  something that ends the wait.

  The proofs look at a context through its control state \<open>core\<close>: state, retry counter and the events of
  the log that matter for these promises. All operations on tables and buffers leave it alone, so the
  handlers become steps of a small abstract machine.
\<close>

section \<open>Control state\<close>

datatype s2_obs = ACC | DONE | TX | ARM | DISARM

fun obs :: "s2_out \<Rightarrow> s2_obs option" where
  "obs (Send_frame _ _ _) = Some TX"
| "obs (Send_frame_multi _ _ _) = Some TX"
| "obs (Set_timeout _) = Some ARM"
| "obs Stop_timeout = Some DISARM"
| "obs Timer_fired = Some DISARM"
| "obs (Send_accepted _) = Some ACC"
| "obs (Send_done_event _) = Some DONE"
| "obs _ = None"

definition trace :: "s2 \<Rightarrow> s2_obs list" where
  "trace s = List.map_filter obs (outs s)"

type_synonym s2_core = "states \<times> byte \<times> s2_obs list"

definition core :: "s2 \<Rightarrow> s2_core" where
  "core s = (fsm s, retry s, trace s)"

named_theorems core_simps \<open>operations that leave the control state alone, or change it as stated\<close>

lemma core_sel [core_simps]: "fsm s = fst (core s)" "retry s = fst (snd (core s))"
  by (simp_all add: core_def)

lemma core_emit [core_simps]:
  "core (emit e s) = (case obs e of None \<Rightarrow> core s | Some x \<Rightarrow> (fst (core s), fst (snd (core s)), x # snd (snd (core s))))"
  by (simp add: core_def emit_def trace_def List.map_filter_def split: option.split)

lemma core_update [core_simps]:
  "core (s\<lparr>prng := g\<rparr>) = core s" "core (s\<lparr>mos_list := ml\<rparr>) = core s" "core (s\<lparr>mpan_ptr := m\<rparr>) = core s"
  "core (s\<lparr>workbuf := wb\<rparr>) = core s" "core (s\<lparr>fault := b\<rparr>) = core s" "core (s\<lparr>tx_data := d\<rparr>) = core s"
  "core (s\<lparr>peer := p\<rparr>) = core s" "core (s\<lparr>inclusion_idle := b\<rparr>) = core s"
  "core (s\<lparr>fsm := f\<rparr>) = (f, snd (core s))" "core (s\<lparr>retry := r\<rparr>) = (fst (core s), r, snd (snd (core s)))"
  "core (s\<lparr>sg := k\<rparr>) = core s"
  "core (s\<lparr>loaded_keys := l\<rparr>) = core s"
  by (simp_all add: core_def trace_def)

lemma core_helpers [core_simps]:
  "core (upd_span i f s) = core s" "core (upd_mpan i g s) = core s" "core (check_class c s) = core s"
  "core (check_aad a s) = core s" "core (write_wb off xs s) = core s" "core (modify_wb off h s) = core s"
  "core (S2_set_peer con buf len s) = core s"
  by (simp_all add: upd_span_def upd_mpan_def check_class_def check_aad_def write_wb_def modify_wb_def
      S2_set_peer_def core_def trace_def)

lemma core_find_span [core_simps]: "core (snd (find_span_by_node enc con s)) = core s"
  by (simp add: find_span_by_node_def Let_def core_simps split: option.split prod.split)

lemma core_find_mpan [core_simps]: "core (snd (find_mpan_by_group_id enc ow gid cr s)) = core s"
  by (simp add: find_mpan_by_group_id_def Let_def core_simps split: option.split prod.split)

lemma core_span_ok [core_simps]: "core (snd (S2_span_ok enc con s)) = core s"
  by (simp add: S2_span_ok_def Let_def case_prod_beta core_simps)

lemma core_verify_seq [core_simps]: "core (snd (S2_verify_seq enc con q s)) = core s"
  by (simp add: S2_verify_seq_def Let_def case_prod_beta core_simps)

lemma core_set_node_mos [core_simps]: "core (S2_set_node_mos n s) = core s"
  by (simp add: S2_set_node_mos_def core_simps split: option.split)

lemma core_free_mpan [core_simps]: "core (S2_free_mpan ow gid s) = core s"
  by (simp add: S2_free_mpan_def core_simps split: option.split)

lemma core_nonce_report [core_simps]: "core (S2_send_nonce_report enc con fl s) = core s"
  by (simp add: S2_send_nonce_report_def Let_def case_prod_beta core_simps)

lemma core_register_nonce [core_simps]: "core (snd (S2_register_nonce enc buf len s)) = core s"
proof -
  obtain b s1 where "S2_verify_seq enc (peer s) (byte_at buf 2) s = (b, s1)" by fastforce
  moreover from this have "core s1 = core s" using core_verify_seq by (metis snd_conv)
  ultimately show ?thesis
    by (cases b) (simp_all add: S2_register_nonce_def Let_def case_prod_beta core_simps)
qed

lemma core_key_update [core_simps]: "core (snd (S2_network_key_update enc c key t s)) = core s"
  by (simp add: S2_network_key_update_def Let_def core_simps)

section \<open>Abstract machine\<close>

text \<open>The effect of the completion of a frame and of the state entry on the control state.\<close>

fun a_send_done :: "bool \<Rightarrow> s2_core \<Rightarrow> s2_core" where
  "a_send_done ok (f, r, t) =
     (if f = SENDING_MSG \<or> (f = WAIT_NONCE_RAPORT \<or> f = VERIFYING_DELIVERY) \<and> \<not> ok then (IDLE, r, DONE # t)
      else if f = WAIT_NONCE_RAPORT \<or> f = VERIFYING_DELIVERY then (f, r, ARM # t)
      else (f, r, t))"

fun a_transmit :: "bool \<Rightarrow> s2_core \<Rightarrow> s2_core" where
  "a_transmit ok (f, r, t) = (if ok then (f, r, TX # t) else a_send_done False (f, r, TX # t))"

fun a_enter :: "bool \<Rightarrow> bool \<Rightarrow> s2_core \<Rightarrow> s2_core" where
  "a_enter verify ok (f, r, t) =
     (case a_transmit ok (if verify then (VERIFYING_DELIVERY, r, ARM # t) else (SENDING_MSG, r, t)) of
        (f', r', t') \<Rightarrow> (f', r' - 1, t'))"

lemma core_post_done [core_simps]:
  "core (S2_post_send_done_event status s) = (fst (core s), fst (snd (core s)), DONE # snd (snd (core s)))"
  by (simp add: S2_post_send_done_event_def core_simps)

lemma core_send_done [core_simps]: "core (fsm_send_done status tm s) = a_send_done (status = 0) (core s)"
  by (cases "fsm s") (simp_all add: fsm_send_done_def core_simps, simp_all add: core_def)

lemma core_send_raw [core_simps]: "core (S2_send_raw enc ok fr s) = a_transmit ok (core s)"
  by (cases "core s") (simp add: S2_send_raw_def Let_def case_prod_beta core_simps)

lemma core_nonce_get [core_simps]: "core (S2_send_nonce_get enc ok s) = a_transmit ok (core s)"
  by (simp add: S2_send_nonce_get_def case_prod_beta core_simps)

lemma core_mpan_ext: "core (snd (snd (add_mpan_ext i acc))) = core (snd (snd acc))"
  by (cases acc) (simp add: add_mpan_ext_def Let_def core_simps split: option.split)

lemma core_add_mpan [core_simps]: "core (snd (S2_add_mpan_extensions off s)) = core s"
proof -
  have "core (snd (snd (fold add_mpan_ext is acc))) = core (snd (snd acc))" for "is" acc
    by (induction "is" arbitrary: acc) (simp_all add: core_mpan_ext)
  from this [of "[0..<MOS_LIST_LENGTH]" "(off, 0, s)"] show ?thesis
    by (simp add: S2_add_mpan_extensions_def Let_def case_prod_beta core_simps del: upt_rec_numeral)
qed

lemma core_exts [core_simps]:
  "core (snd (sn_ext enc i s)) = core s" "core (snd (mgrp_ext s)) = core s" "core (snd (mos_ext s)) = core s"
  by (simp_all add: sn_ext_def mgrp_ext_def mos_ext_def Let_def case_prod_beta core_simps split: option.split)

lemma core_build_header [core_simps]: "core (snd (build_header enc i s)) = core s"
  by (simp add: build_header_def Let_def case_prod_beta core_simps)

lemma core_seal [core_simps]: "core (seal_and_send enc ok i hl l s) = a_transmit ok (core s)"
  by (simp add: seal_and_send_def Let_def case_prod_beta core_simps)

lemma core_encrypt [core_simps]: "core (S2_encrypt_and_send enc ok s) = a_transmit ok (core s)"
  by (simp add: S2_encrypt_and_send_def Let_def case_prod_beta core_simps)

lemma core_encrypt_multi [core_simps]:
  "core (S2_encrypt_and_send_multi enc ok s) = (if mpan_ptr s = None then core s else a_transmit ok (core s))"
  by (cases "core s") (simp add: S2_encrypt_and_send_multi_def Let_def case_prod_beta core_simps split: option.split)

lemma core_enter [core_simps]:
  "core (send_msg_state_enter enc ok s) = a_enter (tx_options (peer s) AND 1 \<noteq> 0) ok (core s)"
  by (cases "core s") (simp add: send_msg_state_enter_def Let_def core_simps case_prod_beta)

section \<open>Decryption and the control state\<close>

fun a_mos :: "s2_core \<Rightarrow> s2_core" where
  "a_mos (f, r, t) = (if f = IDLE \<or> f = IS_MOS_WAIT_REPLY then (IS_MOS_WAIT_REPLY, r, ARM # t) else (f, r, t))"

lemma core_enc_msg_mos [core_simps]: "core (fsm_enc_msg_mos con s) = a_mos (core s)"
  by (cases "fsm s") (simp_all add: fsm_enc_msg_mos_def core_simps, simp_all add: core_def)

lemma core_clear_ext: "core (snd (snd (snd (clear_ext enc con sp msg pos l acc)))) = core (snd (snd acc))"
  by (cases acc) (simp add: clear_ext_def Let_def case_prod_beta core_simps split: option.split)

lemma core_parse_ext: "core (snd (snd (snd (snd (parse_ext enc con sp msg msg_len pos acc))))) = core (snd (snd acc))"
  by (rule parse_ext_invar [where I = "\<lambda>a. core (snd (snd a)) = core (snd (snd acc))"])
    (metis core_clear_ext snd_conv, rule refl)

lemma core_try_classes: "core (snd (snd (try_classes n enc i aad l nn ct s))) = core s"
  by (induction n arbitrary: ct s) (simp_all add: Let_def case_prod_beta core_simps)

lemma core_enc_ext: "core (snd (snd (enc_ext enc sp dat pos l acc))) = core (snd acc)"
proof -
  have find: "core s' = core s" if "find_mpan_by_group_id enc ow gid True s = (m, s')" for ow gid m s s'
    using core_find_mpan that by (metis snd_conv)
  show ?thesis
    by (cases acc) (auto simp: enc_ext_def core_simps dest!: find split: option.split prod.split)
qed

lemma core_parse_enc_ext: "core (snd (snd (snd (parse_enc_ext enc sp dat dl pos acc)))) = core (snd acc)"
  by (rule parse_enc_ext_invar [where I = "\<lambda>a. core (snd a) = core (snd acc)"]) (metis core_enc_ext snd_conv, rule refl)

lemma core_auth_fail: "core (snd (snd (snd (snd (auth_fail enc con sp mp s))))) = core s"
  by (simp add: auth_fail_def Let_def core_simps split: option.split)

lemma core_finish_decrypt:
  "core (snd (snd (snd (snd (finish_decrypt enc con sp flags dl dat s))))) = core s"
  using core_parse_enc_ext [of enc sp dat dl 0 "(con, s)"]
  by (auto simp: finish_decrypt_def split: prod.split bool.split)

lemma core_note_followup:
  "core (snd (note_followup con mp s)) = core s \<or> core (snd (note_followup con mp s)) = a_mos (core s)"
  by (simp add: note_followup_def Let_def core_simps split: option.split)

lemma core_save [core_simps]: "core (save_ciphertext i ct s) = core s"
  by (simp add: save_ciphertext_def Let_def core_simps)

lemma core_decrypt_single:
  "core (snd (snd (snd (snd (decrypt_single enc con i mp nn fl msg ml hl s))))) \<in> {core s, a_mos (core s)}"
proof -
  have classes: "core s3 = core s0" if "try_classes n enc i aad l nn ct s0 = (dl, dat, s3)" for n aad l ct s0 dl dat s3
    using core_try_classes that by (metis snd_conv)
  have follow: "core s4 = core s3 \<or> core s4 = a_mos (core s3)" if "note_followup c mp s3 = (c', s4)" for c c' s3 s4
    using core_note_followup [of c mp s3] that by simp
  show ?thesis
    by (auto simp: decrypt_single_def Let_def core_auth_fail core_finish_decrypt core_simps
        split: prod.splits if_splits dest!: classes follow)
qed

lemma core_decrypt_multi: "core (snd (snd (snd (snd (decrypt_multi enc con mp fl msg ml hl s))))) = core s"
  by (simp add: decrypt_multi_def Let_def core_auth_fail core_finish_decrypt core_simps split: option.split prod.split)

lemma core_decrypt:
  assumes "S2_decrypt_msg enc nn0 con msg ml s = (rc, con', pl, pn, s')"
  shows "core s' \<in> {core s, a_mos (core s)}"
proof -
  have vs: "core s1 = core s" if "S2_verify_seq enc con q s = (b, s1)" for con q b s1
    using core_verify_seq that by (metis snd_conv)
  have fs: "core s2 = core s1" if "find_span_by_node enc con s1 = (i, s2)" for con i s1 s2
    using core_find_span that by (metis snd_conv)
  have pe: "core s2 = core s1" if "parse_ext enc con sp msg ml 4 (None, nn0, s1) = (b, h, mp, nn, s2)" for con sp s1 b h mp nn s2
    using core_parse_ext [of enc con sp msg ml 4 "(None, nn0, s1)"] that by simp
  have ds: "core s3 \<in> {core s2, a_mos (core s2)}"
    if "decrypt_single enc con i mp nn fl msg ml hl s2 = (rc, con', pl, pn, s3)" for con con' i mp nn fl hl rc pl pn s2 s3
    using core_decrypt_single [of enc con i mp nn fl msg ml hl s2] that by simp
  have dm: "core s3 = core s2"
    if "decrypt_multi enc con mp fl msg ml hl s2 = (rc, con', pl, pn, s3)" for con con' mp fl hl rc pl pn s2 s3
    using core_decrypt_multi [of enc con mp fl msg ml hl s2] that by simp
  show ?thesis
    using assms
    by (auto simp: S2_decrypt_msg_def rx_entry_def parse_clear_def Let_def split: if_splits prod.splits bool.splits option.splits
        dest!: ds dm pe vs fs)
qed

section \<open>Invariant\<close>

fun frames_since :: "s2_obs list \<Rightarrow> nat" where
  "frames_since [] = 0"
| "frames_since (x # t) = (if x = ACC then 0 else if x = TX then Suc (frames_since t) else frames_since t)"

fun armed :: "s2_obs list \<Rightarrow> bool" where
  "armed [] = False"
| "armed (x # t) = (if x = ARM then True else if x = DISARM then False else armed t)"

abbreviation "waiting f \<equiv> f = WAIT_NONCE_RAPORT \<or> f = VERIFYING_DELIVERY \<or> f = IS_MOS_WAIT_REPLY"
abbreviation "sending f \<equiv> f = WAIT_NONCE_RAPORT \<or> f = VERIFYING_DELIVERY \<or> f = SENDING_MSG"

fun core_inv :: "s2_core \<Rightarrow> bool" where
  "core_inv (f, r, t) =
     (f \<noteq> SENDING_MULTICAST \<and>
      count_list t ACC = count_list t DONE + (if sending f then 1 else 0) \<and>
      frames_since t \<le> 3 \<and>
      (f = WAIT_NONCE_RAPORT \<longrightarrow> r = 2 \<and> frames_since t = 1) \<and>
      (f = VERIFYING_DELIVERY \<longrightarrow> frames_since t + unat r \<le> 3) \<and>
      (waiting f \<longrightarrow> armed t))"

lemma core_inv_send_done: "core_inv c \<Longrightarrow> core_inv (a_send_done ok c)"
  by (cases c) auto

lemma core_inv_mos: "core_inv c \<Longrightarrow> core_inv (a_mos c)"
  by (cases c) auto

lemma core_inv_enter:
  assumes "count_list t ACC = Suc (count_list t DONE)" and "frames_since t + unat r \<le> 3" and "r \<noteq> 0"
  shows "core_inv (a_enter verify ok (f, r, t))"
proof -
  have "unat r = Suc (unat (r - 1))" using assms(3) by (simp add: unat_minus_one word_gt_0 unat_gt_0 Suc_pred)
  then show ?thesis using assms by auto
qed

text \<open>Each state of the machine, from a context that satisfies the invariant.\<close>

fun is_send :: "s2_event \<Rightarrow> bool" where
  "is_send (SEND_MSG _ _) = True"
| "is_send (SEND_MULTICAST _ _) = True"
| "is_send _ = False"

lemma idle_send_inv:
  assumes "core s = (f, r, ACC # t)" and "core_inv (f, r, t)" and "\<not> sending f" and "is_send e"
  shows "core_inv (core (fsm_idle enc ok e s))"
proof (cases e)
  case (SEND_MSG con buf)
  obtain b s1 where so: "S2_span_ok enc con s = (b, s1)" by fastforce
  then have c: "core s1 = (f, r, ACC # t)" using core_span_ok assms(1) by (metis snd_conv)
  have "core_inv (a_enter v ok (f, 2, ACC # t))" for v by (rule core_inv_enter) (use assms in auto)
  then show ?thesis using SEND_MSG so c assms by (cases b) (auto simp: fsm_idle_def core_simps)
next
  case (SEND_MULTICAST con buf)
  let ?r = "find_mpan_by_group_id enc 0 (ucast (r_node con)) True (S2_set_peer con buf (length buf) s)"
  have m: "fst ?r \<noteq> None" by (simp add: find_mpan_by_group_id_def Let_def split: option.split prod.split)
  have "core (snd ?r) = (f, r, ACC # t)" using assms(1) by (simp add: core_simps)
  then show ?thesis using SEND_MULTICAST m assms by (auto simp: fsm_idle_def core_simps case_prod_beta)
qed (use assms(4) in simp_all)

lemma idle_inv:
  assumes "core_inv (core s)" and "\<not> is_send e"
  shows "core_inv (core (fsm_idle enc ok e s))"
proof (cases e)
  case (GOT_NONCE_GET con buf len)
  obtain b s1 where v: "S2_verify_seq enc con (byte_at buf 2) s = (b, s1)" by fastforce
  then have "core s1 = core s" using core_verify_seq by (metis snd_conv)
  then show ?thesis using GOT_NONCE_GET v assms(1) by (cases b) (simp_all add: fsm_idle_def core_simps)
next
  case (GOT_NONCE_RAPORT con buf len)
  then show ?thesis using assms(1) by (simp add: fsm_idle_def emit_S2_synchronization_event_def core_simps)
next
  case TIMEOUT
  then show ?thesis using assms(1) by (cases "core s") (simp add: fsm_idle_def Let_def core_simps)
qed (use assms in \<open>simp_all add: fsm_idle_def core_simps core_inv_send_done core_inv_mos\<close>)

lemma wait_nonce_inv:
  assumes "core_inv (core s)" and "fsm s = WAIT_NONCE_RAPORT"
  shows "core_inv (core (fsm_wait_nonce enc ok e s))"
proof (cases e)
  case (GOT_NONCE_RAPORT con buf len)
  obtain fl s1 where r: "S2_register_nonce enc buf len s = (fl, s1)" by fastforce
  then have c: "core s1 = core s" using core_register_nonce by (metis snd_conv)
  obtain r t where s: "core s = (WAIT_NONCE_RAPORT, r, t)" using assms(2) by (simp add: core_def)
  have "core_inv (a_enter v ok (core s1))" for v
    unfolding c s by (rule core_inv_enter) (use assms(1) s in simp_all)
  then show ?thesis using GOT_NONCE_RAPORT assms(1) r c
    by (simp add: fsm_wait_nonce_def emit_S2_synchronization_event_def core_simps)
next
  case TIMEOUT
  then show ?thesis using assms by (cases "core s") (simp add: fsm_wait_nonce_def core_simps)
qed (use assms(1) in \<open>simp_all add: fsm_wait_nonce_def core_simps core_inv_send_done\<close>)

lemma sending_inv: "core_inv (core s) \<Longrightarrow> core_inv (core (fsm_sending e s))"
  by (cases e) (simp_all add: fsm_sending_def emit_S2_synchronization_event_def core_simps core_inv_send_done)

lemma verifying_inv:
  assumes "core_inv (core s)" and "fsm s = VERIFYING_DELIVERY"
  shows "core_inv (core (fsm_verifying enc ok e s))"
proof -
  obtain r t where s: "core s = (VERIFYING_DELIVERY, r, t)" using assms(2) by (simp add: core_def)
  have enter: "core_inv (a_enter v ok (VERIFYING_DELIVERY, r, t))" if "r \<noteq> 0" for v
    by (rule core_inv_enter) (use assms(1) s that in simp_all)
  show ?thesis
  proof (cases e)
    case (GOT_NONCE_RAPORT con buf len)
    obtain fl s1 where r: "S2_register_nonce enc buf len s = (fl, s1)" by fastforce
    then have c: "core s1 = core s" using core_register_nonce by (metis snd_conv)
    then show ?thesis using GOT_NONCE_RAPORT assms(1) r s enter
      by (simp add: fsm_verifying_def Let_def emit_S2_synchronization_event_def core_simps)
  next
    case (GOT_ENC_MSG con)
    then show ?thesis using assms(1) s enter by (simp add: fsm_verifying_def core_simps word_gt_0)
  qed (use assms(1) s in \<open>simp_all add: fsm_verifying_def core_simps\<close>)
qed

lemma post_event_inv:
  assumes "core_inv (core s)" and "\<not> is_send e"
  shows "core_inv (core (S2_fsm_post_event enc ok e s))"
  using assms idle_inv [OF assms] wait_nonce_inv [OF assms(1)] sending_inv [OF assms(1)] verifying_inv [OF assms(1)]
  by (cases "fsm s") (simp_all add: S2_fsm_post_event_def core_update)

lemma post_send_inv:
  assumes "core_inv (core s)" and "\<not> S2_is_send_data_busy s" and "is_send e"
    and "core s' = (fst (core s), fst (snd (core s)), ACC # snd (snd (core s)))"
  shows "core_inv (core (S2_fsm_post_event enc ok e s'))"
proof -
  obtain f r t where c: "core s = (f, r, t)" by (cases "core s")
  with assms(2,4) have "core s' = (f, r, ACC # t)" and f: "f = IDLE \<or> f = IS_MOS_WAIT_REPLY"
    by (auto simp: S2_is_send_data_busy_def core_simps)
  then have "core_inv (core (fsm_idle enc ok e s'))"
    using idle_send_inv [of s' f r t e enc ok] assms(1,3) c by auto
  moreover have "fsm s' = f" using assms(4) c by (simp add: core_def)
  ultimately show ?thesis using f by (auto simp: S2_fsm_post_event_def)
qed

lemma all_cast_inv: "core_inv (core s) \<Longrightarrow> core_inv (core (snd (S2_send_data_all_cast enc ok con buf ev s)))"
  by (cases ev)
    (auto simp: S2_send_data_all_cast_def core_simps Let_def split: option.split intro!: post_send_inv)

lemma deliver_inv: "core_inv (core s) \<Longrightarrow> core_inv (core (deliver enc ok cmds src pl n s))"
  by (simp add: deliver_def Let_def S2_send_data_def all_cast_inv core_simps)

lemma handler_inv:
  assumes "core_inv (core s)"
  shows "core_inv (core (S2_application_command_handler enc ok1 ok2 nn0 cmds src buf len s))"
proof -
  obtain b s1 where v: "S2_verify_seq enc src (byte_at buf 2) s = (b, s1)" by fastforce
  then have c1: "core s1 = core s" using core_verify_seq by (metis snd_conv)
  obtain rc src' pl n s2 where d: "S2_decrypt_msg enc nn0 src buf len s = (rc, src', pl, n, s2)"
    by (cases "S2_decrypt_msg enc nn0 src buf len s")
  then have "core s2 \<in> {core s, a_mos (core s)}" by (rule core_decrypt)
  then have "core_inv (core s2)" using assms core_inv_mos [OF assms] by auto
  then show ?thesis using assms v c1 d
    by (cases b; cases rc)
      (auto simp: S2_application_command_handler_def core_simps intro!: post_event_inv deliver_inv)
qed

lemma core_timeout:
  "core (S2_timeout_notify enc ok s) =
     (if waiting (fsm s) then IDLE else fsm s, retry s,
      (if fsm s = WAIT_NONCE_RAPORT \<or> fsm s = VERIFYING_DELIVERY then [DONE] else []) @ DISARM # trace s)"
proof -
  have "core (emit Timer_fired s) = (fsm s, retry s, DISARM # trace s)"
    by (subst core_emit) (simp add: core_def)
  moreover have "fsm (emit Timer_fired s) = fsm s" by (simp add: emit_def)
  ultimately show ?thesis
    by (cases "fsm s") (simp_all add: S2_timeout_notify_def S2_fsm_post_event_def fsm_wait_nonce_def
        fsm_verifying_def fsm_idle_def fsm_sending_def Let_def core_update core_post_done core_nonce_report)
qed

lemma timeout_inv: "core_inv (core s) \<Longrightarrow> core_inv (core (S2_timeout_notify enc ok s))"
  unfolding core_timeout by (simp add: core_def)

lemma step_inv: "core_inv (core s) \<Longrightarrow> core_inv (core (s2_step enc cmds inp s))"
  by (cases inp)
    (auto simp: s2_step_def S2_send_data_def S2_send_frame_done_notify_def core_simps
      all_cast_inv handler_inv post_event_inv timeout_inv)

lemma init_core: "core (S2_init_ctx enc keystore home g) = (IDLE, 0, [])"
proof -
  have keys: "core (fold (\<lambda>(k, slot) s. case keystore k of
            Some key \<Rightarrow> snd (S2_network_key_update enc slot key False s) | None \<Rightarrow> s) xs s) = core s" for xs s
    by (induction xs arbitrary: s) (auto simp: core_simps split: option.split)
  have "core (zero_ctx home g) = (IDLE, 0, [])" by (simp add: core_def zero_ctx_def trace_def)
  then show ?thesis by (simp only: S2_init_ctx_def s2_restore_keys_def keys core_update)
qed

lemma reachable_inv: "s2_reachable enc cmds s \<Longrightarrow> core_inv (core s)"
  by (induction rule: s2_reachable.induct) (simp_all add: init_core step_inv)

section \<open>Properties\<close>

text \<open>
  C38. Every accepted transmission is reported exactly once, and costs at most three frames: in every
  state a context can reach, by any sequence of calls, received frames and timer expiries, the number of
  accepted transmissions equals the number of \<open>S2_send_done_event\<close> calls, plus one while the library is
  busy; and since the last acceptance at most three frames were handed to the radio (a request for a
  nonce and two encrypted messages).
\<close>

theorem s2_exactly_one_completion:
  assumes "s2_reachable enc cmds s"
  shows "count_list (trace s) ACC = count_list (trace s) DONE + (if S2_is_send_data_busy s then 1 else 0) \<and>
    frames_since (trace s) \<le> 3"
proof -
  have "core_inv (fsm s, retry s, trace s)" using reachable_inv [OF assms] by (simp add: core_def)
  moreover have "fsm s = IDLE \<or> fsm s = IS_MOS_WAIT_REPLY \<or> fsm s = SENDING_MULTICAST \<or> sending (fsm s)"
    by (cases "fsm s") simp_all
  ultimately show ?thesis by (auto simp: S2_is_send_data_busy_def)
qed

text \<open>
  C39. No wait without an end: in every reachable state in which the library waits for a nonce report,
  for the verification of a delivery or for the answer of the application, its timer is running, and its
  expiry brings the library back to idle; while a frame is sent without verification, the completion of
  this frame does. A transmission in progress is reported by that step.
\<close>

theorem s2_waits_end:
  assumes "s2_reachable enc cmds s"
  shows "(waiting (fsm s) \<longrightarrow> armed (trace s) \<and> fsm (S2_timeout_notify enc ok s) = IDLE \<and>
      count_list (trace (S2_timeout_notify enc ok s)) DONE =
        count_list (trace s) DONE + (if S2_is_send_data_busy s then 1 else 0)) \<and>
    (fsm s = SENDING_MSG \<longrightarrow> fsm (S2_send_frame_done_notify enc status time s) = IDLE \<and>
      count_list (trace (S2_send_frame_done_notify enc status time s)) DONE = Suc (count_list (trace s) DONE)) \<and>
    fsm s \<noteq> SENDING_MULTICAST"
proof -
  have inv: "core_inv (fsm s, retry s, trace s)" using reachable_inv [OF assms] by (simp add: core_def)
  have "core (S2_send_frame_done_notify enc status time s) = (IDLE, retry s, DONE # trace s)" if "fsm s = SENDING_MSG"
    using that by (simp add: S2_send_frame_done_notify_def S2_fsm_post_event_def fsm_sending_def core_send_done)
      (simp add: core_def)
  then show ?thesis
    using inv core_timeout [of enc ok s] by (auto simp: core_def S2_is_send_data_busy_def)
qed

section \<open>Witnesses\<close>

text \<open>A context without keys that has just accepted a multicast transmission.\<close>

definition busy_ctx :: s2 where
  "busy_ctx = s2_step AES128_ECB_encrypt (\<lambda>_ _. []) (In_send CAST_MULTICAST zero_con [1, 2] True)
     (S2_init_ctx AES128_ECB_encrypt (\<lambda>_. None) 0 zero_drbg)"

lemma busy_ctx_reachable: "s2_reachable AES128_ECB_encrypt (\<lambda>_ _. []) busy_ctx"
  unfolding busy_ctx_def
  by (intro s2_reachable.step s2_reachable.init) (simp_all add: drbg_ok_def zero_drbg_def)

lemma multicast_core:
  assumes "core s = (IDLE, r, t)" and "0 < length buf" and "length buf \<le> 1280"
  shows "core (snd (S2_send_data_all_cast enc True con buf CAST_MULTICAST s)) = (SENDING_MSG, r, TX # ACC # t)"
proof -
  let ?s = "emit (Send_accepted con) s"
  have c: "core ?s = (IDLE, r, ACC # t)" using assms(1) by (subst core_emit) simp
  have i: "fsm s = IDLE" "fsm ?s = IDLE" using assms(1) c by (simp_all add: core_def)
  let ?r = "find_mpan_by_group_id enc 0 (ucast (r_node con)) True (S2_set_peer con buf (length buf) ?s)"
  have m: "fst ?r \<noteq> None" by (simp add: find_mpan_by_group_id_def Let_def split: option.split prod.split)
  have "core (snd ?r) = (IDLE, r, ACC # t)" using c by (simp add: core_find_mpan core_helpers)
  then have "core (fsm_idle enc True (SEND_MULTICAST con buf) ?s) = (SENDING_MSG, r, TX # ACC # t)"
    using m by (simp add: fsm_idle_def core_encrypt_multi core_update case_prod_beta)
  then show ?thesis using assms i
    by (simp add: S2_send_data_all_cast_def S2_is_send_data_busy_def S2_fsm_post_event_def)
qed

lemma busy_ctx_core: "core busy_ctx = (SENDING_MSG, 0, [TX, ACC])"
  unfolding busy_ctx_def s2_step_def by (simp add: multicast_core init_core)

theorem s2_exactly_one_completion_witness:
  "count_list (trace busy_ctx) ACC = count_list (trace busy_ctx) DONE + 1 \<and> frames_since (trace busy_ctx) = 1"
  using s2_exactly_one_completion [OF busy_ctx_reachable] busy_ctx_core
  by (simp add: core_def S2_is_send_data_busy_def)

theorem s2_waits_end_witness:
  "fsm busy_ctx = SENDING_MSG \<and> fsm (S2_send_frame_done_notify AES128_ECB_encrypt 0 7 busy_ctx) = IDLE"
  using s2_waits_end [OF busy_ctx_reachable] busy_ctx_core by (simp add: core_def)

end
