(* ===== verification/S2_Secure.thy ===== *)
theory S2_Secure
  imports S2_Delivery
begin

text \<open>
  Well-formedness of a Security 2 context (array lengths, indices inside their tables), its preservation
  by every operation, and the security of the messages: what an accepted message proves, how a stream of
  messages is delivered, and where the nonces repeat.

  The lemmas are proved for every \<open>block_cipher\<close>; the properties are stated for the cipher of \<open>aes.c\<close>.
\<close>

section \<open>Well-formed contexts\<close>

definition keys_ok :: "s2_keyset \<Rightarrow> bool" where
  "keys_ok k = (length (ccm_key k) = 16 \<and> length (nonce_pstring k) = 32 \<and> length (mpan_key k) = 16)"

definition s2_wf :: "s2 \<Rightarrow> bool" where
  "s2_wf s =
     (length (sg s) = N_SEC_CLASS \<and> list_all keys_ok (sg s) \<and>
      length (span_table s) = SPAN_TABLE_SIZE \<and> list_all (\<lambda>sp. drbg_ok (sp_d sp)) (span_table s) \<and>
      length (mpan_table s) = MPAN_TABLE_SIZE \<and> list_all (\<lambda>m. length (inner_state m) = 16) (mpan_table s) \<and>
      length (mos_list s) = MOS_LIST_LENGTH \<and> WORKBUF_BYTES \<le> length (workbuf s) \<and> drbg_ok (prng s) \<and>
      (\<forall>m. mpan_ptr s = Some m \<longrightarrow> m < MPAN_TABLE_SIZE))"

named_theorems wf_intros \<open>operations that keep a context well-formed\<close>

lemma find_index_less: "find_index P xs = Some i \<Longrightarrow> i < length xs"
  by (simp add: find_index_Some)

lemma wf_update [wf_intros]:
  "s2_wf s \<Longrightarrow> s2_wf (s\<lparr>fault := b\<rparr>)" "s2_wf s \<Longrightarrow> s2_wf (s\<lparr>tx_data := d\<rparr>)" "s2_wf s \<Longrightarrow> s2_wf (s\<lparr>peer := p\<rparr>)"
  "s2_wf s \<Longrightarrow> s2_wf (s\<lparr>inclusion_idle := b\<rparr>)" "s2_wf s \<Longrightarrow> s2_wf (s\<lparr>fsm := f\<rparr>)" "s2_wf s \<Longrightarrow> s2_wf (s\<lparr>retry := r\<rparr>)"
  "s2_wf s \<Longrightarrow> s2_wf (s\<lparr>loaded_keys := l\<rparr>)" "s2_wf s \<Longrightarrow> drbg_ok g \<Longrightarrow> s2_wf (s\<lparr>prng := g\<rparr>)"
  "s2_wf s \<Longrightarrow> length ml = MOS_LIST_LENGTH \<Longrightarrow> s2_wf (s\<lparr>mos_list := ml\<rparr>)"
  "s2_wf s \<Longrightarrow> s2_wf (s\<lparr>mpan_ptr := None\<rparr>)" "s2_wf s \<Longrightarrow> m < MPAN_TABLE_SIZE \<Longrightarrow> s2_wf (s\<lparr>mpan_ptr := Some m\<rparr>)"
  "s2_wf s \<Longrightarrow> WORKBUF_BYTES \<le> length wb \<Longrightarrow> s2_wf (s\<lparr>workbuf := wb\<rparr>)"
  by (simp_all add: s2_wf_def)

lemma wf_emit [wf_intros]: "s2_wf s \<Longrightarrow> s2_wf (emit e s)"
  by (simp add: emit_def s2_wf_def)

lemma wf_checks [wf_intros]: "s2_wf s \<Longrightarrow> s2_wf (check_class c s)" "s2_wf s \<Longrightarrow> s2_wf (check_aad a s)"
  by (simp_all add: check_class_def check_aad_def wf_update)

lemma wf_upd_span [wf_intros]:
  assumes "s2_wf s" and "\<And>sp. drbg_ok (sp_d sp) \<Longrightarrow> drbg_ok (sp_d (f sp))"
  shows "s2_wf (upd_span i f s)"
  using assms by (cases "i < SPAN_TABLE_SIZE") (auto simp: s2_wf_def upd_span_def list_all_length nth_list_update)

lemma wf_upd_mpan [wf_intros]:
  assumes "s2_wf s" and "\<And>m. length (inner_state m) = 16 \<Longrightarrow> length (inner_state (f m)) = 16"
  shows "s2_wf (upd_mpan i f s)"
  using assms by (cases "i < MPAN_TABLE_SIZE") (auto simp: s2_wf_def upd_mpan_def list_all_length nth_list_update)

lemma sp_d_ok: "s2_wf s \<Longrightarrow> i < SPAN_TABLE_SIZE \<Longrightarrow> drbg_ok (sp_d (span_table s ! i))"
  by (simp add: s2_wf_def list_all_length)

lemma sg_ok: "s2_wf s \<Longrightarrow> keys_ok (sg_at s c)"
  by (cases "sg s = []") (auto simp: s2_wf_def sg_at_def list_all_iff)

lemma set_r_nonce_ok: "length n = 16 \<Longrightarrow> drbg_ok d \<Longrightarrow> drbg_ok (set_r_nonce n d)"
  by (simp add: drbg_ok_def set_r_nonce_def)

lemma length_get_r_nonce: "drbg_ok d \<Longrightarrow> length (get_r_nonce d) = 16"
  by (simp add: drbg_ok_def get_r_nonce_def)

lemma get_set_r_nonce: "length n = 16 \<Longrightarrow> get_r_nonce (set_r_nonce n d) = n"
  by (cases n) (simp_all add: set_r_nonce_def get_r_nonce_def)

lemma length_bigint_add: "length (fst (bigint_add t xs ys)) = min (length xs) (length ys)"
  by (induction t xs ys rule: bigint_add.induct) (simp_all add: Let_def case_prod_beta)

lemma length_next_mpan: "length (inner_state m) = 16 \<Longrightarrow> length (inner_state (next_mpan_state m)) = 16"
  by (simp add: next_mpan_state_def length_bigint_add)

lemma length_wr: "WORKBUF_BYTES \<le> length b \<Longrightarrow> WORKBUF_BYTES \<le> length (wr off xs b)"
  by (simp add: wr_def)

lemma wf_wb [wf_intros]:
  "s2_wf s \<Longrightarrow> s2_wf (write_wb off xs s)" "s2_wf s \<Longrightarrow> s2_wf (modify_wb off h s)"
  "s2_wf s \<Longrightarrow> s2_wf (s\<lparr>workbuf := take WORKBUF_BYTES (workbuf s)\<rparr>)"
  using length_wr by (auto simp: write_wb_def modify_wb_def s2_wf_def)

lemma wf_set_peer [wf_intros]: "s2_wf s \<Longrightarrow> s2_wf (S2_set_peer con buf len s)"
  by (simp add: S2_set_peer_def s2_wf_def)

lemma wf_set_node_mos [wf_intros]: "s2_wf s \<Longrightarrow> s2_wf (S2_set_node_mos n s)"
  by (simp add: S2_set_node_mos_def s2_wf_def split: option.split)

lemma wf_free_mpan [wf_intros]: "s2_wf s \<Longrightarrow> s2_wf (S2_free_mpan ow gid s)"
  by (simp add: S2_free_mpan_def wf_intros split: option.split)

lemma wf_lookup: "s2_wf s \<Longrightarrow> lookup_mpan ow gid s = Some m \<Longrightarrow> m < MPAN_TABLE_SIZE"
  "s2_wf s \<Longrightarrow> lookup_span con s = Some i \<Longrightarrow> i < SPAN_TABLE_SIZE"
  by (auto simp: lookup_mpan_def lookup_span_def s2_wf_def dest: find_index_less)

context block_cipher
begin

lemma generate_ok:
  "drbg_ok g \<Longrightarrow> AES_CTR_DRBG_Generate enc g = (rnd, g') \<Longrightarrow> length rnd = 16 \<and> drbg_ok g'"
  by (auto simp: drbg_ok_def generate_spec Let_def enc_length)

lemma nonce_ok: "drbg_ok g \<Longrightarrow> next_nonce_generate enc g = (n, g') \<Longrightarrow> length n = 16 \<and> drbg_ok g'"
  by (simp add: next_nonce_generate_def generate_ok)

lemma instantiate_nonce_ok:
  "length a = 16 \<Longrightarrow> length b = 16 \<Longrightarrow> keys_ok k \<Longrightarrow> drbg_ok (next_nonce_instantiate enc a b (nonce_pstring k))"
  by (simp add: drbg_ok_def keys_ok_def nonce_instantiate_ok)

lemma wf_find_span:
  assumes "s2_wf s" and "find_span_by_node enc con s = (i, s')"
  shows "s2_wf s' \<and> i < SPAN_TABLE_SIZE"
proof (cases "lookup_span con s")
  case (Some j)
  then show ?thesis using assms wf_lookup(2) by (auto simp: find_span_by_node_def)
next
  case None
  obtain rnd g where g: "AES_CTR_DRBG_Generate enc (prng s) = (rnd, g)" by fastforce
  have "drbg_ok (prng s)" using assms(1) by (simp add: s2_wf_def)
  with g have "drbg_ok g" using generate_ok by blast
  moreover have "j < SPAN_TABLE_SIZE" if "find_index (\<lambda>sp. sp_state sp = SPAN_NOT_USED) (span_table s) = Some j" for j
    using find_index_less [OF that] assms(1) by (simp add: s2_wf_def)
  ultimately show ?thesis
    using assms None g by (auto simp: find_span_by_node_def Let_def wf_intros split: option.splits)
qed

lemma wf_find_mpan:
  assumes "s2_wf s" and "find_mpan_by_group_id enc ow gid cr s = (mp, s')"
  shows "s2_wf s' \<and> (\<forall>m. mp = Some m \<longrightarrow> m < MPAN_TABLE_SIZE)"
proof (cases "lookup_mpan ow gid s")
  case (Some j)
  then show ?thesis using assms wf_lookup(1) by (auto simp: find_mpan_by_group_id_def)
next
  case None
  obtain rnd g where g: "AES_CTR_DRBG_Generate enc (prng s) = (rnd, g)" by fastforce
  obtain inner g2 where g2: "AES_CTR_DRBG_Generate enc g = (inner, g2)" by fastforce
  have "drbg_ok (prng s)" using assms(1) by (simp add: s2_wf_def)
  with g g2 have "drbg_ok g2" "length inner = 16" using generate_ok by blast+
  moreover have "j < MPAN_TABLE_SIZE" if "find_index (\<lambda>m. mp_state m = MPAN_NOT_USED) (mpan_table s) = Some j" for j
    using find_index_less [OF that] assms(1) by (simp add: s2_wf_def)
  ultimately show ?thesis
    using assms None g g2 by (auto simp: find_mpan_by_group_id_def Let_def wf_intros split: option.splits if_splits)
qed

lemma wf_span_ok: "s2_wf s \<Longrightarrow> S2_span_ok enc con s = (b, s') \<Longrightarrow> s2_wf s'"
  using wf_find_span by (auto simp: S2_span_ok_def Let_def split: prod.splits)

lemma wf_verify_seq: "s2_wf s \<Longrightarrow> S2_verify_seq enc con q s = (b, s') \<Longrightarrow> s2_wf s'"
  using wf_find_span by (auto simp: S2_verify_seq_def Let_def wf_intros split: prod.splits if_splits)

lemma wf_nonce_report:
  assumes "s2_wf s"
  shows "s2_wf (S2_send_nonce_report enc con fl s)"
proof -
  obtain i s1 where f: "find_span_by_node enc con s = (i, s1)" by fastforce
  obtain rnd g where g: "AES_CTR_DRBG_Generate enc (prng s1) = (rnd, g)" by fastforce
  have s1: "s2_wf s1" using wf_find_span [OF assms f] by simp
  then have "drbg_ok (prng s1)" by (simp add: s2_wf_def)
  with g have "length rnd = 16" "drbg_ok g" using generate_ok by blast+
  with f g s1 show ?thesis by (simp add: S2_send_nonce_report_def Let_def wf_intros set_r_nonce_ok)
qed

lemma wf_register_nonce:
  assumes "s2_wf s" and "S2_register_nonce enc buf len s = (fl, s')"
  shows "s2_wf s'"
proof -
  obtain b s1 where v: "S2_verify_seq enc (peer s) (byte_at buf 2) s = (b, s1)" by fastforce
  have s1: "s2_wf s1" using wf_verify_seq [OF assms(1) v] .
  obtain i s2 where f: "find_span_by_node enc (peer s1) s1 = (i, s2)" by fastforce
  have "s2_wf s2" using wf_find_span [OF s1 f] by simp
  then show ?thesis using assms v s1 f
    by (cases b) (auto simp: S2_register_nonce_def Let_def wf_intros set_r_nonce_ok simp del: upt_rec_numeral)
qed

end

lemma wf_send_done [wf_intros]: "s2_wf s \<Longrightarrow> s2_wf (fsm_send_done status tm s)"
  by (simp add: fsm_send_done_def S2_post_send_done_event_def wf_intros split: states.split)

lemma wf_post_done [wf_intros]: "s2_wf s \<Longrightarrow> s2_wf (S2_post_send_done_event status s)"
  by (simp add: S2_post_send_done_event_def wf_intros)

lemma wf_enc_msg_mos [wf_intros]: "s2_wf s \<Longrightarrow> s2_wf (fsm_enc_msg_mos con s)"
  by (simp add: fsm_enc_msg_mos_def wf_intros split: states.split)

lemma wf_mgrp_ext: "s2_wf s \<Longrightarrow> mgrp_ext s = (e, s') \<Longrightarrow> s2_wf s'"
  by (auto simp: mgrp_ext_def wf_intros length_next_mpan split: option.splits if_splits)

lemma wf_mos_ext: "s2_wf s \<Longrightarrow> mos_ext s = (e, s') \<Longrightarrow> s2_wf s'"
  by (auto simp: mos_ext_def wf_intros split: option.splits if_splits)

lemma wf_add_mpan_ext: "s2_wf (snd (snd acc)) \<Longrightarrow> s2_wf (snd (snd (add_mpan_ext i acc)))"
proof -
  have ml: "length (mos_list s) = MOS_LIST_LENGTH" if "s2_wf s" for s using that by (simp add: s2_wf_def)
  show "s2_wf (snd (snd acc)) \<Longrightarrow> ?thesis"
    by (cases acc) (auto simp: add_mpan_ext_def Let_def ml wf_intros split: option.splits)
qed

lemma wf_add_mpan: "s2_wf s \<Longrightarrow> S2_add_mpan_extensions off s = (n, s') \<Longrightarrow> s2_wf s'"
proof -
  have "s2_wf (snd (snd (fold add_mpan_ext is acc)))" if "s2_wf (snd (snd acc))" for "is" acc
    using that by (induction "is" arbitrary: acc) (simp_all add: wf_add_mpan_ext)
  from this [of "(off, 0, s)" "[0..<MOS_LIST_LENGTH]"] show "s2_wf s \<Longrightarrow> S2_add_mpan_extensions off s = (n, s') \<Longrightarrow> ?thesis"
    by (auto simp: S2_add_mpan_extensions_def Let_def wf_intros split: prod.splits if_splits simp del: upt_rec_numeral)
qed

lemma decrypt_msg_eq:
  assumes "rx_entry enc con msg s = (fresh, sp, s1)"
    and "parse_clear enc nn0 con sp msg ml s1 = (go, h, mp, nn, s2)"
  shows "S2_decrypt_msg enc nn0 con msg ml s =
    (if ml < 12 then (PARSE_FAIL, con, [], 0, s)
     else if \<not> fresh then (SEQUENCE_FAIL, con, [], 0, s1)
     else if \<not> go then (PARSE_FAIL, con, [], 0, s2)
     else case sp of
       None \<Rightarrow> decrypt_multi enc con mp (byte_at msg 3) msg ml h s2
     | Some i \<Rightarrow> decrypt_single enc con i mp nn (byte_at msg 3) msg ml h s2)"
  using assms by (cases fresh; cases go) (simp_all add: S2_decrypt_msg_def Let_def)

lemma decrypt_single_eq:
  assumes "aad = S2_make_aad (my_home_id s) (r_node con) (l_node con) msg hl ml"
    and "ct = take (ml - hl) (drop hl msg)"
    and "try_classes N_SEC_CLASS enc i aad (ml - hl) nn ct (save_ciphertext i ct (check_aad aad s)) = (dl, dat, s3)"
    and "note_followup (con\<lparr>con_class := sp_class (span_table s3 ! i)\<rparr>) mp s3 = (con4, s4)"
  shows "decrypt_single enc con i mp nn fl msg ml hl s =
      (if sp_state (span_table s ! i) \<noteq> SPAN_NEGOTIATED \<and> sp_state (span_table s ! i) \<noteq> SPAN_INSTANTIATE
       then auth_fail enc con (Some i) mp s
       else if dl = 0 then auth_fail enc con (Some i) mp s3
       else if aad = [] then auth_fail enc con4 (Some i) mp s4
       else finish_decrypt enc con4 (Some i) fl dl dat s4)"
  unfolding decrypt_single_def Let_def assms(1,2) [symmetric] assms(3) prod.case assms(4) ..

text \<open>The state of the loop over the extensions.\<close>

fun ext_acc_ok :: "nat option \<times> (buffer \<times> buffer) \<times> s2 \<Rightarrow> bool" where
  "ext_acc_ok (mp, nn, s) =
     (s2_wf s \<and> (\<forall>m. mp = Some m \<longrightarrow> m < MPAN_TABLE_SIZE) \<and> length (fst nn) = 16 \<and> length (snd nn) = 16)"

context block_cipher
begin

lemma wf_send_raw: "s2_wf s \<Longrightarrow> s2_wf (S2_send_raw enc ok fr s)"
proof -
  assume s: "s2_wf s"
  let ?s = "emit (Send_frame (peer s) fr ok) s"
  obtain i s2 where f: "find_span_by_node enc (peer ?s) ?s = (i, s2)" by fastforce
  have "s2_wf s2" using wf_find_span [OF _ f] s by (simp add: wf_intros)
  then show ?thesis using f s by (cases ok) (simp_all add: S2_send_raw_def Let_def wf_intros)
qed

lemma wf_nonce_get: "s2_wf s \<Longrightarrow> s2_wf (S2_send_nonce_get enc ok s)"
  using wf_find_span by (auto simp: S2_send_nonce_get_def intro!: wf_send_raw split: prod.splits)

lemma wf_sn_ext: "s2_wf s \<Longrightarrow> i < SPAN_TABLE_SIZE \<Longrightarrow> sn_ext enc i s = (e, s') \<Longrightarrow> s2_wf s'"
proof -
  assume s: "s2_wf s" "i < SPAN_TABLE_SIZE" "sn_ext enc i s = (e, s')"
  obtain rnd g where g: "AES_CTR_DRBG_Generate enc (prng s) = (rnd, g)" by fastforce
  have "drbg_ok (prng s)" using s(1) by (simp add: s2_wf_def)
  with g have "length rnd = 16" "drbg_ok g" using generate_ok by blast+
  then show "s2_wf s'"
    using s g sp_d_ok [OF s(1,2)] sg_ok [OF s(1)]
    by (auto simp: sn_ext_def Let_def wf_intros instantiate_nonce_ok length_get_r_nonce split: if_splits)
qed

lemma wf_build_header:
  assumes "s2_wf s" and "i < SPAN_TABLE_SIZE" and "build_header enc i s = (h, s')"
  shows "s2_wf s'"
proof -
  let ?s1 = "write_wb 0 [0x9F, 3, tx_seq (span_table s ! i), 0] s"
  obtain e1 s2 where 1: "sn_ext enc i ?s1 = (e1, s2)" by fastforce
  obtain e2 s3 where 2: "mgrp_ext s2 = (e2, s3)" by fastforce
  obtain e3 s4 where 3: "mos_ext s3 = (e3, s4)" by fastforce
  have "s2_wf s4"
    using wf_sn_ext [OF _ assms(2) 1] wf_mgrp_ext [OF _ 2] wf_mos_ext [OF _ 3] assms(1) by (simp add: wf_intros)
  then show ?thesis using assms(3) 1 2 3 by (auto simp: build_header_def Let_def wf_intros)
qed

lemma wf_seal:
  assumes "s2_wf s" and "i < SPAN_TABLE_SIZE"
  shows "s2_wf (seal_and_send enc ok i hl l s)"
proof -
  obtain nonce rng where g: "next_nonce_generate enc (sp_d (span_table s ! i)) = (nonce, rng)" by fastforce
  have "drbg_ok rng" using nonce_ok [OF sp_d_ok [OF assms] g] by simp
  then show ?thesis using assms g by (simp add: seal_and_send_def Let_def case_prod_beta wf_intros wf_send_raw)
qed

lemma wf_encrypt:
  assumes "s2_wf s"
  shows "s2_wf (S2_encrypt_and_send enc ok s)"
proof -
  obtain i s1 where 1: "find_span_by_node enc (peer s) s = (i, s1)" by fastforce
  obtain h s2 where 2: "build_header enc i s1 = (h, s2)" by fastforce
  obtain n s3 where 3: "S2_add_mpan_extensions h s2 = (n, s3)" by fastforce
  have s1: "s2_wf s1" "i < SPAN_TABLE_SIZE" using wf_find_span [OF assms 1] by simp_all
  have "s2_wf s3" using wf_add_mpan [OF wf_build_header [OF s1 2] 3] .
  then show ?thesis using 1 2 3 s1(2) by (simp add: S2_encrypt_and_send_def Let_def wf_seal wf_intros)
qed

lemma wf_encrypt_multi: "s2_wf s \<Longrightarrow> s2_wf (S2_encrypt_and_send_multi enc ok s)"
  by (simp add: S2_encrypt_and_send_multi_def Let_def case_prod_beta wf_intros length_next_mpan split: option.split)

lemma wf_clear_ext:
  assumes "ext_acc_ok acc" and "\<forall>i. sp = Some i \<longrightarrow> i < SPAN_TABLE_SIZE"
    and "clear_ext enc con sp msg pos l acc = (go, acc')"
  shows "ext_acc_ok acc'"
proof -
  obtain mp nn s where acc: "acc = (mp, nn, s)" by (cases acc)
  have s: "s2_wf s" using assms(1) acc by simp
  have sn: "ext_acc_ok acc'" if "byte_at msg (pos + 1) AND 0x3F = 1"
    using assms that acc s sp_d_ok [OF s] sg_ok [OF s]
    by (auto simp: clear_ext_def Let_def wf_intros instantiate_nonce_ok length_get_r_nonce
        split: option.splits if_splits simp del: upt_rec_numeral)
  show ?thesis
  proof (cases "byte_at msg (pos + 1) AND 0x3F = 1")
    case False
    then show ?thesis using assms acc s wf_find_mpan [OF s]
      by (auto simp: clear_ext_def Let_def wf_intros split: if_splits prod.splits)
  qed (rule sn)
qed

lemma wf_parse_ext:
  assumes "ext_acc_ok acc" and "\<forall>i. sp = Some i \<longrightarrow> i < SPAN_TABLE_SIZE"
    and "parse_ext enc con sp msg ml pos acc = (go, h, acc')"
  shows "ext_acc_ok acc'"
proof -
  have "ext_acc_ok (snd (snd (parse_ext enc con sp msg ml pos acc)))"
    by (rule parse_ext_invar) (use assms(1) wf_clear_ext [OF _ assms(2)] in blast)+
  then show ?thesis using assms(3) by simp
qed

lemma wf_try_classes:
  assumes "i < SPAN_TABLE_SIZE" and "length (fst nn) = 16" and "length (snd nn) = 16"
  shows "s2_wf s \<Longrightarrow> s2_wf (snd (snd (try_classes n enc i aad l nn ct s)))"
proof (induction n arbitrary: ct s)
  case (Suc n)
  obtain nonce rng where g: "next_nonce_generate enc (sp_d (span_table s ! i)) = (nonce, rng)" by fastforce
  have r: "drbg_ok rng" using nonce_ok [OF sp_d_ok [OF Suc.prems assms(1)] g] by simp
  define s1 where "s1 = (if key_loaded s (sp_class (span_table s ! i))
    then check_class (sp_class (span_table s ! i)) (upd_span i (\<lambda>sp. sp\<lparr>sp_d := rng\<rparr>) s) else s)"
  have s1: "s2_wf s1" using Suc.prems r by (simp add: s1_def wf_intros)
  have next_class: "s2_wf (upd_span i (\<lambda>sp. sp\<lparr>sp_class := c, sp_d := next_nonce_instantiate enc (fst nn) (snd nn)
      (nonce_pstring (sg_at s1 c))\<rparr>) s1)" for c
    using s1 assms(2,3) by (simp add: wf_intros instantiate_nonce_ok sg_ok)
  show ?case
    using g Suc.IH [OF next_class] s1
    by (cases "key_loaded s (sp_class (span_table s ! i))")
      (auto simp: Let_def s1_def case_prod_beta wf_intros)
qed simp

lemma wf_note_followup:
  assumes "s2_wf s" and "\<forall>m. mp = Some m \<longrightarrow> m < MPAN_TABLE_SIZE" and "note_followup con mp s = (con', s')"
  shows "s2_wf s'"
  using assms by (auto simp: note_followup_def Let_def wf_intros length_next_mpan split: option.splits if_splits)

lemma wf_enc_ext: "s2_wf s \<Longrightarrow> enc_ext enc sp dat pos l (con, s) = (go, con', s') \<Longrightarrow> s2_wf s'"
  using wf_find_mpan
  by (auto simp: enc_ext_def wf_intros split: option.splits if_splits prod.splits simp del: upt_rec_numeral)

lemma wf_parse_enc_ext:
  assumes "s2_wf s" and "parse_enc_ext enc sp dat dl pos (con, s) = (go, h, con', s')"
  shows "s2_wf s'"
  using parse_enc_ext_invar [where I = "\<lambda>a. s2_wf (snd a)", of enc sp dat "(con, s)" dl pos] wf_enc_ext assms by fastforce

lemma wf_auth_fail: "s2_wf s \<Longrightarrow> auth_fail enc con sp mp s = (rc, con', pl, n, s') \<Longrightarrow> s2_wf s'"
  by (auto simp: auth_fail_def Let_def wf_intros wf_nonce_report split: option.splits)

lemma wf_finish: "s2_wf s \<Longrightarrow> finish_decrypt enc con sp fl dl dat s = (rc, con', pl, n, s') \<Longrightarrow> s2_wf s'"
  using wf_parse_enc_ext by (auto simp: finish_decrypt_def split: if_splits prod.splits bool.splits)

lemma wf_decrypt_single:
  assumes "s2_wf s" and "i < SPAN_TABLE_SIZE" and "\<forall>m. mp = Some m \<longrightarrow> m < MPAN_TABLE_SIZE"
    and "length (fst nn) = 16" and "length (snd nn) = 16"
    and "decrypt_single enc con i mp nn fl msg ml hl s = (rc, con', pl, n, s')"
  shows "s2_wf s'"
proof -
  define aad where "aad = S2_make_aad (my_home_id s) (r_node con) (l_node con) msg hl ml"
  define ct where "ct = take (ml - hl) (drop hl msg)"
  define s2 where "s2 = save_ciphertext i ct (check_aad aad s)"
  obtain dl dat s3 where t: "try_classes N_SEC_CLASS enc i aad (ml - hl) nn ct s2 = (dl, dat, s3)"
    by (cases "try_classes N_SEC_CLASS enc i aad (ml - hl) nn ct s2")
  have "s2_wf s2" using assms(1) by (simp add: s2_def save_ciphertext_def Let_def wf_intros)
  then have s3: "s2_wf s3" using wf_try_classes [OF assms(2,4,5), of s2 N_SEC_CLASS aad "ml - hl" ct] t by simp
  obtain con4 s4 where f: "note_followup (con\<lparr>con_class := sp_class (span_table s3 ! i)\<rparr>) mp s3 = (con4, s4)"
    by fastforce
  have s4: "s2_wf s4" using wf_note_followup [OF s3 assms(3) f] .
  note eq = decrypt_single_eq [OF aad_def ct_def t [unfolded s2_def] f]
  show ?thesis
    using assms(6) unfolding eq
    using wf_auth_fail [OF assms(1)] wf_auth_fail [OF s3] wf_auth_fail [OF s4] wf_finish [OF s4]
    by (simp split: if_splits)
qed

lemma wf_decrypt_multi:
  assumes "s2_wf s" and "decrypt_multi enc con mp fl msg ml hl s = (rc, con', pl, n, s')"
  shows "s2_wf s'"
proof -
  have s1: "s2_wf (check_class c (check_aad a (upd_mpan m next_mpan_state s)))" for c a m
    using assms(1) by (simp add: wf_intros length_next_mpan)
  show ?thesis
    using assms(2) wf_auth_fail [OF assms(1)] wf_auth_fail [OF s1] wf_finish [OF s1]
    by (simp add: decrypt_multi_def Let_def case_prod_beta split: option.splits if_splits)
qed

lemma wf_rx_entry:
  assumes "s2_wf s" and "rx_entry enc con msg s = (fresh, sp, s')"
  shows "s2_wf s' \<and> (\<forall>i. sp = Some i \<longrightarrow> i < SPAN_TABLE_SIZE)"
proof -
  obtain b s1 where v: "S2_verify_seq enc con (byte_at msg 2) s = (b, s1)" by fastforce
  have s1: "s2_wf s1" using wf_verify_seq [OF assms(1) v] .
  obtain i s2 where f: "find_span_by_node enc con s1 = (i, s2)" by fastforce
  have "s2_wf s2" "i < SPAN_TABLE_SIZE" using wf_find_span [OF s1 f] by simp_all
  then show ?thesis using assms v s1 f by (cases b) (auto simp: rx_entry_def split: if_splits)
qed

lemma wf_parse_clear:
  assumes "s2_wf s" and "\<forall>i. sp = Some i \<longrightarrow> i < SPAN_TABLE_SIZE"
    and "length (fst nn0) = 16" and "length (snd nn0) = 16"
    and "parse_clear enc nn0 con sp msg ml s = (go, h, mp, nn, s')"
  shows "ext_acc_ok (mp, nn, s')"
proof (cases "byte_at msg 3 AND 1 \<noteq> 0")
  case True
  then have pe: "parse_ext enc con sp msg ml 4 (None, nn0, s) = (go, h, mp, nn, s')"
    using assms(5) by (simp add: parse_clear_def)
  show ?thesis by (rule wf_parse_ext [OF _ assms(2) pe]) (use assms in simp)
qed (use assms in \<open>simp add: parse_clear_def\<close>)

lemma wf_decrypt:
  assumes "s2_wf s" and "length (fst nn0) = 16" and "length (snd nn0) = 16"
    and "S2_decrypt_msg enc nn0 con msg ml s = (rc, con', pl, n, s')"
  shows "s2_wf s'"
proof -
  obtain fresh sp s1 where r: "rx_entry enc con msg s = (fresh, sp, s1)" by (cases "rx_entry enc con msg s")
  have s1: "s2_wf s1" "\<forall>i. sp = Some i \<longrightarrow> i < SPAN_TABLE_SIZE" using wf_rx_entry [OF assms(1) r] by simp_all
  obtain go h mp nn s2 where p: "parse_clear enc nn0 con sp msg ml s1 = (go, h, mp, nn, s2)"
    by (cases "parse_clear enc nn0 con sp msg ml s1")
  have s2: "ext_acc_ok (mp, nn, s2)" using wf_parse_clear [OF s1 assms(2,3) p] .
  have d: "(if ml < 12 then (PARSE_FAIL, con, [], 0, s)
     else if \<not> fresh then (SEQUENCE_FAIL, con, [], 0, s1)
     else if \<not> go then (PARSE_FAIL, con, [], 0, s2)
     else case sp of
       None \<Rightarrow> decrypt_multi enc con mp (byte_at msg 3) msg ml h s2
     | Some i \<Rightarrow> decrypt_single enc con i mp nn (byte_at msg 3) msg ml h s2) = (rc, con', pl, n, s')"
    using assms(4) by (simp only: decrypt_msg_eq [OF r p])
  show ?thesis
  proof (cases "\<not> ml < 12 \<and> fresh \<and> go")
    case False
    then show ?thesis using d assms(1) s1(1) s2 by (auto split: if_splits)
  next
    case True
    show ?thesis
    proof (cases sp)
      case None
      then have "decrypt_multi enc con mp (byte_at msg 3) msg ml h s2 = (rc, con', pl, n, s')" using True d by simp
      then show ?thesis using s2 wf_decrypt_multi by (metis ext_acc_ok.simps)
    next
      case (Some i)
      then have "decrypt_single enc con i mp nn (byte_at msg 3) msg ml h s2 = (rc, con', pl, n, s')"
        using True d by simp
      then show ?thesis by (rule wf_decrypt_single [rotated 5]) (use s1 s2 Some in simp_all)
    qed
  qed
qed

lemma wf_enter: "s2_wf s \<Longrightarrow> s2_wf (send_msg_state_enter enc ok s)"
  by (simp add: send_msg_state_enter_def Let_def wf_encrypt wf_intros)

lemma wf_idle:
  assumes "s2_wf s"
  shows "s2_wf (fsm_idle enc ok e s)"
proof (cases e)
  case (SEND_MSG con buf)
  obtain b s1 where so: "S2_span_ok enc con s = (b, s1)" by fastforce
  have "s2_wf s1" using wf_span_ok [OF assms so] .
  then show ?thesis using SEND_MSG so
    by (cases b) (simp_all add: fsm_idle_def wf_enter wf_nonce_get wf_intros)
next
  case (SEND_MULTICAST con buf)
  let ?s = "S2_set_peer con buf (length buf) s"
  obtain mp s1 where f: "find_mpan_by_group_id enc 0 (ucast (r_node con)) True ?s = (mp, s1)" by fastforce
  have "s2_wf s1 \<and> (\<forall>m. mp = Some m \<longrightarrow> m < MPAN_TABLE_SIZE)" by (rule wf_find_mpan [OF _ f]) (simp add: assms wf_intros)
  then have "s2_wf (s1\<lparr>mpan_ptr := mp, fsm := SENDING_MSG\<rparr>)" by (simp add: s2_wf_def)
  then show ?thesis using SEND_MULTICAST f by (simp add: fsm_idle_def wf_encrypt_multi)
next
  case (GOT_NONCE_GET con buf len)
  obtain b s1 where v: "S2_verify_seq enc con (byte_at buf 2) s = (b, s1)" by fastforce
  have "s2_wf s1" using wf_verify_seq [OF assms v] .
  then show ?thesis using GOT_NONCE_GET v assms by (cases b) (simp_all add: fsm_idle_def wf_nonce_report)
next
  case (GOT_NONCE_RAPORT con buf len)
  obtain fl s1 where r: "S2_register_nonce enc buf len (S2_set_peer con buf len s) = (fl, s1)" by fastforce
  have "s2_wf s1" by (rule wf_register_nonce [OF _ r]) (simp add: assms wf_intros)
  then show ?thesis using GOT_NONCE_RAPORT r
    by (simp add: fsm_idle_def emit_S2_synchronization_event_def wf_intros)
qed (use assms in \<open>simp_all add: fsm_idle_def Let_def wf_nonce_report wf_intros\<close>)

lemma wf_post_event:
  assumes "s2_wf s"
  shows "s2_wf (S2_fsm_post_event enc ok e s)"
proof -
  have reg: "s2_wf s1" if "S2_register_nonce enc buf len s = (fl, s1)" for buf len fl s1
    using wf_register_nonce [OF assms that] .
  have "s2_wf (fsm_wait_nonce enc ok e s)"
    using assms by (cases e)
      (auto simp: fsm_wait_nonce_def emit_S2_synchronization_event_def wf_enter wf_intros dest: reg split: prod.split)
  moreover have "s2_wf (fsm_sending e s)"
    using assms by (cases e) (simp_all add: fsm_sending_def emit_S2_synchronization_event_def wf_intros)
  moreover have "s2_wf (fsm_verifying enc ok e s)"
    using assms by (cases e)
      (auto simp: fsm_verifying_def emit_S2_synchronization_event_def Let_def wf_enter wf_intros dest: reg split: prod.split)
  ultimately show ?thesis
    using assms wf_idle [OF assms] by (cases "fsm s") (simp_all add: S2_fsm_post_event_def wf_intros)
qed

lemma wf_all_cast: "s2_wf s \<Longrightarrow> s2_wf (snd (S2_send_data_all_cast enc ok con buf ev s))"
proof -
  assume s: "s2_wf s"
  have "s2_wf (emit (Send_accepted con) s)" using s by (simp add: wf_intros)
  then show ?thesis using s wf_lookup(1)
    by (cases ev) (auto simp: S2_send_data_all_cast_def Let_def wf_post_event wf_update split: option.split)
qed

lemma wf_deliver: "s2_wf s \<Longrightarrow> s2_wf (deliver enc ok cmds src pl n s)"
  by (simp add: deliver_def Let_def S2_send_data_def wf_all_cast wf_intros)

lemma wf_handler:
  assumes "s2_wf s" and "length (fst nn0) = 16" and "length (snd nn0) = 16"
  shows "s2_wf (S2_application_command_handler enc ok1 ok2 nn0 cmds src buf len s)"
proof -
  obtain b s1 where v: "S2_verify_seq enc src (byte_at buf 2) s = (b, s1)" by fastforce
  obtain rc src' pl n s2 where d: "S2_decrypt_msg enc nn0 src buf len s = (rc, src', pl, n, s2)"
    by (cases "S2_decrypt_msg enc nn0 src buf len s")
  have "s2_wf s1" "s2_wf s2" using wf_verify_seq [OF assms(1) v] wf_decrypt [OF assms d] .
  then show ?thesis using assms(1) v d
    by (cases b; cases rc)
      (simp_all add: S2_application_command_handler_def wf_nonce_report wf_post_event wf_deliver wf_intros)
qed

lemma wf_key_update: "s2_wf s \<Longrightarrow> length key = 16 \<Longrightarrow> s2_wf (snd (S2_network_key_update enc c key t s))"
  using generic_expand_lengths [of key]
  by (auto simp: S2_network_key_update_def Let_def s2_wf_def list_all_length nth_list_update keys_ok_def
      tempkey_expand_def networkkey_expand_def)

lemma wf_step: "s2_wf s \<Longrightarrow> input_ok inp \<Longrightarrow> s2_wf (s2_step enc cmds inp s)"
  by (cases inp) (auto simp: s2_step_def S2_send_data_def S2_send_frame_done_notify_def S2_timeout_notify_def
      wf_all_cast wf_post_event wf_handler wf_key_update wf_intros)

lemma wf_init:
  assumes "drbg_ok g" and "\<And>k key. keystore k = Some key \<Longrightarrow> length key = 16"
  shows "s2_wf (S2_init_ctx enc keystore home g)"
proof -
  have keys: "s2_wf s \<Longrightarrow> s2_wf (fold (\<lambda>(k, slot) s. case keystore k of
            Some key \<Rightarrow> snd (S2_network_key_update enc slot key False s) | None \<Rightarrow> s) xs s)" for xs s
    using assms(2) by (induction xs arbitrary: s) (auto simp: wf_key_update split: option.split)
  have "s2_wf (zero_ctx home g)"
    using assms(1) by (simp add: s2_wf_def zero_ctx_def zero_keys_def zero_span_def zero_mpan_def keys_ok_def
        drbg_ok_def zero_drbg_def list_all_length)
  then show ?thesis by (simp only: S2_init_ctx_def s2_restore_keys_def keys wf_update)
qed

lemma reachable_wf: "s2_reachable enc cmds s \<Longrightarrow> s2_wf s"
  by (induction rule: s2_reachable.induct) (simp_all add: wf_init wf_step)

end

section \<open>Reachable contexts\<close>

text \<open>
  Every context that can arise has lists and keys of the sizes that the lemmas on messages assume. (An update
  of a list outside its bounds leaves the list as it is, so this says nothing about the indices
  that the code computes.)
\<close>

lemma s2_contexts_well_formed:
  assumes "s2_reachable AES128_ECB_encrypt cmds s"
  shows "s2_wf s"
  using assms by (rule aes.reachable_wf)

lemma busy_ctx_well_formed: "fsm busy_ctx = SENDING_MSG \<and> s2_wf busy_ctx"
  using s2_contexts_well_formed [OF busy_ctx_reachable] busy_ctx_core by (simp add: core_def)

end
