(* ===== verification/S2_Channel.thy ===== *)
theory S2_Channel
  imports S2_Secure
begin

text \<open>
  The Security 2 transport as a channel between two contexts: what a message that is accepted proves,
  delivery of a stream of messages between synchronised contexts, the nonces of multicast messages, and
  the memory bounds of message construction.
\<close>

section \<open>Multicast nonces\<close>

lemma low_byte: "ucast ((t :: u16) AND 0xFF) = (ucast t :: byte)"
proof -
  have m: "(0xFF :: u16) = mask 8" by (simp add: mask_eq_exp_minus_1)
  show ?thesis unfolding m by (rule bit_word_eqI) (auto simp: bit_simps)
qed

lemma high_byte_0: "drop_bit 8 (ucast (a :: byte) :: u16) = 0"
  by (rule bit_word_eqI) (auto simp: bit_simps dest: bit_imp_le_length)

lemma byte_u16_byte: "ucast (ucast (a :: byte) :: u16) = a"
  by (rule bit_word_eqI) (auto simp: bit_simps)

lemma bigint_add_one:
  "length xs = n \<Longrightarrow> fst (bigint_add 0 (xs @ [b]) (replicate n 0 @ [1])) = xs @ [b + 1]"
proof (induction xs arbitrary: n)
  case Nil
  have "unat (ucast ((ucast b :: u16) + 1) :: byte) = unat (b + 1)"
    by (simp add: unsigned_ucast_eq take_bit_eq_mod unat_word_ariths mod_mod_cancel)
  then have "(ucast ((ucast b :: u16) + 1) :: byte) = b + 1" by (simp add: word_unat_eq_iff)
  then show ?case using Nil by (simp add: Let_def low_byte)
next
  case (Cons a xs)
  then obtain k where "n = Suc k" "length xs = k" by auto
  with Cons.IH [of k] show ?case by (simp add: Let_def case_prod_beta low_byte high_byte_0 byte_u16_byte)
qed

text \<open>Only the last byte of the 16-byte state moves.\<close>

lemma next_mpan_eq:
  assumes "length (inner_state m) = 16"
  shows "next_mpan_state m = m\<lparr>inner_state := butlast (inner_state m) @ [last (inner_state m) + 1]\<rparr>"
proof -
  have "inner_state m = butlast (inner_state m) @ [last (inner_state m)]" using assms by (cases "inner_state m = []") auto
  then show ?thesis
    using bigint_add_one [of "butlast (inner_state m)" 15 "last (inner_state m)"] assms by (simp add: next_mpan_state_def)
qed

lemma next_mpan_iter:
  assumes "length (inner_state m) = 16"
  shows "(next_mpan_state ^^ k) m = m\<lparr>inner_state := butlast (inner_state m) @ [last (inner_state m) + of_nat k]\<rparr>"
proof (induction k)
  case 0
  have "inner_state m = butlast (inner_state m) @ [last (inner_state m)]" using assms by (cases "inner_state m = []") auto
  then show ?case by simp
next
  case (Suc k)
  then show ?case using assms by (simp add: next_mpan_eq add.assoc add.commute)
qed

section \<open>Construction of messages\<close>

lemma make_aad_prefix: "take hl msg = take hl msg' \<Longrightarrow> S2_make_aad h a b msg hl ml = S2_make_aad h a b msg' hl ml"
proof -
  assume eq: "take hl msg = take hl msg'"
  have "take (hl - 2) (drop 2 m) = drop 2 (take hl m)" for m :: buffer by (simp add: drop_take)
  then show ?thesis using eq by (simp add: S2_make_aad_def)
qed

lemma make_aad_append: "length H = hl \<Longrightarrow> S2_make_aad h a b (H @ X) hl ml = S2_make_aad h a b H hl ml"
  by (rule make_aad_prefix) simp

text \<open>The frame that a multicast transmission hands to the radio, and its effect on the group.\<close>

definition multi_header :: "s2 \<Rightarrow> nat \<Rightarrow> buffer" where
  "multi_header s m = [0x9F, 3, 0xFF, 1, 3, 0x43, group_id (mpan_table s ! m)]"

definition multi_frame :: "(buffer \<Rightarrow> buffer \<Rightarrow> buffer) \<Rightarrow> s2 \<Rightarrow> nat \<Rightarrow> buffer" where
  "multi_frame enc s m =
     (let mp = mpan_table s ! m; ks = sg_at s (mp_class mp)
      in multi_header s m @ snd (CCM_encrypt_and_auth enc (ccm_key ks) (enc (inner_state mp) (mpan_key ks))
           (S2_make_aad (my_home_id s) (l_node (peer s)) (r_node (peer s)) (multi_header s m) 7
              (length (tx_data s) + 15)) (tx_data s)))"

lemma wr_wr: "wr (length h) d (wr 0 h b) = h @ d @ drop (length h + length d) b"
  by (simp add: wr_def add.commute)

text \<open>One accepted multicast transmission of the payload \<open>p\<close> to the current group.\<close>

definition multi_send :: "(buffer \<Rightarrow> buffer \<Rightarrow> buffer) \<Rightarrow> buffer \<Rightarrow> s2 \<Rightarrow> s2" where
  "multi_send enc p s = S2_encrypt_and_send_multi enc True (s\<lparr>tx_data := p\<rparr>)"

lemmas ctx_defs = emit_def upd_mpan_def upd_span_def write_wb_def modify_wb_def check_class_def check_aad_def

lemma sg_at_cong: "sg s = sg s' \<Longrightarrow> sg_at s c = sg_at s' c"
  by (simp add: sg_at_def)

context block_cipher
begin

lemma length_encrypt:
  assumes "length key = 16" and "13 \<le> length nonce" and "length P < 65536"
  shows "fst (CCM_encrypt_and_auth enc key nonce aad P) = length P + 8"
    and "length (snd (CCM_encrypt_and_auth enc key nonce aad P)) = length P + 8"
  using assms no_of_blocks_bounds(1) [of "length P"]
  by (simp_all add: encrypt_eq length_ks_upto length_ctr_key_stream length_ccm_mac)

lemma encrypt_multi_effect:
  assumes "mpan_ptr s = Some m" and "s2_wf s" and "length (tx_data s) \<le> 1280"
  defines "s' \<equiv> S2_encrypt_and_send_multi enc True s"
  shows "outs s' = Send_frame_multi (peer s) (multi_frame enc s m) True # outs s"
    and "mpan_table s' = (mpan_table s)[m := next_mpan_state (mpan_table s ! m)]"
    and "mpan_ptr s' = Some m" and "sg s' = sg s" and "my_home_id s' = my_home_id s" and "peer s' = peer s"
proof -
  let ?mp = "mpan_table s ! m" and ?H = "multi_header s m" and ?d = "tx_data s"
  let ?ks = "sg_at s (mp_class ?mp)"
  let ?nonce = "enc (inner_state ?mp) (mpan_key ?ks)"
  let ?s1 = "write_wb 7 ?d (write_wb 0 ?H s)"
  have m: "m < MPAN_TABLE_SIZE" and inner: "length (inner_state ?mp) = 16"
    using assms(1,2) by (auto simp: s2_wf_def list_all_length)
  have ks: "keys_ok ?ks" by (rule sg_ok [OF assms(2)])
  have nonce: "length ?nonce = 16" using ks inner by (simp add: keys_ok_def enc_length)
  have H: "length ?H = 7" by (simp add: multi_header_def)
  have wb1: "workbuf ?s1 = ?H @ ?d @ drop (7 + length ?d) (workbuf s)"
    using wr_wr [of ?H ?d "workbuf s"] H by (simp add: write_wb_def)
  define aad where "aad = S2_make_aad (my_home_id s) (l_node (peer s)) (r_node (peer s)) ?H 7 (length ?d + 15)"
  have aad1: "S2_make_aad (my_home_id ?s1) (l_node (peer ?s1)) (r_node (peer ?s1)) (workbuf ?s1) 7
      (length (tx_data ?s1) + 7 + AUTH_TAG_LEN) = aad"
    unfolding wb1 make_aad_append [OF H] by (simp add: aad_def write_wb_def add.commute)
  obtain n ct where e: "CCM_encrypt_and_auth enc (ccm_key ?ks) ?nonce aad ?d = (n, ct)" by fastforce
  have n: "n = length ?d + 8" and ct: "length ct = length ?d + 8"
    using length_encrypt [of "ccm_key ?ks" ?nonce ?d aad] e ks nonce assms(3) by (simp_all add: keys_ok_def)
  have Heq: "[0x9F, 3, 0xFF, 1, 3, 0x43, group_id ?mp] = ?H" by (simp add: multi_header_def)
  have sg1: "sg_at ?s1 c = sg_at s c" for c by (rule sg_at_cong) (simp add: write_wb_def)
  define s2 where "s2 = check_class (mp_class ?mp) (check_aad aad (upd_mpan m next_mpan_state ?s1))"
  have wb2: "workbuf s2 = ?H @ ?d @ drop (7 + length ?d) (workbuf s)" using wb1 by (simp add: s2_def ctx_defs)
  have d: "take (length (tx_data ?s1)) (drop 7 (workbuf s2)) = ?d" unfolding wb2 by (simp add: H write_wb_def)
  define s3 where "s3 = write_wb 7 ct s2"
  have wb3: "workbuf s3 = ?H @ ct @ drop (length ct) (?d @ drop (7 + length ?d) (workbuf s))"
    unfolding s3_def write_wb_def wr_def by (simp add: wb2 H)
  have s': "s' = emit (Send_frame_multi (peer s3) (take (n + 7) (workbuf s3)) True)
      (s3\<lparr>workbuf := take WORKBUF_BYTES (workbuf s3)\<rparr>)"
    unfolding s'_def S2_encrypt_and_send_multi_def assms(1) option.case Let_def Heq aad1 sg1
      s2_def [symmetric] d e prod.case s3_def [symmetric] by simp
  have "take (n + 7) (workbuf s3) = multi_frame enc s m"
    unfolding wb3 multi_frame_def Let_def aad_def [symmetric] e by (simp add: H n ct)
  moreover have "peer s3 = peer s" by (simp add: s3_def s2_def ctx_defs)
  ultimately show "outs s' = Send_frame_multi (peer s) (multi_frame enc s m) True # outs s"
    unfolding s' by (simp add: emit_def) (simp add: s3_def s2_def ctx_defs)
  show "mpan_table s' = (mpan_table s)[m := next_mpan_state ?mp]" "mpan_ptr s' = Some m" "sg s' = sg s"
    "my_home_id s' = my_home_id s" "peer s' = peer s"
    unfolding s' using assms(1) by (simp_all add: s3_def s2_def ctx_defs)
qed


lemma multicast_run:
  assumes "mpan_ptr s = Some m" and "s2_wf s" and "\<forall>p\<in>set ps. length p \<le> 1280"
  defines "s' \<equiv> fold (multi_send enc) ps s"
  shows "mpan_ptr s' = Some m \<and> s2_wf s' \<and> sg s' = sg s \<and> my_home_id s' = my_home_id s \<and> peer s' = peer s \<and>
    mpan_table s' ! m = (next_mpan_state ^^ length ps) (mpan_table s ! m)"
  using assms(1-3) unfolding s'_def
proof (induction ps arbitrary: s)
  case (Cons p ps)
  let ?s = "S2_encrypt_and_send_multi enc True (s\<lparr>tx_data := p\<rparr>)"
  have s: "s2_wf (s\<lparr>tx_data := p\<rparr>)" "mpan_ptr (s\<lparr>tx_data := p\<rparr>) = Some m" "length (tx_data (s\<lparr>tx_data := p\<rparr>)) \<le> 1280"
    using Cons.prems by (simp_all add: wf_intros)
  note e = encrypt_multi_effect [OF s(2,1,3)]
  have m: "m < length (mpan_table s)" using Cons.prems by (auto simp: s2_wf_def)
  have "s2_wf ?s" by (rule wf_encrypt_multi [OF s(1)])
  then show ?case using Cons.IH [of ?s] e m Cons.prems(3) by (simp add: funpow_swap1 multi_send_def)
qed simp

lemma multi_frame_body:
  assumes "s2_wf s" and "mpan_ptr s = Some m" and "length (tx_data s) \<le> 1280"
  shows "take (length (tx_data s)) (drop 7 (multi_frame enc s m)) =
    xor_bytes (tx_data s) (ks_upto enc (ccm_key (sg_at s (mp_class (mpan_table s ! m))))
      (enc (inner_state (mpan_table s ! m)) (mpan_key (sg_at s (mp_class (mpan_table s ! m)))))
      (no_of_blocks (length (tx_data s))))"
proof -
  let ?mp = "mpan_table s ! m"
  let ?ks = "sg_at s (mp_class ?mp)"
  have ks: "keys_ok ?ks" by (rule sg_ok [OF assms(1)])
  moreover have "length (inner_state ?mp) = 16" using assms(1,2) by (auto simp: s2_wf_def list_all_length)
  ultimately have nonce: "length (enc (inner_state ?mp) (mpan_key ?ks)) = 16" by (simp add: keys_ok_def enc_length)
  show ?thesis
    using ks nonce assms(3) no_of_blocks_bounds(1) [of "length (tx_data s)"]
    by (simp add: multi_frame_def Let_def multi_header_def encrypt_eq keys_ok_def length_ks_upto)
qed

end

lemma xor_bytes_common:
  assumes "length P = length Q" and "length P \<le> length K"
  shows "xor_bytes (xor_bytes P K) (xor_bytes Q K) = xor_bytes P Q"
  using assms by (intro nth_equalityI) (simp_all add: nth_xor_bytes xor.left_commute xor.commute xor.assoc)

lemma mpan_nonces_differ:
  assumes "s2_wf s" and "mpan_ptr s = Some m" and "0 < k" and "k < 256"
  shows "AES128_ECB_encrypt (inner_state ((next_mpan_state ^^ k) (mpan_table s ! m))) (mpan_key (sg_at s c)) \<noteq>
      AES128_ECB_encrypt (inner_state (mpan_table s ! m)) (mpan_key (sg_at s c))"
proof -
  let ?mp = "mpan_table s ! m"
  have inner: "length (inner_state ?mp) = 16" using assms(1,2) by (auto simp: s2_wf_def list_all_length)
  have "unat (of_nat k :: byte) = k" using assms(4) by simp
  then have "(of_nat k :: byte) \<noteq> 0" using assms(3) by auto
  then have "last (inner_state ((next_mpan_state ^^ k) ?mp)) \<noteq> last (inner_state ?mp)"
    by (simp add: next_mpan_iter [OF inner])
  then have "inner_state ((next_mpan_state ^^ k) ?mp) \<noteq> inner_state ?mp" by metis
  moreover have "length (inner_state ((next_mpan_state ^^ k) ?mp)) = 16" using inner by (simp add: next_mpan_iter [OF inner])
  moreover have "length (mpan_key (sg_at s c)) = 16" using sg_ok [OF assms(1)] by (simp add: keys_ok_def)
  ultimately show ?thesis using aes.enc_inj inner by blast
qed

section \<open>Authenticity of accepted messages\<close>

text \<open>Decryption does not touch the keys.\<close>

definition keyring :: "s2 \<Rightarrow> s2_keyset list \<times> byte \<times> u32" where
  "keyring s = (sg s, loaded_keys s, my_home_id s)"

named_theorems keyring_simps \<open>operations that leave the keys alone\<close>

lemma keyring_update [keyring_simps]:
  "keyring (s\<lparr>prng := g\<rparr>) = keyring s" "keyring (s\<lparr>mos_list := ml\<rparr>) = keyring s"
  "keyring (s\<lparr>workbuf := wb\<rparr>) = keyring s" "keyring (upd_span i f s) = keyring s"
  "keyring (upd_mpan i h s) = keyring s" "keyring (check_class c s) = keyring s" "keyring (check_aad a s) = keyring s"
  "keyring (write_wb off xs s) = keyring s" "keyring (emit e s) = keyring s"
  by (simp_all add: keyring_def ctx_defs)

lemma keyring_find_span [keyring_simps]: "keyring (snd (find_span_by_node enc con s)) = keyring s"
  by (simp add: find_span_by_node_def Let_def keyring_simps split: option.split prod.split)

lemma keyring_find_mpan [keyring_simps]: "keyring (snd (find_mpan_by_group_id enc ow gid cr s)) = keyring s"
  by (simp add: find_mpan_by_group_id_def Let_def keyring_simps split: option.split prod.split)

lemma keyring_verify_seq [keyring_simps]: "keyring (snd (S2_verify_seq enc con q s)) = keyring s"
  by (simp add: S2_verify_seq_def Let_def case_prod_beta keyring_simps)

lemma keyring_set_node_mos [keyring_simps]: "keyring (S2_set_node_mos n s) = keyring s"
  by (simp add: S2_set_node_mos_def keyring_simps split: option.split)

lemma keyring_rx_entry: "rx_entry enc con msg s = (fresh, sp, s') \<Longrightarrow> keyring s' = keyring s"
proof -
  obtain b s1 where v: "S2_verify_seq enc con (byte_at msg 2) s = (b, s1)" by fastforce
  then have "keyring s1 = keyring s" using keyring_verify_seq by (metis snd_conv)
  then show "rx_entry enc con msg s = (fresh, sp, s') \<Longrightarrow> ?thesis"
    using v keyring_find_span [of enc con s1] by (cases b) (auto simp: rx_entry_def split: if_splits prod.splits)
qed

lemma keyring_clear_ext: "keyring (snd (snd (snd (clear_ext enc con sp msg pos l acc)))) = keyring (snd (snd acc))"
  by (cases acc) (simp add: clear_ext_def Let_def case_prod_beta keyring_simps split: option.split)

lemma keyring_parse_ext:
  "keyring (snd (snd (snd (snd (parse_ext enc con sp msg msg_len pos acc))))) = keyring (snd (snd acc))"
  by (rule parse_ext_invar [where I = "\<lambda>a. keyring (snd (snd a)) = keyring (snd (snd acc))"])
    (metis keyring_clear_ext snd_conv, rule refl)

lemma keyring_parse_clear: "parse_clear enc nn0 con sp msg ml s = (go, h, mp, nn, s') \<Longrightarrow> keyring s' = keyring s"
  using keyring_parse_ext [of enc con sp msg ml 4 "(None, nn0, s)"] by (auto simp: parse_clear_def split: if_splits)

lemma keyring_sg: "keyring s = keyring s' \<Longrightarrow> sg_at s c = sg_at s' c \<and> key_loaded s c = key_loaded s' c \<and> my_home_id s = my_home_id s'"
  by (simp add: keyring_def sg_at_def key_loaded_def)

text \<open>The header of a message that passed the parser lies inside the message.\<close>

lemma parse_ext_bounds:
  "parse_ext enc con sp msg msg_len pos acc = (True, h, acc') \<Longrightarrow> pos < h \<and> h + 8 \<le> msg_len"
proof (induction enc con sp msg msg_len pos acc rule: parse_ext.induct)
  case (1 enc con sp msg msg_len pos acc)
  let ?l = "unat (byte_at msg pos)"
  obtain go acc1 where c: "clear_ext enc con sp msg pos ?l acc = (go, acc1)"
    by (cases "clear_ext enc con sp msg pos ?l acc")
  have l: "\<not> (msg_len < pos + ?l + 8 \<or> ?l = 0)" and go
    using 1(2) c by (subst (asm) parse_ext.simps; auto simp: Let_def split: if_splits)+
  show ?case
  proof (cases "byte_at msg (pos + 1) AND 0x80 = 0")
    case True
    then show ?thesis using 1(2) c l \<open>go\<close> by (subst (asm) parse_ext.simps) (auto simp: Let_def)
  next
    case False
    then have rest: "parse_ext enc con sp msg msg_len (pos + ?l) acc1 = (True, h, acc')"
      using 1(2) c l \<open>go\<close> by (subst (asm) parse_ext.simps) (simp add: Let_def)
    have "pos + ?l < h \<and> h + 8 \<le> msg_len"
      by (rule 1(1) [OF refl refl l refl c [symmetric] _ _ rest]) (use \<open>go\<close> False in simp_all)
    then show ?thesis by simp
  qed
qed

lemma parse_clear_bounds:
  "parse_clear enc nn0 con sp msg ml s = (True, h, mp, nn, s') \<Longrightarrow> 12 \<le> ml \<Longrightarrow> 4 \<le> h \<and> h + 8 \<le> ml"
  using parse_ext_bounds [of enc con sp msg ml 4 "(None, nn0, s)" h "(mp, nn, s')"]
  by (auto simp: parse_clear_def split: if_splits)

lemma parse_enc_ext_con:
  assumes "parse_enc_ext enc sp dat dl pos (con, s) = (go, h, con', s')"
  shows "con_class con' = con_class con \<and> l_node con' = l_node con"
proof -
  have "con_class (fst acc') = con_class (fst acc) \<and> l_node (fst acc') = l_node (fst acc)"
    if "enc_ext enc sp dat pos l acc = (go, acc')" for pos l go acc acc'
    using that by (cases acc) (auto simp: enc_ext_def split: if_splits option.splits prod.splits)
  then show ?thesis
    using parse_enc_ext_invar [where I = "\<lambda>a. con_class (fst a) = con_class con \<and> l_node (fst a) = l_node con",
        of enc sp dat "(con, s)" dl pos] assms by simp
qed

context block_cipher
begin

lemma try_classes_sound:
  assumes "i < SPAN_TABLE_SIZE" and "length (fst nn) = 16" and "length (snd nn) = 16" and "s2_wf s"
    and "fsm s = IDLE \<Longrightarrow> sp_state (span_table s ! i) \<noteq> SPAN_NEGOTIATED \<Longrightarrow> take l (workbuf s) = ct"
    and "try_classes n enc i aad l nn ct s = (dl, dat, s')" and "dl \<noteq> 0"
  shows "\<exists>nonce. length nonce = 16 \<and> key_loaded s (sp_class (span_table s' ! i)) \<and>
    CCM_decrypt_and_auth enc (ccm_key (sg_at s (sp_class (span_table s' ! i)))) nonce aad ct = (dl, dat)"
  using assms(4-6)
proof (induction n arbitrary: s)
  case 0
  then show ?case using assms(7) by simp
next
  case (Suc n)
  let ?c = "sp_class (span_table s ! i)"
  obtain nonce rng where g: "next_nonce_generate enc (sp_d (span_table s ! i)) = (nonce, rng)" by fastforce
  have nonce: "length nonce = 16" "drbg_ok rng" using nonce_ok [OF sp_d_ok [OF Suc.prems(1) assms(1)] g] by simp_all
  obtain r d where r: "CCM_decrypt_and_auth enc (ccm_key (sg_at s ?c)) nonce aad ct = (r, d)" by fastforce
  have len: "i < length (span_table s)" using Suc.prems(1) assms(1) by (simp add: s2_wf_def)
  define s1 where "s1 = (if key_loaded s ?c then check_class ?c (upd_span i (\<lambda>sp. sp\<lparr>sp_d := rng\<rparr>) s) else s)"
  have s1: "s2_wf s1" "workbuf s1 = workbuf s" "fsm s1 = fsm s" "keyring s1 = keyring s"
    "sp_state (span_table s1 ! i) = sp_state (span_table s ! i)" "i < length (span_table s1)"
    "sp_class (span_table s1 ! i) = ?c"
    using Suc.prems(1) nonce len by (simp_all add: s1_def wf_intros keyring_simps) (simp_all add: ctx_defs)
  show ?case
  proof (cases "key_loaded s ?c \<and> r \<noteq> 0")
    case True
    then have "dl = r" "dat = d" "s' = upd_span i (\<lambda>sp. sp\<lparr>sp_state := SPAN_NEGOTIATED\<rparr>) s1"
      using Suc.prems(3) g r by (simp_all add: Let_def s1_def)
    then have "sp_class (span_table s' ! i) = ?c" using s1 by (simp add: upd_span_def)
    then show ?thesis using True nonce r \<open>dl = r\<close> \<open>dat = d\<close> by auto
  next
    case False
    let ?c' = "if N_SEC_CLASS \<le> unat (?c + 1) then 0 else ?c + 1"
    let ?s2 = "upd_span i (\<lambda>sp. sp\<lparr>sp_class := ?c', sp_d := next_nonce_instantiate enc (fst nn) (snd nn)
      (nonce_pstring (sg_at s1 ?c'))\<rparr>) s1"
    have idle: "fsm s1 = IDLE \<and> sp_state (span_table s1 ! i) \<noteq> SPAN_NEGOTIATED"
      and rec: "try_classes n enc i aad l nn (take l (workbuf s1)) ?s2 = (dl, dat, s')"
      using Suc.prems(3) g r False assms(7)
      by (cases "key_loaded s ?c"; simp add: Let_def s1_def split: if_splits)+
    then have ct: "take l (workbuf s1) = ct" using Suc.prems(2) s1 by simp
    have wf2: "s2_wf ?s2" using s1(1) assms(2,3) by (simp add: wf_intros instantiate_nonce_ok sg_ok)
    have wb2: "take l (workbuf ?s2) = ct" using ct by (simp add: upd_span_def)
    have "keyring ?s2 = keyring s" using s1 by (simp add: keyring_simps)
    note kr = keyring_sg [OF this]
    show ?thesis using Suc.IH [OF wf2 wb2 rec [unfolded ct]] kr by simp
  qed
qed

text \<open>A ciphertext that was accepted is an encryption of what is delivered.\<close>

lemma finish_sound:
  assumes "finish_decrypt enc con sp fl dl dat s = (AUTH_OK, con', pl, n, s')"
    and "length key = 16" and "length nonce = 16" and "length ct < 65536"
    and "CCM_decrypt_and_auth enc key nonce aad ct = (dl, dat)" and "dl \<noteq> 0"
  shows "con_class con' = con_class con \<and> l_node con' = l_node con \<and>
    (\<exists>P h. CCM_encrypt_and_auth enc key nonce aad P = (length ct, ct) \<and> take n pl = drop h P)"
proof -
  obtain h where h: "pl = drop h dat" "n = dl - h" "con_class con' = con_class con" "l_node con' = l_node con"
  proof (cases "fl AND 2 = 0")
    case True
    then show ?thesis using assms(1) by (intro that [of 0]) (simp_all add: finish_decrypt_def)
  next
    case False
    obtain go h c s2 where p: "parse_enc_ext enc sp dat dl 0 (con, s) = (go, h, c, s2)"
      by (cases "parse_enc_ext enc sp dat dl 0 (con, s)")
    then show ?thesis using False assms(1) parse_enc_ext_con [OF p]
      by (intro that [of h]) (auto simp: finish_decrypt_def split: bool.splits)
  qed
  have "CCM_encrypt_and_auth enc key nonce aad (take dl dat) = (length ct, ct)"
    using decrypt_accepts_only_encryptions [OF assms(2) _ _ assms(5,6)] assms(3,4) by simp
  moreover have "take n pl = drop h (take dl dat)" using h by (simp add: drop_take)
  ultimately show ?thesis using h by blast
qed

lemma decrypt_single_sound:
  assumes "s2_wf s" and "i < SPAN_TABLE_SIZE" and "length (fst nn) = 16" and "length (snd nn) = 16"
    and "ml - hl \<le> WORKBUF_BYTES" and "ml = length msg" and "hl \<le> ml"
    and "decrypt_single enc con i mp nn fl msg ml hl s = (AUTH_OK, con', pl, n, s')"
  shows "\<exists>nonce P h. length nonce = 16 \<and> key_loaded s (con_class con') \<and> l_node con' = l_node con \<and>
    (let aad = S2_make_aad (my_home_id s) (r_node con) (l_node con) msg hl ml
     in aad \<noteq> [] \<and> CCM_encrypt_and_auth enc (ccm_key (sg_at s (con_class con'))) nonce aad P = (ml - hl, drop hl msg)) \<and>
    take n pl = drop h P"
proof -
  define aad where "aad = S2_make_aad (my_home_id s) (r_node con) (l_node con) msg hl ml"
  define ct where "ct = take (ml - hl) (drop hl msg)"
  define s2 where "s2 = save_ciphertext i ct (check_aad aad s)"
  obtain dl dat s3 where t: "try_classes N_SEC_CLASS enc i aad (ml - hl) nn ct s2 = (dl, dat, s3)"
    by (cases "try_classes N_SEC_CLASS enc i aad (ml - hl) nn ct s2")
  obtain con4 s4 where f: "note_followup (con\<lparr>con_class := sp_class (span_table s3 ! i)\<rparr>) mp s3 = (con4, s4)"
    by fastforce
  have con4: "con_class con4 = sp_class (span_table s3 ! i)" "l_node con4 = l_node con"
    using f by (auto simp: note_followup_def Let_def split: option.splits)
  have ct: "ct = drop hl msg" "length ct = ml - hl" using assms(6) by (simp_all add: ct_def)
  have "(if sp_state (span_table s ! i) \<noteq> SPAN_NEGOTIATED \<and> sp_state (span_table s ! i) \<noteq> SPAN_INSTANTIATE
       then auth_fail enc con (Some i) mp s
       else if dl = 0 then auth_fail enc con (Some i) mp s3
       else if aad = [] then auth_fail enc con4 (Some i) mp s4
       else finish_decrypt enc con4 (Some i) fl dl dat s4) = (AUTH_OK, con', pl, n, s')"
    using assms(8) unfolding decrypt_single_eq [OF aad_def ct_def t [unfolded s2_def] f] .
  then have st: "sp_state (span_table s ! i) = SPAN_NEGOTIATED \<or> sp_state (span_table s ! i) = SPAN_INSTANTIATE"
    and dl: "dl \<noteq> 0" and aad: "aad \<noteq> []" and fin: "finish_decrypt enc con4 (Some i) fl dl dat s4 = (AUTH_OK, con', pl, n, s')"
    by (auto simp: auth_fail_def Let_def split: if_splits)
  have s2: "s2_wf s2" "keyring s2 = keyring s" "span_table s2 = span_table s" "fsm s2 = fsm s"
    using assms(1) by (simp_all add: s2_def save_ciphertext_def Let_def wf_intros keyring_simps) (simp_all add: ctx_defs)
  have "take (ml - hl) (workbuf s2) = ct" if "fsm s2 = IDLE" "sp_state (span_table s2 ! i) \<noteq> SPAN_NEGOTIATED"
    using that st s2 ct assms(5) by (auto simp: s2_def save_ciphertext_def Let_def ctx_defs wr_def)
  from try_classes_sound [OF assms(2-4) s2(1) this t dl] keyring_sg [OF s2(2)]
  obtain nonce where n: "length nonce = 16" "key_loaded s (sp_class (span_table s3 ! i))"
    "CCM_decrypt_and_auth enc (ccm_key (sg_at s (sp_class (span_table s3 ! i)))) nonce aad ct = (dl, dat)" by auto
  have "length (ccm_key (sg_at s (sp_class (span_table s3 ! i)))) = 16" using sg_ok [OF assms(1)] by (simp add: keys_ok_def)
  from finish_sound [OF fin this n(1) _ n(3) dl] ct assms(5)
  show ?thesis using n aad con4 ct by (auto simp: aad_def Let_def)
qed

lemma decrypt_multi_sound:
  assumes "s2_wf s" and "ml = length msg" and "ml < 65536" and "\<And>m. mp = Some m \<Longrightarrow> m < MPAN_TABLE_SIZE"
    and "decrypt_multi enc con mp fl msg ml hl s = (AUTH_OK, con', pl, n, s')"
  shows "\<exists>m nonce P h. mp = Some m \<and> con_class con' = mp_class (mpan_table s ! m) \<and>
    (let aad = S2_make_aad (my_home_id s) (r_node con) (l_node con') msg hl ml
     in aad \<noteq> [] \<and> CCM_encrypt_and_auth enc (ccm_key (sg_at s (con_class con'))) nonce aad P = (ml - hl, drop hl msg)) \<and>
    length nonce = 16 \<and> take n pl = drop h P"
proof -
  obtain m where m: "mp = Some m" using assms(5) by (cases mp) (auto simp: decrypt_multi_def auth_fail_def Let_def)
  let ?e = "mpan_table s ! m"
  let ?ks = "sg_at s (mp_class ?e)"
  let ?nonce = "enc (inner_state ?e) (mpan_key ?ks)"
  define aad where "aad = S2_make_aad (my_home_id s) (r_node con) (ucast (group_id ?e)) msg hl ml"
  define ct where "ct = take (ml - hl) (drop hl msg)"
  obtain dl dat where d: "CCM_decrypt_and_auth enc (ccm_key ?ks) ?nonce aad ct = (dl, dat)" by fastforce
  define c2 where "c2 = con\<lparr>l_node := ucast (group_id ?e), con_class := mp_class ?e\<rparr>"
  define s1 where "s1 = check_class (mp_class ?e) (check_aad aad (upd_mpan m next_mpan_state s))"
  have aad1: "S2_make_aad (my_home_id s) (r_node (con\<lparr>l_node := ucast (group_id ?e)\<rparr>))
      (l_node (con\<lparr>l_node := ucast (group_id ?e)\<rparr>)) msg hl ml = aad" by (simp add: aad_def)
  have "dl \<noteq> 0 \<and> aad \<noteq> [] \<and> finish_decrypt enc c2 None fl dl dat s1 = (AUTH_OK, con', pl, n, s')"
    using assms(5) unfolding decrypt_multi_def m option.case Let_def aad1 ct_def [symmetric] d prod.case
    by (auto simp: auth_fail_def Let_def c2_def s1_def split: if_splits)
  then have dl: "dl \<noteq> 0" and aad: "aad \<noteq> []" and fin: "finish_decrypt enc c2 None fl dl dat s1 = (AUTH_OK, con', pl, n, s')"
    by simp_all
  have ks: "length (ccm_key ?ks) = 16" "length (mpan_key ?ks) = 16" using sg_ok [OF assms(1)] by (simp_all add: keys_ok_def)
  have inner: "length (inner_state ?e) = 16" using assms(1,4) m by (simp add: s2_wf_def list_all_length)
  have ct: "ct = drop hl msg" "length ct = ml - hl" using assms(2) by (simp_all add: ct_def)
  have nonce: "length ?nonce = 16" using ks inner by (simp add: enc_length)
  have lct: "length ct < 65536" using ct assms(3) by simp
  from finish_sound [OF fin ks(1) nonce lct d dl]
  have con': "con_class con' = mp_class ?e" "l_node con' = ucast (group_id ?e)"
    and ex: "\<exists>P h. CCM_encrypt_and_auth enc (ccm_key ?ks) ?nonce aad P = (length ct, ct) \<and> take n pl = drop h P"
    by (simp_all add: c2_def)
  obtain P h where "CCM_encrypt_and_auth enc (ccm_key ?ks) ?nonce aad P = (ml - hl, drop hl msg)" "take n pl = drop h P"
    using ex ct by auto
  then show ?thesis using m aad nonce con' unfolding Let_def con' aad_def by blast
qed

end

text \<open>For a multicast message only groups of a loaded class are found.\<close>

lemma multicast_group_loaded:
  assumes "rx_options con AND 1 \<noteq> 0" and "parse_clear enc nn0 con None msg ml s = (go, h, Some m, nn, s')"
  shows "key_loaded s' (mp_class (mpan_table s' ! m))"
proof -
  let ?I = "\<lambda>(mp, nn :: buffer \<times> buffer, s). \<forall>m. mp = Some m \<longrightarrow> key_loaded s (mp_class (mpan_table s ! m))"
  have mos: "key_loaded (S2_set_node_mos n s) = key_loaded s" "mpan_table (S2_set_node_mos n s) = mpan_table s" for n s
    by (simp_all add: S2_set_node_mos_def key_loaded_def fun_eq_iff split: option.split)
  have look: "key_loaded s (mp_class (mpan_table s ! i))" if "lookup_mpan ow gid s = Some i" for ow gid s i
    using find_index_Some [OF that [unfolded lookup_mpan_def]] by simp
  have "?I acc'" if "clear_ext enc con None msg pos l acc = (go, acc')" "?I acc" for pos l go acc acc'
    using that assms(1)
    by (auto simp: clear_ext_def Let_def mos find_mpan_by_group_id_def look split: if_splits option.splits)
  then have "?I (snd (snd (parse_ext enc con None msg ml 4 (None, nn0, s))))"
    by (rule parse_ext_invar [where I = ?I]) simp_all
  then show ?thesis using assms(2) by (auto simp: parse_clear_def split: if_splits)
qed

section \<open>Properties\<close>

text \<open>
  C40. The nonce of a multicast group has period 256: \<open>next_mpan_state\<close> adds the constant to the wrong
  end of the number, so the carry is lost and only one byte of the 16 moves. After 256 multicast
  messages the nonce of the first one is used again under the same key, and the exclusive or of the two
  ciphertexts on the air is the exclusive or of the two plaintexts. Within 256 messages the nonces differ.
\<close>

theorem multicast_nonce_repeats:
  assumes "s2_wf s" and "mpan_ptr s = Some m" and "length ps = 255" and "\<forall>p\<in>set ps. length p \<le> 1280"
    and "length P = length Q" and "length P \<le> 1280"
  shows "(\<exists>f g. outs (multi_send AES128_ECB_encrypt P s) = Send_frame_multi (peer s) f True # outs s \<and>
      (let s' = fold (multi_send AES128_ECB_encrypt) (P # ps) s
       in outs (multi_send AES128_ECB_encrypt Q s') = Send_frame_multi (peer s) g True # outs s') \<and>
      xor_bytes (take (length P) (drop 7 f)) (take (length Q) (drop 7 g)) = xor_bytes P Q) \<and>
    (\<forall>k c. 0 < k \<and> k < 256 \<longrightarrow>
      AES128_ECB_encrypt (inner_state ((next_mpan_state ^^ k) (mpan_table s ! m))) (mpan_key (sg_at s c)) \<noteq>
      AES128_ECB_encrypt (inner_state (mpan_table s ! m)) (mpan_key (sg_at s c)))"
proof (intro conjI allI impI)
  let ?mp = "mpan_table s ! m" and ?s' = "fold (multi_send AES128_ECB_encrypt) (P # ps) s"
  let ?sP = "s\<lparr>tx_data := P\<rparr>" and ?sQ = "?s'\<lparr>tx_data := Q\<rparr>"
  have inner: "length (inner_state ?mp) = 16" using assms(1,2) by (auto simp: s2_wf_def list_all_length)
  have "(256 :: byte) = 0" by simp
  then have "(next_mpan_state ^^ 256) ?mp = (next_mpan_state ^^ 0) ?mp" unfolding next_mpan_iter [OF inner] by simp
  then have cycle: "(next_mpan_state ^^ 256) ?mp = ?mp" by simp
  have run: "mpan_ptr ?s' = Some m" "s2_wf ?s'" "sg ?s' = sg s" "my_home_id ?s' = my_home_id s" "peer ?s' = peer s"
    "mpan_table ?s' ! m = ?mp"
    using aes.multicast_run [OF assms(2,1), of "P # ps"] assms(3,4,6) cycle by simp_all
  have wf: "s2_wf ?sP" "s2_wf ?sQ" "mpan_ptr ?sP = Some m" "mpan_ptr ?sQ = Some m"
    "length (tx_data ?sP) \<le> 1280" "length (tx_data ?sQ) \<le> 1280"
    using assms run by (simp_all add: wf_intros)
  let ?f = "multi_frame AES128_ECB_encrypt ?sP m" and ?g = "multi_frame AES128_ECB_encrypt ?sQ m"
  let ?ks = "sg_at s (mp_class ?mp)"
  let ?K = "ks_upto AES128_ECB_encrypt (ccm_key ?ks) (AES128_ECB_encrypt (inner_state ?mp) (mpan_key ?ks)) (no_of_blocks (length P))"
  have sg: "sg_at ?sP = sg_at s" "sg_at ?sQ = sg_at s" using run(3) by (auto simp: sg_at_def)
  have body: "take (length P) (drop 7 ?f) = xor_bytes P ?K" "take (length Q) (drop 7 ?g) = xor_bytes Q ?K"
    using aes.multi_frame_body [OF wf(1,3,5)] aes.multi_frame_body [OF wf(2,4,6)] run(6) sg assms(5) by simp_all
  have ks: "keys_ok ?ks" by (rule sg_ok [OF assms(1)])
  then have "length P \<le> length ?K"
    using inner no_of_blocks_bounds(1) [of "length P"] by (simp add: keys_ok_def aes.length_ks_upto aes.enc_length)
  then have "xor_bytes (take (length P) (drop 7 ?f)) (take (length Q) (drop 7 ?g)) = xor_bytes P Q"
    unfolding body by (rule xor_bytes_common [OF assms(5)])
  moreover have "outs (multi_send AES128_ECB_encrypt P s) = Send_frame_multi (peer s) ?f True # outs s"
    using aes.encrypt_multi_effect(1) [OF wf(3,1,5)] by (simp add: multi_send_def)
  moreover have "outs (multi_send AES128_ECB_encrypt Q ?s') = Send_frame_multi (peer s) ?g True # outs ?s'"
    using aes.encrypt_multi_effect(1) [OF wf(4,2,6)] run(5) by (simp add: multi_send_def)
  ultimately show "\<exists>f g. outs (multi_send AES128_ECB_encrypt P s) = Send_frame_multi (peer s) f True # outs s \<and>
      (let s' = ?s' in outs (multi_send AES128_ECB_encrypt Q s') = Send_frame_multi (peer s) g True # outs s') \<and>
      xor_bytes (take (length P) (drop 7 f)) (take (length Q) (drop 7 g)) = xor_bytes P Q"
    unfolding Let_def by blast
next
  fix k :: nat and c assume "0 < k \<and> k < 256"
  then show "AES128_ECB_encrypt (inner_state ((next_mpan_state ^^ k) (mpan_table s ! m))) (mpan_key (sg_at s c)) \<noteq>
      AES128_ECB_encrypt (inner_state (mpan_table s ! m)) (mpan_key (sg_at s c))"
    using mpan_nonces_differ assms(1,2) by blast
qed

section \<open>Witnesses\<close>

definition group_ctx :: s2 where
  "group_ctx = (zero_ctx 1 zero_drbg)\<lparr>loaded_keys := 1, mpan_ptr := Some 0,
     mpan_table := zero_mpan\<lparr>mp_state := MPAN_SET, group_id := 5, owner_id := 9\<rparr> # replicate 253 zero_mpan\<rparr>"

lemma group_ctx_wf: "s2_wf group_ctx"
  by (simp add: s2_wf_def group_ctx_def zero_ctx_def zero_keys_def zero_span_def zero_mpan_def keys_ok_def
      drbg_ok_def zero_drbg_def list_all_length nth_Cons')

theorem multicast_nonce_repeats_witness:
  "\<exists>f g. outs (multi_send AES128_ECB_encrypt [1, 2] group_ctx) = [Send_frame_multi zero_con f True] \<and>
     (let s' = fold (multi_send AES128_ECB_encrypt) ([1, 2] # replicate 255 [9]) group_ctx
      in outs (multi_send AES128_ECB_encrypt [5, 6] s') = Send_frame_multi zero_con g True # outs s') \<and>
     xor_bytes (take 2 (drop 7 f)) (take 2 (drop 7 g)) = [4, 4]"
proof -
  have s: "peer group_ctx = zero_con" "outs group_ctx = []" "mpan_ptr group_ctx = Some 0"
    by (simp_all add: group_ctx_def zero_ctx_def)
  have "xor_bytes [1, 2] [5, 6 :: byte] = [4, 4]" by (simp add: xor_bytes_def)
  then show ?thesis
    using multicast_nonce_repeats [OF group_ctx_wf s(3), of "replicate 255 [9]" "[1, 2]" "[5, 6]", THEN conjunct1] s
    by (simp add: numeral_2_eq_2)
qed

end
