(* ===== verification/S2_Stream.thy ===== *)
theory S2_Stream
  imports S2_Channel
begin

text \<open>
  Delivery between two contexts of the Security 2 transport. Two contexts are in sync when they share the
  keys of a class and the state of the nonce generator of the pair of nodes; the lemmas follow one
  message from \<open>S2_send_data\<close> of the sender through the frame on the air to the \<open>S2_msg_received_event\<close>
  of the receiver.
\<close>

section \<open>Effect of single operations\<close>

lemma lookup_upd_span:
  assumes "\<And>sp. lnode (f sp) = lnode sp \<and> rnode (f sp) = rnode sp \<and> (sp_state (f sp) = SPAN_NOT_USED \<longleftrightarrow> sp_state sp = SPAN_NOT_USED)"
  shows "lookup_span con (upd_span i f s) = lookup_span con s"
  unfolding lookup_span_def upd_span_def by (simp add: find_index_update assms)

lemma lookup_cong: "span_table s = span_table s' \<Longrightarrow> lookup_span con s = lookup_span con s'"
  by (simp add: lookup_span_def)

lemma find_span_hit: "lookup_span con s = Some i \<Longrightarrow> find_span_by_node enc con s = (i, s)"
  by (simp add: find_span_by_node_def)

lemma upd_span_nth: "i < length (span_table s) \<Longrightarrow> span_table (upd_span i f s) ! i = f (span_table s ! i)"
  by (simp add: upd_span_def)

text \<open>The part of a context that sending and receiving on one SPAN does not touch.\<close>

definition rest :: "s2 \<Rightarrow> s2" where
  "rest s = s\<lparr>span_table := [], workbuf := [], outs := []\<rparr>"

lemma rest_simps:
  "rest (upd_span i f s) = rest s" "rest (emit e s) = rest s" "rest (s\<lparr>workbuf := w\<rparr>) = rest s"
  "off + length xs \<le> WORKBUF_BYTES \<Longrightarrow> rest (write_wb off xs s) = rest s"
  "length a \<le> 64 \<Longrightarrow> rest (check_aad a s) = rest s" "unat c < N_SEC_CLASS \<Longrightarrow> rest (check_class c s) = rest s"
  by (simp_all add: rest_def ctx_defs)

lemma rest_sel:
  assumes "rest s = rest s'"
  shows "sg s = sg s'" "loaded_keys s = loaded_keys s'" "my_home_id s = my_home_id s'" "peer s = peer s'"
    "mpan_ptr s = mpan_ptr s'" "mos_list s = mos_list s'" "fsm s = fsm s'" "fault s = fault s'" "prng s = prng s'"
    "tx_data s = tx_data s'" "retry s = retry s'" "mpan_table s = mpan_table s'" "inclusion_idle s = inclusion_idle s'"
  using assms by (cases s; cases s'; simp add: rest_def)+

lemma length_aad: "hl \<le> 56 \<Longrightarrow> length (S2_make_aad h a b msg hl ml) \<le> 64"
  by (auto simp: S2_make_aad_def min_le_iff_disj)

lemma no_mpan_ext:
  assumes "s2_wf s" and "\<forall>e\<in>set (mos_list s). mos_node e \<noteq> r_node (peer s)"
  shows "S2_add_mpan_extensions off s = (0, s)"
proof -
  have "fold add_mpan_ext is (off, 0, s) = (off, 0, s)" if "\<forall>i\<in>set is. i < 3" for "is"
    using that assms by (induction "is") (auto simp: add_mpan_ext_def Let_def s2_wf_def)
  from this [of "[0..<MOS_LIST_LENGTH]"] show ?thesis
    by (simp add: S2_add_mpan_extensions_def del: upt_rec_numeral)
qed

lemma write_nothing: "off \<le> WORKBUF_BYTES \<Longrightarrow> write_wb off [] s = s"
  by (simp add: write_wb_def wr_def)

context block_cipher
begin

lemma seal_effect:
  assumes "s2_wf s" and "lookup_span (peer s) s = Some i" and "workbuf s = H @ D @ R" and "length H = hl"
    and "hl \<le> 56" and "length D + hl + 8 \<le> WORKBUF_BYTES" and "unat (con_class (peer s)) < N_SEC_CLASS"
    and "next_nonce_generate enc (sp_d (span_table s ! i)) = (nonce, rng)"
  defines "s' \<equiv> seal_and_send enc True i hl (length D) s"
    and "F \<equiv> H @ snd (CCM_encrypt_and_auth enc (ccm_key (sg_at s (con_class (peer s)))) nonce
       (S2_make_aad (my_home_id s) (l_node (peer s)) (r_node (peer s)) H hl (length D + hl + 8)) D)"
  shows "outs s' = Send_frame (peer s) F True # outs s" and "rest s' = rest s" and "length F = length D + hl + 8"
    and "span_table s' = (span_table s)[i := (span_table s ! i)\<lparr>sp_d := rng, tx_seq := tx_seq (span_table s ! i) + 1\<rparr>]"
proof -
  let ?c = "con_class (peer s)"
  let ?key = "ccm_key (sg_at s ?c)"
  define aad where "aad = S2_make_aad (my_home_id s) (l_node (peer s)) (r_node (peer s)) H hl (length D + hl + 8)"
  have aad1: "S2_make_aad (my_home_id s) (l_node (peer s)) (r_node (peer s)) (workbuf s) hl (length D + hl + 8) = aad"
    unfolding assms(3) aad_def by (rule make_aad_append [OF assms(4)])
  have i: "i < SPAN_TABLE_SIZE" "i < length (span_table s)"
    using wf_lookup(2) [OF assms(1,2)] assms(1) by (simp_all add: s2_wf_def)
  have nonce: "length nonce = 16" using nonce_ok [OF sp_d_ok [OF assms(1) i(1)] assms(8)] by simp
  have key: "length ?key = 16" using sg_ok [OF assms(1)] by (simp add: keys_ok_def)
  obtain n ct where e: "CCM_encrypt_and_auth enc ?key nonce aad D = (n, ct)" by fastforce
  have n: "n = length D + 8" and ct: "length ct = length D + 8"
    using length_encrypt [of ?key nonce D aad] e key nonce assms(6) by simp_all
  define s1 where "s1 = check_class ?c (check_aad aad (upd_span i (\<lambda>sp. sp\<lparr>sp_d := rng\<rparr>) s))"
  define s2 where "s2 = write_wb hl ct s1"
  have D: "take (length D) (drop hl (workbuf s)) = D" using assms(3,4) by simp
  have "workbuf s1 = H @ D @ R" using assms(3) by (simp add: s1_def ctx_defs)
  then have wb2: "take (n + hl) (workbuf s2) = H @ ct"
    using assms(4) n ct by (simp add: s2_def write_wb_def wr_def)
  have s': "s' = S2_send_raw enc True (H @ ct) (s2\<lparr>workbuf := take WORKBUF_BYTES (workbuf s2)\<rparr>)"
    unfolding s'_def seal_and_send_def Let_def aad1 assms(8) prod.case D e s1_def [symmetric] s2_def [symmetric] wb2 ..
  have F: "F = H @ ct" unfolding F_def aad_def [symmetric] e by simp
  show "length F = length D + hl + 8" using F ct assms(4) by simp
  have r2: "rest s2 = rest s"
    using assms(5-7) ct length_aad [of hl] by (simp add: s2_def s1_def rest_simps aad_def)
  have tab: "span_table s2 = (span_table s)[i := (span_table s ! i)\<lparr>sp_d := rng\<rparr>]" "outs s2 = outs s"
    by (simp_all add: s2_def s1_def ctx_defs)
  let ?s3 = "emit (Send_frame (peer s2) (H @ ct) True) (s2\<lparr>workbuf := take WORKBUF_BYTES (workbuf s2)\<rparr>)"
  have p: "peer s2 = peer s" using rest_sel(4) [OF r2] .
  have "lookup_span (peer s) ?s3 = lookup_span (peer s) (upd_span i (\<lambda>sp. sp\<lparr>sp_d := rng\<rparr>) s)"
    using tab by (intro lookup_cong) (simp add: emit_def upd_span_def)
  then have look: "find_span_by_node enc (peer s) ?s3 = (i, ?s3)"
    using assms(2) by (simp add: find_span_hit lookup_upd_span)
  have s'': "s' = upd_span i (\<lambda>sp. sp\<lparr>tx_seq := tx_seq sp + 1\<rparr>) ?s3"
    unfolding s' S2_send_raw_def Let_def using look p by (simp add: emit_def)
  show "outs s' = Send_frame (peer s) F True # outs s" unfolding s'' F using p tab by (simp add: upd_span_def emit_def)
  show "rest s' = rest s" unfolding s'' using r2 by (simp add: rest_simps)
  show "span_table s' = (span_table s)[i := (span_table s ! i)\<lparr>sp_d := rng, tx_seq := tx_seq (span_table s ! i) + 1\<rparr>]"
    unfolding s'' using tab i by (simp add: upd_span_def emit_def)
qed

text \<open>A message without extensions.\<close>

lemma encrypt_effect:
  assumes "s2_wf s" and "lookup_span (peer s) s = Some i" and "sp_state (span_table s ! i) \<noteq> SPAN_SOS_REMOTE_NONCE"
    and "mpan_ptr s = None" and "\<forall>e\<in>set (mos_list s). mos_node e \<noteq> r_node (peer s)"
    and "length (tx_data s) \<le> 1280" and "unat (con_class (peer s)) < N_SEC_CLASS"
    and "next_nonce_generate enc (sp_d (span_table s ! i)) = (nonce, rng)"
  defines "s' \<equiv> S2_encrypt_and_send enc True s"
    and "H \<equiv> [0x9F, 3, tx_seq (span_table s ! i), 0]"
  defines "F \<equiv> H @ snd (CCM_encrypt_and_auth enc (ccm_key (sg_at s (con_class (peer s)))) nonce
       (S2_make_aad (my_home_id s) (l_node (peer s)) (r_node (peer s)) H 4 (length (tx_data s) + 12)) (tx_data s))"
  shows "outs s' = Send_frame (peer s) F True # outs s" and "rest s' = rest s" and "length F = length (tx_data s) + 12"
    and "span_table s' = (span_table s)[i := (span_table s ! i)\<lparr>sp_d := rng, tx_seq := tx_seq (span_table s ! i) + 1\<rparr>]"
proof -
  let ?s1 = "write_wb 0 H s" and ?D = "tx_data s"
  let ?s2 = "write_wb 4 ?D ?s1"
  have H: "length H = 4" by (simp add: H_def)
  have r: "rest ?s2 = rest s" using assms(6) H by (simp add: rest_simps)
  have t2: "span_table ?s2 = span_table s" "outs ?s2 = outs s" by (simp_all add: write_wb_def)
  have wf1: "s2_wf ?s1" "s2_wf ?s2" using assms(1) by (simp_all add: wf_intros)
  have bh: "build_header enc i s = (4, ?s1)"
  proof -
    have "sp_state (span_table ?s1 ! i) \<noteq> SPAN_SOS_REMOTE_NONCE" "mpan_ptr ?s1 = None"
      using assms(3,4) by (simp_all add: write_wb_def)
    then have "sn_ext enc i ?s1 = ([], ?s1)" "mgrp_ext ?s1 = ([], ?s1)" "mos_ext ?s1 = ([], ?s1)"
      by (simp_all add: sn_ext_def mgrp_ext_def mos_ext_def)
    then show ?thesis
      unfolding build_header_def H_def [symmetric] by (simp add: Let_def write_nothing)
  qed
  have am: "S2_add_mpan_extensions 4 ?s1 = (0, ?s1)"
    by (rule no_mpan_ext [OF wf1(1)]) (use assms(5) in \<open>simp add: write_wb_def\<close>)
  have s': "s' = seal_and_send enc True i 4 (length ?D) ?s2"
    unfolding s'_def S2_encrypt_and_send_def find_span_hit [OF assms(2)] Let_def prod.case bh am
    by (simp add: write_wb_def)
  have wb: "workbuf ?s2 = H @ ?D @ drop (4 + length ?D) (workbuf s)"
    using wr_wr [of H ?D "workbuf s"] H by (simp add: write_wb_def)
  have look: "lookup_span (peer ?s2) ?s2 = Some i"
    using assms(2) rest_sel(4) [OF r] lookup_cong [OF t2(1)] by simp
  have len: "length ?D + 4 + 8 \<le> WORKBUF_BYTES" using assms(6) by simp
  have cls: "unat (con_class (peer ?s2)) < N_SEC_CLASS" using assms(7) rest_sel(4) [OF r] by simp
  have nn: "next_nonce_generate enc (sp_d (span_table ?s2 ! i)) = (nonce, rng)" using assms(8) t2 by simp
  have sg: "sg_at ?s2 c = sg_at s c" for c using rest_sel(1) [OF r] by (simp add: sg_at_def)
  note se = seal_effect [OF wf1(2) look wb H _ len cls nn]
  have "(4::nat) \<le> 56" by simp
  note se = se [OF this, folded s', unfolded sg t2 rest_sel(3,4) [OF r]]
  have "length ?D + 4 + 8 = length ?D + 12" by simp
  note se = se [unfolded this]
  show "outs s' = Send_frame (peer s) F True # outs s" "rest s' = rest s" "length F = length (tx_data s) + 12"
    "span_table s' = (span_table s)[i := (span_table s ! i)\<lparr>sp_d := rng, tx_seq := tx_seq (span_table s ! i) + 1\<rparr>]"
    using se r unfolding F_def by simp_all
qed

text \<open>The class under trial is the right one.\<close>

lemma try_classes_hit:
  assumes "key_loaded s c" and "sp_class (span_table s ! i) = c"
    and "next_nonce_generate enc (sp_d (span_table s ! i)) = (nonce, rng)"
    and "CCM_decrypt_and_auth enc (ccm_key (sg_at s c)) nonce aad ct = (dl, dat)" and "dl \<noteq> 0"
  shows "try_classes (Suc n) enc i aad l nn ct s =
    (dl, dat, upd_span i (\<lambda>sp. sp\<lparr>sp_state := SPAN_NEGOTIATED\<rparr>) (check_class c (upd_span i (\<lambda>sp. sp\<lparr>sp_d := rng\<rparr>) s)))"
  using assms by (simp add: Let_def)

lemma verify_seq_hit:
  assumes "lookup_span con s = Some j" and "2 \<le> rx_seq (span_table s ! j) - q"
  shows "S2_verify_seq enc con q s = (True, upd_span j (\<lambda>sp. sp\<lparr>rx_seq := q\<rparr>) s)"
  using assms by (simp add: S2_verify_seq_def find_span_hit)

lemma decrypt_single_hit:
  fixes con :: s2_connection
  assumes "s2_wf s" and "j < SPAN_TABLE_SIZE"
    and "sp_state (span_table s ! j) = SPAN_NEGOTIATED \<or> sp_state (span_table s ! j) = SPAN_INSTANTIATE"
    and "key_loaded s c" and "sp_class (span_table s ! j) = c" and "unat c < N_SEC_CLASS"
    and "next_nonce_generate enc (sp_d (span_table s ! j)) = (nonce, rng)"
    and "P \<noteq> []" and "length P \<le> 1280" and "hl \<le> 56" and "length H = hl" and "fl AND 2 = 0"
  defines "ct \<equiv> snd (CCM_encrypt_and_auth enc (ccm_key (sg_at s c)) nonce
       (S2_make_aad (my_home_id s) (r_node con) (l_node con) H hl (length P + hl + 8)) P)"
  shows "\<exists>tag s'. decrypt_single enc con j None nn fl (H @ ct) (length (H @ ct)) hl s =
      (AUTH_OK, con\<lparr>con_class := c\<rparr>, P @ tag, length P, s') \<and> rest s' = rest s \<and> outs s' = outs s \<and>
    span_table s' = (span_table s)[j := (span_table s ! j)\<lparr>sp_d := rng, sp_state := SPAN_NEGOTIATED\<rparr>] \<and>
    length ct = length P + 8"
proof -
  define aad where "aad = S2_make_aad (my_home_id s) (r_node con) (l_node con) H hl (length P + hl + 8)"
  have nonce: "length nonce = 16" using nonce_ok [OF sp_d_ok [OF assms(1,2)] assms(7)] by simp
  have key: "length (ccm_key (sg_at s c)) = 16" using sg_ok [OF assms(1)] by (simp add: keys_ok_def)
  have ct: "length ct = length P + 8"
    using length_encrypt(2) [of "ccm_key (sg_at s c)" nonce P aad] key nonce assms(9) by (simp add: ct_def aad_def)
  obtain tag where dec: "CCM_decrypt_and_auth enc (ccm_key (sg_at s c)) nonce aad ct = (length P, P @ tag)"
    using decrypt_encrypt [of "ccm_key (sg_at s c)" nonce P aad] key nonce assms(9) by (auto simp: ct_def aad_def)
  have F: "length (H @ ct) = length P + hl + 8" using ct assms(11) by simp
  have aad1: "aad = S2_make_aad (my_home_id s) (r_node con) (l_node con) (H @ ct) hl (length (H @ ct))"
    unfolding F make_aad_append [OF assms(11)] aad_def ..
  have ct1: "ct = take (length (H @ ct) - hl) (drop hl (H @ ct))" using assms(11) by simp
  let ?s2 = "save_ciphertext j ct (check_aad aad s)"
  have j: "j < length (span_table s)" using assms(1,2) by (simp add: s2_wf_def)
  have s2: "span_table ?s2 = span_table s" "sg_at ?s2 c = sg_at s c" "key_loaded ?s2 c = key_loaded s c" "outs ?s2 = outs s"
    by (simp_all add: save_ciphertext_def Let_def ctx_defs sg_at_def key_loaded_def)
  have r2: "rest ?s2 = rest s"
    using ct assms(9) length_aad [OF assms(10)] by (simp add: save_ciphertext_def Let_def rest_simps aad_def)
  let ?s3 = "upd_span j (\<lambda>sp. sp\<lparr>sp_state := SPAN_NEGOTIATED\<rparr>) (check_class c (upd_span j (\<lambda>sp. sp\<lparr>sp_d := rng\<rparr>) ?s2))"
  have t: "try_classes N_SEC_CLASS enc j aad (length (H @ ct) - hl) nn ct ?s2 = (length P, P @ tag, ?s3)"
    by (rule try_classes_hit [where n = 6 and nonce = nonce, simplified]) (use assms dec s2 in simp_all)
  have tab3: "span_table ?s3 = (span_table s)[j := (span_table s ! j)\<lparr>sp_d := rng, sp_state := SPAN_NEGOTIATED\<rparr>]"
    using j s2(1) by (simp add: upd_span_def check_class_def)
  then have n: "note_followup (con\<lparr>con_class := sp_class (span_table ?s3 ! j)\<rparr>) None ?s3 = (con\<lparr>con_class := c\<rparr>, ?s3)"
    using j assms(5) by (simp add: note_followup_def)
  have "aad \<noteq> []" using assms(10) by (simp add: aad_def S2_make_aad_def)
  then have "decrypt_single enc con j None nn fl (H @ ct) (length (H @ ct)) hl s =
      (AUTH_OK, con\<lparr>con_class := c\<rparr>, P @ tag, length P, ?s3)"
    unfolding decrypt_single_eq [OF aad1 ct1 t n] using assms(3,8,12) by (auto simp: finish_decrypt_def)
  moreover have "rest ?s3 = rest s" "outs ?s3 = outs s"
    using r2 s2(4) assms(6) by (simp_all add: rest_simps) (simp add: ctx_defs)
  ultimately show ?thesis using tab3 ct by blast
qed

lemma decrypt_effect:
  assumes "s2_wf s" and "lookup_span con s = Some j" and "sp_state (span_table s ! j) = SPAN_NEGOTIATED"
    and "key_loaded s c" and "sp_class (span_table s ! j) = c" and "unat c < N_SEC_CLASS" and "rx_options con AND 1 = 0"
    and "next_nonce_generate enc (sp_d (span_table s ! j)) = (nonce, rng)"
    and "2 \<le> rx_seq (span_table s ! j) - q" and "P \<noteq> []" and "length P \<le> 1280"
  defines "H \<equiv> [0x9F, 3, q, 0]"
  defines "F \<equiv> H @ snd (CCM_encrypt_and_auth enc (ccm_key (sg_at s c)) nonce
       (S2_make_aad (my_home_id s) (r_node con) (l_node con) H 4 (length P + 12)) P)"
  shows "\<exists>tag s'. S2_decrypt_msg enc nn0 con F (length F) s = (AUTH_OK, con\<lparr>con_class := c\<rparr>, P @ tag, length P, s') \<and>
    rest s' = rest s \<and> outs s' = outs s \<and>
    span_table s' = (span_table s)[j := (span_table s ! j)\<lparr>rx_seq := q, sp_d := rng, sp_state := SPAN_NEGOTIATED\<rparr>]"
proof -
  let ?s1 = "upd_span j (\<lambda>sp. sp\<lparr>rx_seq := q\<rparr>) s"
  have j: "j < SPAN_TABLE_SIZE" "j < length (span_table s)"
    using wf_lookup(2) [OF assms(1,2)] assms(1) by (simp_all add: s2_wf_def)
  have wf1: "s2_wf ?s1" using assms(1) by (simp add: wf_intros)
  have s1: "span_table ?s1 ! j = (span_table s ! j)\<lparr>rx_seq := q\<rparr>" "my_home_id ?s1 = my_home_id s"
    "sg_at ?s1 c = sg_at s c" "key_loaded ?s1 c = key_loaded s c"
    using j by (simp_all add: upd_span_def sg_at_def key_loaded_def)
  have bytes: "byte_at F 2 = q" "byte_at F 3 = 0" by (simp_all add: F_def H_def byte_at_def)
  have "lookup_span con ?s1 = Some j" using assms(2) by (simp add: lookup_upd_span)
  then have r: "rx_entry enc con F s = (True, Some j, ?s1)"
    using verify_seq_hit [OF assms(2,9)] assms(7) bytes by (simp add: rx_entry_def find_span_hit)
  have p: "parse_clear enc nn0 con (Some j) F (length F) ?s1 = (True, 4, None, nn0, ?s1)"
    using bytes by (simp add: parse_clear_def)
  have Fx: "F = H @ snd (CCM_encrypt_and_auth enc (ccm_key (sg_at ?s1 c)) nonce
       (S2_make_aad (my_home_id ?s1) (r_node con) (l_node con) H 4 (length P + 4 + 8)) P)"
    by (simp add: F_def s1 add.commute)
  have hyps: "sp_state (span_table ?s1 ! j) = SPAN_NEGOTIATED \<or> sp_state (span_table ?s1 ! j) = SPAN_INSTANTIATE"
    "key_loaded ?s1 c" "sp_class (span_table ?s1 ! j) = c" "next_nonce_generate enc (sp_d (span_table ?s1 ! j)) = (nonce, rng)"
    "(4::nat) \<le> 56" "length H = 4" "(0 :: byte) AND 2 = 0"
    using assms s1 by (simp_all add: H_def)
  obtain tag s' where d: "decrypt_single enc con j None nn0 0 F (length F) 4 ?s1 = (AUTH_OK, con\<lparr>con_class := c\<rparr>, P @ tag, length P, s')"
    and s': "rest s' = rest ?s1" "outs s' = outs ?s1" "length F = length P + 12"
      "span_table s' = (span_table ?s1)[j := (span_table ?s1 ! j)\<lparr>sp_d := rng, sp_state := SPAN_NEGOTIATED\<rparr>]"
    using decrypt_single_hit [OF wf1 j(1) hyps(1-3) assms(6) hyps(4) assms(10,11) hyps(5-7), folded Fx, of con nn0] Fx hyps(6)
    by auto
  have "12 \<le> length F" using s'(3) by simp
  then have "S2_decrypt_msg enc nn0 con F (length F) s = (AUTH_OK, con\<lparr>con_class := c\<rparr>, P @ tag, length P, s')"
    unfolding decrypt_msg_eq [OF r p] using d bytes by simp
  moreover have "rest s' = rest s" "outs s' = outs s"
    "span_table s' = (span_table s)[j := (span_table s ! j)\<lparr>rx_seq := q, sp_d := rng, sp_state := SPAN_NEGOTIATED\<rparr>]"
    using s' s1 j by (simp_all add: rest_simps) (simp_all add: upd_span_def)
  ultimately show ?thesis by blast
qed

end

section \<open>Exchange of one message\<close>

text \<open>
  Two contexts in sync for the direction from \<open>A\<close> to \<open>B\<close>; \<open>ca\<close> is the connection at the sender and \<open>cb\<close> the
  one that the radio layer of the receiver hands over.
\<close>

definition in_sync :: "s2_connection \<Rightarrow> s2_connection \<Rightarrow> s2 \<Rightarrow> s2 \<Rightarrow> bool" where
  "in_sync ca cb A B =
     (l_node cb = r_node ca \<and> r_node cb = l_node ca \<and> my_home_id A = my_home_id B \<and>
      unat (con_class ca) < N_SEC_CLASS \<and> key_loaded B (con_class ca) \<and> sg_at A (con_class ca) = sg_at B (con_class ca) \<and>
      (case (lookup_span ca A, lookup_span cb B) of
         (Some i, Some j) \<Rightarrow>
           let a = span_table A ! i; b = span_table B ! j
           in sp_state a = SPAN_NEGOTIATED \<and> sp_state b = SPAN_NEGOTIATED \<and> sp_class a = con_class ca \<and>
              sp_class b = con_class ca \<and> sp_d a = sp_d b \<and> 2 \<le> rx_seq b - tx_seq a
       | _ \<Rightarrow> False))"

text \<open>
  Sender and receiver are idle, the frame is neither a follow-up of a multicast nor to be verified, and
  it was received as singlecast.
\<close>

definition quiet :: "s2_connection \<Rightarrow> s2_connection \<Rightarrow> s2 \<Rightarrow> s2 \<Rightarrow> bool" where
  "quiet ca cb A B =
     (fsm A = IDLE \<and> fsm B = IDLE \<and> mpan_ptr A = None \<and> (\<forall>e\<in>set (mos_list A). mos_node e \<noteq> r_node ca) \<and>
      tx_options ca AND 1 = 0 \<and> rx_options cb AND 1 = 0)"

text \<open>The last frame that a context handed to the radio.\<close>

fun last_frame :: "s2_out list \<Rightarrow> buffer" where
  "last_frame [] = []"
| "last_frame (Send_frame _ f _ # _) = f"
| "last_frame (Send_frame_no_cb _ f # _) = f"
| "last_frame (_ # os) = last_frame os"

definition frame_of :: "s2 \<Rightarrow> buffer" where
  "frame_of s = last_frame (outs s)"

text \<open>
  One message: \<open>A\<close> sends it, its frame reaches \<open>B\<close>, and the radio layer of \<open>A\<close> reports the transmission.
\<close>

definition exchange ::
  "(buffer \<Rightarrow> buffer \<Rightarrow> buffer) \<Rightarrow> (nodeid \<Rightarrow> byte \<Rightarrow> buffer) \<Rightarrow> buffer \<times> buffer \<Rightarrow> s2_connection \<Rightarrow> s2_connection \<Rightarrow>
     buffer \<Rightarrow> s2 \<times> s2 \<Rightarrow> s2 \<times> s2" where
  "exchange enc cmds nn0 ca cb p = (\<lambda>(A, B).
     let A1 = snd (S2_send_data_all_cast enc True ca p CAST_MSG A);
         f = frame_of A1
     in (S2_send_frame_done_notify enc S2_TRANSMIT_COMPLETE_OK 0 A1,
         S2_application_command_handler enc True True nn0 cmds cb f (length f) B))"

definition seen_as :: "s2_connection \<Rightarrow> s2_connection \<Rightarrow> s2_connection" where
  "seen_as ca cb = (let c = cb\<lparr>con_class := con_class ca\<rparr>
     in if IS_LR_NODE (r_node cb) then convert_lr_to_normal_keyclass c else c)"

lemma lookup_simps:
  "lookup_span con (emit e s) = lookup_span con s" "lookup_span con (s\<lparr>fsm := f\<rparr>) = lookup_span con s"
  "lookup_span con (s\<lparr>retry := r\<rparr>) = lookup_span con s" "lookup_span con (S2_set_peer p b l s) = lookup_span con s"
  by (simp_all add: lookup_span_def emit_def S2_set_peer_def)

context block_cipher
begin

text \<open>The sender: state after the call of \<open>S2_send_data_all_cast\<close> and after the report of the radio.\<close>

lemma send_effect:
  assumes "s2_wf A" and "fsm A = IDLE" and "mpan_ptr A = None" and "\<forall>e\<in>set (mos_list A). mos_node e \<noteq> r_node ca"
    and "tx_options ca AND 1 = 0" and "p \<noteq> []" and "length p \<le> 1280" and "unat (con_class ca) < N_SEC_CLASS"
    and "lookup_span ca A = Some i" and "sp_state (span_table A ! i) = SPAN_NEGOTIATED"
    and "sp_class (span_table A ! i) = con_class ca"
    and "next_nonce_generate enc (sp_d (span_table A ! i)) = (nonce, rng)"
  defines "H \<equiv> [0x9F, 3, tx_seq (span_table A ! i), 0]"
    and "A1 \<equiv> snd (S2_send_data_all_cast enc True ca p CAST_MSG A)"
  defines "A' \<equiv> S2_send_frame_done_notify enc S2_TRANSMIT_COMPLETE_OK 0 A1"
  shows "frame_of A1 = H @ snd (CCM_encrypt_and_auth enc (ccm_key (sg_at A (con_class ca))) nonce
       (S2_make_aad (my_home_id A) (l_node ca) (r_node ca) H 4 (length p + 12)) p)"
    and "span_table A' = (span_table A)[i := (span_table A ! i)\<lparr>sp_d := rng, tx_seq := tx_seq (span_table A ! i) + 1\<rparr>]"
    and "fsm A' = IDLE" and "mpan_ptr A' = None" and "mos_list A' = mos_list A" and "keyring A' = keyring A"
    and "fault A' = fault A" and "s2_wf A'"
proof -
  define Y where "Y = (S2_set_peer ca p (length p) (emit (Send_accepted ca) A))\<lparr>retry := 2, fsm := SENDING_MSG\<rparr>"
  have Y: "peer Y = ca" "tx_data Y = p" "span_table Y = span_table A" "mpan_ptr Y = None" "mos_list Y = mos_list A"
    "sg Y = sg A" "my_home_id Y = my_home_id A" "keyring Y = keyring A" "fault Y = fault A" "fsm Y = SENDING_MSG" "s2_wf Y"
    "lookup_span ca Y = Some i"
    using assms(1,3,9) by (simp_all add: Y_def S2_set_peer_def emit_def keyring_def s2_wf_def lookup_span_def)
  have "lookup_span ca (emit (Send_accepted ca) A) = Some i" using assms(9) by (simp add: lookup_simps)
  then have "S2_span_ok enc ca (emit (Send_accepted ca) A) = (True, emit (Send_accepted ca) A)"
    using assms(10,11) by (simp add: S2_span_ok_def find_span_hit) (simp add: emit_def)
  then have A1: "A1 = (S2_encrypt_and_send enc True Y)\<lparr>retry := retry (S2_encrypt_and_send enc True Y) - 1\<rparr>"
    unfolding A1_def using assms(2,5-7)
    by (simp add: S2_send_data_all_cast_def S2_is_send_data_busy_def S2_fsm_post_event_def fsm_idle_def emit_def
        send_msg_state_enter_def Let_def Y_def S2_set_peer_def)
  note ee = encrypt_effect [of Y i nonce rng]
  have e: "outs (S2_encrypt_and_send enc True Y) = Send_frame ca (H @ snd (CCM_encrypt_and_auth enc (ccm_key (sg_at A (con_class ca))) nonce
       (S2_make_aad (my_home_id A) (l_node ca) (r_node ca) H 4 (length p + 12)) p)) True # outs Y"
    "rest (S2_encrypt_and_send enc True Y) = rest Y"
    "span_table (S2_encrypt_and_send enc True Y) = (span_table A)[i := (span_table A ! i)\<lparr>sp_d := rng, tx_seq := tx_seq (span_table A ! i) + 1\<rparr>]"
    using ee(1,2,4) assms Y by (simp_all add: H_def sg_at_cong [OF Y(6)])
  show "frame_of A1 = H @ snd (CCM_encrypt_and_auth enc (ccm_key (sg_at A (con_class ca))) nonce
       (S2_make_aad (my_home_id A) (l_node ca) (r_node ca) H 4 (length p + 12)) p)"
    using e(1) by (simp add: A1 frame_of_def)
  have wf1: "s2_wf A1" unfolding A1 by (intro wf_intros wf_encrypt Y(11))
  have "fsm A1 = SENDING_MSG" using rest_sel(7) [OF e(2)] Y by (simp add: A1)
  then have A': "A' = S2_post_send_done_event 0 (A1\<lparr>fsm := IDLE\<rparr>)"
    by (simp add: A'_def S2_send_frame_done_notify_def S2_fsm_post_event_def fsm_sending_def fsm_send_done_def)
  show "span_table A' = (span_table A)[i := (span_table A ! i)\<lparr>sp_d := rng, tx_seq := tx_seq (span_table A ! i) + 1\<rparr>]"
    "fsm A' = IDLE" "mpan_ptr A' = None" "mos_list A' = mos_list A" "fault A' = fault A"
    using e(3) rest_sel(5,6,8) [OF e(2)] Y by (simp_all add: A' A1 S2_post_send_done_event_def emit_def)
  show "keyring A' = keyring A"
    using rest_sel(1-3) [OF e(2)] Y(8) by (simp add: A' A1 S2_post_send_done_event_def emit_def keyring_def)
  show "s2_wf A'" unfolding A' using wf1 by (simp add: wf_intros)
qed

text \<open>An accepted message of the application is handed to it.\<close>

lemma handler_delivers:
  assumes "S2_decrypt_msg enc nn0 con F (length F) s = (AUTH_OK, con\<lparr>con_class := con_class ca\<rparr>, P @ tag, length P, s1)"
    and "fsm s1 = IDLE" and "P \<noteq> []" and "hd P \<noteq> 0x9F" and "byte_at F 0 = 0x9F" and "byte_at F 1 = 3"
  shows "S2_application_command_handler enc ok1 ok2 nn0 cmds con F (length F) s = emit (Msg_received (seen_as ca con) P) s1"
proof -
  have "byte_at (P @ tag) 0 \<noteq> 0x9F" using assms(3,4) by (cases P) (simp_all add: byte_at_def)
  moreover have "S2_fsm_post_event enc ok1 (GOT_ENC_MSG c) s1 = s1" for c
    using assms(2) by (simp add: S2_fsm_post_event_def fsm_idle_def)
  ultimately show ?thesis
    unfolding S2_application_command_handler_def assms(1) using assms(3,5,6) by (simp add: deliver_def seen_as_def Let_def)
qed

text \<open>The receiver: the handler for the frame.\<close>

lemma receive_effect:
  fixes ok1 ok2 :: bool and nn0 :: "buffer \<times> buffer" and cmds :: "nodeid \<Rightarrow> byte \<Rightarrow> buffer"
  assumes "s2_wf s" and "lookup_span con s = Some j" and "sp_state (span_table s ! j) = SPAN_NEGOTIATED"
    and "key_loaded s (con_class ca)" and "sp_class (span_table s ! j) = con_class ca" and "unat (con_class ca) < N_SEC_CLASS"
    and "rx_options con AND 1 = 0" and "next_nonce_generate enc (sp_d (span_table s ! j)) = (nonce, rng)"
    and "2 \<le> rx_seq (span_table s ! j) - q" and "P \<noteq> []" and "length P \<le> 1280" and "hd P \<noteq> 0x9F" and "fsm s = IDLE"
  defines "H \<equiv> [0x9F, 3, q, 0]"
  defines "F \<equiv> H @ snd (CCM_encrypt_and_auth enc (ccm_key (sg_at s (con_class ca))) nonce
       (S2_make_aad (my_home_id s) (r_node con) (l_node con) H 4 (length P + 12)) P)"
  defines "s' \<equiv> S2_application_command_handler enc ok1 ok2 nn0 cmds con F (length F) s"
  shows "outs s' = Msg_received (seen_as ca con) P # outs s" and "fsm s' = IDLE" and "keyring s' = keyring s" and "fault s' = fault s"
    and "span_table s' = (span_table s)[j := (span_table s ! j)\<lparr>rx_seq := q, sp_d := rng, sp_state := SPAN_NEGOTIATED\<rparr>]"
proof -
  obtain tag s1 where d: "S2_decrypt_msg enc nn0 con F (length F) s =
      (AUTH_OK, con\<lparr>con_class := con_class ca\<rparr>, P @ tag, length P, s1)"
    and s1: "rest s1 = rest s" "outs s1 = outs s"
      "span_table s1 = (span_table s)[j := (span_table s ! j)\<lparr>rx_seq := q, sp_d := rng, sp_state := SPAN_NEGOTIATED\<rparr>]"
    using decrypt_effect [OF assms(1-11), of nn0] unfolding F_def H_def by blast
  have fsm1: "fsm s1 = IDLE" using rest_sel(7) [OF s1(1)] assms(13) by simp
  have "s' = emit (Msg_received (seen_as ca con) P) s1"
    unfolding s'_def by (rule handler_delivers [OF d fsm1 assms(10,12)]) (simp_all add: F_def H_def byte_at_def)
  then show "outs s' = Msg_received (seen_as ca con) P # outs s" "fsm s' = IDLE" "keyring s' = keyring s" "fault s' = fault s"
    "span_table s' = (span_table s)[j := (span_table s ! j)\<lparr>rx_seq := q, sp_d := rng, sp_state := SPAN_NEGOTIATED\<rparr>]"
    using s1 fsm1 rest_sel(1-3,8) [OF s1(1)] by (simp_all add: emit_def keyring_def)
qed

lemma exchange_step:
  assumes "s2_wf A" and "s2_wf B" and "in_sync ca cb A B" and "quiet ca cb A B"
    and "length (fst nn0) = 16" and "length (snd nn0) = 16"
    and "p \<noteq> []" and "length p \<le> 1280" and "hd p \<noteq> 0x9F" and "exchange enc cmds nn0 ca cb p (A, B) = (A', B')"
  shows "outs B' = Msg_received (seen_as ca cb) p # outs B" and "in_sync ca cb A' B'" and "quiet ca cb A' B'"
    and "s2_wf A'" and "s2_wf B'" and "fault A' = fault A" and "fault B' = fault B"
proof -
  obtain i j where ij: "lookup_span ca A = Some i" "lookup_span cb B = Some j"
    using assms(3) by (auto simp: in_sync_def split: option.splits)
  define a b where "a = span_table A ! i" and "b = span_table B ! j"
  have sync: "l_node cb = r_node ca" "r_node cb = l_node ca" "my_home_id A = my_home_id B" "unat (con_class ca) < N_SEC_CLASS"
    "key_loaded B (con_class ca)" "sg_at A (con_class ca) = sg_at B (con_class ca)" "sp_state a = SPAN_NEGOTIATED"
    "sp_state b = SPAN_NEGOTIATED" "sp_class a = con_class ca" "sp_class b = con_class ca" "sp_d a = sp_d b"
    "2 \<le> rx_seq b - tx_seq a"
    using assms(3) ij by (simp_all add: in_sync_def Let_def a_def b_def)
  have q: "fsm A = IDLE" "fsm B = IDLE" "mpan_ptr A = None" "\<forall>e\<in>set (mos_list A). mos_node e \<noteq> r_node ca"
    "tx_options ca AND 1 = 0" "rx_options cb AND 1 = 0" using assms(4) by (simp_all add: quiet_def)
  obtain nonce rng where g: "next_nonce_generate enc (sp_d a) = (nonce, rng)" by fastforce
  have gb: "next_nonce_generate enc (sp_d b) = (nonce, rng)" using g sync by simp
  note se = send_effect [OF assms(1) q(1,3,4,5) assms(7,8) sync(4) ij(1) sync(7) [unfolded a_def] sync(9) [unfolded a_def] g [unfolded a_def]]
  let ?A1 = "snd (S2_send_data_all_cast enc True ca p CAST_MSG A)"
  have A': "A' = S2_send_frame_done_notify enc 0 0 ?A1" and B': "B' = S2_application_command_handler enc True True nn0 cmds cb
      (frame_of ?A1) (length (frame_of ?A1)) B"
    using assms(10) by (simp_all add: exchange_def Let_def)
  note re = receive_effect [OF assms(2) ij(2) sync(8) [unfolded b_def] sync(5) sync(10) [unfolded b_def] sync(4) q(6) gb [unfolded b_def]
      sync(12) [unfolded b_def] assms(7,8,9) q(2), of True True nn0 cmds]
  have "frame_of ?A1 = [0x9F, 3, tx_seq a, 0] @ snd (CCM_encrypt_and_auth enc (ccm_key (sg_at B (con_class ca))) nonce
       (S2_make_aad (my_home_id B) (r_node cb) (l_node cb) [0x9F, 3, tx_seq a, 0] 4 (length p + 12)) p)"
    using se(1) sync by (simp add: a_def)
  note re = re [folded this, folded B']
  show "outs B' = Msg_received (seen_as ca cb) p # outs B" "fault B' = fault B" "fault A' = fault A" "s2_wf A'"
    using re se(7,8) A' by simp_all
  show "s2_wf B'" unfolding B' by (rule wf_handler [OF assms(2,5,6)])
  show "quiet ca cb A' B'" using q re(2) se(3-5) A' by (simp add: quiet_def)
  have ta: "span_table A' = (span_table A)[i := a\<lparr>sp_d := rng, tx_seq := tx_seq a + 1\<rparr>]" using se(2) A' by (simp add: a_def)
  have tb: "span_table B' = (span_table B)[j := b\<lparr>rx_seq := tx_seq a, sp_d := rng, sp_state := SPAN_NEGOTIATED\<rparr>]"
    using re(5) by (simp add: b_def)
  have len: "i < length (span_table A)" "j < length (span_table B)"
    using wf_lookup(2) [OF assms(1) ij(1)] wf_lookup(2) [OF assms(2) ij(2)] assms(1,2) by (simp_all add: s2_wf_def)
  have "lookup_span ca A' = Some i"
    using ij(1) find_index_update [of i "span_table A"] by (simp add: lookup_span_def ta a_def)
  moreover have "lookup_span cb B' = Some j"
    using ij(2) find_index_update [of j "span_table B"] sync(8) by (simp add: lookup_span_def tb b_def)
  moreover have "keyring A' = keyring A" "keyring B' = keyring B" using se(6) re(3) A' by simp_all
  note kr = keyring_sg [OF this(1)] keyring_sg [OF this(2)]
  have "2 \<le> tx_seq a - (tx_seq a + 1)" by simp
  ultimately show "in_sync ca cb A' B'"
    using sync kr len by (simp add: in_sync_def ta tb)
qed

lemma exchange_stream:
  assumes "s2_wf A" and "s2_wf B" and "in_sync ca cb A B" and "quiet ca cb A B"
    and "length (fst nn0) = 16" and "length (snd nn0) = 16"
    and "\<forall>p\<in>set ps. p \<noteq> [] \<and> length p \<le> 1280 \<and> hd p \<noteq> 0x9F"
    and "fold (exchange enc cmds nn0 ca cb) ps (A, B) = (A', B')"
  shows "outs B' = rev (map (Msg_received (seen_as ca cb)) ps) @ outs B \<and> in_sync ca cb A' B' \<and>
    fault A' = fault A \<and> fault B' = fault B"
  using assms
proof (induction ps arbitrary: A B)
  case (Cons p ps)
  obtain A1 B1 where e: "exchange enc cmds nn0 ca cb p (A, B) = (A1, B1)" by fastforce
  have p: "p \<noteq> []" "length p \<le> 1280" "hd p \<noteq> 0x9F" using Cons.prems(7) by simp_all
  note x = exchange_step [OF Cons.prems(1-6) p e]
  have "fold (exchange enc cmds nn0 ca cb) ps (A1, B1) = (A', B')" using Cons.prems(8) e by simp
  then show ?case using Cons.IH [OF x(4,5,2,3) Cons.prems(5,6)] Cons.prems(7) x(1,6,7) by simp
qed simp

end

section \<open>Properties\<close>

text \<open>
  C12. Only authentic messages are accepted: when \<open>S2_decrypt_msg\<close> accepts a message (of at most 1302
  bytes), its bytes behind the header are the CCM encryption, under a network key that is loaded and
  belongs to the class reported to the application, of a plaintext that ends with the delivered payload,
  and the additional data of that encryption are the home id, sender, receiver, total length, sequence
  number, flags and extensions of this very message. This holds for singlecast and multicast messages.
\<close>

theorem s2_accepted_is_authentic:
  assumes "s2_wf s" and "length (fst nn0) = 16" and "length (snd nn0) = 16" and "length msg \<le> WORKBUF_BYTES"
    and "S2_decrypt_msg AES128_ECB_encrypt nn0 con msg (length msg) s = (AUTH_OK, con', pl, n, s')"
  shows "\<exists>hl nonce P h. 4 \<le> hl \<and> hl + 8 \<le> length msg \<and> length nonce = 16 \<and> key_loaded s (con_class con') \<and>
    (rx_options con AND 1 = 0 \<longrightarrow> l_node con' = l_node con) \<and>
    (let aad = S2_make_aad (my_home_id s) (r_node con) (l_node con') msg hl (length msg)
     in aad \<noteq> [] \<and> CCM_encrypt_and_auth AES128_ECB_encrypt (ccm_key (sg_at s (con_class con'))) nonce aad P =
          (length msg - hl, drop hl msg)) \<and>
    take n pl = drop h P"
proof -
  let ?enc = AES128_ECB_encrypt and ?ml = "length msg"
  obtain fresh sp s1 where r: "rx_entry ?enc con msg s = (fresh, sp, s1)" by (cases "rx_entry ?enc con msg s")
  obtain go hl mp nn s2 where p: "parse_clear ?enc nn0 con sp msg ?ml s1 = (go, hl, mp, nn, s2)"
    by (cases "parse_clear ?enc nn0 con sp msg ?ml s1")
  have acc: "12 \<le> ?ml" "fresh" "go"
    and d: "(case sp of None \<Rightarrow> decrypt_multi ?enc con mp (byte_at msg 3) msg ?ml hl s2
      | Some i \<Rightarrow> decrypt_single ?enc con i mp nn (byte_at msg 3) msg ?ml hl s2) = (AUTH_OK, con', pl, n, s')"
    using assms(5) unfolding decrypt_msg_eq [OF r p] by (auto split: if_splits)
  have s1: "s2_wf s1" "\<forall>i. sp = Some i \<longrightarrow> i < SPAN_TABLE_SIZE" using aes.wf_rx_entry [OF assms(1) r] by simp_all
  have s2: "ext_acc_ok (mp, nn, s2)" using aes.wf_parse_clear [OF s1 assms(2,3) p] .
  have hl: "4 \<le> hl" "hl + 8 \<le> ?ml" using parse_clear_bounds [of ?enc nn0 con sp msg ?ml s1 hl mp nn s2] p acc by simp_all
  have kr: "sg_at s2 c = sg_at s c" "key_loaded s2 c = key_loaded s c" "my_home_id s2 = my_home_id s" for c
    using keyring_rx_entry [OF r] keyring_parse_clear [OF p] keyring_sg [of s2 s] by simp_all
  show ?thesis
  proof (cases sp)
    case None
    have mc: "rx_options con AND 1 \<noteq> 0" using r None acc(2) by (auto simp: rx_entry_def split: if_splits prod.splits bool.splits)
    have dm: "decrypt_multi ?enc con mp (byte_at msg 3) msg ?ml hl s2 = (AUTH_OK, con', pl, n, s')" using d None by simp
    have prems: "s2_wf s2" "?ml < 65536" "\<And>m. mp = Some m \<Longrightarrow> m < MPAN_TABLE_SIZE" using s2 assms(4) by simp_all
    from aes.decrypt_multi_sound [OF prems(1) refl prems(2,3) dm]
    obtain m nonce P h where m: "mp = Some m" "con_class con' = mp_class (mpan_table s2 ! m)" "length nonce = 16" "take n pl = drop h P"
      "let aad = S2_make_aad (my_home_id s2) (r_node con) (l_node con') msg hl ?ml
       in aad \<noteq> [] \<and> CCM_encrypt_and_auth ?enc (ccm_key (sg_at s2 (con_class con'))) nonce aad P = (?ml - hl, drop hl msg)"
      by blast
    have "key_loaded s2 (con_class con')" using multicast_group_loaded [OF mc] p None m by simp
    then show ?thesis using m(3-5) hl mc unfolding kr by blast
  next
    case (Some i)
    then have ds: "decrypt_single ?enc con i mp nn (byte_at msg 3) msg ?ml hl s2 = (AUTH_OK, con', pl, n, s')" using d by simp
    have prems: "s2_wf s2" "i < SPAN_TABLE_SIZE" "length (fst nn) = 16" "length (snd nn) = 16"
      "?ml - hl \<le> WORKBUF_BYTES" "hl \<le> ?ml"
      using s1 s2 Some assms(4) hl by simp_all
    from aes.decrypt_single_sound [OF prems(1-5) refl prems(6) ds]
    obtain nonce P h where m: "length nonce = 16" "key_loaded s2 (con_class con')" "l_node con' = l_node con" "take n pl = drop h P"
      "let aad = S2_make_aad (my_home_id s2) (r_node con) (l_node con) msg hl ?ml
       in aad \<noteq> [] \<and> CCM_encrypt_and_auth ?enc (ccm_key (sg_at s2 (con_class con'))) nonce aad P = (?ml - hl, drop hl msg)"
      by blast
    then show ?thesis using hl unfolding kr m(3) [symmetric] by blast
  qed
qed

text \<open>
  C15. A stream of messages is delivered: between two contexts in sync, any sequence of messages (each of
  1 to 1280 bytes, not of the Security 2 command class itself) that is given to \<open>S2_send_data\<close> at one
  node, carried as frames and handed to the handler of the other node, is reported to the application
  there completely, unchanged and in order, with the sender's address and the security class it was sent
  with. Afterwards the two contexts are in sync again, and no array was accessed outside its bounds.
\<close>

theorem s2_stream_delivered:
  assumes "s2_wf A" and "s2_wf B" and "in_sync ca cb A B" and "quiet ca cb A B"
    and "length (fst nn0) = 16" and "length (snd nn0) = 16"
    and "\<forall>p\<in>set ps. p \<noteq> [] \<and> length p \<le> 1280 \<and> hd p \<noteq> 0x9F"
    and "fold (exchange AES128_ECB_encrypt cmds nn0 ca cb) ps (A, B) = (A', B')"
  shows "outs B' = rev (map (Msg_received (seen_as ca cb)) ps) @ outs B \<and> in_sync ca cb A' B' \<and>
    fault A' = fault A \<and> fault B' = fault B"
  using assms by (rule aes.exchange_stream)

section \<open>Witnesses\<close>

definition demo_con :: "nodeid \<Rightarrow> nodeid \<Rightarrow> s2_connection" where
  "demo_con l r = zero_con\<lparr>l_node := l, r_node := r\<rparr>"

definition demo_ctx :: "nodeid \<Rightarrow> nodeid \<Rightarrow> byte \<Rightarrow> byte \<Rightarrow> s2" where
  "demo_ctx l r rx tx = (zero_ctx 0xC0FFEE zero_drbg)\<lparr>loaded_keys := 1, span_table :=
     zero_span\<lparr>lnode := l, rnode := r, rx_seq := rx, tx_seq := tx, sp_state := SPAN_NEGOTIATED\<rparr> #
     replicate 253 zero_span\<rparr>"

lemma demo_ctx_wf: "s2_wf (demo_ctx l r rx tx)"
  by (simp add: s2_wf_def demo_ctx_def zero_ctx_def zero_keys_def zero_span_def zero_mpan_def keys_ok_def
      drbg_ok_def zero_drbg_def list_all_length nth_Cons')

lemma demo_in_sync: "in_sync (demo_con 1 2) (demo_con 2 1) (demo_ctx 1 2 0 7) (demo_ctx 2 1 4 0)"
  by (simp add: in_sync_def demo_con_def demo_ctx_def zero_ctx_def zero_con_def zero_span_def lookup_span_def
      key_loaded_def sg_at_def)

lemma demo_quiet: "quiet (demo_con 1 2) (demo_con 2 1) (demo_ctx 1 2 0 7) (demo_ctx 2 1 4 0)"
  by (simp add: quiet_def demo_con_def demo_ctx_def zero_ctx_def zero_con_def)

theorem s2_stream_delivered_witness:
  "\<exists>A' B'. fold (exchange AES128_ECB_encrypt (\<lambda>_ _. []) (replicate 16 0, replicate 16 0) (demo_con 1 2) (demo_con 2 1))
       [[0x20, 1, 0xFF], [0x25]] (demo_ctx 1 2 0 7, demo_ctx 2 1 4 0) = (A', B') \<and>
     outs B' = [Msg_received (demo_con 2 1) [0x25], Msg_received (demo_con 2 1) [0x20, 1, 0xFF]]"
proof -
  obtain A' B' where f: "fold (exchange AES128_ECB_encrypt (\<lambda>_ _. []) (replicate 16 0, replicate 16 0) (demo_con 1 2) (demo_con 2 1))
       [[0x20, 1, 0xFF], [0x25]] (demo_ctx 1 2 0 7, demo_ctx 2 1 4 0) = (A', B')" by fastforce
  have "outs B' = rev (map (Msg_received (seen_as (demo_con 1 2) (demo_con 2 1))) [[0x20, 1, 0xFF], [0x25]]) @ outs (demo_ctx 2 1 4 0)"
    using s2_stream_delivered [OF demo_ctx_wf demo_ctx_wf demo_in_sync demo_quiet _ _ _ f] by simp
  moreover have "seen_as (demo_con 1 2) (demo_con 2 1) = demo_con 2 1" "outs (demo_ctx 2 1 4 0) = []"
    by (simp_all add: seen_as_def demo_con_def zero_con_def IS_LR_NODE_def demo_ctx_def zero_ctx_def Let_def convert_lr_to_normal_keyclass_def)
  ultimately show ?thesis using f by simp
qed

theorem s2_accepted_is_authentic_witness:
  "\<exists>msg tag s' hl nonce P. S2_decrypt_msg AES128_ECB_encrypt (replicate 16 0, replicate 16 0) (demo_con 2 1) msg (length msg)
       (demo_ctx 2 1 4 0) = (AUTH_OK, demo_con 2 1, [0x20, 2] @ tag, 2, s') \<and>
     CCM_encrypt_and_auth AES128_ECB_encrypt (replicate 16 0) nonce
       (S2_make_aad 0xC0FFEE 1 2 msg hl (length msg)) P = (length msg - hl, drop hl msg)"
proof -
  let ?s = "demo_ctx 2 1 4 0" and ?con = "demo_con 2 1" and ?nn = "(replicate 16 0, replicate 16 0) :: buffer \<times> buffer"
  obtain nonce rng where g: "next_nonce_generate AES128_ECB_encrypt (sp_d (span_table ?s ! 0)) = (nonce, rng)" by fastforce
  define F where "F = [0x9F, 3, 1, 0] @ snd (CCM_encrypt_and_auth AES128_ECB_encrypt (ccm_key (sg_at ?s 0)) nonce
       (S2_make_aad (my_home_id ?s) (r_node ?con) (l_node ?con) [0x9F, 3, 1, 0] 4 (length [0x20, 2 :: byte] + 12)) [0x20, 2])"
  have c: "lookup_span ?con ?s = Some 0" "sp_state (span_table ?s ! 0) = SPAN_NEGOTIATED" "key_loaded ?s 0"
    "sp_class (span_table ?s ! 0) = 0" "unat (0 :: byte) < N_SEC_CLASS" "rx_options ?con AND 1 = 0"
    "2 \<le> rx_seq (span_table ?s ! 0) - 1" "[0x20, 2 :: byte] \<noteq> []" "length [0x20, 2 :: byte] \<le> 1280"
    by (simp_all add: demo_con_def demo_ctx_def zero_ctx_def zero_con_def zero_span_def lookup_span_def key_loaded_def)
  from aes.decrypt_effect [OF demo_ctx_wf c(1-6) g c(7-9), of ?nn, folded F_def]
  obtain tag s' where d: "S2_decrypt_msg AES128_ECB_encrypt ?nn ?con F (length F) ?s = (AUTH_OK, ?con\<lparr>con_class := 0\<rparr>, [0x20, 2] @ tag, length [0x20, 2 :: byte], s')"
    by blast
  have len: "length F \<le> WORKBUF_BYTES"
  proof -
    have "length nonce = 16" using aes.nonce_ok [OF _ g] by (simp add: demo_ctx_def zero_span_def zero_drbg_def drbg_ok_def)
    moreover have "length (ccm_key (sg_at ?s 0)) = 16" using sg_ok [OF demo_ctx_wf] by (simp add: keys_ok_def)
    ultimately show ?thesis by (simp add: F_def aes.length_encrypt)
  qed
  have con: "?con\<lparr>con_class := 0\<rparr> = ?con" "l_node ?con = 2" "r_node ?con = 1" "con_class ?con = 0" "rx_options ?con AND 1 = 0"
    "my_home_id ?s = 0xC0FFEE" "ccm_key (sg_at ?s 0) = replicate 16 0"
    by (simp_all add: demo_con_def zero_con_def demo_ctx_def zero_ctx_def sg_at_def zero_keys_def)
  from s2_accepted_is_authentic [OF demo_ctx_wf _ _ len d] con
  obtain hl nonce P where "CCM_encrypt_and_auth AES128_ECB_encrypt (replicate 16 0) nonce
      (S2_make_aad 0xC0FFEE 1 2 F hl (length F)) P = (length F - hl, drop hl F)" by (auto simp: Let_def)
  then show ?thesis using d con by (auto simp: numeral_2_eq_2)
qed

end
