(* ===== verification/S2_Resync.thy ===== *)
theory S2_Resync
  imports S2_Stream
begin

text \<open>
  Synchronisation of the Security 2 transport: the exchange of nonces that a transmission without a
  usable SPAN starts, and what happens when the nonce report is too short.
\<close>

section \<open>Waiting for a nonce\<close>

text \<open>A context that waits for the nonce report of its peer, with the SPAN entry \<open>i\<close>.\<close>

definition awaiting :: "s2_connection \<Rightarrow> buffer \<Rightarrow> nat \<Rightarrow> s2 \<Rightarrow> bool" where
  "awaiting ca p i s =
     (s2_wf s \<and> fsm s = WAIT_NONCE_RAPORT \<and> peer s = ca \<and> tx_data s = p \<and> mpan_ptr s = None \<and>
      (\<forall>e\<in>set (mos_list s). mos_node e \<noteq> r_node ca) \<and> lookup_span ca s = Some i)"

lemma awaiting_index: "awaiting ca p i s \<Longrightarrow> i < SPAN_TABLE_SIZE \<and> i < length (span_table s)"
  using wf_lookup(2) [of s ca i] by (simp add: awaiting_def s2_wf_def)

lemma find_span_frame:
  assumes "find_span_by_node enc con s = (i, s')"
  shows "s' = s\<lparr>prng := prng s', span_table := span_table s'\<rparr>"
  using assms by (auto simp: find_span_by_node_def upd_span_def Let_def split: option.splits prod.splits)

text \<open>The state entry of the transmission, up to the encryption.\<close>

definition entered :: "s2 \<Rightarrow> s2" where
  "entered s = (if tx_options (peer s) AND 1 \<noteq> 0 then emit (Set_timeout SEND_DATA_TIMEOUT) (s\<lparr>fsm := VERIFYING_DELIVERY\<rparr>)
     else s\<lparr>fsm := SENDING_MSG\<rparr>)"

context block_cipher
begin

text \<open>A transmission to a node without a usable SPAN asks for a nonce.\<close>

lemma request_nonce:
  assumes "s2_wf s" and "fsm s = IDLE" and "mpan_ptr s = None" and "\<forall>e\<in>set (mos_list s). mos_node e \<noteq> r_node ca"
    and "p \<noteq> []" and "length p \<le> 1280"
    and "find_span_by_node enc ca (emit (Send_accepted ca) s) = (i, s1)" and "lookup_span ca s1 = Some i"
    and "sp_state (span_table s1 ! i) \<noteq> SPAN_NEGOTIATED" and "sp_state (span_table s1 ! i) \<noteq> SPAN_SOS_REMOTE_NONCE"
  defines "s' \<equiv> snd (S2_send_data_all_cast enc True ca p CAST_MSG s)"
  shows "awaiting ca p i s'" and "frame_of s' = [0x9F, 1, tx_seq (span_table s1 ! i)]"
    and "span_table s' = (span_table s1)[i := (span_table s1 ! i)\<lparr>tx_seq := tx_seq (span_table s1 ! i) + 1\<rparr>]"
    and "keyring s' = keyring s" and "retry s' = 2" and "fault s' = fault s1" and "prng s' = prng s1"
proof -
  let ?E = "emit (Send_accepted ca) s"
  let ?tx = "tx_seq (span_table s1 ! i)"
  note s1 = find_span_frame [OF assms(7)]
  have wf1: "s2_wf s1" using wf_find_span [OF _ assms(7)] assms(1) by (simp add: wf_intros)
  have f1: "fsm s1 = IDLE" "mpan_ptr s1 = None" "mos_list s1 = mos_list s" "keyring s1 = keyring s"
    using assms(2,3) by (subst s1; simp add: emit_def keyring_def)+
  define W where "W = S2_set_peer ca p (length p) (s1\<lparr>fsm := WAIT_NONCE_RAPORT, retry := 2\<rparr>)"
  have W: "peer W = ca" "span_table W = span_table s1" "s2_wf W" using wf1 by (simp_all add: W_def S2_set_peer_def s2_wf_def)
  have lW: "lookup_span ca W = Some i" "lookup_span ca (emit e W) = Some i" for e
    using assms(8) W(2) by (simp_all add: lookup_span_def emit_def)
  have so: "S2_span_ok enc ca ?E = (False, s1)" using assms(7,9,10) by (simp add: S2_span_ok_def)
  have s': "s' = emit (Set_timeout SEND_DATA_TIMEOUT)
      (upd_span i (\<lambda>sp. sp\<lparr>tx_seq := tx_seq sp + 1\<rparr>) (emit (Send_frame ca [0x9F, 1, ?tx] True) W))"
  proof -
    have "s' = emit (Set_timeout SEND_DATA_TIMEOUT) (S2_send_nonce_get enc True W)"
    proof -
      have "fsm ?E = IDLE" using assms(2) by (simp add: emit_def)
      then show ?thesis unfolding s'_def using assms(2,5,6) so
        by (simp add: S2_send_data_all_cast_def S2_is_send_data_busy_def S2_fsm_post_event_def fsm_idle_def W_def)
    qed
    moreover have "find_span_by_node enc ca W = (i, W)" "find_span_by_node enc ca (emit e W) = (i, emit e W)" for e
      using lW by (simp_all add: find_span_hit)
    moreover have "peer (emit e W) = ca" for e using W(1) by (simp add: emit_def)
    ultimately show ?thesis using W by (simp add: S2_send_nonce_get_def S2_send_raw_def Let_def)
  qed
  have i: "i < length (span_table s1)" using wf_lookup(2) [OF wf1 assms(8)] wf1 by (simp add: s2_wf_def)
  show tab: "span_table s' = (span_table s1)[i := (span_table s1 ! i)\<lparr>tx_seq := ?tx + 1\<rparr>]"
    unfolding s' using W(2) i by (simp add: emit_def upd_span_def)
  show "frame_of s' = [0x9F, 1, ?tx]" unfolding s' by (simp add: frame_of_def emit_def upd_span_def)
  show "keyring s' = keyring s" "retry s' = 2" "fault s' = fault s1" "prng s' = prng s1"
    unfolding s' using f1(4) by (simp_all add: emit_def upd_span_def W_def S2_set_peer_def keyring_def)
  have "s2_wf s'" unfolding s' using W(3) by (simp add: wf_intros)
  moreover have "lookup_span ca s' = Some i"
    using assms(8) find_index_update [of i "span_table s1"] by (simp add: lookup_span_def tab)
  moreover have "fsm s' = WAIT_NONCE_RAPORT" "peer s' = ca" "tx_data s' = p" "mpan_ptr s' = None" "mos_list s' = mos_list s"
    unfolding s' using f1 by (simp_all add: emit_def upd_span_def W_def S2_set_peer_def)
  ultimately show "awaiting ca p i s'" using assms(4) by (simp add: awaiting_def)
qed

lemma entered_simps:
  "span_table (entered s) = span_table s" "peer (entered s) = peer s" "tx_data (entered s) = tx_data s"
  "mpan_ptr (entered s) = mpan_ptr s" "mos_list (entered s) = mos_list s" "keyring (entered s) = keyring s"
  "prng (entered s) = prng s" "workbuf (entered s) = workbuf s" "fault (entered s) = fault s"
  "last_frame (outs (entered s)) = last_frame (outs s)" "s2_wf (entered s) = s2_wf s"
  by (simp_all add: entered_def emit_def keyring_def s2_wf_def)

lemma enter_eq: "send_msg_state_enter enc ok s = (let s1 = S2_encrypt_and_send enc ok (entered s) in s1\<lparr>retry := retry s1 - 1\<rparr>)"
  by (simp add: send_msg_state_enter_def entered_def Let_def)

text \<open>A nonce report of the peer: the nonce is stored when the report is long enough, the message is sent in any case.\<close>

lemma report_effect:
  assumes "awaiting ca p i s" and "l_node cb = l_node ca" and "r_node cb = r_node ca"
    and "sp_state (span_table s ! i) = SPAN_NO_SEQ \<or> 2 \<le> rx_seq (span_table s ! i) - q"
    and "buf = [0x9F, 2, q, 1] @ n"
  defines "s1 \<equiv> upd_span i (\<lambda>sp. if length n < 16 then sp\<lparr>rx_seq := q\<rparr>
      else sp\<lparr>rx_seq := q, sp_d := set_r_nonce (take 16 n) (sp_d sp), sp_state := SPAN_SOS_REMOTE_NONCE\<rparr>) s"
  shows "S2_application_command_handler enc True ok2 nn0 cmds cb buf (length buf) s = send_msg_state_enter enc True s1"
proof -
  have w: "fsm s = WAIT_NONCE_RAPORT" "peer s = ca" "lookup_span ca s = Some i" using assms(1) by (simp_all add: awaiting_def)
  have i: "i < length (span_table s)" using awaiting_index [OF assms(1)] by simp
  have bytes: "byte_at buf 0 = 0x9F" "byte_at buf 1 = 2" "byte_at buf 2 = q" "byte_at buf 3 = 1"
    unfolding assms(5) by (simp_all add: byte_at_def)
  have nonce: "map (byte_at buf) [4..<20] = take 16 n" if "\<not> length n < 16"
    using that unfolding assms(5) by (intro nth_equalityI) (simp_all add: byte_at_def nth_Cons' del: upt_rec_numeral)
  let ?s0 = "upd_span i (\<lambda>sp. sp\<lparr>rx_seq := q\<rparr>) s"
  have v: "S2_verify_seq enc (peer s) q s = (True, ?s0)"
    using assms(4) w by (auto simp: S2_verify_seq_def find_span_hit)
  have f: "find_span_by_node enc (peer ?s0) ?s0 = (i, ?s0)"
    using w by (intro find_span_hit) (simp add: lookup_upd_span, simp add: upd_span_def)
  have "S2_register_nonce enc buf (length buf) s = (1, s1)"
  proof (cases "length n < 16")
    case True
    then have "\<not> 20 \<le> length buf" by (simp add: assms(5))
    then show ?thesis using v f bytes True by (simp add: S2_register_nonce_def s1_def)
  next
    case False
    then have "20 \<le> length buf" by (simp add: assms(5))
    then show ?thesis using v f bytes False nonce [OF False] i
      by (simp add: S2_register_nonce_def s1_def Let_def upd_span_def del: upt_rec_numeral)
  qed
  then show ?thesis
    using w bytes assms(2,3)
    by (simp add: S2_application_command_handler_def S2_fsm_post_event_def fsm_wait_nonce_def S2_is_peernode_def)
qed

end

section \<open>A fresh context\<close>

lemma restore_fold_rest:
  "(fold (\<lambda>(k, slot) s. case ks k of
       Some key \<Rightarrow> snd (S2_network_key_update enc slot key False s) | None \<Rightarrow> s) xs s)\<lparr>sg := [], loaded_keys := 0\<rparr> =
     s\<lparr>sg := [], loaded_keys := 0\<rparr>"
  by (induction xs arbitrary: s) (auto simp: S2_network_key_update_def Let_def split: option.split)

lemma fold_view:
  assumes "\<And>x s s'. f s = f s' \<Longrightarrow> f (F x s) = f (F x s')" and "f s = f s'"
  shows "f (fold F xs s) = f (fold F xs s')"
  using assms(2)
proof (induction xs arbitrary: s s')
  case (Cons x xs)
  show ?case using Cons.IH [OF assms(1) [OF Cons.prems]] by simp
qed simp

lemma init_ctx_fields:
  "span_table (S2_init_ctx enc ks home g) = replicate SPAN_TABLE_SIZE zero_span"
  "mos_list (S2_init_ctx enc ks home g) = replicate MOS_LIST_LENGTH \<lparr>mos_node = 0, mos_group = 0\<rparr>"
  "mpan_ptr (S2_init_ctx enc ks home g) = None" "fsm (S2_init_ctx enc ks home g) = IDLE"
  "fault (S2_init_ctx enc ks home g) = False" "my_home_id (S2_init_ctx enc ks home g) = home"
  "prng (S2_init_ctx enc ks home g) = g" "outs (S2_init_ctx enc ks home g) = []"
proof -
  have "(S2_init_ctx enc ks home g)\<lparr>sg := [], loaded_keys := 0\<rparr> = (zero_ctx home g)\<lparr>sg := [], loaded_keys := 0\<rparr>"
    by (simp only: S2_init_ctx_def s2_restore_keys_def restore_fold_rest) (simp add: zero_ctx_def)
  then show "span_table (S2_init_ctx enc ks home g) = replicate SPAN_TABLE_SIZE zero_span"
    "mos_list (S2_init_ctx enc ks home g) = replicate MOS_LIST_LENGTH \<lparr>mos_node = 0, mos_group = 0\<rparr>"
    "mpan_ptr (S2_init_ctx enc ks home g) = None" "fsm (S2_init_ctx enc ks home g) = IDLE"
    "fault (S2_init_ctx enc ks home g) = False" "my_home_id (S2_init_ctx enc ks home g) = home"
    "prng (S2_init_ctx enc ks home g) = g" "outs (S2_init_ctx enc ks home g) = []"
    by (cases "S2_init_ctx enc ks home g"; simp add: zero_ctx_def)+
qed

lemma init_ctx_sg: "sg (S2_init_ctx enc ks home g) = sg (S2_init_ctx enc ks home' g')"
  unfolding S2_init_ctx_def s2_restore_keys_def by (rule fold_view) (auto simp: S2_network_key_update_def Let_def zero_ctx_def split: option.split)

lemma fresh_table: "replicate SPAN_TABLE_SIZE zero_span = zero_span # replicate 253 zero_span"
  unfolding replicate_Suc [symmetric] by simp

text \<open>The first span of a fresh context.\<close>

lemma init_find_span:
  "\<exists>q g'. find_span_by_node enc ca (emit e (S2_init_ctx enc ks home g)) =
     (0, (emit e (S2_init_ctx enc ks home g))\<lparr>prng := g', span_table := (replicate SPAN_TABLE_SIZE zero_span)
        [0 := zero_span\<lparr>sp_state := SPAN_NO_SEQ, lnode := l_node ca, rnode := r_node ca, tx_seq := q\<rparr>]\<rparr>)"
proof -
  let ?T = "span_table (emit e (S2_init_ctx enc ks home g))"
  have T: "?T = zero_span # replicate 253 zero_span"
    unfolding fresh_table [symmetric] by (simp add: emit_def init_ctx_fields)
  have "find_index P (replicate n x) = None" if "\<not> P x" for P :: "span \<Rightarrow> bool" and x n
    using that by (induction n) simp_all
  then have "lookup_span ca (emit e (S2_init_ctx enc ks home g)) = None"
    unfolding lookup_span_def T by (simp add: zero_span_def)
  moreover have "find_index (\<lambda>sp. sp_state sp = SPAN_NOT_USED) ?T = Some 0" unfolding T by (simp add: zero_span_def)
  ultimately show ?thesis
    by (cases "AES_CTR_DRBG_Generate enc g")
      (auto simp: find_span_by_node_def upd_span_def emit_def init_ctx_fields)
qed

section \<open>A nonce report that is too short\<close>

text \<open>
  A context sends its first message \<open>p\<close> after it was initialised, and the nonce report it receives for it
  carries \<open>n\<close> behind its flags: the frame that leaves the context then.
\<close>

definition first_frame ::
  "(buffer \<Rightarrow> buffer \<Rightarrow> buffer) \<Rightarrow> (byte \<Rightarrow> buffer option) \<Rightarrow> u32 \<Rightarrow> ctr_drbg \<Rightarrow> s2_connection \<Rightarrow> buffer \<Rightarrow> byte \<Rightarrow>
     buffer \<Rightarrow> buffer" where
  "first_frame enc ks home g ca p q n =
     (let s = snd (S2_send_data_all_cast enc True ca p CAST_MSG (S2_init_ctx enc ks home g));
          r = [0x9F, 2, q, 1] @ n
      in frame_of (S2_application_command_handler enc True True (replicate 16 0, replicate 16 0) (\<lambda>_ _. []) ca
           r (length r) s))"

context block_cipher
begin

lemma short_report_frame:
  assumes "drbg_ok g" and "\<And>k key. ks k = Some key \<Longrightarrow> length key = 16" and "r_node ca \<noteq> 0"
    and "unat (con_class ca) < N_SEC_CLASS" and "p \<noteq> []" and "length p \<le> 1280" and "length n < 16"
  shows "take (length p) (drop 4 (first_frame enc ks home g ca p q n)) =
    xor_bytes p (ks_upto enc (ccm_key (sg_at (S2_init_ctx enc ks 0 zero_drbg) (con_class ca)))
      (fst (next_nonce_generate enc zero_drbg)) (no_of_blocks (length p)))"
proof -
  let ?I = "S2_init_ctx enc ks home g"
  let ?S = "snd (S2_send_data_all_cast enc True ca p CAST_MSG ?I)"
  have wfI: "s2_wf ?I" by (rule wf_init [OF assms(1,2)])
  have mosI: "\<forall>e\<in>set (mos_list ?I). mos_node e \<noteq> r_node ca" using assms(3) by (simp add: init_ctx_fields)
  obtain tx g' where "find_span_by_node enc ca (emit (Send_accepted ca) ?I) = (0, (emit (Send_accepted ca) ?I)
      \<lparr>prng := g', span_table := (replicate SPAN_TABLE_SIZE zero_span)[0 := zero_span
        \<lparr>sp_state := SPAN_NO_SEQ, lnode := l_node ca, rnode := r_node ca, tx_seq := tx\<rparr>]\<rparr>)"
    using init_find_span by metis
  then obtain s1 where f: "find_span_by_node enc ca (emit (Send_accepted ca) ?I) = (0, s1)"
    and s1: "span_table s1 = (replicate SPAN_TABLE_SIZE zero_span)[0 := zero_span
        \<lparr>sp_state := SPAN_NO_SEQ, lnode := l_node ca, rnode := r_node ca, tx_seq := tx\<rparr>]" by simp
  have sp: "span_table s1 ! 0 = zero_span\<lparr>sp_state := SPAN_NO_SEQ, lnode := l_node ca, rnode := r_node ca, tx_seq := tx\<rparr>"
    "span_table s1 = span_table s1 ! 0 # replicate 253 zero_span" unfolding s1 fresh_table by simp_all
  have "lookup_span ca s1 = Some 0" unfolding lookup_span_def by (subst sp(2)) (simp add: sp(1))
  note rq = request_nonce [OF wfI _ _ mosI assms(5,6) f this, unfolded sp(1)]
  have aw: "awaiting ca p 0 ?S" and tab: "span_table ?S = (span_table s1)[0 := (span_table s1 ! 0)\<lparr>tx_seq := tx + 1\<rparr>]"
    and kr: "keyring ?S = keyring ?I"
    using rq(1,3,4) by (simp_all add: init_ctx_fields sp(1))
  have S0: "span_table ?S ! 0 = (span_table s1 ! 0)\<lparr>tx_seq := tx + 1\<rparr>" unfolding tab by (subst sp(2)) simp
  define R where "R = upd_span 0 (\<lambda>sp. sp\<lparr>rx_seq := q\<rparr>) ?S"
  have "sp_state (span_table ?S ! 0) = SPAN_NO_SEQ" unfolding S0 sp(1) by simp
  then have fr: "first_frame enc ks home g ca p q n = frame_of (send_msg_state_enter enc True R)"
    using report_effect [OF aw refl refl disjI1 refl, of True "(replicate 16 0, replicate 16 0)" "\<lambda>_ _. []" q n] assms(7)
    by (simp add: first_frame_def R_def)
  let ?E = "entered R"
  have w: "s2_wf R" "peer R = ca" "tx_data R = p" "mpan_ptr R = None" "\<forall>e\<in>set (mos_list R). mos_node e \<noteq> r_node ca"
    "keyring R = keyring ?I" "lookup_span ca R = Some 0"
    using aw kr by (simp_all add: awaiting_def R_def wf_intros lookup_upd_span) (simp_all add: upd_span_def keyring_def)
  have R0: "span_table R ! 0 = (span_table ?S ! 0)\<lparr>rx_seq := q\<rparr>"
    unfolding R_def by (rule upd_span_nth) (use awaiting_index [OF aw] in simp)
  obtain nonce rng where nn: "next_nonce_generate enc zero_drbg = (nonce, rng)" by fastforce
  have d0: "sp_d (span_table ?E ! 0) = zero_drbg" "sp_state (span_table ?E ! 0) = SPAN_NO_SEQ"
    by (simp_all add: entered_simps R0 S0 sp(1)) (simp add: zero_span_def)
  have lE: "lookup_span (peer ?E) ?E = Some 0"
    using w(2,7) by (simp add: entered_simps lookup_cong [OF entered_simps(1)])
  note ee = encrypt_effect [OF _ lE, of nonce rng]
  have key: "sg_at ?E c = sg_at (S2_init_ctx enc ks 0 zero_drbg) c" for c
    using keyring_sg(1) [of ?E ?I c] w(6) init_ctx_sg [of enc ks home g 0 zero_drbg]
    by (simp add: entered_simps sg_at_def)
  define H where "H = [0x9F, 3, tx_seq (span_table R ! 0), 0]"
  define aad where "aad = S2_make_aad (my_home_id ?E) (l_node ca) (r_node ca) H 4 (length p + 12)"
  have H: "length H = 4" by (simp add: H_def)
  have o: "frame_of (send_msg_state_enter enc True R) =
      H @ snd (CCM_encrypt_and_auth enc (ccm_key (sg_at ?E (con_class ca))) nonce aad p)"
    using ee(1) w d0 nn assms(4,6) by (simp add: enter_eq Let_def frame_of_def entered_simps H_def aad_def)
  have "length nonce = 16" using nonce_ok [OF _ nn] by (simp add: drbg_ok_def zero_drbg_def)
  moreover have "length (ccm_key (sg_at ?E c)) = 16" for c
    using sg_ok [of ?E c] w(1) by (simp add: entered_simps keys_ok_def)
  ultimately show ?thesis
    using assms(6) no_of_blocks_bounds(1) [of "length p"]
    by (simp add: fr o H encrypt_eq key nn length_ks_upto)
qed

end

section \<open>Properties\<close>

text \<open>
  C19. A nonce report that is too short defeats the nonces: when the first message after the start of a
  context is answered by a nonce report with less than 16 bytes of nonce, the message is encrypted with a
  nonce generator that was never instantiated, and its key stream depends on the network key alone. After
  two starts, with whatever states of the random generator, reports, home ids and messages, the exclusive or
  of the two ciphertexts is the exclusive or of the two messages.
\<close>

theorem short_nonce_report_reuses_key_stream:
  assumes "drbg_ok g1" and "drbg_ok g2" and "\<And>k key. ks k = Some key \<Longrightarrow> length key = 16"
    and "r_node ca \<noteq> 0" and "unat (con_class ca) < N_SEC_CLASS" and "p1 \<noteq> []" and "length p1 \<le> 1280" and "length p2 = length p1"
    and "length n1 < 16" and "length n2 < 16"
  shows "xor_bytes (take (length p1) (drop 4 (first_frame AES128_ECB_encrypt ks home1 g1 ca p1 q1 n1)))
      (take (length p1) (drop 4 (first_frame AES128_ECB_encrypt ks home2 g2 ca p2 q2 n2))) = xor_bytes p1 p2"
proof -
  let ?I = "S2_init_ctx AES128_ECB_encrypt ks 0 zero_drbg"
  have ok: "drbg_ok zero_drbg" by (simp add: drbg_ok_def zero_drbg_def)
  obtain nonce rng where nn: "next_nonce_generate AES128_ECB_encrypt zero_drbg = (nonce, rng)" by fastforce
  have "length nonce = 16" using aes.nonce_ok [OF ok nn] by simp
  moreover have "length (ccm_key (sg_at ?I (con_class ca))) = 16"
    using sg_ok [OF aes.wf_init [OF ok assms(3)]] by (simp add: keys_ok_def)
  moreover have "p2 \<noteq> []" "length p2 \<le> 1280" using assms(6-8) by auto
  ultimately show ?thesis
    using aes.short_report_frame [where ks = ks and home = home1 and q = q1, OF assms(1,3,4,5,6,7,9)] assms(8) no_of_blocks_bounds(1) [of "length p1"]
      aes.short_report_frame [where ks = ks and home = home2 and q = q2, OF assms(2,3,4,5) \<open>p2 \<noteq> []\<close> \<open>length p2 \<le> 1280\<close> assms(10)] nn
    by (simp add: xor_bytes_common aes.length_ks_upto)
qed

section \<open>Witnesses\<close>

theorem short_nonce_report_reuses_key_stream_witness:
  "xor_bytes (take 2 (drop 4 (first_frame AES128_ECB_encrypt (\<lambda>_. Some (replicate 16 5)) 1 zero_drbg (demo_con 1 2) [0x20, 1] 7 [])))
      (take 2 (drop 4 (first_frame AES128_ECB_encrypt (\<lambda>_. Some (replicate 16 5)) 1 (zero_drbg\<lparr>drbg_v := replicate 16 9\<rparr>)
        (demo_con 1 2) [0x25, 3] 8 [1, 2]))) = [0x05, 2]"
  using short_nonce_report_reuses_key_stream [of zero_drbg "zero_drbg\<lparr>drbg_v := replicate 16 9\<rparr>" "\<lambda>_. Some (replicate 16 5)"
      "demo_con 1 2" "[0x20, 1]" "[0x25, 3]" "[]" "[1, 2]" 1 7 1 8]
  by (simp add: drbg_ok_def zero_drbg_def demo_con_def zero_con_def numeral_2_eq_2)

end
