(* ===== verification/S2_Handshake.thy ===== *)
theory S2_Handshake
  imports S2_Resync
begin

text \<open>
  Synchronisation of two contexts of the Security 2 transport. A transmission to a node without a usable
  SPAN runs through four steps: the nonce get of the sender, the nonce report of the receiver, the message
  with the sender's nonce, and its decryption with the generator that both sides instantiate from the two
  nonces. The lemmas give the effect of each step; the property composes them with the stream of messages
  that follows.
\<close>

section \<open>The entry of a pair of nodes\<close>

text \<open>The SPAN entry that the C code finds or allocates.\<close>

definition entry :: "(buffer \<Rightarrow> buffer \<Rightarrow> buffer) \<Rightarrow> s2_connection \<Rightarrow> s2 \<Rightarrow> span" where
  "entry enc con s = (case find_span_by_node enc con s of (i, s') \<Rightarrow> span_table s' ! i)"

lemma find_index_insert:
  "find_index P xs = None \<Longrightarrow> i < length xs \<Longrightarrow> P y \<Longrightarrow> find_index P (xs[i := y]) = Some i"
  by (induction xs arbitrary: i) (auto split: nat.split if_splits)

lemma lookup_keep:
  assumes "lookup_span con s = Some i" and "span_table s' = (span_table s)[i := y]" and "sp_state y \<noteq> SPAN_NOT_USED"
    and "lnode y = lnode (span_table s ! i)" and "rnode y = rnode (span_table s ! i)"
  shows "lookup_span con s' = Some i"
  using assms(1,3-5) find_index_Some [OF assms(1) [unfolded lookup_span_def]]
  unfolding lookup_span_def assms(2) by (subst find_index_update) auto

lemma find_span_emit:
  "find_span_by_node enc con s = (i, s1) \<Longrightarrow> find_span_by_node enc con (emit e s) = (i, emit e s1)"
  by (auto simp: find_span_by_node_def lookup_span_def emit_def upd_span_def Let_def split: option.splits prod.splits)

context block_cipher
begin

lemma find_span_lookup:
  assumes "s2_wf s" and "find_span_by_node enc con s = (i, s1)"
  shows "lookup_span con s1 = Some i"
proof (cases "lookup_span con s")
  case None
  have i: "i < length (span_table s)" using wf_find_span [OF assms] assms(1) by (simp add: s2_wf_def)
  show ?thesis
    using assms(2) None i
    by (auto simp: find_span_by_node_def Let_def lookup_span_def upd_span_def find_index_insert split: prod.splits)
qed (use assms(2) in \<open>auto simp: find_span_by_node_def\<close>)

section \<open>The nonce report of the receiver\<close>

lemma nonce_get_effect:
  fixes ok1 ok2 :: bool and nn0 :: "buffer \<times> buffer" and cmds :: "nodeid \<Rightarrow> byte \<Rightarrow> buffer"
  assumes "s2_wf B" and "rx_options cb AND 1 = 0" and "find_span_by_node enc cb B = (j, B0)"
    and "sp_state (span_table B0 ! j) = SPAN_NO_SEQ \<or> 2 \<le> rx_seq (span_table B0 ! j) - q"
  defines "b \<equiv> span_table B0 ! j"
    and "B' \<equiv> S2_application_command_handler enc ok1 ok2 nn0 cmds cb [0x9F, 1, q] 3 B"
  shows "\<exists>n. length n = 16 \<and> outs B' = Send_frame_no_cb cb ([0x9F, 2, tx_seq b, 1] @ n) # outs B \<and>
    span_table B' = (span_table B0)[j := b\<lparr>rx_seq := q, sp_state := SPAN_SOS_LOCAL_NONCE,
      sp_d := set_r_nonce n (sp_d b), tx_seq := tx_seq b + 1\<rparr>] \<and>
    lookup_span cb B' = Some j \<and> fsm B' = fsm B \<and> keyring B' = keyring B \<and> fault B' = fault B \<and> s2_wf B'"
proof -
  note fr = find_span_frame [OF assms(3)]
  have wf0: "s2_wf B0" and j: "j < SPAN_TABLE_SIZE" using wf_find_span [OF assms(1,3)] by simp_all
  have j': "j < length (span_table B0)" using wf0 j by (simp add: s2_wf_def)
  have l0: "lookup_span cb B0 = Some j" by (rule find_span_lookup [OF assms(1,3)])
  let ?B1 = "upd_span j (\<lambda>sp. sp\<lparr>rx_seq := q\<rparr>) B0"
  have v: "S2_verify_seq enc cb q B = (True, ?B1)" using assms(3,4) by (auto simp: S2_verify_seq_def)
  have l1: "find_span_by_node enc cb ?B1 = (j, ?B1)" using l0 by (intro find_span_hit) (simp add: lookup_upd_span)
  obtain n g where g: "AES_CTR_DRBG_Generate enc (prng B0) = (n, g)" by fastforce
  have "drbg_ok (prng B0)" using wf0 by (simp add: s2_wf_def)
  then have n: "length n = 16" "drbg_ok g" using generate_ok [OF _ g] by simp_all
  let ?b = "b\<lparr>rx_seq := q, sp_state := SPAN_SOS_LOCAL_NONCE, sp_d := set_r_nonce n (sp_d b), tx_seq := tx_seq b + 1\<rparr>"
  have B': "B' = emit (Send_frame_no_cb cb ([0x9F, 2, tx_seq b, 1] @ n)) (B0\<lparr>prng := g, span_table := (span_table B0)[j := ?b]\<rparr>)"
  proof -
    have "B' = S2_send_nonce_report enc cb 1 ?B1"
      using assms(2) v by (simp add: B'_def S2_application_command_handler_def byte_at_def)
    also have "\<dots> = emit (Send_frame_no_cb cb ([0x9F, 2, tx_seq b, 1] @ n)) (B0\<lparr>prng := g, span_table := (span_table B0)[j := ?b]\<rparr>)"
      unfolding S2_send_nonce_report_def l1 prod.case Let_def
      using j' g n by (simp add: upd_span_def get_set_r_nonce b_def)
    finally show ?thesis .
  qed
  have "lookup_span cb B' = Some j"
    by (rule lookup_keep [OF l0, of B' ?b]) (simp_all add: B' emit_def b_def)
  moreover have "s2_wf B'" unfolding B' using wf0 n j'
    by (intro wf_emit) (simp add: s2_wf_def list_all_length nth_list_update set_r_nonce_ok b_def)
  moreover have "fsm B' = fsm B" "keyring B' = keyring B" "fault B' = fault B" "outs B0 = outs B"
    unfolding B' by (simp_all add: emit_def keyring_def) (subst fr; simp)+
  ultimately show ?thesis using n by (intro exI [of _ n]) (simp add: B' emit_def)
qed

section \<open>The message with the sender's nonce\<close>

lemma encrypt_sn_effect:
  assumes "s2_wf s" and "lookup_span (peer s) s = Some i" and "sp_state (span_table s ! i) = SPAN_SOS_REMOTE_NONCE"
    and "mpan_ptr s = None" and "\<forall>e\<in>set (mos_list s). mos_node e \<noteq> r_node (peer s)"
    and "length (tx_data s) \<le> 1272" and "unat (con_class (peer s)) < N_SEC_CLASS"
    and "AES_CTR_DRBG_Generate enc (prng s) = (ei, g)"
  defines "a \<equiv> span_table s ! i" and "c \<equiv> con_class (peer s)" and "s' \<equiv> S2_encrypt_and_send enc True s"
  defines "rng0 \<equiv> next_nonce_instantiate enc ei (get_r_nonce (sp_d a)) (nonce_pstring (sg_at s c))"
    and "H \<equiv> [0x9F, 3, tx_seq a, 1, 18, 0x41] @ ei"
  defines "F \<equiv> H @ snd (CCM_encrypt_and_auth enc (ccm_key (sg_at s c)) (fst (next_nonce_generate enc rng0))
       (S2_make_aad (my_home_id s) (l_node (peer s)) (r_node (peer s)) H 22 (length (tx_data s) + 30)) (tx_data s))"
  shows "outs s' = Send_frame (peer s) F True # outs s" and "rest s' = rest (s\<lparr>prng := g\<rparr>)" and "length ei = 16"
    and "span_table s' = (span_table s)[i := a\<lparr>sp_class := c, sp_state := SPAN_NEGOTIATED,
      sp_d := snd (next_nonce_generate enc rng0), tx_seq := tx_seq a + 1\<rparr>]"
proof -
  let ?D = "tx_data s" and ?b = "a\<lparr>sp_d := rng0, sp_class := c, sp_state := SPAN_NEGOTIATED\<rparr>"
  have "drbg_ok (prng s)" using assms(1) by (simp add: s2_wf_def)
  then have ei: "length ei = 16" and gok: "drbg_ok g" using generate_ok [OF _ assms(8)] by simp_all
  show "length ei = 16" by (rule ei)
  have i: "i < SPAN_TABLE_SIZE" "i < length (span_table s)"
    using wf_lookup(2) [OF assms(1,2)] assms(1) by (simp_all add: s2_wf_def)
  have H: "length H = 22" using ei by (simp add: H_def)
  have rok: "drbg_ok rng0" unfolding rng0_def a_def
    by (intro instantiate_nonce_ok ei length_get_r_nonce sp_d_ok [OF assms(1) i(1)] sg_ok [OF assms(1)])
  define s1 where "s1 = write_wb 0 [0x9F, 3, tx_seq a, 0] s"
  define s2 where "s2 = check_class c (upd_span i (\<lambda>sp. sp\<lparr>sp_d := rng0, sp_class := c, sp_state := SPAN_NEGOTIATED\<rparr>) (s1\<lparr>prng := g\<rparr>))"
  define s3 where "s3 = modify_wb 3 (\<lambda>b. b OR 1) (write_wb 4 ([18, 0x41] @ ei) s2)"
  have wf1: "s2_wf s1" "s2_wf s2" "s2_wf s3"
    using assms(1) gok rok by (simp_all add: s1_def s2_def s3_def wf_intros modify_wb_def)
  have r1: "rest s1 = rest s" by (simp add: s1_def rest_simps)
  have r3: "rest s3 = rest (s\<lparr>prng := g\<rparr>)"
    using assms(7) ei r1 by (simp add: s3_def s2_def modify_wb_def rest_simps c_def) (simp add: rest_def s1_def write_wb_def)
  have t3: "span_table s3 = (span_table s)[i := ?b]" "outs s3 = outs s"
    by (simp_all add: s3_def s2_def s1_def ctx_defs a_def)
  have wb: "workbuf s3 = H @ drop 22 (workbuf s)"
  proof -
    have "workbuf (write_wb 4 ([18, 0x41] @ ei) s2) = wr 4 ([18, 0x41] @ ei) (wr 0 [0x9F, 3, tx_seq a, 0] (workbuf s))"
      by (simp add: s2_def s1_def ctx_defs)
    also have "\<dots> = [0x9F, 3, tx_seq a, 0] @ ([18, 0x41] @ ei) @ drop 22 (workbuf s)"
      using ei by (simp add: wr_def)
    finally show ?thesis unfolding s3_def modify_wb_def by (simp add: write_wb_def wr_def byte_at_def H_def)
  qed
  have bh: "build_header enc i s = (22, s3)"
  proof -
    have "sn_ext enc i s1 = ([18, 0x41] @ ei, s2)"
      using assms(3,8) by (simp add: sn_ext_def s1_def s2_def write_wb_def a_def c_def rng0_def sg_at_def Let_def)
    moreover have "mpan_ptr s2 = None" using assms(4) by (simp add: s2_def s1_def ctx_defs)
    then have "mgrp_ext s2 = ([], s2)" "mos_ext s2 = ([], s2)" by (simp_all add: mgrp_ext_def mos_ext_def)
    ultimately show ?thesis
      unfolding build_header_def a_def [symmetric] s1_def [symmetric] by (simp add: Let_def ei s3_def)
  qed
  have "S2_add_mpan_extensions 22 s3 = (0, s3)"
    by (rule no_mpan_ext [OF wf1(3)]) (use assms(5) rest_sel(4,6) [OF r3] in simp)
  moreover have "tx_data s3 = ?D" using rest_sel(10) [OF r3] by simp
  moreover define s4 where "s4 = write_wb 22 ?D s3"
  ultimately have s': "s' = seal_and_send enc True i 22 (length ?D) s4"
    unfolding s'_def S2_encrypt_and_send_def find_span_hit [OF assms(2)] Let_def prod.case bh by simp
  have r4: "rest s4 = rest (s\<lparr>prng := g\<rparr>)" using assms(6) r3 by (simp add: s4_def rest_simps)
  have t4: "span_table s4 = (span_table s)[i := ?b]" "outs s4 = outs s" using t3 by (simp_all add: s4_def write_wb_def)
  have wb4: "workbuf s4 = H @ ?D @ drop (length ?D) (drop 22 (workbuf s))"
    using wb H by (simp add: s4_def write_wb_def wr_def)
  have look: "lookup_span (peer s4) s4 = Some i"
    using rest_sel(4) [OF r4] lookup_keep [OF assms(2) t4(1)] by (simp add: a_def)
  have wf4: "s2_wf s4" using wf1 by (simp add: s4_def wf_intros)
  have sg: "sg_at s4 x = sg_at s x" for x using rest_sel(1) [OF r4] by (simp add: sg_at_def)
  have p4: "peer s4 = peer s" "my_home_id s4 = my_home_id s" using rest_sel(3,4) [OF r4] by simp_all
  have nn: "next_nonce_generate enc (sp_d (span_table s4 ! i)) = (fst (next_nonce_generate enc rng0), snd (next_nonce_generate enc rng0))"
    using i t4 by simp
  have len: "length ?D + 22 + 8 \<le> WORKBUF_BYTES" "(22::nat) \<le> 56" "unat (con_class (peer s4)) < N_SEC_CLASS"
    "length ?D + 22 + 8 = length ?D + 30"
    using assms(6,7) p4 by simp_all
  note se = seal_effect [OF wf4 look wb4 H len(2,1,3) nn, folded s', unfolded sg p4 t4 len(4)]
  show "outs s' = Send_frame (peer s) F True # outs s" "rest s' = rest (s\<lparr>prng := g\<rparr>)"
    using se(1,2) r4 by (simp_all add: F_def c_def)
  show "span_table s' = (span_table s)[i := a\<lparr>sp_class := c, sp_state := SPAN_NEGOTIATED,
      sp_d := snd (next_nonce_generate enc rng0), tx_seq := tx_seq a + 1\<rparr>]"
    using se(4) i by simp
qed

text \<open>The extension with the sender's nonce instantiates the generator of the receiver.\<close>

lemma parse_sn_effect:
  assumes "sp_state (span_table s ! j) = SPAN_SOS_LOCAL_NONCE" and "length ei = 16" and "8 \<le> length X"
    and "F = [0x9F, 3, q, 1, 18, 0x41] @ ei @ X"
  defines "n \<equiv> get_r_nonce (sp_d (span_table s ! j))" and "c \<equiv> sp_class (span_table s ! j)"
  shows "parse_clear enc nn0 con (Some j) F (length F) s = (True, 22, None, (ei, n),
    check_class c (upd_span j (\<lambda>sp. sp\<lparr>sp_state := SPAN_INSTANTIATE,
      sp_d := next_nonce_instantiate enc ei n (nonce_pstring (sg_at s c))\<rparr>) s))"
proof -
  have bytes: "byte_at F 3 = 1" "byte_at F 4 = 18" "byte_at F 5 = 0x41" "30 \<le> length F"
    using assms(2,3) by (simp_all add: assms(4) byte_at_def)
  have nonce: "map (byte_at F) [6..<22] = ei"
    using assms(2) by (intro nth_equalityI) (simp_all add: assms(4) byte_at_def nth_Cons' nth_append del: upt_rec_numeral)
  have c: "clear_ext enc con (Some j) F 4 18 (None, nn0, s) = (True, None, (ei, n),
    check_class c (upd_span j (\<lambda>sp. sp\<lparr>sp_state := SPAN_INSTANTIATE,
      sp_d := next_nonce_instantiate enc ei n (nonce_pstring (sg_at s c))\<rparr>) s))"
    using bytes nonce assms(1) by (simp add: clear_ext_def n_def c_def Let_def del: upt_rec_numeral)
  have "parse_ext enc con (Some j) F (length F) 4 (None, nn0, s) = (True, 22, None, (ei, n),
    check_class c (upd_span j (\<lambda>sp. sp\<lparr>sp_state := SPAN_INSTANTIATE,
      sp_d := next_nonce_instantiate enc ei n (nonce_pstring (sg_at s c))\<rparr>) s))"
    using bytes c by (subst parse_ext.simps) (simp add: Let_def)
  then show ?thesis using bytes by (simp add: parse_clear_def)
qed

lemma decrypt_sn_effect:
  assumes "s2_wf s" and "lookup_span con s = Some j" and "sp_state (span_table s ! j) = SPAN_SOS_LOCAL_NONCE"
    and "key_loaded s c" and "sp_class (span_table s ! j) = c" and "unat c < N_SEC_CLASS" and "rx_options con AND 1 = 0"
    and "2 \<le> rx_seq (span_table s ! j) - q" and "P \<noteq> []" and "length P \<le> 1272" and "length ei = 16"
  defines "b \<equiv> span_table s ! j" and "H \<equiv> [0x9F, 3, q, 1, 18, 0x41] @ ei"
  defines "rng0 \<equiv> next_nonce_instantiate enc ei (get_r_nonce (sp_d b)) (nonce_pstring (sg_at s c))"
  defines "F \<equiv> H @ snd (CCM_encrypt_and_auth enc (ccm_key (sg_at s c)) (fst (next_nonce_generate enc rng0))
       (S2_make_aad (my_home_id s) (r_node con) (l_node con) H 22 (length P + 30)) P)"
  shows "\<exists>tag s'. S2_decrypt_msg enc nn0 con F (length F) s = (AUTH_OK, con\<lparr>con_class := c\<rparr>, P @ tag, length P, s') \<and>
    rest s' = rest s \<and> outs s' = outs s \<and>
    span_table s' = (span_table s)[j := b\<lparr>rx_seq := q, sp_d := snd (next_nonce_generate enc rng0), sp_state := SPAN_NEGOTIATED\<rparr>]"
proof -
  let ?s1 = "upd_span j (\<lambda>sp. sp\<lparr>rx_seq := q\<rparr>) s"
  let ?n = "get_r_nonce (sp_d b)"
  let ?s2 = "check_class c (upd_span j (\<lambda>sp. sp\<lparr>sp_state := SPAN_INSTANTIATE, sp_d := rng0\<rparr>) ?s1)"
  have j: "j < SPAN_TABLE_SIZE" "j < length (span_table s)"
    using wf_lookup(2) [OF assms(1,2)] assms(1) by (simp_all add: s2_wf_def)
  have rok: "drbg_ok rng0" unfolding rng0_def b_def
    by (intro instantiate_nonce_ok assms(11) length_get_r_nonce sp_d_ok [OF assms(1) j(1)] sg_ok [OF assms(1)])
  have wf2: "s2_wf ?s2" using assms(1) rok by (simp add: wf_intros)
  have s1: "span_table ?s1 ! j = b\<lparr>rx_seq := q\<rparr>" "sg_at ?s1 c = sg_at s c" using j by (simp_all add: upd_span_def sg_at_def b_def)
  have s2: "span_table ?s2 ! j = b\<lparr>rx_seq := q, sp_state := SPAN_INSTANTIATE, sp_d := rng0\<rparr>" "my_home_id ?s2 = my_home_id s"
    "sg_at ?s2 c = sg_at s c" "key_loaded ?s2 c = key_loaded s c"
    "span_table ?s2 = (span_table s)[j := b\<lparr>rx_seq := q, sp_state := SPAN_INSTANTIATE, sp_d := rng0\<rparr>]" "outs ?s2 = outs s"
    using j by (simp_all add: upd_span_def sg_at_def key_loaded_def check_class_def b_def)
  have r2: "rest ?s2 = rest s" using assms(6) by (simp add: rest_simps)
  define X where "X = snd (CCM_encrypt_and_auth enc (ccm_key (sg_at s c)) (fst (next_nonce_generate enc rng0))
       (S2_make_aad (my_home_id s) (r_node con) (l_node con) H 22 (length P + 30)) P)"
  have F: "F = [0x9F, 3, q, 1, 18, 0x41] @ ei @ X" by (simp add: F_def H_def X_def)
  have bytes: "byte_at F 2 = q" "byte_at F 3 = 1" by (simp_all add: F byte_at_def)
  have "lookup_span con ?s1 = Some j" using assms(2) by (simp add: lookup_upd_span)
  then have r: "rx_entry enc con F s = (True, Some j, ?s1)"
    using verify_seq_hit [OF assms(2,8)] assms(7) bytes by (simp add: rx_entry_def find_span_hit)
  have hyps: "sp_state (span_table ?s2 ! j) = SPAN_NEGOTIATED \<or> sp_state (span_table ?s2 ! j) = SPAN_INSTANTIATE"
    "key_loaded ?s2 c" "sp_class (span_table ?s2 ! j) = c"
    "next_nonce_generate enc (sp_d (span_table ?s2 ! j)) = (fst (next_nonce_generate enc rng0), snd (next_nonce_generate enc rng0))"
    "(22::nat) \<le> 56" "length H = 22" "(1 :: byte) AND 2 = 0" "length P \<le> 1280"
    using assms s2 by (simp_all add: H_def b_def)
  have "length P + 22 + 8 = length P + 30" by simp
  note hit = decrypt_single_hit [OF wf2 j(1) hyps(1-3) assms(6) hyps(4) assms(9) hyps(8) hyps(5-7), unfolded s2(2,3) this,
      of con "(ei, ?n)", folded F_def X_def]
  have p: "parse_clear enc nn0 con (Some j) F (length F) ?s1 = (True, 22, None, (ei, ?n), ?s2)"
    using parse_sn_effect [OF _ assms(11) _ F, of ?s1 j nn0 con] hit assms(3,5)
    by (auto simp: s1 b_def rng0_def)
  from hit obtain tag s' where d: "decrypt_single enc con j None (ei, ?n) 1 F (length F) 22 ?s2 =
      (AUTH_OK, con\<lparr>con_class := c\<rparr>, P @ tag, length P, s')" and "rest s' = rest ?s2" "outs s' = outs ?s2"
    "span_table s' = (span_table ?s2)[j := (span_table ?s2 ! j)\<lparr>sp_d := snd (next_nonce_generate enc rng0), sp_state := SPAN_NEGOTIATED\<rparr>]"
    "12 \<le> length F"
    by (auto simp: F)
  moreover from this have "S2_decrypt_msg enc nn0 con F (length F) s = (AUTH_OK, con\<lparr>con_class := c\<rparr>, P @ tag, length P, s')"
    unfolding decrypt_msg_eq [OF r p] using bytes by simp
  ultimately show ?thesis using r2 s2 by auto
qed

section \<open>The two sides\<close>

text \<open>The sender asks for a nonce and gets the report.\<close>

lemma sender_asks:
  fixes ok2 :: bool and nn0 :: "buffer \<times> buffer" and cmds :: "nodeid \<Rightarrow> byte \<Rightarrow> buffer" and time :: u16 and q :: byte
  assumes "s2_wf A" and "fsm A = IDLE" and "mpan_ptr A = None" and "\<forall>e\<in>set (mos_list A). mos_node e \<noteq> r_node ca"
    and "p \<noteq> []" and "length p \<le> 1280" and "length n = 16"
    and "find_span_by_node enc ca A = (i, A0)" and "sp_state (span_table A0 ! i) \<noteq> SPAN_NEGOTIATED"
    and "sp_state (span_table A0 ! i) \<noteq> SPAN_SOS_REMOTE_NONCE"
    and "sp_state (span_table A0 ! i) = SPAN_NO_SEQ \<or> 2 \<le> rx_seq (span_table A0 ! i) - q"
  defines "a \<equiv> span_table A0 ! i"
    and "A1 \<equiv> S2_send_frame_done_notify enc 0 time (snd (S2_send_data_all_cast enc True ca p CAST_MSG A))"
  defines "R \<equiv> upd_span i (\<lambda>sp. sp\<lparr>rx_seq := q, sp_d := set_r_nonce n (sp_d sp), sp_state := SPAN_SOS_REMOTE_NONCE\<rparr>) A1"
  shows "frame_of A1 = [0x9F, 1, tx_seq a]"
    and "S2_application_command_handler enc True ok2 nn0 cmds ca ([0x9F, 2, q, 1] @ n) (length ([0x9F, 2, q, 1] @ n)) A1 =
      send_msg_state_enter enc True R"
    and "s2_wf R" and "peer R = ca" and "tx_data R = p" and "mpan_ptr R = None" and "\<forall>e\<in>set (mos_list R). mos_node e \<noteq> r_node ca"
    and "keyring R = keyring A" and "fault R = fault A" and "lookup_span ca R = Some i"
    and "sp_state (span_table R ! i) = SPAN_SOS_REMOTE_NONCE" and "get_r_nonce (sp_d (span_table R ! i)) = n"
    and "tx_seq (span_table R ! i) = tx_seq a + 1"
proof -
  let ?S = "snd (S2_send_data_all_cast enc True ca p CAST_MSG A)"
  have wfE: "s2_wf (emit (Send_accepted ca) A)" using assms(1) by (simp add: wf_intros)
  note fE = find_span_emit [OF assms(8), of "Send_accepted ca"]
  have tE: "span_table (emit (Send_accepted ca) A0) = span_table A0" by (simp add: emit_def)
  note rq = request_nonce [OF assms(1-6) fE find_span_lookup [OF wfE fE], unfolded tE, OF assms(9,10)]
  have A1: "A1 = emit (Set_timeout (unat time)) ?S"
    using rq(1) by (simp add: A1_def awaiting_def S2_send_frame_done_notify_def S2_fsm_post_event_def fsm_wait_nonce_def fsm_send_done_def)
  show "frame_of A1 = [0x9F, 1, tx_seq a]" using rq(2) by (simp add: A1 frame_of_def emit_def a_def)
  have aw: "awaiting ca p i A1" using rq(1) by (simp add: A1 awaiting_def wf_intros lookup_simps) (simp add: emit_def)
  have i: "i < length (span_table A1)" "i < length (span_table A0)"
    using awaiting_index [OF aw] rq(3) by (simp_all add: A1 emit_def)
  have a1: "span_table A1 ! i = a\<lparr>tx_seq := tx_seq a + 1\<rparr>" using rq(3) i by (simp add: A1 emit_def a_def)
  have kr1: "keyring A1 = keyring A" using rq(4) by (simp add: A1 emit_def keyring_def)
  have "fault A0 = fault A" by (subst find_span_frame [OF assms(8)]) simp
  then have fl1: "fault A1 = fault A" using rq(6) by (simp add: A1 emit_def)
  show "S2_application_command_handler enc True ok2 nn0 cmds ca ([0x9F, 2, q, 1] @ n) (length ([0x9F, 2, q, 1] @ n)) A1 =
      send_msg_state_enter enc True R"
    using report_effect [OF aw refl refl _ refl, of q ok2 nn0 cmds n] assms(7,11) by (simp add: R_def a1 a_def)
  have "span_table R ! i = a\<lparr>tx_seq := tx_seq a + 1, rx_seq := q, sp_d := set_r_nonce n (sp_d a), sp_state := SPAN_SOS_REMOTE_NONCE\<rparr>"
    unfolding R_def upd_span_nth [OF i(1)] a1 by simp
  then show "sp_state (span_table R ! i) = SPAN_SOS_REMOTE_NONCE" "get_r_nonce (sp_d (span_table R ! i)) = n"
    "tx_seq (span_table R ! i) = tx_seq a + 1"
    using assms(7) by (simp_all add: get_set_r_nonce)
  show "s2_wf R" using aw assms(7) by (simp add: awaiting_def R_def wf_intros set_r_nonce_ok)
  show "peer R = ca" "tx_data R = p" "mpan_ptr R = None" "\<forall>e\<in>set (mos_list R). mos_node e \<noteq> r_node ca"
    "keyring R = keyring A" "fault R = fault A"
    using aw kr1 fl1 by (simp_all add: awaiting_def R_def upd_span_def keyring_def)
  show "lookup_span ca R = Some i"
    unfolding R_def upd_span_def
    by (rule lookup_keep [where s = A1 and y = "(span_table A1 ! i)\<lparr>rx_seq := q, sp_d := set_r_nonce n (sp_d (span_table A1 ! i)),
      sp_state := SPAN_SOS_REMOTE_NONCE\<rparr>"]) (use aw in \<open>simp_all add: awaiting_def\<close>)
qed

text \<open>The sender sends the message with its own nonce, and the radio reports it.\<close>

lemma sender_sends:
  fixes time :: u16
  assumes "s2_wf R" and "peer R = ca" and "tx_data R = p" and "mpan_ptr R = None"
    and "\<forall>e\<in>set (mos_list R). mos_node e \<noteq> r_node ca" and "lookup_span ca R = Some i"
    and "sp_state (span_table R ! i) = SPAN_SOS_REMOTE_NONCE" and "get_r_nonce (sp_d (span_table R ! i)) = n"
    and "tx_options ca AND 1 = 0" and "unat (con_class ca) < N_SEC_CLASS" and "length p \<le> 1272"
  defines "c \<equiv> con_class ca" and "q \<equiv> tx_seq (span_table R ! i)" and "A2 \<equiv> send_msg_state_enter enc True R"
  defines "A3 \<equiv> S2_send_frame_done_notify enc 0 time A2"
  shows "\<exists>ei. length ei = 16 \<and>
      (let rng0 = next_nonce_instantiate enc ei n (nonce_pstring (sg_at R c)); H = [0x9F, 3, q, 1, 18, 0x41] @ ei
       in frame_of A2 = H @ snd (CCM_encrypt_and_auth enc (ccm_key (sg_at R c)) (fst (next_nonce_generate enc rng0))
            (S2_make_aad (my_home_id R) (l_node ca) (r_node ca) H 22 (length p + 30)) p) \<and>
          sp_d (span_table A3 ! i) = snd (next_nonce_generate enc rng0))"
    and "lookup_span ca A3 = Some i" and "sp_state (span_table A3 ! i) = SPAN_NEGOTIATED" and "sp_class (span_table A3 ! i) = c"
    and "tx_seq (span_table A3 ! i) = q + 1" and "fsm A3 = IDLE" and "mpan_ptr A3 = None"
    and "\<forall>e\<in>set (mos_list A3). mos_node e \<noteq> r_node ca" and "keyring A3 = keyring R" and "fault A3 = fault R" and "s2_wf A3"
proof -
  let ?E = "entered R" and ?X = "S2_encrypt_and_send enc True (entered R)"
  have wE: "s2_wf ?E" "peer ?E = ca" "tx_data ?E = p" "mpan_ptr ?E = None" "\<forall>e\<in>set (mos_list ?E). mos_node e \<noteq> r_node (peer ?E)"
    "span_table ?E = span_table R" "length (tx_data ?E) \<le> 1272" "unat (con_class (peer ?E)) < N_SEC_CLASS"
    using assms(1-5,10,11) by (simp_all add: entered_simps)
  have kE: "sg_at ?E c = sg_at R c" "my_home_id ?E = my_home_id R" using keyring_sg [of ?E R] by (simp_all add: entered_simps)
  have lE: "lookup_span (peer ?E) ?E = Some i" using assms(6) by (simp add: wE(2) lookup_cong [OF wE(6)])
  have sE: "sp_state (span_table ?E ! i) = SPAN_SOS_REMOTE_NONCE" using assms(7) by (simp add: wE(6))
  obtain ei g where g: "AES_CTR_DRBG_Generate enc (prng ?E) = (ei, g)" by fastforce
  define rng0 where "rng0 = next_nonce_instantiate enc ei n (nonce_pstring (sg_at R c))"
  define H where "H = [0x9F, 3, q, 1, 18, 0x41] @ ei"
  note ee = encrypt_sn_effect [OF wE(1) lE sE wE(4,5,7,8) g, unfolded wE(2,3,6) c_def [symmetric] q_def [symmetric] kE assms(8),
      folded rng0_def, folded H_def]
  have A2: "A2 = ?X\<lparr>retry := retry ?X - 1\<rparr>" by (simp add: A2_def enter_eq Let_def)
  have "fsm ?E = SENDING_MSG" using assms(2,9) by (simp add: entered_def)
  then have "fsm A2 = SENDING_MSG" using rest_sel(7) [OF ee(2)] by (simp add: A2)
  then have A3: "A3 = S2_post_send_done_event 0 (A2\<lparr>fsm := IDLE\<rparr>)"
    by (simp add: A3_def S2_send_frame_done_notify_def S2_fsm_post_event_def fsm_sending_def fsm_send_done_def)
  have t3: "span_table A3 = (span_table R)[i := (span_table R ! i)\<lparr>sp_class := c, sp_state := SPAN_NEGOTIATED,
      sp_d := snd (next_nonce_generate enc rng0), tx_seq := q + 1\<rparr>]"
    using ee(4) by (simp add: A3 A2 S2_post_send_done_event_def emit_def)
  have iR: "i < length (span_table R)" using wf_lookup(2) [OF assms(1,6)] assms(1) by (simp add: s2_wf_def)
  then show "sp_state (span_table A3 ! i) = SPAN_NEGOTIATED" "sp_class (span_table A3 ! i) = c" "tx_seq (span_table A3 ! i) = q + 1"
    by (simp_all add: t3)
  show "\<exists>ei. length ei = 16 \<and>
      (let rng0 = next_nonce_instantiate enc ei n (nonce_pstring (sg_at R c)); H = [0x9F, 3, q, 1, 18, 0x41] @ ei
       in frame_of A2 = H @ snd (CCM_encrypt_and_auth enc (ccm_key (sg_at R c)) (fst (next_nonce_generate enc rng0))
            (S2_make_aad (my_home_id R) (l_node ca) (r_node ca) H 22 (length p + 30)) p) \<and>
          sp_d (span_table A3 ! i) = snd (next_nonce_generate enc rng0))"
    using ee(1,3) iR by (intro exI [of _ ei]) (simp add: Let_def t3 rng0_def H_def A2 frame_of_def)
  show "lookup_span ca A3 = Some i" by (rule lookup_keep [OF assms(6) t3]) simp_all
  show "fsm A3 = IDLE" "mpan_ptr A3 = None" "\<forall>e\<in>set (mos_list A3). mos_node e \<noteq> r_node ca" "fault A3 = fault R"
    using rest_sel(5,6,8) [OF ee(2)] assms(2,4,5) by (simp_all add: A3 A2 S2_post_send_done_event_def emit_def entered_simps)
  show "keyring A3 = keyring R"
    using rest_sel(1-3) [OF ee(2)] entered_simps(6) [of R] by (simp add: A3 A2 S2_post_send_done_event_def emit_def keyring_def)
  show "s2_wf A3" unfolding A3 A2 S2_post_send_done_event_def by (intro wf_intros wf_encrypt wE(1))
qed

end

section \<open>The handshake\<close>

text \<open>
  \<open>A\<close> sends the message \<open>p\<close>: nonce get to \<open>B\<close>, nonce report back, message to \<open>B\<close>. The radio of \<open>A\<close> reports both
  of its transmissions.
\<close>

definition handshake ::
  "(buffer \<Rightarrow> buffer \<Rightarrow> buffer) \<Rightarrow> (nodeid \<Rightarrow> byte \<Rightarrow> buffer) \<Rightarrow> buffer \<times> buffer \<Rightarrow> u16 \<Rightarrow> s2_connection \<Rightarrow> s2_connection \<Rightarrow>
     buffer \<Rightarrow> s2 \<times> s2 \<Rightarrow> s2 \<times> s2" where
  "handshake enc cmds nn0 time ca cb p = (\<lambda>(A, B).
     let A1 = S2_send_frame_done_notify enc S2_TRANSMIT_COMPLETE_OK time (snd (S2_send_data_all_cast enc True ca p CAST_MSG A));
         B1 = S2_application_command_handler enc True True nn0 cmds cb (frame_of A1) (length (frame_of A1)) B;
         A2 = S2_application_command_handler enc True True nn0 cmds ca (frame_of B1) (length (frame_of B1)) A1;
         B2 = S2_application_command_handler enc True True nn0 cmds cb (frame_of A2) (length (frame_of A2)) B1
     in (S2_send_frame_done_notify enc S2_TRANSMIT_COMPLETE_OK time A2, B2))"

text \<open>
  What the two contexts need for it: the same network and the same key for the class of the connection,
  loaded at \<open>B\<close>; no usable SPAN at \<open>A\<close>; sequence numbers that are not taken for duplicates; and at \<open>B\<close> the
  class of the entry, which is the first one it tries.
\<close>

definition can_sync :: "(buffer \<Rightarrow> buffer \<Rightarrow> buffer) \<Rightarrow> s2_connection \<Rightarrow> s2_connection \<Rightarrow> s2 \<Rightarrow> s2 \<Rightarrow> bool" where
  "can_sync enc ca cb A B =
     (l_node cb = r_node ca \<and> r_node cb = l_node ca \<and> my_home_id A = my_home_id B \<and>
      unat (con_class ca) < N_SEC_CLASS \<and> key_loaded B (con_class ca) \<and> sg_at A (con_class ca) = sg_at B (con_class ca) \<and>
      (let a = entry enc ca A; b = entry enc cb B
       in sp_state a \<noteq> SPAN_NEGOTIATED \<and> sp_state a \<noteq> SPAN_SOS_REMOTE_NONCE \<and> sp_class b = con_class ca \<and>
          (sp_state a = SPAN_NO_SEQ \<or> 2 \<le> rx_seq a - tx_seq b) \<and> (sp_state b = SPAN_NO_SEQ \<or> 2 \<le> rx_seq b - tx_seq a)))"

context block_cipher
begin

lemma handshake_step:
  assumes "s2_wf A" and "s2_wf B" and "can_sync enc ca cb A B" and "quiet ca cb A B"
    and "length (fst nn0) = 16" and "length (snd nn0) = 16"
    and "p \<noteq> []" and "length p \<le> 1272" and "hd p \<noteq> 0x9F" and "handshake enc cmds nn0 time ca cb p (A, B) = (A', B')"
  shows "\<exists>n. outs B' = Msg_received (seen_as ca cb) p # Send_frame_no_cb cb n # outs B" and "in_sync ca cb A' B'"
    and "quiet ca cb A' B'" and "s2_wf A'" and "s2_wf B'" and "fault A' = fault A" and "fault B' = fault B"
proof -
  obtain i A0 where fa: "find_span_by_node enc ca A = (i, A0)" by fastforce
  obtain j B0 where fb: "find_span_by_node enc cb B = (j, B0)" by fastforce
  define a b c where "a = span_table A0 ! i" and "b = span_table B0 ! j" and "c = con_class ca"
  have cs: "l_node cb = r_node ca" "r_node cb = l_node ca" "my_home_id A = my_home_id B" "unat c < N_SEC_CLASS"
    "key_loaded B c" "sg_at A c = sg_at B c" "sp_state a \<noteq> SPAN_NEGOTIATED" "sp_state a \<noteq> SPAN_SOS_REMOTE_NONCE" "sp_class b = c"
    "sp_state a = SPAN_NO_SEQ \<or> 2 \<le> rx_seq a - tx_seq b" "sp_state b = SPAN_NO_SEQ \<or> 2 \<le> rx_seq b - tx_seq a"
    using assms(3) by (simp_all add: can_sync_def Let_def entry_def fa fb a_def b_def c_def)
  have q: "fsm A = IDLE" "fsm B = IDLE" "mpan_ptr A = None" "\<forall>e\<in>set (mos_list A). mos_node e \<noteq> r_node ca"
    "tx_options ca AND 1 = 0" "rx_options cb AND 1 = 0" using assms(4) by (simp_all add: quiet_def)
  define A1 where "A1 = S2_send_frame_done_notify enc 0 time (snd (S2_send_data_all_cast enc True ca p CAST_MSG A))"
  define B1 where "B1 = S2_application_command_handler enc True True nn0 cmds cb [0x9F, 1, tx_seq a] 3 B"
  obtain n where n: "length n = 16" "outs B1 = Send_frame_no_cb cb ([0x9F, 2, tx_seq b, 1] @ n) # outs B"
      "span_table B1 = (span_table B0)[j := b\<lparr>rx_seq := tx_seq a, sp_state := SPAN_SOS_LOCAL_NONCE,
        sp_d := set_r_nonce n (sp_d b), tx_seq := tx_seq b + 1\<rparr>]"
      "lookup_span cb B1 = Some j" "fsm B1 = IDLE" "keyring B1 = keyring B" "fault B1 = fault B" "s2_wf B1"
    using nonce_get_effect [OF assms(2) q(6) fb, of "tx_seq a" True True nn0 cmds] cs(11) q(2) by (auto simp: B1_def b_def)
  have "length p \<le> 1280" using assms(8) by simp
  note sa = sender_asks [where q = "tx_seq b" and time = time, OF assms(1) q(1,3,4) assms(7) this n(1) fa cs(7,8,10) [unfolded a_def],
      folded a_def, folded A1_def]
  define R where "R = upd_span i (\<lambda>sp. sp\<lparr>rx_seq := tx_seq b, sp_d := set_r_nonce n (sp_d sp), sp_state := SPAN_SOS_REMOTE_NONCE\<rparr>) A1"
  note sa = sa [folded R_def]
  note ss = sender_sends [where time = time, OF sa(3-7,10-12) q(5) cs(4) [unfolded c_def] assms(8), folded c_def, unfolded sa(13)]
  let ?A2 = "send_msg_state_enter enc True R"
  have kR: "sg_at R c = sg_at B1 c" "my_home_id R = my_home_id B1" "key_loaded B1 c"
    using keyring_sg [OF sa(8)] keyring_sg [OF n(6)] cs by simp_all
  from ss(1) obtain ei where ei: "length ei = 16" and f: "let rng0 = next_nonce_instantiate enc ei n (nonce_pstring (sg_at B1 c)); H = [0x9F, 3, tx_seq a + 1, 1, 18, 0x41] @ ei
       in frame_of ?A2 = H @ snd (CCM_encrypt_and_auth enc (ccm_key (sg_at B1 c)) (fst (next_nonce_generate enc rng0))
            (S2_make_aad (my_home_id B1) (r_node cb) (l_node cb) H 22 (length p + 30)) p) \<and>
          sp_d (span_table (S2_send_frame_done_notify enc 0 time ?A2) ! i) = snd (next_nonce_generate enc rng0)"
    using kR cs(1,2) by auto
  define rng0 where "rng0 = next_nonce_instantiate enc ei n (nonce_pstring (sg_at B1 c))"
  have j: "j < length (span_table B1)" "j < length (span_table B0)"
    using wf_lookup(2) [OF n(8,4)] n(3,8) by (simp_all add: s2_wf_def)
  have bj: "sp_state (span_table B1 ! j) = SPAN_SOS_LOCAL_NONCE" "sp_class (span_table B1 ! j) = c"
    "2 \<le> rx_seq (span_table B1 ! j) - (tx_seq a + 1)" "get_r_nonce (sp_d (span_table B1 ! j)) = n"
    using n(1,3) j cs(9) by (simp_all add: get_set_r_nonce)
  note dec = decrypt_sn_effect [OF n(8,4) bj(1) kR(3) bj(2) cs(4) q(6) bj(3) assms(7,8) ei, of nn0, unfolded bj(4), folded rng0_def]
  have frB: "frame_of B1 = [0x9F, 2, tx_seq b, 1] @ n" using n(2) by (simp add: frame_of_def)
  have len: "length [0x9F, 1, tx_seq a] = 3" by simp
  have hs: "handshake enc cmds nn0 time ca cb p (A, B) = (S2_send_frame_done_notify enc 0 time ?A2,
      S2_application_command_handler enc True True nn0 cmds cb (frame_of ?A2) (length (frame_of ?A2)) B1)"
    unfolding handshake_def prod.case Let_def A1_def [symmetric] sa(1) len B1_def [symmetric] frB sa(2) ..
  have A': "A' = S2_send_frame_done_notify enc 0 time ?A2"
    and B': "B' = S2_application_command_handler enc True True nn0 cmds cb (frame_of ?A2) (length (frame_of ?A2)) B1"
    using assms(10) unfolding hs by simp_all
  obtain tag s' where d: "S2_decrypt_msg enc nn0 cb (frame_of ?A2) (length (frame_of ?A2)) B1 =
      (AUTH_OK, cb\<lparr>con_class := c\<rparr>, p @ tag, length p, s')" and s': "rest s' = rest B1" "outs s' = outs B1"
    "span_table s' = (span_table B1)[j := (span_table B1 ! j)\<lparr>rx_seq := tx_seq a + 1,
       sp_d := snd (next_nonce_generate enc rng0), sp_state := SPAN_NEGOTIATED\<rparr>]"
    using dec f by (auto simp: Let_def rng0_def [symmetric])
  have B2: "B' = emit (Msg_received (seen_as ca cb) p) s'"
    unfolding B' using d f rest_sel(7) [OF s'(1)] n(5) assms(7,9)
    by (intro handler_delivers [where tag = tag]) (simp_all add: c_def Let_def byte_at_def)
  then show "\<exists>n. outs B' = Msg_received (seen_as ca cb) p # Send_frame_no_cb cb n # outs B"
    using n(2) s'(2) by (simp add: emit_def)
  show "s2_wf A'" "fault A' = fault A" using ss(10,11) sa(9) A' by simp_all
  show "s2_wf B'" unfolding B' by (rule wf_handler [OF n(8) assms(5,6)])
  show "fault B' = fault B" using rest_sel(8) [OF s'(1)] n(7) B2 by (simp add: emit_def)
  show "quiet ca cb A' B'"
    using ss(6-8) q rest_sel(7) [OF s'(1)] n(5) by (simp add: A' B2 quiet_def) (simp add: emit_def)
  have kB: "keyring B' = keyring B" using rest_sel(1-3) [OF s'(1)] n(6) by (simp add: B2 emit_def keyring_def)
  have kA: "keyring A' = keyring A" using ss(9) sa(8) A' by simp
  have tB: "span_table B' = (span_table B1)[j := (span_table B1 ! j)\<lparr>rx_seq := tx_seq a + 1,
       sp_d := snd (next_nonce_generate enc rng0), sp_state := SPAN_NEGOTIATED\<rparr>]"
    using s'(3) B2 by (simp add: emit_def)
  have lB: "lookup_span cb B' = Some j" by (rule lookup_keep [OF n(4) tB]) simp_all
  have "2 \<le> tx_seq a + 1 - (tx_seq a + 1 + 1)" by simp
  then show "in_sync ca cb A' B'"
    using ss(2-5) lB cs keyring_sg [OF kA] keyring_sg [OF kB] tB j bj(2) f
    by (simp add: in_sync_def A' Let_def c_def rng0_def)
qed

end

section \<open>Properties\<close>

text \<open>
  C7. Synchronisation: when a node sends to another one without a usable SPAN, the exchange of nonce get,
  nonce report and the message with the sender's nonce delivers the message to the application of the other
  node and leaves both contexts in sync: every further sequence of messages is delivered completely,
  unchanged and in order. This holds for any two well-formed contexts that share the network key of the
  class (which is the one the receiver tries first), for messages of at most 1272 bytes in the handshake and
  1280 bytes afterwards, and no array is accessed outside its bounds.
\<close>

theorem s2_handshake_synchronises:
  assumes "s2_wf A" and "s2_wf B" and "can_sync AES128_ECB_encrypt ca cb A B" and "quiet ca cb A B"
    and "length (fst nn0) = 16" and "length (snd nn0) = 16" and "length p \<le> 1272"
    and "\<forall>m\<in>set (p # ps). m \<noteq> [] \<and> length m \<le> 1280 \<and> hd m \<noteq> 0x9F"
    and "fold (exchange AES128_ECB_encrypt cmds nn0 ca cb) ps (handshake AES128_ECB_encrypt cmds nn0 time ca cb p (A, B)) = (A', B')"
  shows "\<exists>n. outs B' = rev (map (Msg_received (seen_as ca cb)) (p # ps)) @ Send_frame_no_cb cb n # outs B \<and>
    in_sync ca cb A' B' \<and> fault A' = fault A \<and> fault B' = fault B"
proof -
  obtain A1 B1 where h: "handshake AES128_ECB_encrypt cmds nn0 time ca cb p (A, B) = (A1, B1)" by fastforce
  have p: "p \<noteq> []" "hd p \<noteq> 0x9F" and ps: "\<forall>m\<in>set ps. m \<noteq> [] \<and> length m \<le> 1280 \<and> hd m \<noteq> 0x9F" using assms(8) by simp_all
  note hs = aes.handshake_step [OF assms(1-6) p(1) assms(7) p(2) h]
  from aes.exchange_stream [OF hs(4,5,2,3) assms(5,6) ps assms(9) [unfolded h]] hs(1,6,7) show ?thesis by auto
qed

section \<open>Witnesses\<close>

text \<open>A node that was just started and has one network key.\<close>

definition started :: s2 where
  "started = S2_init_ctx AES128_ECB_encrypt (\<lambda>k. if k = 1 then Some (replicate 16 5) else None) 0xC0FFEE zero_drbg"

lemma started_wf: "s2_wf started"
  unfolding started_def by (rule aes.wf_init) (auto simp: drbg_ok_def zero_drbg_def split: if_splits)

lemma started_entry:
  "sp_state (entry AES128_ECB_encrypt con started) = SPAN_NO_SEQ" "sp_class (entry AES128_ECB_encrypt con started) = 0"
proof -
  obtain q g' where "find_span_by_node AES128_ECB_encrypt con (emit Stop_timeout started) = (0, (emit Stop_timeout started)
      \<lparr>prng := g', span_table := (replicate SPAN_TABLE_SIZE zero_span)
        [0 := zero_span\<lparr>sp_state := SPAN_NO_SEQ, lnode := l_node con, rnode := r_node con, tx_seq := q\<rparr>]\<rparr>)"
    unfolding started_def using init_find_span by metis
  moreover obtain i s where "find_span_by_node AES128_ECB_encrypt con started = (i, s)" by fastforce
  moreover note find_span_emit [OF this, of Stop_timeout]
  ultimately have "i = 0" "span_table (emit Stop_timeout s) = zero_span\<lparr>sp_state := SPAN_NO_SEQ, lnode := l_node con, rnode := r_node con, tx_seq := q\<rparr> #
      replicate 253 zero_span" by (simp_all add: fresh_table)
  with \<open>find_span_by_node AES128_ECB_encrypt con started = (i, s)\<close>
  have "entry AES128_ECB_encrypt con started = zero_span\<lparr>sp_state := SPAN_NO_SEQ, lnode := l_node con, rnode := r_node con, tx_seq := q\<rparr>"
    by (simp add: entry_def emit_def)
  then show "sp_state (entry AES128_ECB_encrypt con started) = SPAN_NO_SEQ" "sp_class (entry AES128_ECB_encrypt con started) = 0"
    by (simp_all add: zero_span_def)
qed

lemma started_can_sync: "can_sync AES128_ECB_encrypt (demo_con 1 2) (demo_con 2 1) started started"
proof -
  have "key_loaded started 0"
    by (simp add: started_def S2_init_ctx_def s2_restore_keys_def S2_network_key_update_def Let_def zero_ctx_def key_loaded_def)
  then show ?thesis using started_entry by (simp add: can_sync_def demo_con_def zero_con_def Let_def)
qed

lemma started_quiet: "quiet (demo_con 1 2) (demo_con 2 1) started started"
  by (simp add: quiet_def started_def init_ctx_fields demo_con_def zero_con_def)

theorem s2_handshake_synchronises_witness:
  "\<exists>A' B' n. exchange AES128_ECB_encrypt (\<lambda>_ _. []) (replicate 16 0, replicate 16 0) (demo_con 1 2) (demo_con 2 1) [0x25]
       (handshake AES128_ECB_encrypt (\<lambda>_ _. []) (replicate 16 0, replicate 16 0) 7 (demo_con 1 2) (demo_con 2 1) [0x20, 1, 0xFF]
          (started, started)) = (A', B') \<and>
     outs B' = [Msg_received (demo_con 2 1) [0x25], Msg_received (demo_con 2 1) [0x20, 1, 0xFF], Send_frame_no_cb (demo_con 2 1) n]"
proof -
  let ?e = "fold (exchange AES128_ECB_encrypt (\<lambda>_ _. []) (replicate 16 0, replicate 16 0) (demo_con 1 2) (demo_con 2 1)) [[0x25]]
       (handshake AES128_ECB_encrypt (\<lambda>_ _. []) (replicate 16 0, replicate 16 0) 7 (demo_con 1 2) (demo_con 2 1) [0x20, 1, 0xFF]
          (started, started))"
  obtain A' B' where e: "?e = (A', B')" by fastforce
  have "seen_as (demo_con 1 2) (demo_con 2 1) = demo_con 2 1" "outs started = []"
    by (simp_all add: seen_as_def demo_con_def zero_con_def IS_LR_NODE_def started_def init_ctx_fields Let_def convert_lr_to_normal_keyclass_def)
  then obtain n where "outs B' = [Msg_received (demo_con 2 1) [0x25], Msg_received (demo_con 2 1) [0x20, 1, 0xFF], Send_frame_no_cb (demo_con 2 1) n]"
    using s2_handshake_synchronises [OF started_wf started_wf started_can_sync started_quiet _ _ _ _ e] by auto
  then show ?thesis using e by auto
qed

end
