(* ===== verification/Crc32.thy ===== *)
theory Crc32
  imports ZGW_Prelude
begin

text \<open>
  The table-driven CRC-32 of \<open>src/src/crc32alg.c\<close>, used to fingerprint frames. Its reference is the
  shift register the table was made from: eight shift/exclusive-or steps per byte.
\<close>

definition crc32_tab :: "u32 list" where
  "crc32_tab = [
    0x00000000, 0x77073096, 0xEE0E612C, 0x990951BA, 0x076DC419, 0x706AF48F, 0xE963A535, 0x9E6495A3,
    0x0EDB8832, 0x79DCB8A4, 0xE0D5E91E, 0x97D2D988, 0x09B64C2B, 0x7EB17CBD, 0xE7B82D07, 0x90BF1D91,
    0x1DB71064, 0x6AB020F2, 0xF3B97148, 0x84BE41DE, 0x1ADAD47D, 0x6DDDE4EB, 0xF4D4B551, 0x83D385C7,
    0x136C9856, 0x646BA8C0, 0xFD62F97A, 0x8A65C9EC, 0x14015C4F, 0x63066CD9, 0xFA0F3D63, 0x8D080DF5,
    0x3B6E20C8, 0x4C69105E, 0xD56041E4, 0xA2677172, 0x3C03E4D1, 0x4B04D447, 0xD20D85FD, 0xA50AB56B,
    0x35B5A8FA, 0x42B2986C, 0xDBBBC9D6, 0xACBCF940, 0x32D86CE3, 0x45DF5C75, 0xDCD60DCF, 0xABD13D59,
    0x26D930AC, 0x51DE003A, 0xC8D75180, 0xBFD06116, 0x21B4F4B5, 0x56B3C423, 0xCFBA9599, 0xB8BDA50F,
    0x2802B89E, 0x5F058808, 0xC60CD9B2, 0xB10BE924, 0x2F6F7C87, 0x58684C11, 0xC1611DAB, 0xB6662D3D,
    0x76DC4190, 0x01DB7106, 0x98D220BC, 0xEFD5102A, 0x71B18589, 0x06B6B51F, 0x9FBFE4A5, 0xE8B8D433,
    0x7807C9A2, 0x0F00F934, 0x9609A88E, 0xE10E9818, 0x7F6A0DBB, 0x086D3D2D, 0x91646C97, 0xE6635C01,
    0x6B6B51F4, 0x1C6C6162, 0x856530D8, 0xF262004E, 0x6C0695ED, 0x1B01A57B, 0x8208F4C1, 0xF50FC457,
    0x65B0D9C6, 0x12B7E950, 0x8BBEB8EA, 0xFCB9887C, 0x62DD1DDF, 0x15DA2D49, 0x8CD37CF3, 0xFBD44C65,
    0x4DB26158, 0x3AB551CE, 0xA3BC0074, 0xD4BB30E2, 0x4ADFA541, 0x3DD895D7, 0xA4D1C46D, 0xD3D6F4FB,
    0x4369E96A, 0x346ED9FC, 0xAD678846, 0xDA60B8D0, 0x44042D73, 0x33031DE5, 0xAA0A4C5F, 0xDD0D7CC9,
    0x5005713C, 0x270241AA, 0xBE0B1010, 0xC90C2086, 0x5768B525, 0x206F85B3, 0xB966D409, 0xCE61E49F,
    0x5EDEF90E, 0x29D9C998, 0xB0D09822, 0xC7D7A8B4, 0x59B33D17, 0x2EB40D81, 0xB7BD5C3B, 0xC0BA6CAD,
    0xEDB88320, 0x9ABFB3B6, 0x03B6E20C, 0x74B1D29A, 0xEAD54739, 0x9DD277AF, 0x04DB2615, 0x73DC1683,
    0xE3630B12, 0x94643B84, 0x0D6D6A3E, 0x7A6A5AA8, 0xE40ECF0B, 0x9309FF9D, 0x0A00AE27, 0x7D079EB1,
    0xF00F9344, 0x8708A3D2, 0x1E01F268, 0x6906C2FE, 0xF762575D, 0x806567CB, 0x196C3671, 0x6E6B06E7,
    0xFED41B76, 0x89D32BE0, 0x10DA7A5A, 0x67DD4ACC, 0xF9B9DF6F, 0x8EBEEFF9, 0x17B7BE43, 0x60B08ED5,
    0xD6D6A3E8, 0xA1D1937E, 0x38D8C2C4, 0x4FDFF252, 0xD1BB67F1, 0xA6BC5767, 0x3FB506DD, 0x48B2364B,
    0xD80D2BDA, 0xAF0A1B4C, 0x36034AF6, 0x41047A60, 0xDF60EFC3, 0xA867DF55, 0x316E8EEF, 0x4669BE79,
    0xCB61B38C, 0xBC66831A, 0x256FD2A0, 0x5268E236, 0xCC0C7795, 0xBB0B4703, 0x220216B9, 0x5505262F,
    0xC5BA3BBE, 0xB2BD0B28, 0x2BB45A92, 0x5CB36A04, 0xC2D7FFA7, 0xB5D0CF31, 0x2CD99E8B, 0x5BDEAE1D,
    0x9B64C2B0, 0xEC63F226, 0x756AA39C, 0x026D930A, 0x9C0906A9, 0xEB0E363F, 0x72076785, 0x05005713,
    0x95BF4A82, 0xE2B87A14, 0x7BB12BAE, 0x0CB61B38, 0x92D28E9B, 0xE5D5BE0D, 0x7CDCEFB7, 0x0BDBDF21,
    0x86D3D2D4, 0xF1D4E242, 0x68DDB3F8, 0x1FDA836E, 0x81BE16CD, 0xF6B9265B, 0x6FB077E1, 0x18B74777,
    0x88085AE6, 0xFF0F6A70, 0x66063BCA, 0x11010B5C, 0x8F659EFF, 0xF862AE69, 0x616BFFD3, 0x166CCF45,
    0xA00AE278, 0xD70DD2EE, 0x4E048354, 0x3903B3C2, 0xA7672661, 0xD06016F7, 0x4969474D, 0x3E6E77DB,
    0xAED16A4A, 0xD9D65ADC, 0x40DF0B66, 0x37D83BF0, 0xA9BCAE53, 0xDEBB9EC5, 0x47B2CF7F, 0x30B5FFE9,
    0xBDBDF21C, 0xCABAC28A, 0x53B39330, 0x24B4A3A6, 0xBAD03605, 0xCDD70693, 0x54DE5729, 0x23D967BF,
    0xB3667A2E, 0xC4614AB8, 0x5D681B02, 0x2A6F2B94, 0xB40BBE37, 0xC30C8EA1, 0x5A05DF1B, 0x2D02EF8D]"

definition crc32_step :: "u32 \<Rightarrow> byte \<Rightarrow> u32" where
  "crc32_step crc b = crc32_tab ! unat ((crc XOR ucast b) AND 0xFF) XOR drop_bit 8 crc"

definition crc32 :: "buffer \<Rightarrow> u32 \<Rightarrow> u32" where
  "crc32 buf crc = foldl crc32_step (crc XOR 0xFFFFFFFF) buf XOR 0xFFFFFFFF"

text \<open>The shift register with the reversed polynomial \<open>0xEDB88320\<close>.\<close>

definition lfsr :: "u32 \<Rightarrow> u32" where
  "lfsr c = drop_bit 1 c XOR (if bit c 0 then 0xEDB88320 else 0)"

definition crc32_bitwise :: "buffer \<Rightarrow> u32 \<Rightarrow> u32" where
  "crc32_bitwise buf crc =
     foldl (\<lambda>c b. (lfsr ^^ 8) (c XOR ucast b)) (crc XOR 0xFFFFFFFF) buf XOR 0xFFFFFFFF"

lemma lfsr_xor: "lfsr (a XOR b) = lfsr a XOR lfsr b"
  by (auto simp: lfsr_def drop_bit_xor bit_xor_iff xor.assoc xor.commute xor.left_commute)

lemma lfsr_pow_xor: "(lfsr ^^ n) (a XOR b) = (lfsr ^^ n) a XOR (lfsr ^^ n) b"
  by (induction n) (simp_all add: lfsr_xor)

lemma lfsr_pow_high:
  assumes "take_bit n a = 0"
  shows "(lfsr ^^ n) a = drop_bit n a"
  using assms
proof (induction n)
  case (Suc n)
  have bits: "\<not> bit a i" if "i < Suc n" for i
  proof -
    have "bit (take_bit (Suc n) a) i = bit a i" using that by (simp add: bit_take_bit_iff)
    with Suc.prems show ?thesis by simp
  qed
  have "take_bit n a = 0" by (rule bit_eqI) (use bits in \<open>auto simp: bit_take_bit_iff\<close>)
  with Suc.IH have "(lfsr ^^ Suc n) a = lfsr (drop_bit n a)" by simp
  also have "\<dots> = drop_bit (Suc n) a" using bits by (simp add: lfsr_def bit_drop_bit_eq)
  finally show ?case .
qed simp

text \<open>
  The table entry of a sum of two disjoint indices is the exclusive or of the entries, so the table
  is determined by its entries at powers of two.
\<close>

primrec xor_expand :: "u32 list \<Rightarrow> u32 list" where
  "xor_expand [] = [0]"
| "xor_expand (b # bs) = (let t = xor_expand bs in t @ map ((XOR) b) t)"

lemma of_nat_add_pow2:
  assumes "i < 2 ^ n" and "n < 32"
  shows "(of_nat (2 ^ n + i) :: u32) = of_nat (2 ^ n) XOR of_nat i"
proof -
  have i: "\<not> bit i n" using assms(1) by (metis bit_take_bit_iff less_irrefl take_bit_nat_eq_self)
  have "(2 ^ n + i :: nat) = 2 ^ n XOR i"
  proof -
    have "(2 ^ n :: nat) AND i = 0" by (rule bit_eqI) (use i in \<open>auto simp: bit_and_iff bit_exp_iff\<close>)
    then show ?thesis by (metis disjunctive_add_eq_xor)
  qed
  then show ?thesis by (simp add: of_nat_xor_eq del: of_nat_add)
qed

lemma xor_expand_linear:
  assumes lin: "\<And>x y. L (x XOR y) = L x XOR L y" and zero: "L 0 = 0" and "n \<le> 32"
  shows "map (\<lambda>i. L (of_nat i :: u32)) [0..<2 ^ n] = xor_expand (map (\<lambda>k. L (of_nat (2 ^ k))) (rev [0..<n]))"
  using assms(3)
proof (induction n)
  case 0
  then show ?case using zero by simp
next
  case (Suc n)
  have "[0..<2 ^ Suc n] = [0..<2 ^ n] @ map (\<lambda>i. 2 ^ n + i) [0..<2 ^ n]"
    by (simp add: map_add_upt mult_2 upt_add_eq_append [of 0 "2 ^ n" "2 ^ n"] add.commute)
  then have "map (\<lambda>i. L (of_nat i)) [0..<2 ^ Suc n] =
      map (\<lambda>i. L (of_nat i)) [0..<2 ^ n] @ map (\<lambda>i. L (of_nat (2 ^ n + i))) [0..<2 ^ n]"
    by (simp only: map_append map_map o_def)
  also have "map (\<lambda>i. L (of_nat (2 ^ n + i))) [0..<2 ^ n] =
      map ((XOR) (L (of_nat (2 ^ n)))) (map (\<lambda>i. L (of_nat i)) [0..<2 ^ n])"
    using Suc.prems by (simp add: of_nat_add_pow2 lin del: of_nat_add)
  finally show ?case using Suc by (simp add: Let_def)
qed

lemma lfsr8_basis:
  "map (\<lambda>k. (lfsr ^^ 8) (of_nat (2 ^ k))) (rev [0..<8]) =
     [0xEDB88320, 0x76DC4190, 0x3B6E20C8, 0x1DB71064, 0x0EDB8832, 0x076DC419, 0xEE0E612C, 0x77073096]"
  by code_simp

lemma crc32_tab_expand:
  "crc32_tab = xor_expand [0xEDB88320, 0x76DC4190, 0x3B6E20C8, 0x1DB71064, 0x0EDB8832, 0x076DC419, 0xEE0E612C, 0x77073096]"
  by (simp add: crc32_tab_def Let_def)

lemma crc32_tab_lfsr: "crc32_tab = map (\<lambda>i. (lfsr ^^ 8) (of_nat i)) [0..<256]"
proof -
  have zero: "(lfsr ^^ 8) 0 = 0" by (simp add: lfsr_pow_high)
  show ?thesis
    using xor_expand_linear [OF lfsr_pow_xor zero, of 8] lfsr8_basis crc32_tab_expand by simp
qed

lemma crc32_step_lfsr: "crc32_step c b = (lfsr ^^ 8) (c XOR ucast b)"
proof -
  let ?x = "c XOR ucast b" and ?lo = "take_bit 8 (c XOR ucast b) :: u32"
  let ?hi = "?x XOR ?lo"
  have lo: "?x AND 0xFF = ?lo" by (simp add: take_bit_eq_mask mask_eq_exp_minus_1)
  have small: "unat ?lo < 256"
    using take_bit_nat_less_exp [of 8 "unat ?x"] by (simp only: unsigned_take_bit_eq) simp
  have "take_bit 8 ?hi = 0" by (rule bit_eqI) (auto simp: bit_simps)
  then have "(lfsr ^^ 8) ?hi = drop_bit 8 ?hi" by (rule lfsr_pow_high)
  also have "\<dots> = drop_bit 8 c"
    by (rule bit_eqI) (auto simp: bit_simps dest: bit_imp_le_length)
  finally have hi: "(lfsr ^^ 8) ?hi = drop_bit 8 c" .
  have swap: "l XOR (x XOR l) = x" for x l :: u32 by (metis xor.commute xor_cancel_left)
  have "(lfsr ^^ 8) ?x = (lfsr ^^ 8) (?lo XOR ?hi)" by (simp only: swap)
  also have "\<dots> = (lfsr ^^ 8) ?lo XOR drop_bit 8 c" by (subst lfsr_pow_xor) (simp only: hi)
  also have "(lfsr ^^ 8) ?lo = crc32_tab ! unat ?lo" using small by (simp add: crc32_tab_lfsr)
  finally show ?thesis by (simp add: crc32_step_def lo)
qed

section \<open>Properties\<close>

text \<open>
  C16. The table-driven CRC equals the bitwise shift register with polynomial \<open>0xEDB88320\<close> for every
  buffer and every start value, so all 256 table entries are right.
\<close>

theorem crc32_is_bitwise: "crc32 buf crc = crc32_bitwise buf crc"
  by (simp add: crc32_def crc32_bitwise_def crc32_step_lfsr [abs_def])

end
