(* ===== verification/Addressing.thy ===== *)
theory Addressing
  imports ZGW_Prelude
begin

text \<open>
  Addresses of Z-Wave nodes: the table that gives every node an IPv4 address on the gateway's
  network (\<open>src/src/ipv46_nat.c\<close>) and the mapping between node identifiers and IPv6 and link-layer
  addresses (\<open>src/src/zip_router_ipv6_utils.c\<close>).

  Addresses are kept in wire order: an IPv4 address is its two 16-bit halves, an IPv6 address its 16
  bytes. The NAT table is the C array with its size counter; entries behind the counter are stale.
  The abstract view of the table is the finite map from node identifiers to address suffixes, and the
  table operations are shown to implement the operations of the locale \<open>node_table\<close> on it.
\<close>

section \<open>The NAT table\<close>

record nat_entry =
  ne_nodeid :: nodeid
  ne_ip_suffix :: u16

record nat_state =
  nat_table :: "nat_entry list"
  nat_table_size :: nat
  nat_released :: "nodeid list"

text \<open>The IPv4 configuration of the gateway and its own node identifier.\<close>

record net_cfg =
  uip_hostaddr :: "u16 \<times> u16"
  uip_netmask :: "u16 \<times> u16"
  MyNodeID :: nodeid

definition MAX_NAT_ENTRIES :: nat where "MAX_NAT_ENTRIES = 1000"

definition nat_entries :: "nat_state \<Rightarrow> nat_entry list" where
  "nat_entries s = take (nat_table_size s) (nat_table s)"

definition uip_ipaddr_maskcmp :: "u16 \<times> u16 \<Rightarrow> u16 \<times> u16 \<Rightarrow> u16 \<times> u16 \<Rightarrow> bool" where
  "uip_ipaddr_maskcmp a b m \<longleftrightarrow>
     fst a AND fst m = fst b AND fst m \<and> snd a AND snd m = snd b AND snd m"

definition ipv46nat_get_nat_addr :: "net_cfg \<Rightarrow> nat_state \<Rightarrow> u16 \<times> u16 \<Rightarrow> nodeid" where
  "ipv46nat_get_nat_addr net s ip =
     (if uip_ipaddr_maskcmp ip (uip_hostaddr net) (uip_netmask net)
      then case find (\<lambda>e. ne_ip_suffix e = snd ip AND NOT (snd (uip_netmask net))) (nat_entries s) of
             Some e \<Rightarrow> ne_nodeid e | None \<Rightarrow> 0
      else 0)"

definition ipv46nat_add_entry :: "net_cfg \<Rightarrow> nodeid \<Rightarrow> nat_state \<Rightarrow> byte \<times> nat_state" where
  "ipv46nat_add_entry net node s =
     (if nat_table_size s \<ge> MAX_NAT_ENTRIES then (0, s)
      else if \<exists>e\<in>set (nat_entries s). ne_nodeid e = node then (of_nat (nat_table_size s), s)
      else
        let e = \<lparr>ne_nodeid = node,
                 ne_ip_suffix = (if node = MyNodeID net
                                 then snd (uip_hostaddr net) AND NOT (snd (uip_netmask net)) else 0)\<rparr>;
            n = nat_table_size s
        in (of_nat (n + 1), s\<lparr>nat_table := (nat_table s)[n := e], nat_table_size := n + 1\<rparr>))"

text \<open>
  One pass of the loop of \<open>ipv46nat_del_entry\<close>; \<open>nat_released\<close> records the calls of \<open>dhcp_release\<close>.
\<close>

definition nat_del_step :: "nodeid \<Rightarrow> nat \<Rightarrow> bool \<times> nat_state \<Rightarrow> bool \<times> nat_state" where
  "nat_del_step node i = (\<lambda>(removing, s).
     if removing then (removing, s\<lparr>nat_table := (nat_table s)[i - 1 := nat_table s ! i]\<rparr>)
     else if ne_nodeid (nat_table s ! i) = node
     then (True, s\<lparr>nat_released := nat_released s @ [node]\<rparr>)
     else (removing, s))"

definition ipv46nat_del_entry :: "net_cfg \<Rightarrow> nodeid \<Rightarrow> nat_state \<Rightarrow> byte \<times> nat_state" where
  "ipv46nat_del_entry net node s =
     (if node = MyNodeID net then (0, s)
      else
        let (removing, s') = fold (nat_del_step node) [0..<nat_table_size s] (False, s);
            r = (if removing then 1 else 0)
        in (of_nat r, s'\<lparr>nat_table_size := nat_table_size s' - r\<rparr>))"

definition nat_my_index_step :: "net_cfg \<Rightarrow> nat \<Rightarrow> nat \<times> nat_state \<Rightarrow> nat \<times> nat_state" where
  "nat_my_index_step net i = (\<lambda>(my_index, s).
     if ne_nodeid (nat_table s ! i) = MyNodeID net then (i, s)
     else (my_index, s\<lparr>nat_released := nat_released s @ [ne_nodeid (nat_table s ! i)]\<rparr>))"

definition ipv46nat_del_all_nodes :: "net_cfg \<Rightarrow> nat_state \<Rightarrow> nat_state" where
  "ipv46nat_del_all_nodes net s =
     (let (my_index, s') = fold (nat_my_index_step net) [0..<nat_table_size s] (0, s)
      in s'\<lparr>nat_table := (nat_table s')[0 := nat_table s' ! my_index], nat_table_size := 1\<rparr>)"

definition ipv46nat_init :: "nat_state \<Rightarrow> nat_state" where
  "ipv46nat_init s = s\<lparr>nat_table_size := 0\<rparr>"

definition ipv46nat_ipv4addr_of_entry :: "net_cfg \<Rightarrow> nat_entry \<Rightarrow> u16 \<times> u16" where
  "ipv46nat_ipv4addr_of_entry net e =
     (fst (uip_hostaddr net), (snd (uip_hostaddr net) AND snd (uip_netmask net)) OR ne_ip_suffix e)"

definition ipv46nat_ipv4addr_of_node :: "net_cfg \<Rightarrow> nat_state \<Rightarrow> nodeid \<Rightarrow> (u16 \<times> u16) option" where
  "ipv46nat_ipv4addr_of_node net s node =
     map_option (ipv46nat_ipv4addr_of_entry net)
       (find (\<lambda>e. ne_nodeid e = node \<and> ne_ip_suffix e \<noteq> 0) (nat_entries s))"

definition ipv46nat_all_nodes_has_ip :: "nat_state \<Rightarrow> bool" where
  "ipv46nat_all_nodes_has_ip s = (\<forall>e\<in>set (nat_entries s). ne_ip_suffix e \<noteq> 0)"

definition nat_rename :: "nodeid \<Rightarrow> nodeid \<Rightarrow> nat_entry \<Rightarrow> nat_entry" where
  "nat_rename old_id new_id e = (if ne_nodeid e = old_id then e\<lparr>ne_nodeid := new_id\<rparr> else e)"

definition ipv46nat_rename_node :: "nodeid \<Rightarrow> nodeid \<Rightarrow> nat_state \<Rightarrow> nat_state" where
  "ipv46nat_rename_node old_id new_id s =
     s\<lparr>nat_table := map (nat_rename old_id new_id) (nat_entries s) @ drop (nat_table_size s) (nat_table s)\<rparr>"

section \<open>IPv6 and link-layer addresses\<close>

text \<open>
  \<open>is_my_addr\<close> stands for \<open>uip_ds6_is_my_addr\<close>, membership in the address table of the IP stack.
\<close>

record zw_net =
  pan_prefix :: buffer
  lan_addr :: buffer
  lladdr :: buffer
  homeID :: u32
  is_my_addr :: "buffer \<Rightarrow> bool"

definition ipOfNode :: "net_cfg \<Rightarrow> zw_net \<Rightarrow> nodeid \<Rightarrow> buffer" where
  "ipOfNode net z nodeID =
     (if nodeID = MyNodeID net then lan_addr z
      else take 14 (pan_prefix z) @ [hi_byte nodeID, lo_byte nodeID])"

definition macOfNode :: "net_cfg \<Rightarrow> zw_net \<Rightarrow> nodeid \<Rightarrow> buffer" where
  "macOfNode net z nodeID =
     (if nodeID = MyNodeID net then lladdr z
      else [ucast (drop_bit 24 (homeID z) AND 0xFF), ucast (drop_bit 16 (homeID z) AND 0xFF),
            ucast (drop_bit 8 (homeID z) AND 0xFF), ucast (homeID z AND 0xFF),
            ucast (drop_bit 8 nodeID AND 0xFF), ucast (nodeID AND 0xFF)])"

definition uip_is_4to6_addr :: "buffer \<Rightarrow> bool" where
  "uip_is_4to6_addr ip \<longleftrightarrow> take 12 ip = replicate 10 0 @ [0xFF, 0xFF]"

definition nodeOfIP :: "net_cfg \<Rightarrow> zw_net \<Rightarrow> nat_state \<Rightarrow> buffer \<Rightarrow> nodeid" where
  "nodeOfIP net z s ip =
     (if take 8 ip = take 8 (pan_prefix z) then u16_of_bytes (ip ! 14) (ip ! 15)
      else if is_my_addr z ip then MyNodeID net
      else if uip_is_4to6_addr ip
      then ipv46nat_get_nat_addr net s (u16_of_bytes (ip ! 12) (ip ! 13), u16_of_bytes (ip ! 14) (ip ! 15))
      else 0)"

section \<open>The table as a map\<close>

definition nat_map :: "nat_state \<Rightarrow> nodeid \<Rightarrow> u16 option" where
  "nat_map s = map_of (map (\<lambda>e. (ne_nodeid e, ne_ip_suffix e)) (nat_entries s))"

definition nat_inv :: "nat_state \<Rightarrow> bool" where
  "nat_inv s \<longleftrightarrow> length (nat_table s) = MAX_NAT_ENTRIES \<and> nat_table_size s \<le> MAX_NAT_ENTRIES \<and>
     distinct (map ne_nodeid (nat_entries s))"

lemma length_nat_entries [simp]: "nat_inv s \<Longrightarrow> length (nat_entries s) = nat_table_size s"
  by (simp add: nat_entries_def nat_inv_def)

lemma dom_nat_map: "dom (nat_map s) = ne_nodeid ` set (nat_entries s)"
  by (simp add: nat_map_def dom_map_of_conv_image_fst image_image)

lemma nat_map_eq:
  assumes "nat_inv s"
  shows "nat_map s n = Some x \<longleftrightarrow> (\<exists>e\<in>set (nat_entries s). ne_nodeid e = n \<and> ne_ip_suffix e = x)"
proof -
  have "distinct (map fst (map (\<lambda>e. (ne_nodeid e, ne_ip_suffix e)) (nat_entries s)))"
    using assms by (simp add: nat_inv_def o_def)
  then show ?thesis by (auto simp: nat_map_def map_of_eq_Some_iff)
qed

locale node_table =
  fixes lookup :: "'s \<Rightarrow> nodeid \<Rightarrow> 'v option"
    and add :: "nodeid \<Rightarrow> 's \<Rightarrow> 's"
    and del :: "nodeid \<Rightarrow> 's \<Rightarrow> 's"
    and init :: "nodeid \<Rightarrow> 'v"
    and inv :: "'s \<Rightarrow> bool"
    and room :: "'s \<Rightarrow> bool"
    and removable :: "nodeid \<Rightarrow> bool"
  assumes inv_add: "inv s \<Longrightarrow> inv (add n s)"
    and inv_del: "inv s \<Longrightarrow> inv (del n s)"
    and lookup_add: "inv s \<Longrightarrow> room s \<Longrightarrow>
      lookup (add n s) = (if n \<in> dom (lookup s) then lookup s else (lookup s)(n \<mapsto> init n))"
    and lookup_del: "inv s \<Longrightarrow> lookup (del n s) = (if removable n then (lookup s)(n := None) else lookup s)"
begin

lemma del_add_fresh:
  "inv s \<Longrightarrow> room s \<Longrightarrow> removable n \<Longrightarrow> lookup s n = None \<Longrightarrow> lookup (del n (add n s)) = lookup s"
  by (auto simp: lookup_del inv_add lookup_add dom_def fun_eq_iff)

lemma add_idempotent: "inv s \<Longrightarrow> room s \<Longrightarrow> room (add n s) \<Longrightarrow> lookup (add n (add n s)) = lookup (add n s)"
  by (simp add: lookup_add inv_add dom_def)

lemma del_other: "inv s \<Longrightarrow> m \<noteq> n \<Longrightarrow> lookup (del n s) m = lookup s m"
  by (simp add: lookup_del)

end

section \<open>The operations on the entry list\<close>

lemma nat_entries_add:
  assumes "nat_inv s" and "nat_table_size s < MAX_NAT_ENTRIES" and "node \<notin> ne_nodeid ` set (nat_entries s)"
  shows "nat_entries (snd (ipv46nat_add_entry net node s)) = nat_entries s @
    [\<lparr>ne_nodeid = node, ne_ip_suffix = (if node = MyNodeID net
        then snd (uip_hostaddr net) AND NOT (snd (uip_netmask net)) else 0)\<rparr>]"
proof -
  have "\<not> (\<exists>e\<in>set (nat_entries s). ne_nodeid e = node)" using assms(3) by auto
  with assms(1,2) show ?thesis
    by (simp add: ipv46nat_add_entry_def Let_def nat_entries_def nat_inv_def take_Suc_conv_app_nth)
qed

lemma nat_add_known:
  "node \<in> ne_nodeid ` set (nat_entries s) \<Longrightarrow> snd (ipv46nat_add_entry net node s) = s"
  by (auto simp: ipv46nat_add_entry_def)

lemma nat_add_full: "\<not> nat_table_size s < MAX_NAT_ENTRIES \<Longrightarrow> snd (ipv46nat_add_entry net node s) = s"
  by (simp add: ipv46nat_add_entry_def)

lemma nat_add_inv:
  assumes "nat_inv s"
  shows "nat_inv (snd (ipv46nat_add_entry net node s))"
proof (cases "nat_table_size s < MAX_NAT_ENTRIES \<and> node \<notin> ne_nodeid ` set (nat_entries s)")
  case True
  then have "distinct (map ne_nodeid (nat_entries (snd (ipv46nat_add_entry net node s))))"
    using assms nat_entries_add [of s node net] by (simp add: nat_inv_def)
  moreover have "\<not> (\<exists>e\<in>set (nat_entries s). ne_nodeid e = node)" using True by auto
  ultimately show ?thesis
    using True assms by (simp add: nat_inv_def ipv46nat_add_entry_def Let_def)
next
  case False
  then show ?thesis using assms nat_add_known nat_add_full by metis
qed

text \<open>The deletion loop removes the first entry of the node and moves the later ones up.\<close>

primrec remove_first :: "('a \<Rightarrow> bool) \<Rightarrow> 'a list \<Rightarrow> 'a list" where
  "remove_first P [] = []"
| "remove_first P (x # xs) = (if P x then xs else x # remove_first P xs)"

lemma remove_first_append:
  "remove_first P (xs @ [x]) =
     (if \<exists>y\<in>set xs. P y then remove_first P xs @ [x] else if P x then xs else xs @ [x])"
  by (induction xs) auto

lemma remove_first_none: "\<forall>x\<in>set xs. \<not> P x \<Longrightarrow> remove_first P xs = xs"
  by (induction xs) auto

lemma length_remove_first: "\<exists>x\<in>set xs. P x \<Longrightarrow> Suc (length (remove_first P xs)) = length xs"
  by (induction xs) auto

lemma remove_first_filter:
  "distinct (map f xs) \<Longrightarrow> remove_first (\<lambda>x. f x = a) xs = filter (\<lambda>x. f x \<noteq> a) xs"
proof (induction xs)
  case (Cons x xs)
  have "filter (\<lambda>y. f y \<noteq> f x) xs = xs" using Cons.prems by (intro filter_True) (auto simp: image_iff)
  with Cons show ?case by auto
qed simp

lemma take_Suc_update: "k < length xs \<Longrightarrow> take (Suc k) (xs[k := v]) = take k xs @ [v]"
  by (simp add: take_Suc_conv_app_nth)

lemma nat_del_fold:
  assumes "i \<le> length (nat_table s)" and "fold (nat_del_step node) [0..<i] (False, s) = (r, s')"
  shows "r = (\<exists>e\<in>set (take i (nat_table s)). ne_nodeid e = node) \<and>
    take (if r then i - 1 else i) (nat_table s') = remove_first (\<lambda>e. ne_nodeid e = node) (take i (nat_table s)) \<and>
    drop i (nat_table s') = drop i (nat_table s) \<and> length (nat_table s') = length (nat_table s) \<and>
    nat_table_size s' = nat_table_size s"
  using assms
proof (induction i arbitrary: r s')
  case (Suc i)
  obtain r0 s0 where f: "fold (nat_del_step node) [0..<i] (False, s) = (r0, s0)" by fastforce
  have i: "i < length (nat_table s)" using Suc.prems(1) by simp
  note IH = Suc.IH [OF _ f]
  have step: "nat_del_step node i (r0, s0) = (r, s')" using Suc.prems(2) f by simp
  have tk: "take (Suc i) (nat_table s) = take i (nat_table s) @ [nat_table s ! i]"
    using i by (simp add: take_Suc_conv_app_nth)
  have same: "nat_table s0 ! i = nat_table s ! i" "drop (Suc i) (nat_table s0) = drop (Suc i) (nat_table s)"
  proof -
    have d: "drop i (nat_table s0) = drop i (nat_table s)" using IH i by simp
    then show "nat_table s0 ! i = nat_table s ! i" using IH i by (metis hd_drop_conv_nth less_imp_le)
    from d show "drop (Suc i) (nat_table s0) = drop (Suc i) (nat_table s)" by (metis drop_Suc drop_tl)
  qed
  show ?case
  proof (cases r0)
    case True
    then obtain e where "e \<in> set (take i (nat_table s))" using IH i by auto
    then obtain k where k: "i = Suc k" by (cases i) auto
    have s': "r" "s' = s0\<lparr>nat_table := (nat_table s0)[k := nat_table s ! i]\<rparr>"
      using True step same by (auto simp: nat_del_step_def k)
    have "take i (nat_table s') = take k (nat_table s0) @ [nat_table s ! i]"
      using IH i by (simp add: s' k take_Suc_update)
    with True IH i s' same(2) show ?thesis by (simp add: tk [unfolded k] remove_first_append k)
  next
    case False
    with IH i step same show ?thesis
      by (auto simp: nat_del_step_def tk remove_first_append remove_first_none take_Suc_conv_app_nth split: if_splits)
  qed
qed simp

lemma nat_del_entries:
  assumes "nat_inv s" and "node \<noteq> MyNodeID net"
  shows "nat_entries (snd (ipv46nat_del_entry net node s)) = filter (\<lambda>e. ne_nodeid e \<noteq> node) (nat_entries s)"
    and "length (nat_table (snd (ipv46nat_del_entry net node s))) = MAX_NAT_ENTRIES"
    and "nat_table_size (snd (ipv46nat_del_entry net node s)) \<le> nat_table_size s"
    and "fst (ipv46nat_del_entry net node s) = (if node \<in> ne_nodeid ` set (nat_entries s) then 1 else 0)"
proof -
  obtain r s' where f: "fold (nat_del_step node) [0..<nat_table_size s] (False, s) = (r, s')" by fastforce
  have le: "nat_table_size s \<le> length (nat_table s)" using assms by (simp add: nat_inv_def)
  note D = nat_del_fold [OF le f, folded nat_entries_def]
  have d: "snd (ipv46nat_del_entry net node s) = s'\<lparr>nat_table_size := nat_table_size s' - (if r then 1 else 0)\<rparr>"
    "fst (ipv46nat_del_entry net node s) = (if r then 1 else 0)"
    using f assms(2) by (simp_all add: ipv46nat_del_entry_def)
  have "nat_entries (snd (ipv46nat_del_entry net node s)) = remove_first (\<lambda>e. ne_nodeid e = node) (nat_entries s)"
    using D [THEN conjunct2, THEN conjunct1] D [THEN conjunct2, THEN conjunct2]
    by (cases r) (simp_all add: nat_entries_def d)
  also have "\<dots> = filter (\<lambda>e. ne_nodeid e \<noteq> node) (nat_entries s)"
    using assms(1) by (intro remove_first_filter) (simp add: nat_inv_def)
  finally show "nat_entries (snd (ipv46nat_del_entry net node s)) = filter (\<lambda>e. ne_nodeid e \<noteq> node) (nat_entries s)" .
  show "length (nat_table (snd (ipv46nat_del_entry net node s))) = MAX_NAT_ENTRIES"
    and "nat_table_size (snd (ipv46nat_del_entry net node s)) \<le> nat_table_size s"
    using D assms(1) by (simp_all add: d nat_inv_def)
  show "fst (ipv46nat_del_entry net node s) = (if node \<in> ne_nodeid ` set (nat_entries s) then 1 else 0)"
    using D by (auto simp: d image_iff)
qed

lemma nat_del_inv: "nat_inv s \<Longrightarrow> nat_inv (snd (ipv46nat_del_entry net node s))"
proof (cases "node = MyNodeID net")
  case False
  assume "nat_inv s"
  with False nat_del_entries [of s node net] show ?thesis
    by (auto simp: nat_inv_def distinct_map_filter)
qed (simp add: ipv46nat_del_entry_def)

lemma nat_map_append:
  "node \<notin> dom (nat_map s) \<Longrightarrow> nat_entries s' = nat_entries s @ [\<lparr>ne_nodeid = node, ne_ip_suffix = x\<rparr>] \<Longrightarrow>
     nat_map s' = (nat_map s)(node \<mapsto> x)"
  by (auto simp: nat_map_def map_add_def fun_eq_iff dom_def split: option.splits)

lemma nat_map_filter:
  assumes "nat_entries s' = filter (\<lambda>e. ne_nodeid e \<noteq> node) (nat_entries s)"
  shows "nat_map s' = (nat_map s)(node := None)"
proof -
  have "map_of (map (\<lambda>e. (ne_nodeid e, ne_ip_suffix e)) (filter (\<lambda>e. ne_nodeid e \<noteq> node) es)) =
      (map_of (map (\<lambda>e. (ne_nodeid e, ne_ip_suffix e)) es))(node := None)" for es
    by (induction es) (auto simp: fun_eq_iff)
  then show ?thesis by (simp add: nat_map_def assms)
qed

interpretation nt: node_table nat_map "\<lambda>n s. snd (ipv46nat_add_entry net n s)"
    "\<lambda>n s. snd (ipv46nat_del_entry net n s)"
    "\<lambda>n. if n = MyNodeID net then snd (uip_hostaddr net) AND NOT (snd (uip_netmask net)) else 0"
    nat_inv "\<lambda>s. nat_table_size s < MAX_NAT_ENTRIES" "\<lambda>n. n \<noteq> MyNodeID net"
  for net
proof (unfold_locales, goal_cases)
  case (1 s n)
  then show ?case by (rule nat_add_inv)
next
  case (2 s n)
  then show ?case by (rule nat_del_inv)
next
  case (3 s n)
  then show ?case
    using nat_map_append [OF _ nat_entries_add [OF 3, of n net]] nat_add_known [of n s net]
    by (auto simp: dom_nat_map)
next
  case (4 s n)
  then show ?case
    using nat_map_filter [OF nat_del_entries(1) [OF 4, of n net]] by (auto simp: ipv46nat_del_entry_def)
qed

lemma nat_rename_map:
  assumes "new_id \<notin> dom (nat_map s)" and "old_id \<noteq> new_id"
  shows "nat_map (ipv46nat_rename_node old_id new_id s) =
    (nat_map s)(new_id := nat_map s old_id, old_id := None)"
proof -
  let ?m = "\<lambda>es. map_of (map (\<lambda>e. (ne_nodeid e, ne_ip_suffix e)) es)"
  have rn: "nat_entries (ipv46nat_rename_node old_id new_id s) = map (nat_rename old_id new_id) (nat_entries s)"
    by (simp add: ipv46nat_rename_node_def nat_entries_def min_def)
  have "?m (map (nat_rename old_id new_id) es) = (?m es)(new_id := ?m es old_id, old_id := None)"
    if "new_id \<notin> ne_nodeid ` set es" for es
    using that assms(2) by (induction es) (auto simp: nat_rename_def fun_eq_iff)
  with assms(1) show ?thesis by (simp add: nat_map_def rn dom_map_of_conv_image_fst image_image)
qed

lemma nat_entries_rename:
  "nat_entries (ipv46nat_rename_node old_id new_id s) = map (nat_rename old_id new_id) (nat_entries s)"
  by (simp add: ipv46nat_rename_node_def nat_entries_def min_def)

lemma distinct_rename:
  assumes "distinct ns"
  shows "distinct (map (\<lambda>i. if i = n then m else i) ns) \<longleftrightarrow> m \<notin> set ns \<or> n \<notin> set ns \<or> n = m"
proof -
  have "inj_on (\<lambda>i. if i = n then m else i) (set ns) \<longleftrightarrow> m \<notin> set ns \<or> n \<notin> set ns \<or> n = m"
    by (auto simp: inj_on_def split: if_splits)
  with assms show ?thesis by (simp add: distinct_map)
qed

text \<open>A node can be renamed to any identifier but one that another node has.\<close>

lemma nat_rename_inv:
  assumes "nat_inv s"
  shows "nat_inv (ipv46nat_rename_node n m s) \<longleftrightarrow> m \<notin> dom (nat_map s) \<or> n \<notin> dom (nat_map s) \<or> n = m"
proof -
  have "map ne_nodeid (nat_entries (ipv46nat_rename_node n m s)) =
      map (\<lambda>i. if i = n then m else i) (map ne_nodeid (nat_entries s))"
    by (simp add: nat_entries_rename nat_rename_def)
  moreover have "length (nat_table (ipv46nat_rename_node n m s)) = length (nat_table s)"
    "nat_table_size (ipv46nat_rename_node n m s) = nat_table_size s"
    using assms by (simp_all add: ipv46nat_rename_node_def nat_inv_def nat_entries_def)
  ultimately show ?thesis
    using assms distinct_rename [of "map ne_nodeid (nat_entries s)" n m] by (simp add: nat_inv_def dom_nat_map)
qed

lemma nat_my_index_fold:
  assumes "fold (nat_my_index_step net) [0..<i] (0, s) = (k, s')"
  shows "nat_table s' = nat_table s \<and>
    nat_released s' = nat_released s @ filter (\<lambda>n. n \<noteq> MyNodeID net) (map (\<lambda>j. ne_nodeid (nat_table s ! j)) [0..<i]) \<and>
    (\<forall>j<i. ne_nodeid (nat_table s ! j) = MyNodeID net \<longrightarrow> ne_nodeid (nat_table s ! k) = MyNodeID net \<and> j \<le> k \<and> k < i) \<and>
    ((\<forall>j<i. ne_nodeid (nat_table s ! j) \<noteq> MyNodeID net) \<longrightarrow> k = 0)"
  using assms
proof (induction i arbitrary: k s')
  case (Suc i)
  obtain k0 s0 where f: "fold (nat_my_index_step net) [0..<i] (0, s) = (k0, s0)" by fastforce
  have step: "nat_my_index_step net i (k0, s0) = (k, s')" using Suc.prems f by simp
  from Suc.IH [OF f] step show ?case
    by (auto simp: nat_my_index_step_def less_Suc_eq split: if_splits)
qed simp

text \<open>
  When the gateway is in the table, only its entry survives. When it is not, the first slot of the array
  survives, whatever it holds. Every node but the gateway is released in both cases.
\<close>

lemma nat_del_all:
  assumes inv: "nat_inv s"
  shows "nat_inv (ipv46nat_del_all_nodes net s)"
    and "nat_released (ipv46nat_del_all_nodes net s) =
      nat_released s @ filter (\<lambda>n. n \<noteq> MyNodeID net) (map ne_nodeid (nat_entries s))"
    and "nat_entries (ipv46nat_del_all_nodes net s) =
      (case find (\<lambda>e. ne_nodeid e = MyNodeID net) (nat_entries s) of Some e \<Rightarrow> [e] | None \<Rightarrow> [nat_table s ! 0])"
proof -
  let ?n = "nat_table_size s"
  obtain k s' where f: "fold (nat_my_index_step net) [0..<?n] (0, s) = (k, s')" by fastforce
  note F = nat_my_index_fold [OF f]
  have len: "length (nat_table s) = 1000" "?n \<le> 1000" using inv by (simp_all add: nat_inv_def MAX_NAT_ENTRIES_def)
  have nth: "nat_entries s ! j = nat_table s ! j" if "j < ?n" for j using that by (simp add: nat_entries_def)
  have ids: "map (\<lambda>j. ne_nodeid (nat_table s ! j)) [0..<?n] = map ne_nodeid (nat_entries s)"
    using inv nth by (intro nth_equalityI) simp_all
  have res: "ipv46nat_del_all_nodes net s = s'\<lparr>nat_table := (nat_table s)[0 := nat_table s ! k], nat_table_size := 1\<rparr>"
    using f F by (simp add: ipv46nat_del_all_nodes_def)
  have ent: "nat_entries (ipv46nat_del_all_nodes net s) = [nat_table s ! k]"
    using len by (cases "nat_table s") (simp_all add: res nat_entries_def)
  then show "nat_inv (ipv46nat_del_all_nodes net s)"
    using len by (simp add: res nat_inv_def MAX_NAT_ENTRIES_def)
  show "nat_released (ipv46nat_del_all_nodes net s) =
      nat_released s @ filter (\<lambda>n. n \<noteq> MyNodeID net) (map ne_nodeid (nat_entries s))"
    using F ids by (simp add: res)
  show "nat_entries (ipv46nat_del_all_nodes net s) =
      (case find (\<lambda>e. ne_nodeid e = MyNodeID net) (nat_entries s) of Some e \<Rightarrow> [e] | None \<Rightarrow> [nat_table s ! 0])"
  proof (cases "find (\<lambda>e. ne_nodeid e = MyNodeID net) (nat_entries s)")
    case None
    have "\<forall>j<?n. ne_nodeid (nat_table s ! j) \<noteq> MyNodeID net"
    proof (intro allI impI)
      fix j assume j: "j < ?n"
      then have "nat_entries s ! j \<in> set (nat_entries s)" using inv by simp
      then show "ne_nodeid (nat_table s ! j) \<noteq> MyNodeID net"
        using None unfolding nth [OF j] by (auto simp: find_None_iff)
    qed
    with F None ent show ?thesis by simp
  next
    case (Some e)
    then obtain j where j: "j < ?n" "nat_table s ! j = e" "ne_nodeid e = MyNodeID net"
      using inv nth by (auto simp: find_Some_iff)
    with F have k: "k < ?n" "ne_nodeid (nat_table s ! k) = MyNodeID net" by auto
    have "j = k"
      using inv j k nth [OF j(1)] nth [OF k(1)] nth_eq_iff_index_eq [of "map ne_nodeid (nat_entries s)" j k]
      by (simp add: nat_inv_def nat_entries_def)
    with Some ent j show ?thesis by simp
  qed
qed

lemma find_gateway:
  assumes "nat_inv s"
  shows "find (\<lambda>e. ne_nodeid e = n) (nat_entries s) = map_option (\<lambda>x. \<lparr>ne_nodeid = n, ne_ip_suffix = x\<rparr>) (nat_map s n)"
proof -
  have "find (\<lambda>e. ne_nodeid e = n) es =
      map_option (\<lambda>x. \<lparr>ne_nodeid = n, ne_ip_suffix = x\<rparr>) (map_of (map (\<lambda>e. (ne_nodeid e, ne_ip_suffix e)) es) n)" for es
    by (induction es) auto
  then show ?thesis by (simp add: nat_map_def)
qed

section \<open>Properties\<close>

text \<open>
  C17. The NAT table implements a finite map from nodes to address suffixes, and every operation keeps it
  within its array and free of duplicates, with one exception. Initialisation empties the map. Adding a
  node binds it (to the gateway's own host bits for the gateway, to 0 for others) unless it is already bound
  or 1000 nodes are, which leaves the table as it is. Deleting unbinds the node unless it is the
  gateway. Renaming to an unused identifier moves the binding; it keeps the table free of duplicates unless
  the new identifier belongs to another node, and then never does. Clearing releases the
  leases of all nodes but the gateway; it keeps exactly the gateway if that is in the table, and otherwise
  the entry in the first slot, a node whose lease was just released or a stale entry of an empty table.
\<close>

theorem nat_table_implements_map:
  assumes "nat_inv s"
  shows "nat_map (ipv46nat_init s) = Map.empty \<and> nat_inv (ipv46nat_init s) \<and>
    nat_inv (snd (ipv46nat_add_entry net n s)) \<and>
    nat_map (snd (ipv46nat_add_entry net n s)) =
      (if n \<in> dom (nat_map s) \<or> card (dom (nat_map s)) = MAX_NAT_ENTRIES then nat_map s
       else (nat_map s)(n \<mapsto> (if n = MyNodeID net then snd (uip_hostaddr net) AND NOT (snd (uip_netmask net)) else 0))) \<and>
    nat_inv (snd (ipv46nat_del_entry net n s)) \<and>
    nat_map (snd (ipv46nat_del_entry net n s)) = (if n \<noteq> MyNodeID net then (nat_map s)(n := None) else nat_map s) \<and>
    (nat_inv (ipv46nat_rename_node n m s) \<longleftrightarrow> m \<notin> dom (nat_map s) \<or> n \<notin> dom (nat_map s) \<or> n = m) \<and>
    (m \<notin> dom (nat_map s) \<longrightarrow> n \<noteq> m \<longrightarrow>
       nat_map (ipv46nat_rename_node n m s) = (nat_map s)(m := nat_map s n, n := None)) \<and>
    nat_inv (ipv46nat_del_all_nodes net s) \<and>
    nat_released (ipv46nat_del_all_nodes net s) =
      nat_released s @ filter (\<lambda>n. n \<noteq> MyNodeID net) (map ne_nodeid (nat_entries s)) \<and>
    nat_map (ipv46nat_del_all_nodes net s) =
      (case nat_map s (MyNodeID net) of
         Some x \<Rightarrow> [MyNodeID net \<mapsto> x]
       | None \<Rightarrow> [ne_nodeid (nat_table s ! 0) \<mapsto> ne_ip_suffix (nat_table s ! 0)])"
proof -
  have "nat_map (ipv46nat_init s) = Map.empty" "nat_inv (ipv46nat_init s)"
    using assms by (simp_all add: ipv46nat_init_def nat_map_def nat_entries_def nat_inv_def)
  moreover have card: "card (dom (nat_map s)) = nat_table_size s"
    using assms distinct_card [of "map ne_nodeid (nat_entries s)"] by (simp add: dom_nat_map nat_inv_def)
  moreover have "nat_map (snd (ipv46nat_add_entry net n s)) =
      (if n \<in> dom (nat_map s) \<or> nat_table_size s = MAX_NAT_ENTRIES then nat_map s
       else (nat_map s)(n \<mapsto> (if n = MyNodeID net then snd (uip_hostaddr net) AND NOT (snd (uip_netmask net)) else 0)))"
    using nt.lookup_add [OF assms, where net = net and n = n] nat_add_full [of s net n] assms
    by (cases "nat_table_size s = MAX_NAT_ENTRIES") (simp_all add: nat_inv_def)
  moreover have "nat_map (ipv46nat_del_all_nodes net s) =
      (case nat_map s (MyNodeID net) of
         Some x \<Rightarrow> [MyNodeID net \<mapsto> x]
       | None \<Rightarrow> [ne_nodeid (nat_table s ! 0) \<mapsto> ne_ip_suffix (nat_table s ! 0)])"
    by (simp add: nat_map_def nat_del_all(3) [OF assms] find_gateway [OF assms, unfolded nat_map_def] split: option.split)
  moreover note nt.lookup_del [OF assms, where net = net and n = n] nat_add_inv [OF assms, of net n]
    nat_del_inv [OF assms, of net n] nat_rename_inv [OF assms, of n m] nat_rename_map [of m s n] nat_del_all(1,2) [OF assms, of net]
  ultimately show ?thesis by (simp only:) blast
qed

lemma find_unique:
  assumes "e \<in> set es" and "P e" and "\<And>d. d \<in> set es \<Longrightarrow> P d \<Longrightarrow> d = e"
  shows "find P es = Some e"
proof (cases "find P es")
  case None
  with assms(1,2) show ?thesis by (auto simp: find_None_iff)
next
  case (Some d)
  then have "d \<in> set es" "P d" by (auto simp: find_Some_iff)
  with Some assms(3) show ?thesis by simp
qed

lemma host_bits:
  assumes "(x :: u16) AND m = 0"
  shows "((h AND m) OR x) AND m = h AND m" and "((h AND m) OR x) AND NOT m = x"
proof -
  have b: "\<not> (bit x n \<and> bit m n)" for n
    using arg_cong [OF assms, of "\<lambda>w. bit w n"] by (simp add: bit_and_iff)
  show "((h AND m) OR x) AND m = h AND m" by (rule bit_eqI) (use b in \<open>auto simp: bit_simps\<close>)
  show "((h AND m) OR x) AND NOT m = x" by (rule bit_eqI) (use b in \<open>auto simp: bit_simps\<close>)
qed

text \<open>
  IPv4 round trip: if the suffixes handed out lie in the host part of the network mask and no
  two nodes share one, the IPv4 address that the table gives for a node is mapped back to that node.
\<close>

lemma nat_ipv4_roundtrip:
  assumes "nat_inv s"
    and "\<forall>e\<in>set (nat_entries s). ne_ip_suffix e AND snd (uip_netmask net) = 0"
    and "inj_on ne_ip_suffix (set (nat_entries s))"
    and "ipv46nat_ipv4addr_of_node net s node = Some ip"
  shows "ipv46nat_get_nat_addr net s ip = node"
proof -
  obtain e where f: "find (\<lambda>e. ne_nodeid e = node \<and> ne_ip_suffix e \<noteq> 0) (nat_entries s) = Some e"
    and ip: "ip = ipv46nat_ipv4addr_of_entry net e"
    using assms(4) by (auto simp: ipv46nat_ipv4addr_of_node_def)
  have e: "e \<in> set (nat_entries s)" "ne_nodeid e = node"
    using f by (auto simp: find_Some_iff)
  then have hb: "ne_ip_suffix e AND snd (uip_netmask net) = 0" using assms(2) by blast
  have "find (\<lambda>d. ne_ip_suffix d = snd ip AND NOT (snd (uip_netmask net))) (nat_entries s) = Some e"
    by (rule find_unique)
       (use e hb assms(3) in \<open>auto simp: ip ipv46nat_ipv4addr_of_entry_def host_bits dest: inj_onD\<close>)
  then show ?thesis
    using e hb by (simp add: ipv46nat_get_nat_addr_def uip_ipaddr_maskcmp_def ip
        ipv46nat_ipv4addr_of_entry_def host_bits)
qed

text \<open>
  The result of \<open>ipv46nat_add_entry\<close> is an 8-bit value: when a node becomes entry number 256,
  512 or 768 it is added although the call returns 0, the documented sign of failure, and when the
  table is full the call returns 0 even for a node that is in the table.
\<close>

lemma nat_add_result_truncated:
  assumes "nat_inv s"
  shows "(nat_table_size s < MAX_NAT_ENTRIES \<and> n \<notin> dom (nat_map s) \<and> (nat_table_size s + 1) mod 256 = 0 \<longrightarrow>
      fst (ipv46nat_add_entry net n s) = 0 \<and> n \<in> dom (nat_map (snd (ipv46nat_add_entry net n s)))) \<and>
    (nat_table_size s = MAX_NAT_ENTRIES \<longrightarrow> fst (ipv46nat_add_entry net n s) = 0)"
proof (intro conjI impI; (elim conjE)?)
  assume a: "nat_table_size s < MAX_NAT_ENTRIES" "n \<notin> dom (nat_map s)" "(nat_table_size s + 1) mod 256 = 0"
  then have "\<not> (\<exists>e\<in>set (nat_entries s). ne_nodeid e = n)" by (auto simp: dom_nat_map)
  then have "fst (ipv46nat_add_entry net n s) = of_nat (nat_table_size s + 1)"
    using a(1) by (simp add: ipv46nat_add_entry_def Let_def)
  also have "\<dots> = 0" using a(3) by (simp only: word_unat_eq_iff unat_of_nat) simp
  finally show "fst (ipv46nat_add_entry net n s) = 0" .
  show "n \<in> dom (nat_map (snd (ipv46nat_add_entry net n s)))"
    using a nt.lookup_add [OF assms a(1), of net n] by simp
next
  assume "nat_table_size s = MAX_NAT_ENTRIES"
  then show "fst (ipv46nat_add_entry net n s) = 0" by (simp add: ipv46nat_add_entry_def)
qed

text \<open>
  IPv6 round trip: with a 16-byte PAN prefix, \<open>nodeOfIP\<close> inverts \<open>ipOfNode\<close> on every node but the
  gateway, and on the gateway too when its LAN address is one of the gateway's own addresses outside
  the PAN prefix; and different nodes other than the gateway have different link-layer addresses.
\<close>

lemma node_address_roundtrip:
  assumes "length (pan_prefix z) = 16"
  shows "(n \<noteq> MyNodeID net \<longrightarrow> nodeOfIP net z s (ipOfNode net z n) = n) \<and>
    (is_my_addr z (lan_addr z) \<and> take 8 (lan_addr z) \<noteq> take 8 (pan_prefix z) \<longrightarrow>
       nodeOfIP net z s (ipOfNode net z (MyNodeID net)) = MyNodeID net) \<and>
    (n \<noteq> MyNodeID net \<and> m \<noteq> MyNodeID net \<and> macOfNode net z n = macOfNode net z m \<longrightarrow> n = m)"
proof (intro conjI impI; (elim conjE)?)
  assume "n \<noteq> MyNodeID net"
  with assms show "nodeOfIP net z s (ipOfNode net z n) = n"
    by (simp add: nodeOfIP_def ipOfNode_def nth_append min_def)
next
  assume "is_my_addr z (lan_addr z)" "take 8 (lan_addr z) \<noteq> take 8 (pan_prefix z)"
  then show "nodeOfIP net z s (ipOfNode net z (MyNodeID net)) = MyNodeID net"
    by (simp add: nodeOfIP_def ipOfNode_def)
next
  have lo: "ucast (w AND 0xFF) = lo_byte w" for w :: u16
  proof -
    have m: "(0xFF :: u16) = mask 8" by (simp add: mask_eq_exp_minus_1)
    show ?thesis unfolding m lo_byte_def by (rule bit_eqI) (auto simp: bit_simps)
  qed
  have hi: "lo_byte (drop_bit 8 w) = hi_byte w" for w by (simp add: lo_byte_def hi_byte_def)
  assume "n \<noteq> MyNodeID net" "m \<noteq> MyNodeID net" "macOfNode net z n = macOfNode net z m"
  then have "hi_byte n = hi_byte m" "lo_byte n = lo_byte m" by (simp_all add: macOfNode_def lo hi)
  then show "n = m" by (metis u16_of_bytes_split)
qed

section \<open>Witnesses\<close>

definition nat0 :: nat_state where
  "nat0 = \<lparr>nat_table = [\<lparr>ne_nodeid = 1, ne_ip_suffix = 9\<rparr>, \<lparr>ne_nodeid = 5, ne_ip_suffix = 7\<rparr>] @
     replicate 998 \<lparr>ne_nodeid = 0, ne_ip_suffix = 0\<rparr>, nat_table_size = 2, nat_released = []\<rparr>"

definition net0 :: net_cfg where
  "net0 = \<lparr>uip_hostaddr = (0xC0A8, 0x0109), uip_netmask = (0xFFFF, 0xFF00), MyNodeID = 1\<rparr>"

lemma nat0_entries: "nat_entries nat0 = [\<lparr>ne_nodeid = 1, ne_ip_suffix = 9\<rparr>, \<lparr>ne_nodeid = 5, ne_ip_suffix = 7\<rparr>]"
  by (simp add: nat0_def nat_entries_def)

lemma nat0_inv: "nat_inv nat0" "nat_table_size nat0 = 2"
  by (simp_all add: nat_inv_def nat0_entries MAX_NAT_ENTRIES_def) (simp_all add: nat0_def)

theorem nat_table_implements_map_witness:
  "nat_map (snd (ipv46nat_del_entry net0 5 nat0)) = (nat_map nat0)(5 := None) \<and>
   nat_map (ipv46nat_rename_node 5 6 nat0) = (nat_map nat0)(6 := nat_map nat0 5, 5 := None) \<and>
   \<not> nat_inv (ipv46nat_rename_node 5 1 nat0)"
proof -
  have "6 \<notin> dom (nat_map nat0)" "1 \<in> dom (nat_map nat0)" "5 \<in> dom (nat_map nat0)"
    by (simp_all add: dom_nat_map nat0_entries)
  then show ?thesis
    using nat_table_implements_map [OF nat0_inv(1), of net0 5 6] nat_table_implements_map [OF nat0_inv(1), of net0 5 1]
    by (simp add: net0_def)
qed

lemma nat_ipv4_roundtrip_witness:
  "ipv46nat_get_nat_addr net0 nat0 (0xC0A8, 0x0107) = 5"
  by (rule nat_ipv4_roundtrip)
     (simp_all add: nat0_inv nat0_entries net0_def ipv46nat_ipv4addr_of_node_def ipv46nat_ipv4addr_of_entry_def)

lemma node_address_roundtrip_witness:
  "nodeOfIP net0 \<lparr>pan_prefix = replicate 16 0xFD, lan_addr = replicate 16 0, lladdr = [], homeID = 7, is_my_addr = (\<lambda>_. False)\<rparr>
     nat0 (ipOfNode net0 \<lparr>pan_prefix = replicate 16 0xFD, lan_addr = replicate 16 0, lladdr = [], homeID = 7, is_my_addr = (\<lambda>_. False)\<rparr> 300) = 300"
  using node_address_roundtrip [of "\<lparr>pan_prefix = replicate 16 0xFD, lan_addr = replicate 16 0, lladdr = [], homeID = 7, is_my_addr = (\<lambda>_. False)\<rparr>" 300 net0 nat0 300]
  by (simp add: net0_def)

end
