(* ===== verification/Packet_Queue.thy ===== *)
theory Packet_Queue
  imports Contiki_Core
begin

text \<open>
  Packet queues (\<open>contiki/core/net/uip-packetqueue.c\<close>): any number of queues that share one pool of
  64 packets, each packet with a lifetime timer that removes it.

  A handle \<open>'h\<close> names a queue, a packet is an index into the pool. The contents of a queue are the
  byte strings of its packets in order; the locale \<open>bounded_fifo\<close> states what the users of the queues
  rely on. Data handed to a queue fits the packet buffer (it comes from \<open>uip_buf\<close>, which has the same
  size).
\<close>

section \<open>Data and operations\<close>

record 'h packet =
  queue_buf :: buffer
  queue_buf_len :: nat
  pk_lifetimer :: "nat option"
  pk_handle :: 'h

record 'h pktq =
  packets_memb :: memb
  pkt :: "nat \<Rightarrow> 'h packet"
  pq_list :: "'h \<Rightarrow> nat list"

definition MAX_NUM_QUEUED_PACKETS :: nat where "MAX_NUM_QUEUED_PACKETS = 64"

definition packet_timedout :: "nat \<Rightarrow> 'h pktq \<Rightarrow> 'h pktq" where
  "packet_timedout p s =
     (let h = pk_handle (pkt s p)
      in s\<lparr>pq_list := (pq_list s)(h := list_remove (pq_list s h) p),
           packets_memb := snd (memb_free (packets_memb s) p)\<rparr>)"

definition uip_packetqueue_new :: "'h \<Rightarrow> 'h pktq \<Rightarrow> 'h pktq" where
  "uip_packetqueue_new h s = s\<lparr>pq_list := (pq_list s)(h := [])\<rparr>"

definition uip_packetqueue_alloc :: "'h \<Rightarrow> buffer \<Rightarrow> nat \<Rightarrow> 'h pktq \<Rightarrow> nat option \<times> 'h pktq" where
  "uip_packetqueue_alloc h dat lifetime s =
     (case memb_alloc (packets_memb s) of
        (None, m) \<Rightarrow> (None, s)
      | (Some p, m) \<Rightarrow>
          (Some p,
           s\<lparr>packets_memb := m,
             pkt := (pkt s)(p := \<lparr>queue_buf = dat, queue_buf_len = length dat,
                                  pk_lifetimer = Some lifetime, pk_handle = h\<rparr>),
             pq_list := (pq_list s)(h := list_add (pq_list s h) p)\<rparr>))"

definition uip_packetqueue_pop :: "'h \<Rightarrow> 'h pktq \<Rightarrow> 'h pktq" where
  "uip_packetqueue_pop h s =
     (case list_head (pq_list s h) of
        None \<Rightarrow> s
      | Some p \<Rightarrow>
          s\<lparr>pkt := (pkt s)(p := (pkt s p)\<lparr>pk_lifetimer := None\<rparr>),
            packets_memb := snd (memb_free (packets_memb s) p),
            pq_list := (pq_list s)(h := snd (list_pop (pq_list s h)))\<rparr>)"

definition uip_packetqueue_buf :: "'h \<Rightarrow> 'h pktq \<Rightarrow> buffer option" where
  "uip_packetqueue_buf h s = map_option (\<lambda>p. queue_buf (pkt s p)) (list_head (pq_list s h))"

definition uip_packetqueue_buflen :: "'h \<Rightarrow> 'h pktq \<Rightarrow> nat" where
  "uip_packetqueue_buflen h s =
     (case list_head (pq_list s h) of None \<Rightarrow> 0 | Some p \<Rightarrow> queue_buf_len (pkt s p))"

definition uip_packetqueue_set_buflen :: "'h \<Rightarrow> nat \<Rightarrow> 'h pktq \<Rightarrow> 'h pktq" where
  "uip_packetqueue_set_buflen h len s =
     (case list_head (pq_list s h) of
        None \<Rightarrow> s
      | Some p \<Rightarrow> s\<lparr>pkt := (pkt s)(p := (pkt s p)\<lparr>queue_buf_len := len\<rparr>)\<rparr>)"

definition uip_packetqueue_len :: "'h \<Rightarrow> 'h pktq \<Rightarrow> nat" where
  "uip_packetqueue_len h s = list_length (pq_list s h)"

definition uip_packetqueue_free_len :: "'h pktq \<Rightarrow> nat" where
  "uip_packetqueue_free_len s = memb_free_count (packets_memb s)"

section \<open>Contents and invariant\<close>

definition pq_data :: "'h packet \<Rightarrow> buffer" where
  "pq_data k = take (queue_buf_len k) (queue_buf k)"

definition pq_contents :: "'h pktq \<Rightarrow> 'h \<Rightarrow> buffer list" where
  "pq_contents s h = map (\<lambda>p. pq_data (pkt s p)) (pq_list s h)"

definition pq_ok :: "'h pktq \<Rightarrow> bool" where
  "pq_ok s \<longleftrightarrow> memb_ok (packets_memb s) \<and>
     (\<forall>h. distinct (pq_list s h) \<and>
          (\<forall>p\<in>set (pq_list s h). p \<in> memb_used (packets_memb s) \<and> pk_handle (pkt s p) = h))"

locale bounded_fifo =
  fixes put :: "'h \<Rightarrow> 'a \<Rightarrow> 'q \<Rightarrow> bool \<times> 'q"
    and pop :: "'h \<Rightarrow> 'q \<Rightarrow> 'q"
    and contents :: "'q \<Rightarrow> 'h \<Rightarrow> 'a list"
    and room :: "'q \<Rightarrow> nat"
    and ok :: "'q \<Rightarrow> bool"
  assumes ok_put: "ok q \<Longrightarrow> ok (snd (put h x q))"
    and ok_pop: "ok q \<Longrightarrow> ok (pop h q)"
    and put_room: "ok q \<Longrightarrow> 0 < room q \<Longrightarrow> fst (put h x q) \<and>
      contents (snd (put h x q)) = (contents q)(h := contents q h @ [x]) \<and> Suc (room (snd (put h x q))) = room q"
    and put_full: "room q = 0 \<Longrightarrow> put h x q = (False, q)"
    and pop_contents: "ok q \<Longrightarrow> contents (pop h q) = (contents q)(h := tl (contents q h))"
    and pop_room: "ok q \<Longrightarrow> room (pop h q) = (if contents q h = [] then room q else Suc (room q))"
begin

text \<open>Moving the first element of one queue to the end of another, with room and without.\<close>

lemma move_room:
  assumes "ok q" and "0 < room q" and "contents q h = x # xs"
  shows "contents (pop h (snd (put g x q))) =
    (if g = h then (contents q)(h := xs @ [x]) else (contents q)(h := xs, g := contents q g @ [x]))"
  using assms put_room [OF assms(1,2), of g x] by (auto simp: pop_contents ok_put fun_eq_iff)

lemma move_full:
  assumes "ok q" and "room q = 0" and "contents q h = x # xs"
  shows "contents (pop h (snd (put g x q))) = (contents q)(h := xs)"
  using assms by (simp add: put_full pop_contents)

lemma move_count:
  assumes "ok q" and "0 < room q" and "contents q h = x # xs"
  shows "room (pop h (snd (put g x q))) = room q"
  using assms put_room [OF assms(1,2), of g x] by (auto simp: pop_room ok_put)

end

section \<open>The queues implement the interface\<close>

lemma pq_alloc_full: "uip_packetqueue_free_len s = 0 \<Longrightarrow> uip_packetqueue_alloc h d t s = (None, s)"
  by (simp add: uip_packetqueue_free_len_def memb_free_count_0 uip_packetqueue_alloc_def)

lemma pq_alloc_room:
  assumes "pq_ok s" and "0 < uip_packetqueue_free_len s"
  obtains p m where "memb_alloc (packets_memb s) = (Some p, m)" and "p \<notin> memb_used (packets_memb s)"
    and "memb_used m = insert p (memb_used (packets_memb s))" and "memb_ok m"
    and "\<And>h. p \<notin> set (pq_list s h)"
proof -
  have ok: "memb_ok (packets_memb s)" using assms(1) by (simp add: pq_ok_def)
  obtain p m where a: "memb_alloc (packets_memb s) = (Some p, m)"
    using assms(2) memb_free_count_0 [of "packets_memb s"]
    by (cases "packets_memb s" rule: memb_alloc_cases) (auto simp: uip_packetqueue_free_len_def)
  show ?thesis
    by (rule that [OF a mb.alloc_fresh [OF ok a] mb.alloc_used [OF ok a]])
       (use mb.alloc_ok [OF ok a] mb.alloc_fresh [OF ok a] assms(1) in \<open>auto simp: pq_ok_def\<close>)
qed

lemma pq_alloc_contents:
  assumes "pq_ok s" and "0 < uip_packetqueue_free_len s"
  shows "fst (uip_packetqueue_alloc h d t s) \<noteq> None"
    and "pq_contents (snd (uip_packetqueue_alloc h d t s)) = (pq_contents s)(h := pq_contents s h @ [d])"
    and "pq_ok (snd (uip_packetqueue_alloc h d t s))"
    and "Suc (uip_packetqueue_free_len (snd (uip_packetqueue_alloc h d t s))) = uip_packetqueue_free_len s"
proof -
  obtain p m where a: "memb_alloc (packets_memb s) = (Some p, m)" "p \<notin> memb_used (packets_memb s)"
    "memb_used m = insert p (memb_used (packets_memb s))" "memb_ok m" and fresh: "\<And>h. p \<notin> set (pq_list s h)"
    using pq_alloc_room [OF assms] by metis
  have app: "list_add (pq_list s h) p = pq_list s h @ [p]"
    using fresh by (simp add: list_add_def)
  show "fst (uip_packetqueue_alloc h d t s) \<noteq> None" by (simp add: uip_packetqueue_alloc_def a)
  show "pq_contents (snd (uip_packetqueue_alloc h d t s)) = (pq_contents s)(h := pq_contents s h @ [d])"
    using fresh by (auto simp: uip_packetqueue_alloc_def a app pq_contents_def pq_data_def fun_eq_iff)
  show "pq_ok (snd (uip_packetqueue_alloc h d t s))"
    using assms(1) fresh a by (auto simp: uip_packetqueue_alloc_def app pq_ok_def)
  show "Suc (uip_packetqueue_free_len (snd (uip_packetqueue_alloc h d t s))) = uip_packetqueue_free_len s"
    using memb_free_count_alloc [OF a(1)] by (simp add: uip_packetqueue_alloc_def a(1) uip_packetqueue_free_len_def)
qed

lemma pq_alloc_ok: "pq_ok s \<Longrightarrow> pq_ok (snd (uip_packetqueue_alloc h d t s))"
  using pq_alloc_contents(3) [of s h d t] pq_alloc_full [of s h d t]
  by (cases "uip_packetqueue_free_len s") auto

lemma pq_pop_Nil: "pq_list s h = [] \<Longrightarrow> uip_packetqueue_pop h s = s"
  by (simp add: uip_packetqueue_pop_def)

lemma pq_other_list: "pq_ok s \<Longrightarrow> p \<in> set (pq_list s h) \<Longrightarrow> p \<in> set (pq_list s g) \<Longrightarrow> g = h"
  unfolding pq_ok_def by metis

text \<open>Taking a packet out of its queue and freeing it, the common part of popping and timing out.\<close>

lemma pq_ok_remove:
  assumes "pq_ok s" and "p \<in> set (pq_list s h)"
  shows "pq_ok (s\<lparr>pkt := (pkt s)(p := (pkt s p)\<lparr>pk_lifetimer := x\<rparr>),
      packets_memb := snd (memb_free (packets_memb s) p),
      pq_list := (pq_list s)(h := list_remove (pq_list s h) p)\<rparr>)"
proof -
  have ok: "memb_ok (packets_memb s)" and d: "\<And>g. distinct (pq_list s g)"
    using assms(1) by (auto simp: pq_ok_def)
  have rm: "set (list_remove (pq_list s h) p) = set (pq_list s h) - {p}" using d by (rule set_list_remove)
  have used: "memb_used (snd (memb_free (packets_memb s) p)) = memb_used (packets_memb s) - {p}"
    using ok by (rule mb.free_used)
  have "p \<notin> set (pq_list s g)" if "g \<noteq> h" for g using that pq_other_list [OF assms] by auto
  with assms(1) show ?thesis
    using mb.free_ok [OF ok, of p] d rm used
    by (auto simp: pq_ok_def distinct_list_remove)
qed

lemma pq_pop:
  assumes "pq_ok s" and "pq_list s h = p # ps"
  shows "pq_ok (uip_packetqueue_pop h s)"
    and "pq_contents (uip_packetqueue_pop h s) = (pq_contents s)(h := tl (pq_contents s h))"
    and "uip_packetqueue_free_len (uip_packetqueue_pop h s) = Suc (uip_packetqueue_free_len s)"
proof -
  have pop: "uip_packetqueue_pop h s = s\<lparr>pkt := (pkt s)(p := (pkt s p)\<lparr>pk_lifetimer := None\<rparr>),
      packets_memb := snd (memb_free (packets_memb s) p), pq_list := (pq_list s)(h := ps)\<rparr>"
    using assms(2) by (simp add: uip_packetqueue_pop_def)
  show "pq_ok (uip_packetqueue_pop h s)" using pq_ok_remove [OF assms(1), of p h None] assms(2) by (simp add: pop)
  show "pq_contents (uip_packetqueue_pop h s) = (pq_contents s)(h := tl (pq_contents s h))"
    using assms(2) by (auto simp: pop pq_contents_def pq_data_def fun_eq_iff)
  have "p \<in> set (pq_list s h)" using assms(2) by simp
  with assms(1) have "memb_ok (packets_memb s)" "p \<in> memb_used (packets_memb s)" unfolding pq_ok_def by blast+
  then show "uip_packetqueue_free_len (uip_packetqueue_pop h s) = Suc (uip_packetqueue_free_len s)"
    by (simp add: pop uip_packetqueue_free_len_def memb_free_count_free)
qed

interpretation pq: bounded_fifo "\<lambda>h d s. (fst (uip_packetqueue_alloc h d t s) \<noteq> None, snd (uip_packetqueue_alloc h d t s))"
    uip_packetqueue_pop pq_contents uip_packetqueue_free_len pq_ok
  for t
proof (unfold_locales, goal_cases)
  case (1 q h x)
  then show ?case by (simp add: pq_alloc_ok)
next
  case (2 q h)
  then show ?case by (cases "pq_list q h") (simp_all add: pq_pop_Nil pq_pop)
next
  case (3 q h x)
  then show ?case by (simp add: pq_alloc_contents)
next
  case (4 q h x)
  then show ?case by (simp add: pq_alloc_full)
next
  case (5 q h)
  then show ?case by (cases "pq_list q h") (auto simp: pq_pop_Nil pq_pop pq_contents_def fun_eq_iff)
next
  case (6 q h)
  then show ?case by (cases "pq_list q h") (auto simp: pq_pop_Nil pq_pop pq_contents_def)
qed

lemma pq_timedout_ok:
  assumes "pq_ok s" and "p \<in> set (pq_list s h)"
  shows "pq_ok (packet_timedout p s)"
    and "pq_list (packet_timedout p s) = (pq_list s)(h := filter (\<lambda>q. q \<noteq> p) (pq_list s h))"
    and "pkt (packet_timedout p s) = pkt s"
proof -
  have h: "pk_handle (pkt s p) = h" and d: "distinct (pq_list s h)" using assms by (auto simp: pq_ok_def)
  have eq: "packet_timedout p s = s\<lparr>pkt := (pkt s)(p := (pkt s p)\<lparr>pk_lifetimer := pk_lifetimer (pkt s p)\<rparr>),
      packets_memb := snd (memb_free (packets_memb s) p),
      pq_list := (pq_list s)(h := list_remove (pq_list s h) p)\<rparr>"
    by (simp add: packet_timedout_def h)
  show "pq_ok (packet_timedout p s)" unfolding eq by (rule pq_ok_remove [OF assms])
  show "pq_list (packet_timedout p s) = (pq_list s)(h := filter (\<lambda>q. q \<noteq> p) (pq_list s h))"
    "pkt (packet_timedout p s) = pkt s"
    using d by (simp_all add: packet_timedout_def h list_remove_filter)
qed

section \<open>Properties\<close>

text \<open>
  Packet queues are bounded first-in first-out queues over one shared pool: while the pool has a
  free packet, \<open>uip_packetqueue_alloc\<close> appends the data to its queue and leaves all other queues as
  they are; when the pool is exhausted nothing changes and no packet is returned;
  \<open>uip_packetqueue_pop\<close> removes the oldest element and gives its packet back to the pool;
  \<open>uip_packetqueue_buf\<close> and \<open>uip_packetqueue_len\<close> report the oldest element and the number of elements.
\<close>

lemma packet_queue_fifo:
  assumes "pq_ok s"
  shows "(if 0 < uip_packetqueue_free_len s
      then fst (uip_packetqueue_alloc h d t s) \<noteq> None \<and>
           pq_contents (snd (uip_packetqueue_alloc h d t s)) = (pq_contents s)(h := pq_contents s h @ [d])
      else uip_packetqueue_alloc h d t s = (None, s)) \<and>
    pq_contents (uip_packetqueue_pop h s) = (pq_contents s)(h := tl (pq_contents s h)) \<and>
    uip_packetqueue_free_len (uip_packetqueue_pop h s) =
      (if pq_contents s h = [] then uip_packetqueue_free_len s else Suc (uip_packetqueue_free_len s)) \<and>
    map_option (take (uip_packetqueue_buflen h s)) (uip_packetqueue_buf h s) =
      (if pq_contents s h = [] then None else Some (hd (pq_contents s h))) \<and>
    uip_packetqueue_len h s = length (pq_contents s h) \<and>
    pq_ok (snd (uip_packetqueue_alloc h d t s)) \<and> pq_ok (uip_packetqueue_pop h s)"
proof -
  have "map_option (take (uip_packetqueue_buflen h s)) (uip_packetqueue_buf h s) =
      (if pq_contents s h = [] then None else Some (hd (pq_contents s h)))"
    by (cases "pq_list s h") (simp_all add: uip_packetqueue_buf_def uip_packetqueue_buflen_def pq_contents_def pq_data_def)
  moreover have "uip_packetqueue_len h s = length (pq_contents s h)"
    by (simp add: uip_packetqueue_len_def list_length_def pq_contents_def)
  ultimately show ?thesis
    using assms pq_alloc_contents [OF assms] pq.pop_contents [OF assms] pq.pop_room [OF assms]
      pq_alloc_ok [OF assms] pq.ok_pop [OF assms] pq_alloc_full [of s]
    by (simp del: pq_alloc_contents(1))
qed

section \<open>Witnesses\<close>

definition pq0 :: "bool pktq" where
  "pq0 = \<lparr>packets_memb = replicate 64 0,
     pkt = (\<lambda>_. \<lparr>queue_buf = [], queue_buf_len = 0, pk_lifetimer = None, pk_handle = False\<rparr>),
     pq_list = (\<lambda>_. [])\<rparr>"

lemma pq0_ok: "pq_ok pq0" "pq_contents pq0 h = []" "uip_packetqueue_free_len pq0 = 64"
  by (simp_all add: pq_ok_def pq0_def memb_ok_def pq_contents_def uip_packetqueue_free_len_def memb_free_count_def)

lemma packet_queue_fifo_witness:
  "pq_contents (snd (uip_packetqueue_alloc True [1, 2, 3] 60000 pq0)) True = [[1, 2, 3]]"
  using packet_queue_fifo [OF pq0_ok(1), of True "[1, 2, 3]" 60000] pq0_ok by simp

end
