(* ===== verification/Node_Queue.thy ===== *)
theory Node_Queue
  imports Packet_Queue Addressing Crc32
begin

text \<open>
  The queues of frames for Z-Wave nodes (\<open>src/src/node_queue.c\<close>): a first-attempt queue and a long
  queue over the shared packet pool, a filter for duplicate frames, the transmission state and the
  handler of finished transmissions.

  The state is the packet queues, the transmission state and the duplicate filter; calls into other
  parts of the gateway are recorded as effects. The IP packet is the contents of \<open>uip_buf\<close> behind the
  link-layer header, with \<open>uip_len\<close> valid bytes. Node modes and the mailbox configuration, which the
  resource directory and the configuration hold, are an environment. The answer of
  \<open>ClassicZIPNode_input\<close> (callback before it returns, callback later, or refusal) is an argument.
  A failing \<open>assert\<close> is an error value.
\<close>

section \<open>Data\<close>

datatype nq_handle = first_attempt_queue | long_queue | other_queue nat

datatype en_queue_state = QS_IDLE | QS_SENDING_FIRST | QS_SENDING_LONG

datatype nq_effect =
    PostQueueUpdated | PostComponentDone | DtlsInput | KeepAliveAck
  | MbPost buffer | MbTransmissionOk nodeid | ExtendProbe | SendToNode nodeid buffer bool

datatype nq_error = AssertFailed | NullBuffer

record nodeq =
  nq :: "nq_handle pktq"
  queue_state :: en_queue_state
  black_list_crc32 :: "u32 list"
  bl_next :: nat
  queue_timer :: bool
  effects :: "nq_effect list"

record nq_env =
  env_net :: net_cfg
  env_zw :: zw_net
  env_nat :: nat_state
  rd_node_mode :: "nodeid \<Rightarrow> nat"
  mailbox_disabled :: bool
  newly_included :: nodeid

abbreviation MODE_FREQUENTLYLISTENING :: nat where "MODE_FREQUENTLYLISTENING \<equiv> 3"
abbreviation MODE_MAILBOX :: nat where "MODE_MAILBOX \<equiv> 4"

datatype tx_status =
    TRANSMIT_COMPLETE_OK | TRANSMIT_COMPLETE_NO_ACK | TRANSMIT_COMPLETE_FAIL
  | TRANSMIT_COMPLETE_ERROR | TRANSMIT_COMPLETE_REQUEUE | TRANSMIT_COMPLETE_REQUEUE_QUEUED

definition emit :: "nq_effect \<Rightarrow> nodeq \<Rightarrow> nodeq" where
  "emit e s = s\<lparr>effects := effects s @ [e]\<rparr>"

definition frame_node :: "nq_env \<Rightarrow> buffer \<Rightarrow> nodeid" where
  "frame_node env f = nodeOfIP (env_net env) (env_zw env) (env_nat env) (take 16 (drop 24 f))"

definition udp_destport :: "buffer \<Rightarrow> u16" where
  "udp_destport f = u16_of_bytes (f ! 42) (f ! 43)"

section \<open>Duplicate filter and queries\<close>

definition node_queue_idle :: "nodeq \<Rightarrow> bool" where
  "node_queue_idle s \<longleftrightarrow> queue_state s = QS_IDLE \<and>
     uip_packetqueue_len first_attempt_queue (nq s) = 0 \<and> uip_packetqueue_len long_queue (nq s) = 0"

definition add_fingerprint_uip_buf :: "buffer \<Rightarrow> nodeq \<Rightarrow> nodeq" where
  "add_fingerprint_uip_buf frame s =
     s\<lparr>black_list_crc32 := (black_list_crc32 s)[bl_next s := crc32 frame 0xFFFF],
       bl_next := (if bl_next s + 1 \<ge> 2 then 0 else bl_next s + 1)\<rparr>"

text \<open>The checksum is stored in a 16-bit variable before it is compared with the 32-bit entries.\<close>

definition check_fingerprint_uip_buf :: "buffer \<Rightarrow> nodeq \<Rightarrow> bool" where
  "check_fingerprint_uip_buf frame s =
     (let crc = ucast (crc32 frame 0xFFFF) :: u16
      in \<exists>x\<in>set (black_list_crc32 s). ucast crc = x)"

definition queued_elements_existes :: "nq_env \<Rightarrow> nodeid \<Rightarrow> nodeq \<Rightarrow> bool" where
  "queued_elements_existes env node s =
     (\<exists>p\<in>set (pq_list (nq s) long_queue). frame_node env (queue_buf (pkt (nq s) p)) = node)"

section \<open>Input from the network\<close>

definition handle_keep_alive :: "byte \<Rightarrow> nodeq \<Rightarrow> nodeq" where
  "handle_keep_alive ack_req s = (if ack_req AND 0x80 \<noteq> 0 then emit KeepAliveAck s else s)"

definition nq_use_long :: "nq_env \<Rightarrow> nodeid \<Rightarrow> nodeq \<Rightarrow> bool" where
  "nq_use_long env node s =
     (let mode = rd_node_mode env node
      in (mailbox_disabled env \<or> mode \<noteq> MODE_MAILBOX) \<and>
         (queued_elements_existes env node s \<or> mode mod 256 = MODE_FREQUENTLYLISTENING \<or>
          (uip_packetqueue_len first_attempt_queue (nq s) = 0 \<and> uip_packetqueue_len long_queue (nq s) = 0)))"

definition nq_enqueue :: "nq_handle \<Rightarrow> buffer \<Rightarrow> nodeq \<Rightarrow> bool \<times> nodeq" where
  "nq_enqueue h frame s =
     (let (p, q) = uip_packetqueue_alloc h frame 60000 (nq s) in (p \<noteq> None, s\<lparr>nq := q\<rparr>))"

definition node_input_queued ::
  "nq_env \<Rightarrow> buffer \<Rightarrow> nat \<Rightarrow> nodeid \<Rightarrow> bool \<Rightarrow> nodeq \<Rightarrow> nq_error + (bool \<times> nodeq)" where
  "node_input_queued env uip_buf uip_len node decrypted s =
     (let frame = take uip_len uip_buf; port = udp_destport uip_buf
      in if port = 41230 \<and> \<not> decrypted then Inr (True, emit DtlsInput s)
         else if (port = 41230 \<or> port = 4123) \<and> uip_buf ! 48 = 0x23 \<and> uip_buf ! 49 = 0x03
         then Inr (True, handle_keep_alive (uip_buf ! 50) s)
         else if check_fingerprint_uip_buf frame s then Inr (True, s)
         else if \<not> uip_len > 40 then Inl AssertFailed
         else
           let s1 = add_fingerprint_uip_buf frame s;
               (rc, s2) = nq_enqueue (if nq_use_long env node s1 then long_queue else first_attempt_queue) frame s1
           in Inr (rc, emit PostQueueUpdated s2))"

section \<open>Finished transmissions\<close>

definition is_zip_pkt :: "buffer \<Rightarrow> bool" where
  "is_zip_pkt pk \<longleftrightarrow> pk ! 6 = 17 \<and> (udp_destport pk = 41230 \<or> udp_destport pk = 4123) \<and>
     pk ! 48 = 0x23 \<and> pk ! 49 = 0x02"

definition is_wu_no_more_info_frame :: "buffer \<Rightarrow> bool" where
  "is_wu_no_more_info_frame pk =
     (is_zip_pkt pk \<and>
      (let ext_hdr_len = (if pk ! 51 AND 0x80 \<noteq> 0 then unat (pk ! 55) else 0)
       in pk ! (55 + ext_hdr_len) = 0x84 \<and> pk ! (55 + ext_hdr_len + 1) = 0x08))"

definition isPacketRequeued :: "buffer \<Rightarrow> bool" where
  "isPacketRequeued buf = (buf ! 0 AND 1 \<noteq> 0)"

definition setPacketRequeued :: "buffer \<Rightarrow> buffer" where
  "setPacketRequeued buf = buf[0 := buf ! 0 OR 1]"

definition queue_move_to_mailbox :: "nq_env \<Rightarrow> nodeid \<Rightarrow> buffer \<Rightarrow> nodeq \<Rightarrow> bool \<times> nodeq" where
  "queue_move_to_mailbox env node sent s =
     (if \<not> mailbox_disabled env \<and> rd_node_mode env node = MODE_MAILBOX \<and> \<not> is_wu_no_more_info_frame sent
      then (True, emit (MbPost sent) s) else (False, s))"

definition nq_sending :: "nodeq \<Rightarrow> nq_handle option" where
  "nq_sending s =
     (case queue_state s of QS_IDLE \<Rightarrow> None | QS_SENDING_FIRST \<Rightarrow> Some first_attempt_queue
      | QS_SENDING_LONG \<Rightarrow> Some long_queue)"

definition nq_pop :: "nq_handle \<Rightarrow> nodeq \<Rightarrow> nodeq" where
  "nq_pop h s = s\<lparr>nq := uip_packetqueue_pop h (nq s)\<rparr>"

definition nq_idle :: "nodeq \<Rightarrow> nodeq" where
  "nq_idle s = s\<lparr>queue_state := QS_IDLE\<rparr>"

text \<open>The frame goes to the mailbox or, marked as requeued, to the long queue.\<close>

definition nq_requeue :: "nq_env \<Rightarrow> nodeid \<Rightarrow> bool \<Rightarrow> buffer \<Rightarrow> nodeq \<Rightarrow> nodeq" where
  "nq_requeue env node mark sent s =
     (case queue_move_to_mailbox env node sent s of
        (True, s') \<Rightarrow> s'
      | (False, s') \<Rightarrow> snd (nq_enqueue long_queue (if mark then setPacketRequeued sent else sent) s'))"

definition queue_send_done :: "nq_env \<Rightarrow> tx_status \<Rightarrow> buffer option \<Rightarrow> nodeq \<Rightarrow> nq_error + nodeq" where
  "queue_send_done env status sent_buffer s0 =
     (let s = s0\<lparr>queue_timer := False\<rparr>
      in case nq_sending s of
           None \<Rightarrow> Inr s
         | Some h \<Rightarrow>
             (case uip_packetqueue_buf h (nq s) of
                None \<Rightarrow> Inl AssertFailed
              | Some dat \<Rightarrow>
                  let node = frame_node env dat;
                      s1 = (if status = TRANSMIT_COMPLETE_OK then emit (MbTransmissionOk node) s else s)
                  in if status = TRANSMIT_COMPLETE_REQUEUE then Inr (nq_idle s1)
                     else if status = TRANSMIT_COMPLETE_REQUEUE_QUEUED then
                       (case sent_buffer of
                          None \<Rightarrow> Inl NullBuffer
                        | Some sent \<Rightarrow>
                            Inr (nq_idle (nq_pop h
                              (nq_requeue env node
                                 (rd_node_mode env node mod 256 \<noteq> MODE_FREQUENTLYLISTENING) sent s1))))
                     else
                       let s2 = (case sent_buffer of
                                   Some sent \<Rightarrow>
                                     if h = first_attempt_queue \<and> status = TRANSMIT_COMPLETE_NO_ACK \<and> sent \<noteq> []
                                     then nq_requeue env node True sent s1 else s1
                                 | None \<Rightarrow> s1)
                       in Inr (emit PostQueueUpdated (nq_idle (nq_pop h s2)))))"

section \<open>Transmission\<close>

datatype czn_result = Callback tx_status "buffer option" | Later | Refused

definition nq_select :: "nodeq \<Rightarrow> nq_handle option" where
  "nq_select s =
     (if queue_state s = QS_IDLE
      then if uip_packetqueue_len first_attempt_queue (nq s) > 0 then Some first_attempt_queue
           else if uip_packetqueue_len long_queue (nq s) > 0 then Some long_queue else None
      else None)"

definition nq_mark_sending :: "nq_handle \<Rightarrow> nodeq \<Rightarrow> nodeq" where
  "nq_mark_sending h s =
     (if h = first_attempt_queue then s\<lparr>queue_state := QS_SENDING_FIRST, queue_timer := True\<rparr>
      else s\<lparr>queue_state := QS_SENDING_LONG\<rparr>)"

definition nq_transmit ::
  "nq_env \<Rightarrow> (nodeid \<Rightarrow> buffer \<Rightarrow> bool \<Rightarrow> czn_result) \<Rightarrow> nq_handle \<Rightarrow> nodeq \<Rightarrow> nq_error + nodeq" where
  "nq_transmit env ClassicZIPNode_input h s =
     (let len = uip_packetqueue_buflen h (nq s)
      in if len = 0 then Inl AssertFailed
         else
           let frame = take len (the (uip_packetqueue_buf h (nq s)));
               node = frame_node env frame;
               requeued = isPacketRequeued frame;
               s' = emit (SendToNode node frame requeued)
                      (if node = newly_included env then emit ExtendProbe s else s)
           in if node = 0 then Inl AssertFailed
              else case ClassicZIPNode_input node frame requeued of
                     Callback st sent \<Rightarrow> queue_send_done env st sent s'
                   | Later \<Rightarrow> Inr s'
                   | Refused \<Rightarrow> queue_send_done env TRANSMIT_COMPLETE_FAIL None s')"

definition process_node_queues ::
  "nq_env \<Rightarrow> (nodeid \<Rightarrow> buffer \<Rightarrow> bool \<Rightarrow> czn_result) \<Rightarrow> nodeq \<Rightarrow> nq_error + nodeq" where
  "process_node_queues env ClassicZIPNode_input s =
     (case nq_select s of
        None \<Rightarrow> Inr (emit PostComponentDone s)
      | Some h \<Rightarrow> nq_transmit env ClassicZIPNode_input h (nq_mark_sending h s))"

definition nq_drain :: "nq_handle \<Rightarrow> nodeq \<Rightarrow> nodeq" where
  "nq_drain h s = ((nq_pop h) ^^ (uip_packetqueue_len h (nq s))) s"

definition node_queue_init :: "nodeq \<Rightarrow> nodeq" where
  "node_queue_init s =
     (let s1 = (if queue_state s \<noteq> QS_IDLE then nq_drain long_queue (nq_drain first_attempt_queue s) else s)
      in s1\<lparr>nq := uip_packetqueue_new long_queue (uip_packetqueue_new first_attempt_queue (nq s1)),
            queue_state := QS_IDLE\<rparr>)"

section \<open>The queues under the operations\<close>

abbreviation nq_contents :: "nodeq \<Rightarrow> nq_handle \<Rightarrow> buffer list" where
  "nq_contents s \<equiv> pq_contents (nq s)"

abbreviation nq_room :: "nodeq \<Rightarrow> nat" where
  "nq_room s \<equiv> uip_packetqueue_free_len (nq s)"

lemma emit_simps [simp]:
  "nq (emit e s) = nq s" "queue_state (emit e s) = queue_state s" "black_list_crc32 (emit e s) = black_list_crc32 s"
  "effects (emit e s) = effects s @ [e]" "nq_sending (emit e s) = nq_sending s"
  by (simp_all add: emit_def nq_sending_def)

lemma nq_idle_simps [simp]:
  "nq (nq_idle s) = nq s" "queue_state (nq_idle s) = QS_IDLE" "nq_sending (nq_idle s) = None"
  "effects (nq_idle s) = effects s" "black_list_crc32 (nq_idle s) = black_list_crc32 s"
  by (simp_all add: nq_idle_def nq_sending_def)

lemma nq_pop_simps [simp]:
  "queue_state (nq_pop h s) = queue_state s" "effects (nq_pop h s) = effects s"
  "pq_ok (nq s) \<Longrightarrow> nq_contents (nq_pop h s) = (nq_contents s)(h := tl (nq_contents s h))"
  "pq_ok (nq s) \<Longrightarrow> pq_ok (nq (nq_pop h s))"
  by (simp_all add: nq_pop_def pq.pop_contents pq.ok_pop)

lemma nq_enqueue_simps [simp]:
  "queue_state (snd (nq_enqueue h f s)) = queue_state s" "effects (snd (nq_enqueue h f s)) = effects s"
  "pq_ok (nq s) \<Longrightarrow> pq_ok (nq (snd (nq_enqueue h f s)))"
  by (simp_all add: nq_enqueue_def pq_alloc_ok split: prod.splits) (metis pq_alloc_ok snd_conv)

lemma nq_enqueue_room:
  "pq_ok (nq s) \<Longrightarrow> 0 < nq_room s \<Longrightarrow>
     fst (nq_enqueue h f s) \<and> nq_contents (snd (nq_enqueue h f s)) = (nq_contents s)(h := nq_contents s h @ [f])"
  using pq_alloc_contents [of "nq s" h f 60000]
  by (cases "uip_packetqueue_alloc h f 60000 (nq s)") (simp add: nq_enqueue_def)

lemma nq_enqueue_full: "nq_room s = 0 \<Longrightarrow> nq_enqueue h f s = (False, s)"
  using pq_alloc_full [of "nq s" h f 60000] by (simp add: nq_enqueue_def)

text \<open>In both cases the queues grow by at most the new frame at the end of one queue.\<close>

lemma nq_enqueue_cases:
  assumes "pq_ok (nq s)"
  shows "nq_contents (snd (nq_enqueue h f s)) = (nq_contents s)(h := nq_contents s h @ [f]) \<or>
    nq_contents (snd (nq_enqueue h f s)) = nq_contents s"
proof (cases "nq_room s")
  case 0
  then show ?thesis by (simp add: nq_enqueue_full)
next
  case (Suc n)
  then show ?thesis using nq_enqueue_room [OF assms, of h f] by simp
qed

lemma nq_buf_contents:
  assumes "nq_contents s h = f # fs"
  obtains d where "uip_packetqueue_buf h (nq s) = Some d" and "take (uip_packetqueue_buflen h (nq s)) d = f"
  using assms by (cases "pq_list (nq s) h")
    (auto simp: uip_packetqueue_buf_def uip_packetqueue_buflen_def pq_contents_def pq_data_def)

lemma nq_buf_Nil: "nq_contents s h = [] \<Longrightarrow> uip_packetqueue_buf h (nq s) = None"
  by (simp add: uip_packetqueue_buf_def pq_contents_def)

lemma nq_len: "uip_packetqueue_len h (nq s) = length (nq_contents s h)"
  by (simp add: uip_packetqueue_len_def list_length_def pq_contents_def)

section \<open>Frames\<close>

lemma frame_node_take: "40 < n \<Longrightarrow> frame_node env (take n d) = frame_node env d"
  by (simp add: frame_node_def drop_take)

lemma frame_node_requeued [simp]: "frame_node env (setPacketRequeued f) = frame_node env f"
  by (simp add: frame_node_def setPacketRequeued_def)

lemma length_setPacketRequeued [simp]: "length (setPacketRequeued f) = length f"
  by (simp add: setPacketRequeued_def)

lemma wunmi_requeued [simp]: "is_wu_no_more_info_frame (setPacketRequeued f) = is_wu_no_more_info_frame f"
  by (simp add: is_wu_no_more_info_frame_def is_zip_pkt_def udp_destport_def setPacketRequeued_def Let_def)

lemma requeue_mark_marks:
  assumes "40 < length f"
  shows "isPacketRequeued (setPacketRequeued f) \<and> tl (setPacketRequeued f) = tl f"
proof -
  have "(f ! 0 OR 1) AND 1 = (1 :: byte)" by (rule bit_word_eqI) (auto simp: bit_simps)
  with assms show ?thesis by (cases f) (simp_all add: isPacketRequeued_def setPacketRequeued_def)
qed

text \<open>The frames that the mailbox takes over, and the ones the long queue may hold.\<close>

definition for_mailbox :: "nq_env \<Rightarrow> buffer \<Rightarrow> bool" where
  "for_mailbox env f \<longleftrightarrow> \<not> mailbox_disabled env \<and> rd_node_mode env (frame_node env f) = MODE_MAILBOX \<and>
     \<not> is_wu_no_more_info_frame f"

lemma for_mailbox_requeued [simp]: "for_mailbox env (setPacketRequeued f) = for_mailbox env f"
  by (simp add: for_mailbox_def)

lemma nq_requeue_mailbox:
  "for_mailbox env f \<Longrightarrow> nq_requeue env (frame_node env f) mark f s = emit (MbPost f) s"
  by (simp add: nq_requeue_def queue_move_to_mailbox_def for_mailbox_def)

lemma nq_requeue_long:
  "\<not> for_mailbox env f \<Longrightarrow> nq_requeue env (frame_node env f) mark f s =
     snd (nq_enqueue long_queue (if mark then setPacketRequeued f else f) s)"
  by (auto simp: nq_requeue_def queue_move_to_mailbox_def for_mailbox_def)

section \<open>Reachable states\<close>

text \<open>
  Everything that can happen to the queues, with a record of their history: the frame that \<open>ClassicZIPNode\<close>
  holds, the frames that were received, the received frames that may be filed into the long queue before any
  attempt (both queues were empty, or the long queue had a frame for the same node), and whether
  a frame expired while it was being transmitted. Node modes and addresses do not change.

  The steps: input of any frame, under the node it is addressed to; an attempt to transmit, in which a
  synchronous callback hands the frame back; a completion for the frame that \<open>ClassicZIPNode\<close> holds; a late
  completion of a frame from before an initialisation, which finds the queues idle because \<open>ClassicZIPNode\<close>
  answers every attempt with \<open>TRANSMIT_COMPLETE_REQUEUE\<close> until then; the expiry of any packet in use,
  queued or not; and an initialisation at any time.
\<close>

record nq_history =
  in_hand :: "buffer option"
  received :: "buffer set"
  direct :: "buffer set"
  head_expired :: bool

definition files_direct :: "nq_env \<Rightarrow> buffer \<Rightarrow> nodeq \<Rightarrow> bool" where
  "files_direct env f s \<longleftrightarrow> queued_elements_existes env (frame_node env f) s \<or>
     nq_contents s first_attempt_queue = [] \<and> nq_contents s long_queue = []"

definition head_packet :: "nodeq \<Rightarrow> nat \<Rightarrow> bool" where
  "head_packet s p \<longleftrightarrow> (\<exists>h. nq_sending s = Some h \<and> list_head (pq_list (nq s) h) = Some p)"

inductive nq_step :: "nq_env \<Rightarrow> nodeq \<times> nq_history \<Rightarrow> nodeq \<times> nq_history \<Rightarrow> bool" for env where
  input: "node_input_queued env buf len (frame_node env (take len buf)) dec s = Inr (rc, s') \<Longrightarrow> len \<le> length buf \<Longrightarrow>
    nq_step env (s, g) (s', g\<lparr>received := insert (take len buf) (received g),
      direct := (if files_direct env (take len buf) s then insert (take len buf) (direct g) else direct g)\<rparr>)"
| process: "process_node_queues env czn s = Inr s' \<Longrightarrow>
    (\<And>n f r st b. czn n f r = Callback st b \<Longrightarrow> b = Some f) \<Longrightarrow>
    nq_step env (s, g) (s', g\<lparr>in_hand := (case nq_sending s' of None \<Rightarrow> None
      | Some h \<Rightarrow> if queue_state s = QS_IDLE then Some (hd (nq_contents s' h)) else in_hand g)\<rparr>)"
| sent: "queue_send_done env st (Some f) s = Inr s' \<Longrightarrow> in_hand g = Some f \<Longrightarrow>
    nq_step env (s, g) (s', g\<lparr>in_hand := None\<rparr>)"
| late: "queue_send_done env st b s = Inr s' \<Longrightarrow> queue_state s = QS_IDLE \<Longrightarrow> nq_step env (s, g) (s', g)"
| expire: "p \<in> memb_used (packets_memb (nq s)) \<Longrightarrow>
    nq_step env (s, g) (s\<lparr>nq := packet_timedout p (nq s)\<rparr>, g\<lparr>head_expired := head_expired g \<or> head_packet s p\<rparr>)"
| init: "nq_step env (s, g) (node_queue_init s, g\<lparr>in_hand := None, head_expired := False\<rparr>)"

inductive_cases nq_stepE: "nq_step env a b"

text \<open>Frames that may be in the long queue: marked, for a frequently listening node, or filed directly.\<close>

definition flirs :: "nq_env \<Rightarrow> buffer \<Rightarrow> bool" where
  "flirs env f \<longleftrightarrow> rd_node_mode env (frame_node env f) mod 256 = MODE_FREQUENTLYLISTENING"

definition long_ok :: "nq_env \<Rightarrow> nq_history \<Rightarrow> buffer \<Rightarrow> bool" where
  "long_ok env g f \<longleftrightarrow> \<not> for_mailbox env f \<and> (isPacketRequeued f \<or> flirs env f \<or> f \<in> direct g)"

definition nq_basic :: "nq_history \<Rightarrow> nodeq \<Rightarrow> bool" where
  "nq_basic g s \<longleftrightarrow> pq_ok (nq s) \<and>
     (\<forall>f\<in>set (nq_contents s first_attempt_queue). 40 < length f \<and> f \<in> received g) \<and>
     (\<forall>f\<in>set (nq_contents s long_queue). 40 < length f)"

definition nq_strict :: "nq_env \<Rightarrow> nq_history \<Rightarrow> nodeq \<Rightarrow> bool" where
  "nq_strict env g s \<longleftrightarrow> (\<forall>f\<in>set (nq_contents s long_queue). long_ok env g f) \<and>
     (\<forall>h. nq_sending s = Some h \<longrightarrow> nq_contents s h \<noteq> [] \<and> in_hand g = Some (hd (nq_contents s h)))"

definition nq_inv :: "nq_env \<Rightarrow> nodeq \<times> nq_history \<Rightarrow> bool" where
  "nq_inv env = (\<lambda>(s, g). nq_basic g s \<and> (\<forall>f. in_hand g = Some f \<longrightarrow> 40 < length f) \<and>
     (\<not> head_expired g \<longrightarrow> nq_strict env g s))"

lemma nq_history_simps [simp]:
  "nq_basic (g\<lparr>head_expired := x\<rparr>) s = nq_basic g s" "nq_basic (g\<lparr>in_hand := y\<rparr>) s = nq_basic g s"
  "nq_strict env (g\<lparr>head_expired := x\<rparr>) s = nq_strict env g s"
  by (simp_all add: nq_basic_def nq_strict_def long_ok_def)

lemma nq_sending_cases:
  assumes "nq_sending s = Some h"
  shows "h = first_attempt_queue \<and> queue_state s = QS_SENDING_FIRST \<or> h = long_queue \<and> queue_state s = QS_SENDING_LONG"
  using assms by (cases "queue_state s") (auto simp: nq_sending_def)

lemma nq_timer_simps [simp]:
  "nq_sending (s\<lparr>queue_timer := t\<rparr>) = nq_sending s" "nq_sending (s\<lparr>nq := q\<rparr>) = nq_sending s"
  by (simp_all add: nq_sending_def)

text \<open>What a finished transmission of the first frame of a queue does to the queues.\<close>

definition requeue_mark :: "nq_env \<Rightarrow> tx_status \<Rightarrow> buffer \<Rightarrow> buffer" where
  "requeue_mark env st f =
     (if st = TRANSMIT_COMPLETE_REQUEUE_QUEUED \<and> rd_node_mode env (frame_node env f) mod 256 = MODE_FREQUENTLYLISTENING
      then f else setPacketRequeued f)"

definition requeues :: "tx_status \<Rightarrow> nq_handle \<Rightarrow> bool" where
  "requeues st h \<longleftrightarrow> st = TRANSMIT_COMPLETE_REQUEUE_QUEUED \<or> st = TRANSMIT_COMPLETE_NO_ACK \<and> h = first_attempt_queue"

lemma queue_send_done_eq:
  assumes h: "nq_sending s = Some h" and c: "nq_contents s h = f # fs" and len: "40 < length f"
  shows "\<exists>s'. queue_send_done env st (Some f) s = Inr s' \<and> queue_state s' = QS_IDLE \<and>
    nq s' = (if st = TRANSMIT_COMPLETE_REQUEUE then nq s
             else uip_packetqueue_pop h (if requeues st h \<and> \<not> for_mailbox env f
               then nq (snd (nq_enqueue long_queue (requeue_mark env st f) s)) else nq s)) \<and>
    (for_mailbox env f \<and> requeues st h \<longrightarrow> MbPost f \<in> set (effects s'))"
proof -
  let ?s = "s\<lparr>queue_timer := False\<rparr>"
  obtain d where d: "uip_packetqueue_buf h (nq s) = Some d" and f: "take (uip_packetqueue_buflen h (nq s)) d = f"
    using nq_buf_contents [OF c] by blast
  have node: "frame_node env d = frame_node env f"
    using frame_node_take [of "uip_packetqueue_buflen h (nq s)" env d] len f by (metis length_take min_less_iff_conj)
  have enq: "nq (snd (nq_enqueue g x (s\<lparr>queue_timer := False\<rparr>))) = nq (snd (nq_enqueue g x s))"
    "nq (snd (nq_enqueue g x (emit e s'))) = nq (snd (nq_enqueue g x s'))" for g x e s'
    by (simp_all add: nq_enqueue_def split: prod.splits)
  have f0: "f \<noteq> []" using len by auto
  show ?thesis
  proof (cases "for_mailbox env f")
    case True
    then show ?thesis using h d node f0
      by (cases st) (auto simp: queue_send_done_def Let_def nq_requeue_mailbox requeues_def nq_pop_def nq_idle_def emit_def)
  next
    case False
    then show ?thesis using h d node f0
      by (cases st) (auto simp: queue_send_done_def Let_def nq_requeue_long requeues_def requeue_mark_def nq_pop_def enq)
  qed
qed

text \<open>
  What any completion does, also one that finds another frame at the head of the queue: frames leave the
  queues, and only the frame that is handed back enters the long queue.
\<close>

lemma nq_pop_subset: "pq_ok (nq s) \<Longrightarrow> set (nq_contents (nq_pop h s) k) \<subseteq> set (nq_contents s k)"
  by (cases "nq_contents s h") (auto simp: list.set_sel(2))

lemma nq_requeue_grows:
  assumes "pq_ok (nq s)"
  shows "pq_ok (nq (nq_requeue env n mark f s))"
    and "nq_contents (nq_requeue env n mark f s) first_attempt_queue = nq_contents s first_attempt_queue"
    and "set (nq_contents (nq_requeue env n mark f s) long_queue) \<subseteq> set (nq_contents s long_queue) \<union> {f, setPacketRequeued f}"
  using assms nq_enqueue_cases [of s long_queue "if mark then setPacketRequeued f else f"]
  by (auto simp: nq_requeue_def queue_move_to_mailbox_def)

lemma queue_send_done_grows:
  assumes dn: "queue_send_done env st b s = Inr s'" and ok: "pq_ok (nq s)"
  shows "pq_ok (nq s')" and "queue_state s' = QS_IDLE"
    and "set (nq_contents s' first_attempt_queue) \<subseteq> set (nq_contents s first_attempt_queue)"
    and "set (nq_contents s' long_queue) \<subseteq> set (nq_contents s long_queue) \<union> (case b of None \<Rightarrow> {} | Some f \<Rightarrow> {f, setPacketRequeued f})"
proof -
  define Q where "Q x \<longleftrightarrow> pq_ok (nq x) \<and> set (nq_contents x first_attempt_queue) \<subseteq> set (nq_contents s first_attempt_queue) \<and>
    set (nq_contents x long_queue) \<subseteq> set (nq_contents s long_queue) \<union> (case b of None \<Rightarrow> {} | Some f \<Rightarrow> {f, setPacketRequeued f})"
    for x :: nodeq
  have pop: "Q (nq_pop h x)" if "Q x" for h x using that nq_pop_subset [of x h] unfolding Q_def by fastforce
  have req: "Q (nq_requeue env n mark f x)" if "nq x = nq s" "b = Some f" for n mark f x
    using nq_requeue_grows [of x env n mark f] that ok unfolding Q_def by auto
  have base: "Q (s\<lparr>queue_timer := False\<rparr>)" using ok by (simp add: Q_def)
  have same: "Q (emit e x) = Q x" "Q (nq_idle x) = Q x" for e x by (simp_all add: Q_def)
  have "Q s' \<and> queue_state s' = QS_IDLE"
  proof (cases "nq_sending s")
    case None
    then show ?thesis using dn
      by (cases "queue_state s") (auto simp: queue_send_done_def nq_sending_def intro!: base)
  next
    case (Some h)
    then show ?thesis using dn
      by (auto simp: queue_send_done_def Let_def same split: option.splits if_splits intro!: pop req base)
  qed
  then show "pq_ok (nq s')" "queue_state s' = QS_IDLE"
    "set (nq_contents s' first_attempt_queue) \<subseteq> set (nq_contents s first_attempt_queue)"
    "set (nq_contents s' long_queue) \<subseteq> set (nq_contents s long_queue) \<union> (case b of None \<Rightarrow> {} | Some f \<Rightarrow> {f, setPacketRequeued f})"
    by (simp_all add: Q_def)
qed

lemma queue_send_done_basic:
  assumes "queue_send_done env st b s = Inr s'" "nq_basic g s" "\<And>f. b = Some f \<Longrightarrow> 40 < length f"
  shows "nq_basic g s'"
  using queue_send_done_grows [OF assms(1)] assms(2,3) unfolding nq_basic_def
  by (fastforce split: option.splits)

lemma long_ok_mark: "\<not> for_mailbox env f \<Longrightarrow> 40 < length f \<Longrightarrow> long_ok env g (requeue_mark env st f)"
  using requeue_mark_marks [of f] by (auto simp: long_ok_def requeue_mark_def flirs_def)

lemma queue_send_done_strict:
  assumes dn: "queue_send_done env st (Some f) s = Inr s'" and "nq_basic g s" "nq_strict env g s" "in_hand g = Some f"
    and g': "direct g' = direct g"
  shows "nq_strict env g' s'"
proof -
  have ok: "pq_ok (nq s)" using assms(2) by (simp add: nq_basic_def)
  have idle: "nq_sending s' = None" using queue_send_done_grows(2) [OF dn ok] by (simp add: nq_sending_def)
  have keep: "long_ok env g' x = long_ok env g x" for x using g' by (simp add: long_ok_def)
  have "\<forall>x\<in>set (nq_contents s' long_queue). long_ok env g x"
  proof (cases "nq_sending s")
    case None
    then have "s' = s\<lparr>queue_timer := False\<rparr>" using dn by (simp add: queue_send_done_def)
    with assms(3) show ?thesis by (simp add: nq_strict_def)
  next
    case (Some h)
    with assms(3,4) obtain fs where c: "nq_contents s h = f # fs"
      by (cases "nq_contents s h") (auto simp: nq_strict_def)
    then have len: "40 < length f" using assms(2) nq_sending_cases [OF Some] by (auto simp: nq_basic_def)
    define q where "q = (if requeues st h \<and> \<not> for_mailbox env f then nq (snd (nq_enqueue long_queue (requeue_mark env st f) s)) else nq s)"
    have q: "pq_ok q" "\<forall>x\<in>set (pq_contents q long_queue). long_ok env g x"
      using nq_enqueue_cases [OF ok, of long_queue "requeue_mark env st f"] long_ok_mark [of env f g st] len assms(3) ok
      by (auto simp: q_def nq_strict_def)
    have "nq s' = (if st = TRANSMIT_COMPLETE_REQUEUE then nq s else uip_packetqueue_pop h q)"
      using queue_send_done_eq [OF Some c len, of env st] dn by (auto simp: q_def)
    moreover have "set (tl (pq_contents q h)) \<subseteq> set (pq_contents q h)" by (cases "pq_contents q h") auto
    ultimately show ?thesis using q assms(3) by (auto simp: pq.pop_contents nq_strict_def)
  qed
  with idle keep show ?thesis by (simp add: nq_strict_def)
qed

lemma queue_send_done_inv:
  assumes "nq_inv env (s, g)" "queue_send_done env st (Some f) s = Inr s'" "in_hand g = Some f"
  shows "nq_inv env (s', g\<lparr>in_hand := None\<rparr>) \<and> queue_state s' = QS_IDLE"
proof -
  have b: "nq_basic g s" "40 < length f" using assms(1,3) by (auto simp: nq_inv_def)
  then have "nq_basic g s'" using queue_send_done_basic [OF assms(2)] by simp
  moreover have "nq_strict env (g\<lparr>in_hand := None\<rparr>) s'" if "\<not> head_expired g"
    using queue_send_done_strict [OF assms(2) b(1) _ assms(3), of "g\<lparr>in_hand := None\<rparr>"] that assms(1) by (simp add: nq_inv_def)
  ultimately show ?thesis
    using queue_send_done_grows(2) [OF assms(2)] b(1) by (simp add: nq_inv_def nq_basic_def)
qed

lemma queue_send_done_refused:
  assumes h: "nq_sending s = Some h" and c: "nq_contents s h = f # fs"
  shows "\<exists>s'. queue_send_done env TRANSMIT_COMPLETE_FAIL None s = Inr s' \<and> queue_state s' = QS_IDLE \<and>
    nq s' = uip_packetqueue_pop h (nq s)"
proof -
  obtain d where "uip_packetqueue_buf h (nq s) = Some d" using nq_buf_contents [OF c] by blast
  with h show ?thesis by (auto simp: queue_send_done_def Let_def nq_pop_def)
qed

lemma node_input_inv:
  assumes inv: "nq_inv env (s, g)" and len: "len \<le> length buf"
    and inp: "node_input_queued env buf len (frame_node env (take len buf)) dec s = Inr (rc, s')"
  shows "nq_inv env (s', g\<lparr>received := insert (take len buf) (received g),
      direct := (if files_direct env (take len buf) s then insert (take len buf) (direct g) else direct g)\<rparr>)"
    (is "nq_inv env (s', ?g)")
proof -
  let ?f = "take len buf"
  let ?s1 = "add_fingerprint_uip_buf ?f s"
  have s1: "nq ?s1 = nq s" "queue_state ?s1 = queue_state s" by (simp_all add: add_fingerprint_uip_buf_def)
  have more: "nq_basic ?g s" if "nq_basic g s" using that by (auto simp: nq_basic_def)
  have long_more: "long_ok env g x \<Longrightarrow> long_ok env ?g x" for x by (auto simp: long_ok_def)
  have strict_more: "nq_strict env ?g s" if "nq_strict env g s" using that long_more by (auto simp: nq_strict_def)
  consider (other) "nq s' = nq s" "queue_state s' = queue_state s"
    | (queued) h where "s' = emit PostQueueUpdated (snd (nq_enqueue h ?f ?s1))"
        "h = (if nq_use_long env (frame_node env ?f) ?s1 then long_queue else first_attempt_queue)" "40 < len"
    using inp by (auto simp: node_input_queued_def handle_keep_alive_def Let_def split: if_splits prod.splits)
  then show ?thesis
  proof cases
    case other
    have "nq_basic ?g s' = nq_basic ?g s" "nq_strict env ?g s' = nq_strict env ?g s"
      using other by (simp_all add: nq_basic_def nq_strict_def nq_sending_def)
    with inv more strict_more show ?thesis by (simp add: nq_inv_def)
  next
    case (queued h)
    have ok: "pq_ok (nq ?s1)" using inv s1 by (simp add: nq_inv_def nq_basic_def)
    have f: "40 < length ?f" "?f \<in> received ?g" using queued len by auto
    have l: "long_ok env ?g ?f" if "h = long_queue"
      using that queued(2) s1 by (auto simp: nq_use_long_def for_mailbox_def long_ok_def flirs_def files_direct_def nq_len
          queued_elements_existes_def Let_def split: if_splits)
    have h: "h = long_queue \<or> h = first_attempt_queue" using queued(2) by auto
    consider "nq_contents s' = (nq_contents s)(h := nq_contents s h @ [?f])" | "nq_contents s' = nq_contents s"
      using nq_enqueue_cases [OF ok, of h ?f] queued(1) s1 by auto
    moreover have "pq_ok (nq s')" using queued(1) ok by simp
    moreover have "nq_sending s' = nq_sending s" using queued(1) s1 by (simp add: nq_sending_def)
    ultimately have "nq_basic g s \<Longrightarrow> nq_basic ?g s'" "nq_strict env g s \<Longrightarrow> nq_strict env ?g s'"
      using h f l long_more by (cases; auto simp: nq_basic_def nq_strict_def)+
    with inv show ?thesis by (simp add: nq_inv_def)
  qed
qed

lemma nq_mark_sending_simps [simp]:
  "nq (nq_mark_sending h s) = nq s" "effects (nq_mark_sending h s) = effects s"
  by (simp_all add: nq_mark_sending_def)

lemma nq_select_None:
  "nq_select s = None \<longleftrightarrow>
     queue_state s \<noteq> QS_IDLE \<or> nq_contents s first_attempt_queue = [] \<and> nq_contents s long_queue = []"
  by (simp add: nq_select_def nq_len)

lemma nq_select_Some:
  "nq_select s = Some h \<Longrightarrow>
     queue_state s = QS_IDLE \<and> nq_contents s h \<noteq> [] \<and> (h = first_attempt_queue \<or> h = long_queue) \<and>
     nq_sending (nq_mark_sending h s) = Some h"
  by (auto simp: nq_select_def nq_len nq_sending_def nq_mark_sending_def split: if_splits)

text \<open>The frame that is handed over is the first one of the queue.\<close>

lemma nq_transmit_eq:
  assumes c: "nq_contents s h = f # fs" and len: "40 < length f"
  shows "nq_transmit env czn h s =
    (let s' = emit (SendToNode (frame_node env f) f (isPacketRequeued f))
                (if frame_node env f = newly_included env then emit ExtendProbe s else s)
     in if frame_node env f = 0 then Inl AssertFailed
        else case czn (frame_node env f) f (isPacketRequeued f) of
               Callback x b \<Rightarrow> queue_send_done env x b s' | Later \<Rightarrow> Inr s'
             | Refused \<Rightarrow> queue_send_done env TRANSMIT_COMPLETE_FAIL None s')"
proof -
  obtain d where d: "uip_packetqueue_buf h (nq s) = Some d" "take (uip_packetqueue_buflen h (nq s)) d = f"
    using nq_buf_contents [OF c] by blast
  moreover have "uip_packetqueue_buflen h (nq s) \<noteq> 0" using d(2) len by auto
  ultimately show ?thesis by (simp add: nq_transmit_def Let_def)
qed

lemma nq_inv_cong: "nq_inv env (s, g) \<Longrightarrow> nq s' = nq s \<Longrightarrow> queue_state s' = queue_state s \<Longrightarrow> nq_inv env (s', g)"
  by (simp add: nq_inv_def nq_basic_def nq_strict_def nq_sending_def)

lemma process_inv:
  assumes inv: "nq_inv env (s, g)" and pr: "process_node_queues env czn s = Inr s'"
    and cb: "\<And>n f r st b. czn n f r = Callback st b \<Longrightarrow> b = Some f"
  shows "nq_inv env (s', g\<lparr>in_hand := (case nq_sending s' of None \<Rightarrow> None
      | Some h \<Rightarrow> if queue_state s = QS_IDLE then Some (hd (nq_contents s' h)) else in_hand g)\<rparr>)"
proof (cases "nq_select s")
  case None
  then have "s' = emit PostComponentDone s" using pr by (simp add: process_node_queues_def)
  with inv None show ?thesis
    by (auto simp: nq_inv_def nq_basic_def nq_strict_def long_ok_def nq_sending_def nq_select_None split: en_queue_state.splits)
next
  case (Some h)
  note sel = nq_select_Some [OF Some]
  then obtain f fs where c: "nq_contents s h = f # fs" by (cases "nq_contents s h") auto
  have len: "40 < length f" using inv c sel by (auto simp: nq_inv_def nq_basic_def)
  define s3 where "s3 = emit (SendToNode (frame_node env f) f (isPacketRequeued f))
    (if frame_node env f = newly_included env then emit ExtendProbe (nq_mark_sending h s) else nq_mark_sending h s)"
  have s3: "nq s3 = nq s" "nq_sending s3 = Some h" using sel by (auto simp: s3_def)
  have eq: "(case czn (frame_node env f) f (isPacketRequeued f) of
         Callback x b \<Rightarrow> queue_send_done env x b s3 | Later \<Rightarrow> Inr s3
       | Refused \<Rightarrow> queue_send_done env TRANSMIT_COMPLETE_FAIL None s3) = Inr s'"
    using pr Some nq_transmit_eq [of "nq_mark_sending h s" h f fs env czn] c len
    by (auto simp: process_node_queues_def Let_def s3_def [symmetric] split: if_splits)
  have inv3: "nq_inv env (s3, g\<lparr>in_hand := Some f\<rparr>)"
    using inv s3 c len by (auto simp: nq_inv_def nq_basic_def nq_strict_def long_ok_def)
  show ?thesis
  proof (cases "czn (frame_node env f) f (isPacketRequeued f)")
    case (Callback x b)
    with cb have "b = Some f" by simp
    with Callback eq have "queue_send_done env x (Some f) s3 = Inr s'" by simp
    from queue_send_done_inv [OF inv3 this] show ?thesis by (simp add: nq_sending_def)
  next
    case Later
    with eq s3 c inv3 sel show ?thesis by simp
  next
    case Refused
    with eq have "queue_send_done env TRANSMIT_COMPLETE_FAIL None s3 = Inr s'" by simp
    with queue_send_done_refused [OF s3(2), of f fs env] s3 c
    have s': "queue_state s' = QS_IDLE" "nq s' = uip_packetqueue_pop h (nq s)" by auto
    have "pq_ok (nq s)" using inv by (simp add: nq_inv_def nq_basic_def)
    moreover from this have "set (nq_contents s' k) \<subseteq> set (nq_contents s k)" for k
      using nq_pop_subset [of s h k] s'(2) by (simp add: nq_pop_def)
    ultimately show ?thesis
      using inv s' by (fastforce simp: nq_inv_def nq_basic_def nq_strict_def long_ok_def nq_sending_def pq.ok_pop)
  qed
qed

text \<open>Expiry: a packet leaves its queue if it is in one, and its block is freed.\<close>

lemma expire_queue:
  assumes "pq_ok q" "p \<in> memb_used (packets_memb q)"
  shows "pq_ok (packet_timedout p q)" "pkt (packet_timedout p q) = pkt q"
    "pq_list (packet_timedout p q) k = filter (\<lambda>x. x \<noteq> p) (pq_list q k)"
proof -
  let ?h = "pk_handle (pkt q p)"
  have d: "distinct (pq_list q k)" for k using assms(1) by (simp add: pq_ok_def)
  have other: "p \<notin> set (pq_list q k)" if "k \<noteq> ?h" for k using assms(1) that by (auto simp: pq_ok_def)
  show "pq_list (packet_timedout p q) k = filter (\<lambda>x. x \<noteq> p) (pq_list q k)" for k
    using d [of k] other [of k] by (cases "k = ?h") (auto simp: packet_timedout_def Let_def list_remove_filter intro!: filter_True [symmetric])
  show "pkt (packet_timedout p q) = pkt q" by (simp add: packet_timedout_def Let_def)
  show "pq_ok (packet_timedout p q)"
  proof (cases "p \<in> set (pq_list q ?h)")
    case True
    then show ?thesis by (rule pq_timedout_ok(1) [OF assms(1)])
  next
    case False
    with d have l: "list_remove (pq_list q ?h) p = pq_list q ?h" by (auto simp: list_remove_filter intro!: filter_True)
    have ok: "memb_ok (packets_memb q)" using assms(1) by (simp add: pq_ok_def)
    have "\<forall>k. p \<notin> set (pq_list q k)" using other False by metis
    with assms(1) l ok mb.free_ok [OF ok, of p] mb.free_used [OF ok, of p] show ?thesis
      by (auto simp: packet_timedout_def Let_def pq_ok_def)
  qed
qed

lemma expire_inv:
  assumes inv: "nq_inv env (s, g)" and p: "p \<in> memb_used (packets_memb (nq s))"
  shows "nq_inv env (s\<lparr>nq := packet_timedout p (nq s)\<rparr>, g\<lparr>head_expired := head_expired g \<or> head_packet s p\<rparr>)"
    (is "nq_inv env (?s, _)")
proof -
  have ok: "pq_ok (nq s)" using inv by (simp add: nq_inv_def nq_basic_def)
  note E = expire_queue [OF ok p]
  have sub: "set (nq_contents ?s k) \<subseteq> set (nq_contents s k)" for k by (auto simp: pq_contents_def E)
  have hd: "nq_contents ?s h \<noteq> [] \<and> hd (nq_contents ?s h) = hd (nq_contents s h)"
    if "nq_contents s h \<noteq> []" "list_head (pq_list (nq s) h) \<noteq> Some p" for h
    using that by (cases "pq_list (nq s) h") (auto simp: pq_contents_def E)
  from inv have "nq_basic g s" by (simp add: nq_inv_def)
  then have "nq_basic g ?s" using sub E(1) by (auto simp: nq_basic_def)
  moreover have "nq_strict env g ?s" if "nq_strict env g s" "\<not> head_packet s p"
  proof -
    have "\<forall>f\<in>set (nq_contents ?s long_queue). long_ok env g f"
      using that(1) sub [of long_queue] unfolding nq_strict_def by blast
    with that hd show ?thesis by (simp add: nq_strict_def head_packet_def)
  qed
  ultimately show ?thesis using inv by (auto simp: nq_inv_def)
qed

text \<open>Initialisation leaves both queues empty; packets of queues that were idle stay in the pool until they expire.\<close>

lemma init_inv:
  assumes "nq_inv env (s, g)"
  shows "nq_inv env (node_queue_init s, g\<lparr>in_hand := None, head_expired := False\<rparr>)"
proof -
  have pops: "pq_ok (nq x) \<Longrightarrow> pq_ok (nq ((nq_pop h ^^ n) x))" for h n x by (induction n) simp_all
  have new: "pq_ok q \<Longrightarrow> pq_ok (uip_packetqueue_new h q)" for h and q :: "nq_handle pktq"
    by (auto simp: pq_ok_def uip_packetqueue_new_def)
  have "pq_ok (nq s)" using assms by (simp add: nq_inv_def nq_basic_def)
  then have "pq_ok (nq (node_queue_init s))"
    by (auto simp: node_queue_init_def Let_def nq_drain_def intro!: new pops)
  moreover have "nq_contents (node_queue_init s) first_attempt_queue = []" "nq_contents (node_queue_init s) long_queue = []"
    "nq_sending (node_queue_init s) = None"
    by (simp_all add: node_queue_init_def Let_def uip_packetqueue_new_def pq_contents_def nq_sending_def)
  ultimately show ?thesis by (simp add: nq_inv_def nq_basic_def nq_strict_def)
qed

lemma nq_step_inv: "nq_step env a b \<Longrightarrow> nq_inv env a \<Longrightarrow> nq_inv env b"
proof (induction rule: nq_step.induct)
  case (late st b s s' g)
  then have "s' = s\<lparr>queue_timer := False\<rparr>" by (simp add: queue_send_done_def nq_sending_def)
  with late.prems show ?case by (auto intro: nq_inv_cong)
next
  case (input buf len dec s rc s' g)
  from node_input_inv [OF input.prems input.hyps(2,1)] show ?case .
qed (auto intro: process_inv expire_inv init_inv dest: queue_send_done_inv)

lemma nq_reach_inv: "(nq_step env)\<^sup>*\<^sup>* a b \<Longrightarrow> nq_inv env a \<Longrightarrow> nq_inv env b"
  by (induction rule: rtranclp_induct) (auto intro: nq_step_inv)

definition no_history :: nq_history where
  "no_history = \<lparr>in_hand = None, received = {}, direct = {}, head_expired = False\<rparr>"

lemma nq_start_inv:
  "pq_ok (nq s0) \<Longrightarrow> queue_state s0 = QS_IDLE \<Longrightarrow> nq_contents s0 first_attempt_queue = [] \<Longrightarrow>
     nq_contents s0 long_queue = [] \<Longrightarrow> nq_inv env (s0, no_history)"
  by (simp add: nq_inv_def nq_basic_def nq_strict_def nq_sending_def no_history_def)

lemma unat_ucast_u16_u32: "unat (ucast (w :: u16) :: u32) < 65536"
proof -
  have "unat (ucast w :: u32) = unat w"
    by (simp add: unsigned_ucast_eq take_bit_nat_eq_self_iff) (rule less_trans [OF unat_u16_less], simp)
  then show ?thesis by simp
qed

lemma check_fingerprint_large:
  "\<forall>x\<in>set (black_list_crc32 s). 65536 \<le> unat x \<Longrightarrow> \<not> check_fingerprint_uip_buf frame s"
  unfolding check_fingerprint_uip_buf_def Let_def using unat_ucast_u16_u32 by (metis not_le)

text \<open>
  Expiry of the frame being transmitted: when the lifetime timer removes the first packet of the queue while it
  is being sent, the completion of that transmission removes the next frame, which was never sent; when there is no
  next frame, the completion runs into an assertion.
\<close>

lemma expiry_in_flight_drops_next_frame:
  assumes "nq_sending s = Some h" and "pq_ok (nq s)" and "pq_list (nq s) h = p # ps"
    and "nq_contents s h = f # fs"
  shows "let s1 = s\<lparr>nq := packet_timedout p (nq s)\<rparr> in
    nq_contents s1 h = fs \<and>
    (if fs = [] then queue_send_done env TRANSMIT_COMPLETE_OK (Some f) s1 = Inl AssertFailed
     else \<exists>s'. queue_send_done env TRANSMIT_COMPLETE_OK (Some f) s1 = Inr s' \<and> nq_contents s' h = tl fs)"
proof -
  define s1 where "s1 = s\<lparr>nq := packet_timedout p (nq s)\<rparr>"
  have p: "p \<in> set (pq_list (nq s) h)" using assms(3) by simp
  note T = pq_timedout_ok [OF assms(2) p]
  have "distinct (p # ps)" using assms(2,3) by (metis pq_ok_def)
  then have "filter (\<lambda>q. q \<noteq> p) (p # ps) = ps" by (auto intro!: filter_True)
  then have l: "pq_list (nq s1) h = ps" using T(2) assms(3) by (simp add: s1_def)
  then have c: "nq_contents s1 h = fs" using assms(3,4) T(3) by (simp add: s1_def pq_contents_def)
  have snd: "nq_sending s1 = Some h" and ok: "pq_ok (nq s1)" using assms(1) T(1) by (simp_all add: s1_def)
  have "if fs = [] then queue_send_done env TRANSMIT_COMPLETE_OK (Some f) s1 = Inl AssertFailed
     else \<exists>s'. queue_send_done env TRANSMIT_COMPLETE_OK (Some f) s1 = Inr s' \<and> nq_contents s' h = tl fs"
  proof (cases fs)
    case Nil
    with c nq_buf_Nil [of s1 h] snd show ?thesis by (simp add: queue_send_done_def)
  next
    case (Cons g gs)
    with c obtain d where "uip_packetqueue_buf h (nq s1) = Some d" by (metis nq_buf_contents)
    with snd ok c Cons show ?thesis by (auto simp: queue_send_done_def Let_def)
  qed
  with c show ?thesis by (simp add: s1_def [symmetric] Let_def)
qed

section \<open>Properties\<close>


text \<open>
  Transmissions finish, unless a frame expired while it was being transmitted: in every such state with a transmission under way, its completion with any
  status does not run into an assertion and returns to idle, and when idle an attempt to transmit a frame
  with a valid destination hands over the first frame of the first-attempt queue, or of the long queue
  when the former is empty.
\<close>

lemma node_queue_progress:
  assumes "(nq_step env)\<^sup>*\<^sup>* (s0, no_history) (s, g)" and "\<not> head_expired g"
    and "pq_ok (nq s0)" and "queue_state s0 = QS_IDLE"
    and "nq_contents s0 first_attempt_queue = []" and "nq_contents s0 long_queue = []"
  shows "(\<forall>h f. nq_sending s = Some h \<longrightarrow> in_hand g = Some f \<longrightarrow>
      (\<exists>s'. queue_send_done env st (Some f) s = Inr s' \<and> queue_state s' = QS_IDLE)) \<and>
    (\<forall>h f fs. queue_state s = QS_IDLE \<longrightarrow> nq_contents s h = f # fs \<longrightarrow>
      (h = first_attempt_queue \<or> h = long_queue \<and> nq_contents s first_attempt_queue = []) \<longrightarrow> frame_node env f \<noteq> 0 \<longrightarrow>
      (\<exists>s'. process_node_queues env (\<lambda>_ _ _. Later) s = Inr s' \<and> nq_sending s' = Some h \<and> nq_contents s' = nq_contents s \<and>
         effects s' = effects s @ (if frame_node env f = newly_included env then [ExtendProbe] else []) @
           [SendToNode (frame_node env f) f (isPacketRequeued f)]))"
proof (intro conjI allI impI)
  have inv: "nq_basic g s" "nq_strict env g s"
    using nq_reach_inv [OF assms(1) nq_start_inv [OF assms(3-)]] assms(2) by (simp_all add: nq_inv_def)
  show "\<exists>s'. queue_send_done env st (Some f) s = Inr s' \<and> queue_state s' = QS_IDLE"
    if h: "nq_sending s = Some h" and f: "in_hand g = Some f" for h f
  proof -
    obtain fs where c: "nq_contents s h = f # fs" using inv h f by (cases "nq_contents s h") (auto simp: nq_basic_def nq_strict_def)
    moreover have "40 < length f" using inv c nq_sending_cases [OF h] by (auto simp: nq_basic_def nq_strict_def)
    ultimately show ?thesis using queue_send_done_eq [OF h, of f fs env st] by blast
  qed
  show "\<exists>s'. process_node_queues env (\<lambda>_ _ _. Later) s = Inr s' \<and> nq_sending s' = Some h \<and> nq_contents s' = nq_contents s \<and>
      effects s' = effects s @ (if frame_node env f = newly_included env then [ExtendProbe] else []) @
        [SendToNode (frame_node env f) f (isPacketRequeued f)]"
    if idle: "queue_state s = QS_IDLE" and c: "nq_contents s h = f # fs" and n: "frame_node env f \<noteq> 0"
      and h: "h = first_attempt_queue \<or> h = long_queue \<and> nq_contents s first_attempt_queue = []" for h f fs
  proof -
    have sel: "nq_select s = Some h" using idle c h by (auto simp: nq_select_def nq_len)
    have "40 < length f" using inv c h by (auto simp: nq_basic_def nq_strict_def)
    with sel nq_select_Some [OF sel] n c nq_transmit_eq [of "nq_mark_sending h s" h f fs env "\<lambda>_ _ _. Later"]
    show ?thesis by (simp add: process_node_queues_def Let_def)
  qed
qed

text \<open>
  Accounting of a finished transmission, with room in the packet pool: asked to requeue, the queue
  keeps its frames; otherwise the sent frame leaves its queue, and if it has to be tried again it is either
  given to the mailbox or appended, marked, to the long queue (unmarked for a frequently listening node after
  a deferral); no other frame moves. The mark is what \<open>isPacketRequeued\<close> tests, and it leaves the rest of the
  frame as it was.
\<close>

lemma send_done_accounts_for_frame:
  assumes "nq_sending s = Some h" and "nq_contents s h = f # fs" and "40 < length f"
    and "pq_ok (nq s)" and "0 < nq_room s"
  shows "isPacketRequeued (setPacketRequeued f) \<and> tl (setPacketRequeued f) = tl f \<and>
    (\<exists>s'. queue_send_done env st (Some f) s = Inr s' \<and>
    (if st = TRANSMIT_COMPLETE_REQUEUE then nq_contents s' = nq_contents s
     else if requeues st h \<and> \<not> for_mailbox env f then
       nq_contents s' = (if h = long_queue then (nq_contents s)(h := fs @ [requeue_mark env st f])
         else (nq_contents s)(h := fs, long_queue := nq_contents s long_queue @ [requeue_mark env st f]))
     else nq_contents s' = (nq_contents s)(h := fs) \<and> (requeues st h \<longrightarrow> MbPost f \<in> set (effects s'))))"
proof -
  obtain s' where s': "queue_send_done env st (Some f) s = Inr s'"
    "nq s' = (if st = TRANSMIT_COMPLETE_REQUEUE then nq s
       else uip_packetqueue_pop h (if requeues st h \<and> \<not> for_mailbox env f
         then nq (snd (nq_enqueue long_queue (requeue_mark env st f) s)) else nq s))"
    "for_mailbox env f \<and> requeues st h \<longrightarrow> MbPost f \<in> set (effects s')"
    using queue_send_done_eq [OF assms(1-3), of env st] by blast
  have enq: "nq_contents (snd (nq_enqueue long_queue (requeue_mark env st f) s)) =
      (nq_contents s)(long_queue := nq_contents s long_queue @ [requeue_mark env st f])"
    "pq_ok (nq (snd (nq_enqueue long_queue (requeue_mark env st f) s)))"
    using nq_enqueue_room [OF assms(4,5)] assms(4) by simp_all
  show ?thesis
    using s' assms(2,4) enq requeue_mark_marks [OF assms(3)]
    by (intro conjI exI [of _ s']) (auto simp: pq.pop_contents fun_eq_iff)
qed

text \<open>
  A frame is lost when the pool is exhausted: with no free packet, a frame that was not acknowledged (or was
  deferred) and that the mailbox does not take leaves its queue and is in no queue afterwards.
\<close>

lemma send_done_loses_frame_when_full:
  assumes "nq_sending s = Some h" and "nq_contents s h = f # fs" and "40 < length f"
    and "pq_ok (nq s)" and "nq_room s = 0" and "requeues st h" and "\<not> for_mailbox env f"
  shows "\<exists>s'. queue_send_done env st (Some f) s = Inr s' \<and> nq_contents s' = (nq_contents s)(h := fs)"
proof -
  have "st \<noteq> TRANSMIT_COMPLETE_REQUEUE" using assms(6) by (auto simp: requeues_def)
  with assms queue_send_done_eq [OF assms(1-3), of env st]
  show ?thesis by (auto simp: nq_enqueue_full pq.pop_contents)
qed

text \<open>
  The duplicate filter compares a 16-bit truncation with 32-bit fingerprints: as long as the stored
  fingerprints and the one of the frame are not below 65536, a frame that was just entered into the filter is
  not recognised as a duplicate.
\<close>

lemma duplicate_filter_misses_duplicates:
  assumes "65536 \<le> unat (crc32 frame 0xFFFF)" and "\<forall>x\<in>set (black_list_crc32 s). 65536 \<le> unat x"
  shows "\<not> check_fingerprint_uip_buf frame (add_fingerprint_uip_buf frame s)"
  using assms
  by (intro check_fingerprint_large)
     (auto simp: add_fingerprint_uip_buf_def dest: set_update_subset_insert [THEN subsetD])

section \<open>Witnesses\<close>

definition env0 :: nq_env where
  "env0 = \<lparr>env_net = net0,
     env_zw = \<lparr>pan_prefix = replicate 16 0xFD, lan_addr = replicate 16 0, lladdr = [], homeID = 7, is_my_addr = (\<lambda>_. False)\<rparr>,
     env_nat = nat0, rd_node_mode = (\<lambda>_. 2), mailbox_disabled = False, newly_included = 0\<rparr>"

text \<open>A pool whose packets are all in use; the first one is in the first-attempt queue, or none is.\<close>

definition pqx :: "bool \<Rightarrow> nat list \<Rightarrow> nq_handle pktq" where
  "pqx used l = \<lparr>packets_memb = replicate 64 (if used then 1 else 0),
     pkt = (\<lambda>_. \<lparr>queue_buf = replicate 50 0xFD, queue_buf_len = 50, pk_lifetimer = None, pk_handle = first_attempt_queue\<rparr>),
     pq_list = (\<lambda>h. if h = first_attempt_queue then l else [])\<rparr>"

definition nqx :: "bool \<Rightarrow> nat list \<Rightarrow> en_queue_state \<Rightarrow> nodeq" where
  "nqx used l st = \<lparr>nq = pqx used l, queue_state = st, black_list_crc32 = [0x10000, 0x10000], bl_next = 0,
     queue_timer = False, effects = []\<rparr>"

lemma nqx_simps [simp]:
  "queue_state (nqx u l st) = st" "nq_contents (nqx u l st) h = (if h = first_attempt_queue then map (\<lambda>_. replicate 50 0xFD) l else [])"
  "pq_ok (nq (nqx True [0] st))" "pq_ok (nq (nqx False [] st))" "nq_room (nqx True l st) = 0"
  "pq_list (nq (nqx u l st)) first_attempt_queue = l"
  "nq_sending (nqx u l QS_SENDING_FIRST) = Some first_attempt_queue" "nq_sending (nqx u l QS_IDLE) = None"
  by (auto simp: nqx_def pqx_def pq_contents_def pq_data_def pq_ok_def memb_ok_def memb_used_def nq_sending_def
      uip_packetqueue_free_len_def memb_free_count_def)

lemma env0_mb [simp]: "\<not> for_mailbox env0 f"
  by (simp add: for_mailbox_def env0_def)

text \<open>The first frame into empty queues goes to the long queue.\<close>

abbreviation (input) frame0 :: buffer where "frame0 \<equiv> 0x60 # replicate 49 0xFD"

lemma nqx_room: "nq_room (nqx False [] QS_IDLE) = 64"
  by (simp add: nqx_def pqx_def uip_packetqueue_free_len_def memb_free_count_def)

lemma nq0_input:
  obtains s where "nq_step env0 (nqx False [] QS_IDLE, no_history) (s, no_history\<lparr>received := {frame0}, direct := {frame0}\<rparr>)"
    and "queue_state s = QS_IDLE" and "nq_contents s first_attempt_queue = []" and "nq_contents s long_queue = [frame0]"
proof -
  let ?s1 = "add_fingerprint_uip_buf frame0 (nqx False [] QS_IDLE)"
  let ?s = "emit PostQueueUpdated (snd (nq_enqueue long_queue frame0 ?s1))"
  have nq1: "nq ?s1 = nq (nqx False [] QS_IDLE)" by (simp add: add_fingerprint_uip_buf_def)
  have port: "udp_destport frame0 = 0xFDFD" by (simp add: udp_destport_def u16_of_bytes_def)
  have chk: "\<not> check_fingerprint_uip_buf frame0 (nqx False [] QS_IDLE)"
    by (rule check_fingerprint_large) (simp add: nqx_def)
  have long: "nq_use_long env0 n ?s1" for n
    by (simp add: nq_use_long_def Let_def nq_len nq1 env0_def)
  have "node_input_queued env0 frame0 50 (frame_node env0 (take 50 frame0)) False (nqx False [] QS_IDLE) =
      Inr (fst (nq_enqueue long_queue frame0 ?s1), ?s)"
    using port chk long by (simp add: node_input_queued_def Let_def split: prod.splits)
  from nq_step.input [OF this, of no_history]
  have "nq_step env0 (nqx False [] QS_IDLE, no_history) (?s, no_history\<lparr>received := {frame0}, direct := {frame0}\<rparr>)"
    by (simp add: files_direct_def no_history_def)
  moreover have "nq_contents ?s = (nq_contents ?s1)(long_queue := nq_contents ?s1 long_queue @ [frame0])"
    using nq_enqueue_room [of ?s1 long_queue frame0] nqx_room by (simp add: nq1)
  ultimately show ?thesis by (intro that [of ?s]) (simp_all add: nq1 add_fingerprint_uip_buf_def)
qed

lemma frame0_node: "frame_node env0 frame0 = 0xFDFD"
  by (simp add: frame_node_def nodeOfIP_def env0_def u16_of_bytes_def)

text \<open>
  A frame whose traffic class has the bit of the requeued flag, for a node with mailbox: it is queued as it
  is, so that the first-attempt queue has a frame with the flag set.
\<close>

abbreviation (input) frame1 :: buffer where "frame1 \<equiv> 0x61 # replicate 49 0xFD"

lemma flagged_frame_in_first_queue:
  "\<exists>s g. nq_step (env0\<lparr>rd_node_mode := \<lambda>_. MODE_MAILBOX\<rparr>) (nqx False [] QS_IDLE, no_history) (s, g) \<and>
     nq_contents s first_attempt_queue = [frame1] \<and> isPacketRequeued frame1"
proof -
  let ?env = "env0\<lparr>rd_node_mode := \<lambda>_. MODE_MAILBOX\<rparr>"
  let ?s1 = "add_fingerprint_uip_buf frame1 (nqx False [] QS_IDLE)"
  let ?s = "emit PostQueueUpdated (snd (nq_enqueue first_attempt_queue frame1 ?s1))"
  have nq1: "nq ?s1 = nq (nqx False [] QS_IDLE)" by (simp add: add_fingerprint_uip_buf_def)
  have chk: "\<not> check_fingerprint_uip_buf frame1 (nqx False [] QS_IDLE)"
    by (rule check_fingerprint_large) (simp add: nqx_def)
  have port: "udp_destport frame1 = 0xFDFD" by (simp add: udp_destport_def u16_of_bytes_def)
  have first: "\<not> nq_use_long ?env n ?s1" for n by (simp add: nq_use_long_def Let_def env0_def)
  have "node_input_queued ?env frame1 50 (frame_node ?env (take 50 frame1)) False (nqx False [] QS_IDLE) =
      Inr (fst (nq_enqueue first_attempt_queue frame1 ?s1), ?s)"
    using port chk first by (simp add: node_input_queued_def Let_def split: prod.splits)
  from nq_step.input [OF this] have "\<exists>g. nq_step ?env (nqx False [] QS_IDLE, no_history) (?s, g)" by fastforce
  moreover have "nq_contents ?s first_attempt_queue = [frame1]"
    using nq_enqueue_room [of ?s1 first_attempt_queue frame1] nqx_room by (simp add: nq1)
  moreover have "isPacketRequeued frame1" by (simp add: isPacketRequeued_def)
  ultimately show ?thesis by blast
qed


lemma node_queue_progress_witness:
  "\<exists>s s' g. nq_step env0 (nqx False [] QS_IDLE, no_history) (s, g) \<and>
     process_node_queues env0 (\<lambda>_ _ _. Later) s = Inr s' \<and> nq_sending s' = Some long_queue"
proof -
  obtain s where s: "nq_step env0 (nqx False [] QS_IDLE, no_history) (s, no_history\<lparr>received := {frame0}, direct := {frame0}\<rparr>)"
    "queue_state s = QS_IDLE" "nq_contents s first_attempt_queue = []" "nq_contents s long_queue = [frame0]"
    using nq0_input by blast
  from node_queue_progress [OF r_into_rtranclp [where r = "nq_step env0", OF s(1)]]
  have "\<exists>s'. process_node_queues env0 (\<lambda>_ _ _. Later) s = Inr s' \<and> nq_sending s' = Some long_queue"
    using s(2-4) frame0_node by (fastforce simp: no_history_def)
  with s(1) show ?thesis by blast
qed

lemma send_done_accounts_for_frame_witness:
  "\<exists>s s'. queue_send_done env0 TRANSMIT_COMPLETE_NO_ACK (Some (replicate 50 0xFD)) s = Inr s' \<and>
     nq_contents s first_attempt_queue = [replicate 50 0xFD] \<and> nq_contents s' first_attempt_queue = [] \<and>
     nq_contents s' long_queue = [setPacketRequeued (replicate 50 0xFD)]"
proof -
  define s where "s = (snd (nq_enqueue first_attempt_queue (replicate 50 0xFD) (nqx False [] QS_IDLE)))\<lparr>queue_state := QS_SENDING_FIRST\<rparr>"
  note room = nqx_room
  have c: "nq_contents s = (nq_contents (nqx False [] QS_IDLE))(first_attempt_queue := [replicate 50 0xFD])" "pq_ok (nq s)"
    using nq_enqueue_room [of "nqx False [] QS_IDLE" first_attempt_queue "replicate 50 0xFD"] room
    by (simp_all add: s_def)
  have "Suc (nq_room s) = 64"
    using pq_alloc_contents(4) [of "nq (nqx False [] QS_IDLE)" first_attempt_queue "replicate 50 0xFD" 60000] room
    by (cases "uip_packetqueue_alloc first_attempt_queue (replicate 50 0xFD) 60000 (nq (nqx False [] QS_IDLE))")
       (simp add: s_def nq_enqueue_def)
  then have "0 < nq_room s" by simp
  with send_done_accounts_for_frame [of s first_attempt_queue "replicate 50 0xFD" "[]" env0 TRANSMIT_COMPLETE_NO_ACK] c
  obtain s' where "queue_send_done env0 TRANSMIT_COMPLETE_NO_ACK (Some (replicate 50 0xFD)) s = Inr s'"
    "nq_contents s' = (nq_contents s)(first_attempt_queue := [], long_queue := nq_contents s long_queue @
       [requeue_mark env0 TRANSMIT_COMPLETE_NO_ACK (replicate 50 0xFD)])"
    by (auto simp: nq_sending_def s_def requeues_def)
  with c show ?thesis by (intro exI [of _ s] exI [of _ s']) (simp add: requeue_mark_def)
qed

lemma send_done_loses_frame_when_full_witness:
  "\<exists>s'. queue_send_done env0 TRANSMIT_COMPLETE_NO_ACK (Some (replicate 50 0xFD)) (nqx True [0] QS_SENDING_FIRST) = Inr s' \<and>
     nq_contents s' first_attempt_queue = [] \<and> nq_contents s' long_queue = []"
  using send_done_loses_frame_when_full [of "nqx True [0] QS_SENDING_FIRST" first_attempt_queue "replicate 50 0xFD" "[]"
      TRANSMIT_COMPLETE_NO_ACK env0]
  by (auto simp: requeues_def)

lemma duplicate_filter_misses_duplicates_witness:
  "\<not> check_fingerprint_uip_buf [0] (add_fingerprint_uip_buf [0] (nqx False [] QS_IDLE))"
  by (rule duplicate_filter_misses_duplicates)
     (simp_all add: crc32_def crc32_step_def crc32_tab_def nqx_def)

lemma expiry_in_flight_drops_next_frame_witness:
  "queue_send_done env0 TRANSMIT_COMPLETE_OK (Some (replicate 50 0xFD))
     ((nqx True [0] QS_SENDING_FIRST)\<lparr>nq := packet_timedout 0 (nq (nqx True [0] QS_SENDING_FIRST))\<rparr>) = Inl AssertFailed"
  using expiry_in_flight_drops_next_frame [of "nqx True [0] QS_SENDING_FIRST" first_attempt_queue 0 "[]" "replicate 50 0xFD" "[]" env0]
  by (simp add: Let_def)

end
