(* ===== verification/Frame_Check.thy ===== *)
theory Frame_Check
  imports ZGW_Prelude
begin

text \<open>
  Two small services of the transmission path: the 16-bit CRC that protects the frames of command
  class \<open>CRC_16_ENCAP\<close> (\<open>src/src/utls/zgw_crc.c\<close>, with the sender in \<open>transport/ZW_SendDataAppl.c\<close>
  and the receiver in \<open>ZIP_Router.c\<close>), and the command analyzer, which classifies a command by a
  binary search in a generated table (\<open>src/src/analyzer/CommandAnalyzer.c\<close>). The tables are the ones
  checked in as \<open>src/src-gen/get_list.c\<close>.

  The CRC is shown to be linear and invertible in its register, which gives the detection of every
  burst of at most two bytes; the search is shown to decide membership in the tables.
\<close>

section \<open>CRC-16\<close>

abbreviation CRC_POLY :: u16 where "CRC_POLY \<equiv> 0x1021"
abbreviation CRC_INIT_VALUE :: u16 where "CRC_INIT_VALUE \<equiv> 0x1D0F"
abbreviation COMMAND_CLASS_TRANSPORT_SERVICE :: byte where "COMMAND_CLASS_TRANSPORT_SERVICE \<equiv> 0x55"
abbreviation COMMAND_CLASS_CRC_16_ENCAP :: byte where "COMMAND_CLASS_CRC_16_ENCAP \<equiv> 0x56"
abbreviation COMMAND_CLASS_SECURITY :: byte where "COMMAND_CLASS_SECURITY \<equiv> 0x98"
abbreviation COMMAND_CLASS_SECURITY_2 :: byte where "COMMAND_CLASS_SECURITY_2 \<equiv> 0x9F"
abbreviation META_DATA_MAX_DATA_SIZE :: nat where "META_DATA_MAX_DATA_SIZE \<equiv> 48"

definition zgw_crc16_bit :: "byte \<Rightarrow> byte \<Rightarrow> u16 \<Rightarrow> u16" where
  "zgw_crc16_bit crc_data bitmask crc16 =
     (let new_bit = ((crc_data AND bitmask \<noteq> 0) \<noteq> (crc16 AND 0x8000 \<noteq> 0));
          shifted = push_bit 1 crc16
      in if new_bit then shifted XOR CRC_POLY else shifted)"

definition zgw_crc16_byte :: "byte \<Rightarrow> u16 \<Rightarrow> u16" where
  "zgw_crc16_byte crc_data crc16 =
     fold (zgw_crc16_bit crc_data) [0x80, 0x40, 0x20, 0x10, 0x08, 0x04, 0x02, 0x01] crc16"

definition zgw_crc16 :: "u16 \<Rightarrow> buffer \<Rightarrow> u16" where
  "zgw_crc16 crc16 xs = fold zgw_crc16_byte xs crc16"

text \<open>
  The encapsulation written by \<open>send_endpoint\<close>. Long frames, and frames of the classes that carry a
  protection of their own, are sent as they are.
\<close>

definition crc16_encap :: "buffer \<Rightarrow> buffer" where
  "crc16_encap new_buf =
     (if length new_buf < META_DATA_MAX_DATA_SIZE \<and>
         new_buf ! 0 \<notin> {COMMAND_CLASS_TRANSPORT_SERVICE, COMMAND_CLASS_SECURITY,
           COMMAND_CLASS_SECURITY_2, COMMAND_CLASS_CRC_16_ENCAP}
      then let buf = [COMMAND_CLASS_CRC_16_ENCAP, 0x01] @ new_buf; crc = zgw_crc16 CRC_INIT_VALUE buf
           in buf @ [ucast (drop_bit 8 crc), ucast crc]
      else new_buf)"

section \<open>The command analyzer\<close>

definition get_list :: "int list" where
  "get_list = [
      0x2002, 0x2401, 0x2403, 0x2502, 0x2602, 0x2606, 0x2702, 0x2802, 0x2902, 0x2a02,
      0x2a05, 0x2a08, 0x2a0b, 0x2a0e, 0x2a11, 0x2a14, 0x2a17, 0x2a1a, 0x2a1d, 0x2a20,
      0x2a23, 0x2a26, 0x2c02, 0x2d02, 0x2e01, 0x2e03, 0x2e05, 0x2f01, 0x2f03, 0x2f05,
      0x3001, 0x3002, 0x3101, 0x3103, 0x3104, 0x3201, 0x3203, 0x3301, 0x3303, 0x3417,
      0x3504, 0x3601, 0x3701, 0x3703, 0x3802, 0x3805, 0x3809, 0x380c, 0x3902, 0x3905,
      0x3908, 0x390a, 0x3a01, 0x3b01, 0x3b03, 0x3d01, 0x3d03, 0x3d05, 0x3d07, 0x3d09,
      0x3d0a, 0x3d0c, 0x3d0e, 0x3e02, 0x3f01, 0x3f03, 0x4002, 0x4004, 0x4201, 0x4202,
      0x4205, 0x4302, 0x4304, 0x4309, 0x4402, 0x4404, 0x4502, 0x4602, 0x4604, 0x4607,
      0x4702, 0x4901, 0x4903, 0x4905, 0x4907, 0x4909, 0x4b01, 0x4b03, 0x4b05, 0x4c01,
      0x4c03, 0x4d08, 0x4e04, 0x4e07, 0x4e09, 0x4e0b, 0x4e0e, 0x5102, 0x5201, 0x5203,
      0x5205, 0x5207, 0x5209, 0x5301, 0x5304, 0x5308, 0x530a, 0x5901, 0x5903, 0x5905,
      0x5b01, 0x5b05, 0x5c02, 0x5d02, 0x5e01, 0x5f02, 0x5f05, 0x5f09, 0x5f0c, 0x6004,
      0x6007, 0x6009, 0x600e, 0x6103, 0x6202, 0x6205, 0x6302, 0x6304, 0x6402, 0x6404,
      0x6406, 0x6408, 0x6502, 0x6504, 0x6602, 0x6604, 0x6607, 0x6702, 0x6704, 0x6707,
      0x6802, 0x6805, 0x6901, 0x6a01, 0x6a03, 0x6b01, 0x6b03, 0x6b06, 0x6b08, 0x6b0b,
      0x6b0f, 0x6c01, 0x6d02, 0x6d04, 0x6e01, 0x6f02, 0x6f04, 0x6f07, 0x7005, 0x7008,
      0x700a, 0x700c, 0x700e, 0x7101, 0x7104, 0x7107, 0x7204, 0x7206, 0x7302, 0x7305,
      0x7502, 0x7504, 0x7507, 0x750a, 0x7602, 0x7702, 0x7705, 0x7803, 0x7805, 0x7901,
      0x7903, 0x7906, 0x7909, 0x7a01, 0x7a03, 0x7a05, 0x7a0a, 0x7b02, 0x7d02, 0x8002,
      0x8105, 0x8405, 0x8409, 0x8502, 0x8505, 0x850b, 0x8611, 0x8613, 0x8615, 0x8617,
      0x8702, 0x8704, 0x8802, 0x8902, 0x8a01, 0x8a03, 0x8a06, 0x8b02, 0x8c02, 0x8e02,
      0x8e05, 0x9002, 0x9201, 0x9301, 0x9402, 0x9404, 0x9501, 0x9503, 0x9505, 0x9507,
      0x9601, 0x9701, 0x9802, 0x9804, 0x9840, 0x98c1, 0x9901, 0x9a02, 0x9b01, 0x9b04,
      0x9c01, 0x9c03, 0x9e02, 0x9f01, 0x9f04, 0x9f09, 0x9f0d]"

definition set_list :: "int list" where
  "set_list = [
      0x0112, 0x0113, 0x0122, 0x2001, 0x2405, 0x2501, 0x2601, 0x2701, 0x2801, 0x2901,
      0x2a01, 0x2a04, 0x2a07, 0x2a0a, 0x2a0d, 0x2a10, 0x2a13, 0x2a16, 0x2a19, 0x2a1a,
      0x2a1b, 0x2a1f, 0x2a22, 0x2a25, 0x2a28, 0x2b01, 0x2c01, 0x2d01, 0x3305, 0x3412,
      0x3414, 0x3416, 0x3801, 0x3804, 0x3805, 0x3806, 0x380b, 0x3811, 0x3901, 0x3904,
      0x3907, 0x3a03, 0x3c01, 0x3e01, 0x4001, 0x4301, 0x4302, 0x4303, 0x4304, 0x4305,
      0x4309, 0x430a, 0x4401, 0x4601, 0x4606, 0x4701, 0x4702, 0x4703, 0x4801, 0x4a01,
      0x4a02, 0x4d01, 0x4d02, 0x4d06, 0x4d07, 0x4e01, 0x4e02, 0x4e03, 0x4e06, 0x4e0d,
      0x4e10, 0x5101, 0x5303, 0x5307, 0x5b04, 0x5c01, 0x5d01, 0x5f01, 0x5f04, 0x5f07,
      0x5f08, 0x5f0b, 0x6101, 0x6201, 0x6204, 0x6301, 0x6401, 0x6402, 0x6403, 0x6404,
      0x6405, 0x6406, 0x6407, 0x6408, 0x6409, 0x6501, 0x6601, 0x6606, 0x6701, 0x6801,
      0x6804, 0x6902, 0x6a05, 0x6b05, 0x6b0a, 0x6b0e, 0x6d01, 0x6f06, 0x7004, 0x7007,
      0x7106, 0x7301, 0x7304, 0x7501, 0x7506, 0x7509, 0x7601, 0x7701, 0x7704, 0x7801,
      0x7905, 0x7908, 0x7a08, 0x7b01, 0x7d01, 0x8104, 0x8404, 0x8501, 0x8701, 0x8801,
      0x8901, 0x8a05, 0x8b01, 0x8c01, 0x8e01, 0x9401, 0x9806, 0x9a01, 0x9b03, 0x9d01,
      0x9e01, 0x9f06]"

definition rep_list :: "int list" where
  "rep_list = [
      0x2003, 0x2402, 0x2404, 0x2503, 0x2603, 0x2607, 0x2703, 0x2803, 0x2903, 0x2a03,
      0x2a06, 0x2a09, 0x2a0c, 0x2a0f, 0x2a12, 0x2a15, 0x2a18, 0x2a1b, 0x2a1e, 0x2a21,
      0x2a24, 0x2a27, 0x2c03, 0x2d03, 0x2e02, 0x2e04, 0x2e06, 0x2f02, 0x2f04, 0x2f06,
      0x3003, 0x3004, 0x3102, 0x3105, 0x3106, 0x3202, 0x3204, 0x3302, 0x3304, 0x3411,
      0x3413, 0x3415, 0x3418, 0x3419, 0x3505, 0x3602, 0x3702, 0x3704, 0x3803, 0x3806,
      0x380a, 0x380d, 0x3903, 0x3906, 0x3909, 0x390b, 0x3a02, 0x3b02, 0x3b04, 0x3d02,
      0x3d04, 0x3d06, 0x3d08, 0x3d0b, 0x3d0d, 0x3d0f, 0x3e03, 0x3f02, 0x3f04, 0x4003,
      0x4005, 0x4203, 0x4204, 0x4206, 0x4303, 0x4305, 0x430a, 0x4403, 0x4405, 0x4503,
      0x4603, 0x4605, 0x4608, 0x4703, 0x4902, 0x4904, 0x4906, 0x4908, 0x490a, 0x4b02,
      0x4b04, 0x4b06, 0x4c02, 0x4c04, 0x4d09, 0x4e05, 0x4e08, 0x4e0a, 0x4e0c, 0x4e0f,
      0x5103, 0x5202, 0x5204, 0x5206, 0x5208, 0x520a, 0x5302, 0x5305, 0x5309, 0x530b,
      0x5902, 0x5904, 0x5906, 0x5b02, 0x5b06, 0x5c03, 0x5d03, 0x5e02, 0x5f03, 0x5f06,
      0x5f0a, 0x5f0d, 0x6005, 0x6008, 0x600a, 0x600c, 0x600f, 0x6104, 0x6203, 0x6206,
      0x6303, 0x6305, 0x6403, 0x6405, 0x6407, 0x6409, 0x6503, 0x6505, 0x6603, 0x6605,
      0x6608, 0x6703, 0x6705, 0x6708, 0x6803, 0x6806, 0x6903, 0x6a02, 0x6a04, 0x6b02,
      0x6b04, 0x6b07, 0x6b09, 0x6b0c, 0x6b10, 0x6c02, 0x6d03, 0x6d05, 0x6e02, 0x6f03,
      0x6f05, 0x6f08, 0x7006, 0x7009, 0x700b, 0x700d, 0x700f, 0x7102, 0x7105, 0x7108,
      0x7205, 0x7207, 0x7303, 0x7306, 0x7503, 0x7505, 0x7508, 0x750b, 0x7603, 0x7703,
      0x7706, 0x7804, 0x7806, 0x7902, 0x7904, 0x7907, 0x790a, 0x7a02, 0x7a04, 0x7a06,
      0x7a07, 0x7a09, 0x7a0b, 0x7b03, 0x7d03, 0x8003, 0x8106, 0x8406, 0x840a, 0x8503,
      0x8506, 0x850c, 0x8612, 0x8614, 0x8616, 0x8618, 0x8703, 0x8705, 0x8803, 0x8903,
      0x8a02, 0x8a04, 0x8a07, 0x8b03, 0x8c03, 0x8e03, 0x8e06, 0x9003, 0x9202, 0x9203,
      0x9302, 0x9303, 0x9403, 0x9405, 0x9502, 0x9504, 0x9506, 0x9508, 0x9602, 0x9702,
      0x9803, 0x9805, 0x9880, 0x9902, 0x9a03, 0x9b02, 0x9b05, 0x9c02, 0x9c04, 0x9e03,
      0x9f02, 0x9f05, 0x9f08, 0x9f0a, 0x9f0e]"

definition supported_list :: "int list" where
  "supported_list = [
      0x2003, 0x2201, 0x2202, 0x2503, 0x2603, 0x2607, 0x2703, 0x2803, 0x2903, 0x2c03,
      0x2d03, 0x3003, 0x3004, 0x3102, 0x3105, 0x3106, 0x3202, 0x3204, 0x3302, 0x3304,
      0x3505, 0x3602, 0x3702, 0x3704, 0x3903, 0x3906, 0x3909, 0x390b, 0x3a02, 0x3b02,
      0x3b04, 0x3d02, 0x3d04, 0x3d06, 0x3d08, 0x3d0b, 0x3d0d, 0x3d0f, 0x3e03, 0x3f02,
      0x3f04, 0x4003, 0x4005, 0x4203, 0x4204, 0x4206, 0x4303, 0x4305, 0x430a, 0x4403,
      0x4405, 0x4503, 0x4603, 0x4605, 0x4608, 0x4703, 0x4902, 0x4904, 0x4906, 0x4908,
      0x490a, 0x4b02, 0x4b04, 0x4b06, 0x4c02, 0x4c04, 0x4e05, 0x4e08, 0x4e0a, 0x4e0c,
      0x4e0f, 0x5103, 0x5206, 0x5208, 0x520a, 0x5302, 0x5309, 0x530b, 0x5701, 0x5801,
      0x5902, 0x5904, 0x5906, 0x5a01, 0x5b02, 0x5b03, 0x5b06, 0x5d03, 0x5e02, 0x5f03,
      0x5f06, 0x5f0a, 0x5f0d, 0x6008, 0x600a, 0x600c, 0x600d, 0x600f, 0x6102, 0x6104,
      0x6203, 0x6206, 0x6303, 0x6305, 0x6403, 0x6405, 0x6407, 0x6409, 0x6603, 0x6605,
      0x6608, 0x6705, 0x6803, 0x6806, 0x6903, 0x6904, 0x6905, 0x6906, 0x6a02, 0x6a04,
      0x6b02, 0x6b04, 0x6b07, 0x6b09, 0x6b0c, 0x6b10, 0x6c02, 0x6d03, 0x6d05, 0x6e02,
      0x6f01, 0x6f03, 0x6f05, 0x6f08, 0x7006, 0x7009, 0x700b, 0x700d, 0x700f, 0x7102,
      0x7105, 0x7108, 0x7205, 0x7303, 0x7306, 0x7401, 0x7402, 0x7503, 0x7505, 0x7508,
      0x750b, 0x7603, 0x7703, 0x7706, 0x7902, 0x7904, 0x7907, 0x790a, 0x7a02, 0x7a04,
      0x7a05, 0x7a07, 0x7a09, 0x7a0b, 0x7b03, 0x7d03, 0x8003, 0x8106, 0x8201, 0x8406,
      0x8407, 0x840a, 0x8503, 0x8506, 0x850c, 0x8612, 0x8614, 0x8616, 0x8618, 0x8703,
      0x8803, 0x8903, 0x8a02, 0x8a04, 0x8a07, 0x8b03, 0x8c03, 0x8e03, 0x8e06, 0x9003,
      0x9202, 0x9203, 0x9302, 0x9303, 0x9403, 0x9405, 0x9803, 0x9805, 0x9807, 0x9840,
      0x9880, 0x9881, 0x98c1, 0x9a03, 0x9b02, 0x9b05, 0x9c02, 0x9c04, 0x9e03, 0x9f02,
      0x9f03, 0x9f05, 0x9f07, 0x9f08, 0x9f09, 0x9f0b, 0x9f0c, 0x9f0e]"

text \<open>
  A read outside the table is \<open>None\<close>. The C \<open>int\<close> division of the loop only runs on non-negative
  operands, where it is \<open>div\<close>.
\<close>

function bsearch_loop :: "int \<Rightarrow> int list \<Rightarrow> int \<Rightarrow> int \<Rightarrow> bool option" where
  "bsearch_loop key sorted_list f l =
     (if f \<le> l then
        let middle = (f + l) div 2
        in if middle < 0 \<or> int (length sorted_list) \<le> middle then None
           else if sorted_list ! nat middle < key then bsearch_loop key sorted_list (middle + 1) l
           else if sorted_list ! nat middle = key then Some True
           else bsearch_loop key sorted_list f (middle - 1)
      else Some False)"
  by pat_completeness auto
termination
  by (relation "measure (\<lambda>(key, xs, f, l). nat (l - f + 1))") auto

declare bsearch_loop.simps [simp del]

definition bsearch :: "u16 \<Rightarrow> int list \<Rightarrow> int \<Rightarrow> bool option" where
  "bsearch key sorted_list list_len = bsearch_loop (uint key) sorted_list 0 (list_len - 1)"

definition analyzer_key :: "byte \<Rightarrow> byte \<Rightarrow> u16" where
  "analyzer_key cls cmd = push_bit 8 (ucast cls) OR ucast cmd"

definition CommandAnalyzerIsGet :: "byte \<Rightarrow> byte \<Rightarrow> bool option" where
  "CommandAnalyzerIsGet cls cmd = bsearch (analyzer_key cls cmd) get_list 237"

definition CommandAnalyzerIsSet :: "byte \<Rightarrow> byte \<Rightarrow> bool option" where
  "CommandAnalyzerIsSet cls cmd = bsearch (analyzer_key cls cmd) set_list 142"

definition CommandAnalyzerIsReport :: "byte \<Rightarrow> byte \<Rightarrow> bool option" where
  "CommandAnalyzerIsReport cls cmd = bsearch (analyzer_key cls cmd) rep_list 245"

definition CommandAnalyzerIsSupporting :: "byte \<Rightarrow> byte \<Rightarrow> bool option" where
  "CommandAnalyzerIsSupporting cls cmd = bsearch (analyzer_key cls cmd) supported_list 218"

section \<open>Properties of the CRC\<close>

lemma and_8000_iff_bit: "(c :: u16) AND 0x8000 \<noteq> 0 \<longleftrightarrow> bit c 15"
  using and_exp_eq_0_iff_not_bit [of c 15] by simp

lemma crc16_bit_linear:
  "zgw_crc16_bit (d XOR e) m (c XOR c') = zgw_crc16_bit d m c XOR zgw_crc16_bit e m c'"
  if "\<exists>i<8. m = 2 ^ i"
proof -
  from that obtain i where m: "m = 2 ^ i" "i < 8" by blast
  then have b: "x AND m \<noteq> 0 \<longleftrightarrow> bit x i" for x :: byte using and_exp_eq_0_iff_not_bit [of x i] by simp
  have x: "push_bit 1 (c XOR c') = push_bit 1 c XOR push_bit 1 c'" by (simp add: push_bit_xor)
  show ?thesis
    unfolding zgw_crc16_bit_def b and_8000_iff_bit x
    by (cases "bit d i"; cases "bit e i"; cases "bit c 15"; cases "bit c' 15")
      (simp_all add: Let_def bit_xor_iff xor.assoc xor.left_commute xor.commute)
qed

lemma crc16_masks:
  assumes "m \<in> set [0x80, 0x40, 0x20, 0x10, 0x08, 0x04, 0x02, 0x01 :: byte]"
  shows "\<exists>i<8. m = 2 ^ i"
proof -
  have "m \<in> (\<lambda>i. 2 ^ i) ` set [7, 6, 5, 4, 3, 2, 1, 0 :: nat]" using assms by simp
  moreover have "set [7, 6, 5, 4, 3, 2, 1, 0 :: nat] \<subseteq> {..<8}" by simp
  ultimately show ?thesis by blast
qed

lemma crc16_fold_linear:
  "set ms \<subseteq> set [0x80, 0x40, 0x20, 0x10, 0x08, 0x04, 0x02, 0x01] \<Longrightarrow>
     fold (zgw_crc16_bit (d XOR e)) ms (c XOR c') =
     fold (zgw_crc16_bit d) ms c XOR fold (zgw_crc16_bit e) ms c'"
proof (induction ms arbitrary: c c')
  case (Cons m ms)
  then have "\<exists>i<8. m = 2 ^ i" by (intro crc16_masks) auto
  from crc16_bit_linear [OF this] Cons show ?case by simp
qed simp

lemma crc16_byte_linear: "zgw_crc16_byte (d XOR e) (c XOR c') = zgw_crc16_byte d c XOR zgw_crc16_byte e c'"
  unfolding zgw_crc16_byte_def by (rule crc16_fold_linear) simp

lemma crc16_linear:
  "length xs = length ys \<Longrightarrow>
     zgw_crc16 (c XOR c') (xor_bytes xs ys) = zgw_crc16 c xs XOR zgw_crc16 c' ys"
proof (induction xs ys arbitrary: c c' rule: list_induct2)
  case Nil
  then show ?case by (simp add: zgw_crc16_def)
next
  case (Cons x xs y ys)
  then show ?case by (simp add: zgw_crc16_def crc16_byte_linear)
qed

lemma crc16_append: "zgw_crc16 c (xs @ ys) = zgw_crc16 (zgw_crc16 c xs) ys"
  by (simp add: zgw_crc16_def)

text \<open>A register that is fed its own upper byte only shifts.\<close>

lemma crc16_bit_shift:
  assumes "d AND m \<noteq> 0 \<longleftrightarrow> bit c 15"
  shows "zgw_crc16_bit d m c = push_bit 1 c"
  using assms by (simp add: zgw_crc16_bit_def and_8000_iff_bit)

lemma mask_bit: "i < 8 \<Longrightarrow> (d :: byte) AND 2 ^ i \<noteq> 0 \<longleftrightarrow> bit d i"
  using and_exp_eq_0_iff_not_bit [of d i] by simp

lemma bit_upper_byte: "i < 8 \<Longrightarrow> bit (ucast (drop_bit 8 (c :: u16)) :: byte) i \<longleftrightarrow> bit c (8 + i)"
  by (simp add: bit_simps)

lemma bit_push_15: "n \<le> 7 \<Longrightarrow> bit (push_bit n (c :: u16)) 15 \<longleftrightarrow> bit c (15 - n)"
  by (auto simp: bit_simps)

lemma crc16_bit_own:
  assumes "i < 8"
  shows "zgw_crc16_bit (ucast (drop_bit 8 c)) (2 ^ i) (push_bit (7 - i) c) = push_bit (8 - i) c"
proof -
  have "zgw_crc16_bit (ucast (drop_bit 8 c)) (2 ^ i) (push_bit (7 - i) c) = push_bit 1 (push_bit (7 - i) c)"
    using assms by (intro crc16_bit_shift) (simp add: mask_bit bit_upper_byte bit_push_15 add.commute)
  also have "\<dots> = push_bit (8 - i) c" using assms by (simp add: Suc_diff_le numeral_eq_Suc)
  finally show ?thesis .
qed

lemma crc16_byte_own: "zgw_crc16_byte (ucast (drop_bit 8 c)) c = push_bit 8 c"
  using crc16_bit_own [of 7 c] crc16_bit_own [of 6 c] crc16_bit_own [of 5 c] crc16_bit_own [of 4 c]
    crc16_bit_own [of 3 c] crc16_bit_own [of 2 c] crc16_bit_own [of 1 c] crc16_bit_own [of 0 c]
  by (simp add: zgw_crc16_byte_def)

lemma crc16_own: "zgw_crc16 c [ucast (drop_bit 8 c), ucast c] = 0"
proof -
  have "(ucast (drop_bit 8 (push_bit 8 c)) :: byte) = ucast c"
    by (rule bit_word_eqI) (auto simp: bit_simps)
  then have "zgw_crc16_byte (ucast c) (push_bit 8 c) = push_bit 8 (push_bit 8 c)"
    using crc16_byte_own [of "push_bit 8 c"] by simp
  also have "\<dots> = 0" by (rule bit_word_eqI) (auto simp: bit_simps)
  finally show ?thesis by (simp add: zgw_crc16_def crc16_byte_own)
qed

text \<open>With a zero input the register is never driven to zero.\<close>

lemma crc16_bit_zero_inj:
  assumes "zgw_crc16_bit 0 m c = 0"
  shows "c = 0"
proof (cases "bit c 15")
  case True
  with assms have "push_bit 1 c XOR CRC_POLY = 0" by (simp add: zgw_crc16_bit_def and_8000_iff_bit)
  moreover have "bit (push_bit 1 c XOR CRC_POLY) 0"
    unfolding bit_xor_iff bit_push_bit_iff by simp
  ultimately show ?thesis by simp
next
  case False
  with assms have p: "push_bit 1 c = 0" by (simp add: zgw_crc16_bit_def and_8000_iff_bit)
  show ?thesis
  proof (rule bit_word_eqI)
    fix n assume "n < LENGTH(16)"
    then show "bit c n = bit (0 :: u16) n"
      using False arg_cong [OF p, of "\<lambda>w. bit w (Suc n)"]
      by (cases "n = 15") (auto simp: bit_push_bit_iff simp del: push_bit_Suc push_bit_of_1)
  qed
qed

lemma crc16_fold_zero_inj: "fold (zgw_crc16_bit 0) ms c = 0 \<Longrightarrow> c = 0"
  by (induction ms arbitrary: c) (auto dest: crc16_bit_zero_inj)

lemma crc16_zeros_inj: "zgw_crc16 c (replicate n 0) = 0 \<Longrightarrow> c = 0"
proof (induction n arbitrary: c)
  case (Suc n)
  then have "zgw_crc16 (zgw_crc16_byte 0 c) (replicate n 0) = 0" by (simp add: zgw_crc16_def)
  then have "zgw_crc16_byte 0 c = 0" by (rule Suc.IH)
  then show ?case unfolding zgw_crc16_byte_def by (rule crc16_fold_zero_inj)
qed (simp add: zgw_crc16_def)

lemma crc16_zero_zeros: "zgw_crc16 0 (replicate n 0) = 0"
  using crc16_linear [of "replicate n 0" "replicate n 0" 0 0] by (simp add: xor_bytes_zero)

lemma crc16_two_bytes:
  assumes "zgw_crc16 0 [a, b] = 0"
  shows "a = 0 \<and> b = 0"
proof -
  define w :: u16 where "w = push_bit 8 (ucast a) OR ucast b"
  have a: "ucast (drop_bit 8 w) = a"
    by (rule bit_word_eqI) (auto simp: w_def bit_simps dest: bit_imp_le_length)
  have b: "ucast w = b"
    by (rule bit_word_eqI) (auto simp: w_def bit_simps)
  have "zgw_crc16 (0 XOR w) (xor_bytes [a, b] [0, 0]) = zgw_crc16 0 [a, b] XOR zgw_crc16 w [0, 0]"
    by (rule crc16_linear) simp
  then have "zgw_crc16 w (replicate 2 0) = 0"
    using crc16_own [of w] assms by (simp add: a b numeral_2_eq_2)
  then have "w = 0" by (rule crc16_zeros_inj)
  with a b show ?thesis by simp
qed

lemma crc16_burst_detected:
  assumes "length ps = length qs" and "zgw_crc16 c ps = zgw_crc16 c qs"
    and "xor_bytes ps qs = replicate m 0 @ [a, b] @ replicate n 0"
  shows "a = 0 \<and> b = 0"
proof -
  have "zgw_crc16 (c XOR c) (xor_bytes ps qs) = 0" using crc16_linear [OF assms(1), of c c] assms(2) by simp
  then have "zgw_crc16 (zgw_crc16 0 [a, b]) (replicate n 0) = 0"
    using assms(3) by (simp only: xor_self_eq crc16_append crc16_zero_zeros)
  then have "zgw_crc16 0 [a, b] = 0" by (rule crc16_zeros_inj)
  then show ?thesis by (rule crc16_two_bytes)
qed

lemma xor_bytes_self: "xor_bytes xs xs = replicate (length xs) (0 :: byte)"
  by (induction xs) simp_all

lemma xor_bytes_window:
  "xor_bytes (us @ [a, b] @ vs) (us @ [a', b'] @ vs) =
     replicate (length us) 0 @ [a XOR a', b XOR b'] @ replicate (length vs) 0"
  by (simp add: xor_bytes_append xor_bytes_self)

lemma xor_zero_iff: "(a :: byte) XOR b = 0 \<longleftrightarrow> a = b"
  by (metis xor_cancel_right xor_self_eq xor.left_neutral)

lemma crc16_encap_frame:
  assumes "length frame < META_DATA_MAX_DATA_SIZE"
    and "frame ! 0 \<notin> {COMMAND_CLASS_TRANSPORT_SERVICE, COMMAND_CLASS_SECURITY, COMMAND_CLASS_SECURITY_2, COMMAND_CLASS_CRC_16_ENCAP}"
  obtains h l where "crc16_encap frame = [0x56, 0x01] @ frame @ [h, l]"
    and "zgw_crc16 CRC_INIT_VALUE (crc16_encap frame) = 0"
proof -
  define crc where "crc = zgw_crc16 CRC_INIT_VALUE ([0x56, 0x01] @ frame)"
  have e: "crc16_encap frame = ([0x56, 0x01] @ frame) @ [ucast (drop_bit 8 crc), ucast crc]"
    using assms by (simp add: crc16_encap_def crc_def Let_def)
  have "zgw_crc16 CRC_INIT_VALUE (crc16_encap frame) = 0"
    unfolding e crc16_append [of _ "[0x56, 0x01] @ frame"] crc_def [symmetric] by (rule crc16_own)
  with e show thesis by (intro that) simp_all
qed

lemma crc16_window_detected:
  assumes "zgw_crc16 c (us @ [a, b] @ vs) = 0" and "(a', b') \<noteq> (a, b)"
  shows "zgw_crc16 c (us @ [a', b'] @ vs) \<noteq> 0"
  using crc16_burst_detected [OF _ _ xor_bytes_window, of us a b vs a' b' c] assms
  by (auto simp: xor_zero_iff)

text \<open>A frame of the class shorter than its header and checksum has a wrong checksum.\<close>

lemma crc16_short_frame:
  assumes "0 < n" "n < 4"
  shows "zgw_crc16 CRC_INIT_VALUE (take n [0x56, 0x01, x]) \<noteq> 0"
proof -
  define c where "c = zgw_crc16 CRC_INIT_VALUE [0x56, 0x01]"
  have "zgw_crc16 CRC_INIT_VALUE [0x56, 0x01, x] \<noteq> 0"
  proof
    assume "zgw_crc16 CRC_INIT_VALUE [0x56, 0x01, x] = 0"
    then have "zgw_crc16 c ([] @ [x, 0] @ []) = 0"
      using crc16_zero_zeros [of 1] by (simp add: c_def zgw_crc16_def)
    then have "(ucast (drop_bit 8 c), ucast c) = (x, 0 :: byte)"
      using crc16_window_detected [of c "[]" x 0 "[]" "ucast (drop_bit 8 c)" "ucast c"] crc16_own [of c] by auto
    moreover have "(ucast c :: byte) \<noteq> 0" unfolding c_def by code_simp
    ultimately show False by simp
  qed
  moreover have "zgw_crc16 CRC_INIT_VALUE [0x56] \<noteq> 0" "zgw_crc16 CRC_INIT_VALUE [0x56, 0x01] \<noteq> 0"
    by code_simp+
  moreover have "n = 1 \<or> n = 2 \<or> n = 3" using assms by linarith
  ultimately show ?thesis by auto
qed

section \<open>Correctness of the command analyzer\<close>

lemma sorted_nth_int:
  "sorted_wrt (<) xs \<Longrightarrow> 0 \<le> i \<Longrightarrow> i < j \<Longrightarrow> j < int (length xs) \<Longrightarrow> xs ! nat i < (xs ! nat j :: int)"
  by (rule sorted_wrt_nth_less) auto

text \<open>The loop decides whether the key occurs between its two bounds.\<close>

lemma bsearch_loop_correct:
  assumes "sorted_wrt (<) xs" and "0 \<le> f" and "l < int (length xs)"
  shows "bsearch_loop key xs f l = Some (\<exists>i. f \<le> i \<and> i \<le> l \<and> xs ! nat i = key)"
  using assms
proof (induction key xs f l rule: bsearch_loop.induct)
  case (1 key xs f l)
  show ?case
  proof (cases "f \<le> l")
    case False
    then show ?thesis by (subst bsearch_loop.simps) auto
  next
    case le: True
    define m where "m = (f + l) div 2"
    have m: "f \<le> m" "m \<le> l" "0 \<le> m" "m < int (length xs)" "\<not> (m < 0 \<or> int (length xs) \<le> m)"
      using le 1 by (auto simp: m_def)
    have below: "xs ! nat i < xs ! nat m" if "f \<le> i" "i < m" for i
      using that m 1 by (intro sorted_nth_int) auto
    have above: "xs ! nat m < xs ! nat i" if "i \<le> l" "m < i" for i
      using that m 1 by (intro sorted_nth_int) auto
    have step: "bsearch_loop key xs f l =
        (if xs ! nat m < key then bsearch_loop key xs (m + 1) l
         else if xs ! nat m = key then Some True else bsearch_loop key xs f (m - 1))"
      using le m by (subst bsearch_loop.simps) (simp add: m_def [symmetric])
    consider (less) "xs ! nat m < key" | (eq) "xs ! nat m = key" | (greater) "key < xs ! nat m" by linarith
    then show ?thesis
    proof cases
      case less
      have "bsearch_loop key xs (m + 1) l = Some (\<exists>i. m + 1 \<le> i \<and> i \<le> l \<and> xs ! nat i = key)"
        using 1(1) [OF le m_def m(5) less] 1(3-) m by auto
      moreover have "(\<exists>i. m + 1 \<le> i \<and> i \<le> l \<and> xs ! nat i = key) \<longleftrightarrow> (\<exists>i. f \<le> i \<and> i \<le> l \<and> xs ! nat i = key)"
        using less m below by (smt (verit, best))
      ultimately show ?thesis using less by (simp add: step)
    next
      case eq
      then show ?thesis using m by (auto simp: step)
    next
      case greater
      then have "\<not> xs ! nat m < key" "xs ! nat m \<noteq> key" by auto
      note IH = 1(2) [OF le m_def m(5) this]
      have "bsearch_loop key xs f (m - 1) = Some (\<exists>i. f \<le> i \<and> i \<le> m - 1 \<and> xs ! nat i = key)"
        using IH 1(3-) m by auto
      moreover have "(\<exists>i. f \<le> i \<and> i \<le> m - 1 \<and> xs ! nat i = key) \<longleftrightarrow> (\<exists>i. f \<le> i \<and> i \<le> l \<and> xs ! nat i = key)"
        using greater m above by (smt (verit, best))
      ultimately show ?thesis using greater by (simp add: step)
    qed
  qed
qed

lemma bsearch_decides_membership:
  assumes "sorted_wrt (<) xs" and "n = int (length xs)"
  shows "bsearch key xs n = Some (uint key \<in> set xs)"
proof -
  have "(\<exists>i. 0 \<le> i \<and> i \<le> n - 1 \<and> xs ! nat i = uint key) \<longleftrightarrow> uint key \<in> set xs"
  proof
    assume "uint key \<in> set xs"
    then obtain j where "j < length xs" "xs ! j = uint key" by (auto simp: in_set_conv_nth)
    then show "\<exists>i. 0 \<le> i \<and> i \<le> n - 1 \<and> xs ! nat i = uint key"
      using assms by (intro exI [of _ "int j"]) auto
  next
    assume "\<exists>i. 0 \<le> i \<and> i \<le> n - 1 \<and> xs ! nat i = uint key"
    then obtain i where i: "0 \<le> i" "i \<le> n - 1" "xs ! nat i = uint key" by blast
    then have "nat i < length xs" using assms by linarith
    with i show "uint key \<in> set xs" by (metis nth_mem)
  qed
  then show ?thesis using bsearch_loop_correct [OF assms(1), of 0 "n - 1"] assms by (simp add: bsearch_def)
qed

lemma strictly_sorted_iff: "sorted_wrt (<) (x # y # ys) \<longleftrightarrow> x < y \<and> sorted_wrt (<) (y # ys)" for x :: int
  by auto

lemmas strictly_sorted_simps = strictly_sorted_iff sorted_wrt1 sorted_wrt.simps(1)

lemma tables_sorted:
  "sorted_wrt (<) get_list" "sorted_wrt (<) set_list" "sorted_wrt (<) rep_list" "sorted_wrt (<) supported_list"
  unfolding get_list_def set_list_def rep_list_def supported_list_def strictly_sorted_simps by simp_all

lemma tables_length:
  "length get_list = 237" "length set_list = 142" "length rep_list = 245" "length supported_list = 218"
  by (simp_all add: get_list_def set_list_def rep_list_def supported_list_def)

lemma uint_analyzer_key: "uint (analyzer_key cls cmd) = uint cls * 256 + uint cmd"
proof -
  have "push_bit 8 (ucast cls :: u16) AND ucast cmd = 0"
    by (rule bit_word_eqI) (auto simp: bit_simps dest: bit_imp_le_length)
  then have "analyzer_key cls cmd = push_bit 8 (ucast cls) + ucast cmd"
    by (simp add: analyzer_key_def flip: disjunctive_add_eq_or)
  moreover have "uint cls < 256" "uint cmd < 256" using uint_lt2p [of cls] uint_lt2p [of cmd] by simp_all
  ultimately show ?thesis
    by (simp add: push_bit_eq_mult uint_word_ariths unsigned_ucast_eq take_bit_int_eq_self mult.commute)
qed

text \<open>
  C29. The command analyzer terminates without reading outside its tables and answers exactly
  whether the pair of command class and command is listed in the table of get commands, set
  commands, reports or supporting commands.
\<close>

theorem command_analyzer_exact:
  "CommandAnalyzerIsGet cls cmd = Some (uint cls * 256 + uint cmd \<in> set get_list) \<and>
   CommandAnalyzerIsSet cls cmd = Some (uint cls * 256 + uint cmd \<in> set set_list) \<and>
   CommandAnalyzerIsReport cls cmd = Some (uint cls * 256 + uint cmd \<in> set rep_list) \<and>
   CommandAnalyzerIsSupporting cls cmd = Some (uint cls * 256 + uint cmd \<in> set supported_list)"
  unfolding CommandAnalyzerIsGet_def CommandAnalyzerIsSet_def CommandAnalyzerIsReport_def
    CommandAnalyzerIsSupporting_def uint_analyzer_key [symmetric]
  by (intro conjI bsearch_decides_membership tables_sorted) (simp_all add: tables_length)

end
