(* ===== verification/Multicast_Groups.thy ===== *)
theory Multicast_Groups
  imports ZGW_Prelude
begin

text \<open>
  Node masks (\<open>src/src/utls/zgw_nodemask.c\<close>) and the manager of multicast groups
  (\<open>src/src/multicast_group_manager.c\<close>).

  A node mask is an array of bytes, bit \<open>n - 1\<close> for the classic node \<open>n\<close> and bit \<open>n\<close> for the long-range
  node \<open>n\<close>; it is shown to implement a finite set of nodes. The group manager keeps a table of masks
  and links its entries into a doubly linked circular list ordered by use; the list is kept in the
  entries themselves, as group numbers. It is shown to implement a sequence of group numbers with the
  most recently used group first. A failing \<open>assert\<close> is \<open>None\<close>. The number of groups is the length of
  the table.
\<close>

section \<open>Node masks\<close>

abbreviation ZW_CLASSIC_MAX_NODES :: nat where "ZW_CLASSIC_MAX_NODES \<equiv> 232"
abbreviation ZW_LR_MIN_NODE_ID :: nat where "ZW_LR_MIN_NODE_ID \<equiv> 256"
abbreviation ZW_LR_MAX_NODE_ID :: nat where "ZW_LR_MAX_NODE_ID \<equiv> 4000"

text \<open>\<open>sizeof(nodemask_t)\<close> is \<open>ZW_MAX_NODES / 8 + 1\<close>.\<close>

abbreviation NODEMASK_SIZE :: nat where "NODEMASK_SIZE \<equiv> 501"

definition is_classic_node :: "nat \<Rightarrow> bool" where
  "is_classic_node n \<longleftrightarrow> n > 0 \<and> n \<le> ZW_CLASSIC_MAX_NODES"

definition is_lr_node :: "nat \<Rightarrow> bool" where
  "is_lr_node n \<longleftrightarrow> n \<ge> ZW_LR_MIN_NODE_ID \<and> n \<le> ZW_LR_MAX_NODE_ID"

definition BIT8_TST :: "nat \<Rightarrow> buffer \<Rightarrow> bool" where
  "BIT8_TST n arr \<longleftrightarrow> drop_bit (n mod 8) (arr ! (n div 8)) AND 1 \<noteq> 0"

definition BIT8_SET :: "nat \<Rightarrow> buffer \<Rightarrow> buffer" where
  "BIT8_SET n arr = arr[n div 8 := arr ! (n div 8) OR push_bit (n mod 8) 1]"

definition BIT8_CLR :: "nat \<Rightarrow> buffer \<Rightarrow> buffer" where
  "BIT8_CLR n arr = arr[n div 8 := arr ! (n div 8) AND NOT (push_bit (n mod 8) 1)]"

definition nodemask_add_node :: "nat \<Rightarrow> buffer \<Rightarrow> nat \<times> buffer" where
  "nodemask_add_node n nm =
     (if \<not> is_classic_node n \<and> \<not> is_lr_node n then (0, nm)
      else if is_classic_node n then (1, BIT8_SET (n - 1) nm) else (1, BIT8_SET n nm))"

definition nodemask_test_node :: "nat \<Rightarrow> buffer \<Rightarrow> bool" where
  "nodemask_test_node n nm =
     (if \<not> is_classic_node n \<and> \<not> is_lr_node n then False
      else if is_classic_node n then BIT8_TST (n - 1) nm else BIT8_TST n nm)"

definition nodemask_remove_node :: "nat \<Rightarrow> buffer \<Rightarrow> nat \<times> buffer" where
  "nodemask_remove_node n nm =
     (if \<not> is_classic_node n \<and> \<not> is_lr_node n then (0, nm)
      else if is_classic_node n then (1, BIT8_CLR (n - 1) nm) else (1, BIT8_CLR n nm))"

definition nodemask_clear :: "buffer \<Rightarrow> buffer" where
  "nodemask_clear nm = replicate NODEMASK_SIZE 0"

section \<open>Multicast groups\<close>

record mcast_group =
  in_use :: bool
  mg_prev :: nat
  mg_next :: nat
  nlist :: buffer

record mcast =
  mcast_groups_list :: "mcast_group list"
  mcast_group_use_age_head :: nat

definition mcast_get_entry :: "mcast \<Rightarrow> nat \<Rightarrow> mcast_group" where
  "mcast_get_entry m gid = mcast_groups_list m ! (gid - 1)"

definition mcast_update_entry :: "nat \<Rightarrow> (mcast_group \<Rightarrow> mcast_group) \<Rightarrow> mcast \<Rightarrow> mcast" where
  "mcast_update_entry gid f m =
     m\<lparr>mcast_groups_list := (mcast_groups_list m)[gid - 1 := f (mcast_get_entry m gid)]\<rparr>"

definition mcast_group_use_age_get_oldest :: "mcast \<Rightarrow> nat" where
  "mcast_group_use_age_get_oldest m = mg_prev (mcast_get_entry m (mcast_group_use_age_head m))"

definition mcast_group_use_age_element_remove :: "nat \<Rightarrow> mcast \<Rightarrow> mcast" where
  "mcast_group_use_age_element_remove gid m =
     (let nxt = mg_next (mcast_get_entry m gid); prv = mg_prev (mcast_get_entry m gid);
          m1 = mcast_update_entry prv (\<lambda>e. e\<lparr>mg_next := nxt\<rparr>) m
      in mcast_update_entry nxt (\<lambda>e. e\<lparr>mg_prev := prv\<rparr>) m1)"

definition mcast_group_use_age_element_insert_head :: "nat \<Rightarrow> mcast \<Rightarrow> mcast" where
  "mcast_group_use_age_element_insert_head gid m =
     (let h = mcast_group_use_age_head m;
          tail = mg_prev (mcast_get_entry m h);
          m1 = mcast_update_entry gid (\<lambda>e. e\<lparr>mg_next := h\<rparr>) m;
          m2 = mcast_update_entry gid (\<lambda>e. e\<lparr>mg_prev := tail\<rparr>) m1;
          m3 = mcast_update_entry h (\<lambda>e. e\<lparr>mg_prev := gid\<rparr>) m2;
          m4 = mcast_update_entry tail (\<lambda>e. e\<lparr>mg_next := gid\<rparr>) m3
      in m4\<lparr>mcast_group_use_age_head := gid\<rparr>)"

definition mcast_group_use_age_element_insert_new :: "nat \<Rightarrow> mcast \<Rightarrow> mcast" where
  "mcast_group_use_age_element_insert_new gid m =
     (if mcast_group_use_age_head m = 0
      then (mcast_update_entry gid (\<lambda>e. e\<lparr>mg_next := gid\<rparr>)
             (mcast_update_entry gid (\<lambda>e. e\<lparr>mg_prev := gid\<rparr>) m))\<lparr>mcast_group_use_age_head := gid\<rparr>
      else mcast_group_use_age_element_insert_head gid m)"

definition mcast_group_use_age_update :: "nat \<Rightarrow> mcast \<Rightarrow> mcast option" where
  "mcast_group_use_age_update gid m =
     (if mcast_group_use_age_head m = 0 then None
      else if gid = mcast_group_use_age_head m then Some m
      else Some (mcast_group_use_age_element_insert_head gid (mcast_group_use_age_element_remove gid m)))"

definition mcast_group_get_nodemask_by_id :: "nat \<Rightarrow> mcast \<Rightarrow> buffer option" where
  "mcast_group_get_nodemask_by_id gid m =
     (if gid = 0 \<or> gid > length (mcast_groups_list m) then None
      else if in_use (mcast_get_entry m gid) then Some (nlist (mcast_get_entry m gid)) else None)"

text \<open>The loop \<open>while (tmp > 0) { tmp &= tmp - 1; dist++; }\<close>; \<open>dist\<close> is 16 bits wide.\<close>

function mcast_count_bits :: "byte \<Rightarrow> u16 \<Rightarrow> u16" where
  "mcast_count_bits tmp dist =
     (if tmp > 0 then mcast_count_bits (tmp AND (tmp - 1)) (dist + 1) else dist)"
  by pat_completeness auto
termination
proof (relation "measure (\<lambda>(tmp, dist). unat tmp)", simp, simp only: in_measure split)
  fix tmp :: byte
  assume "tmp > 0"
  moreover have "tmp AND (tmp - 1) \<le> tmp - 1" by (rule word_and_le1)
  ultimately show "unat (tmp AND (tmp - 1)) < unat tmp"
    by (metis measure_unat order_le_less_trans word_le_nat_alt word_neq_0_conv)
qed

declare mcast_count_bits.simps [simp del]

abbreviation MCAST_DIST_INF :: u16 where "MCAST_DIST_INF \<equiv> 0xFFFF"

definition mcast_byte_distance :: "byte \<Rightarrow> byte \<Rightarrow> u16" where
  "mcast_byte_distance old new =
     (if old = new then 0
      else if old AND NOT new \<noteq> 0 then MCAST_DIST_INF
      else mcast_count_bits (old XOR new) 0)"

fun mcast_distance_loop :: "u16 \<Rightarrow> buffer \<Rightarrow> buffer \<Rightarrow> u16" where
  "mcast_distance_loop dist (x # xs) (y # ys) =
     (let byte_dist = mcast_byte_distance x y
      in if byte_dist = MCAST_DIST_INF then MCAST_DIST_INF
         else mcast_distance_loop (dist + byte_dist) xs ys)"
| "mcast_distance_loop dist _ _ = dist"

definition mcast_nodemask_distance :: "buffer \<Rightarrow> buffer \<Rightarrow> u16" where
  "mcast_nodemask_distance old_group new_group = mcast_distance_loop 0 old_group new_group"

text \<open>
  The search loop of \<open>mcast_group_get_id_by_nodemask\<close>: its state is the candidate, the first unused
  group and the lowest distance, its argument the remaining entries with the index of the first.
\<close>

fun mcast_search :: "buffer \<Rightarrow> nat \<Rightarrow> mcast_group list \<Rightarrow> nat \<times> nat \<times> int \<Rightarrow> nat \<times> nat \<times> int" where
  "mcast_search nm ii [] acc = acc"
| "mcast_search nm ii (g # gs) (candidate, first_unused, lowest_dist) =
     mcast_search nm (ii + 1) gs
       (if in_use g then
          let tmp = uint (mcast_nodemask_distance (nlist g) nm)
          in if tmp < lowest_dist then (ii + 1, first_unused, tmp) else (candidate, first_unused, lowest_dist)
        else (candidate, (if first_unused = 0 then ii + 1 else first_unused), lowest_dist))"

definition mcast_group_get_id_by_nodemask :: "buffer \<Rightarrow> mcast \<Rightarrow> (nat \<times> mcast) option" where
  "mcast_group_get_id_by_nodemask nm m =
     (if nm = replicate NODEMASK_SIZE 0 then Some (0, m)
      else case mcast_search nm 0 (mcast_groups_list m) (0, 0, 0xFF) of
             (candidate, first_unused, lowest_dist) \<Rightarrow>
               if candidate \<noteq> 0 then
                 (case mcast_group_use_age_update candidate
                         (if lowest_dist \<noteq> 0
                          then mcast_update_entry candidate (\<lambda>e. e\<lparr>nlist := nm\<rparr>) m else m) of
                    None \<Rightarrow> None | Some m' \<Rightarrow> Some (candidate, m'))
               else if first_unused = 0 then
                 (let oldest = mcast_group_use_age_get_oldest m
                  in case mcast_group_use_age_update oldest m of
                       None \<Rightarrow> None
                     | Some m' \<Rightarrow> Some (oldest, mcast_update_entry oldest (\<lambda>e. e\<lparr>nlist := nm\<rparr>) m'))
               else
                 let m1 = mcast_update_entry first_unused (\<lambda>e. e\<lparr>in_use := True\<rparr>) m;
                     m2 = mcast_group_use_age_element_insert_new first_unused m1
                 in Some (first_unused, mcast_update_entry first_unused (\<lambda>e. e\<lparr>nlist := nm\<rparr>) m2))"

definition mcast_group_init :: "mcast \<Rightarrow> mcast" where
  "mcast_group_init m =
     \<lparr>mcast_groups_list =
        map (\<lambda>g. g\<lparr>in_use := False, mg_next := 0, mg_prev := 0, nlist := replicate (length (nlist g)) 0\<rparr>)
          (mcast_groups_list m),
      mcast_group_use_age_head = 0\<rparr>"

section \<open>Node masks are sets of nodes\<close>

definition valid_node :: "nat \<Rightarrow> bool" where
  "valid_node n \<longleftrightarrow> is_classic_node n \<or> is_lr_node n"

definition node_bit :: "nat \<Rightarrow> nat" where
  "node_bit n = (if is_classic_node n then n - 1 else n)"

lemmas nodemask_defs =
  nodemask_add_node_def nodemask_remove_node_def nodemask_test_node_def valid_node_def node_bit_def

lemma BIT8_TST_bit: "BIT8_TST n arr \<longleftrightarrow> bit (arr ! (n div 8)) (n mod 8)"
  by (simp add: BIT8_TST_def and_one_eq mod_2_eq_odd even_drop_bit_iff_not_bit)

lemma node_bit_inj: "valid_node i \<Longrightarrow> valid_node j \<Longrightarrow> node_bit i = node_bit j \<Longrightarrow> i = j"
  by (auto simp: valid_node_def node_bit_def is_classic_node_def is_lr_node_def split: if_splits)

lemma node_bit_bound: "valid_node n \<Longrightarrow> node_bit n div 8 < NODEMASK_SIZE"
  by (auto simp: valid_node_def node_bit_def is_classic_node_def is_lr_node_def)

lemma div_mod_8_neq: "(i :: nat) \<noteq> j \<Longrightarrow> i div 8 = j div 8 \<Longrightarrow> i mod 8 \<noteq> j mod 8"
  by (metis div_mult_mod_eq)

lemma BIT8_TST_SET: "i div 8 < length arr \<Longrightarrow> BIT8_TST j (BIT8_SET i arr) \<longleftrightarrow> i = j \<or> BIT8_TST j arr"
  using div_mod_8_neq [of i j]
  by (cases "i = j"; cases "i div 8 = j div 8") (auto simp: BIT8_TST_bit BIT8_SET_def bit_simps nth_list_update)

lemma BIT8_TST_CLR: "i div 8 < length arr \<Longrightarrow> BIT8_TST j (BIT8_CLR i arr) \<longleftrightarrow> i \<noteq> j \<and> BIT8_TST j arr"
  using div_mod_8_neq [of i j]
  by (cases "i = j"; cases "i div 8 = j div 8") (auto simp: BIT8_TST_bit BIT8_CLR_def bit_simps nth_list_update)

text \<open>The interface of a set of nodes drawn from a fixed universe.\<close>

locale node_set =
  fixes empty :: 'm
    and add :: "nat \<Rightarrow> 'm \<Rightarrow> 'm"
    and remove :: "nat \<Rightarrow> 'm \<Rightarrow> 'm"
    and test :: "nat \<Rightarrow> 'm \<Rightarrow> bool"
    and ok :: "'m \<Rightarrow> bool"
    and univ :: "nat set"
  assumes ok_empty: "ok empty"
    and ok_add: "ok m \<Longrightarrow> ok (add n m)"
    and ok_remove: "ok m \<Longrightarrow> ok (remove n m)"
    and test_empty: "\<not> test k empty"
    and test_add: "ok m \<Longrightarrow> test k (add n m) \<longleftrightarrow> (k = n \<and> n \<in> univ) \<or> test k m"
    and test_remove: "ok m \<Longrightarrow> test k (remove n m) \<longleftrightarrow> k \<noteq> n \<and> test k m"
begin

definition members :: "'m \<Rightarrow> nat set" where
  "members m = {k. test k m}"

lemma members_empty: "members empty = {}"
  by (simp add: members_def test_empty)

lemma members_add: "ok m \<Longrightarrow> members (add n m) = ({n} \<inter> univ) \<union> members m"
  by (auto simp: members_def test_add)

lemma members_remove: "ok m \<Longrightarrow> members (remove n m) = members m - {n}"
  by (auto simp: members_def test_remove)

lemma members_fold_add: "ok m \<Longrightarrow> members (fold add ns m) = (set ns \<inter> univ) \<union> members m"
  by (induction ns arbitrary: m) (auto simp: members_add ok_add)

end

lemma length_nodemask_ops [simp, buf_simps]:
  "length (snd (nodemask_add_node n m)) = length m"
  "length (snd (nodemask_remove_node n m)) = length m"
  "length (nodemask_clear m) = NODEMASK_SIZE"
  by (simp_all add: nodemask_defs BIT8_SET_def BIT8_CLR_def nodemask_clear_def)

lemma nodemask_test_bit: "nodemask_test_node n m \<longleftrightarrow> valid_node n \<and> BIT8_TST (node_bit n) m"
  by (auto simp: nodemask_defs)

lemma nodemask_add_bit: "nodemask_add_node n m = (if valid_node n then (1, BIT8_SET (node_bit n) m) else (0, m))"
  by (auto simp: nodemask_defs)

lemma nodemask_remove_bit:
  "nodemask_remove_node n m = (if valid_node n then (1, BIT8_CLR (node_bit n) m) else (0, m))"
  by (auto simp: nodemask_defs)

lemma BIT8_TST_zero: "node_bit k div 8 < NODEMASK_SIZE \<Longrightarrow> \<not> BIT8_TST (node_bit k) (replicate NODEMASK_SIZE 0)"
  by (simp add: BIT8_TST_bit)

interpretation nm: node_set "replicate NODEMASK_SIZE 0" "\<lambda>n m. snd (nodemask_add_node n m)"
  "\<lambda>n m. snd (nodemask_remove_node n m)" nodemask_test_node
  "\<lambda>m. length m = NODEMASK_SIZE" "{n. valid_node n}"
proof (unfold_locales, goal_cases)
  case (4 k)
  then show ?case by (auto simp: nodemask_test_bit node_bit_bound BIT8_TST_zero)
next
  case (5 m k n)
  then show ?case
    by (auto simp: nodemask_test_bit nodemask_add_bit BIT8_TST_SET node_bit_bound dest: node_bit_inj)
next
  case (6 m k n)
  then show ?case
    by (auto simp: nodemask_test_bit nodemask_remove_bit BIT8_TST_CLR node_bit_bound dest: node_bit_inj)
qed simp_all

text \<open>
  C11. A node mask is a set of valid node identifiers (1 to 232 and 256 to 4000): starting from a
  cleared mask, adding and removing nodes in any order leaves exactly the nodes that the same
  operations on sets leave; identifiers that are not valid are refused with result 0 and never
  change the mask, and no operation changes the size of the mask.
\<close>

theorem nodemask_implements_set:
  assumes "length m = NODEMASK_SIZE"
  shows "length (snd (nodemask_add_node n m)) = NODEMASK_SIZE \<and>
    length (snd (nodemask_remove_node n m)) = NODEMASK_SIZE \<and>
    {k. nodemask_test_node k (nodemask_clear m)} = {} \<and>
    {k. nodemask_test_node k (snd (nodemask_add_node n m))} = ({n} \<inter> {k. valid_node k}) \<union> {k. nodemask_test_node k m} \<and>
    {k. nodemask_test_node k (snd (nodemask_remove_node n m))} = {k. nodemask_test_node k m} - {n} \<and>
    (fst (nodemask_add_node n m) = 1 \<longleftrightarrow> valid_node n) \<and>
    (fst (nodemask_remove_node n m) = 1 \<longleftrightarrow> valid_node n) \<and>
    (\<not> valid_node n \<longrightarrow> nodemask_add_node n m = (0, m) \<and> nodemask_remove_node n m = (0, m))"
  using assms nm.members_empty nm.members_add [OF assms] nm.members_remove [OF assms]
  by (simp add: nm.members_def nodemask_clear_def nodemask_add_bit nodemask_remove_bit BIT8_SET_def BIT8_CLR_def)

theorem nodemask_implements_set_witness:
  "{k. nodemask_test_node k (snd (nodemask_add_node 256 (replicate NODEMASK_SIZE 0)))} = {256} \<and>
   {k. nodemask_test_node k (snd (nodemask_add_node 233 (replicate NODEMASK_SIZE 0)))} = {}"
proof -
  have "{k. nodemask_test_node k (replicate NODEMASK_SIZE 0)} = {}"
    using nodemask_implements_set [of "replicate NODEMASK_SIZE 0" 1]
    by (simp add: nodemask_clear_def)
  then show ?thesis
    using nodemask_implements_set [of "replicate NODEMASK_SIZE 0" 256]
      nodemask_implements_set [of "replicate NODEMASK_SIZE 0" 233]
    by (simp add: valid_node_def is_classic_node_def is_lr_node_def)
qed

section \<open>The distance of two masks\<close>

definition bit_count :: "nat \<Rightarrow> nat" where
  "bit_count n = card {i. bit n i}"

lemma finite_bits_nat: "finite {i. bit (n :: nat) i}"
proof (rule finite_subset)
  show "{i. bit n i} \<subseteq> {..<n}"
  proof clarify
    fix i
    assume "bit n i"
    then have "2 ^ i \<le> n" by (metis bit_iff_odd div_less dvd_0_right not_le)
    then show "i < n" by (metis less_exp order_less_le_trans)
  qed
qed simp

lemma bit_count_even: "bit_count (2 * n) = bit_count n"
proof -
  have "{i. bit (2 * n) i} = Suc ` {i. bit n i}"
    by (auto simp: bit_double_iff image_iff gr0_conv_Suc dest: gr0_implies_Suc)
  then show ?thesis by (simp add: bit_count_def card_image)
qed

lemma bit_count_odd: "bit_count (Suc (2 * n)) = Suc (bit_count n)"
proof -
  have "{i. bit (Suc (2 * n)) i} = insert 0 (Suc ` {i. bit n i})"
  proof (rule set_eqI)
    fix i
    show "i \<in> {i. bit (Suc (2 * n)) i} \<longleftrightarrow> i \<in> insert 0 (Suc ` {i. bit n i})"
      by (cases i) (auto simp: bit_Suc bit_0)
  qed
  then show ?thesis by (simp add: bit_count_def card_image finite_bits_nat)
qed

lemma bit_even_odd:
  "bit (2 * k) i \<longleftrightarrow> i \<noteq> 0 \<and> bit k (i - 1)"
  "bit (Suc (2 * k)) i \<longleftrightarrow> i = 0 \<or> bit k (i - 1)" for k :: nat
  by (cases i; simp add: bit_Suc bit_0)+

lemma clear_lowest_bit: "n > 0 \<Longrightarrow> Suc (bit_count (n AND (n - 1))) = bit_count (n :: nat)"
proof (induction n rule: less_induct)
  case (less n)
  show ?case
  proof (cases "even n")
    case True
    then obtain k where k: "n = 2 * k" by blast
    with less have "k > 0" by simp
    have "n AND (n - 1) = 2 * (k AND (k - 1))"
    proof (rule bit_eqI)
      fix i
      have "n - 1 = Suc (2 * (k - 1))" using k \<open>k > 0\<close> by simp
      then show "bit (n AND (n - 1)) i = bit (2 * (k AND (k - 1))) i"
        unfolding k bit_and_iff bit_even_odd by (auto simp: bit_even_odd)
    qed
    then show ?thesis using less.IH [of k] k \<open>k > 0\<close> by (simp add: bit_count_even)
  next
    case False
    then obtain k where k: "n = Suc (2 * k)" by (auto elim: oddE)
    have "n AND (n - 1) = 2 * k"
      by (rule bit_eqI) (auto simp: k bit_and_iff bit_even_odd)
    then show ?thesis by (simp add: k bit_count_even bit_count_odd)
  qed
qed

lemma mcast_count_bits_spec: "mcast_count_bits tmp dist = dist + of_nat (bit_count (unat tmp))"
proof (induction tmp dist rule: mcast_count_bits.induct)
  case (1 tmp dist)
  show ?case
  proof (cases "tmp > 0")
    case False
    then have "tmp = 0" using word_gt_0 by blast
    then show ?thesis by (simp add: mcast_count_bits.simps bit_count_def)
  next
    case True
    then have "unat tmp > 0" by (simp add: unat_gt_0 word_neq_0_conv)
    moreover have "unat (tmp AND (tmp - 1)) = unat tmp AND (unat tmp - 1)"
      using True by (simp add: unsigned_and_eq unat_minus_one word_neq_0_conv)
    ultimately have "bit_count (unat tmp) = Suc (bit_count (unat (tmp AND (tmp - 1))))"
      using clear_lowest_bit [of "unat tmp"] by simp
    then show ?thesis using True 1 by (subst mcast_count_bits.simps) simp
  qed
qed

definition byte_added :: "byte \<Rightarrow> byte \<Rightarrow> nat" where
  "byte_added x y = card {i. bit y i \<and> \<not> bit x i}"

lemma byte_added_le: "byte_added x y \<le> 8"
proof -
  have "{i. bit y i \<and> \<not> bit x i} \<subseteq> {..<8}" using bit_imp_le_length [of y] by auto
  then show ?thesis using card_mono [of "{..<8}"] by (fastforce simp: byte_added_def)
qed

lemma byte_subset_iff: "x AND NOT y = 0 \<longleftrightarrow> (\<forall>i. bit x i \<longrightarrow> bit (y :: byte) i)"
proof
  assume z: "x AND NOT y = 0"
  show "\<forall>i. bit x i \<longrightarrow> bit y i"
  proof (intro allI impI)
    fix i
    assume x: "bit x i"
    then have "i < 8" using bit_imp_le_length [of x i] by simp
    with x arg_cong [OF z, of "\<lambda>w. bit w i"] show "bit y i" by (auto simp: bit_simps)
  qed
qed (rule bit_word_eqI, auto simp: bit_simps)

lemma mcast_byte_distance_spec:
  "mcast_byte_distance x y =
     (if \<forall>i. bit x i \<longrightarrow> bit y i then of_nat (byte_added x y) else MCAST_DIST_INF)"
proof (cases "\<forall>i. bit x i \<longrightarrow> bit y i")
  case True
  then have "{i. bit (x XOR y) i} = {i. bit y i \<and> \<not> bit x i}" by (auto simp: bit_xor_iff)
  moreover have "bit (unat (x XOR y)) = bit (x XOR y)" by (rule ext) (auto simp: bit_unsigned_iff dest: bit_imp_le_length)
  ultimately have "bit_count (unat (x XOR y)) = byte_added x y" by (simp add: bit_count_def byte_added_def)
  with True byte_subset_iff [of x y] show ?thesis
    by (auto simp: mcast_byte_distance_def mcast_count_bits_spec byte_added_def)
next
  case False
  with byte_subset_iff [of x y] show ?thesis by (auto simp: mcast_byte_distance_def)
qed

definition mask_subset :: "buffer \<Rightarrow> buffer \<Rightarrow> bool" where
  "mask_subset xs ys = list_all2 (\<lambda>x y. \<forall>i. bit x i \<longrightarrow> bit y i) xs ys"

definition mask_added :: "buffer \<Rightarrow> buffer \<Rightarrow> nat" where
  "mask_added xs ys = sum_list (map2 byte_added xs ys)"

lemma mask_added_le: "mask_added xs ys \<le> 8 * length xs"
  unfolding mask_added_def
proof (induction xs ys rule: list_induct2')
  case (4 x xs y ys)
  then show ?case using byte_added_le [of x y] by simp
qed simp_all

lemma byte_distance_finite: "of_nat (byte_added x y) \<noteq> MCAST_DIST_INF"
proof
  assume "of_nat (byte_added x y) = MCAST_DIST_INF"
  then have "unat (of_nat (byte_added x y) :: u16) = unat MCAST_DIST_INF" by simp
  moreover have "unat (of_nat (byte_added x y) :: u16) = byte_added x y"
    using byte_added_le [of x y] by (simp add: unat_of_nat)
  ultimately show False using byte_added_le [of x y] by simp
qed

lemma mcast_distance_loop_spec:
  "length xs = length ys \<Longrightarrow>
     mcast_distance_loop d xs ys =
       (if mask_subset xs ys then d + of_nat (mask_added xs ys) else MCAST_DIST_INF)"
proof (induction xs ys arbitrary: d rule: list_induct2)
  case (Cons x xs y ys)
  then show ?case
    using byte_distance_finite [of x y]
    by (auto simp: mcast_byte_distance_spec mask_subset_def mask_added_def)
qed (simp add: mask_subset_def mask_added_def)

lemma uint_distance:
  assumes "length xs = length ys" and "length xs \<le> 8000"
  shows "uint (mcast_nodemask_distance xs ys) =
    (if mask_subset xs ys then int (mask_added xs ys) else 65535)"
proof (cases "mask_subset xs ys")
  case True
  have "unat (of_nat (mask_added xs ys) :: u16) = mask_added xs ys"
    using mask_added_le [of xs ys] assms by (simp add: unat_of_nat)
  then have "uint (of_nat (mask_added xs ys) :: u16) = int (mask_added xs ys)" by (metis uint_nat)
  then show ?thesis using True assms by (simp add: mcast_nodemask_distance_def mcast_distance_loop_spec)
next
  case False
  then show ?thesis using assms by (simp add: mcast_nodemask_distance_def mcast_distance_loop_spec)
qed

section \<open>The list of use ages\<close>

text \<open>
  \<open>chain nx pv xs\<close>: the two link functions connect each element of \<open>xs\<close> with its successor. A ring
  is a chain that returns to its first element.
\<close>

fun chain :: "('a \<Rightarrow> 'a) \<Rightarrow> ('a \<Rightarrow> 'a) \<Rightarrow> 'a list \<Rightarrow> bool" where
  "chain nx pv (x # y # zs) \<longleftrightarrow> nx x = y \<and> pv y = x \<and> chain nx pv (y # zs)"
| "chain nx pv _ \<longleftrightarrow> True"

lemma chain_append: "chain nx pv (xs @ y # zs) \<longleftrightarrow> chain nx pv (xs @ [y]) \<and> chain nx pv (y # zs)"
proof (induction xs)
  case (Cons x xs)
  then show ?case by (cases xs) auto
qed simp

lemma chain_cong:
  "chain nx pv xs \<Longrightarrow> (\<And>x. x \<in> set (butlast xs) \<Longrightarrow> nx' x = nx x) \<Longrightarrow>
     (\<And>x. x \<in> set (tl xs) \<Longrightarrow> pv' x = pv x) \<Longrightarrow> chain nx' pv' xs"
  by (induction nx pv xs rule: chain.induct) auto

definition ring :: "('a \<Rightarrow> 'a) \<Rightarrow> ('a \<Rightarrow> 'a) \<Rightarrow> 'a list \<Rightarrow> bool" where
  "ring nx pv xs \<longleftrightarrow> xs \<noteq> [] \<and> distinct xs \<and> chain nx pv (xs @ [hd xs])"

lemma ring_last: "ring nx pv xs \<Longrightarrow> pv (hd xs) = last xs"
proof -
  assume r: "ring nx pv xs"
  then obtain ys y where xs: "xs = ys @ [y]" by (metis ring_def rev_exhaust)
  with r show ?thesis using chain_append [of nx pv ys y "[hd xs]"] by (simp add: ring_def)
qed

lemma ring_remove:
  assumes r: "ring nx pv (h # us @ x # vs)"
  shows "ring (nx(pv x := nx x)) (pv(nx x := pv x)) (h # us @ vs)" and "pv x \<in> set (h # us)" and "nx x \<in> set (vs @ [h])"
proof -
  obtain P a where P: "h # us = P @ [a]" by (metis append_butlast_last_id list.distinct(1))
  obtain b Q where Q: "vs @ [h] = b # Q" by (cases "vs @ [h]") auto
  have "h # us @ x # vs @ [h] = P @ a # x # b # Q"
    using arg_cong2 [OF P Q, of "\<lambda>l r. l @ x # r"] by simp
  then have c: "chain nx pv (P @ a # x # b # Q)" and d: "distinct (h # us @ x # vs)"
    using r by (auto simp: ring_def)
  then have ax: "pv x = a" "nx x = b" and cs: "chain nx pv (P @ [a])" "chain nx pv (b # Q)"
    using chain_append [of nx pv P a "x # b # Q"] by auto
  then show "pv x \<in> set (h # us)" "nx x \<in> set (vs @ [h])" by (simp_all add: P Q)
  have dP: "distinct (P @ [a])" using d by (simp flip: P)
  have disj: "set (P @ [a]) \<inter> set vs = {}" using d by (auto simp flip: P)
  have "a \<notin> set (butlast (b # Q))" using disj by (simp flip: Q)
  moreover have "b \<notin> set Q"
  proof (cases vs)
    case Nil
    with Q show ?thesis by simp
  next
    case (Cons v vs')
    with Q d show ?thesis by auto
  qed
  ultimately have 1: "chain (nx(a := b)) (pv(b := a)) (b # Q)"
    by (intro chain_cong [OF cs(2)]) auto
  have "b \<notin> set (tl (P @ [a]))"
  proof (cases vs)
    case Nil
    with Q have "b = h" by simp
    with d P show ?thesis by (metis distinct.simps(2) distinct_append list.sel(3) append_Cons dP)
  next
    case (Cons v vs')
    with Q have "b \<in> set vs" by simp
    with disj show ?thesis by (cases P) auto
  qed
  then have 2: "chain (nx(a := b)) (pv(b := a)) (P @ [a])"
    using dP by (intro chain_cong [OF cs(1)]) auto
  have "chain (nx(a := b)) (pv(b := a)) (P @ a # b # Q)"
    using 1 2 chain_append [of _ _ P a "b # Q"] by simp
  moreover have "(h # us @ vs) @ [h] = P @ a # b # Q"
    using arg_cong2 [OF P Q, of "(@)"] by simp
  ultimately show "ring (nx(pv x := nx x)) (pv(nx x := pv x)) (h # us @ vs)"
    using d by (simp add: ring_def ax)
qed

lemma ring_insert:
  assumes r: "ring nx pv xs" and x: "x \<notin> set xs"
  shows "ring (nx(x := hd xs, last xs := x)) (pv(x := last xs, hd xs := x)) (x # xs)"
proof -
  obtain ys y where ys: "xs = ys @ [y]" using r by (metis ring_def rev_exhaust)
  have d: "distinct xs" "xs \<noteq> []" and c: "chain nx pv xs"
    using r chain_append [of nx pv ys y "[hd xs]"] by (auto simp: ring_def ys)
  let ?nx = "nx(x := hd xs, last xs := x)" and ?pv = "pv(x := last xs, hd xs := x)"
  have "hd xs \<notin> set (tl xs)" "last xs \<notin> set (butlast xs)"
    using d by (simp_all add: ys) (metis distinct.simps(2) hd_Cons_tl list.distinct(1) ys d)+
  then have "chain ?nx ?pv xs" using x d
    by (intro chain_cong [OF c]) (auto dest: in_set_butlastD list.set_sel(2) [rotated])
  moreover have ends: "x \<noteq> hd xs" "x \<noteq> last xs" using x d by auto
  then have "chain ?nx ?pv (y # [x])" using ys by auto
  ultimately have "chain ?nx ?pv (xs @ [x])"
    using chain_append [of ?nx ?pv ys y "[x]"] ys by (metis append.assoc append_Cons append_Nil)
  then have "chain ?nx ?pv (x # xs @ [x])" using x d by (cases xs) auto
  then show ?thesis using d x by (simp add: ring_def)
qed

lemma ring_cong:
  assumes "ring nx pv xs" and "\<And>x. x \<in> set xs \<Longrightarrow> nx' x = nx x \<and> pv' x = pv x"
  shows "ring nx' pv' xs"
  using assms unfolding ring_def by (auto intro!: chain_cong [of nx pv] simp: butlast_append tl_append split: list.splits)

text \<open>
  The relation between the group table and the abstract state, the groups in use ordered by their
  last use.
\<close>

definition mcast_next :: "mcast \<Rightarrow> nat \<Rightarrow> nat" where
  "mcast_next m i = mg_next (mcast_get_entry m i)"

definition mcast_prev :: "mcast \<Rightarrow> nat \<Rightarrow> nat" where
  "mcast_prev m i = mg_prev (mcast_get_entry m i)"

definition mcast_ids :: "mcast \<Rightarrow> nat set" where
  "mcast_ids m = {1..length (mcast_groups_list m)}"

definition mcast_rel :: "mcast \<Rightarrow> nat list \<Rightarrow> bool" where
  "mcast_rel m xs \<longleftrightarrow>
     set xs = {i \<in> mcast_ids m. in_use (mcast_get_entry m i)} \<and>
     (\<forall>i\<in>mcast_ids m. length (nlist (mcast_get_entry m i)) = NODEMASK_SIZE) \<and>
     (if xs = [] then mcast_group_use_age_head m = 0
      else mcast_group_use_age_head m = hd xs \<and> ring (mcast_next m) (mcast_prev m) xs)"

lemma mcast_ids_update [simp]: "mcast_ids (mcast_update_entry i f m) = mcast_ids m"
  by (simp add: mcast_ids_def mcast_update_entry_def)

lemma mcast_entry_update [simp]:
  "i \<in> mcast_ids m \<Longrightarrow> j \<in> mcast_ids m \<Longrightarrow>
     mcast_get_entry (mcast_update_entry i f m) j = (if i = j then f (mcast_get_entry m j) else mcast_get_entry m j)"
  by (auto simp: mcast_ids_def mcast_get_entry_def mcast_update_entry_def nth_list_update)

lemma mcast_head_update [simp]:
  "mcast_group_use_age_head (mcast_update_entry i f m) = mcast_group_use_age_head m"
  by (simp add: mcast_update_entry_def)

lemma mcast_set_head [simp]:
  "mcast_ids (m\<lparr>mcast_group_use_age_head := h\<rparr>) = mcast_ids m"
  "mcast_get_entry (m\<lparr>mcast_group_use_age_head := h\<rparr>) i = mcast_get_entry m i"
  by (simp_all add: mcast_ids_def mcast_get_entry_def)

lemma mcast_rel_in_ids: "mcast_rel m xs \<Longrightarrow> i \<in> set xs \<Longrightarrow> i \<in> mcast_ids m"
  by (auto simp: mcast_rel_def)

text \<open>The parts of the table that the list operations leave alone.\<close>

definition mcast_same :: "mcast \<Rightarrow> mcast \<Rightarrow> bool" where
  "mcast_same m m' \<longleftrightarrow> mcast_ids m' = mcast_ids m \<and>
     (\<forall>i\<in>mcast_ids m. in_use (mcast_get_entry m' i) = in_use (mcast_get_entry m i) \<and>
        nlist (mcast_get_entry m' i) = nlist (mcast_get_entry m i))"

lemma mcast_insert_head:
  assumes "ring (mcast_next m) (mcast_prev m) xs" and "mcast_group_use_age_head m = hd xs"
    and "set xs \<subseteq> mcast_ids m" and "gid \<in> mcast_ids m" and "gid \<notin> set xs"
  defines "m' \<equiv> mcast_group_use_age_element_insert_head gid m"
  shows "ring (mcast_next m') (mcast_prev m') (gid # xs)" and "mcast_group_use_age_head m' = gid" and "mcast_same m m'"
proof -
  have ne: "xs \<noteq> []" using assms(1) by (simp add: ring_def)
  then have ids: "hd xs \<in> mcast_ids m" "last xs \<in> mcast_ids m" using assms(3) by auto
  have t: "mg_prev (mcast_get_entry m (hd xs)) = last xs" using ring_last [OF assms(1)] by (simp add: mcast_prev_def)
  have g: "gid \<noteq> hd xs" "gid \<noteq> last xs" using assms(5) ne by auto
  show "mcast_group_use_age_head m' = gid"
    by (simp add: m'_def mcast_group_use_age_element_insert_head_def Let_def)
  show "mcast_same m m'"
    using ids assms(4) t by (auto simp: m'_def mcast_group_use_age_element_insert_head_def Let_def mcast_same_def assms(2))
  show "ring (mcast_next m') (mcast_prev m') (gid # xs)"
  proof (rule ring_cong [OF ring_insert [OF assms(1, 5)]])
    fix i
    assume "i \<in> set (gid # xs)"
    then have i: "i \<in> mcast_ids m" using assms(3, 4) by auto
    show "mcast_next m' i = ((mcast_next m)(gid := hd xs, last xs := gid)) i \<and>
        mcast_prev m' i = ((mcast_prev m)(gid := last xs, hd xs := gid)) i"
      using i ids g assms(4) t
      by (auto simp: m'_def mcast_group_use_age_element_insert_head_def Let_def mcast_next_def mcast_prev_def assms(2))
  qed
qed

lemma mcast_remove:
  assumes "ring (mcast_next m) (mcast_prev m) (h # us @ gid # vs)" and "set (h # us @ gid # vs) \<subseteq> mcast_ids m"
  defines "m' \<equiv> mcast_group_use_age_element_remove gid m"
  shows "ring (mcast_next m') (mcast_prev m') (h # us @ vs)" and "mcast_same m m'"
    and "mcast_group_use_age_head m' = mcast_group_use_age_head m"
proof -
  note r = ring_remove [OF assms(1)]
  have ids: "mcast_prev m gid \<in> mcast_ids m" "mcast_next m gid \<in> mcast_ids m" using r(2, 3) assms(2) by auto
  show "mcast_group_use_age_head m' = mcast_group_use_age_head m"
    by (simp add: m'_def mcast_group_use_age_element_remove_def Let_def)
  show "mcast_same m m'"
    using ids by (auto simp: m'_def mcast_group_use_age_element_remove_def Let_def mcast_same_def
      mcast_next_def mcast_prev_def)
  show "ring (mcast_next m') (mcast_prev m') (h # us @ vs)"
  proof (rule ring_cong [OF r(1)])
    fix i
    assume "i \<in> set (h # us @ vs)"
    then have "i \<in> mcast_ids m" using assms(2) by auto
    then show "mcast_next m' i = ((mcast_next m)(mcast_prev m gid := mcast_next m gid)) i \<and>
        mcast_prev m' i = ((mcast_prev m)(mcast_next m gid := mcast_prev m gid)) i"
      using ids by (auto simp: m'_def mcast_group_use_age_element_remove_def Let_def mcast_next_def mcast_prev_def)
  qed
qed

lemma mcast_rel_distinct: "mcast_rel m xs \<Longrightarrow> distinct xs"
  by (auto simp: mcast_rel_def ring_def split: if_splits)

lemma mcast_rel_same:
  assumes "mcast_rel m xs" and "mcast_same m m'" and "set ys = set xs" and "ys \<noteq> []"
    and "mcast_group_use_age_head m' = hd ys" and "ring (mcast_next m') (mcast_prev m') ys"
  shows "mcast_rel m' ys"
  using assms by (auto simp: mcast_rel_def mcast_same_def)

lemma mcast_same_trans: "mcast_same m m1 \<Longrightarrow> mcast_same m1 m2 \<Longrightarrow> mcast_same m m2"
  by (auto simp: mcast_same_def)

text \<open>Marking a group as used moves it to the front.\<close>

lemma mcast_age_update:
  assumes rel: "mcast_rel m xs" and gid: "gid \<in> set xs"
  obtains m' where "mcast_group_use_age_update gid m = Some m'" "mcast_rel m' (gid # remove1 gid xs)" "mcast_same m m'"
proof (cases "gid = hd xs")
  case True
  then obtain ys where "xs = gid # ys" using gid by (cases xs) auto
  moreover have "gid \<noteq> 0" using mcast_rel_in_ids [OF rel gid] by (simp add: mcast_ids_def)
  ultimately show ?thesis using rel
    by (intro that [of m]) (auto simp: mcast_group_use_age_update_def mcast_rel_def mcast_same_def)
next
  case False
  then obtain h us vs where xs: "xs = h # us @ gid # vs" using gid
    by (cases xs) (auto dest: split_list)
  have d: "distinct xs" using mcast_rel_distinct [OF rel] .
  have ids: "set xs \<subseteq> mcast_ids m" using rel by (auto simp: mcast_rel_def)
  have r: "ring (mcast_next m) (mcast_prev m) xs" and h: "mcast_group_use_age_head m = h"
    using rel by (auto simp: mcast_rel_def xs)
  define m1 where "m1 = mcast_group_use_age_element_remove gid m"
  note rm = mcast_remove [OF r [unfolded xs] ids [unfolded xs], folded m1_def]
  have ids1: "set (h # us @ vs) \<subseteq> mcast_ids m1" "gid \<in> mcast_ids m1" "gid \<notin> set (h # us @ vs)"
    using rm(2) ids d by (auto simp: mcast_same_def xs)
  define m2 where "m2 = mcast_group_use_age_element_insert_head gid m1"
  note ins = mcast_insert_head [OF rm(1) _ ids1, folded m2_def]
  have s: "mcast_same m m2" using mcast_same_trans [OF rm(2)] ins rm(3) h by simp
  have rem: "remove1 gid xs = h # us @ vs" using d by (auto simp: xs remove1_append)
  have set_eq: "set (gid # h # us @ vs) = set xs" by (auto simp: xs)
  have "mcast_rel m2 (gid # remove1 gid xs)"
    unfolding rem using ins rm(3) h by (intro mcast_rel_same [OF rel s set_eq]) simp_all
  moreover have "h \<noteq> 0" using ids by (auto simp: xs mcast_ids_def)
  ultimately show ?thesis using False s h
    by (intro that [of m2]) (auto simp: mcast_group_use_age_update_def m1_def m2_def xs)
qed

lemma mcast_oldest: "mcast_rel m xs \<Longrightarrow> xs \<noteq> [] \<Longrightarrow> mcast_group_use_age_get_oldest m = last xs"
  using ring_last [of "mcast_next m" "mcast_prev m" xs]
  by (auto simp: mcast_rel_def mcast_group_use_age_get_oldest_def mcast_prev_def)

text \<open>A group that comes into use is put in front.\<close>

lemma mcast_insert_new:
  assumes rel: "mcast_rel m xs" and gid: "gid \<in> mcast_ids m" "gid \<notin> set xs"
  defines "m1 \<equiv> mcast_update_entry gid (\<lambda>e. e\<lparr>in_use := True\<rparr>) m"
  defines "m2 \<equiv> mcast_group_use_age_element_insert_new gid m1"
  shows "mcast_rel m2 (gid # xs)" and "mcast_same m1 m2"
proof -
  have e1: "mcast_next m1 i = mcast_next m i" "mcast_prev m1 i = mcast_prev m i"
    "nlist (mcast_get_entry m1 i) = nlist (mcast_get_entry m i)"
    "in_use (mcast_get_entry m1 i) \<longleftrightarrow> i = gid \<or> in_use (mcast_get_entry m i)" if "i \<in> mcast_ids m" for i
    using that gid by (auto simp: m1_def mcast_next_def mcast_prev_def)
  have ids: "set xs \<subseteq> mcast_ids m" "mcast_ids m1 = mcast_ids m" using rel by (auto simp: mcast_rel_def m1_def)
  have "mcast_same m1 m2 \<and> mcast_group_use_age_head m2 = gid \<and> ring (mcast_next m2) (mcast_prev m2) (gid # xs)"
  proof (cases "xs = []")
    case True
    then have "mcast_group_use_age_head m1 = 0" using rel by (simp add: mcast_rel_def m1_def)
    then show ?thesis using True gid
      by (auto simp: m2_def mcast_group_use_age_element_insert_new_def mcast_same_def ring_def m1_def
        mcast_next_def mcast_prev_def)
  next
    case False
    then have h: "mcast_group_use_age_head m1 = hd xs" and r: "ring (mcast_next m) (mcast_prev m) xs"
      using rel by (auto simp: mcast_rel_def m1_def)
    have "hd xs \<noteq> 0" using ids False by (metis hd_in_set mcast_ids_def atLeastAtMost_iff not_one_le_zero subset_code(1))
    then have m2: "m2 = mcast_group_use_age_element_insert_head gid m1"
      using h by (simp add: m2_def mcast_group_use_age_element_insert_new_def)
    have "ring (mcast_next m1) (mcast_prev m1) xs" using e1 ids by (intro ring_cong [OF r]) auto
    from mcast_insert_head [OF this h, of gid] show ?thesis using ids gid by (simp add: m2)
  qed
  then show "mcast_same m1 m2" "mcast_rel m2 (gid # xs)"
    using rel gid ids e1 by (auto simp: mcast_rel_def mcast_same_def)
qed

lemma mcast_set_mask:
  assumes "mcast_rel m xs" and "gid \<in> mcast_ids m" and "length nm = NODEMASK_SIZE"
  shows "mcast_rel (mcast_update_entry gid (\<lambda>e. e\<lparr>nlist := nm\<rparr>) m) xs"
proof -
  let ?m = "mcast_update_entry gid (\<lambda>e. e\<lparr>nlist := nm\<rparr>) m"
  have e: "in_use (mcast_get_entry ?m i) = in_use (mcast_get_entry m i)" "mcast_next ?m i = mcast_next m i"
    "mcast_prev ?m i = mcast_prev m i"
    "nlist (mcast_get_entry ?m i) = (if i = gid then nm else nlist (mcast_get_entry m i))" if "i \<in> mcast_ids m" for i
    using that assms(2) by (auto simp: mcast_next_def mcast_prev_def)
  have "set xs \<subseteq> mcast_ids m" using assms(1) by (auto simp: mcast_rel_def)
  then have "ring (mcast_next m) (mcast_prev m) xs \<Longrightarrow> ring (mcast_next ?m) (mcast_prev ?m) xs"
    using e by (auto intro!: ring_cong [of "mcast_next m" "mcast_prev m"])
  then show ?thesis using assms e by (auto simp: mcast_rel_def)
qed

section \<open>Group lookup\<close>

text \<open>\<open>near\<close>: the group can be extended to the mask by adding fewer than 255 nodes.\<close>

definition near :: "buffer \<Rightarrow> mcast_group \<Rightarrow> bool" where
  "near nm g \<longleftrightarrow> in_use g \<and> mask_subset (nlist g) nm \<and> mask_added (nlist g) nm < 255"

definition search_ok :: "buffer \<Rightarrow> mcast_group list \<Rightarrow> nat \<times> nat \<times> int \<Rightarrow> bool" where
  "search_ok nm gs = (\<lambda>(c, f, l).
     (if c = 0 then l = 255 \<and> (\<forall>g\<in>set gs. \<not> near nm g)
      else c \<le> length gs \<and> near nm (gs ! (c - 1)) \<and> l = int (mask_added (nlist (gs ! (c - 1))) nm) \<and>
           (\<forall>g\<in>set gs. near nm g \<longrightarrow> l \<le> int (mask_added (nlist g) nm))) \<and>
     (if f = 0 then \<forall>g\<in>set gs. in_use g else f \<le> length gs \<and> \<not> in_use (gs ! (f - 1))))"

lemma mcast_search_ok:
  assumes "\<forall>g\<in>set gs. length (nlist g) = length nm" and "length nm = NODEMASK_SIZE" and "search_ok nm ps acc"
  shows "search_ok nm (ps @ gs) (mcast_search nm (length ps) gs acc)"
  using assms
proof (induction gs arbitrary: ps acc)
  case (Cons g gs)
  obtain c f l where acc: "acc = (c, f, l)" by (cases acc)
  have d: "uint (mcast_nodemask_distance (nlist g) nm) =
      (if mask_subset (nlist g) nm then int (mask_added (nlist g) nm) else 65535)"
    using Cons.prems by (intro uint_distance) auto
  define acc' where "acc' = (if in_use g then
          let tmp = uint (mcast_nodemask_distance (nlist g) nm)
          in if tmp < l then (length ps + 1, f, tmp) else (c, f, l)
        else (c, (if f = 0 then length ps + 1 else f), l))"
  have l: "l \<le> 255" using Cons.prems(3) by (auto simp: search_ok_def acc near_def split: if_splits)
  have "search_ok nm (ps @ [g]) acc'"
    using Cons.prems(3) l unfolding acc'_def d Let_def search_ok_def acc near_def
    by (auto simp: nth_append split: if_splits)
  from Cons.IH [OF _ _ this] Cons.prems show ?case by (simp add: acc acc'_def)
qed simp

lemma mask_added_zero: "mask_subset xs ys \<Longrightarrow> mask_added xs ys = 0 \<Longrightarrow> xs = ys"
  unfolding mask_subset_def mask_added_def
proof (induction xs ys rule: list_all2_induct)
  case (Cons x xs y ys)
  have "finite {i. bit y i \<and> \<not> bit x i}"
    by (rule finite_subset [of _ "{..<8}"]) (use bit_imp_le_length [of y] in auto)
  with Cons have "\<forall>i. bit y i \<longrightarrow> bit x i" by (auto simp: byte_added_def)
  with Cons(1) have "x = y" by (intro bit_eqI) blast
  with Cons show ?case by simp
qed simp

lemma mcast_search_result:
  assumes "mcast_rel m xs" and "length nm = NODEMASK_SIZE"
    and "mcast_search nm 0 (mcast_groups_list m) (0, 0, 0xFF) = (c, f, l)"
  shows "search_ok nm (mcast_groups_list m) (c, f, l)"
proof -
  have "\<forall>g\<in>set (mcast_groups_list m). length (nlist g) = length nm"
  proof
    fix g
    assume "g \<in> set (mcast_groups_list m)"
    then obtain i where "i < length (mcast_groups_list m)" "mcast_groups_list m ! i = g" by (auto simp: in_set_conv_nth)
    with assms(1, 2) show "length (nlist g) = length nm"
      by (auto simp: mcast_rel_def mcast_ids_def mcast_get_entry_def dest!: bspec [of _ _ "Suc i"])
  qed
  from mcast_search_ok [OF this assms(2), of "[]" "(0, 0, 0xFF)"] assms(3) show ?thesis
    by (simp add: search_ok_def)
qed

lemma mcast_rel_member_iff: "mcast_rel m xs \<Longrightarrow> i \<in> set xs \<longleftrightarrow> i \<in> mcast_ids m \<and> in_use (mcast_get_entry m i)"
  by (auto simp: mcast_rel_def)

lemma ball_groups_iff: "(\<forall>g\<in>set (mcast_groups_list m). P g) \<longleftrightarrow> (\<forall>i\<in>mcast_ids m. P (mcast_get_entry m i))"
proof
  assume *: "\<forall>i\<in>mcast_ids m. P (mcast_get_entry m i)"
  show "\<forall>g\<in>set (mcast_groups_list m). P g"
  proof
    fix g
    assume "g \<in> set (mcast_groups_list m)"
    then obtain k where "k < length (mcast_groups_list m)" "mcast_groups_list m ! k = g" by (auto simp: in_set_conv_nth)
    with * show "P g" by (auto simp: mcast_ids_def mcast_get_entry_def dest!: bspec [of _ _ "Suc k"])
  qed
qed (auto simp: mcast_ids_def mcast_get_entry_def)

definition mcast_choice :: "mcast \<Rightarrow> nat list \<Rightarrow> buffer \<Rightarrow> nat \<Rightarrow> bool" where
  "mcast_choice m xs nm gid \<longleftrightarrow>
     (if \<exists>j\<in>set xs. near nm (mcast_get_entry m j)
      then gid \<in> set xs \<and> near nm (mcast_get_entry m gid) \<and>
           (\<forall>j\<in>set xs. near nm (mcast_get_entry m j) \<longrightarrow>
              mask_added (nlist (mcast_get_entry m gid)) nm \<le> mask_added (nlist (mcast_get_entry m j)) nm)
      else if set xs = mcast_ids m then gid = last xs else gid \<in> mcast_ids m - set xs)"

definition mcast_post :: "mcast \<Rightarrow> nat list \<Rightarrow> buffer \<Rightarrow> nat \<Rightarrow> mcast \<Rightarrow> bool" where
  "mcast_post m xs nm gid m' \<longleftrightarrow>
     mcast_rel m' (gid # remove1 gid xs) \<and> mcast_group_get_nodemask_by_id gid m' = Some nm \<and>
     (\<forall>j. j \<noteq> gid \<longrightarrow> mcast_group_get_nodemask_by_id j m' = mcast_group_get_nodemask_by_id j m)"

lemma nodemask_by_id_iff:
  "mcast_group_get_nodemask_by_id j m =
     (if j \<in> mcast_ids m \<and> in_use (mcast_get_entry m j) then Some (nlist (mcast_get_entry m j)) else None)"
  by (auto simp: mcast_group_get_nodemask_by_id_def mcast_ids_def)

lemma mcast_postI:
  assumes "mcast_rel m' (gid # remove1 gid xs)" and "mcast_ids m' = mcast_ids m"
    and "nlist (mcast_get_entry m' gid) = nm"
    and "\<And>j. j \<in> mcast_ids m \<Longrightarrow> j \<noteq> gid \<Longrightarrow>
      in_use (mcast_get_entry m' j) = in_use (mcast_get_entry m j) \<and>
      nlist (mcast_get_entry m' j) = nlist (mcast_get_entry m j)"
  shows "mcast_post m xs nm gid m'"
  using assms mcast_rel_member_iff [OF assms(1), of gid] by (auto simp: mcast_post_def nodemask_by_id_iff)

lemma mcast_lookup_near:
  assumes rel: "mcast_rel m xs" and nm: "length nm = NODEMASK_SIZE" "nm \<noteq> replicate NODEMASK_SIZE 0"
    and s: "mcast_search nm 0 (mcast_groups_list m) (0, 0, 0xFF) = (c, f, l)" and c: "c \<noteq> 0"
  shows "\<exists>m'. mcast_group_get_id_by_nodemask nm m = Some (c, m') \<and> mcast_post m xs nm c m' \<and> mcast_choice m xs nm c"
proof -
  note ok = mcast_search_result [OF rel nm(1) s, unfolded search_ok_def ball_groups_iff]
  have cs: "c \<in> mcast_ids m" "near nm (mcast_get_entry m c)" "l = int (mask_added (nlist (mcast_get_entry m c)) nm)"
    and min: "\<And>i. i \<in> mcast_ids m \<Longrightarrow> near nm (mcast_get_entry m i) \<Longrightarrow> l \<le> int (mask_added (nlist (mcast_get_entry m i)) nm)"
    using ok c by (auto simp: mcast_ids_def mcast_get_entry_def)
  have cx: "c \<in> set xs" using cs mcast_rel_member_iff [OF rel] by (auto simp: near_def)
  define m1 where "m1 = (if l \<noteq> 0 then mcast_update_entry c (\<lambda>e. e\<lparr>nlist := nm\<rparr>) m else m)"
  have m1: "mcast_rel m1 xs" "mcast_ids m1 = mcast_ids m"
    using mcast_set_mask [OF rel cs(1) nm(1)] rel by (auto simp: m1_def)
  have e1: "nlist (mcast_get_entry m1 c) = nm"
    using cs mask_added_zero [of "nlist (mcast_get_entry m c)" nm] by (auto simp: m1_def near_def)
  have e2: "in_use (mcast_get_entry m1 j) = in_use (mcast_get_entry m j) \<and>
      (j \<noteq> c \<longrightarrow> nlist (mcast_get_entry m1 j) = nlist (mcast_get_entry m j))" if "j \<in> mcast_ids m" for j
    using that cs(1) by (auto simp: m1_def)
  obtain m' where m': "mcast_group_use_age_update c m1 = Some m'" "mcast_rel m' (c # remove1 c xs)" "mcast_same m1 m'"
    using mcast_age_update [OF m1(1) cx] by blast
  have "mcast_post m xs nm c m'"
    using m'(2, 3) m1(2) e1 e2 cs(1) by (intro mcast_postI) (auto simp: mcast_same_def)
  moreover have "mcast_choice m xs nm c"
    using cx cs min mcast_rel_in_ids [OF rel] by (fastforce simp: mcast_choice_def)
  moreover have "mcast_group_get_id_by_nodemask nm m = Some (c, m')"
    using nm s c m'(1) by (simp add: mcast_group_get_id_by_nodemask_def m1_def)
  ultimately show ?thesis by blast
qed

lemma mcast_lookup_oldest:
  assumes rel: "mcast_rel m xs" and nm: "length nm = NODEMASK_SIZE" "nm \<noteq> replicate NODEMASK_SIZE 0"
    and s: "mcast_search nm 0 (mcast_groups_list m) (0, 0, 0xFF) = (0, 0, l)" and ne: "mcast_groups_list m \<noteq> []"
  shows "\<exists>m'. mcast_group_get_id_by_nodemask nm m = Some (last xs, m') \<and>
    mcast_post m xs nm (last xs) m' \<and> mcast_choice m xs nm (last xs)"
proof -
  note ok = mcast_search_result [OF rel nm(1) s, unfolded search_ok_def ball_groups_iff]
  have all: "set xs = mcast_ids m" using ok rel by (auto simp: mcast_rel_def)
  have far: "\<not> near nm (mcast_get_entry m i)" if "i \<in> mcast_ids m" for i using ok that by simp
  have "mcast_ids m \<noteq> {}" using ne by (auto simp: mcast_ids_def Suc_le_eq)
  then have "xs \<noteq> []" using all by (metis list.set(1))
  then have xs: "xs \<noteq> []" "last xs \<in> set xs" by simp_all
  obtain m1 where m1: "mcast_group_use_age_update (last xs) m = Some m1"
      "mcast_rel m1 (last xs # remove1 (last xs) xs)" "mcast_same m m1"
    using mcast_age_update [OF rel xs(2)] by blast
  define m' where "m' = mcast_update_entry (last xs) (\<lambda>e. e\<lparr>nlist := nm\<rparr>) m1"
  have ids: "mcast_ids m1 = mcast_ids m" "last xs \<in> mcast_ids m" using m1(3) xs all by (auto simp: mcast_same_def)
  have "mcast_post m xs nm (last xs) m'"
    using mcast_set_mask [OF m1(2) _ nm(1)] m1(3) ids
    by (intro mcast_postI) (auto simp: m'_def mcast_same_def)
  moreover have "mcast_choice m xs nm (last xs)" using far all by (auto simp: mcast_choice_def)
  moreover have "mcast_group_get_id_by_nodemask nm m = Some (last xs, m')"
    using nm s m1(1) mcast_oldest [OF rel xs(1)] by (simp add: mcast_group_get_id_by_nodemask_def m'_def Let_def)
  ultimately show ?thesis by blast
qed

lemma mcast_lookup_new:
  assumes rel: "mcast_rel m xs" and nm: "length nm = NODEMASK_SIZE" "nm \<noteq> replicate NODEMASK_SIZE 0"
    and s: "mcast_search nm 0 (mcast_groups_list m) (0, 0, 0xFF) = (0, f, l)" and f: "f \<noteq> 0"
  shows "\<exists>m'. mcast_group_get_id_by_nodemask nm m = Some (f, m') \<and> mcast_post m xs nm f m' \<and> mcast_choice m xs nm f"
proof -
  note ok = mcast_search_result [OF rel nm(1) s, unfolded search_ok_def ball_groups_iff]
  have far: "\<not> near nm (mcast_get_entry m i)" if "i \<in> mcast_ids m" for i using ok that by simp
  have fs: "f \<in> mcast_ids m" "\<not> in_use (mcast_get_entry m f)"
    using ok f by (auto simp: mcast_ids_def mcast_get_entry_def)
  then have fx: "f \<notin> set xs" using mcast_rel_member_iff [OF rel] by blast
  define m1 where "m1 = mcast_update_entry f (\<lambda>e. e\<lparr>in_use := True\<rparr>) m"
  define m2 where "m2 = mcast_group_use_age_element_insert_new f m1"
  note ins = mcast_insert_new [OF rel fs(1) fx, folded m1_def, folded m2_def]
  define m' where "m' = mcast_update_entry f (\<lambda>e. e\<lparr>nlist := nm\<rparr>) m2"
  have ids: "mcast_ids m2 = mcast_ids m" using ins(2) by (simp add: mcast_same_def m1_def)
  have "mcast_post m xs nm f m'"
    using mcast_set_mask [OF ins(1) _ nm(1), of f] ins(2) ids fs fx
    by (intro mcast_postI) (auto simp: m'_def mcast_same_def m1_def remove1_idem)
  moreover have "mcast_choice m xs nm f" using far fs fx mcast_rel_in_ids [OF rel] by (auto simp: mcast_choice_def)
  moreover have "mcast_group_get_id_by_nodemask nm m = Some (f, m')"
    using nm s f by (simp add: mcast_group_get_id_by_nodemask_def m'_def m2_def m1_def Let_def)
  ultimately show ?thesis by blast
qed

text \<open>
  C31. Looking up a multicast group never runs into an assertion and implements a least-recently-used
  cache: a group that can be extended to the requested mask by adding fewer than 255 nodes is chosen
  with the fewest nodes to add; otherwise an unused group is taken; otherwise the group unused for the
  longest time is recycled. Afterwards the chosen group has exactly the requested mask and is the most
  recently used one, all other groups and their order are unchanged, and the linked list of use ages
  is intact.
\<close>

theorem mcast_lookup_is_lru:
  assumes "mcast_rel m xs" and "length nm = NODEMASK_SIZE" and "nm \<noteq> replicate NODEMASK_SIZE 0"
    and "mcast_groups_list m \<noteq> []"
  shows "\<exists>gid m'. mcast_group_get_id_by_nodemask nm m = Some (gid, m') \<and> mcast_choice m xs nm gid \<and>
    mcast_rel m' (gid # remove1 gid xs) \<and> mcast_group_get_nodemask_by_id gid m' = Some nm \<and>
    (\<forall>j. j \<noteq> gid \<longrightarrow> mcast_group_get_nodemask_by_id j m' = mcast_group_get_nodemask_by_id j m)"
proof -
  obtain c f l where s: "mcast_search nm 0 (mcast_groups_list m) (0, 0, 0xFF) = (c, f, l)" by (metis prod_cases3)
  show ?thesis
    using mcast_lookup_near [OF assms(1-3) s] mcast_lookup_oldest [OF assms(1-3) _ assms(4)]
      mcast_lookup_new [OF assms(1-3), of f l] s
    by (cases "c = 0"; cases "f = 0") (auto simp: mcast_post_def)
qed

lemma mcast_init_rel:
  assumes "\<forall>g\<in>set (mcast_groups_list m). length (nlist g) = NODEMASK_SIZE"
  shows "mcast_rel (mcast_group_init m) []"
  using assms by (auto simp: mcast_rel_def mcast_group_init_def mcast_ids_def mcast_get_entry_def)

theorem mcast_lookup_is_lru_witness:
  "\<exists>gid m'. mcast_group_get_id_by_nodemask (1 # replicate 500 0)
      (mcast_group_init \<lparr>mcast_groups_list = replicate 10 \<lparr>in_use = False, mg_prev = 0, mg_next = 0, nlist = replicate 501 0\<rparr>,
         mcast_group_use_age_head = 0\<rparr>) = Some (gid, m') \<and>
    mcast_group_get_nodemask_by_id gid m' = Some (1 # replicate 500 0)"
proof -
  let ?m = "mcast_group_init \<lparr>mcast_groups_list = replicate 10 \<lparr>in_use = False, mg_prev = 0, mg_next = 0, nlist = replicate 501 0\<rparr>,
         mcast_group_use_age_head = 0\<rparr>"
  have "mcast_rel ?m []" by (rule mcast_init_rel) simp
  moreover have "(1 # replicate 500 0 :: buffer) \<noteq> replicate NODEMASK_SIZE 0" by (simp add: numeral_eq_Suc)
  ultimately show ?thesis
    using mcast_lookup_is_lru [of ?m "[]" "1 # replicate 500 0"] by (auto simp: mcast_group_init_def)
qed

end
