(* ===== verification/Send_Data.thy ===== *)
theory Send_Data
  imports Node_Queue Frame_Check Multicast_Groups "HOL-Library.Multiset"
begin

text \<open>
  The transmission layer (\<open>src/src/transport/ZW_SendDataAppl.c\<close>): selection of the security scheme,
  the application queue and the low-level queue over one pool of eight sessions, their locks, the
  back-off after a get command, the discard timers, abort, and the event loop of the process.

  The state is the record \<open>sd\<close>. A session is named by its index in the pool. A callback with its user
  pointer is a value of \<open>sd_callback\<close>: \<open>ApplEx i\<close> is \<open>ZW_SendDataAppl_CallbackEx\<close> with the session \<open>i\<close> as
  user pointer, \<open>Client n\<close> any other callback. What the layer does to the outside is recorded: calls of
  clients in \<open>called\<close>, calls into the radio and the security layers in \<open>sd_effects\<close>. The number of live
  frame buffers is \<open>fb_live\<close>. Timers are running or not; a posted event is an element of \<open>posted\<close>, in
  order. \<open>accepted\<close> lists the client callbacks of accepted requests and \<open>sec_held\<close> the callbacks that a
  security layer holds. A null dereference is an error value. \<open>assert\<close> is taken as compiled out in
  \<open>zw_frame_buffer_create\<close>, so that the null result reaches its callers.
\<close>

section \<open>Parameters of a transmission\<close>

datatype security_scheme =
    NO_SCHEME | AUTO_SCHEME | NET_SCHEME | USE_CRC16 | SECURITY_SCHEME_0
  | SECURITY_SCHEME_2_UNAUTHENTICATED | SECURITY_SCHEME_2_AUTHENTICATED
  | SECURITY_SCHEME_2_ACCESS | SECURITY_SCHEME_UDP

record ts_param =
  snode :: nodeid
  dnode :: nodeid
  sendpoint :: byte
  dendpoint :: byte
  tx_flags :: byte
  rx_flags :: byte
  scheme :: security_scheme
  node_list :: buffer
  is_mcast_with_folloup :: bool
  force_verify_delivery :: bool
  is_multicommand :: bool
  discard_timeout :: u16

text \<open>What the node cache and the network know: the gateway's own node, flags and supported classes.\<close>

record sd_net =
  MyNodeID :: nodeid
  GetCacheEntryFlag :: "nodeid \<Rightarrow> byte"
  SupportsCmdClass :: "nodeid \<Rightarrow> byte \<Rightarrow> bool"

abbreviation NODE_FLAG_SECURITY0 :: byte where "NODE_FLAG_SECURITY0 \<equiv> 0x01"
abbreviation NODE_FLAG_KNOWN_BAD :: byte where "NODE_FLAG_KNOWN_BAD \<equiv> 0x02"
abbreviation NODE_FLAG_SECURITY2_UNAUTHENTICATED :: byte where "NODE_FLAG_SECURITY2_UNAUTHENTICATED \<equiv> 0x10"
abbreviation NODE_FLAG_SECURITY2_AUTHENTICATED :: byte where "NODE_FLAG_SECURITY2_AUTHENTICATED \<equiv> 0x20"
abbreviation NODE_FLAG_SECURITY2_ACCESS :: byte where "NODE_FLAG_SECURITY2_ACCESS \<equiv> 0x40"
abbreviation TRANSMIT_OPTION_ACK :: byte where "TRANSMIT_OPTION_ACK \<equiv> 0x01"
abbreviation TRANSMIT_OPTION_LOW_POWER :: byte where "TRANSMIT_OPTION_LOW_POWER \<equiv> 0x02"
abbreviation TRANSMIT_OPTION_AUTO_ROUTE :: byte where "TRANSMIT_OPTION_AUTO_ROUTE \<equiv> 0x04"
abbreviation TRANSMIT_OPTION_EXPLORE :: byte where "TRANSMIT_OPTION_EXPLORE \<equiv> 0x20"
abbreviation TRANSMIT_OPTION_MULTICAST :: byte where "TRANSMIT_OPTION_MULTICAST \<equiv> 0x40"
abbreviation UIP_BUFSIZE :: nat where "UIP_BUFSIZE \<equiv> 1544"

definition ts_set_std :: "sd_net \<Rightarrow> nodeid \<Rightarrow> ts_param \<Rightarrow> ts_param" where
  "ts_set_std net dst p =
     p\<lparr>dendpoint := 0, sendpoint := 0, snode := MyNodeID net, dnode := dst,
       node_list := nodemask_clear (node_list p), rx_flags := 0,
       tx_flags := TRANSMIT_OPTION_ACK OR TRANSMIT_OPTION_AUTO_ROUTE OR TRANSMIT_OPTION_EXPLORE,
       scheme := AUTO_SCHEME, discard_timeout := 0, force_verify_delivery := False,
       is_mcast_with_folloup := False, is_multicommand := False\<rparr>"

definition highest_scheme :: "byte \<Rightarrow> security_scheme" where
  "highest_scheme scheme_mask =
     (if scheme_mask AND NODE_FLAG_SECURITY2_ACCESS \<noteq> 0 then SECURITY_SCHEME_2_ACCESS
      else if scheme_mask AND NODE_FLAG_SECURITY2_AUTHENTICATED \<noteq> 0 then SECURITY_SCHEME_2_AUTHENTICATED
      else if scheme_mask AND NODE_FLAG_SECURITY2_UNAUTHENTICATED \<noteq> 0 then SECURITY_SCHEME_2_UNAUTHENTICATED
      else if scheme_mask AND NODE_FLAG_SECURITY0 \<noteq> 0 then SECURITY_SCHEME_0
      else NO_SCHEME)"

text \<open>
  For an explicit scheme the code tests whether both ends support it; the test decides only whether a
  warning is printed, the scheme is returned in either case, as it is by the default branch.
\<close>

definition ZW_SendData_scheme_select :: "sd_net \<Rightarrow> ts_param \<Rightarrow> nat \<Rightarrow> security_scheme" where
  "ZW_SendData_scheme_select net param len =
     (let dst_scheme_mask = GetCacheEntryFlag net (dnode param);
          src_scheme_mask = GetCacheEntryFlag net (MyNodeID net);
          dst_highest_scheme = highest_scheme dst_scheme_mask
      in if len < 2 \<or> dst_scheme_mask AND NODE_FLAG_KNOWN_BAD \<noteq> 0 \<or> src_scheme_mask AND NODE_FLAG_KNOWN_BAD \<noteq> 0
         then if scheme param = USE_CRC16 \<and> SupportsCmdClass net (dnode param) COMMAND_CLASS_CRC_16_ENCAP \<and>
                 dst_highest_scheme = NO_SCHEME
              then USE_CRC16 else NO_SCHEME
         else
           let common = dst_scheme_mask AND src_scheme_mask
           in case scheme param of
                AUTO_SCHEME \<Rightarrow>
                  (if highest_scheme common = NO_SCHEME \<and>
                      SupportsCmdClass net (dnode param) COMMAND_CLASS_CRC_16_ENCAP
                   then USE_CRC16 else highest_scheme common)
              | sch \<Rightarrow> sch)"

definition ts_param_make_reply :: "sd_net \<Rightarrow> ts_param \<Rightarrow> ts_param \<Rightarrow> ts_param" where
  "ts_param_make_reply net dst src =
     dst\<lparr>snode := dnode src, dnode := snode src, sendpoint := dendpoint src, dendpoint := sendpoint src,
       scheme := ZW_SendData_scheme_select net src 2, discard_timeout := 0,
       tx_flags := (if rx_flags src AND 0x02 \<noteq> 0 then TRANSMIT_OPTION_LOW_POWER else 0) OR
         TRANSMIT_OPTION_ACK OR TRANSMIT_OPTION_EXPLORE OR TRANSMIT_OPTION_AUTO_ROUTE\<rparr>"

definition ts_param_cmp :: "ts_param \<Rightarrow> ts_param \<Rightarrow> bool" where
  "ts_param_cmp a1 a2 \<longleftrightarrow> snode a1 = snode a2 \<and> dnode a1 = dnode a2 \<and>
     sendpoint a1 = sendpoint a2 \<and> dendpoint a1 = dendpoint a2"

definition scheme_prio :: "security_scheme \<Rightarrow> int" where
  "scheme_prio a =
     (case a of SECURITY_SCHEME_UDP \<Rightarrow> 0xFFFF | SECURITY_SCHEME_2_ACCESS \<Rightarrow> 4
      | SECURITY_SCHEME_2_AUTHENTICATED \<Rightarrow> 3 | SECURITY_SCHEME_2_UNAUTHENTICATED \<Rightarrow> 2
      | SECURITY_SCHEME_0 \<Rightarrow> 1 | _ \<Rightarrow> 0)"

definition scheme_compare :: "security_scheme \<Rightarrow> security_scheme \<Rightarrow> bool" where
  "scheme_compare a b \<longleftrightarrow> scheme_prio a \<ge> scheme_prio b"

section \<open>Frame buffers\<close>

text \<open>
  A frame buffer holds 256 bytes, of which \<open>frame_len\<close> are set. The argument \<open>mem\<close> is what \<open>malloc\<close>
  returns: nothing, or a block with its old contents. The command is the memory at the pointer
  \<open>cmd\<close>, of which \<open>len\<close> bytes are copied.
\<close>

abbreviation FRAME_BUFFER_ELEMENT_SIE :: nat where "FRAME_BUFFER_ELEMENT_SIE \<equiv> 256"

record frame_buffer =
  param :: ts_param
  frame_data :: buffer
  frame_len :: nat

definition zw_frame_buffer_create :: "buffer option \<Rightarrow> ts_param \<Rightarrow> buffer \<Rightarrow> nat \<Rightarrow> frame_buffer option" where
  "zw_frame_buffer_create mem p cmd len =
     (case mem of
        Some f \<Rightarrow>
          if len < FRAME_BUFFER_ELEMENT_SIE
          then Some \<lparr>param = p, frame_data = take len cmd @ drop len f, frame_len = len\<rparr> else None
      | None \<Rightarrow> None)"

section \<open>State\<close>

datatype sd_callback = NoCallback | Client nat | ApplEx nat

datatype sd_event = SEND_EVENT_SEND_NEXT | SEND_EVENT_SEND_NEXT_LL

datatype sd_effect =
    SendDataEff nodeid buffer byte | BridgeEff nodeid nodeid buffer byte | TransportEff ts_param buffer
  | Sec0Eff ts_param buffer | Sec2Eff ts_param buffer | AbortEff | ImaStart nodeid | ImaDone nodeid tx_status

datatype sd_error = NullSession

record session =
  fb :: frame_buffer
  callback :: sd_callback
  discard_timer :: bool

record sd =
  session_memb :: memb
  sessions :: "session list"
  session_list :: "nat list"
  send_data_list :: "nat list"
  lock :: bool
  lock_ll :: bool
  current_session :: "nat option"
  current_session_ll :: "nat option"
  emergency_timer :: bool
  backoff_timer :: "u32 option"
  backoff_node :: nodeid
  posted :: "sd_event list"
  fb_live :: int
  sec_held :: "sd_callback list"
  accepted :: "nat list"
  called :: "(nat \<times> tx_status) list"
  sd_effects :: "sd_effect list"

text \<open>
  The outcomes of the calls that a step makes: the block returned by \<open>malloc\<close>, acceptance by the
  security layers, the radio and the transport service, and the state of the node queues.
\<close>

record sd_env =
  net :: sd_net
  mem_block :: "buffer option"
  sec0_accepts :: bool
  sec2_accepts :: bool
  radio_accepts :: bool
  transport_accepts :: bool
  get_queue_state :: en_queue_state

definition post :: "sd_event \<Rightarrow> sd \<Rightarrow> sd" where
  "post ev s = s\<lparr>posted := posted s @ [ev]\<rparr>"

definition effect :: "sd_effect \<Rightarrow> sd \<Rightarrow> sd" where
  "effect e s = s\<lparr>sd_effects := sd_effects s @ [e]\<rparr>"

definition release_session :: "nat \<Rightarrow> sd \<Rightarrow> sd" where
  "release_session i s = s\<lparr>session_memb := snd (memb_free (session_memb s) i)\<rparr>"

definition zw_frame_buffer_free :: "sd \<Rightarrow> sd" where
  "zw_frame_buffer_free s = s\<lparr>fb_live := fb_live s - 1\<rparr>"

text \<open>Clients are called at the end of an operation, so what they do in turn is a later step.\<close>

definition call_client :: "sd_callback \<Rightarrow> tx_status \<Rightarrow> sd \<Rightarrow> sd" where
  "call_client cb status s =
     (case cb of Client n \<Rightarrow> s\<lparr>called := called s @ [(n, status)]\<rparr> | _ \<Rightarrow> s)"

section \<open>Completion of an application session\<close>

text \<open>\<open>ticks\<close> is \<open>ts->wTransmitTicks\<close> when a transmit status is given.\<close>

definition is_get_frame :: "frame_buffer \<Rightarrow> bool" where
  "is_get_frame f = (CommandAnalyzerIsGet (frame_data f ! 0) (frame_data f ! 1) = Some True)"

definition ZW_SendDataAppl_CallbackEx :: "tx_status \<Rightarrow> nat \<Rightarrow> u16 option \<Rightarrow> sd \<Rightarrow> sd" where
  "ZW_SendDataAppl_CallbackEx status i ticks s =
     (if \<not> lock s then s
      else
        let se = sessions s ! i;
            s1 = s\<lparr>lock := False\<rparr>;
            s2 = (case ticks of
                    Some t \<Rightarrow>
                      if status = TRANSMIT_COMPLETE_OK \<and> is_get_frame (fb se)
                      then s1\<lparr>backoff_node := dnode (param (fb se)), backoff_timer := Some (ucast t * 10 + 250)\<rparr>
                      else post SEND_EVENT_SEND_NEXT s1
                  | None \<Rightarrow> post SEND_EVENT_SEND_NEXT s1)
        in call_client (callback se) status (release_session i (zw_frame_buffer_free s2)))"

definition run_callback :: "sd_callback \<Rightarrow> tx_status \<Rightarrow> u16 option \<Rightarrow> sd \<Rightarrow> sd" where
  "run_callback cb status ticks s =
     (case cb of ApplEx i \<Rightarrow> ZW_SendDataAppl_CallbackEx status i ticks s | _ \<Rightarrow> call_client cb status s)"

section \<open>The low-level queue\<close>

definition do_discard_timeout_memb :: "nat \<Rightarrow> sd \<Rightarrow> sd" where
  "do_discard_timeout_memb i s =
     (let s1 = s\<lparr>send_data_list := list_remove (send_data_list s) i\<rparr>
      in run_callback (callback (sessions s ! i)) TRANSMIT_COMPLETE_FAIL None (release_session i s1))"

definition ima_reported :: "en_queue_state \<Rightarrow> tx_status \<Rightarrow> bool" where
  "ima_reported qs status \<longleftrightarrow>
     (qs = QS_SENDING_FIRST \<and> status = TRANSMIT_COMPLETE_OK) \<or> qs = QS_SENDING_LONG"

definition send_data_callback_func ::
  "en_queue_state \<Rightarrow> tx_status \<Rightarrow> u16 option \<Rightarrow> sd \<Rightarrow> sd_error + sd" where
  "send_data_callback_func qs status ticks s =
     (if \<not> lock_ll s then Inr s
      else case list_pop (send_data_list s) of
             (None, _) \<Rightarrow> Inl NullSession
           | (Some i, rest) \<Rightarrow>
               let se = sessions s ! i;
                   s1 = s\<lparr>send_data_list := rest\<rparr>;
                   s2 = (if ima_reported qs status then effect (ImaDone (dnode (param (fb se))) status) s1 else s1);
                   s3 = s2\<lparr>emergency_timer := False\<rparr>;
                   s4 = (release_session i (zw_frame_buffer_free s3))\<lparr>lock_ll := False\<rparr>
               in Inr (post SEND_EVENT_SEND_NEXT_LL (run_callback (callback se) status ticks s4)))"

text \<open>
  A request for the low-level queue. When no frame buffer can be made the session stays allocated.
\<close>

definition accept_client :: "sd_callback \<Rightarrow> sd \<Rightarrow> sd" where
  "accept_client cb s = (case cb of Client n \<Rightarrow> s\<lparr>accepted := accepted s @ [n]\<rparr> | _ \<Rightarrow> s)"

definition send_data :: "sd_env \<Rightarrow> ts_param \<Rightarrow> buffer \<Rightarrow> nat \<Rightarrow> sd_callback \<Rightarrow> sd \<Rightarrow> bool \<times> sd" where
  "send_data env p dat len cb s =
     (case memb_alloc (session_memb s) of
        (None, _) \<Rightarrow> (False, s)
      | (Some i, pool) \<Rightarrow>
          let s1 = s\<lparr>session_memb := pool\<rparr>
          in case zw_frame_buffer_create (mem_block env) p dat len of
               None \<Rightarrow> (False, s1)
             | Some f \<Rightarrow>
                 let se = \<lparr>fb = f, callback = cb, discard_timer = (discard_timeout p \<noteq> 0 \<or> discard_timer (sessions s ! i))\<rparr>;
                     s2 = s1\<lparr>sessions := (sessions s)[i := se], fb_live := fb_live s + 1\<rparr>;
                     s3 = s2\<lparr>send_data_list := list_add (send_data_list s2) i\<rparr>
                 in (True, post SEND_EVENT_SEND_NEXT_LL (accept_client cb s3)))"

section \<open>Endpoint and security encapsulation\<close>

definition endpoint_encap :: "ts_param \<Rightarrow> buffer \<Rightarrow> buffer" where
  "endpoint_encap p frame =
     (if dendpoint p \<noteq> 0 \<or> sendpoint p \<noteq> 0 then [0x60, 0x0D, sendpoint p, dendpoint p] @ frame else frame)"

text \<open>
  The result has the parameters with the scheme that was chosen: \<open>p\<close> points to the session's frame
  buffer and the secure branches write to it. A frame accepted by a security layer leaves its
  callback there.
\<close>

definition sec_send :: "bool \<Rightarrow> sd_effect \<Rightarrow> sd_callback \<Rightarrow> sd \<Rightarrow> bool \<times> sd" where
  "sec_send accepts eff cb s =
     (if accepts then (True, effect eff (s\<lparr>sec_held := sec_held s @ [cb]\<rparr>)) else (False, s))"

definition send_endpoint ::
  "sd_env \<Rightarrow> ts_param \<Rightarrow> buffer \<Rightarrow> sd_callback \<Rightarrow> sd \<Rightarrow> bool \<times> ts_param \<times> sd" where
  "send_endpoint env p frame cb s =
     (let new_buf = endpoint_encap p frame
      in if length frame > UIP_BUFSIZE \<or> length new_buf > UIP_BUFSIZE then (False, p, s)
         else
           let sch = ZW_SendData_scheme_select (net env) p (length frame mod 256);
               mcast = (tx_flags p AND TRANSMIT_OPTION_MULTICAST \<noteq> 0)
           in case sch of
                USE_CRC16 \<Rightarrow>
                  (let buf = crc16_encap new_buf;
                       (rc, s') = send_data env p buf (length buf) cb s
                   in (rc, p, s'))
              | NO_SCHEME \<Rightarrow>
                  if mcast then (False, p, s)
                  else let (rc, s') = send_data env p new_buf (length new_buf) cb s in (rc, p, s')
              | SECURITY_SCHEME_0 \<Rightarrow>
                  if mcast then (False, p, s)
                  else let (rc, s') = sec_send (sec0_accepts env) (Sec0Eff p new_buf) cb s in (rc, p, s')
              | SECURITY_SCHEME_2_ACCESS \<Rightarrow>
                  let p' = p\<lparr>scheme := sch\<rparr>; (rc, s') = sec_send (sec2_accepts env) (Sec2Eff p' new_buf) cb s
                  in (rc, p', s')
              | SECURITY_SCHEME_2_AUTHENTICATED \<Rightarrow>
                  let p' = p\<lparr>scheme := sch\<rparr>; (rc, s') = sec_send (sec2_accepts env) (Sec2Eff p' new_buf) cb s
                  in (rc, p', s')
              | SECURITY_SCHEME_2_UNAUTHENTICATED \<Rightarrow>
                  let p' = p\<lparr>scheme := sch\<rparr>; (rc, s') = sec_send (sec2_accepts env) (Sec2Eff p' new_buf) cb s
                  in (rc, p', s')
              | _ \<Rightarrow> (False, p, s))"

section \<open>The application queue\<close>

definition set_session_param :: "nat \<Rightarrow> ts_param \<Rightarrow> sd \<Rightarrow> sd" where
  "set_session_param i p s =
     s\<lparr>sessions := (sessions s)[i := (sessions s ! i)\<lparr>fb := (fb (sessions s ! i))\<lparr>param := p\<rparr>\<rparr>]\<rparr>"

definition send_first :: "sd_env \<Rightarrow> sd \<Rightarrow> sd" where
  "send_first env s =
     (case list_pop (session_list s) of
        (None, _) \<Rightarrow> s\<lparr>current_session := None\<rparr>
      | (Some i, rest) \<Rightarrow>
          let f = fb (sessions s ! i);
              s1 = s\<lparr>session_list := rest, current_session := Some i, lock := True\<rparr>;
              (rc, p, s2) = send_endpoint env (param f) (take (frame_len f) (frame_data f)) (ApplEx i) s1;
              s3 = set_session_param i p s2
          in if rc then s3 else ZW_SendDataAppl_CallbackEx TRANSMIT_COMPLETE_ERROR i None s3)"

definition ZW_SendDataAppl :: "sd_env \<Rightarrow> ts_param \<Rightarrow> buffer \<Rightarrow> nat \<Rightarrow> sd_callback \<Rightarrow> sd \<Rightarrow> byte \<times> sd" where
  "ZW_SendDataAppl env p pData dataLength cb s =
     (case memb_alloc (session_memb s) of
        (None, _) \<Rightarrow> (0, s)
      | (Some i, pool) \<Rightarrow>
          let s1 = s\<lparr>session_memb := pool\<rparr>;
              f = (if pData ! 0 = 0 \<and> is_lr_node (unat (dnode p))
                   then zw_frame_buffer_create (mem_block env) p [0x04, 0] 2
                   else zw_frame_buffer_create (mem_block env) p pData dataLength)
          in case f of
               None \<Rightarrow> (0, release_session i s1)
             | Some f' \<Rightarrow>
                 let s2 = s1\<lparr>sessions := (sessions s)[i := (sessions s ! i)\<lparr>fb := f', callback := cb\<rparr>],
                             fb_live := fb_live s + 1\<rparr>;
                     s3 = s2\<lparr>session_list := list_add (session_list s2) i\<rparr>
                 in (of_nat i + 1, post SEND_EVENT_SEND_NEXT (accept_client cb s3)))"

definition ZW_SendDataApplAbort :: "byte \<Rightarrow> sd \<Rightarrow> sd" where
  "ZW_SendDataApplAbort handle s =
     (if handle = 0 \<or> unat handle > length (session_memb s) then s
      else
        let i = unat (handle - 1)
        in if current_session s = Some i then effect AbortEff s
           else if \<not> list_contains (session_list s) i then s
           else call_client (callback (sessions s ! i)) TRANSMIT_COMPLETE_FAIL
                  (release_session i (s\<lparr>session_list := list_remove (session_list s) i\<rparr>)))"

definition ZW_SendDataAppl_idle :: "sd \<Rightarrow> bool" where
  "ZW_SendDataAppl_idle s \<longleftrightarrow> current_session s = None \<and> current_session_ll s = None \<and>
     list_head (session_list s) = None \<and> list_head (send_data_list s) = None"

definition ZW_SendDataAppl_init :: "sd \<Rightarrow> sd" where
  "ZW_SendDataAppl_init s =
     s\<lparr>lock := False, lock_ll := False, session_list := list_init, send_data_list := list_init,
       session_memb := memb_init (session_memb s), posted := []\<rparr>"

definition ZW_SendDataAppl_FrameRX_Notify :: "ts_param \<Rightarrow> sd \<Rightarrow> sd" where
  "ZW_SendDataAppl_FrameRX_Notify c s =
     (if backoff_timer s \<noteq> None \<and> snode c = backoff_node s
      then post SEND_EVENT_SEND_NEXT (s\<lparr>backoff_timer := None\<rparr>) else s)"

section \<open>The process\<close>

definition ll_transmit :: "sd_env \<Rightarrow> nat \<Rightarrow> sd \<Rightarrow> bool \<times> sd" where
  "ll_transmit env i s =
     (let f = fb (sessions s ! i); p = param f; frame = take (frame_len f) (frame_data f)
      in if frame_len f \<ge> META_DATA_MAX_DATA_SIZE then
           if SupportsCmdClass (net env) (dnode p) COMMAND_CLASS_TRANSPORT_SERVICE
           then (transport_accepts env, effect (TransportEff p frame) s)
           else (False, s)
         else if snode p \<noteq> MyNodeID (net env)
         then (radio_accepts env, effect (BridgeEff (snode p) (dnode p) frame (tx_flags p)) s)
         else (radio_accepts env,
               effect (SendDataEff (dnode p) frame (tx_flags p)) (set_session_param i (p\<lparr>snode := 0x00ff\<rparr>) s)))"

definition stop_discard_timer :: "nat \<Rightarrow> sd \<Rightarrow> sd" where
  "stop_discard_timer i s = s\<lparr>sessions := (sessions s)[i := (sessions s ! i)\<lparr>discard_timer := False\<rparr>]\<rparr>"

definition send_next_ll :: "sd_env \<Rightarrow> sd \<Rightarrow> sd_error + sd" where
  "send_next_ll env s0 =
     (let s = s0\<lparr>current_session_ll := list_head (send_data_list s0)\<rparr>
      in case list_head (send_data_list s) of
           None \<Rightarrow> Inr s
         | Some i \<Rightarrow>
             if lock_ll s then Inr s
             else
               let s1 = (if discard_timeout (param (fb (sessions s ! i))) \<noteq> 0 then stop_discard_timer i s else s);
                   (rc, s2) = ll_transmit env i (s1\<lparr>lock_ll := True\<rparr>)
               in if \<not> rc then send_data_callback_func (get_queue_state env) TRANSMIT_COMPLETE_FAIL None s2
                  else Inr ((effect (ImaStart (dnode (param (fb (sessions s ! i))))) s2)\<lparr>emergency_timer := True\<rparr>))"

definition handle_event :: "sd_env \<Rightarrow> sd_event \<Rightarrow> sd \<Rightarrow> sd_error + sd" where
  "handle_event env ev s =
     (case ev of
        SEND_EVENT_SEND_NEXT \<Rightarrow>
          Inr (if \<not> lock s \<and> backoff_timer s = None then send_first env s else s)
      | SEND_EVENT_SEND_NEXT_LL \<Rightarrow> send_next_ll env s)"

definition emergency_timeout :: "en_queue_state \<Rightarrow> sd \<Rightarrow> sd_error + sd" where
  "emergency_timeout qs s = send_data_callback_func qs TRANSMIT_COMPLETE_FAIL None (s\<lparr>emergency_timer := False\<rparr>)"

definition backoff_timeout :: "sd \<Rightarrow> sd" where
  "backoff_timeout s = post SEND_EVENT_SEND_NEXT (s\<lparr>backoff_timer := None\<rparr>)"

definition sd_zero :: sd where
  "sd_zero =
     \<lparr>session_memb = replicate 8 0,
      sessions = replicate 8
        \<lparr>fb = \<lparr>param = \<lparr>snode = 0, dnode = 0, sendpoint = 0, dendpoint = 0, tx_flags = 0, rx_flags = 0,
                 scheme = NO_SCHEME, node_list = [], is_mcast_with_folloup = False,
                 force_verify_delivery = False, is_multicommand = False, discard_timeout = 0\<rparr>,
               frame_data = [], frame_len = 0\<rparr>,
         callback = NoCallback, discard_timer = False\<rparr>,
      session_list = [], send_data_list = [], lock = False, lock_ll = False, current_session = None,
      current_session_ll = None, emergency_timer = False, backoff_timer = None, backoff_node = 0,
      posted = [], fb_live = 0, sec_held = [], accepted = [], called = [], sd_effects = []\<rparr>"

text \<open>
  A step is a request of a client or of a security layer, a callback of the radio, of the transport
  service or of a security layer, an event of the process, or a timer.
\<close>

inductive sd_step :: "sd \<Rightarrow> sd \<Rightarrow> bool" where
  appl: "(\<And>j. cb \<noteq> ApplEx j) \<Longrightarrow> ZW_SendDataAppl env p dat len cb s = (r, s') \<Longrightarrow> sd_step s s'"
| low: "(\<And>j. cb \<noteq> ApplEx j) \<Longrightarrow> send_data env p dat len cb s = (r, s') \<Longrightarrow> sd_step s s'"
| abort: "sd_step s (ZW_SendDataApplAbort h s)"
| rx: "sd_step s (ZW_SendDataAppl_FrameRX_Notify c s)"
| event: "posted s = ev # evs \<Longrightarrow> handle_event env ev (s\<lparr>posted := evs\<rparr>) = Inr s' \<Longrightarrow> sd_step s s'"
| radio: "send_data_callback_func qs status ticks s = Inr s' \<Longrightarrow> sd_step s s'"
| emergency: "emergency_timer s \<Longrightarrow> emergency_timeout qs s = Inr s' \<Longrightarrow> sd_step s s'"
| security: "sec_held s = us @ cb # vs \<Longrightarrow> sd_step s (run_callback cb status ticks (s\<lparr>sec_held := us @ vs\<rparr>))"
| backoff: "backoff_timer s \<noteq> None \<Longrightarrow> sd_step s (backoff_timeout s)"
| discard: "i < length (sessions s) \<Longrightarrow> discard_timer (sessions s ! i) \<Longrightarrow>
    sd_step s (do_discard_timeout_memb i (stop_discard_timer i s))"

definition sd_reachable :: "sd \<Rightarrow> bool" where
  "sd_reachable s = sd_step\<^sup>*\<^sup>* (ZW_SendDataAppl_init sd_zero) s"

section \<open>Invariants\<close>

definition is_appl :: "sd_callback \<Rightarrow> bool" where
  "is_appl cb \<longleftrightarrow> (\<exists>i. cb = ApplEx i)"

definition client_of :: "sd_callback \<Rightarrow> nat multiset" where
  "client_of cb = (case cb of Client n \<Rightarrow> {#n#} | _ \<Rightarrow> {#})"

definition in_flight :: "sd \<Rightarrow> nat list" where
  "in_flight s = (if lock s then [the (current_session s)] else [])"

definition held :: "sd \<Rightarrow> nat list" where
  "held s = session_list s @ send_data_list s @ in_flight s"

definition cb_of :: "sd \<Rightarrow> nat \<Rightarrow> sd_callback" where
  "cb_of s i = callback (sessions s ! i)"

definition sd_shape :: "sd \<Rightarrow> bool" where
  "sd_shape s \<longleftrightarrow> memb_ok (session_memb s) \<and> length (session_memb s) = 8 \<and> length (sessions s) = 8 \<and>
     distinct (held s) \<and> set (held s) \<subseteq> memb_used (session_memb s) \<and>
     (lock_ll s \<longrightarrow> send_data_list s \<noteq> []) \<and>
     (\<forall>i<8. discard_timer (sessions s ! i) \<longrightarrow>
        i \<in> set (if lock_ll s then tl (send_data_list s) else send_data_list s) \<and>
        discard_timeout (param (fb (sessions s ! i))) \<noteq> 0)"

text \<open>
  \<open>sd_owned H s\<close>: the callbacks \<open>H\<close> are in the hands of the running operation. Together with those in
  the low-level queue and in the security layers they contain the completion of the application
  session in flight exactly once.
\<close>

definition sd_owned :: "sd_callback multiset \<Rightarrow> sd \<Rightarrow> bool" where
  "sd_owned H s \<longleftrightarrow>
     filter_mset is_appl (H + mset (sec_held s) + image_mset (cb_of s) (mset (send_data_list s))) =
       (if lock s then {#ApplEx (the (current_session s))#} else {#}) \<and>
     (\<forall>i\<in>set (session_list s @ in_flight s). \<not> is_appl (cb_of s i)) \<and>
     (\<forall>cb\<in>set (sec_held s). is_appl cb)"

definition sd_accounts :: "sd_callback multiset \<Rightarrow> sd \<Rightarrow> bool" where
  "sd_accounts H s \<longleftrightarrow>
     mset (accepted s) =
       mset (map fst (called s)) + (\<Sum>cb\<in>#H. client_of cb) + (\<Sum>i\<in>#mset (held s). client_of (cb_of s i))"

definition sd_awake :: "sd \<Rightarrow> bool" where
  "sd_awake s \<longleftrightarrow>
     (session_list s \<noteq> [] \<and> \<not> lock s \<and> backoff_timer s = None \<longrightarrow> SEND_EVENT_SEND_NEXT \<in> set (posted s)) \<and>
     (send_data_list s \<noteq> [] \<and> \<not> lock_ll s \<longrightarrow> SEND_EVENT_SEND_NEXT_LL \<in> set (posted s))"

definition sd_inv :: "sd_callback multiset \<Rightarrow> sd \<Rightarrow> bool" where
  "sd_inv H s \<longleftrightarrow> sd_shape s \<and> sd_owned H s \<and> sd_accounts H s"

section \<open>Preservation of the invariant\<close>

lemmas sd_inv_defs = sd_inv_def sd_shape_def sd_owned_def sd_accounts_def

lemma is_appl_simps [simp]: "is_appl (ApplEx i)" "\<not> is_appl NoCallback" "\<not> is_appl (Client n)"
  by (simp_all add: is_appl_def)

lemma client_of_simps [simp]: "client_of (ApplEx i) = {#}" "client_of NoCallback = {#}" "client_of (Client n) = {#n#}"
  by (simp_all add: client_of_def)

lemma not_appl_iff: "\<not> is_appl cb \<longleftrightarrow> (\<forall>j. cb \<noteq> ApplEx j)"
  by (auto simp: is_appl_def)

text \<open>The invariant reads ten fields only.\<close>

lemma sd_inv_cong:
  assumes "sd_inv H s" and "session_memb s' = session_memb s" and "sessions s' = sessions s"
    and "session_list s' = session_list s" and "send_data_list s' = send_data_list s"
    and "lock s' = lock s" and "lock_ll s' = lock_ll s"
    and "lock s \<longrightarrow> current_session s' = current_session s"
    and "sec_held s' = sec_held s" and "accepted s' = accepted s" and "called s' = called s"
  shows "sd_inv H s'"
proof -
  have f: "in_flight s' = in_flight s" using assms by (simp add: in_flight_def)
  then have h: "held s' = held s" using assms by (simp add: held_def)
  have c: "cb_of s' = cb_of s" using assms by (simp add: cb_of_def fun_eq_iff)
  show ?thesis using assms unfolding sd_inv_defs f h c by auto
qed

lemma sd_inv_post [simp, intro]: "sd_inv H s \<Longrightarrow> sd_inv H (post ev s)"
  by (erule sd_inv_cong) (simp_all add: post_def)

lemma sd_inv_effect [simp, intro]: "sd_inv H s \<Longrightarrow> sd_inv H (effect e s)"
  by (erule sd_inv_cong) (simp_all add: effect_def)

lemma sd_inv_timers [simp, intro]:
  "sd_inv H s \<Longrightarrow> sd_inv H (s\<lparr>emergency_timer := b\<rparr>)"
  "sd_inv H s \<Longrightarrow> sd_inv H (s\<lparr>backoff_timer := t\<rparr>)"
  "sd_inv H s \<Longrightarrow> sd_inv H (s\<lparr>posted := evs\<rparr>)"
  "sd_inv H s \<Longrightarrow> sd_inv H (s\<lparr>current_session_ll := c\<rparr>)"
  by (erule sd_inv_cong; simp)+

text \<open>Changing a session without touching its callback or arming its timer.\<close>

lemma sd_inv_session_update:
  assumes "sd_inv H s" and "callback se = callback (sessions s ! i)"
    and "discard_timer se \<longrightarrow> discard_timer (sessions s ! i) \<and>
      discard_timeout (param (fb se)) = discard_timeout (param (fb (sessions s ! i)))"
  shows "sd_inv H (s\<lparr>sessions := (sessions s)[i := se]\<rparr>)"
proof -
  let ?s = "s\<lparr>sessions := (sessions s)[i := se]\<rparr>"
  have h: "in_flight ?s = in_flight s" "held ?s = held s" by (simp_all add: in_flight_def held_def)
  have c: "cb_of ?s = cb_of s" using assms(2)
    by (cases "i < length (sessions s)") (auto simp: cb_of_def fun_eq_iff nth_list_update list_update_beyond)
  have d: "discard_timer ((sessions s)[i := se] ! j) \<Longrightarrow> discard_timer (sessions s ! j) \<and>
      discard_timeout (param (fb ((sessions s)[i := se] ! j))) = discard_timeout (param (fb (sessions s ! j)))" for j
    using assms(3) by (cases "i < length (sessions s)") (auto simp: nth_list_update list_update_beyond split: if_splits)
  show ?thesis using assms(1) d unfolding sd_inv_defs h c by auto
qed

lemma sd_inv_set_param:
  "sd_inv H s \<Longrightarrow>
     (discard_timer (sessions s ! i) \<longrightarrow> discard_timeout p = discard_timeout (param (fb (sessions s ! i)))) \<Longrightarrow>
     sd_inv H (set_session_param i p s)"
  unfolding set_session_param_def by (erule sd_inv_session_update) simp_all

lemma sd_inv_stop_discard: "sd_inv H s \<Longrightarrow> sd_inv H (stop_discard_timer i s)"
  unfolding stop_discard_timer_def by (erule sd_inv_session_update) simp_all

text \<open>A callback of a client in hand is delivered.\<close>

lemma sd_inv_call_client:
  assumes "sd_inv (add_mset cb H) s" and "\<not> is_appl cb"
  shows "sd_inv H (call_client cb status s)"
proof -
  let ?s = "call_client cb status s"
  have f: "session_memb ?s = session_memb s" "sessions ?s = sessions s" "session_list ?s = session_list s"
    "send_data_list ?s = send_data_list s" "lock ?s = lock s" "lock_ll ?s = lock_ll s"
    "current_session ?s = current_session s" "sec_held ?s = sec_held s" "accepted ?s = accepted s"
    by (simp_all add: call_client_def split: sd_callback.splits)
  have h: "in_flight ?s = in_flight s" "held ?s = held s" "cb_of ?s = cb_of s"
    by (simp_all add: f in_flight_def held_def cb_of_def fun_eq_iff)
  have "mset (map fst (called ?s)) = mset (map fst (called s)) + client_of cb"
    by (cases cb) (simp_all add: call_client_def)
  then show ?thesis using assms unfolding sd_inv_defs h f by (simp add: ac_simps)
qed

text \<open>Completion of the application session in flight.\<close>

lemma sd_owned_appl:
  assumes "sd_owned (add_mset (ApplEx i) H) s"
  shows "lock s \<and> the (current_session s) = i \<and>
    filter_mset is_appl (H + mset (sec_held s) + image_mset (cb_of s) (mset (send_data_list s))) = {#} \<and>
    \<not> is_appl (cb_of s i)"
  using assms by (auto simp: sd_owned_def in_flight_def split: if_splits)

lemma sd_inv_unlock:
  assumes inv: "sd_inv (add_mset (ApplEx i) H) s"
  shows "sd_inv (add_mset (cb_of s i) H) (release_session i (s\<lparr>lock := False\<rparr>))"
proof -
  let ?s = "release_session i (s\<lparr>lock := False\<rparr>)"
  have o: "lock s" "the (current_session s) = i" "\<not> is_appl (cb_of s i)"
    "filter_mset is_appl (H + mset (sec_held s) + image_mset (cb_of s) (mset (send_data_list s))) = {#}"
    using sd_owned_appl [of i H s] inv by (auto simp: sd_inv_def)
  have fl: "in_flight s = [i]" "in_flight ?s = []" using o by (simp_all add: in_flight_def release_session_def)
  have f: "sessions ?s = sessions s" "session_list ?s = session_list s" "send_data_list ?s = send_data_list s"
    "lock ?s = False" "lock_ll ?s = lock_ll s" "sec_held ?s = sec_held s" "accepted ?s = accepted s"
    "called ?s = called s" "session_memb ?s = snd (memb_free (session_memb s) i)"
    by (simp_all add: release_session_def)
  have c: "cb_of ?s = cb_of s" by (simp add: f cb_of_def fun_eq_iff)
  have h: "held s = held ?s @ [i]" by (simp add: held_def fl f)
  have ok: "memb_ok (session_memb s)" using inv by (simp add: sd_inv_defs)
  have "sd_shape ?s"
    using inv mb.free_ok [OF ok, of i] mb.free_used [OF ok, of i]
    by (auto simp: sd_inv_def sd_shape_def f h)
  moreover have "sd_owned (add_mset (cb_of s i) H) ?s"
    using inv o by (auto simp: sd_inv_def sd_owned_def f fl c)
  moreover have "sd_accounts (add_mset (cb_of s i) H) ?s"
    using inv by (simp add: sd_inv_def sd_accounts_def f c h ac_simps)
  ultimately show ?thesis by (simp add: sd_inv_def)
qed

lemma sd_inv_CallbackEx:
  assumes inv: "sd_inv (add_mset (ApplEx i) H) s"
  shows "sd_inv H (ZW_SendDataAppl_CallbackEx status i ticks s)"
proof -
  have l: "lock s" "\<not> is_appl (cb_of s i)" using sd_owned_appl [of i H s] inv by (auto simp: sd_inv_def)
  define s2 where "s2 = (case ticks of
      Some t \<Rightarrow> if status = TRANSMIT_COMPLETE_OK \<and> is_get_frame (fb (sessions s ! i))
        then s\<lparr>lock := False, backoff_node := dnode (param (fb (sessions s ! i))), backoff_timer := Some (ucast t * 10 + 250)\<rparr>
        else post SEND_EVENT_SEND_NEXT (s\<lparr>lock := False\<rparr>)
    | None \<Rightarrow> post SEND_EVENT_SEND_NEXT (s\<lparr>lock := False\<rparr>))"
  have e: "ZW_SendDataAppl_CallbackEx status i ticks s =
      call_client (cb_of s i) status (release_session i (zw_frame_buffer_free s2))"
    using l by (simp add: ZW_SendDataAppl_CallbackEx_def s2_def cb_of_def Let_def)
  have "sd_inv (add_mset (cb_of s i) H) (release_session i (zw_frame_buffer_free s2))"
    by (rule sd_inv_cong [OF sd_inv_unlock [OF inv]])
      (auto simp: s2_def release_session_def zw_frame_buffer_free_def post_def split: option.splits)
  then show ?thesis unfolding e using l(2) by (rule sd_inv_call_client)
qed

lemma sd_inv_run_callback: "sd_inv (add_mset cb H) s \<Longrightarrow> sd_inv H (run_callback cb status ticks s)"
  by (cases cb) (simp_all add: run_callback_def sd_inv_CallbackEx sd_inv_call_client)

text \<open>A session leaves the low-level queue; its callback comes into the hands of the operation.\<close>

lemma mset_list_remove: "distinct l \<Longrightarrow> i \<in> set l \<Longrightarrow> mset l = add_mset i (mset (list_remove l i))"
  by (induction l) auto

lemma sd_inv_low_remove:
  assumes inv: "sd_inv H s" and i: "i \<in> set (send_data_list s)"
    and ll: "ll \<longrightarrow> lock_ll s \<and> i \<noteq> hd (send_data_list s)" "lock_ll s \<and> \<not> ll \<longrightarrow> i = hd (send_data_list s)"
    and d: "\<not> discard_timer (sessions s ! i)"
  shows "sd_inv (add_mset (cb_of s i) H)
    (release_session i (s\<lparr>send_data_list := list_remove (send_data_list s) i, lock_ll := ll\<rparr>))"
proof -
  let ?s = "release_session i (s\<lparr>send_data_list := list_remove (send_data_list s) i, lock_ll := ll\<rparr>)"
  have f: "sessions ?s = sessions s" "session_list ?s = session_list s"
    "send_data_list ?s = list_remove (send_data_list s) i"
    "lock ?s = lock s" "lock_ll ?s = ll" "sec_held ?s = sec_held s" "accepted ?s = accepted s"
    "called ?s = called s" "session_memb ?s = snd (memb_free (session_memb s) i)" "in_flight ?s = in_flight s"
    "current_session ?s = current_session s"
    by (simp_all add: release_session_def in_flight_def)
  have c: "cb_of ?s = cb_of s" by (simp add: f cb_of_def fun_eq_iff)
  have sh: "memb_ok (session_memb s)" "distinct (held s)" using inv by (simp_all add: sd_inv_defs)
  then have dl: "distinct (send_data_list s)" by (simp add: held_def)
  note ml = mset_list_remove [OF dl i]
  have mh: "mset (held s) = add_mset i (mset (held ?s))" by (simp add: held_def f ml)
  have sl: "set (list_remove (send_data_list s) i) = set (send_data_list s) - {i}" by (rule set_list_remove [OF dl])
  have hd_in: "ll \<Longrightarrow> list_remove (send_data_list s) i \<noteq> [] \<and> tl (list_remove (send_data_list s) i) = list_remove (tl (send_data_list s)) i"
    using ll i by (cases "send_data_list s") auto
  have tl_eq: "lock_ll s \<and> \<not> ll \<Longrightarrow> list_remove (send_data_list s) i = tl (send_data_list s)"
    using ll(2) i by (cases "send_data_list s") auto
  have wait: "j \<in> set (if ll then tl (list_remove (send_data_list s) i) else list_remove (send_data_list s) i)"
    if "j < 8" "discard_timer (sessions s ! j)" for j
  proof -
    have "j \<noteq> i" and "j \<in> set (if lock_ll s then tl (send_data_list s) else send_data_list s)"
      using that d inv by (auto simp: sd_inv_defs)
    then show ?thesis using hd_in tl_eq ll(1) sl dl
      by (cases ll; cases "lock_ll s") (auto simp: set_list_remove distinct_tl)
  qed
  have "distinct (held ?s)" "set (held ?s) = set (held s) - {i}"
    using sh(2) distinct_list_remove [OF dl] i by (auto simp: held_def f sl)
  then have "sd_shape ?s"
    using inv wait hd_in mb.free_ok [OF sh(1), of i] mb.free_used [OF sh(1), of i]
    unfolding sd_inv_def sd_shape_def f by auto
  moreover have "sd_owned (add_mset (cb_of s i) H) ?s"
    using inv unfolding sd_inv_def sd_owned_def f c by (simp add: ml)
  moreover have "sd_accounts (add_mset (cb_of s i) H) ?s"
    using inv unfolding sd_inv_def sd_accounts_def f c mh by (simp add: ac_simps)
  ultimately show ?thesis by (simp add: sd_inv_def)
qed

lemma lock_ll_head:
  assumes "sd_inv H s" and "lock_ll s"
  obtains i rest where "send_data_list s = i # rest" "\<not> discard_timer (sessions s ! i)"
proof -
  obtain i rest where l: "send_data_list s = i # rest" using assms by (cases "send_data_list s") (auto simp: sd_inv_defs)
  have "i \<notin> set rest" "i < 8" using assms(1) mb.used_bound [of "session_memb s"]
    by (auto simp: sd_inv_defs held_def l)
  then show ?thesis using assms l by (intro that [OF l]) (auto simp: sd_inv_defs)
qed

lemma sd_inv_callback_func:
  assumes inv: "sd_inv H s"
  obtains s' where "send_data_callback_func qs status ticks s = Inr s'" "sd_inv H s'"
proof (cases "lock_ll s")
  case False
  then show ?thesis using inv by (intro that [of s]) (simp_all add: send_data_callback_func_def)
next
  case True
  obtain i rest where l: "send_data_list s = i # rest" "\<not> discard_timer (sessions s ! i)"
    using lock_ll_head [OF inv True] by blast
  define s1 where "s1 = (let s1 = s\<lparr>send_data_list := rest\<rparr>;
      s2 = (if ima_reported qs status then effect (ImaDone (dnode (param (fb (sessions s ! i)))) status) s1 else s1)
    in (release_session i (zw_frame_buffer_free (s2\<lparr>emergency_timer := False\<rparr>)))\<lparr>lock_ll := False\<rparr>)"
  have "sd_inv (add_mset (cb_of s i) H)
      (release_session i (s\<lparr>send_data_list := list_remove (send_data_list s) i, lock_ll := False\<rparr>))"
    using l by (intro sd_inv_low_remove [OF inv]) simp_all
  then have "sd_inv (add_mset (cb_of s i) H) s1"
    by (rule sd_inv_cong) (auto simp: s1_def Let_def l release_session_def zw_frame_buffer_free_def effect_def)
  then have "sd_inv H (post SEND_EVENT_SEND_NEXT_LL (run_callback (cb_of s i) status ticks s1))"
    by (intro sd_inv_post sd_inv_run_callback)
  moreover have "send_data_callback_func qs status ticks s =
      Inr (post SEND_EVENT_SEND_NEXT_LL (run_callback (cb_of s i) status ticks s1))"
    using True l by (simp add: send_data_callback_func_def s1_def Let_def cb_of_def)
  ultimately show ?thesis using that by blast
qed

lemma sd_inv_discard:
  assumes inv: "sd_inv H s" and i: "i < 8" "discard_timer (sessions s ! i)"
  shows "sd_inv H (do_discard_timeout_memb i (stop_discard_timer i s))"
proof -
  let ?s = "stop_discard_timer i s"
  have w: "i \<in> set (if lock_ll s then tl (send_data_list s) else send_data_list s)" using inv i by (auto simp: sd_inv_defs)
  have dl: "distinct (send_data_list s)" using inv by (simp add: sd_inv_defs held_def)
  have "i \<in> set (send_data_list s)" "lock_ll s \<longrightarrow> i \<noteq> hd (send_data_list s)"
    using w dl by (cases "send_data_list s"; auto split: if_splits)+
  moreover have len: "length (sessions s) = 8" using inv by (simp add: sd_inv_defs)
  ultimately have "sd_inv (add_mset (cb_of ?s i) H)
      (release_session i (?s\<lparr>send_data_list := list_remove (send_data_list ?s) i, lock_ll := lock_ll s\<rparr>))"
    using i by (intro sd_inv_low_remove sd_inv_stop_discard inv) (simp_all add: stop_discard_timer_def)
  then have "sd_inv (add_mset (cb_of ?s i) H) (release_session i (?s\<lparr>send_data_list := list_remove (send_data_list ?s) i\<rparr>))"
    by (rule sd_inv_cong) (simp_all add: release_session_def stop_discard_timer_def)
  then show ?thesis
    unfolding do_discard_timeout_memb_def Let_def cb_of_def by (rule sd_inv_run_callback)
qed

text \<open>A new session takes over a callback from the hands of the operation.\<close>

lemma alloc_fresh_session:
  assumes "sd_shape s" and "memb_alloc (session_memb s) = (Some i, pool)"
  shows "i \<notin> set (held s)" and "i < 8" and "memb_ok pool" and "length pool = 8"
    and "memb_used pool = insert i (memb_used (session_memb s))" and "\<not> discard_timer (sessions s ! i)"
proof -
  have ok: "memb_ok (session_memb s)" "length (session_memb s) = 8" "set (held s) \<subseteq> memb_used (session_memb s)"
    using assms(1) by (auto simp: sd_shape_def)
  show p: "memb_ok pool" "length pool = 8" "memb_used pool = insert i (memb_used (session_memb s))"
    using mb.alloc_ok [OF ok(1) assms(2)] mb.alloc_used [OF ok(1) assms(2)] ok(2) by simp_all
  show i: "i < 8" using mb.used_bound [OF p(1)] p by auto
  show f: "i \<notin> set (held s)" using mb.alloc_fresh [OF ok(1) assms(2)] ok(3) by blast
  then have "i \<notin> set (send_data_list s)" by (simp add: held_def)
  then have "i \<notin> set (if lock_ll s then tl (send_data_list s) else send_data_list s)"
    by (cases "send_data_list s") (auto split: if_splits)
  then show "\<not> discard_timer (sessions s ! i)" using assms(1) i by (auto simp: sd_shape_def)
qed

lemma create_param: "zw_frame_buffer_create m p dat len = Some f \<Longrightarrow> param f = p"
  by (auto simp: zw_frame_buffer_create_def split: option.splits if_splits)

lemma image_mset_upd_fresh [simp]:
  "i \<notin># M \<Longrightarrow> image_mset (f(i := x)) M = image_mset f M"
  "i \<notin># M \<Longrightarrow> image_mset (\<lambda>j. g ((f(i := x)) j)) M = image_mset (\<lambda>j. g (f j)) M"
  by (auto intro!: image_mset_cong)

lemma list_add_fresh: "i \<notin> set l \<Longrightarrow> list_add l i = l @ [i]"
  by (simp add: list_add_def)

lemma sd_inv_enqueue_ll:
  assumes inv: "sd_inv (add_mset cb H) s" and a: "memb_alloc (session_memb s) = (Some i, pool)"
    and se: "callback se = cb" "discard_timer se \<longrightarrow> discard_timeout (param (fb se)) \<noteq> 0"
  shows "sd_inv H (s\<lparr>session_memb := pool, sessions := (sessions s)[i := se], fb_live := x,
    send_data_list := list_add (send_data_list s) i\<rparr>)" (is "sd_inv H ?s")
proof -
  have sh: "sd_shape s" using inv by (simp add: sd_inv_def)
  note n = alloc_fresh_session [OF sh a]
  have ni: "i \<notin> set (session_list s)" "i \<notin> set (send_data_list s)" "i \<notin> set (in_flight s)"
    using n(1) by (simp_all add: held_def)
  have len: "length (sessions s) = 8" using sh by (simp add: sd_shape_def)
  have fl: "in_flight ?s = in_flight s" by (simp add: in_flight_def)
  have c: "cb_of ?s = (cb_of s)(i := cb)" using len n(2) se by (auto simp: cb_of_def fun_eq_iff)
  have m: "mset (held ?s) = add_mset i (mset (held s))" using ni by (simp add: held_def in_flight_def list_add_fresh)
  have d: "distinct (held ?s)" "set (held ?s) = insert i (set (held s))"
    using sh n(1) by (auto simp: sd_shape_def held_def in_flight_def list_add_fresh)
  have wait: "(lock_ll s \<longrightarrow> j \<in> set (tl (send_data_list s @ [i]))) \<and> (\<not> lock_ll s \<longrightarrow> j \<in> set (send_data_list s @ [i])) \<and>
      discard_timeout (param (fb ((sessions s)[i := se] ! j))) \<noteq> 0"
    if "j < 8" "discard_timer ((sessions s)[i := se] ! j)" for j
  proof (cases "j = i")
    case True
    have "lock_ll s \<longrightarrow> send_data_list s \<noteq> []" using sh by (simp add: sd_shape_def)
    with True show ?thesis using that(2) se(2) len n(2) by (auto simp: tl_append split: list.splits)
  next
    case False
    with that sh show ?thesis by (auto simp: sd_shape_def tl_append split: list.splits if_splits)
  qed
  have "i \<in> memb_used pool" "set (held s) \<subseteq> memb_used pool" using n sh by (auto simp: sd_shape_def)
  moreover have "\<forall>j<8. discard_timer (sessions ?s ! j) \<longrightarrow>
      j \<in> set (if lock_ll ?s then tl (send_data_list ?s) else send_data_list ?s) \<and>
      discard_timeout (param (fb (sessions ?s ! j))) \<noteq> 0"
    using wait ni by (auto simp: list_add_fresh split: if_splits)
  ultimately have "sd_shape ?s" using n d len ni unfolding sd_shape_def by (simp add: list_add_fresh)
  moreover have "sd_owned H ?s"
    using inv ni unfolding sd_inv_def sd_owned_def fl c
    by (auto simp: list_add_fresh add.commute)
  moreover have "sd_accounts H ?s"
    using inv n(1) unfolding sd_inv_def sd_accounts_def m c
    by (simp add: ac_simps fun_upd_same del: fun_upd_apply)
  ultimately show ?thesis by (simp add: sd_inv_def)
qed

lemma sd_inv_enqueue_appl:
  assumes inv: "sd_inv (add_mset cb H) s" and a: "memb_alloc (session_memb s) = (Some i, pool)"
    and se: "callback se = cb" "discard_timer se = discard_timer (sessions s ! i)" and cb: "\<not> is_appl cb"
  shows "sd_inv H (s\<lparr>session_memb := pool, sessions := (sessions s)[i := se], fb_live := x,
    session_list := list_add (session_list s) i\<rparr>)" (is "sd_inv H ?s")
proof -
  have sh: "sd_shape s" using inv by (simp add: sd_inv_def)
  note n = alloc_fresh_session [OF sh a]
  have ni: "i \<notin> set (session_list s)" "i \<notin> set (send_data_list s)" "i \<notin> set (in_flight s)"
    using n(1) by (simp_all add: held_def)
  have len: "length (sessions s) = 8" using sh by (simp add: sd_shape_def)
  have fl: "in_flight ?s = in_flight s" by (simp add: in_flight_def)
  have c: "cb_of ?s = (cb_of s)(i := cb)" using len n(2) se by (auto simp: cb_of_def fun_eq_iff)
  have m: "mset (held ?s) = add_mset i (mset (held s))" using ni by (simp add: held_def in_flight_def list_add_fresh)
  have d: "distinct (held ?s)" "set (held ?s) = insert i (set (held s))"
    using sh n(1) by (auto simp: sd_shape_def held_def in_flight_def list_add_fresh)
  have wait: "discard_timer ((sessions s)[i := se] ! j) \<Longrightarrow> j < 8 \<Longrightarrow>
      discard_timer (sessions s ! j) \<and> (sessions s)[i := se] ! j = sessions s ! j" for j
    using se(2) n(2, 6) len by (auto simp: nth_list_update split: if_splits)
  have "sd_shape ?s" using sh n d wait ni unfolding sd_shape_def by auto
  moreover have "sd_owned H ?s"
    using inv ni cb unfolding sd_inv_def sd_owned_def fl c
    by (auto simp: list_add_fresh)
  moreover have "sd_accounts H ?s"
    using inv n(1) unfolding sd_inv_def sd_accounts_def m c
    by (simp add: ac_simps fun_upd_same del: fun_upd_apply)
  ultimately show ?thesis by (simp add: sd_inv_def)
qed

lemma sd_inv_accept:
  assumes "sd_inv H s" and "\<not> is_appl cb"
  shows "sd_inv (add_mset cb H) (accept_client cb s)"
proof -
  let ?s = "accept_client cb s"
  have f: "session_memb ?s = session_memb s" "sessions ?s = sessions s" "session_list ?s = session_list s"
    "send_data_list ?s = send_data_list s" "lock ?s = lock s" "lock_ll ?s = lock_ll s"
    "current_session ?s = current_session s" "sec_held ?s = sec_held s" "called ?s = called s"
    by (simp_all add: accept_client_def split: sd_callback.splits)
  have h: "in_flight ?s = in_flight s" "held ?s = held s" "cb_of ?s = cb_of s"
    by (simp_all add: f in_flight_def held_def cb_of_def fun_eq_iff)
  have "mset (accepted ?s) = mset (accepted s) + client_of cb"
    by (cases cb) (simp_all add: accept_client_def)
  then show ?thesis using assms unfolding sd_inv_defs h f by (simp add: ac_simps)
qed

lemma sd_inv_take_block:
  assumes "sd_inv H s" and "memb_alloc (session_memb s) = (Some i, pool)"
  shows "sd_inv H (s\<lparr>session_memb := pool\<rparr>)"
proof -
  have sh: "sd_shape s" using assms by (simp add: sd_inv_def)
  note n = alloc_fresh_session [OF sh assms(2)]
  have h: "held (s\<lparr>session_memb := pool\<rparr>) = held s" "in_flight (s\<lparr>session_memb := pool\<rparr>) = in_flight s"
    "cb_of (s\<lparr>session_memb := pool\<rparr>) = cb_of s"
    by (simp_all add: held_def in_flight_def cb_of_def fun_eq_iff)
  show ?thesis using assms(1) n unfolding sd_inv_defs h by auto
qed

lemma accept_client_fields [simp]:
  "session_memb (accept_client cb s) = session_memb s" "sessions (accept_client cb s) = sessions s"
  "send_data_list (accept_client cb s) = send_data_list s" "session_list (accept_client cb s) = session_list s"
  "fb_live (accept_client cb s) = fb_live s"
  by (simp_all add: accept_client_def split: sd_callback.splits)

lemma accept_client_commute:
  "accept_client cb (s\<lparr>session_memb := a, sessions := b, fb_live := c, send_data_list := d\<rparr>) =
     (accept_client cb s)\<lparr>session_memb := a, sessions := b, fb_live := c, send_data_list := d\<rparr>"
  "accept_client cb (s\<lparr>session_memb := a, sessions := b, fb_live := c, session_list := d\<rparr>) =
     (accept_client cb s)\<lparr>session_memb := a, sessions := b, fb_live := c, session_list := d\<rparr>"
  by (cases cb; cases s; simp add: accept_client_def)+

text \<open>
  Acceptance of a request by the low-level queue, first for the completion of an application session,
  then for clients of the low-level queue.
\<close>

lemma sd_inv_send_data_appl:
  assumes "sd_inv (add_mset (ApplEx k) H) s" and "send_data env p dat len (ApplEx k) s = (r, s')"
  shows "sd_inv (if r then H else add_mset (ApplEx k) H) s'"
proof (cases "memb_alloc (session_memb s)")
  case (Pair blk pool)
  show ?thesis
  proof (cases blk)
    case None
    then show ?thesis using assms Pair by (auto simp: send_data_def)
  next
    case (Some i)
    note a = Pair [unfolded Some]
    show ?thesis
    proof (cases "zw_frame_buffer_create (mem_block env) p dat len")
      case None
      then show ?thesis using assms a sd_inv_take_block [OF assms(1) a] by (auto simp: send_data_def)
    next
      case f: (Some f)
      have "\<not> discard_timer (sessions s ! i)" using assms(1) alloc_fresh_session(6) [OF _ a] by (simp add: sd_inv_def)
      with f show ?thesis using assms(2) a create_param [OF f]
        by (auto simp: send_data_def Let_def accept_client_def intro!: sd_inv_enqueue_ll [OF assms(1) a])
    qed
  qed
qed

lemma sd_inv_send_data_client:
  assumes "sd_inv H s" and "\<not> is_appl cb" and "send_data env p dat len cb s = (r, s')"
  shows "sd_inv H s'"
proof (cases "memb_alloc (session_memb s)")
  case (Pair blk pool)
  show ?thesis
  proof (cases blk)
    case None
    then show ?thesis using assms Pair by (auto simp: send_data_def)
  next
    case (Some i)
    note a = Pair [unfolded Some]
    show ?thesis
    proof (cases "zw_frame_buffer_create (mem_block env) p dat len")
      case None
      then show ?thesis using assms a sd_inv_take_block [OF assms(1) a] by (auto simp: send_data_def)
    next
      case f: (Some f)
      let ?se = "\<lparr>fb = f, callback = cb, discard_timer = (discard_timeout p \<noteq> 0 \<or> discard_timer (sessions s ! i))\<rparr>"
      have "sd_inv H ((accept_client cb s)\<lparr>session_memb := pool, sessions := (sessions s)[i := ?se],
          fb_live := fb_live s + 1, send_data_list := list_add (send_data_list s) i\<rparr>)"
        using sd_inv_enqueue_ll [OF sd_inv_accept [OF assms(1, 2)], of i pool ?se] a create_param [OF f]
          alloc_fresh_session(6) [OF _ a] assms(1) by (simp add: sd_inv_def)
      moreover have "s' = post SEND_EVENT_SEND_NEXT_LL ((accept_client cb s)\<lparr>session_memb := pool,
          sessions := (sessions s)[i := ?se], fb_live := fb_live s + 1,
          send_data_list := list_add (send_data_list s) i\<rparr>)"
        using assms(3) a f by (auto simp: send_data_def Let_def accept_client_commute)
      ultimately show ?thesis by simp
    qed
  qed
qed

lemma sd_inv_SendDataAppl:
  assumes "sd_inv H s" and "\<not> is_appl cb" and "ZW_SendDataAppl env p dat len cb s = (r, s')"
  shows "sd_inv H s'"
proof (cases "memb_alloc (session_memb s)")
  case (Pair blk pool)
  show ?thesis
  proof (cases blk)
    case None
    then show ?thesis using assms Pair by (auto simp: ZW_SendDataAppl_def)
  next
    case (Some i)
    note a = Pair [unfolded Some]
    have sh: "sd_shape s" using assms(1) by (simp add: sd_inv_def)
    note n = alloc_fresh_session [OF sh a]
    define fo where "fo = (if dat ! 0 = 0 \<and> is_lr_node (unat (dnode p))
        then zw_frame_buffer_create (mem_block env) p [0x04, 0] 2
        else zw_frame_buffer_create (mem_block env) p dat len)"
    show ?thesis
    proof (cases fo)
      case None
      have "sd_inv H (release_session i (s\<lparr>session_memb := pool\<rparr>))"
      proof -
        let ?s = "release_session i (s\<lparr>session_memb := pool\<rparr>)"
        have h: "held ?s = held s" "in_flight ?s = in_flight s" "cb_of ?s = cb_of s"
          by (simp_all add: release_session_def held_def in_flight_def cb_of_def fun_eq_iff)
        have "memb_ok (snd (memb_free pool i))" "length (snd (memb_free pool i)) = 8"
          "memb_used (snd (memb_free pool i)) = memb_used (session_memb s)"
          using mb.free_ok [OF n(3)] n(4) mb.free_alloc_restores [OF _ a] sh by (auto simp: sd_shape_def)
        then show ?thesis using assms(1) unfolding sd_inv_defs h by (auto simp: release_session_def)
      qed
      moreover have "s' = release_session i (s\<lparr>session_memb := pool\<rparr>)"
        using assms(3) a None unfolding ZW_SendDataAppl_def fo_def [symmetric] by (simp add: Let_def)
      ultimately show ?thesis by simp
    next
      case f: (Some f)
      let ?se = "(sessions s ! i)\<lparr>fb := f, callback := cb\<rparr>"
      have "sd_inv H ((accept_client cb s)\<lparr>session_memb := pool, sessions := (sessions s)[i := ?se],
          fb_live := fb_live s + 1, session_list := list_add (session_list s) i\<rparr>)"
        using sd_inv_enqueue_appl [OF sd_inv_accept [OF assms(1, 2)], of i pool ?se] a assms(2) by simp
      moreover have "s' = post SEND_EVENT_SEND_NEXT ((accept_client cb s)\<lparr>session_memb := pool,
          sessions := (sessions s)[i := ?se], fb_live := fb_live s + 1,
          session_list := list_add (session_list s) i\<rparr>)"
        using assms(3) a f unfolding ZW_SendDataAppl_def fo_def [symmetric]
        by (auto simp: Let_def accept_client_commute)
      ultimately show ?thesis by simp
    qed
  qed
qed

lemma sd_inv_sec_send:
  assumes "sd_inv (add_mset cb H) s" and "is_appl cb" and "sec_send acc e cb s = (r, s')"
  shows "sd_inv (if r then H else add_mset cb H) s'"
proof -
  let ?s = "s\<lparr>sec_held := sec_held s @ [cb]\<rparr>"
  have h: "held ?s = held s" "in_flight ?s = in_flight s" "cb_of ?s = cb_of s"
    by (simp_all add: held_def in_flight_def cb_of_def fun_eq_iff)
  have "client_of cb = {#}" using assms(2) by (auto simp: is_appl_def)
  then have "sd_inv H ?s" using assms(1, 2) unfolding sd_inv_defs h by (auto simp: ac_simps)
  then show ?thesis using assms by (auto simp: sec_send_def split: if_splits)
qed

text \<open>The branches of \<open>send_endpoint\<close>: refusal, the low-level queue, a security layer.\<close>

lemma send_endpoint_cases:
  assumes "send_endpoint env p frame cb s = (r, p', s')"
  obtains (refused) "\<not> r" "s' = s"
  | (low) buf where "send_data env p buf (length buf) cb s = (r, s')"
  | (sec) acc e where "sec_send acc e cb s = (r, s')"
proof -
  have "\<not> r \<and> s' = s \<or> (\<exists>buf. send_data env p buf (length buf) cb s = (r, s')) \<or> (\<exists>acc e. sec_send acc e cb s = (r, s'))"
    using assms
    by (cases "ZW_SendData_scheme_select (net env) p (length frame mod 256)")
      (auto simp: send_endpoint_def Let_def split: prod.splits if_split_asm)
  then show ?thesis using refused low sec by blast
qed

lemma sec_send_fields: "sec_send acc e cb s = (r, s') \<Longrightarrow> lock s' = lock s \<and> current_session s' = current_session s"
  by (auto simp: sec_send_def effect_def split: if_splits)

lemma send_data_fields:
  "send_data env p dat len cb s = (r, s') \<Longrightarrow> lock s' = lock s \<and> current_session s' = current_session s"
  by (auto simp: send_data_def Let_def post_def accept_client_def split: prod.splits option.splits sd_callback.splits)

lemma send_endpoint_fields:
  assumes "send_endpoint env p frame cb s = (r, p', s')"
  shows "lock s' = lock s \<and> current_session s' = current_session s"
  using assms by (cases rule: send_endpoint_cases) (auto dest: sec_send_fields send_data_fields)

lemma in_flight_no_discard:
  assumes "sd_inv H s" and "lock s" and "current_session s = Some i"
  shows "\<not> discard_timer (sessions s ! i)"
proof -
  have "i < 8" using assms mb.used_bound [of "session_memb s"] by (auto simp: sd_inv_defs held_def in_flight_def)
  moreover have "i \<notin> set (if lock_ll s then tl (send_data_list s) else send_data_list s)"
    using assms by (cases "send_data_list s") (auto simp: sd_inv_defs held_def in_flight_def)
  ultimately show ?thesis using assms(1) by (auto simp: sd_inv_defs)
qed

lemma sd_inv_send_endpoint:
  assumes "sd_inv (add_mset (ApplEx k) H) s" and "send_endpoint env p frame (ApplEx k) s = (r, p', s')"
  shows "sd_inv (if r then H else add_mset (ApplEx k) H) s'"
  using assms(2)
proof (cases rule: send_endpoint_cases)
  case refused
  then show ?thesis using assms(1) by simp
next
  case low
  then show ?thesis by (rule sd_inv_send_data_appl [OF assms(1)])
next
  case sec
  then show ?thesis by (rule sd_inv_sec_send [OF assms(1) is_appl_simps(1)])
qed

lemma sd_inv_start_first:
  assumes inv: "sd_inv H s" and l: "session_list s = i # rest" and lock: "\<not> lock s"
  shows "sd_inv (add_mset (ApplEx i) H) (s\<lparr>session_list := rest, current_session := Some i, lock := True\<rparr>)"
proof -
  let ?s = "s\<lparr>session_list := rest, current_session := Some i, lock := True\<rparr>"
  have h: "held s = i # rest @ send_data_list s" "held ?s = rest @ send_data_list s @ [i]"
    "in_flight ?s = [i]" "in_flight s = []" "cb_of ?s = cb_of s"
    using l lock by (simp_all add: held_def in_flight_def cb_of_def fun_eq_iff)
  show ?thesis using inv l lock unfolding sd_inv_defs h by (auto simp: ac_simps)
qed

lemma sd_inv_send_first:
  assumes inv: "sd_inv H s" and lock: "\<not> lock s"
  shows "sd_inv H (send_first env s)"
proof (cases "session_list s")
  case Nil
  then show ?thesis using lock by (auto simp: send_first_def intro: sd_inv_cong [OF inv])
next
  case (Cons i rest)
  let ?s = "s\<lparr>session_list := rest, current_session := Some i, lock := True\<rparr>"
  let ?f = "fb (sessions s ! i)"
  obtain r p s2 where e: "send_endpoint env (param ?f) (take (frame_len ?f) (frame_data ?f)) (ApplEx i) ?s = (r, p, s2)"
    by (metis prod_cases3)
  have "sd_inv (if r then H else add_mset (ApplEx i) H) (set_session_param i p s2)"
    using in_flight_no_discard [of _ s2 i] send_endpoint_fields [OF e]
      sd_inv_send_endpoint [OF sd_inv_start_first [OF inv Cons lock] e]
    by (intro sd_inv_set_param) auto
  then show ?thesis using e by (auto simp: send_first_def Cons Let_def intro: sd_inv_CallbackEx split: if_splits)
qed

lemma sd_inv_set_lock_ll:
  assumes "sd_inv H s" and "send_data_list s = i # rest" and "\<not> discard_timer (sessions s ! i)" and "\<not> lock_ll s"
  shows "sd_inv H (s\<lparr>lock_ll := True\<rparr>)"
proof -
  let ?s = "s\<lparr>lock_ll := True\<rparr>"
  have h: "held ?s = held s" "in_flight ?s = in_flight s" "cb_of ?s = cb_of s"
    by (simp_all add: held_def in_flight_def cb_of_def fun_eq_iff)
  show ?thesis using assms unfolding sd_inv_defs h by auto
qed

lemma sd_inv_ll_transmit: "sd_inv H s \<Longrightarrow> ll_transmit env i s = (r, s') \<Longrightarrow> sd_inv H s'"
  by (auto simp: ll_transmit_def Let_def sd_inv_set_param split: if_splits)

lemma sd_inv_send_next_ll:
  assumes inv0: "sd_inv H s0"
  obtains s' where "send_next_ll env s0 = Inr s'" "sd_inv H s'"
proof -
  define s where "s = s0\<lparr>current_session_ll := list_head (send_data_list s0)\<rparr>"
  have inv: "sd_inv H s" using inv0 by (simp add: s_def)
  show ?thesis
  proof (cases "send_data_list s = [] \<or> lock_ll s")
    case True
    then have "send_next_ll env s0 = Inr s"
      by (cases "send_data_list s0") (auto simp: send_next_ll_def s_def)
    with inv that show ?thesis by blast
  next
    case False
    then obtain i rest where l: "send_data_list s = i # rest" by (cases "send_data_list s") auto
    define s1 where "s1 = (if discard_timeout (param (fb (sessions s ! i))) \<noteq> 0 then stop_discard_timer i s else s)"
    have i: "i < 8" "length (sessions s) = 8"
      using inv mb.used_bound [of "session_memb s"] by (auto simp: sd_inv_defs held_def l)
    have inv1: "sd_inv H s1" using inv by (simp add: s1_def sd_inv_stop_discard)
    have "\<not> discard_timer (sessions s1 ! i)" using inv i by (auto simp: s1_def stop_discard_timer_def sd_inv_defs)
    then have inv2: "sd_inv H (s1\<lparr>lock_ll := True\<rparr>)"
      using False l by (intro sd_inv_set_lock_ll [OF inv1]) (auto simp: s1_def stop_discard_timer_def)
    obtain r s2 where tr: "ll_transmit env i (s1\<lparr>lock_ll := True\<rparr>) = (r, s2)" by (cases "ll_transmit env i (s1\<lparr>lock_ll := True\<rparr>)")
    have inv3: "sd_inv H s2" by (rule sd_inv_ll_transmit [OF inv2 tr])
    have e: "send_next_ll env s0 =
        (if \<not> r then send_data_callback_func (get_queue_state env) TRANSMIT_COMPLETE_FAIL None s2
         else Inr ((effect (ImaStart (dnode (param (fb (sessions s ! i))))) s2)\<lparr>emergency_timer := True\<rparr>))"
      using False l tr unfolding send_next_ll_def Let_def s_def [symmetric] s1_def by simp
    show ?thesis
    proof (cases r)
      case True
      then show ?thesis using e inv3 that by simp
    next
      case False
      then show ?thesis using e sd_inv_callback_func [OF inv3] that by metis
    qed
  qed
qed

lemma sd_inv_abort:
  assumes inv: "sd_inv H s"
  shows "sd_inv H (ZW_SendDataApplAbort h s)"
proof -
  define i where "i = unat (h - 1)"
  show ?thesis
  proof (cases "h = 0 \<or> unat h > length (session_memb s) \<or> current_session s = Some i \<or> i \<notin> set (session_list s)")
    case True
    then show ?thesis using inv by (auto simp: ZW_SendDataApplAbort_def Let_def i_def)
  next
    case False
    let ?s = "release_session i (s\<lparr>session_list := list_remove (session_list s) i\<rparr>)"
    have f: "sessions ?s = sessions s" "session_list ?s = list_remove (session_list s) i"
      "send_data_list ?s = send_data_list s" "lock ?s = lock s" "lock_ll ?s = lock_ll s" "sec_held ?s = sec_held s"
      "accepted ?s = accepted s" "called ?s = called s" "session_memb ?s = snd (memb_free (session_memb s) i)"
      "in_flight ?s = in_flight s" "current_session ?s = current_session s"
      by (simp_all add: release_session_def in_flight_def)
    have c: "cb_of ?s = cb_of s" by (simp add: f cb_of_def fun_eq_iff)
    have sh: "memb_ok (session_memb s)" "distinct (held s)" using inv by (simp_all add: sd_inv_defs)
    then have dl: "distinct (session_list s)" by (simp add: held_def)
    have mh: "mset (held s) = add_mset i (mset (held ?s))"
      using mset_list_remove [OF dl, of i] False by (simp add: held_def f)
    have hs: "distinct (held ?s)" "set (held ?s) = set (held s) - {i}"
      using sh(2) distinct_list_remove [OF dl] set_list_remove [OF dl] False by (auto simp: held_def f)
    have na: "\<not> is_appl (cb_of s i)" using inv False by (auto simp: sd_inv_defs)
    have "sd_shape ?s"
      using inv hs mb.free_ok [OF sh(1), of i] mb.free_used [OF sh(1), of i] unfolding sd_inv_def sd_shape_def f by auto
    moreover have "sd_owned (add_mset (cb_of s i) H) ?s"
      using inv na set_list_remove_subset [of "session_list s" i] unfolding sd_inv_def sd_owned_def f c by auto
    moreover have "sd_accounts (add_mset (cb_of s i) H) ?s"
      using inv unfolding sd_inv_def sd_accounts_def f c mh by (simp add: ac_simps)
    ultimately have "sd_inv (add_mset (cb_of s i) H) ?s" by (simp add: sd_inv_def)
    then have "sd_inv H (call_client (cb_of s i) TRANSMIT_COMPLETE_FAIL ?s)" using na by (rule sd_inv_call_client)
    then show ?thesis using False by (simp add: ZW_SendDataApplAbort_def Let_def i_def cb_of_def)
  qed
qed

lemma sd_inv_handle_event:
  assumes "sd_inv H s"
  obtains s' where "handle_event env ev s = Inr s'" "sd_inv H s'"
proof (cases ev)
  case SEND_EVENT_SEND_NEXT
  then show ?thesis using assms that sd_inv_send_first [OF assms] by (auto simp: handle_event_def)
next
  case SEND_EVENT_SEND_NEXT_LL
  then show ?thesis using that sd_inv_send_next_ll [OF assms] by (metis handle_event_def sd_event.simps(4))
qed

lemma sd_owned_sec:
  assumes "sd_inv {#} s" and "sec_held s = us @ cb # vs"
  shows "sd_inv {#cb#} (s\<lparr>sec_held := us @ vs\<rparr>)"
proof -
  let ?s = "s\<lparr>sec_held := us @ vs\<rparr>"
  have h: "held ?s = held s" "in_flight ?s = in_flight s" "cb_of ?s = cb_of s"
    by (simp_all add: held_def in_flight_def cb_of_def fun_eq_iff)
  have "is_appl cb" using assms by (auto simp: sd_inv_defs)
  then have "client_of cb = {#}" by (auto simp: is_appl_def)
  with assms \<open>is_appl cb\<close> show ?thesis unfolding sd_inv_defs h by (auto simp: ac_simps)
qed

lemma sd_step_inv: "sd_step s s' \<Longrightarrow> sd_inv {#} s \<Longrightarrow> sd_inv {#} s'"
proof (induction rule: sd_step.induct)
  case (appl cb env p dat len s r s')
  then have "\<not> is_appl cb" by (simp add: not_appl_iff)
  from sd_inv_SendDataAppl [OF appl.prems this appl.hyps(2)] show ?case .
next
  case (low cb env p dat len s r s')
  then have "\<not> is_appl cb" by (simp add: not_appl_iff)
  from sd_inv_send_data_client [OF low.prems this low.hyps(2)] show ?case .
next
  case (abort s h)
  then show ?case by (rule sd_inv_abort)
next
  case (rx s c)
  then show ?case by (auto simp: ZW_SendDataAppl_FrameRX_Notify_def)
next
  case (event s ev evs env s')
  then show ?case using sd_inv_handle_event [of "{#}" "s\<lparr>posted := evs\<rparr>" env ev] by (metis sum.inject(2) sd_inv_timers(3))
next
  case (radio qs status ticks s s')
  then show ?case using sd_inv_callback_func by (metis sum.inject(2))
next
  case (emergency s qs s')
  then show ?case using sd_inv_callback_func [OF sd_inv_timers(1)] unfolding emergency_timeout_def by (metis sum.inject(2))
next
  case (security s us cb vs status ticks)
  then show ?case by (intro sd_inv_run_callback sd_owned_sec)
next
  case (backoff s)
  then show ?case by (auto simp: backoff_timeout_def)
next
  case (discard i s)
  moreover then have "length (sessions s) = 8" by (simp add: sd_inv_defs)
  ultimately show ?case by (intro sd_inv_discard) auto
qed

lemma sd_inv_init: "sd_inv {#} (ZW_SendDataAppl_init sd_zero)"
  by (simp add: sd_inv_defs held_def in_flight_def ZW_SendDataAppl_init_def sd_zero_def list_init_def memb_init_def
      memb_ok_def)

lemma sd_reachable_inv: "sd_reachable s \<Longrightarrow> sd_inv {#} s"
  unfolding sd_reachable_def
  by (induction rule: rtranclp_induct) (auto intro: sd_inv_init sd_step_inv)

section \<open>No lost wake-up\<close>

lemma call_client_fields [simp]:
  "session_list (call_client cb st s) = session_list s" "send_data_list (call_client cb st s) = send_data_list s"
  "lock (call_client cb st s) = lock s" "lock_ll (call_client cb st s) = lock_ll s"
  "posted (call_client cb st s) = posted s" "backoff_timer (call_client cb st s) = backoff_timer s"
  by (simp_all add: call_client_def split: sd_callback.splits)

lemma release_fields [simp]:
  "session_list (release_session i s) = session_list s" "send_data_list (release_session i s) = send_data_list s"
  "lock (release_session i s) = lock s" "lock_ll (release_session i s) = lock_ll s"
  "posted (release_session i s) = posted s" "backoff_timer (release_session i s) = backoff_timer s"
  by (simp_all add: release_session_def)

definition appl_awake :: "sd \<Rightarrow> bool" where
  "appl_awake s \<longleftrightarrow>
     (session_list s \<noteq> [] \<and> \<not> lock s \<and> backoff_timer s = None \<longrightarrow> SEND_EVENT_SEND_NEXT \<in> set (posted s))"

definition ll_awake :: "sd \<Rightarrow> bool" where
  "ll_awake s \<longleftrightarrow> (send_data_list s \<noteq> [] \<and> \<not> lock_ll s \<longrightarrow> SEND_EVENT_SEND_NEXT_LL \<in> set (posted s))"

lemmas awake_defs = appl_awake_def ll_awake_def

lemma sd_awake_iff: "sd_awake s \<longleftrightarrow> appl_awake s \<and> ll_awake s"
  by (simp add: sd_awake_def awake_defs)

lemma appl_awake_CallbackEx [intro]: "appl_awake s \<Longrightarrow> appl_awake (ZW_SendDataAppl_CallbackEx st i ticks s)"
  by (auto simp: appl_awake_def ZW_SendDataAppl_CallbackEx_def Let_def zw_frame_buffer_free_def post_def split: option.splits)

lemma appl_awake_finish: "lock s \<Longrightarrow> appl_awake (ZW_SendDataAppl_CallbackEx st i ticks s)"
  by (auto simp: appl_awake_def ZW_SendDataAppl_CallbackEx_def Let_def zw_frame_buffer_free_def post_def split: option.splits)

lemma ll_awake_CallbackEx [intro]: "ll_awake s \<Longrightarrow> ll_awake (ZW_SendDataAppl_CallbackEx st i ticks s)"
  by (auto simp: ll_awake_def ZW_SendDataAppl_CallbackEx_def Let_def zw_frame_buffer_free_def post_def split: option.splits)

lemma awake_run_callback [intro]:
  "appl_awake s \<Longrightarrow> appl_awake (run_callback cb st ticks s)"
  "ll_awake s \<Longrightarrow> ll_awake (run_callback cb st ticks s)"
  by (cases cb; simp add: run_callback_def appl_awake_CallbackEx; simp add: appl_awake_def)
    (cases cb; simp add: run_callback_def ll_awake_CallbackEx; simp add: ll_awake_def)

lemma awake_effect [simp]:
  "appl_awake (effect e s) = appl_awake s" "ll_awake (effect e s) = ll_awake s"
  by (simp_all add: awake_defs effect_def)

lemma awake_post [intro]:
  "appl_awake s \<Longrightarrow> appl_awake (post ev s)" "ll_awake s \<Longrightarrow> ll_awake (post ev s)"
  "appl_awake (post SEND_EVENT_SEND_NEXT s)" "ll_awake (post SEND_EVENT_SEND_NEXT_LL s)"
  by (auto simp: awake_defs post_def)

lemma send_data_awake:
  assumes "send_data env p dat len cb s = (r, s')"
  shows "(appl_awake s \<longrightarrow> appl_awake s') \<and> (ll_awake s \<longrightarrow> ll_awake s') \<and>
    session_list s' = session_list s \<and> lock_ll s' = lock_ll s"
  using assms
  by (auto simp: send_data_def Let_def awake_defs post_def accept_client_def
      split: prod.splits option.splits sd_callback.splits)

lemma sec_send_awake:
  assumes "sec_send acc e cb s = (r, s')"
  shows "(appl_awake s \<longrightarrow> appl_awake s') \<and> (ll_awake s \<longrightarrow> ll_awake s') \<and>
    session_list s' = session_list s \<and> lock_ll s' = lock_ll s"
  using assms by (auto simp: sec_send_def awake_defs effect_def split: if_splits)

lemma send_endpoint_awake:
  assumes "send_endpoint env p frame cb s = (r, p', s')"
  shows "(appl_awake s \<longrightarrow> appl_awake s') \<and> (ll_awake s \<longrightarrow> ll_awake s')"
  using assms by (cases rule: send_endpoint_cases) (auto dest: send_data_awake sec_send_awake)

lemma set_param_awake [simp]:
  "appl_awake (set_session_param i p s) = appl_awake s" "ll_awake (set_session_param i p s) = ll_awake s"
  "lock (set_session_param i p s) = lock s"
  by (simp_all add: set_session_param_def awake_defs)

lemma send_first_awake:
  assumes "ll_awake s"
  shows "sd_awake (send_first env s)"
proof (cases "session_list s")
  case Nil
  then show ?thesis using assms by (simp add: send_first_def sd_awake_iff awake_defs)
next
  case (Cons i rest)
  let ?s = "s\<lparr>session_list := rest, current_session := Some i, lock := True\<rparr>"
  let ?f = "fb (sessions s ! i)"
  obtain r p s2 where e: "send_endpoint env (param ?f) (take (frame_len ?f) (frame_data ?f)) (ApplEx i) ?s = (r, p, s2)"
    by (metis prod_cases3)
  have "appl_awake ?s" "ll_awake ?s" using assms by (simp_all add: awake_defs)
  then have "appl_awake s2" "ll_awake s2" using send_endpoint_awake [OF e] by simp_all
  then show ?thesis using e by (auto simp: send_first_def Cons Let_def sd_awake_iff)
qed

lemma callback_func_awake:
  assumes "send_data_callback_func qs st ticks s = Inr s'" and "appl_awake s" and "lock_ll s \<or> ll_awake s"
  shows "sd_awake s'"
proof (cases "lock_ll s")
  case True
  obtain i rest where l: "send_data_list s = i # rest"
    using assms(1) True by (cases "send_data_list s") (auto simp: send_data_callback_func_def)
  obtain s4 where s4: "s' = post SEND_EVENT_SEND_NEXT_LL (run_callback (callback (sessions s ! i)) st ticks s4)"
      "session_list s4 = session_list s" "lock s4 = lock s" "backoff_timer s4 = backoff_timer s" "posted s4 = posted s"
    using assms(1) True l
    by (auto simp: send_data_callback_func_def Let_def zw_frame_buffer_free_def effect_def split: if_splits)
  have "appl_awake s4" using assms(2) s4 by (simp add: appl_awake_def)
  then show ?thesis unfolding s4(1) sd_awake_iff by auto
next
  case False
  then show ?thesis using assms by (auto simp: send_data_callback_func_def sd_awake_iff)
qed

lemma ll_transmit_awake:
  "ll_transmit env i s = (r, s') \<Longrightarrow> (appl_awake s \<longrightarrow> appl_awake s') \<and> lock_ll s' = lock_ll s"
  by (auto simp: ll_transmit_def Let_def effect_def awake_defs set_session_param_def split: if_splits)

lemma send_next_ll_awake:
  assumes "send_next_ll env s = Inr s'" and "appl_awake s"
  shows "sd_awake s'"
proof (cases "send_data_list s = [] \<or> lock_ll s")
  case True
  then show ?thesis using assms by (cases "send_data_list s") (auto simp: send_next_ll_def sd_awake_iff awake_defs)
next
  case False
  then obtain i rest where l: "send_data_list s = i # rest" by (cases "send_data_list s") auto
  define s0 where "s0 = s\<lparr>current_session_ll := list_head (send_data_list s)\<rparr>"
  define s1 where "s1 = (if discard_timeout (param (fb (sessions s0 ! i))) \<noteq> 0 then stop_discard_timer i s0 else s0)\<lparr>lock_ll := True\<rparr>"
  obtain r s2 where tr: "ll_transmit env i s1 = (r, s2)" by (cases "ll_transmit env i s1")
  have "appl_awake s1" "lock_ll s1" using assms(2) by (simp_all add: s1_def s0_def stop_discard_timer_def appl_awake_def)
  then have s2: "appl_awake s2" "lock_ll s2" using ll_transmit_awake [OF tr] by simp_all
  have "Inr s' = (if \<not> r then send_data_callback_func (get_queue_state env) TRANSMIT_COMPLETE_FAIL None s2
         else Inr ((effect (ImaStart (dnode (param (fb (sessions s0 ! i))))) s2)\<lparr>emergency_timer := True\<rparr>))"
    using assms(1) False l tr unfolding send_next_ll_def Let_def s0_def [symmetric] s1_def by (simp add: s0_def)
  then show ?thesis using s2 callback_func_awake [of "get_queue_state env" TRANSMIT_COMPLETE_FAIL None s2 s']
    by (auto simp: sd_awake_iff awake_defs effect_def split: if_splits)
qed

lemma SendDataAppl_awake:
  assumes "ZW_SendDataAppl env p dat len cb s = (r, s')" and "sd_awake s"
  shows "sd_awake s'"
  using assms
  by (auto simp: ZW_SendDataAppl_def Let_def sd_awake_def post_def accept_client_def release_session_def
      split: prod.splits option.splits sd_callback.splits)

lemma sd_step_awake:
  assumes "sd_step s s'" and "sd_awake s"
  shows "sd_awake s'"
  using assms
proof (induction rule: sd_step.induct)
  case (appl cb env p dat len s r s')
  then show ?case using SendDataAppl_awake by blast
next
  case (low cb env p dat len s r s')
  then show ?case using send_data_awake [OF low.hyps(2)] by (simp add: sd_awake_iff)
next
  case (abort s h)
  have "list_remove (session_list s) i \<noteq> [] \<Longrightarrow> session_list s \<noteq> []" for i by auto
  with abort show ?case by (auto simp: ZW_SendDataApplAbort_def Let_def sd_awake_def effect_def)
next
  case (rx s c)
  then show ?case by (auto simp: ZW_SendDataAppl_FrameRX_Notify_def sd_awake_def post_def)
next
  case (event s ev evs env s')
  show ?case
  proof (cases ev)
    case SEND_EVENT_SEND_NEXT
    have "ll_awake (s\<lparr>posted := evs\<rparr>)" using event SEND_EVENT_SEND_NEXT by (auto simp: sd_awake_iff awake_defs)
    with event SEND_EVENT_SEND_NEXT show ?thesis
      by (auto simp: handle_event_def send_first_awake split: if_splits) (auto simp: sd_awake_iff awake_defs)
  next
    case SEND_EVENT_SEND_NEXT_LL
    have "appl_awake (s\<lparr>posted := evs\<rparr>)" using event SEND_EVENT_SEND_NEXT_LL by (auto simp: sd_awake_iff awake_defs)
    with event SEND_EVENT_SEND_NEXT_LL show ?thesis by (auto simp: handle_event_def intro: send_next_ll_awake)
  qed
next
  case (radio qs status ticks s s')
  then show ?case using callback_func_awake by (auto simp: sd_awake_iff)
next
  case (emergency s qs s')
  then show ?case unfolding emergency_timeout_def
    by (intro callback_func_awake [OF emergency.hyps(2) [unfolded emergency_timeout_def]]) (auto simp: sd_awake_iff awake_defs)
next
  case (security s us cb vs status ticks)
  then have "appl_awake (s\<lparr>sec_held := us @ vs\<rparr>)" "ll_awake (s\<lparr>sec_held := us @ vs\<rparr>)"
    by (auto simp: sd_awake_iff awake_defs)
  then show ?case by (auto simp: sd_awake_iff)
next
  case (backoff s)
  then show ?case by (auto simp: backoff_timeout_def sd_awake_def post_def)
next
  case (discard i s)
  have r: "list_remove (send_data_list s) i \<noteq> [] \<Longrightarrow> send_data_list s \<noteq> []" for i by auto
  have "appl_awake (release_session i (stop_discard_timer i s\<lparr>send_data_list := list_remove (send_data_list s) i\<rparr>))"
    "ll_awake (release_session i (stop_discard_timer i s\<lparr>send_data_list := list_remove (send_data_list s) i\<rparr>))"
    using discard r by (auto simp: sd_awake_def awake_defs stop_discard_timer_def)
  then show ?case by (auto simp: do_discard_timeout_memb_def Let_def sd_awake_iff stop_discard_timer_def)
qed

lemma sd_awake_init: "sd_awake (ZW_SendDataAppl_init sd_zero)"
  by (simp add: sd_awake_def ZW_SendDataAppl_init_def list_init_def)

lemma sd_reachable_awake: "sd_reachable s \<Longrightarrow> sd_awake s"
  unfolding sd_reachable_def
  by (induction rule: rtranclp_induct) (auto intro: sd_awake_init sd_step_awake)

section \<open>Properties of the transmission layer\<close>

definition scheme_flag :: "security_scheme \<Rightarrow> byte" where
  "scheme_flag sch =
     (case sch of SECURITY_SCHEME_2_ACCESS \<Rightarrow> NODE_FLAG_SECURITY2_ACCESS
      | SECURITY_SCHEME_2_AUTHENTICATED \<Rightarrow> NODE_FLAG_SECURITY2_AUTHENTICATED
      | SECURITY_SCHEME_2_UNAUTHENTICATED \<Rightarrow> NODE_FLAG_SECURITY2_UNAUTHENTICATED
      | SECURITY_SCHEME_0 \<Rightarrow> NODE_FLAG_SECURITY0 | _ \<Rightarrow> 0)"

definition common_scheme :: "sd_net \<Rightarrow> nodeid \<Rightarrow> security_scheme \<Rightarrow> bool" where
  "common_scheme n dst sch \<longleftrightarrow>
     GetCacheEntryFlag n dst AND scheme_flag sch \<noteq> 0 \<and> GetCacheEntryFlag n (MyNodeID n) AND scheme_flag sch \<noteq> 0"

definition bad_or_short :: "sd_net \<Rightarrow> ts_param \<Rightarrow> nat \<Rightarrow> bool" where
  "bad_or_short n p len \<longleftrightarrow> len < 2 \<or> GetCacheEntryFlag n (dnode p) AND NODE_FLAG_KNOWN_BAD \<noteq> 0 \<or>
     GetCacheEntryFlag n (MyNodeID n) AND NODE_FLAG_KNOWN_BAD \<noteq> 0"

lemma single_bit_and:
  assumes "f = (2 :: byte) ^ k" and "k < 8"
  shows "(a AND b) AND f \<noteq> 0 \<longleftrightarrow> a AND f \<noteq> 0 \<and> b AND f \<noteq> 0"
  using and_exp_eq_0_iff_not_bit [of "a AND b" k] and_exp_eq_0_iff_not_bit [of a k]
    and_exp_eq_0_iff_not_bit [of b k] assms by (simp add: bit_and_iff)

lemma common_scheme_mask:
  "common_scheme n dst sch \<longleftrightarrow> (GetCacheEntryFlag n dst AND GetCacheEntryFlag n (MyNodeID n)) AND scheme_flag sch \<noteq> 0"
  unfolding common_scheme_def scheme_flag_def
  using single_bit_and [of "0x01" 0] single_bit_and [of "0x10" 4] single_bit_and [of "0x20" 5] single_bit_and [of "0x40" 6]
  by (cases sch) (simp_all del: and.assoc)

lemma highest_scheme_maximal:
  "m AND scheme_flag sch \<noteq> 0 \<Longrightarrow> scheme_compare (highest_scheme m) sch"
  by (cases sch) (simp_all add: scheme_flag_def highest_scheme_def scheme_compare_def scheme_prio_def)

lemma highest_scheme_supported:
  "highest_scheme m = NO_SCHEME \<or> m AND scheme_flag (highest_scheme m) \<noteq> 0"
  by (simp add: highest_scheme_def scheme_flag_def)

lemma highest_scheme_none: "highest_scheme m = NO_SCHEME \<longleftrightarrow> (\<forall>sch. m AND scheme_flag sch = 0)"
proof
  assume h: "highest_scheme m = NO_SCHEME"
  show "\<forall>sch. m AND scheme_flag sch = 0"
  proof
    fix sch
    show "m AND scheme_flag sch = 0"
      using h by (cases sch) (auto simp: highest_scheme_def scheme_flag_def split: if_splits)
  qed
qed (use highest_scheme_supported [of m] in auto)

text \<open>
  C32. Selection of the security scheme. With scheme \<open>AUTO_SCHEME\<close>, and unless the frame is shorter than
  two bytes or one end is marked as known bad, the result is a scheme that both ends support and that
  is at least as strong as every other scheme both support; if there is none, the frame goes without
  security, in CRC-16 encapsulation if the destination supports it. A short frame or a known bad end is
  never given a security scheme. Any other requested scheme is taken as it is.
\<close>

theorem scheme_select_correct:
  "(bad_or_short n p len \<longrightarrow> ZW_SendData_scheme_select n p len \<in> {NO_SCHEME, USE_CRC16}) \<and>
   (\<not> bad_or_short n p len \<and> scheme p = AUTO_SCHEME \<longrightarrow>
      (if \<exists>sch. common_scheme n (dnode p) sch
       then common_scheme n (dnode p) (ZW_SendData_scheme_select n p len) \<and>
            (\<forall>sch. common_scheme n (dnode p) sch \<longrightarrow> scheme_compare (ZW_SendData_scheme_select n p len) sch)
       else ZW_SendData_scheme_select n p len =
            (if SupportsCmdClass n (dnode p) COMMAND_CLASS_CRC_16_ENCAP then USE_CRC16 else NO_SCHEME))) \<and>
   (\<not> bad_or_short n p len \<and> scheme p \<noteq> AUTO_SCHEME \<longrightarrow> ZW_SendData_scheme_select n p len = scheme p)"
proof (intro conjI impI)
  let ?m = "GetCacheEntryFlag n (dnode p) AND GetCacheEntryFlag n (MyNodeID n)"
  show "ZW_SendData_scheme_select n p len \<in> {NO_SCHEME, USE_CRC16}" if "bad_or_short n p len"
    using that by (auto simp: bad_or_short_def ZW_SendData_scheme_select_def Let_def)
  show "ZW_SendData_scheme_select n p len = scheme p" if "\<not> bad_or_short n p len \<and> scheme p \<noteq> AUTO_SCHEME"
    using that by (auto simp: bad_or_short_def ZW_SendData_scheme_select_def Let_def split: security_scheme.splits)
  assume a: "\<not> bad_or_short n p len \<and> scheme p = AUTO_SCHEME"
  then have e: "ZW_SendData_scheme_select n p len =
      (if highest_scheme ?m = NO_SCHEME \<and> SupportsCmdClass n (dnode p) COMMAND_CLASS_CRC_16_ENCAP
       then USE_CRC16 else highest_scheme ?m)"
    by (auto simp: bad_or_short_def ZW_SendData_scheme_select_def Let_def)
  have no: "highest_scheme ?m = NO_SCHEME \<longleftrightarrow> \<not> (\<exists>sch. common_scheme n (dnode p) sch)"
    by (simp add: highest_scheme_none common_scheme_mask)
  show "if \<exists>sch. common_scheme n (dnode p) sch
       then common_scheme n (dnode p) (ZW_SendData_scheme_select n p len) \<and>
            (\<forall>sch. common_scheme n (dnode p) sch \<longrightarrow> scheme_compare (ZW_SendData_scheme_select n p len) sch)
       else ZW_SendData_scheme_select n p len =
            (if SupportsCmdClass n (dnode p) COMMAND_CLASS_CRC_16_ENCAP then USE_CRC16 else NO_SCHEME)"
    using no e highest_scheme_maximal [of ?m] highest_scheme_supported [of ?m]
    by (auto simp: common_scheme_mask)
qed

text \<open>The witness: an access-control key on both ends, and a node without any key.\<close>

definition net1 :: sd_net where
  "net1 = \<lparr>MyNodeID = 1, GetCacheEntryFlag = (\<lambda>n. if n = 1 then 0x71 else if n = 5 then 0x61 else 0),
     SupportsCmdClass = (\<lambda>_ _. False)\<rparr>"

definition param1 :: "nodeid \<Rightarrow> ts_param" where
  "param1 dst = ts_set_std net1 dst
     \<lparr>snode = 0, dnode = 0, sendpoint = 0, dendpoint = 0, tx_flags = 0, rx_flags = 0, scheme = NO_SCHEME,
      node_list = [], is_mcast_with_folloup = False, force_verify_delivery = False, is_multicommand = False,
      discard_timeout = 0\<rparr>"

definition env1 :: sd_env where
  "env1 = \<lparr>net = net1, mem_block = Some (replicate 256 0), sec0_accepts = True, sec2_accepts = True,
     radio_accepts = True, transport_accepts = True, get_queue_state = QS_IDLE\<rparr>"

theorem scheme_select_correct_witness:
  "common_scheme net1 5 (ZW_SendData_scheme_select net1 (param1 5) 2) \<and>
   scheme_compare (ZW_SendData_scheme_select net1 (param1 5) 2) SECURITY_SCHEME_2_AUTHENTICATED \<and>
   ZW_SendData_scheme_select net1 (param1 6) 2 = NO_SCHEME"
proof -
  have p: "scheme (param1 d) = AUTO_SCHEME" "dnode (param1 d) = d" for d by (simp_all add: param1_def ts_set_std_def)
  have b: "\<not> bad_or_short net1 (param1 5) 2" "\<not> bad_or_short net1 (param1 6) 2"
    by (simp_all add: bad_or_short_def net1_def p)
  have c: "common_scheme net1 5 SECURITY_SCHEME_2_AUTHENTICATED"
    by (simp add: common_scheme_def net1_def scheme_flag_def)
  have d: "\<not> (\<exists>sch. common_scheme net1 6 sch)" by (simp add: common_scheme_def net1_def)
  have "\<not> SupportsCmdClass net1 6 COMMAND_CLASS_CRC_16_ENCAP" by (simp add: net1_def)
  then have "ZW_SendData_scheme_select net1 (param1 6) 2 = NO_SCHEME"
    using scheme_select_correct [of net1 "param1 6" 2] b(2) d p by auto
  moreover have "\<exists>sch. common_scheme net1 5 sch" using c by blast
  ultimately show ?thesis using scheme_select_correct [of net1 "param1 5" 2] b(1) c by (simp add: p)
qed

text \<open>
  C33. Accounting of sessions and callbacks, in every reachable state of the transmission layer: no
  session is in two queues, every queued session is allocated, and while an application transmission is
  in progress its completion is held exactly once, by the low-level queue or by a security layer, and at
  no other time. Every callback of an accepted request has been called or is still pending, each exactly
  as often as it was accepted: no completion is lost and none is delivered twice.
\<close>

theorem send_data_accounting:
  assumes "sd_reachable s"
  shows "distinct (session_list s @ send_data_list s @ in_flight s) \<and>
    set (session_list s @ send_data_list s @ in_flight s) \<subseteq> memb_used (session_memb s) \<and>
    length (session_list s @ send_data_list s @ in_flight s) \<le> 8 \<and>
    size (filter_mset is_appl (mset (sec_held s @ map (cb_of s) (send_data_list s)))) = (if lock s then 1 else 0) \<and>
    mset (accepted s) =
      mset (map fst (called s)) +
      (\<Sum>i\<in>#mset (session_list s @ send_data_list s @ in_flight s). client_of (cb_of s i))"
proof -
  note inv = sd_reachable_inv [OF assms]
  have d: "distinct (held s)" and u: "set (held s) \<subseteq> memb_used (session_memb s)"
    and ok: "memb_ok (session_memb s)" "length (session_memb s) = 8"
    using inv by (simp_all add: sd_inv_defs)
  have "length (held s) = card (set (held s))" using d by (simp add: distinct_card)
  also have "\<dots> \<le> 8"
    using card_mono [OF finite_lessThan, of "set (held s)" 8] u mb.used_bound [OF ok(1)] ok(2) by force
  finally have "length (held s) \<le> 8" .
  moreover have "size (filter_mset is_appl (mset (sec_held s @ map (cb_of s) (send_data_list s)))) = (if lock s then 1 else 0)"
    using inv by (auto simp: sd_inv_defs)
  ultimately show ?thesis using inv unfolding sd_inv_defs held_def by simp
qed

text \<open>
  C34. The error path of the low-level completion, a completion with an empty queue, is unreachable: in
  every reachable state each event of the process and each callback of the radio is handled without a
  null dereference, and a completion while nothing is in progress changes nothing.
\<close>

theorem send_data_no_null_session:
  assumes "sd_reachable s"
  shows "(\<exists>s'. handle_event env ev s = Inr s') \<and> (\<exists>s'. send_data_callback_func qs status ticks s = Inr s') \<and>
    (\<exists>s'. emergency_timeout qs s = Inr s') \<and>
    (\<not> lock_ll s \<longrightarrow> send_data_callback_func qs status ticks s = Inr s)"
proof -
  note inv = sd_reachable_inv [OF assms]
  show ?thesis
    using sd_inv_handle_event [OF inv, of env ev] sd_inv_callback_func [OF inv, of qs status ticks]
      sd_inv_callback_func [OF sd_inv_timers(1) [OF inv], of qs TRANSMIT_COMPLETE_FAIL None False]
    unfolding emergency_timeout_def by (metis send_data_callback_func_def)
qed

text \<open>
  C35. No lost wake-up: in every reachable state in which no event is pending, the application queue is
  empty unless a transmission is in progress or the back-off timer runs, and the low-level queue is empty
  unless a transmission is in progress. The event of the application queue then really starts the
  first session.
\<close>

theorem send_data_no_lost_wakeup:
  assumes "sd_reachable s"
  shows "(posted s = [] \<and> \<not> lock s \<and> backoff_timer s = None \<longrightarrow> session_list s = []) \<and>
    (posted s = [] \<and> \<not> lock_ll s \<longrightarrow> send_data_list s = []) \<and>
    (\<forall>i rest. session_list s = i # rest \<and> \<not> lock s \<and> backoff_timer s = None \<longrightarrow>
       (\<exists>s'. handle_event env SEND_EVENT_SEND_NEXT s = Inr s' \<and> current_session s' = Some i \<and>
          session_list s' = rest))"
proof (intro conjI allI impI)
  note aw = sd_reachable_awake [OF assms]
  show "session_list s = []" if "posted s = [] \<and> \<not> lock s \<and> backoff_timer s = None"
    using aw that by (auto simp: sd_awake_def)
  show "send_data_list s = []" if "posted s = [] \<and> \<not> lock_ll s"
    using aw that by (auto simp: sd_awake_def)
  fix i rest
  assume a: "session_list s = i # rest \<and> \<not> lock s \<and> backoff_timer s = None"
  let ?s = "s\<lparr>session_list := rest, current_session := Some i, lock := True\<rparr>"
  let ?f = "fb (sessions s ! i)"
  obtain r p s2 where e: "send_endpoint env (param ?f) (take (frame_len ?f) (frame_data ?f)) (ApplEx i) ?s = (r, p, s2)"
    by (metis prod_cases3)
  have "session_list s2 = rest"
    using e by (cases rule: send_endpoint_cases) (auto dest: send_data_awake sec_send_awake)
  moreover have "current_session s2 = Some i" using send_endpoint_fields [OF e] by simp
  ultimately show "\<exists>s'. handle_event env SEND_EVENT_SEND_NEXT s = Inr s' \<and> current_session s' = Some i \<and> session_list s' = rest"
    using a e
    by (auto simp: handle_event_def send_first_def Let_def set_session_param_def ZW_SendDataAppl_CallbackEx_def
        call_client_def zw_frame_buffer_free_def post_def release_session_def split: option.splits sd_callback.splits)
qed

section \<open>A transmission of a get command, step by step\<close>

text \<open>
  The states after the request, after the start of the session, after the start of the radio
  transmission and after its completion, and after a second request.
\<close>

definition run0 :: sd where "run0 = ZW_SendDataAppl_init sd_zero"

definition run1 :: sd where "run1 = snd (ZW_SendDataAppl env1 (param1 6) [0x20, 0x02] 2 (Client 7) run0)"

definition run2 :: sd where "run2 = projr (handle_event env1 SEND_EVENT_SEND_NEXT (run1\<lparr>posted := []\<rparr>))"

definition run3 :: sd where "run3 = projr (handle_event env1 SEND_EVENT_SEND_NEXT_LL (run2\<lparr>posted := []\<rparr>))"

definition run4 :: sd where "run4 = projr (send_data_callback_func QS_IDLE TRANSMIT_COMPLETE_OK (Some 1) run3)"

definition run5 :: sd where "run5 = snd (ZW_SendDataAppl env1 (param1 6) [0x25, 0x01, 0xFF] 3 (Client 8) run4)"

lemma run_posted: "posted run1 = [SEND_EVENT_SEND_NEXT] \<and> posted run2 = [SEND_EVENT_SEND_NEXT_LL]"
  by code_simp

lemma run_ok:
  "isl (handle_event env1 SEND_EVENT_SEND_NEXT (run1\<lparr>posted := []\<rparr>)) = False"
  "isl (handle_event env1 SEND_EVENT_SEND_NEXT_LL (run2\<lparr>posted := []\<rparr>)) = False"
  "isl (send_data_callback_func QS_IDLE TRANSMIT_COMPLETE_OK (Some 1) run3) = False"
  by code_simp+

lemma run1_reachable: "sd_reachable run1"
proof -
  have "sd_step run0 run1"
    by (rule sd_step.appl [of "Client 7" env1 "param1 6" "[0x20, 0x02]" 2 run0 "fst (ZW_SendDataAppl env1 (param1 6) [0x20, 0x02] 2 (Client 7) run0)"])
      (simp_all add: run1_def)
  then show ?thesis unfolding sd_reachable_def run0_def by (rule r_into_rtranclp)
qed

lemma run4_reachable: "sd_reachable run4"
proof -
  have "sd_step run1 run2"
    using run_posted run_ok(1)
    by (intro sd_step.event [of run1 SEND_EVENT_SEND_NEXT "[]" env1]) (auto simp: run2_def sum.collapse(2))
  moreover have "sd_step run2 run3"
    using run_posted run_ok(2)
    by (intro sd_step.event [of run2 SEND_EVENT_SEND_NEXT_LL "[]" env1]) (auto simp: run3_def sum.collapse(2))
  moreover have "sd_step run3 run4"
    using run_ok(3) by (intro sd_step.radio [of QS_IDLE TRANSMIT_COMPLETE_OK "Some 1"]) (auto simp: run4_def sum.collapse(2))
  ultimately show ?thesis using run1_reachable unfolding sd_reachable_def by (meson rtranclp.rtrancl_into_rtrancl)
qed

theorem send_data_accounting_witness:
  "length (session_list run4 @ send_data_list run4 @ in_flight run4) \<le> 8 \<and>
   mset (accepted run4) = mset (map fst (called run4)) +
     (\<Sum>i\<in>#mset (session_list run4 @ send_data_list run4 @ in_flight run4). client_of (cb_of run4 i)) \<and>
   called run4 = [(7, TRANSMIT_COMPLETE_OK)]"
proof -
  have "called run4 = [(7, TRANSMIT_COMPLETE_OK)]" by code_simp
  with send_data_accounting [OF run4_reachable] show ?thesis by blast
qed

theorem send_data_no_null_session_witness:
  "\<exists>s'. handle_event env1 SEND_EVENT_SEND_NEXT run1 = Inr s'"
  using send_data_no_null_session [OF run1_reachable] by blast

theorem send_data_no_lost_wakeup_witness:
  "\<exists>s'. handle_event env1 SEND_EVENT_SEND_NEXT run1 = Inr s' \<and> current_session s' = Some 0 \<and> session_list s' = []"
proof -
  have "session_list run1 = [0] \<and> \<not> lock run1 \<and> backoff_timer run1 = None" by code_simp
  then show ?thesis using send_data_no_lost_wakeup [OF run1_reachable, of env1] by blast
qed

text \<open>
  \<open>ZW_SendDataApplAbort\<close> compares with \<open>current_session\<close>, which keeps its value after the session has
  completed until the next event of the application queue. There is a reachable state in which a client
  makes a request, is given a handle, and aborts it at once, while nothing is being transmitted: the
  request stays in the queue, its callback is not called, and instead the radio is told to abort.
\<close>

lemma abort_misses_queued_request:
  "\<exists>s env p dat len n h s'. sd_reachable s \<and> ZW_SendDataAppl env p dat len (Client n) s = (h, s') \<and> h \<noteq> 0 \<and>
     \<not> lock s' \<and> \<not> lock_ll s' \<and> session_list s' \<noteq> [] \<and> n \<notin> set (map fst (called s')) \<and>
     ZW_SendDataApplAbort h s' = effect AbortEff s'"
proof -
  have r: "ZW_SendDataAppl env1 (param1 6) [0x25, 0x01, 0xFF] 3 (Client 8) run4 = (1, run5)"
  proof -
    have "fst (ZW_SendDataAppl env1 (param1 6) [0x25, 0x01, 0xFF] 3 (Client 8) run4) = 1" by code_simp
    then show ?thesis by (metis run5_def prod.collapse)
  qed
  have f: "\<not> lock run5 \<and> \<not> lock_ll run5 \<and> session_list run5 \<noteq> [] \<and> 8 \<notin> set (map fst (called run5)) \<and>
      current_session run5 = Some 0 \<and> length (session_memb run5) = 8"
    by code_simp
  then have "ZW_SendDataApplAbort 1 run5 = effect AbortEff run5" by (simp add: ZW_SendDataApplAbort_def)
  with r f run4_reachable show ?thesis by (metis one_neq_zero)
qed

text \<open>
  A frame of 252 to 255 bytes for an endpoint does not fit into a frame buffer after endpoint
  encapsulation. The low-level queue then refuses the frame, but the session it has allocated for it is
  neither in a queue nor released, and no completion refers to it: the pool of eight sessions has one
  session less.
\<close>

lemma long_endpoint_frame_leaks_session:
  assumes "sd_reachable s" and "dendpoint p \<noteq> 0" and "252 \<le> length frame" and "length frame \<le> 255"
    and "ZW_SendData_scheme_select (net env) p (length frame) = NO_SCHEME"
    and "tx_flags p AND TRANSMIT_OPTION_MULTICAST = 0"
    and "memb_alloc (session_memb s) = (Some k, pool)"
  shows "\<exists>s'. send_endpoint env p frame cb s = (False, p, s') \<and>
    k \<in> memb_used (session_memb s') \<and> k \<notin> set (session_list s' @ send_data_list s' @ in_flight s') \<and>
    Suc (memb_free_count (session_memb s')) = memb_free_count (session_memb s) \<and> posted s' = posted s"
proof (intro exI conjI)
  let ?s = "s\<lparr>session_memb := pool\<rparr>"
  have inv: "sd_shape s" using sd_reachable_inv [OF assms(1)] by (simp add: sd_inv_def)
  note n = alloc_fresh_session [OF inv assms(7)]
  have e: "endpoint_encap p frame = [0x60, 0x0D, sendpoint p, dendpoint p] @ frame"
    using assms(2) by (simp add: endpoint_encap_def)
  have m: "length frame mod 256 = length frame" using assms(4) by simp
  have c: "zw_frame_buffer_create (mem_block env) p buf len = None" if "256 \<le> len" for buf len
    using that by (auto simp: zw_frame_buffer_create_def split: option.splits)
  have "send_data env p (endpoint_encap p frame) (length (endpoint_encap p frame)) cb s = (False, ?s)"
    using assms(3, 7) c by (simp add: send_data_def e)
  then show "send_endpoint env p frame cb s = (False, p, ?s)"
    unfolding send_endpoint_def Let_def m assms(5) using assms(3, 4, 6) by (simp add: e)
  show "k \<in> memb_used (session_memb ?s)" using n(5) by simp
  show "k \<notin> set (session_list ?s @ send_data_list ?s @ in_flight ?s)" using n(1) by (simp add: held_def in_flight_def)
  show "Suc (memb_free_count (session_memb ?s)) = memb_free_count (session_memb s)"
    using memb_free_count_alloc [OF assms(7)] by simp
qed simp

lemma long_endpoint_frame_leaks_session_witness:
  "\<exists>s'. send_endpoint env1 ((param1 6)\<lparr>dendpoint := 1\<rparr>) (replicate 252 0) NoCallback run0 = (False, (param1 6)\<lparr>dendpoint := 1\<rparr>, s') \<and>
     Suc (memb_free_count (session_memb s')) = memb_free_count (session_memb run0)"
proof -
  have r: "sd_reachable run0" by (simp add: sd_reachable_def run0_def)
  have a: "fst (memb_alloc (session_memb run0)) = Some 0" by code_simp
  have s: "ZW_SendData_scheme_select (net env1) ((param1 6)\<lparr>dendpoint := 1\<rparr>) (length (replicate 252 (0 :: byte))) = NO_SCHEME"
    by (simp add: ZW_SendData_scheme_select_def env1_def net1_def param1_def ts_set_std_def highest_scheme_def)
  have m: "tx_flags ((param1 6)\<lparr>dendpoint := 1\<rparr>) AND TRANSMIT_OPTION_MULTICAST = 0"
    by (simp add: param1_def ts_set_std_def)
  have "memb_alloc (session_memb run0) = (Some 0, snd (memb_alloc (session_memb run0)))" using a by (metis prod.collapse)
  from long_endpoint_frame_leaks_session [OF r _ _ _ s m this] show ?thesis by auto
qed

end
