(* ===== verification/Send_Request.thy ===== *)
theory Send_Request
  imports Send_Data
begin

text \<open>
  Requests that wait for a reply (\<open>src/src/transport/ZW_SendRequest.c\<close>): a pool of four requests, each
  first under transmission and then waiting for the reply under a timer.

  A request is named by its index in the pool. The client's callback is a function of the model's
  operations: it gets the arguments of the call and the state of the module, and returns what the
  callback returns together with the state it leaves, because a callback may itself send requests.
  The calls are recorded in \<open>sr_calls\<close>, the accepted requests in \<open>sr_accepted\<close>, both as the pair of
  callback and user pointer; \<open>sr_sending\<close> holds the requests whose transmission has been accepted by
  \<open>ZW_SendDataAppl\<close> and not been completed. A timer is its interval while it runs. The callback stored
  in a request is never null, since \<open>ZW_SendRequest\<close> refuses a null callback.
\<close>

section \<open>State\<close>

abbreviation (input) NUM_REQS :: nat where "NUM_REQS \<equiv> 4"
abbreviation (input) ROUTING_RETRANSMISSION_DELAY :: u64 where "ROUTING_RETRANSMISSION_DELAY \<equiv> 250"

datatype req_state_t = REQ_SENDING | REQ_WAITING | REQ_DONE

record send_request_state =
  rq_param :: ts_param
  rq_state :: req_state_t
  rq_class :: byte
  rq_cmd :: byte
  rq_timeout :: u16
  rq_user :: nat
  rq_callback :: nat
  rq_timer :: "u64 option"
  round_trip_start :: u64

text \<open>A call of a client: the failure without a frame, or a reply with its flags, frame and length.\<close>

datatype sr_call = CallFail "nat \<times> nat" | CallReply "nat \<times> nat" byte buffer nat

record sr =
  reqs :: memb
  req_tab :: "send_request_state list"
  reqs_list :: "nat list"
  sr_sending :: "nat list"
  sr_accepted :: "(nat \<times> nat) list"
  sr_calls :: "(sr_call \<times> bool) list"

type_synonym sr_client = "sr_call \<Rightarrow> sr \<Rightarrow> bool \<times> sr"

definition rq_token :: "send_request_state \<Rightarrow> nat \<times> nat" where
  "rq_token r = (rq_callback r, rq_user r)"

definition set_req :: "nat \<Rightarrow> send_request_state \<Rightarrow> sr \<Rightarrow> sr" where
  "set_req i r s = s\<lparr>req_tab := (req_tab s)[i := r]\<rparr>"

definition unlink_req :: "nat \<Rightarrow> sr \<Rightarrow> sr" where
  "unlink_req i s = s\<lparr>reqs_list := list_remove (reqs_list s) i\<rparr>"

definition free_req :: "nat \<Rightarrow> sr \<Rightarrow> sr" where
  "free_req i s = s\<lparr>reqs := snd (memb_free (reqs s) i)\<rparr>"

text \<open>The call of a callback; its result is recorded with the call when it returns.\<close>

definition call_request :: "sr_client \<Rightarrow> sr_call \<Rightarrow> sr \<Rightarrow> bool \<times> sr" where
  "call_request client c s =
     (let (again, s') = client c s in (again, s'\<lparr>sr_calls := sr_calls s' @ [(c, again)]\<rparr>))"

section \<open>Operations\<close>

definition request_timeout :: "sr_client \<Rightarrow> nat \<Rightarrow> sr \<Rightarrow> sr" where
  "request_timeout client i s =
     (let r = req_tab s ! i;
          r' = r\<lparr>rq_param := (rq_param r)\<lparr>dnode := 0\<rparr>, rq_state := REQ_DONE, rq_timer := None\<rparr>;
          s' = free_req i (unlink_req i (set_req i r' s))
      in snd (call_request client (CallFail (rq_token r')) s'))"

definition round_trip_duration :: "u64 \<Rightarrow> u64 \<Rightarrow> u64" where
  "round_trip_duration start end =
     (if start < end then end - start else 10) + ROUTING_RETRANSMISSION_DELAY"

definition ZW_SendRequest_Callback :: "sr_client \<Rightarrow> u64 \<Rightarrow> tx_status \<Rightarrow> nat \<Rightarrow> sr \<Rightarrow> sr" where
  "ZW_SendRequest_Callback client clock status i s =
     (let r = req_tab s ! i; d = round_trip_duration (round_trip_start r) clock
      in if status = TRANSMIT_COMPLETE_OK \<and> rq_state r = REQ_SENDING
         then set_req i (r\<lparr>rq_state := REQ_WAITING, rq_timer := Some (ucast (rq_timeout r) * 10 + d)\<rparr>) s
         else request_timeout client i s)"

text \<open>
  The argument \<open>accepts\<close> is the result of \<open>ZW_SendDataAppl\<close>. An allocated block has its old contents,
  with the timer as the last user left it.
\<close>

definition ZW_SendRequest ::
  "sd_net \<Rightarrow> bool \<Rightarrow> u64 \<Rightarrow> ts_param \<Rightarrow> buffer \<Rightarrow> byte \<Rightarrow> u16 \<Rightarrow> nat \<Rightarrow> nat option \<Rightarrow> sr \<Rightarrow> bool \<times> sr" where
  "ZW_SendRequest nw accepts clock p pData responseCmd timeout user func s =
     (case func of None \<Rightarrow> (False, s)
      | Some cb \<Rightarrow>
          (case memb_alloc (reqs s) of
             (None, m) \<Rightarrow> (False, s\<lparr>reqs := m\<rparr>)
           | (Some i, m) \<Rightarrow>
               let r = req_tab s ! i;
                   r' = r\<lparr>rq_param := ts_param_make_reply nw (rq_param r) p, rq_state := REQ_SENDING,
                          rq_class := pData ! 0, rq_cmd := responseCmd, rq_timeout := timeout,
                          rq_user := user, rq_callback := cb, round_trip_start := clock\<rparr>;
                   s' = set_req i r' (s\<lparr>reqs := m, reqs_list := list_add (reqs_list s) i\<rparr>)
               in if accepts
                  then (True, s'\<lparr>sr_sending := sr_sending s' @ [i], sr_accepted := sr_accepted s' @ [rq_token r']\<rparr>)
                  else (False, free_req i (unlink_req i s'))))"

text \<open>
  The loop of the abort. \<open>list_remove\<close> clears the link of the request it removes, so that after a
  callback the successor is looked up in the list the callback has left: a request that is no longer
  in the list has none. The loop has no bound of its own; \<open>None\<close> means that it does not return.
\<close>

definition abort_request :: "sr_client \<Rightarrow> nat \<Rightarrow> sr \<Rightarrow> sr" where
  "abort_request client i s =
     (let r = (req_tab s ! i)\<lparr>rq_state := REQ_DONE, rq_timer := None\<rparr>;
          s' = free_req i (unlink_req i (set_req i r s))
      in snd (call_request client (CallFail (rq_token r)) s'))"

partial_function (option) abort_loop :: "sr_client \<Rightarrow> byte \<Rightarrow> nat option \<Rightarrow> sr \<Rightarrow> sr option" where
  "abort_loop client n cur s =
     (case cur of None \<Rightarrow> Some s
      | Some i \<Rightarrow>
          let r = req_tab s ! i;
              s' = (if rq_state r = REQ_WAITING \<and> snode (rq_param r) = ucast n then abort_request client i s else s)
          in abort_loop client n (list_item_next (reqs_list s') i) s')"

definition ZW_Abort_SendRequest :: "sr_client \<Rightarrow> byte \<Rightarrow> sr \<Rightarrow> sr option" where
  "ZW_Abort_SendRequest client n s = abort_loop client n (list_head (reqs_list s)) s"

definition request_matches :: "ts_param \<Rightarrow> buffer \<Rightarrow> send_request_state \<Rightarrow> bool" where
  "request_matches p pCmd r \<longleftrightarrow>
     rq_state r = REQ_WAITING \<and> ts_param_cmp (rq_param r) p \<and> rq_class r = pCmd ! 0 \<and> rq_cmd r = pCmd ! 1"

primrec find_request :: "ts_param \<Rightarrow> buffer \<Rightarrow> send_request_state list \<Rightarrow> nat list \<Rightarrow> nat option" where
  "find_request p pCmd tab [] = None"
| "find_request p pCmd tab (i # l) =
     (if request_matches p pCmd (tab ! i) then
        if scheme (rq_param (tab ! i)) \<noteq> scheme p then find_request p pCmd tab l else Some i
      else find_request p pCmd tab l)"

definition SendRequest_ApplicationCommandHandler ::
  "sr_client \<Rightarrow> ts_param \<Rightarrow> buffer \<Rightarrow> nat \<Rightarrow> sr \<Rightarrow> bool \<times> sr" where
  "SendRequest_ApplicationCommandHandler client p pCmd cmdLength s =
     (case find_request p pCmd (req_tab s) (reqs_list s) of None \<Rightarrow> (False, s)
      | Some i \<Rightarrow>
          let r = (req_tab s ! i)\<lparr>rq_state := REQ_DONE, rq_timer := None\<rparr>;
              s1 = unlink_req i (set_req i r s);
              (again, s2) = call_request client (CallReply (rq_token r) (rx_flags p) pCmd cmdLength) s1;
              r2 = req_tab s2 ! i
          in if again
             then (True, (set_req i (r2\<lparr>rq_state := REQ_WAITING, rq_timer := Some (ucast (rq_timeout r2) * 10)\<rparr>) s2)
                     \<lparr>reqs_list := list_add (reqs_list s2) i\<rparr>)
             else (True, free_req i s2))"

definition ZW_SendRequest_init :: "sr \<Rightarrow> sr" where
  "ZW_SendRequest_init s = s\<lparr>reqs := memb_init (reqs s), reqs_list := list_init\<rparr>"

section \<open>Runs\<close>

text \<open>
  A run is any sequence of calls of the module: new requests, completions of transmissions that are
  under way, timers that expire, frames received, and aborts that return. During a callback the client
  may do again whatever is a run.
\<close>

inductive sr_run :: "sr \<Rightarrow> sr \<Rightarrow> bool" where
  idle: "sr_run s s"
| send: "sr_run s t \<Longrightarrow> pData \<noteq> [] \<Longrightarrow>
    sr_run s (snd (ZW_SendRequest nw accepts clock p pData responseCmd timeout user func t))"
| completed: "sr_run s t \<Longrightarrow> \<forall>c u. sr_run u (snd (client c u)) \<Longrightarrow> i \<in> set (sr_sending t) \<Longrightarrow>
    sr_run s (ZW_SendRequest_Callback client clock status i
      (t\<lparr>sr_sending := filter (\<lambda>j. j \<noteq> i) (sr_sending t)\<rparr>))"
| expired: "sr_run s t \<Longrightarrow> \<forall>c u. sr_run u (snd (client c u)) \<Longrightarrow>
    i < length (req_tab t) \<Longrightarrow> rq_timer (req_tab t ! i) \<noteq> None \<Longrightarrow>
    sr_run s (request_timeout client i (set_req i ((req_tab t ! i)\<lparr>rq_timer := None\<rparr>) t))"
| received: "sr_run s t \<Longrightarrow> \<forall>c u. sr_run u (snd (client c u)) \<Longrightarrow>
    sr_run s (snd (SendRequest_ApplicationCommandHandler client p pCmd cmdLength t))"
| aborted: "sr_run s t \<Longrightarrow> \<forall>c u. sr_run u (snd (client c u)) \<Longrightarrow>
    ZW_Abort_SendRequest client n t = Some t' \<Longrightarrow> sr_run s t'"

definition sr_zero :: "send_request_state list \<Rightarrow> sr" where
  "sr_zero tab = \<lparr>reqs = replicate NUM_REQS 0, req_tab = tab, reqs_list = [], sr_sending = [],
     sr_accepted = [], sr_calls = []\<rparr>"

text \<open>A call is final when it reports a failure or when the client expects no further reply.\<close>

definition final_call :: "sr_call \<times> bool \<Rightarrow> bool" where
  "final_call cm = (case cm of (CallFail _, _) \<Rightarrow> True | (CallReply _ _ _ _, again) \<Rightarrow> \<not> again)"

definition call_token :: "sr_call \<times> bool \<Rightarrow> nat \<times> nat" where
  "call_token cm = (case fst cm of CallFail t \<Rightarrow> t | CallReply t _ _ _ \<Rightarrow> t)"

definition answered :: "sr \<Rightarrow> (nat \<times> nat) list" where
  "answered s = map call_token (filter final_call (sr_calls s))"

section \<open>Accounting\<close>

text \<open>
  \<open>C\<close> are the requests and \<open>T\<close> the tokens that are in a callback: a request whose reply is being
  delivered is allocated and not in the list.
\<close>

definition sr_shape :: "nat set \<Rightarrow> sr \<Rightarrow> bool" where
  "sr_shape C s \<longleftrightarrow> memb_ok (reqs s) \<and> length (reqs s) = NUM_REQS \<and> length (req_tab s) = NUM_REQS \<and>
     distinct (reqs_list s) \<and> set (reqs_list s) \<inter> C = {} \<and> memb_used (reqs s) = set (reqs_list s) \<union> C"

definition sr_owed :: "sr \<Rightarrow> bool" where
  "sr_owed s \<longleftrightarrow> distinct (sr_sending s) \<and>
     (\<forall>i. i \<in> set (sr_sending s) \<longleftrightarrow> i \<in> set (reqs_list s) \<and> rq_state (req_tab s ! i) = REQ_SENDING) \<and>
     (\<forall>i<NUM_REQS. rq_timer (req_tab s ! i) \<noteq> None \<longleftrightarrow>
        i \<in> set (reqs_list s) \<and> rq_state (req_tab s ! i) = REQ_WAITING) \<and>
     (\<forall>i\<in>set (reqs_list s). rq_state (req_tab s ! i) \<noteq> REQ_DONE)"

definition sr_balance :: "(nat \<times> nat) multiset \<Rightarrow> sr \<Rightarrow> bool" where
  "sr_balance T s \<longleftrightarrow> mset (sr_accepted s) =
     mset (answered s) + T + image_mset (\<lambda>i. rq_token (req_tab s ! i)) (mset (reqs_list s))"

definition sr_inv :: "nat set \<Rightarrow> (nat \<times> nat) multiset \<Rightarrow> sr \<Rightarrow> bool" where
  "sr_inv C T s \<longleftrightarrow> sr_shape C s \<and> sr_owed s \<and> sr_balance T s"

lemmas sr_inv_defs = sr_inv_def sr_shape_def sr_owed_def sr_balance_def

definition keeps :: "sr \<Rightarrow> sr \<Rightarrow> bool" where
  "keeps s s' \<longleftrightarrow> (\<forall>C T. sr_inv C T s \<longrightarrow> sr_inv C T s' \<and> (\<forall>i\<in>C. req_tab s' ! i = req_tab s ! i))"

lemma keeps_refl: "keeps s s"
  by (simp add: keeps_def)

lemma keeps_trans: "keeps s t \<Longrightarrow> keeps t u \<Longrightarrow> keeps s u"
  unfolding keeps_def by metis

lemma used_bound: "sr_shape C s \<Longrightarrow> i \<in> memb_used (reqs s) \<Longrightarrow> i < NUM_REQS"
  by (simp add: sr_shape_def memb_used_def)

lemma in_list_bound: "sr_shape C s \<Longrightarrow> i \<in> set (reqs_list s) \<Longrightarrow> i < NUM_REQS"
  using used_bound [of C s i] by (simp add: sr_shape_def)

lemma held_bound: "sr_shape C s \<Longrightarrow> i \<in> C \<Longrightarrow> i < NUM_REQS"
  using used_bound [of C s i] by (simp add: sr_shape_def)

lemma not_used: "m ! i = 0 \<Longrightarrow> i \<notin> memb_used m"
  by (simp add: memb_used_def)

lemma frozen_update: "i \<notin> C \<Longrightarrow> \<forall>j\<in>C. xs[i := r] ! j = xs ! j"
  by (metis nth_list_update_neq)

lemma balance_unlink:
  assumes "i \<in> set l" and "distinct l"
  shows "image_mset f (mset l) = add_mset (f i) (image_mset f (mset (list_remove l i)))"
proof -
  from assms have "mset l = add_mset i (mset (list_remove l i))" by (induction l) auto
  then show ?thesis by simp
qed

lemma image_mset_update:
  "i \<notin> set l \<Longrightarrow> image_mset (\<lambda>j. f (xs[i := x] ! j)) (mset l) = image_mset (\<lambda>j. f (xs ! j)) (mset l)"
  by (rule image_mset_cong) (metis nth_list_update_neq set_mset_mset)

lemma balance_set_req:
  "rq_token r = rq_token (xs ! i) \<Longrightarrow>
     image_mset (\<lambda>j. rq_token (xs[i := r] ! j)) M = image_mset (\<lambda>j. rq_token (xs ! j)) M"
  by (rule image_mset_cong) (metis list_update_beyond not_le_imp_less nth_list_update)

text \<open>Taking a request out of the list moves its token to the callbacks.\<close>

lemma take_out_inv:
  assumes inv: "sr_inv C T s" and i: "i \<in> set (reqs_list s)"
    and r: "rq_token r = rq_token (req_tab s ! i)" "rq_timer r = None"
  defines "s' \<equiv> unlink_req i (set_req i r (s\<lparr>sr_sending := filter (\<lambda>j. j \<noteq> i) (sr_sending s)\<rparr>))"
  shows "sr_inv (insert i C) (add_mset (rq_token r) T) s'"
proof -
  have sh: "sr_shape C s" and ow: "sr_owed s" and ba: "sr_balance T s" using inv by (simp_all add: sr_inv_def)
  have i4: "i < NUM_REQS" by (rule in_list_bound [OF sh i])
  have d: "distinct (reqs_list s)" using sh by (simp add: sr_shape_def)
  have l: "reqs_list s' = list_remove (reqs_list s) i" "req_tab s' = (req_tab s)[i := r]"
    "reqs s' = reqs s" "sr_sending s' = filter (\<lambda>j. j \<noteq> i) (sr_sending s)"
    "answered s' = answered s" "sr_accepted s' = sr_accepted s"
    by (simp_all add: s'_def unlink_req_def set_req_def answered_def)
  have "sr_shape (insert i C) s'"
    using sh i unfolding sr_shape_def l by (auto simp: set_list_remove distinct_list_remove)
  moreover have "sr_owed s'"
    using ow i i4 r(2) sh unfolding sr_owed_def l set_list_remove [OF d]
    by (auto simp: nth_list_update sr_shape_def)
  moreover have "sr_balance (add_mset (rq_token r) T) s'"
    using ba r(1) unfolding sr_balance_def l balance_set_req [OF r(1)] balance_unlink [OF i d] by simp
  ultimately show ?thesis by (simp add: sr_inv_def)
qed

lemma free_inv:
  assumes "sr_inv C T s" and "i \<in> C"
  shows "sr_inv (C - {i}) T (free_req i s)"
  using assms mb.free_used [of "reqs s" i] mb.free_ok [of "reqs s" i]
  by (auto simp: sr_inv_defs free_req_def answered_def)

lemma put_back_inv:
  assumes inv: "sr_inv C (add_mset (rq_token r) T) s" and i: "i \<in> C"
    and r: "rq_state r = REQ_WAITING" "rq_timer r \<noteq> None"
  defines "s' \<equiv> (set_req i r s)\<lparr>reqs_list := list_add (reqs_list s) i\<rparr>"
  shows "sr_inv (C - {i}) T s'"
proof -
  have sh: "sr_shape C s" and ow: "sr_owed s" and ba: "sr_balance (add_mset (rq_token r) T) s"
    using inv by (simp_all add: sr_inv_def)
  have i4: "i < NUM_REQS" by (rule held_bound [OF sh i])
  have n: "i \<notin> set (reqs_list s)" and len: "length (req_tab s) = NUM_REQS"
    using sh i by (auto simp: sr_shape_def)
  have l: "reqs_list s' = reqs_list s @ [i]" "req_tab s' = (req_tab s)[i := r]"
    "reqs s' = reqs s" "sr_sending s' = sr_sending s" "answered s' = answered s" "sr_accepted s' = sr_accepted s"
    by (simp_all add: s'_def set_req_def answered_def list_add_fresh [OF n])
  have "sr_shape (C - {i}) s'" using sh i n unfolding sr_shape_def l by auto
  moreover have "sr_owed s'" using ow n i4 r len unfolding sr_owed_def l by (auto simp: nth_list_update)
  moreover have "sr_balance T s'"
    using ba i4 len unfolding sr_balance_def l mset_append image_mset_union image_mset_update [OF n] by simp
  ultimately show ?thesis by (simp add: sr_inv_def)
qed

text \<open>
  A callback that keeps the invariant, whatever is in a callback at the same time. A final call takes
  its token from the callbacks to the answers.
\<close>

definition client_keeps :: "sr_client \<Rightarrow> bool" where
  "client_keeps client \<longleftrightarrow> (\<forall>c u. keeps u (snd (client c u)))"

lemma call_request_again: "fst (call_request client c s) = fst (client c s)"
  by (simp add: call_request_def split_beta Let_def)

lemma call_request_inv:
  assumes "client_keeps client" and inv: "sr_inv C T s"
    and T: "T = (if final_call (c, fst (client c s)) then add_mset (call_token (c, False)) T' else T')"
  shows "sr_inv C T' (snd (call_request client c s)) \<and>
         (\<forall>i\<in>C. req_tab (snd (call_request client c s)) ! i = req_tab s ! i)"
proof -
  obtain again u where c: "client c s = (again, u)" by (cases "client c s")
  have "keeps s u" using assms(1) c unfolding client_keeps_def by (metis snd_conv)
  with inv have u: "sr_inv C T u" "\<forall>i\<in>C. req_tab u ! i = req_tab s ! i" by (simp_all add: keeps_def)
  moreover have "call_token (c, again) = call_token (c, False)" by (simp add: call_token_def)
  ultimately show ?thesis
    using T by (auto simp: call_request_def c sr_inv_defs answered_def)
qed

lemma take_out_waiting:
  assumes "sr_owed s" and "rq_state (req_tab s ! i) \<noteq> REQ_SENDING"
  shows "s\<lparr>sr_sending := filter (\<lambda>j. j \<noteq> i) (sr_sending s)\<rparr> = s"
proof -
  have "filter (\<lambda>j. j \<noteq> i) (sr_sending s) = sr_sending s"
    using assms by (auto simp: sr_owed_def intro: filter_True)
  then show ?thesis by simp
qed

lemma fail_call:
  assumes cl: "client_keeps client" and inv: "sr_inv C T s" and i: "i \<in> set (reqs_list s)"
    and r: "rq_token r = rq_token (req_tab s ! i)" "rq_timer r = None"
    and s': "s' = s\<lparr>sr_sending := filter (\<lambda>j. j \<noteq> i) (sr_sending s)\<rparr>"
  shows "sr_inv C T (snd (call_request client (CallFail (rq_token r)) (free_req i (unlink_req i (set_req i r s'))))) \<and>
    (\<forall>j\<in>C. req_tab (snd (call_request client (CallFail (rq_token r)) (free_req i (unlink_req i (set_req i r s'))))) ! j
       = req_tab s ! j)"
proof -
  have n: "i \<notin> C" using inv i by (auto simp: sr_inv_def sr_shape_def)
  define u where "u = free_req i (unlink_req i (set_req i r s'))"
  have "sr_inv (insert i C - {i}) (add_mset (rq_token r) T) u"
    unfolding u_def s' by (rule free_inv [OF take_out_inv [OF inv i r]]) simp
  with n have "sr_inv C (add_mset (rq_token r) T) u" by simp
  moreover have "\<forall>j\<in>C. req_tab u ! j = req_tab s ! j"
    using n unfolding u_def s' by (simp add: free_req_def unlink_req_def set_req_def frozen_update)
  ultimately show ?thesis
    using call_request_inv [OF cl, of C _ u "CallFail (rq_token r)" T]
    unfolding u_def [symmetric] by (auto simp: final_call_def call_token_def)
qed

lemma request_timeout_keeps:
  assumes "client_keeps client" and "sr_inv C T s" and "i \<in> set (reqs_list s)"
    and "s' = s\<lparr>sr_sending := filter (\<lambda>j. j \<noteq> i) (sr_sending s)\<rparr>"
  shows "sr_inv C T (request_timeout client i s') \<and> (\<forall>j\<in>C. req_tab (request_timeout client i s') ! j = req_tab s ! j)"
  unfolding request_timeout_def Let_def
  by (rule fail_call [OF assms(1-3)]) (simp_all add: assms(4) rq_token_def)

lemma completed_keeps:
  assumes cl: "client_keeps client" and i: "i \<in> set (sr_sending t)"
  shows "keeps t (ZW_SendRequest_Callback client clock status i
           (t\<lparr>sr_sending := filter (\<lambda>j. j \<noteq> i) (sr_sending t)\<rparr>))"
  unfolding keeps_def
proof (intro allI impI)
  fix C T assume inv: "sr_inv C T t"
  define t' where "t' = t\<lparr>sr_sending := filter (\<lambda>j. j \<noteq> i) (sr_sending t)\<rparr>"
  have l: "i \<in> set (reqs_list t)" "rq_state (req_tab t ! i) = REQ_SENDING" "i < NUM_REQS" "i \<notin> C"
    using inv i by (auto simp: sr_inv_def sr_owed_def sr_shape_def memb_used_def)
  show "sr_inv C T (ZW_SendRequest_Callback client clock status i t') \<and>
      (\<forall>j\<in>C. req_tab (ZW_SendRequest_Callback client clock status i t') ! j = req_tab t ! j)"
  proof (cases "status = TRANSMIT_COMPLETE_OK")
    case False
    then show ?thesis
      using request_timeout_keeps [OF cl inv l(1) t'_def] by (simp add: ZW_SendRequest_Callback_def Let_def)
  next
    case True
    define r where "r = (req_tab t ! i)\<lparr>rq_state := REQ_WAITING, rq_timer := Some (ucast (rq_timeout (req_tab t ! i)) * 10 +
        round_trip_duration (round_trip_start (req_tab t ! i)) clock)\<rparr>"
    have e: "ZW_SendRequest_Callback client clock status i t' = set_req i r t'"
      using True l(2) by (simp add: ZW_SendRequest_Callback_def r_def t'_def Let_def)
    have "rq_token r = rq_token (req_tab t ! i)" by (simp add: r_def rq_token_def)
    then have "sr_balance T (set_req i r t')"
      using inv by (simp add: sr_inv_def sr_balance_def set_req_def t'_def answered_def balance_set_req)
    moreover have "sr_shape C (set_req i r t')"
      using inv by (simp add: sr_inv_def sr_shape_def set_req_def t'_def)
    moreover have "sr_owed (set_req i r t')"
      using inv l by (auto simp: sr_inv_def sr_owed_def sr_shape_def set_req_def t'_def r_def nth_list_update)
    ultimately show ?thesis
      unfolding e sr_inv_def using frozen_update [OF l(4)] by (simp add: set_req_def t'_def)
  qed
qed

lemma expired_keeps:
  assumes cl: "client_keeps client" and i: "i < length (req_tab t)" "rq_timer (req_tab t ! i) \<noteq> None"
  shows "keeps t (request_timeout client i (set_req i ((req_tab t ! i)\<lparr>rq_timer := None\<rparr>) t))"
  unfolding keeps_def
proof (intro allI impI)
  fix C T assume inv: "sr_inv C T t"
  have l: "i \<in> set (reqs_list t)" "rq_state (req_tab t ! i) = REQ_WAITING"
    using inv i by (auto simp: sr_inv_def sr_owed_def sr_shape_def)
  have e: "request_timeout client i (set_req i ((req_tab t ! i)\<lparr>rq_timer := None\<rparr>) t) = request_timeout client i t"
    using i(1) by (simp add: request_timeout_def set_req_def Let_def unlink_req_def free_req_def)
  have "t = t\<lparr>sr_sending := filter (\<lambda>j. j \<noteq> i) (sr_sending t)\<rparr>"
    using take_out_waiting [of t i] inv l(2) by (simp add: sr_inv_def)
  then show "sr_inv C T (request_timeout client i (set_req i ((req_tab t ! i)\<lparr>rq_timer := None\<rparr>) t)) \<and>
     (\<forall>j\<in>C. req_tab (request_timeout client i (set_req i ((req_tab t ! i)\<lparr>rq_timer := None\<rparr>) t)) ! j = req_tab t ! j)"
    unfolding e by (rule request_timeout_keeps [OF cl inv l(1)])
qed

lemma abort_request_keeps:
  assumes cl: "client_keeps client" and inv: "sr_inv C T t" and i: "i \<in> set (reqs_list t)"
    and w: "rq_state (req_tab t ! i) = REQ_WAITING"
  shows "sr_inv C T (abort_request client i t) \<and> (\<forall>j\<in>C. req_tab (abort_request client i t) ! j = req_tab t ! j)"
proof -
  have "t = t\<lparr>sr_sending := filter (\<lambda>j. j \<noteq> i) (sr_sending t)\<rparr>"
    using take_out_waiting [of t i] inv w by (simp add: sr_inv_def)
  then show ?thesis
    unfolding abort_request_def Let_def by (intro fail_call [OF cl inv i]) (simp_all add: rq_token_def)
qed

lemma abort_loop_keeps:
  assumes "abort_loop client n cur s = Some s'" and "client_keeps client"
    and "set_option cur \<subseteq> set (reqs_list s)" and "sr_inv C T s"
  shows "sr_inv C T s' \<and> (\<forall>j\<in>C. req_tab s' ! j = req_tab s ! j)"
proof -
  let ?P = "\<lambda>client (n :: byte) cur s s'. client_keeps client \<longrightarrow> set_option cur \<subseteq> set (reqs_list s) \<longrightarrow> sr_inv C T s \<longrightarrow>
      sr_inv C T s' \<and> (\<forall>j\<in>C. req_tab s' ! j = req_tab s ! j)"
  have "?P client n cur s s'"
  proof (rule abort_loop.raw_induct [OF _ assms(1), where P = ?P], intro impI)
    fix f client n cur s s'
    assume IH: "\<And>client n cur s s'. f client n cur s = Some s' \<Longrightarrow> ?P client n cur s s'"
      and body: "(case cur of None \<Rightarrow> Some s
        | Some i \<Rightarrow> let r = req_tab s ! i;
              u = (if rq_state r = REQ_WAITING \<and> snode (rq_param r) = ucast n then abort_request client i s else s)
          in f client n (list_item_next (reqs_list u) i) u) = Some s'"
      and cl: "client_keeps client" and cur: "set_option cur \<subseteq> set (reqs_list s)" and inv: "sr_inv C T s"
    show "sr_inv C T s' \<and> (\<forall>j\<in>C. req_tab s' ! j = req_tab s ! j)"
    proof (cases cur)
      case None
      with body inv show ?thesis by simp
    next
      case (Some i)
      define u where "u = (if rq_state (req_tab s ! i) = REQ_WAITING \<and> snode (rq_param (req_tab s ! i)) = ucast n
          then abort_request client i s else s)"
      have u: "sr_inv C T u \<and> (\<forall>j\<in>C. req_tab u ! j = req_tab s ! j)"
        using abort_request_keeps [OF cl inv, of i] cur inv Some by (simp add: u_def)
      have f: "f client n (list_item_next (reqs_list u) i) u = Some s'"
        using body Some by (simp add: u_def Let_def)
      have "set_option (list_item_next (reqs_list u) i) \<subseteq> set (reqs_list u)"
        by (auto dest: list_item_next_in)
      with IH [OF f] u cl show ?thesis by simp
    qed
  qed
  then show ?thesis using assms by simp
qed

lemma aborted_keeps:
  assumes "client_keeps client" and "ZW_Abort_SendRequest client n t = Some t'"
  shows "keeps t t'"
proof -
  have "set_option (list_head (reqs_list t)) \<subseteq> set (reqs_list t)" by (auto dest: list_head_Some_in)
  with abort_loop_keeps [OF assms(2) [unfolded ZW_Abort_SendRequest_def] assms(1)]
  show ?thesis unfolding keeps_def by simp
qed

lemma find_request_matches:
  "find_request p pCmd tab l = Some i \<Longrightarrow>
     i \<in> set l \<and> request_matches p pCmd (tab ! i) \<and> scheme (rq_param (tab ! i)) = scheme p"
  by (induction l) (auto split: if_splits)

lemma received_keeps:
  assumes cl: "client_keeps client"
  shows "keeps t (snd (SendRequest_ApplicationCommandHandler client p pCmd cmdLength t))"
proof (cases "find_request p pCmd (req_tab t) (reqs_list t)")
  case None
  then show ?thesis by (simp add: SendRequest_ApplicationCommandHandler_def keeps_refl)
next
  case (Some i)
  note m = find_request_matches [OF Some]
  show ?thesis unfolding keeps_def
  proof (intro allI impI)
    fix C T assume inv: "sr_inv C T t"
    define r where "r = (req_tab t ! i)\<lparr>rq_state := REQ_DONE, rq_timer := None\<rparr>"
    define c where "c = CallReply (rq_token r) (rx_flags p) pCmd cmdLength"
    define s1 where "s1 = unlink_req i (set_req i r t)"
    obtain again s2 where call: "call_request client c s1 = (again, s2)" by (cases "call_request client c s1")
    define r2 where "r2 = (req_tab s2 ! i)\<lparr>rq_state := REQ_WAITING, rq_timer := Some (ucast (rq_timeout (req_tab s2 ! i)) * 10)\<rparr>"
    have h: "snd (SendRequest_ApplicationCommandHandler client p pCmd cmdLength t) =
        (if again then (set_req i r2 s2)\<lparr>reqs_list := list_add (reqs_list s2) i\<rparr> else free_req i s2)"
      using call by (simp add: SendRequest_ApplicationCommandHandler_def Some Let_def r_def c_def s1_def r2_def)
    have i: "i \<in> set (reqs_list t)" "rq_state (req_tab t ! i) = REQ_WAITING" using m by (simp_all add: request_matches_def)
    have n: "i \<notin> C" and i4: "i < length (req_tab t)"
      using inv in_list_bound [OF _ i(1), of C] i(1) by (auto simp: sr_inv_def sr_shape_def)
    have "t = t\<lparr>sr_sending := filter (\<lambda>j. j \<noteq> i) (sr_sending t)\<rparr>"
      using take_out_waiting [of t i] inv i(2) by (simp add: sr_inv_def)
    then have s1: "sr_inv (insert i C) (add_mset (rq_token r) T) s1"
      using take_out_inv [OF inv i(1), of r] by (simp add: s1_def r_def rq_token_def)
    have t1: "req_tab s1 = (req_tab t)[i := r]" by (simp add: s1_def unlink_req_def set_req_def)
    have s2: "sr_inv (insert i C) (if again then add_mset (rq_token r) T else T) s2"
      and t2: "\<forall>j\<in>insert i C. req_tab s2 ! j = req_tab s1 ! j"
      using call_request_inv [OF cl s1, of c "if again then add_mset (rq_token r) T else T"] call
        call_request_again [of client c s1] by (auto simp: final_call_def call_token_def c_def)
    have "rq_token r2 = rq_token r" using t2 t1 i4 by (simp add: r2_def rq_token_def)
    then have "sr_inv (insert i C - {i}) T (snd (SendRequest_ApplicationCommandHandler client p pCmd cmdLength t))"
      using put_back_inv [of "insert i C" r2 T s2 i] free_inv [of "insert i C" T s2 i] s2 unfolding h
      by (cases again) (simp_all add: r2_def)
    moreover have "\<forall>j\<in>C. req_tab (snd (SendRequest_ApplicationCommandHandler client p pCmd cmdLength t)) ! j = req_tab t ! j"
      using t2 frozen_update [OF n, of "req_tab t" r] frozen_update [OF n, of "req_tab s2" r2] unfolding h t1
      by (simp add: set_req_def free_req_def)
    ultimately show "sr_inv C T (snd (SendRequest_ApplicationCommandHandler client p pCmd cmdLength t)) \<and>
      (\<forall>j\<in>C. req_tab (snd (SendRequest_ApplicationCommandHandler client p pCmd cmdLength t)) ! j = req_tab t ! j)"
      using n by simp
  qed
qed

lemma send_keeps:
  "keeps t (snd (ZW_SendRequest nw accepts clock p pData responseCmd timeout user func t))"
proof (cases func)
  case None
  then show ?thesis by (simp add: ZW_SendRequest_def keeps_refl)
next
  case (Some cb)
  show ?thesis
  proof (cases "reqs t" rule: memb_alloc_cases)
    case full
    then show ?thesis using Some by (simp add: ZW_SendRequest_def keeps_refl)
  next
    case (block i)
    define r where "r = (req_tab t ! i)\<lparr>rq_param := ts_param_make_reply nw (rq_param (req_tab t ! i)) p, rq_state := REQ_SENDING,
        rq_class := pData ! 0, rq_cmd := responseCmd, rq_timeout := timeout,
        rq_user := user, rq_callback := cb, round_trip_start := clock\<rparr>"
    define u where "u = set_req i r (t\<lparr>reqs := (reqs t)[i := 1], reqs_list := list_add (reqs_list t) i\<rparr>)"
    define v where "v = u\<lparr>sr_sending := sr_sending u @ [i], sr_accepted := sr_accepted u @ [rq_token r]\<rparr>"
    define w where "w = free_req i (unlink_req i u)"
    have e: "snd (ZW_SendRequest nw accepts clock p pData responseCmd timeout user func t) = (if accepts then v else w)"
      using Some block(1) by (simp add: ZW_SendRequest_def r_def u_def v_def w_def Let_def)
    show ?thesis unfolding keeps_def e
    proof (intro allI impI)
      fix C T assume inv: "sr_inv C T t"
      have sh: "sr_shape C t" and ow: "sr_owed t" and ba: "sr_balance T t" using inv by (simp_all add: sr_inv_def)
      have n: "i \<notin> set (reqs_list t)" "i \<notin> C" "i < NUM_REQS" and len: "length (req_tab t) = NUM_REQS"
        using sh block(2,3) not_used [OF block(3)] by (simp_all add: sr_shape_def)
      have d: "distinct (reqs_list t)" using sh by (simp add: sr_shape_def)
      have tm: "rq_timer (req_tab t ! i) = None" using ow n by (auto simp: sr_owed_def)
      have "reqs u = (reqs t)[i := 1]" "memb_ok (reqs u)" "memb_used (reqs u) = insert i (memb_used (reqs t))"
        using mb.alloc_used [of "reqs t" i] mb.alloc_ok [of "reqs t"] sh block(1)
        by (auto simp: u_def set_req_def sr_shape_def)
      note m = this
      have v: "sr_inv C T v"
      proof -
        have "sr_shape C v" using sh n m(2,3) m(1)
          by (auto simp: sr_shape_def v_def u_def set_req_def list_add_fresh)
        moreover have "sr_owed v" using ow n len tm
          by (auto simp: sr_owed_def v_def u_def set_req_def list_add_fresh nth_list_update r_def)
        moreover have "sr_balance T v" using ba n len
          by (simp add: sr_balance_def v_def u_def set_req_def list_add_fresh answered_def image_mset_update)
        ultimately show ?thesis by (simp add: sr_inv_def)
      qed
      have w: "sr_inv C T w"
      proof -
        have f: "reqs w = snd (memb_free (reqs u) i)" "reqs_list w = reqs_list t" "req_tab w = (req_tab t)[i := r]"
          "sr_sending w = sr_sending t" "answered w = answered t" "sr_accepted w = sr_accepted t"
          using n cl.remove_add_fresh [OF d n(1)] by (simp_all add: w_def free_req_def unlink_req_def u_def set_req_def answered_def)
        have "sr_shape C w"
          using sh n m mb.free_used [OF m(2), of i] mb.free_ok [OF m(2), of i] unfolding sr_shape_def f by auto
        moreover have "sr_owed w" using ow n len tm unfolding sr_owed_def f by (auto simp: nth_list_update r_def)
        moreover have "sr_balance T w" using ba n unfolding sr_balance_def f by (simp add: image_mset_update)
        ultimately show ?thesis by (simp add: sr_inv_def)
      qed
      have "\<forall>j\<in>C. req_tab (if accepts then v else w) ! j = req_tab t ! j"
        using frozen_update [OF n(2)] by (simp add: v_def w_def u_def set_req_def free_req_def unlink_req_def)
      with v w show "sr_inv C T (if accepts then v else w) \<and>
        (\<forall>j\<in>C. req_tab (if accepts then v else w) ! j = req_tab t ! j)" by simp
    qed
  qed
qed

lemma sr_run_keeps: "sr_run s t \<Longrightarrow> keeps s t"
proof (induction rule: sr_run.induct)
  case (idle s)
  show ?case by (rule keeps_refl)
next
  case (send s t)
  show ?case by (rule keeps_trans [OF send.IH send_keeps])
next
  case (completed s t client i)
  then have "client_keeps client" by (simp add: client_keeps_def)
  then show ?case by (rule keeps_trans [OF completed.IH(1) completed_keeps [OF _ completed.hyps(2)]])
next
  case (expired s t client i)
  then have "client_keeps client" by (simp add: client_keeps_def)
  then show ?case by (rule keeps_trans [OF expired.IH(1) expired_keeps [OF _ expired.hyps(2,3)]])
next
  case (received s t client)
  then have "client_keeps client" by (simp add: client_keeps_def)
  then show ?case by (rule keeps_trans [OF received.IH(1) received_keeps])
next
  case (aborted s t client n t')
  then have "client_keeps client" by (simp add: client_keeps_def)
  then show ?case by (rule keeps_trans [OF aborted.IH(1) aborted_keeps [OF _ aborted.hyps(2)]])
qed

lemma sr_zero_inv:
  assumes "length tab = NUM_REQS" and "\<forall>r\<in>set tab. rq_timer r = None"
  shows "sr_inv {} {#} (sr_zero tab)"
  using assms by (auto simp: sr_inv_defs sr_zero_def answered_def memb_ok_def memb_used_def nth_Cons' numeral_eq_Suc)

section \<open>Abort\<close>

definition aborts :: "byte \<Rightarrow> send_request_state \<Rightarrow> bool" where
  "aborts n r \<longleftrightarrow> rq_state r = REQ_WAITING \<and> snode (rq_param r) = ucast n"

lemma abort_loop_skip:
  assumes "reqs_list s = zs @ xs @ ys" and "distinct (reqs_list s)" and "\<forall>j\<in>set xs. \<not> aborts n (req_tab s ! j)"
  shows "abort_loop client n (list_head (xs @ ys)) s = abort_loop client n (list_head ys) s"
  using assms
proof (induction xs arbitrary: zs)
  case (Cons x xs)
  have "list_item_next (reqs_list s) x = list_head (xs @ ys)"
    using Cons.prems(1,2) by (simp add: list_item_next_split)
  then have "abort_loop client n (list_head ((x # xs) @ ys)) s = abort_loop client n (list_head (xs @ ys)) s"
    using Cons.prems(3) by (subst abort_loop.simps) (auto simp: aborts_def Let_def)
  also have "\<dots> = abort_loop client n (list_head ys) s"
    using Cons.prems by (intro Cons.IH [of "zs @ [x]"]) simp_all
  finally show ?case .
qed simp

lemma list_item_next_notin: "i \<notin> set l \<Longrightarrow> list_item_next l i = None"
  by (induction l) auto

lemma abort_none: "abort_loop client n None s = Some s"
  by (subst abort_loop.simps) simp

lemma abort_request_list: "reqs_list (abort_request (\<lambda>c u. (b, u)) i s) = list_remove (reqs_list s) i"
  by (simp add: abort_request_def call_request_def unlink_req_def set_req_def free_req_def Let_def)

lemma abort_quiet_none:
  assumes "distinct (reqs_list s)" and "\<forall>j\<in>set (reqs_list s). \<not> aborts n (req_tab s ! j)"
  shows "ZW_Abort_SendRequest client n s = Some s"
  using abort_loop_skip [of s "[]" "reqs_list s" "[]" n client] assms
  by (simp add: ZW_Abort_SendRequest_def abort_none)

lemma abort_quiet_first:
  assumes l: "reqs_list s = xs @ i # ys" and d: "distinct (reqs_list s)"
    and xs: "\<forall>j\<in>set xs. \<not> aborts n (req_tab s ! j)" and i: "aborts n (req_tab s ! i)"
  shows "ZW_Abort_SendRequest (\<lambda>c u. (b, u)) n s = Some (abort_request (\<lambda>c u. (b, u)) i s)"
proof -
  have "list_item_next (list_remove (reqs_list s) i) i = None"
    using d by (simp add: list_item_next_notin set_list_remove)
  then have "abort_loop (\<lambda>c u. (b, u)) n (list_head (i # ys)) s = Some (abort_request (\<lambda>c u. (b, u)) i s)"
    using i by (subst abort_loop.simps) (simp add: aborts_def Let_def abort_request_list abort_none)
  then show ?thesis
    using abort_loop_skip [of s "[]" xs "i # ys" n] l d xs by (simp add: ZW_Abort_SendRequest_def)
qed

text \<open>
  With callbacks that leave the module alone the abort returns, and of the requests that wait for a
  reply of the node it ends the first one only.
\<close>

lemma abort_ends_first_only:
  assumes inv: "sr_inv C T s"
  shows "\<exists>s'. ZW_Abort_SendRequest (\<lambda>c u. (b, u)) n s = Some s' \<and>
           filter (\<lambda>i. aborts n (req_tab s' ! i)) (reqs_list s') = tl (filter (\<lambda>i. aborts n (req_tab s ! i)) (reqs_list s))"
proof (cases "\<exists>j\<in>set (reqs_list s). aborts n (req_tab s ! j)")
  case False
  with inv show ?thesis
    using abort_quiet_none [of s n] by (simp add: sr_inv_def sr_shape_def filter_empty_conv)
next
  case True
  then obtain xs i ys where l: "reqs_list s = xs @ i # ys" "\<forall>j\<in>set xs. \<not> aborts n (req_tab s ! j)" "aborts n (req_tab s ! i)"
    using split_list_first_prop [of "reqs_list s" "\<lambda>j. aborts n (req_tab s ! j)"] by blast
  have d: "distinct (reqs_list s)" using inv by (simp add: sr_inv_def sr_shape_def)
  define s' where "s' = abort_request (\<lambda>c u. (b, u)) i s"
  have t: "req_tab s' ! j = req_tab s ! j" if "j \<noteq> i" for j
    using that by (simp add: s'_def abort_request_def call_request_def unlink_req_def set_req_def free_req_def Let_def)
  have "filter (\<lambda>y. y \<noteq> i) xs = xs" "filter (\<lambda>y. y \<noteq> i) ys = ys" using l(1) d by (auto simp: filter_id_conv)
  then have "reqs_list s' = xs @ ys" using l(1) d by (simp add: s'_def abort_request_list list_remove_filter)
  moreover have "i \<notin> set (xs @ ys)" using l(1) d by auto
  ultimately have "filter (\<lambda>j. aborts n (req_tab s' ! j)) (reqs_list s') = filter (\<lambda>j. aborts n (req_tab s ! j)) (xs @ ys)"
    using t by (metis (mono_tags, lifting) filter_cong)
  also have "\<dots> = tl (filter (\<lambda>j. aborts n (req_tab s ! j)) (reqs_list s))" using l by simp
  finally show ?thesis using abort_quiet_first [OF l(1) d l(2,3)] by (simp add: s'_def)
qed

section \<open>Properties\<close>

text \<open>
  C23. Every request is answered exactly once. In every run of the module, with clients that may send
  and abort requests and receive replies within their callbacks, the accepted requests are the
  requests that have got their final call, a failure or a reply after which the client expects no
  more, together with those in the list, each once. Each request in the list waits either for the completion
  of its transmission or for a timer that runs, and the blocks of all others are free.
\<close>

theorem send_request_exactly_one_final_call:
  assumes "length tab = NUM_REQS" and "\<forall>r\<in>set tab. rq_timer r = None" and "sr_run (sr_zero tab) s"
  shows "mset (sr_accepted s) =
           mset (answered s) + image_mset (\<lambda>i. rq_token (req_tab s ! i)) (mset (reqs_list s)) \<and>
         (\<forall>i\<in>set (reqs_list s).
            rq_state (req_tab s ! i) = REQ_SENDING \<and> i \<in> set (sr_sending s) \<or>
            rq_state (req_tab s ! i) = REQ_WAITING \<and> rq_timer (req_tab s ! i) \<noteq> None) \<and>
         distinct (reqs_list s) \<and> memb_used (reqs s) = set (reqs_list s)"
proof -
  have inv: "sr_inv {} {#} s"
    using sr_run_keeps [OF assms(3)] sr_zero_inv [OF assms(1,2)] by (simp add: keeps_def)
  have "rq_state (req_tab s ! i) = REQ_SENDING \<and> i \<in> set (sr_sending s) \<or>
      rq_state (req_tab s ! i) = REQ_WAITING \<and> rq_timer (req_tab s ! i) \<noteq> None" if "i \<in> set (reqs_list s)" for i
    using inv that in_list_bound [of "{}" s i] by (cases "rq_state (req_tab s ! i)") (auto simp: sr_inv_def sr_owed_def)
  with inv show ?thesis by (simp add: sr_inv_defs)
qed

definition req0 :: send_request_state where
  "req0 = \<lparr>rq_param = param1 0, rq_state = REQ_DONE, rq_class = 0, rq_cmd = 0, rq_timeout = 0, rq_user = 0,
     rq_callback = 0, rq_timer = None, round_trip_start = 0\<rparr>"

definition sr1 :: sr where
  "sr1 = snd (ZW_SendRequest net1 True 100 (param1 6) [0x20, 0x02] 0x03 50 7 (Some 9) (sr_zero (replicate 4 req0)))"

definition sr2 :: sr where
  "sr2 = ZW_SendRequest_Callback (\<lambda>c u. (False, u)) 180 TRANSMIT_COMPLETE_OK 0 (sr1\<lparr>sr_sending := []\<rparr>)"

definition sr3 :: sr where
  "sr3 = snd (SendRequest_ApplicationCommandHandler (\<lambda>c u. (False, u))
     (ts_param_make_reply net1 (param1 0) (param1 6)) [0x20, 0x03, 0xFF] 3 sr2)"

lemma sr1_value:
  "sr1 = \<lparr>reqs = [1, 0, 0, 0], req_tab = [req0\<lparr>rq_param := ts_param_make_reply net1 (param1 0) (param1 6),
     rq_state := REQ_SENDING, rq_class := 0x20, rq_cmd := 0x03, rq_timeout := 50, rq_user := 7, rq_callback := 9,
     round_trip_start := 100\<rparr>, req0, req0, req0], reqs_list = [0], sr_sending = [0], sr_accepted = [(9, 7)], sr_calls = []\<rparr>"
  by (simp add: sr1_def ZW_SendRequest_def sr_zero_def memb_alloc_def find_index_def numeral_eq_Suc set_req_def
      list_add_def req0_def rq_token_def Let_def)

lemma sr2_value:
  "sr2 = sr1\<lparr>sr_sending := [], req_tab := (req_tab sr1)[0 := (req_tab sr1 ! 0)\<lparr>rq_state := REQ_WAITING, rq_timer := Some 830\<rparr>]\<rparr>"
  by (simp add: sr2_def sr1_value ZW_SendRequest_Callback_def set_req_def round_trip_duration_def req0_def)

lemma sr3_value:
  "reqs_list sr3 = []" "reqs sr3 = [0, 0, 0, 0]" "sr_accepted sr3 = [(9, 7)]" "answered sr3 = [(9, 7)]"
  by (simp_all add: sr3_def sr2_value sr1_value SendRequest_ApplicationCommandHandler_def request_matches_def req0_def
      ts_param_cmp_def call_request_def unlink_req_def set_req_def free_req_def memb_free_def rq_token_def
      answered_def final_call_def call_token_def Let_def)

lemma sr_run_sr3: "sr_run (sr_zero (replicate 4 req0)) sr3"
proof -
  have quiet: "\<forall>c u. sr_run u (snd ((\<lambda>c u. (False, u)) (c :: sr_call) u))" by (simp add: sr_run.idle)
  have "sr_run (sr_zero (replicate 4 req0)) sr1" unfolding sr1_def by (rule sr_run.send [OF sr_run.idle]) simp
  from sr_run.completed [OF this quiet, of 0 180 TRANSMIT_COMPLETE_OK] have "sr_run (sr_zero (replicate 4 req0)) sr2"
    by (simp add: sr2_def sr1_value)
  then show ?thesis unfolding sr3_def by (rule sr_run.received [OF _ quiet])
qed

theorem send_request_exactly_one_final_call_witness:
  "mset (sr_accepted sr3) = {#(9, 7)#} \<and> mset (answered sr3) = {#(9, 7)#} \<and>
   mset (sr_accepted sr3) = mset (answered sr3) + image_mset (\<lambda>i. rq_token (req_tab sr3 ! i)) (mset (reqs_list sr3)) \<and>
   memb_used (reqs sr3) = {}"
  using send_request_exactly_one_final_call [of "replicate 4 req0" sr3] sr_run_sr3
  by (simp add: sr3_value req0_def)

end
