(* ===== verification/Zip_Packet.thy ===== *)
theory Zip_Packet
  imports Send_Data
begin

text \<open>
  The Z/IP packets of the UDP server (\<open>src/src/ZW_udp_server.c\<close>): building a packet around a command
  (\<open>ZW_SendData_UDP\<close>), and receiving one (\<open>UDPCommandHandler\<close>) with its header extension, from which the
  security scheme of the command is taken.

  A received packet is memory, a function from offsets to bytes, together with a length: the code
  reads header fields without regard to the length, and what it reads behind the packet is whatever
  the buffer held before. The queue of received commands is the list of its entries; whether the shared
  packet pool has a free packet is an argument. \<open>udp_out\<close> records what is sent and the commands handed to
  the application. The build is the one with DTLS. The transmit flags of a received connection, which the code
  leaves uninitialised and the dispatcher sets before it uses them, are taken as 0.
\<close>

section \<open>Data\<close>

abbreviation (input) COMMAND_CLASS_ZIP :: byte where "COMMAND_CLASS_ZIP \<equiv> 0x23"
abbreviation (input) COMMAND_ZIP_PACKET :: byte where "COMMAND_ZIP_PACKET \<equiv> 0x02"
abbreviation (input) COMMAND_ZIP_KEEP_ALIVE :: byte where "COMMAND_ZIP_KEEP_ALIVE \<equiv> 0x03"
abbreviation (input) COMMAND_CLASS_ZIP_ND :: byte where "COMMAND_CLASS_ZIP_ND \<equiv> 0x58"
abbreviation (input) ZIP_KEEP_ALIVE_ACK_REQUEST :: byte where "ZIP_KEEP_ALIVE_ACK_REQUEST \<equiv> 0x80"
abbreviation (input) ZIP_KEEP_ALIVE_ACK_RESPONSE :: byte where "ZIP_KEEP_ALIVE_ACK_RESPONSE \<equiv> 0x40"
abbreviation (input) ZIP_PACKET_FLAGS0_ACK_REQ :: byte where "ZIP_PACKET_FLAGS0_ACK_REQ \<equiv> 0x80"
abbreviation (input) ZIP_PACKET_FLAGS0_ACK_RES :: byte where "ZIP_PACKET_FLAGS0_ACK_RES \<equiv> 0x40"
abbreviation (input) ZIP_PACKET_FLAGS0_NACK_RES :: byte where "ZIP_PACKET_FLAGS0_NACK_RES \<equiv> 0x20"
abbreviation (input) ZIP_PACKET_FLAGS0_NACK_WAIT :: byte where "ZIP_PACKET_FLAGS0_NACK_WAIT \<equiv> 0x10"
abbreviation (input) ZIP_PACKET_FLAGS0_NACK_OERR :: byte where "ZIP_PACKET_FLAGS0_NACK_OERR \<equiv> 0x04"
abbreviation (input) ZIP_PACKET_FLAGS1_HDR_EXT_INCL :: byte where "ZIP_PACKET_FLAGS1_HDR_EXT_INCL \<equiv> 0x80"
abbreviation (input) ZIP_PACKET_FLAGS1_ZW_CMD_INCL :: byte where "ZIP_PACKET_FLAGS1_ZW_CMD_INCL \<equiv> 0x40"
abbreviation (input) ZIP_PACKET_FLAGS1_SECURE_ORIGIN :: byte where "ZIP_PACKET_FLAGS1_SECURE_ORIGIN \<equiv> 0x10"
abbreviation (input) ENCAPSULATION_FORMAT_INFO :: byte where "ENCAPSULATION_FORMAT_INFO \<equiv> 4"
abbreviation (input) ZWAVE_MULTICAST_ADDRESSING :: byte where "ZWAVE_MULTICAST_ADDRESSING \<equiv> 5"
abbreviation (input) EFI_SEC_LEVEL_NONE :: byte where "EFI_SEC_LEVEL_NONE \<equiv> 0x00"
abbreviation (input) EFI_SEC_S0 :: byte where "EFI_SEC_S0 \<equiv> 0x80"
abbreviation (input) EFI_SEC_S2_UNAUTHENTICATED :: byte where "EFI_SEC_S2_UNAUTHENTICATED \<equiv> 0x01"
abbreviation (input) EFI_SEC_S2_AUTHENTICATED :: byte where "EFI_SEC_S2_AUTHENTICATED \<equiv> 0x02"
abbreviation (input) EFI_SEC_S2_ACCESS :: byte where "EFI_SEC_S2_ACCESS \<equiv> 0x04"
abbreviation (input) EFI_FLAG_CRC16 :: byte where "EFI_FLAG_CRC16 \<equiv> 1"
abbreviation (input) RECEIVE_STATUS_TYPE_MASK :: byte where "RECEIVE_STATUS_TYPE_MASK \<equiv> 0x0C"
abbreviation (input) RECEIVE_STATUS_TYPE_BROAD :: byte where "RECEIVE_STATUS_TYPE_BROAD \<equiv> 0x04"
abbreviation (input) RECEIVE_STATUS_TYPE_MULTI :: byte where "RECEIVE_STATUS_TYPE_MULTI \<equiv> 0x08"
abbreviation (input) ZIP_HEADER_SIZE :: nat where "ZIP_HEADER_SIZE \<equiv> 7"
abbreviation (input) MAX_ZIP_HEADER_SIZE :: nat where "MAX_ZIP_HEADER_SIZE \<equiv> ZIP_HEADER_SIZE + 5"
abbreviation (input) MAX_UDP_PAYLOAD_LEN :: nat where "MAX_UDP_PAYLOAD_LEN \<equiv> 512"

type_synonym memory = "nat \<Rightarrow> byte"

record udp_conn =
  ripaddr :: buffer
  sipaddr :: buffer
  lport :: u16
  rport :: u16

record zwave_connection =
  zc_conn :: udp_conn
  zc_rendpoint :: byte
  zc_lendpoint :: byte
  zc_seq :: byte
  zc_scheme :: security_scheme
  zc_rx_flags :: byte
  zc_tx_flags :: byte

datatype zwave_udp_response = RES_ACK | RES_NAK | RES_WAITNG | RES_OPT_ERR

record async_state =
  as_ack_req :: bool
  as_conn :: zwave_connection
  as_data :: buffer

record udp_tx_session =
  us_cb :: "nat option"
  us_seq :: byte
  us_src_ep :: byte
  us_dst_ep :: byte
  us_dst_ip :: buffer
  us_src_ip :: buffer
  us_dst_port :: u16
  us_timer :: bool

datatype udp_effect =
    UdpSend udp_conn buffer
  | NodeDiscovery udp_conn
  | AppCommand zwave_connection buffer
  | TxAcked nat

record udp =
  async_queue :: "async_state list"
  udp_timer :: bool
  tx_memb :: memb
  tx_tab :: "udp_tx_session list"
  tx_list :: "nat list"
  udp_out :: "udp_effect list"

definition udp_effect :: "udp_effect \<Rightarrow> udp \<Rightarrow> udp" where
  "udp_effect e s = s\<lparr>udp_out := udp_out s @ [e]\<rparr>"

section \<open>Sending\<close>

definition efi_to_shceme :: "byte \<Rightarrow> byte \<Rightarrow> security_scheme" where
  "efi_to_shceme ext1 ext2 =
     (if ext1 = EFI_SEC_LEVEL_NONE then if ext2 AND EFI_FLAG_CRC16 \<noteq> 0 then USE_CRC16 else NO_SCHEME
      else if ext1 = EFI_SEC_S0 then SECURITY_SCHEME_0
      else if ext1 = EFI_SEC_S2_UNAUTHENTICATED then SECURITY_SCHEME_2_UNAUTHENTICATED
      else if ext1 = EFI_SEC_S2_AUTHENTICATED then SECURITY_SCHEME_2_AUTHENTICATED
      else if ext1 = EFI_SEC_S2_ACCESS then SECURITY_SCHEME_2_ACCESS
      else NO_SCHEME)"

definition scheme_to_efi :: "security_scheme \<Rightarrow> byte \<times> byte" where
  "scheme_to_efi sch =
     (case sch of USE_CRC16 \<Rightarrow> (EFI_SEC_LEVEL_NONE, EFI_FLAG_CRC16)
      | SECURITY_SCHEME_0 \<Rightarrow> (EFI_SEC_S0, 0)
      | SECURITY_SCHEME_2_UNAUTHENTICATED \<Rightarrow> (EFI_SEC_S2_UNAUTHENTICATED, 0)
      | SECURITY_SCHEME_2_AUTHENTICATED \<Rightarrow> (EFI_SEC_S2_AUTHENTICATED, 0)
      | SECURITY_SCHEME_2_ACCESS \<Rightarrow> (EFI_SEC_S2_ACCESS, 0)
      | _ \<Rightarrow> (EFI_SEC_LEVEL_NONE, 0))"

datatype udp_send = TooLarge | BufferOverrun | Packet udp_conn buffer

text \<open>The connection as it is sent: the conn struct, with the destination in \<open>ripaddr\<close>.\<close>

definition mcast_received :: "byte \<Rightarrow> bool" where
  "mcast_received rx \<longleftrightarrow> rx AND RECEIVE_STATUS_TYPE_MASK = RECEIVE_STATUS_TYPE_MULTI \<or>
     rx AND RECEIVE_STATUS_TYPE_MASK = RECEIVE_STATUS_TYPE_BROAD"

definition zip_options :: "security_scheme \<Rightarrow> zwave_connection \<Rightarrow> buffer" where
  "zip_options net_scheme c =
     (let (e1, e2) = scheme_to_efi (if zc_scheme c = SECURITY_SCHEME_UDP then net_scheme else zc_scheme c)
      in [0x80 OR ENCAPSULATION_FORMAT_INFO, 2, e1, e2] @
         (if mcast_received (zc_rx_flags c) then [ZWAVE_MULTICAST_ADDRESSING, 0] else []))"

definition zip_packet :: "security_scheme \<Rightarrow> byte \<Rightarrow> zwave_connection \<Rightarrow> buffer \<Rightarrow> bool \<Rightarrow> buffer" where
  "zip_packet net_scheme seqNo c dat ackreq =
     (let opts = zip_options net_scheme c
      in [COMMAND_CLASS_ZIP, COMMAND_ZIP_PACKET,
          if ackreq then ZIP_PACKET_FLAGS0_ACK_REQ else 0,
          (if dat = [] then ZIP_PACKET_FLAGS1_HDR_EXT_INCL
           else ZIP_PACKET_FLAGS1_ZW_CMD_INCL OR ZIP_PACKET_FLAGS1_HDR_EXT_INCL) OR
          (if zc_scheme c \<noteq> NO_SCHEME then ZIP_PACKET_FLAGS1_SECURE_ORIGIN else 0),
          seqNo, zc_lendpoint c, zc_rendpoint c, of_nat (length opts + 1)] @ opts @ dat)"

text \<open>
  The buffer on the stack has \<open>MAX_UDP_PAYLOAD_LEN + MAX_ZIP_HEADER_SIZE\<close> bytes. The result has the sequence
  number of the next packet.
\<close>

definition ZW_SendData_UDP :: "security_scheme \<Rightarrow> byte \<Rightarrow> zwave_connection \<Rightarrow> buffer \<Rightarrow> bool \<Rightarrow> byte \<times> udp_send" where
  "ZW_SendData_UDP net_scheme seqNo c dat ackreq =
     (if length dat + MAX_ZIP_HEADER_SIZE > MAX_UDP_PAYLOAD_LEN + MAX_ZIP_HEADER_SIZE then (seqNo, TooLarge)
      else let pk = zip_packet net_scheme seqNo c dat ackreq
           in (seqNo + 1, if length pk > MAX_UDP_PAYLOAD_LEN + MAX_ZIP_HEADER_SIZE then BufferOverrun
                          else Packet (zc_conn c) pk))"

definition ack_flags0 :: "zwave_udp_response \<Rightarrow> byte" where
  "ack_flags0 res =
     (case res of RES_ACK \<Rightarrow> ZIP_PACKET_FLAGS0_ACK_RES
      | RES_NAK \<Rightarrow> ZIP_PACKET_FLAGS0_NACK_RES
      | RES_WAITNG \<Rightarrow> ZIP_PACKET_FLAGS0_NACK_RES OR ZIP_PACKET_FLAGS0_NACK_WAIT
      | RES_OPT_ERR \<Rightarrow> ZIP_PACKET_FLAGS0_NACK_RES OR ZIP_PACKET_FLAGS0_NACK_OERR)"

definition send_udp_ack :: "zwave_connection \<Rightarrow> zwave_udp_response \<Rightarrow> udp \<Rightarrow> udp" where
  "send_udp_ack c res s =
     udp_effect (UdpSend (zc_conn c) [COMMAND_CLASS_ZIP, COMMAND_ZIP_PACKET, ack_flags0 res, 0,
       zc_seq c, zc_lendpoint c, zc_rendpoint c]) s"

section \<open>Receiving\<close>

text \<open>The loop over the options of a header extension, which ends at \<open>tail\<close>.\<close>

datatype ext_error = EXT_DROP | EXT_OPT_ERROR

function ext_options :: "memory \<Rightarrow> nat \<Rightarrow> nat \<Rightarrow> security_scheme \<Rightarrow> ext_error + security_scheme" where
  "ext_options mem opt tail sch =
     (if opt < tail then
        let ty = mem opt; len = unat (mem (opt + 1))
        in if ty = ENCAPSULATION_FORMAT_INFO OR 0x80 then
             if len < 2 then Inl EXT_OPT_ERROR
             else ext_options mem (opt + len + 2) tail (efi_to_shceme (mem (opt + 2)) (mem (opt + 3)))
           else if ty AND 0x80 \<noteq> 0 then Inl EXT_OPT_ERROR
           else ext_options mem (opt + len + 2) tail sch
      else if opt \<noteq> tail then Inl EXT_DROP
      else Inr sch)"
  by pat_completeness auto
termination
  by (relation "measure (\<lambda>(mem, opt, tail, sch). tail - opt)") auto

declare ext_options.simps [simp del]

text \<open>The command behind the header: its offset, its length and the scheme of the header extension.\<close>

definition zip_command :: "memory \<Rightarrow> u16 \<Rightarrow> ext_error + nat \<times> u16 \<times> security_scheme" where
  "zip_command mem plen =
     (if mem 3 AND ZIP_PACKET_FLAGS1_HDR_EXT_INCL \<noteq> 0 then
        let h = mem ZIP_HEADER_SIZE
        in if h = 0 \<or> unat h > unat plen then Inl EXT_DROP
           else case ext_options mem (ZIP_HEADER_SIZE + 1) (ZIP_HEADER_SIZE + unat h) AUTO_SCHEME of
                  Inl e \<Rightarrow> Inl e
                | Inr sch \<Rightarrow> if plen - ucast h = 0 then Inl EXT_DROP
                            else Inr (ZIP_HEADER_SIZE + unat h, plen - ucast h, sch)
      else if plen = 0 then Inl EXT_DROP
      else Inr (ZIP_HEADER_SIZE, plen, AUTO_SCHEME))"

text \<open>An acknowledgement ends the first transmission session it belongs to.\<close>

definition tx_matches :: "udp_conn \<Rightarrow> memory \<Rightarrow> udp_tx_session \<Rightarrow> bool" where
  "tx_matches c mem u \<longleftrightarrow> us_dst_ip u = ripaddr c \<and> us_src_ip u = sipaddr c \<and> us_dst_port u = rport c \<and>
     us_seq u = mem 4 \<and> us_src_ep u = mem 6 \<and> us_dst_ep u = mem 5"

definition tx_acknowledged :: "udp_conn \<Rightarrow> memory \<Rightarrow> udp \<Rightarrow> udp" where
  "tx_acknowledged c mem s =
     (case find (\<lambda>i. tx_matches c mem (tx_tab s ! i)) (tx_list s) of None \<Rightarrow> s
      | Some i \<Rightarrow>
          let u = tx_tab s ! i;
              s1 = s\<lparr>tx_tab := (tx_tab s)[i := u\<lparr>us_timer := False\<rparr>]\<rparr>;
              s2 = (case us_cb u of None \<Rightarrow> s1 | Some f \<Rightarrow> udp_effect (TxAcked f) s1)
          in s2\<lparr>tx_list := list_remove (tx_list s2) i, tx_memb := snd (memb_free (tx_memb s2) i)\<rparr>)"

text \<open>Every queued command is acknowledged if asked for, handed to the application and removed.\<close>

definition app_handle :: "async_state \<Rightarrow> udp \<Rightarrow> udp" where
  "app_handle a s =
     udp_effect (AppCommand (as_conn a) (as_data a))
       (if as_ack_req a then send_udp_ack (as_conn a) RES_ACK s else s)"

definition do_app_handler :: "udp \<Rightarrow> udp" where
  "do_app_handler s = (fold app_handle (async_queue s) s)\<lparr>async_queue := []\<rparr>"

text \<open>
  What the server knows: the size of \<open>struct async_state\<close>, a global address, preferred or tentative, and
  whether the packet pool has a free packet.
\<close>

record udp_env =
  async_size :: nat
  global_addr :: "buffer option"
  pool_room :: bool

definition conn_scheme :: "byte \<Rightarrow> bool \<Rightarrow> security_scheme \<Rightarrow> security_scheme" where
  "conn_scheme flags1 received_secure sch =
     (if sch = AUTO_SCHEME
      then if flags1 AND ZIP_PACKET_FLAGS1_SECURE_ORIGIN \<noteq> 0 \<and> received_secure then SECURITY_SCHEME_UDP else NO_SCHEME
      else sch)"

definition zip_packet_input :: "udp_env \<Rightarrow> bool \<Rightarrow> bool \<Rightarrow> udp_conn \<Rightarrow> memory \<Rightarrow> u16 \<Rightarrow> udp \<Rightarrow> udp" where
  "zip_packet_input env received_secure isMulticast c mem len s =
     (let ses = \<lparr>zc_conn = c, zc_rendpoint = mem 5, zc_lendpoint = mem 6, zc_seq = mem 4,
                 zc_scheme = NO_SCHEME, zc_rx_flags = 0, zc_tx_flags = 0\<rparr>;
          s1 = (if mem 2 AND ZIP_PACKET_FLAGS0_ACK_RES \<noteq> 0 then tx_acknowledged c mem s else s);
          plen = len - 7
      in if unat plen + async_size env > UIP_BUFSIZE then
           (if mem 2 AND ZIP_PACKET_FLAGS0_ACK_REQ \<noteq> 0 then send_udp_ack ses RES_ACK s1 else s1)
         else if mem 2 AND (ZIP_PACKET_FLAGS0_ACK_RES OR ZIP_PACKET_FLAGS0_NACK_WAIT) \<noteq> 0 then s1
         else case zip_command mem plen of
             Inl EXT_DROP \<Rightarrow> s1
           | Inl EXT_OPT_ERROR \<Rightarrow>
               (if mem 2 AND ZIP_PACKET_FLAGS0_ACK_REQ \<noteq> 0 then send_udp_ack ses RES_OPT_ERR s1 else s1)
           | Inr (off, n, sch) \<Rightarrow>
               if \<not> pool_room env then s1
               else let cmd_incl = mem 3 AND ZIP_PACKET_FLAGS1_ZW_CMD_INCL \<noteq> 0;
                        a = \<lparr>as_ack_req = mem 2 AND ZIP_PACKET_FLAGS0_ACK_REQ \<noteq> 0 \<and> \<not> (cmd_incl \<and> isMulticast),
                             as_conn = ses\<lparr>zc_scheme := conn_scheme (mem 3) received_secure sch\<rparr>,
                             as_data = map mem [off..<off + unat n]\<rparr>;
                        s2 = s1\<lparr>async_queue := async_queue s1 @ [a]\<rparr>
                    in if cmd_incl then if isMulticast then s2\<lparr>udp_timer := True\<rparr> else do_app_handler s2
                       else s2)"

definition is_allrouters_mcast :: "buffer \<Rightarrow> bool" where
  "is_allrouters_mcast a \<longleftrightarrow> a = [0xFF, 0x02, 0, 0, 0, 0, 0, 0, 0, 0, 0, 0, 0, 0, 0, 0x02]"

definition UDPCommandHandler :: "udp_env \<Rightarrow> bool \<Rightarrow> udp_conn \<Rightarrow> memory \<Rightarrow> u16 \<Rightarrow> udp \<Rightarrow> udp" where
  "UDPCommandHandler env received_secure c mem len s =
     (if mem 0 = COMMAND_CLASS_ZIP_ND then udp_effect (NodeDiscovery c) s
      else if mem 0 = COMMAND_CLASS_ZIP then
        let mc = is_allrouters_mcast (sipaddr c)
        in case (if mc then map_option (\<lambda>a. c\<lparr>sipaddr := a\<rparr>) (global_addr env) else Some c) of
             None \<Rightarrow> s
           | Some c' \<Rightarrow>
               if mem 1 = COMMAND_ZIP_KEEP_ALIVE then
                 if mem 2 AND ZIP_KEEP_ALIVE_ACK_REQUEST \<noteq> 0
                 then udp_effect (UdpSend c' [COMMAND_CLASS_ZIP, COMMAND_ZIP_KEEP_ALIVE, ZIP_KEEP_ALIVE_ACK_RESPONSE]) s
                 else s
               else if mem 1 = COMMAND_ZIP_PACKET then zip_packet_input env received_secure mc c' mem len s
               else s
      else s)"

section \<open>Header extensions\<close>

lemma efi_roundtrip:
  "efi_to_shceme (fst (scheme_to_efi sch)) (snd (scheme_to_efi sch)) =
     (if sch \<in> {AUTO_SCHEME, NET_SCHEME, SECURITY_SCHEME_UDP} then NO_SCHEME else sch)"
  by (cases sch) (simp_all add: scheme_to_efi_def efi_to_shceme_def)

lemma ext_options_end: "ext_options mem tail tail sch = Inr sch"
  by (subst ext_options.simps) simp

lemma ext_options_efi:
  assumes "mem opt = 0x84" and "mem (opt + 1) = 2" and "opt + 4 \<le> tail"
  shows "ext_options mem opt tail sch = ext_options mem (opt + 4) tail (efi_to_shceme (mem (opt + 2)) (mem (opt + 3)))"
proof -
  have "opt + unat (mem (opt + 1)) + 2 = opt + 4" "unat (mem (opt + 1)) = 2" using assms(2) by simp_all
  with assms(1,3) show ?thesis by (subst ext_options.simps) (simp add: Let_def add.commute [of 4 opt] del: add_2_eq_Suc')
qed

lemma ext_options_multicast:
  assumes "mem opt = 5" and "mem (opt + 1) = 0" and "opt + 2 \<le> tail"
  shows "ext_options mem opt tail sch = ext_options mem (opt + 2) tail sch"
  using assms by (subst ext_options.simps) (simp add: Let_def)

text \<open>The parser reads no byte of the packet behind the third after the header extension.\<close>

lemma ext_options_reads:
  "(\<And>i. opt \<le> i \<Longrightarrow> i < tail + 3 \<Longrightarrow> mem i = mem' i) \<Longrightarrow> ext_options mem opt tail sch = ext_options mem' opt tail sch"
proof (induction "tail - opt" arbitrary: opt sch rule: less_induct)
  case less
  show ?case
  proof (cases "opt < tail")
    case False
    then show ?thesis by (simp add: ext_options.simps)
  next
    case True
    then have e: "mem' opt = mem opt" "mem' (opt + 1) = mem (opt + 1)" "mem' (opt + 2) = mem (opt + 2)" "mem' (opt + 3) = mem (opt + 3)"
      using less.prems by simp_all
    have n: "ext_options mem (opt + unat (mem (opt + 1)) + 2) tail x = ext_options mem' (opt + unat (mem (opt + 1)) + 2) tail x" for x
      using True less.prems by (intro less.hyps) auto
    from True e n show ?thesis
      by (subst (1 2) ext_options.simps) (simp add: Let_def)
  qed
qed

section \<open>Received packets\<close>

lemma zip_packet_input_command:
  assumes "mem 0 = 0x23" "mem 1 = 0x02" "mem 2 AND 0x50 = 0" "mem 3 AND 0x40 \<noteq> 0"
    and "\<not> is_allrouters_mcast (sipaddr c)" "unat (len - 7) + async_size env \<le> UIP_BUFSIZE" "pool_room env" "async_queue s = []"
    and "zip_command mem (len - 7) = Inr (off, n, sch)"
  shows "UDPCommandHandler env received_secure c mem len s =
     app_handle \<lparr>as_ack_req = mem 2 AND 0x80 \<noteq> 0,
       as_conn = \<lparr>zc_conn = c, zc_rendpoint = mem 5, zc_lendpoint = mem 6, zc_seq = mem 4,
          zc_scheme = conn_scheme (mem 3) received_secure sch, zc_rx_flags = 0, zc_tx_flags = 0\<rparr>,
       as_data = map mem [off..<off + unat n]\<rparr> s"
proof -
  have "(0x40 :: byte) OR 0x10 = 0x50" by simp
  moreover have "mem 2 AND 0x40 = 0"
  proof -
    have "mem 2 AND 0x40 = (mem 2 AND 0x50) AND 0x40" by (simp add: and.assoc)
    with assms(3) show ?thesis by simp
  qed
  ultimately show ?thesis
    using assms by (simp add: UDPCommandHandler_def zip_packet_input_def Let_def do_app_handler_def
      app_handle_def send_udp_ack_def udp_effect_def)
qed

definition holds :: "memory \<Rightarrow> buffer \<Rightarrow> bool" where
  "holds mem pk \<longleftrightarrow> (\<forall>i<length pk. mem i = pk ! i)"

lemma holds_nth: "holds mem pk \<Longrightarrow> i < length pk \<Longrightarrow> mem i = pk ! i"
  by (simp add: holds_def)

lemma holds_append: "holds mem (xs @ ys) \<Longrightarrow> map mem [length xs..<length xs + length ys] = ys"
  by (rule nth_equalityI) (simp_all add: holds_def)

text \<open>A packet with an option for the encapsulation format, as \<open>ZW_SendData_UDP\<close> builds it.\<close>

definition efi_packet :: "byte \<Rightarrow> byte \<Rightarrow> byte \<Rightarrow> byte \<Rightarrow> byte \<Rightarrow> byte \<times> byte \<Rightarrow> bool \<Rightarrow> buffer \<Rightarrow> buffer" where
  "efi_packet f0 f1 seqNo sep dep efi mc dat =
     [0x23, 0x02, f0, f1, seqNo, sep, dep, if mc then 7 else 5, 0x84, 2, fst efi, snd efi] @ (if mc then [5, 0] else []) @ dat"

lemma unat_u16: "n < 65536 \<Longrightarrow> unat (of_nat n :: u16) = n"
  by (simp add: unsigned_of_nat take_bit_nat_eq_self)

lemma efi_packet_length: "length (efi_packet f0 f1 seqNo sep dep efi mc dat) = (if mc then 14 else 12) + length dat"
  by (simp add: efi_packet_def)

lemma efi_packet_bytes:
  assumes "holds mem (efi_packet f0 f1 seqNo sep dep efi mc dat)"
  shows "mem 0 = 0x23" "mem 1 = 0x02" "mem 2 = f0" "mem 3 = f1" "mem 4 = seqNo" "mem 5 = sep" "mem 6 = dep"
    "mem 7 = (if mc then 7 else 5)" "mem 8 = 0x84" "mem 9 = 2" "mem 10 = fst efi" "mem 11 = snd efi"
    "mc \<Longrightarrow> mem 12 = 5" "mc \<Longrightarrow> mem 13 = 0"
  using assms unfolding holds_def efi_packet_length by (simp_all add: efi_packet_def)

lemma efi_packet_data:
  assumes "holds mem (efi_packet f0 f1 seqNo sep dep efi mc dat)"
  shows "map mem [(if mc then 14 else 12)..<(if mc then 14 else 12) + length dat] = dat"
proof -
  define hd where "hd = [0x23, 0x02, f0, f1, seqNo, sep, dep, if mc then 7 else 5, 0x84, 2, fst efi, snd efi] @ (if mc then [5, 0] else [])"
  have "length hd = (if mc then 14 else 12)" "holds mem (hd @ dat)" using assms by (simp_all add: hd_def efi_packet_def)
  then show ?thesis using holds_append [of mem hd dat] by simp
qed

lemma efi_packet_command:
  assumes h: "holds mem (efi_packet f0 f1 seqNo sep dep efi mc dat)" and f1: "f1 AND 0x80 \<noteq> 0"
    and dat: "dat \<noteq> []" "length dat \<le> 1544"
  defines "plen \<equiv> of_nat (length (efi_packet f0 f1 seqNo sep dep efi mc dat)) - (7 :: u16)"
  shows "zip_command mem plen = Inr (if mc then 14 else 12, of_nat (length dat), efi_to_shceme (fst efi) (snd efi))"
    and "unat plen = (if mc then 7 else 5) + length dat"
proof -
  have p: "plen = of_nat ((if mc then 7 else 5) + length dat)" by (simp add: plen_def efi_packet_length)
  show u: "unat plen = (if mc then 7 else 5) + length dat" using dat(2) unfolding p by (intro unat_u16) simp
  have opts: "ext_options mem 8 (if mc then 14 else 12) AUTO_SCHEME = Inr (efi_to_shceme (fst efi) (snd efi))"
    using ext_options_efi [of mem 8 "if mc then 14 else 12" AUTO_SCHEME] ext_options_multicast [of mem 12 14]
      efi_packet_bytes [OF h] by (cases mc) (simp_all add: ext_options_end)
  have n: "plen - ucast (if mc then 7 else 5 :: byte) = of_nat (length dat)" unfolding p by simp
  have z: "(of_nat (length dat) :: u16) \<noteq> 0" using dat by (simp add: word_unat_eq_iff unsigned_of_nat take_bit_nat_eq_self)
  show "zip_command mem plen = Inr (if mc then 14 else 12, of_nat (length dat), efi_to_shceme (fst efi) (snd efi))"
    using efi_packet_bytes(4,8) [OF h] f1 u opts n z by (cases mc) (simp_all add: zip_command_def Let_def)
qed

text \<open>
  Such a packet with a command hands the command to the application, under the scheme the option
  names and whatever the packet was protected with.
\<close>

lemma efi_packet_input:
  assumes h: "holds mem (efi_packet f0 f1 seqNo sep dep efi mc dat)" and f0: "f0 AND 0x50 = 0" and f1: "f1 AND 0xC0 = 0xC0"
    and dat: "dat \<noteq> []" and room: "(if mc then 7 else 5) + length dat + async_size env \<le> UIP_BUFSIZE"
    and env: "\<not> is_allrouters_mcast (sipaddr c)" "pool_room env" "async_queue s = []"
    and efi: "efi_to_shceme (fst efi) (snd efi) = sch"
  shows "UDPCommandHandler env received_secure c mem (of_nat (length (efi_packet f0 f1 seqNo sep dep efi mc dat))) s =
     app_handle \<lparr>as_ack_req = f0 AND 0x80 \<noteq> 0,
       as_conn = \<lparr>zc_conn = c, zc_rendpoint = sep, zc_lendpoint = dep, zc_seq = seqNo, zc_scheme = sch, zc_rx_flags = 0, zc_tx_flags = 0\<rparr>,
       as_data = dat\<rparr> s"
proof -
  have b: "f1 AND 0x80 = (f1 AND 0xC0) AND 0x80" "f1 AND 0x40 = (f1 AND 0xC0) AND 0x40" by (simp_all add: and.assoc)
  have d: "length dat \<le> 1544" using room by (simp split: if_splits)
  then have u: "unat (of_nat (length dat) :: u16) = length dat" by (simp add: unsigned_of_nat take_bit_nat_eq_self)
  have a: "sch \<noteq> AUTO_SCHEME" using efi by (auto simp: efi_to_shceme_def split: if_splits)
  note cmd = efi_packet_command [OF h _ dat d]
  show ?thesis
    using zip_packet_input_command [of mem c _ env s, OF _ _ _ _ env(1) _ env(2,3) cmd(1)] efi_packet_bytes [OF h]
      cmd(2) b f0 f1 room efi a efi_packet_data [OF h] u
    by (simp add: conn_scheme_def)
qed

section \<open>Properties\<close>

lemma zip_packet_efi:
  "zip_packet nsch seqNo c dat ackreq =
     efi_packet (if ackreq then 0x80 else 0) ((if dat = [] then 0x80 else 0xC0) OR (if zc_scheme c \<noteq> NO_SCHEME then 0x10 else 0))
       seqNo (zc_lendpoint c) (zc_rendpoint c)
       (scheme_to_efi (if zc_scheme c = SECURITY_SCHEME_UDP then nsch else zc_scheme c)) (mcast_received (zc_rx_flags c)) dat"
  by (simp add: zip_packet_def efi_packet_def zip_options_def split_beta Let_def)

text \<open>The scheme that a packet carries: the network's own for commands from IP, none for the pseudo schemes.\<close>

definition wire_scheme :: "security_scheme \<Rightarrow> security_scheme \<Rightarrow> security_scheme" where
  "wire_scheme nsch sch =
     (let x = (if sch = SECURITY_SCHEME_UDP then nsch else sch)
      in if x \<in> {AUTO_SCHEME, NET_SCHEME, SECURITY_SCHEME_UDP} then NO_SCHEME else x)"

definition received_conn :: "security_scheme \<Rightarrow> byte \<Rightarrow> zwave_connection \<Rightarrow> udp_conn \<Rightarrow> zwave_connection" where
  "received_conn nsch seqNo c conn =
     \<lparr>zc_conn = conn, zc_rendpoint = zc_lendpoint c, zc_lendpoint = zc_rendpoint c, zc_seq = seqNo,
      zc_scheme = wire_scheme nsch (zc_scheme c), zc_rx_flags = 0, zc_tx_flags = 0\<rparr>"

text \<open>
  C3. Round trip of Z/IP packets and the bound of the buffer they are built in. A command of 1 to 512
  bytes is sent as a packet, except that the packet of a command received as multicast or broadcast
  overruns the buffer when the command has 511 or 512 bytes. Every packet that is sent, put in front of
  any memory, is received as one command with the same bytes, sequence number and scheme and with the
  endpoints exchanged, acknowledged before if the sender asked for it; it is received so with and without transport security.
\<close>

theorem zip_packet_roundtrip:
  assumes "dat \<noteq> []" and "length dat \<le> 512" and "holds mem pk" and "async_size env \<le> 1000"
    and "\<not> is_allrouters_mcast (sipaddr conn)" and "pool_room env" and "async_queue s = []"
  shows "(snd (ZW_SendData_UDP nsch seqNo c dat ackreq) = BufferOverrun \<longleftrightarrow>
            length dat \<ge> 511 \<and> mcast_received (zc_rx_flags c)) \<and>
         snd (ZW_SendData_UDP nsch seqNo c dat ackreq) \<noteq> TooLarge \<and>
         (snd (ZW_SendData_UDP nsch seqNo c dat ackreq) = Packet dst pk \<longrightarrow>
            UDPCommandHandler env secure conn mem (of_nat (length pk)) s =
              udp_effect (AppCommand (received_conn nsch seqNo c conn) dat)
                (if ackreq then send_udp_ack (received_conn nsch seqNo c conn) RES_ACK s else s))"
proof -
  define r where "r = received_conn nsch seqNo c conn"
  define sch where "sch = (if zc_scheme c = SECURITY_SCHEME_UDP then nsch else zc_scheme c)"
  have len: "length (zip_packet nsch seqNo c dat ackreq) = (if mcast_received (zc_rx_flags c) then 14 else 12) + length dat"
    by (simp add: zip_packet_efi efi_packet_length)
  have "UDPCommandHandler env secure conn mem (of_nat (length pk)) s =
      udp_effect (AppCommand r dat) (if ackreq then send_udp_ack r RES_ACK s else s)"
    if pk: "pk = zip_packet nsch seqNo c dat ackreq"
  proof -
    have w: "efi_to_shceme (fst (scheme_to_efi sch)) (snd (scheme_to_efi sch)) = wire_scheme nsch (zc_scheme c)"
      by (simp add: efi_roundtrip wire_scheme_def sch_def)
    have "((0xC0 :: byte) OR (if zc_scheme c \<noteq> NO_SCHEME then 0x10 else 0)) AND 0xC0 = 0xC0" by simp
    from efi_packet_input [OF assms(3) [unfolded pk zip_packet_efi] _ _ assms(1) _ assms(5-7) w [unfolded sch_def], of secure] this assms(1,2,4)
    show ?thesis unfolding pk zip_packet_efi by (cases ackreq) (simp_all add: app_handle_def r_def received_conn_def)
  qed
  with len assms(2) show ?thesis unfolding r_def by (auto simp: ZW_SendData_UDP_def Let_def split: if_splits)
qed

definition zip_conn0 :: zwave_connection where
  "zip_conn0 = \<lparr>zc_conn = \<lparr>ripaddr = replicate 16 0xFD, sipaddr = 0xFC # replicate 15 0, lport = 4123, rport = 4123\<rparr>,
     zc_rendpoint = 0, zc_lendpoint = 1, zc_seq = 0, zc_scheme = SECURITY_SCHEME_2_ACCESS, zc_rx_flags = 0x08, zc_tx_flags = 0\<rparr>"

definition before :: "byte \<Rightarrow> buffer \<Rightarrow> memory" where
  "before x pk i = (if i < length pk then pk ! i else x)"

definition udp_env0 :: udp_env where
  "udp_env0 = \<lparr>async_size = 64, global_addr = None, pool_room = True\<rparr>"

definition udp0 :: udp where
  "udp0 = \<lparr>async_queue = [], udp_timer = False, tx_memb = replicate 4 0, tx_tab = [], tx_list = [], udp_out = []\<rparr>"

theorem zip_packet_roundtrip_witness:
  "udp_out (UDPCommandHandler udp_env0 False (zc_conn zip_conn0)
      (before 0xAA (zip_packet NO_SCHEME 9 zip_conn0 [0x20, 0x01, 0xFF] False))
      (of_nat (length (zip_packet NO_SCHEME 9 zip_conn0 [0x20, 0x01, 0xFF] False))) udp0) =
    [AppCommand \<lparr>zc_conn = zc_conn zip_conn0, zc_rendpoint = 1, zc_lendpoint = 0, zc_seq = 9,
       zc_scheme = SECURITY_SCHEME_2_ACCESS, zc_rx_flags = 0, zc_tx_flags = 0\<rparr> [0x20, 0x01, 0xFF]]"
proof -
  let ?pk = "zip_packet NO_SCHEME 9 zip_conn0 [0x20, 0x01, 0xFF] False"
  have "holds (before 0xAA ?pk) ?pk" by (simp add: holds_def before_def)
  moreover have "snd (ZW_SendData_UDP NO_SCHEME 9 zip_conn0 [0x20, 0x01, 0xFF] False) = Packet (zc_conn zip_conn0) ?pk"
    by (simp add: ZW_SendData_UDP_def zip_packet_efi efi_packet_length)
  moreover have "\<not> is_allrouters_mcast (sipaddr (zc_conn zip_conn0))" "async_size udp_env0 \<le> 1000" "pool_room udp_env0"
    "async_queue udp0 = []" by (simp_all add: zip_conn0_def is_allrouters_mcast_def udp_env0_def udp0_def)
  ultimately show ?thesis
    using zip_packet_roundtrip [of "[0x20, 0x01, 0xFF]" "before 0xAA ?pk" ?pk udp_env0 "zc_conn zip_conn0" udp0 NO_SCHEME 9 zip_conn0 False "zc_conn zip_conn0" False]
    by (simp add: udp_effect_def received_conn_def) (simp add: wire_scheme_def zip_conn0_def udp0_def)
qed

end
