(* ===== verification/Command_Handler.thy ===== *)
theory Command_Handler
  imports Zip_Packet
begin

text \<open>
  The dispatcher of command classes (\<open>src/src/command_handler.c\<close>) and the application's entry for commands
  from IP and from the radio (\<open>ApplicationIpCommandHandler\<close> in \<open>src/src/ZW_ZIPApplication.c\<close>).

  The registered handlers are a list, in the order of the linker section. A handler is named by a
  number; what it returns is an argument, and so are the generated command validator and the check of
  the resource directory. Which handler runs with which scheme is the result.
\<close>

section \<open>Data\<close>

abbreviation (input) COMMAND_CLASS_MANUFACTURER_SPECIFIC_V2 :: byte where "COMMAND_CLASS_MANUFACTURER_SPECIFIC_V2 \<equiv> 0x72"
abbreviation (input) MANUFACTURER_SPECIFIC_GET :: byte where "MANUFACTURER_SPECIFIC_GET \<equiv> 0x04"
abbreviation (input) COMMAND_CLASS_WAKE_UP :: byte where "COMMAND_CLASS_WAKE_UP \<equiv> 0x84"
abbreviation (input) WAKE_UP_INTERVAL_REPORT :: byte where "WAKE_UP_INTERVAL_REPORT \<equiv> 0x06"
abbreviation (input) WAKE_UP_NOTIFICATION :: byte where "WAKE_UP_NOTIFICATION \<equiv> 0x07"
abbreviation (input) COMMAND_CLASS_ZWAVEPLUS_INFO_V2 :: u16 where "COMMAND_CLASS_ZWAVEPLUS_INFO_V2 \<equiv> 0x5E"
abbreviation (input) COMMAND_CLASS_NETWORK_MANAGEMENT_PROXY :: byte where "COMMAND_CLASS_NETWORK_MANAGEMENT_PROXY \<equiv> 0x52"
abbreviation (input) NODE_INFO_CACHED_GET :: byte where "NODE_INFO_CACHED_GET \<equiv> 0x03"
abbreviation (input) COMMAND_CLASS_SUPERVISION :: byte where "COMMAND_CLASS_SUPERVISION \<equiv> 0x6C"
abbreviation (input) SUPERVISION_GET :: byte where "SUPERVISION_GET \<equiv> 0x01"
abbreviation (input) RECEIVE_STATUS_LOW_POWER :: byte where "RECEIVE_STATUS_LOW_POWER \<equiv> 0x02"

datatype command_handler_codes =
    COMMAND_HANDLED | COMMAND_PARSE_ERROR | COMMAND_BUSY | COMMAND_NOT_SUPPORTED | CLASS_NOT_SUPPORTED
  | COMMAND_POSTPONED | COMMAND_CLASS_DISABLED

datatype validator_result = UNKNOWN_CLASS | UNKNOWN_COMMAND | UNKNOWN_PARAMETER | PARSE_FAIL | PARSE_OK

text \<open>The values of the two enumerations, which the code compares with each other.\<close>

definition code_value :: "command_handler_codes \<Rightarrow> byte" where
  "code_value c =
     (case c of COMMAND_HANDLED \<Rightarrow> 0 | COMMAND_PARSE_ERROR \<Rightarrow> 1 | COMMAND_BUSY \<Rightarrow> 2 | COMMAND_NOT_SUPPORTED \<Rightarrow> 3
      | CLASS_NOT_SUPPORTED \<Rightarrow> 4 | COMMAND_POSTPONED \<Rightarrow> 5 | COMMAND_CLASS_DISABLED \<Rightarrow> 6)"

definition validator_value :: "validator_result \<Rightarrow> byte" where
  "validator_value r =
     (case r of UNKNOWN_CLASS \<Rightarrow> 0 | UNKNOWN_COMMAND \<Rightarrow> 1 | UNKNOWN_PARAMETER \<Rightarrow> 2 | PARSE_FAIL \<Rightarrow> 3 | PARSE_OK \<Rightarrow> 4)"

record command_handler =
  ch_handler :: nat
  ch_init :: "nat option"
  ch_cmdClass :: u16
  ch_version :: byte
  ch_minimal_scheme :: security_scheme

record ch_env =
  net_scheme :: security_scheme
  ch_handlers :: "command_handler list"
  disable_command_list :: "u16 list"
  ZW_command_validator :: "buffer \<Rightarrow> validator_result"
  handler_result :: "nat \<Rightarrow> zwave_connection \<Rightarrow> buffer \<Rightarrow> command_handler_codes"
  node_of_ip :: "buffer \<Rightarrow> nodeid"
  stack_param :: ts_param

datatype command_action = Refused command_handler_codes | Ran command_handler command_handler_codes | ToApplication ts_param

section \<open>Dispatch\<close>

definition is_in_disabled_list :: "ch_env \<Rightarrow> command_handler \<Rightarrow> bool" where
  "is_in_disabled_list env fn \<longleftrightarrow> (\<exists>x\<in>set (disable_command_list env). ch_cmdClass fn = x)"

definition supports_frame_at_security_level :: "ch_env \<Rightarrow> command_handler \<Rightarrow> security_scheme \<Rightarrow> bool" where
  "supports_frame_at_security_level env fn sch =
     (let sch = (if sch = USE_CRC16 then NO_SCHEME else sch)
      in if ch_minimal_scheme fn = NET_SCHEME then sch = net_scheme env \<or> sch = SECURITY_SCHEME_UDP
         else ch_minimal_scheme fn = NO_SCHEME \<or>
              scheme_compare sch (net_scheme env) \<and> scheme_compare sch (ch_minimal_scheme fn))"

definition exception_CC_security_level_check :: "ch_env \<Rightarrow> security_scheme \<Rightarrow> byte \<Rightarrow> byte \<Rightarrow> bool" where
  "exception_CC_security_level_check env sch cls cmd \<longleftrightarrow>
     net_scheme env = SECURITY_SCHEME_0 \<and> cls = COMMAND_CLASS_MANUFACTURER_SPECIFIC_V2 \<and>
     sch = NO_SCHEME \<and> cmd = MANUFACTURER_SPECIFIC_GET"

definition validation_rc :: "validator_result \<Rightarrow> command_handler_codes" where
  "validation_rc r =
     (case r of PARSE_OK \<Rightarrow> CLASS_NOT_SUPPORTED | UNKNOWN_CLASS \<Rightarrow> CLASS_NOT_SUPPORTED
      | UNKNOWN_COMMAND \<Rightarrow> COMMAND_NOT_SUPPORTED | UNKNOWN_PARAMETER \<Rightarrow> COMMAND_PARSE_ERROR
      | PARSE_FAIL \<Rightarrow> COMMAND_PARSE_ERROR)"

primrec check_handlers ::
  "ch_env \<Rightarrow> security_scheme \<Rightarrow> byte \<Rightarrow> byte \<Rightarrow> command_handler list \<Rightarrow> command_handler option \<Rightarrow>
     command_handler_codes + command_handler option" where
  "check_handlers env sch cls cmd [] checked = Inr checked"
| "check_handlers env sch cls cmd (fn # fns) checked =
     (if ch_cmdClass fn = ucast cls then
        if supports_frame_at_security_level env fn sch \<or> exception_CC_security_level_check env sch cls cmd then
          if is_in_disabled_list env fn then Inl COMMAND_CLASS_DISABLED
          else check_handlers env sch cls cmd fns (Some fn)
        else Inl CLASS_NOT_SUPPORTED
      else check_handlers env sch cls cmd fns checked)"

definition ZW_command_handler_run :: "ch_env \<Rightarrow> zwave_connection \<Rightarrow> buffer \<Rightarrow> bool \<Rightarrow> command_action" where
  "ZW_command_handler_run env c payload bSupervisionUnwrapped =
     (let rc = validation_rc (ZW_command_validator env payload)
      in if bSupervisionUnwrapped \<and> payload ! 0 = COMMAND_CLASS_WAKE_UP \<and>
            (payload ! 1 = WAKE_UP_NOTIFICATION \<or> payload ! 1 = WAKE_UP_INTERVAL_REPORT)
         then ToApplication ((stack_param env)\<lparr>tx_flags := zc_tx_flags c, rx_flags := zc_rx_flags c,
                scheme := zc_scheme c, dendpoint := zc_rendpoint c, sendpoint := zc_lendpoint c,
                snode := node_of_ip env (ripaddr (zc_conn c)), dnode := node_of_ip env (sipaddr (zc_conn c))\<rparr>)
         else case check_handlers env (zc_scheme c) (payload ! 0) (payload ! 1) (ch_handlers env) None of
                Inl code \<Rightarrow> Refused code
              | Inr None \<Rightarrow> Refused CLASS_NOT_SUPPORTED
              | Inr (Some fn) \<Rightarrow>
                  if code_value rc = validator_value PARSE_OK then Ran fn (handler_result env (ch_handler fn) c payload)
                  else Refused rc)"

primrec version_get :: "ch_env \<Rightarrow> security_scheme \<Rightarrow> u16 \<Rightarrow> command_handler list \<Rightarrow> byte" where
  "version_get env sch cls [] = 0"
| "version_get env sch cls (fn # fns) =
     (if \<not> is_in_disabled_list env fn \<and> ch_cmdClass fn = cls \<and> supports_frame_at_security_level env fn sch
      then ch_version fn else version_get env sch cls fns)"

definition ZW_comamnd_handler_version_get :: "ch_env \<Rightarrow> security_scheme \<Rightarrow> u16 \<Rightarrow> byte" where
  "ZW_comamnd_handler_version_get env sch cls = version_get env sch cls (ch_handlers env)"

text \<open>The list of classes in a node information frame; \<open>None\<close> is the failed assertion when it is full.\<close>

definition nif_lists :: "ch_env \<Rightarrow> security_scheme \<Rightarrow> command_handler \<Rightarrow> bool" where
  "nif_lists env sch fn \<longleftrightarrow> \<not> is_in_disabled_list env fn \<and> supports_frame_at_security_level env fn sch \<and>
     \<not> (sch \<noteq> NO_SCHEME \<and> supports_frame_at_security_level env fn NO_SCHEME) \<and>
     ch_cmdClass fn \<noteq> COMMAND_CLASS_ZWAVEPLUS_INFO_V2"

definition nif_entry :: "command_handler \<Rightarrow> buffer" where
  "nif_entry fn =
     (if ch_cmdClass fn AND 0xF0 = 0xF0 then [ucast (drop_bit 8 (ch_cmdClass fn)), ucast (ch_cmdClass fn)]
      else [ucast (ch_cmdClass fn)])"

primrec get_nif :: "ch_env \<Rightarrow> security_scheme \<Rightarrow> nat \<Rightarrow> command_handler list \<Rightarrow> buffer \<Rightarrow> buffer option" where
  "get_nif env sch max_len [] nif = Some nif"
| "get_nif env sch max_len (fn # fns) nif =
     (if nif_lists env sch fn then
        if max_len < length nif + length (nif_entry fn) then None
        else get_nif env sch max_len fns (nif @ nif_entry fn)
      else get_nif env sch max_len fns nif)"

definition ZW_command_handler_get_nif :: "ch_env \<Rightarrow> security_scheme \<Rightarrow> nat \<Rightarrow> buffer option" where
  "ZW_command_handler_get_nif env sch max_len = get_nif env sch max_len (ch_handlers env) []"

definition ZW_command_handler_init :: "ch_env \<Rightarrow> nat list" where
  "ZW_command_handler_init env = List.map_filter ch_init (ch_handlers env)"

definition ZW_command_handler_disable_list :: "u16 list \<Rightarrow> ch_env \<Rightarrow> ch_env" where
  "ZW_command_handler_disable_list cmdList env = env\<lparr>disable_command_list := cmdList\<rparr>"

section \<open>The application\<close>

text \<open>
  The file is compiled with \<open>AURA_DEV\<close>, which it defines itself: the branch for frames that were not
  received as single cast is empty, and nothing is forwarded to the unsolicited destinations. The command is
  a buffer of which \<open>len\<close> bytes are set; the node identifier is read from it whatever the length is. Whether
  the wake-up handler takes a command is an argument.
\<close>

datatype app_effect =
    WakeUp zwave_connection | FrameNotify | Dispatched zwave_connection command_action | ApplicationBusy zwave_connection

definition action_code :: "command_action \<Rightarrow> command_handler_codes" where
  "action_code a = (case a of Refused c \<Rightarrow> c | Ran fn c \<Rightarrow> c | ToApplication p \<Rightarrow> COMMAND_HANDLED)"

definition run_command :: "ch_env \<Rightarrow> zwave_connection \<Rightarrow> buffer \<Rightarrow> bool \<times> app_effect list" where
  "run_command env c payload =
     (let a = ZW_command_handler_run env c payload False
      in case action_code a of
           COMMAND_BUSY \<Rightarrow> (True, [FrameNotify, Dispatched c a, ApplicationBusy c])
         | COMMAND_POSTPONED \<Rightarrow> (False, [FrameNotify, Dispatched c a])
         | _ \<Rightarrow> (True, [FrameNotify, Dispatched c a]))"

definition ApplicationIpCommandHandler ::
  "ch_env \<Rightarrow> (zwave_connection \<Rightarrow> buffer \<Rightarrow> bool) \<Rightarrow> zwave_connection \<Rightarrow> buffer \<Rightarrow> nat \<Rightarrow> bool \<times> app_effect list" where
  "ApplicationIpCommandHandler env wakeup_handled c0 buf len =
     (let c = c0\<lparr>zc_tx_flags := (if zc_rx_flags c0 AND RECEIVE_STATUS_LOW_POWER \<noteq> 0 then TRANSMIT_OPTION_LOW_POWER else 0) OR
            TRANSMIT_OPTION_ACK OR TRANSMIT_OPTION_EXPLORE OR TRANSMIT_OPTION_AUTO_ROUTE\<rparr>;
          wake = buf ! 0 = COMMAND_CLASS_WAKE_UP
      in if len < 2 then (True, [])
         else if wake \<and> wakeup_handled c (take len buf) then (True, [WakeUp c])
         else let c1 = (if buf ! 0 = COMMAND_CLASS_NETWORK_MANAGEMENT_PROXY \<and> buf ! 1 = NODE_INFO_CACHED_GET \<and> buf ! 4 = 0
                        then c\<lparr>zc_scheme := SECURITY_SCHEME_UDP\<rparr> else c);
                  (r, eff) = run_command env c1 (take len buf)
              in (r, (if wake then [WakeUp c] else []) @ eff))"

section \<open>Properties\<close>

lemma check_handlers_result:
  assumes "check_handlers env sch cls cmd fns checked = Inr (Some fn)"
  shows "checked = Some fn \<or>
    fn \<in> set fns \<and> ch_cmdClass fn = ucast cls \<and> \<not> is_in_disabled_list env fn \<and>
    (supports_frame_at_security_level env fn sch \<or> exception_CC_security_level_check env sch cls cmd)"
  using assms by (induction fns arbitrary: checked) (auto split: if_splits)

lemma validation_passes:
  "code_value (validation_rc r) = validator_value PARSE_OK \<longleftrightarrow> r = PARSE_OK \<or> r = UNKNOWN_CLASS"
  by (cases r) (simp_all add: code_value_def validation_rc_def validator_value_def)

lemma check_handlers_filter:
  "check_handlers env sch cls cmd fns checked =
     check_handlers env sch cls cmd (filter (\<lambda>h. ch_cmdClass h = ucast cls) fns) checked"
  by (induction fns arbitrary: checked) simp_all

text \<open>The strength that a frame needs for a handler.\<close>

definition secured_for :: "ch_env \<Rightarrow> command_handler \<Rightarrow> security_scheme \<Rightarrow> bool" where
  "secured_for env fn sch \<longleftrightarrow>
     (if ch_minimal_scheme fn = NET_SCHEME then sch = net_scheme env \<or> sch = SECURITY_SCHEME_UDP
      else scheme_prio (net_scheme env) \<le> scheme_prio sch \<and> scheme_prio (ch_minimal_scheme fn) \<le> scheme_prio sch)"

lemma supports_iff:
  "supports_frame_at_security_level env fn sch \<longleftrightarrow>
     ch_minimal_scheme fn = NO_SCHEME \<or> secured_for env fn (if sch = USE_CRC16 then NO_SCHEME else sch)"
  by (simp add: supports_frame_at_security_level_def secured_for_def scheme_compare_def Let_def)

text \<open>
  C30. The dispatcher's guard. A handler that runs is registered for the class of the command and not
  disabled, the validator has accepted the command or does not know its class, and the command came
  with the security the handler asks for: the handler asks for none, or the scheme is that of the network
  or of a secure IP connection, or at least as strong as the network's and the handler's own, or it is
  the one exception for manufacturer information in an S0 network. A CRC-16 frame counts as unprotected.
\<close>

theorem dispatch_guarded:
  assumes "ZW_command_handler_run env c payload unwrapped = Ran fn code"
  shows "fn \<in> set (ch_handlers env) \<and> ch_cmdClass fn = ucast (payload ! 0) \<and>
    ch_cmdClass fn \<notin> set (disable_command_list env) \<and>
    (ZW_command_validator env payload = PARSE_OK \<or> ZW_command_validator env payload = UNKNOWN_CLASS) \<and>
    (ch_minimal_scheme fn = NO_SCHEME \<or>
     secured_for env fn (if zc_scheme c = USE_CRC16 then NO_SCHEME else zc_scheme c) \<or>
     net_scheme env = SECURITY_SCHEME_0 \<and> zc_scheme c = NO_SCHEME \<and> payload ! 0 = 0x72 \<and> payload ! 1 = 0x04)"
proof -
  have "check_handlers env (zc_scheme c) (payload ! 0) (payload ! 1) (ch_handlers env) None = Inr (Some fn)"
    and v: "code_value (validation_rc (ZW_command_validator env payload)) = validator_value PARSE_OK"
    using assms by (auto simp: ZW_command_handler_run_def Let_def split: if_splits sum.splits option.splits)
  from check_handlers_result [OF this(1)] v show ?thesis
    by (auto simp: validation_passes supports_iff is_in_disabled_list_def exception_CC_security_level_check_def)
qed

lemma run_unique_handler:
  assumes "filter (\<lambda>h. ch_cmdClass h = ucast (payload ! 0)) (ch_handlers env) = [fn]"
    and "ch_cmdClass fn \<notin> set (disable_command_list env)" and "ZW_command_validator env payload = PARSE_OK"
    and "supports_frame_at_security_level env fn (zc_scheme c)"
  shows "ZW_command_handler_run env c payload False = Ran fn (handler_result env (ch_handler fn) c payload)"
proof -
  have "ch_cmdClass fn = ucast (payload ! 0)" using arg_cong [OF assms(1), of set] by auto
  then have "check_handlers env (zc_scheme c) (payload ! 0) (payload ! 1) (ch_handlers env) None = Inr (Some fn)"
    unfolding check_handlers_filter [of _ _ _ _ "ch_handlers env"] assms(1)
    using assms(2,4) by (simp add: is_in_disabled_list_def)
  with assms(3) show ?thesis by (simp add: ZW_command_handler_run_def Let_def validation_passes)
qed

lemma run_command_dispatches:
  "Dispatched c (ZW_command_handler_run env c payload False) \<in> set (snd (run_command env c payload))"
  by (simp add: run_command_def Let_def split: command_handler_codes.split)

lemma udp_out_simps:
  "udp_out (udp_effect e s) = udp_out s @ [e]" "udp_out (send_udp_ack c r s) = udp_out s @ [UdpSend (zc_conn c)
     [0x23, 0x02, ack_flags0 r, 0, zc_seq c, zc_lendpoint c, zc_rendpoint c]]"
  "async_queue (udp_effect e s) = async_queue s" "async_queue (send_udp_ack c r s) = async_queue s"
  by (simp_all add: udp_effect_def send_udp_ack_def)

lemma tx_acknowledged_out:
  "AppCommand c d \<in> set (udp_out (tx_acknowledged conn mem s)) \<longleftrightarrow> AppCommand c d \<in> set (udp_out s)"
  "async_queue (tx_acknowledged conn mem s) = async_queue s"
  by (auto simp: tx_acknowledged_def Let_def udp_out_simps split: option.splits)

lemma no_extension_scheme:
  assumes "mem 3 AND 0x80 = 0" and "zip_command mem plen = Inr (off, n, sch)"
  shows "sch = AUTO_SCHEME"
  using assms by (simp add: zip_command_def split: if_splits)

lemma no_extension_input:
  assumes "async_queue s = []" and "mem 3 AND 0x80 = 0"
    and "AppCommand c d \<in> set (udp_out (UDPCommandHandler env False conn mem len s))"
  shows "AppCommand c d \<in> set (udp_out s) \<or> zc_scheme c = NO_SCHEME"
proof -
  have *: "AppCommand c d \<in> set (udp_out s) \<or> zc_scheme c = NO_SCHEME"
    if "AppCommand c d \<in> set (udp_out (zip_packet_input env False mc conn' mem len s))" for mc conn'
    using that assms(1,2) no_extension_scheme [of mem]
    by (auto simp: zip_packet_input_def Let_def do_app_handler_def app_handle_def udp_out_simps tx_acknowledged_out conn_scheme_def
        split: if_splits sum.splits ext_error.splits)
  show ?thesis
    using assms(3) * by (auto simp: UDPCommandHandler_def Let_def udp_out_simps split: if_splits option.splits)
qed

text \<open>
  C21. The security level of a Z/IP packet is what the packet says. A command received without transport
  security and without header extension gets no security level. But when the packet has an option for
  the encapsulation format that names the scheme of the network, the command is dispatched with this scheme, and
  every handler that asks for the scheme of the network, or for one that is not stronger, runs.
\<close>

theorem plain_packet_claims_network_scheme:
  assumes "net_scheme env \<in> {SECURITY_SCHEME_0, SECURITY_SCHEME_2_UNAUTHENTICATED, SECURITY_SCHEME_2_AUTHENTICATED, SECURITY_SCHEME_2_ACCESS}"
    and "filter (\<lambda>h. ch_cmdClass h = ucast (dat ! 0)) (ch_handlers env) = [fn]"
    and "ch_cmdClass fn \<notin> set (disable_command_list env)" and "ZW_command_validator env dat = PARSE_OK"
    and "ch_minimal_scheme fn = NET_SCHEME \<or> scheme_prio (ch_minimal_scheme fn) \<le> scheme_prio (net_scheme env)"
    and "2 \<le> length dat" and "dat ! 0 \<notin> {0x84, 0x52}" and "length dat \<le> 480" and "async_size uenv \<le> 1000"
    and "\<not> is_allrouters_mcast (sipaddr conn)" and "pool_room uenv" and "async_queue s = []"
    and "holds mem (efi_packet 0 0xC0 seqNo sep dep (scheme_to_efi (net_scheme env)) False dat)"
  shows "(\<forall>mem len c d. mem 3 AND 0x80 = 0 \<longrightarrow> AppCommand c d \<in> set (udp_out (UDPCommandHandler uenv False conn mem len s)) \<longrightarrow>
       AppCommand c d \<in> set (udp_out s) \<or> zc_scheme c = NO_SCHEME) \<and>
    (\<exists>c c' code. udp_out (UDPCommandHandler uenv False conn mem (of_nat (12 + length dat)) s) = udp_out s @ [AppCommand c dat] \<and>
       zc_scheme c = net_scheme env \<and>
       Dispatched c' (Ran fn code) \<in> set (snd (ApplicationIpCommandHandler env wk c (dat @ rest) (length dat))))"
proof -
  let ?efi = "scheme_to_efi (net_scheme env)"
  define c where "c = \<lparr>zc_conn = conn, zc_rendpoint = sep, zc_lendpoint = dep, zc_seq = seqNo,
     zc_scheme = net_scheme env, zc_rx_flags = 0, zc_tx_flags = 0\<rparr>"
  define c' where "c' = c\<lparr>zc_tx_flags := 0x25\<rparr>"
  have efi: "efi_to_shceme (fst ?efi) (snd ?efi) = net_scheme env" using assms(1) by (auto simp: efi_roundtrip)
  have "udp_out (UDPCommandHandler uenv False conn mem (of_nat (12 + length dat)) s) = udp_out s @ [AppCommand c dat]"
    using efi_packet_input [OF assms(13) _ _ _ _ assms(10-12) efi, of False] assms(6,8,9)
    by (cases "dat = []") (simp_all add: efi_packet_length app_handle_def udp_effect_def c_def)
  moreover have "supports_frame_at_security_level env fn (zc_scheme c')"
    using assms(1,5) by (auto simp: supports_iff secured_for_def c'_def c_def)
  from run_command_dispatches [of c' env dat] run_unique_handler [OF assms(2-4) this]
  have "\<exists>code. Dispatched c' (Ran fn code) \<in> set (snd (ApplicationIpCommandHandler env wk c (dat @ rest) (length dat)))"
    using assms(6,7) by (auto simp: ApplicationIpCommandHandler_def Let_def nth_append split_beta c'_def c_def)
  ultimately have "\<exists>c c' code. udp_out (UDPCommandHandler uenv False conn mem (of_nat (12 + length dat)) s) = udp_out s @ [AppCommand c dat] \<and>
       zc_scheme c = net_scheme env \<and>
       Dispatched c' (Ran fn code) \<in> set (snd (ApplicationIpCommandHandler env wk c (dat @ rest) (length dat)))"
    by (auto simp: c_def)
  with no_extension_input [OF assms(12)] show ?thesis by blast
qed

definition indicator_handler :: command_handler where
  "indicator_handler = \<lparr>ch_handler = 1, ch_init = Some 1, ch_cmdClass = 0x87, ch_version = 3, ch_minimal_scheme = NET_SCHEME\<rparr>"

text \<open>A gateway in an S2 network with the indicator's handler, which asks for the scheme of the network.\<close>

definition ch_env0 :: ch_env where
  "ch_env0 = \<lparr>net_scheme = SECURITY_SCHEME_2_ACCESS,
     ch_handlers = [\<lparr>ch_handler = 0, ch_init = None, ch_cmdClass = 0x20, ch_version = 1, ch_minimal_scheme = NO_SCHEME\<rparr>, indicator_handler],
     disable_command_list = [0x20], ZW_command_validator = (\<lambda>_. PARSE_OK), handler_result = (\<lambda>_ _ _. COMMAND_HANDLED),
     node_of_ip = (\<lambda>_. 0), stack_param = param1 1\<rparr>"

theorem dispatch_guarded_witness:
  "ZW_command_handler_run ch_env0 zip_conn0 [0x87, 0x01] False = Ran indicator_handler COMMAND_HANDLED \<and>
   secured_for ch_env0 indicator_handler SECURITY_SCHEME_2_ACCESS"
proof -
  have r: "ZW_command_handler_run ch_env0 zip_conn0 [0x87, 0x01] False = Ran indicator_handler COMMAND_HANDLED"
    using run_unique_handler [of "[0x87, 0x01]" ch_env0 indicator_handler zip_conn0]
    by (simp add: ch_env0_def indicator_handler_def supports_iff secured_for_def zip_conn0_def)
  with dispatch_guarded [OF r] show ?thesis by (simp add: zip_conn0_def indicator_handler_def ch_env0_def)
qed

theorem plain_packet_claims_network_scheme_witness:
  "\<exists>c c' code. udp_out (UDPCommandHandler udp_env0 False (zc_conn zip_conn0)
       (before 0xAA [0x23, 0x02, 0, 0xC0, 1, 0, 0, 5, 0x84, 2, 4, 0, 0x87, 0x01]) 14 udp0) = [AppCommand c [0x87, 0x01]] \<and>
     zc_scheme c = SECURITY_SCHEME_2_ACCESS \<and>
     Dispatched c' (Ran indicator_handler code) \<in> set (snd (ApplicationIpCommandHandler ch_env0 (\<lambda>_ _. False) c [0x87, 0x01] 2))"
proof -
  let ?pk = "efi_packet 0 0xC0 1 0 0 (scheme_to_efi (net_scheme ch_env0)) False [0x87, 0x01]"
  have pk: "?pk = [0x23, 0x02, 0, 0xC0, 1, 0, 0, 5, 0x84, 2, 4, 0, 0x87, 0x01]"
    by (simp add: efi_packet_def scheme_to_efi_def ch_env0_def)
  have two: "length [0x87, 0x01 :: byte] = 2" by simp
  have "holds (before 0xAA ?pk) ?pk" by (simp add: holds_def before_def)
  moreover have "\<not> is_allrouters_mcast (sipaddr (zc_conn zip_conn0))" "async_size udp_env0 \<le> 1000" "pool_room udp_env0"
    "async_queue udp0 = []" "udp_out udp0 = []" by (simp_all add: zip_conn0_def is_allrouters_mcast_def udp_env0_def udp0_def)
  moreover have "net_scheme ch_env0 = SECURITY_SCHEME_2_ACCESS" "disable_command_list ch_env0 = [0x20]"
    "ZW_command_validator ch_env0 [0x87, 0x01] = PARSE_OK" "ch_minimal_scheme indicator_handler = NET_SCHEME" "ch_cmdClass indicator_handler = 0x87"
    "filter (\<lambda>h. ch_cmdClass h = ucast ([0x87, 0x01 :: byte] ! 0)) (ch_handlers ch_env0) = [indicator_handler]"
    by (simp_all add: ch_env0_def indicator_handler_def)
  ultimately show ?thesis
    using plain_packet_claims_network_scheme [of ch_env0 "[0x87, 0x01]" indicator_handler udp_env0 "zc_conn zip_conn0" udp0 "before 0xAA ?pk" 1 0 0 "\<lambda>_ _. False" "[]"]
    unfolding pk two by simp
qed

end
