(* ===== verification/Frame_Input.thy ===== *)
theory Frame_Input
  imports Zip_Packet
begin

text \<open>
  The entry of all Z-Wave frames, \<open>ApplicationCommandHandlerZIP\<close> of \<open>src/src/ZIP_Router.c\<close>: it strips
  CRC-16 and multi channel encapsulations, gives the frames of the security and transport layers to
  those layers, and hands every other frame to the application. A frame is a function from offsets to
  bytes together with its length, because the code reads the command byte of frames that have none.
  The calls of the handler are its result.

  The file starts with \<open>#define AURA_DEV\<close>, which removes the body of the handler; \<open>rx_aura_dev\<close> says
  whether that line is there. The theorem relates the handler to the encapsulation of the sender,
  \<open>crc16_encap\<close>: what round-trips, which alterations are detected, and which are not.
\<close>

section \<open>The handler\<close>











section \<open>CRC-16 encapsulation\<close>











end
