(* ===== verification/Transport_Service.thy ===== *)
theory Transport_Service
  imports Send_Data Frame_Check
begin

text \<open>
  The transport service of \<open>src/libs2/transport_service\<close>: segmentation of long frames, reassembly with a
  bit mask of the received bytes, requests for missing segments, and the table-driven state machine
  \<open>transport2_fsm.c\<close>.

  The two control blocks \<open>scb\<close> and \<open>rcb\<close> and the other static variables of \<open>transport_service2.c\<close> are the
  record \<open>ts\<close>; fields that both control blocks have carry the prefix of their block. A timer is true while
  it runs. Calls that leave the module (\<open>TS_SEND_RAW\<close>, the completion function of a transmission, the
  command handler of the application) are entries of the log \<open>ts_outs\<close>, newest first. What \<open>TS_SEND_RAW\<close>
  returns is taken from the list \<open>radio\<close>, and when that is used up the radio accepts. The field \<open>ts_fault\<close>
  is set where the C code accesses memory outside an array or divides by zero. The build is the one of
  the gateway (\<open>ZIPGW\<close>, \<open>TIMER\<close>). The delays of the timers are not modelled, so the measurement of the
  round trip of the first segment is left out.
\<close>

section \<open>State machine\<close>

datatype ts_state = ST_IDLE | ST_RECEIVING | ST_SEND_FRAG_COMPLETE | ST_SEND_FRAG_REQ | ST_SEND_FRAG_WAIT
  | ST_FIND_MISS_FRAG | ST_SEND_FRAG | ST_SEND_LAST_FRAG | ST_WAIT_ACK

datatype ts_event = EV_START_RECV | EV_RECV_NEW_FRAG | EV_NO_SESSION_ID | EV_SEND_FRAG_COMPLETE
  | EV_NO_SEND_FRAG_COMPLETE | EV_SUCCESS | EV_SUCCESS2 | EV_SUCCESS3 | EV_FRAG_RX_TIMER | EV_MISSING_FRAG
  | EV_MISSING_FRAG_BCAST | EV_SCAST_DIFF_NODE | EV_BCAST_DIFF_NODE | EV_DIFF_SESSION | EV_SUBSEQ_DIFF_SESSION
  | EV_FRAG_REQ_COMPL_WAIT_DIFF_SESSION | EV_FRAG_REQ_COMPL_WAIT_DIFF_NODE | EV_RECV_FRAG_REQ | EV_RECV_LAST_FRAG
  | EV_RECV_FRAG_COMPLETE | EV_TIE_BREAK | EV_DUPL_FRAME | EV_FRAG_REQ_OR_COMPL | EV_START_SEND | EV_SEND_NEW_FRAG
  | EV_SEND_NXT_MISS_FRAG | EV_SENT_MISS_FRAG | EV_RECV_FRAG_WAIT | EV_SEND_LAST_FRAG | EV_SEND_LAST_MISS_FRAG
  | EV_FRAG_COMPL_TIMER | EV_FRAG_COMPL_TIMER2 | EV_FRAG_COMPL_TIMER_REQ | EV_FAILURE_LAST_FRAG2 | EV_RECV_FRAG_COMPL
  | EV_REPLY_FRAG_REQ_DONE | EV_FAIL

definition trans :: "(ts_state \<times> ts_event \<times> ts_state) list" where
  "trans =
    [(ST_IDLE, EV_START_RECV, ST_RECEIVING),
     (ST_IDLE, EV_START_SEND, ST_SEND_FRAG),
     (ST_IDLE, EV_SEND_NEW_FRAG, ST_SEND_FRAG),
     (ST_SEND_FRAG, EV_SEND_NEW_FRAG, ST_SEND_FRAG),
     (ST_RECEIVING, EV_SEND_NEW_FRAG, ST_SEND_FRAG),
     (ST_WAIT_ACK, EV_SEND_NEW_FRAG, ST_SEND_FRAG),
     (ST_RECEIVING, EV_RECV_NEW_FRAG, ST_RECEIVING),
     (ST_RECEIVING, EV_DUPL_FRAME, ST_IDLE),
     (ST_RECEIVING, EV_NO_SESSION_ID, ST_SEND_FRAG_WAIT),
     (ST_RECEIVING, EV_SCAST_DIFF_NODE, ST_SEND_FRAG_WAIT),
     (ST_SEND_FRAG, EV_SCAST_DIFF_NODE, ST_SEND_FRAG_WAIT),
     (ST_WAIT_ACK, EV_SCAST_DIFF_NODE, ST_SEND_FRAG_WAIT),
     (ST_RECEIVING, EV_DIFF_SESSION, ST_IDLE),
     (ST_RECEIVING, EV_SUBSEQ_DIFF_SESSION, ST_SEND_FRAG_WAIT),
     (ST_RECEIVING, EV_FRAG_REQ_COMPL_WAIT_DIFF_NODE, ST_IDLE),
     (ST_RECEIVING, EV_FRAG_REQ_COMPL_WAIT_DIFF_SESSION, ST_IDLE),
     (ST_SEND_FRAG_WAIT, EV_SUCCESS, ST_RECEIVING),
     (ST_SEND_FRAG_WAIT, EV_SUCCESS2, ST_SEND_FRAG),
     (ST_SEND_FRAG_WAIT, EV_SUCCESS3, ST_WAIT_ACK),
     (ST_SEND_FRAG_COMPLETE, EV_SUCCESS, ST_IDLE),
     (ST_SEND_FRAG_REQ, EV_SUCCESS, ST_RECEIVING),
     (ST_RECEIVING, EV_FRAG_RX_TIMER, ST_FIND_MISS_FRAG),
     (ST_IDLE, EV_FRAG_RX_TIMER, ST_IDLE),
     (ST_RECEIVING, EV_BCAST_DIFF_NODE, ST_RECEIVING),
     (ST_RECEIVING, EV_RECV_LAST_FRAG, ST_FIND_MISS_FRAG),
     (ST_WAIT_ACK, EV_SEND_FRAG_COMPLETE, ST_SEND_FRAG_COMPLETE),
     (ST_RECEIVING, EV_RECV_FRAG_COMPL, ST_IDLE),
     (ST_WAIT_ACK, EV_FRAG_REQ_OR_COMPL, ST_WAIT_ACK),
     (ST_WAIT_ACK, EV_FRAG_RX_TIMER, ST_IDLE),
     (ST_RECEIVING, EV_FRAG_REQ_OR_COMPL, ST_RECEIVING),
     (ST_SEND_FRAG, EV_FRAG_REQ_OR_COMPL, ST_RECEIVING),
     (ST_FIND_MISS_FRAG, EV_MISSING_FRAG, ST_SEND_FRAG_REQ),
     (ST_FIND_MISS_FRAG, EV_MISSING_FRAG_BCAST, ST_IDLE),
     (ST_FIND_MISS_FRAG, EV_SEND_FRAG_COMPLETE, ST_SEND_FRAG_COMPLETE),
     (ST_FIND_MISS_FRAG, EV_NO_SEND_FRAG_COMPLETE, ST_IDLE),
     (ST_SEND_FRAG, EV_RECV_FRAG_WAIT, ST_SEND_FRAG),
     (ST_RECEIVING, EV_RECV_FRAG_WAIT, ST_SEND_FRAG),
     (ST_SEND_FRAG, EV_SEND_LAST_FRAG, ST_SEND_LAST_FRAG),
     (ST_SEND_FRAG, EV_SEND_LAST_MISS_FRAG, ST_SEND_LAST_FRAG),
     (ST_SEND_LAST_FRAG, EV_SUCCESS, ST_WAIT_ACK),
     (ST_WAIT_ACK, EV_FRAG_COMPL_TIMER, ST_SEND_LAST_FRAG),
     (ST_WAIT_ACK, EV_FRAG_COMPL_TIMER_REQ, ST_IDLE),
     (ST_WAIT_ACK, EV_FRAG_COMPL_TIMER2, ST_IDLE),
     (ST_WAIT_ACK, EV_FAILURE_LAST_FRAG2, ST_IDLE),
     (ST_WAIT_ACK, EV_RECV_FRAG_REQ, ST_SEND_FRAG),
     (ST_RECEIVING, EV_RECV_FRAG_REQ, ST_SEND_FRAG),
     (ST_WAIT_ACK, EV_RECV_FRAG_COMPL, ST_IDLE),
     (ST_SEND_FRAG, EV_SEND_NXT_MISS_FRAG, ST_SEND_FRAG),
     (ST_SEND_FRAG, EV_FRAG_COMPL_TIMER, ST_IDLE),
     (ST_SEND_FRAG, EV_FRAG_COMPL_TIMER_REQ, ST_IDLE),
     (ST_SEND_FRAG, EV_SENT_MISS_FRAG, ST_WAIT_ACK),
     (ST_SEND_FRAG, EV_TIE_BREAK, ST_RECEIVING),
     (ST_SEND_LAST_FRAG, EV_TIE_BREAK, ST_RECEIVING),
     (ST_WAIT_ACK, EV_RECV_FRAG_WAIT, ST_SEND_FRAG),
     (ST_SEND_LAST_FRAG, EV_FAIL, ST_IDLE),
     (ST_WAIT_ACK, EV_TIE_BREAK, ST_RECEIVING)]"

text \<open>The table is searched from its end.\<close>

definition find_transition :: "ts_state \<Rightarrow> ts_event \<Rightarrow> ts_state option" where
  "find_transition cstate event =
     (case find (\<lambda>(st, ev, nxt). cstate = st \<and> event = ev) (rev trans) of
        Some (st, ev, nxt) \<Rightarrow> Some nxt
      | None \<Rightarrow> None)"

definition next_state :: "ts_event \<Rightarrow> ts_state \<Rightarrow> ts_state" where
  "next_state ev c = (case find_transition c ev of Some n \<Rightarrow> n | None \<Rightarrow> c)"

section \<open>Data\<close>

abbreviation (input) DATAGRAM_SIZE_MAX :: nat where "DATAGRAM_SIZE_MAX \<equiv> 200"
abbreviation (input) FRAGMENTMAXPAYLOAD :: nat where "FRAGMENTMAXPAYLOAD \<equiv> 47"
abbreviation (input) TXBUF_SIZE :: nat where "TXBUF_SIZE \<equiv> 54"
abbreviation (input) BITMASK_SIZE :: nat where "BITMASK_SIZE \<equiv> 26"
abbreviation (input) RECEIVE_STATUS_TYPE_SINGLE :: byte where "RECEIVE_STATUS_TYPE_SINGLE \<equiv> 0"
abbreviation (input) RECEIVE_STATUS_TYPE_BROAD :: byte where "RECEIVE_STATUS_TYPE_BROAD \<equiv> 4"
abbreviation (input) NO_SESSION :: byte where "NO_SESSION \<equiv> 0x10"

datatype raw_callback = ZCB_ts_senddata | ZCB_last_frag | ZCB_reply_frag_req | No_callback

datatype ts_out =
    Raw byte byte buffer byte raw_callback bool
  | Completed byte
  | Deliver nodeid nodeid buffer

record ts =
  current_state :: ts_state
  flag_tie_broken :: bool
  flag_initialize_once :: bool
  FragmentMaxPayload :: nat
  t2_txBuf :: buffer
  datalen_to_send :: nat
  missing_offset :: nat
  remaining_data_len :: nat
  scb_p :: ts_param
  completedFunc :: bool
  scb_session_id :: byte
  scb_pending_segments :: byte
  datagram :: buffer
  sending :: bool
  flag_replied_frag_req :: bool
  transmission_aborted :: byte
  frag_compl_list :: "bool list"
  flag_send_frag_wait :: bool
  flag_reply_frag_req :: bool
  frag_wait_p :: ts_param
  flag_fc_timer_expired_once :: byte
  current_dnode :: nodeid
  does_not_fit_in_first_frag :: bool
  rcb_p :: ts_param
  rcb_session_id :: byte
  rcb_pending_segments :: byte
  flag_retry_frag_req_once :: byte
  recv_frag_compl_list :: "bool list"
  datagramData :: buffer
  cur_recvd_data_size :: nat
  current_snode :: nodeid
  bytes_recvd_bitmask :: buffer
  datagram_size :: nat
  rx_data_state :: bool
  reset_timer :: bool
  wait_restart_timer :: bool
  timer_btwn_2_frags :: bool
  fc_timer :: bool
  rx_timer :: bool
  TSApplicationCommandHandler :: bool
  radio :: "bool list"
  ts_outs :: "ts_out list"
  ts_fault :: bool

definition ts_emit :: "ts_out \<Rightarrow> ts \<Rightarrow> ts" where
  "ts_emit e s = s\<lparr>ts_outs := e # ts_outs s\<rparr>"

definition t2_sm_post_event :: "ts_event \<Rightarrow> ts \<Rightarrow> ts" where
  "t2_sm_post_event ev s = s\<lparr>current_state := next_state ev (current_state s)\<rparr>"

definition completed :: "byte \<Rightarrow> ts \<Rightarrow> ts" where
  "completed status s = (if completedFunc s then ts_emit (Completed status) s else s)"

text \<open>
  \<open>TS_SEND_RAW\<close> stands for \<open>ZW_SendData_Bridge\<close>, which \<open>transport_service2.c\<close> declares with node numbers of
  eight bits.
\<close>

definition TS_SEND_RAW :: "nodeid \<Rightarrow> nodeid \<Rightarrow> buffer \<Rightarrow> byte \<Rightarrow> raw_callback \<Rightarrow> ts \<Rightarrow> bool \<times> ts" where
  "TS_SEND_RAW src dst frame txopt cb s =
     (case radio s of
        [] \<Rightarrow> (True, ts_emit (Raw (ucast src) (ucast dst) frame txopt cb True) s)
      | b # bs \<Rightarrow> (b, ts_emit (Raw (ucast src) (ucast dst) frame txopt cb b) (s\<lparr>radio := bs\<rparr>)))"

text \<open>
  The array \<open>frag_compl_list\<close> has 15 elements, one less than there are session identifiers; behind it in the
  control block lies \<open>flag_send_frag_wait\<close>, which an access with the index 15 meets.
\<close>

definition get_frag_compl :: "byte \<Rightarrow> ts \<Rightarrow> bool" where
  "get_frag_compl i s = (if unat i < 15 then frag_compl_list s ! unat i else flag_send_frag_wait s)"

definition set_frag_compl :: "byte \<Rightarrow> bool \<Rightarrow> ts \<Rightarrow> ts" where
  "set_frag_compl i b s =
     (if unat i < 15 then s\<lparr>frag_compl_list := (frag_compl_list s)[unat i := b]\<rparr>
      else s\<lparr>flag_send_frag_wait := b, ts_fault := True\<rparr>)"

definition zero_param :: ts_param where
  "zero_param = \<lparr>snode = 0, dnode = 0, sendpoint = 0, dendpoint = 0, tx_flags = 0, rx_flags = 0, scheme = NO_SCHEME,
     node_list = [], is_mcast_with_folloup = False, force_verify_delivery = False, is_multicommand = False, discard_timeout = 0\<rparr>"

definition recv_or_send :: "ts \<Rightarrow> nat" where
  "recv_or_send s =
     (case current_state s of
        ST_IDLE \<Rightarrow> 2
      | ST_SEND_FRAG \<Rightarrow> 0 | ST_SEND_LAST_FRAG \<Rightarrow> 0 | ST_WAIT_ACK \<Rightarrow> 0
      | _ \<Rightarrow> 1)"

definition ZW_TransportService_Is_Receving :: "ts \<Rightarrow> bool" where
  "ZW_TransportService_Is_Receving s = (recv_or_send s = 1)"

definition ZW_TransportService_Is_Sending :: "ts \<Rightarrow> bool" where
  "ZW_TransportService_Is_Sending s = (recv_or_send s = 0)"

definition discard_all_received_fragments :: "ts \<Rightarrow> ts" where
  "discard_all_received_fragments s =
     s\<lparr>datagramData := replicate DATAGRAM_SIZE_MAX 0, rcb_p := zero_param, rcb_session_id := NO_SESSION,
       rcb_pending_segments := 0, current_snode := 0, bytes_recvd_bitmask := replicate BITMASK_SIZE 0\<rparr>"

definition reset_transport_service :: "ts \<Rightarrow> ts" where
  "reset_transport_service s = discard_all_received_fragments (s\<lparr>reset_timer := False, current_state := ST_IDLE\<rparr>)"

section \<open>Sending\<close>

abbreviation (input) S2_TRANSMIT_COMPLETE_OK :: byte where "S2_TRANSMIT_COMPLETE_OK \<equiv> 0"
abbreviation (input) S2_TRANSMIT_COMPLETE_FAIL :: byte where "S2_TRANSMIT_COMPLETE_FAIL \<equiv> 2"
abbreviation (input) TRANSMIT_OPTION_ACK :: byte where "TRANSMIT_OPTION_ACK \<equiv> 0x01"
abbreviation (input) TRANSMIT_OPTION_NO_ROUTE :: byte where "TRANSMIT_OPTION_NO_ROUTE \<equiv> 0x10"
abbreviation (input) TRANSMIT_OPTION_EXPLORE :: byte where "TRANSMIT_OPTION_EXPLORE \<equiv> 0x20"
abbreviation (input) COMMAND_FIRST_FRAGMENT :: byte where "COMMAND_FIRST_FRAGMENT \<equiv> 0xC0"
abbreviation (input) COMMAND_SUBSEQUENT_FRAGMENT :: byte where "COMMAND_SUBSEQUENT_FRAGMENT \<equiv> 0xE0"
abbreviation (input) COMMAND_SEGMENT_REQUEST_V2 :: byte where "COMMAND_SEGMENT_REQUEST_V2 \<equiv> 0xC8"
abbreviation (input) COMMAND_SEGMENT_COMPLETE_V2 :: byte where "COMMAND_SEGMENT_COMPLETE_V2 \<equiv> 0xE8"
abbreviation (input) COMMAND_SEGMENT_WAIT_V2 :: byte where "COMMAND_SEGMENT_WAIT_V2 \<equiv> 0xF0"

text \<open>
  Writes to the frame buffer \<open>t2_txBuf\<close> and reads of the caller's datagram. Both set the fault when they leave
  their array; what the buffer holds afterwards is then of no meaning.
\<close>

definition put_tx :: "nat \<Rightarrow> buffer \<Rightarrow> ts \<Rightarrow> ts" where
  "put_tx off xs s = s\<lparr>t2_txBuf := take TXBUF_SIZE (wr off xs (t2_txBuf s)),
     ts_fault := (ts_fault s \<or> off + length xs > TXBUF_SIZE)\<rparr>"

definition copy_datagram :: "nat \<Rightarrow> nat \<Rightarrow> nat \<Rightarrow> ts \<Rightarrow> ts" where
  "copy_datagram dst off n s =
     put_tx dst (take n (drop off (datagram s) @ replicate n 0))
       (s\<lparr>ts_fault := (ts_fault s \<or> n > 0 \<and> off + n > length (datagram s))\<rparr>)"

definition add_crc :: "byte \<Rightarrow> ts \<Rightarrow> ts" where
  "add_crc len s = (let crc = zgw_crc16 0x1D0F (take (unat len) (t2_txBuf s))
     in put_tx (unat len) [ucast (drop_bit 8 crc), ucast crc] s)"

text \<open>The first \<open>len\<close> bytes of the frame buffer are handed to the radio; the length is a byte.\<close>

definition send_txBuf :: "nat \<Rightarrow> raw_callback \<Rightarrow> ts \<Rightarrow> bool \<times> ts" where
  "send_txBuf len cb s =
     TS_SEND_RAW (snode (scb_p s)) (dnode (scb_p s)) (take (len mod 256) (t2_txBuf s)) (tx_flags (scb_p s) OR TRANSMIT_OPTION_ACK) cb s"

text \<open>The loop \<open>retry\<close> of \<open>send_last_frag\<close>: it sends until the radio accepts the frame.\<close>

fun send_until_accepted :: "nat \<Rightarrow> nat \<Rightarrow> ts \<Rightarrow> ts" where
  "send_until_accepted len 0 s = snd (send_txBuf len ZCB_last_frag s)"
| "send_until_accepted len (Suc n) s =
     (case send_txBuf len ZCB_last_frag s of (ok, s1) \<Rightarrow> if ok then s1 else send_until_accepted len n s1)"

definition send_last_frag :: "ts \<Rightarrow> ts" where
  "send_last_frag s =
     (let s1 = s\<lparr>fc_timer := False, reset_timer := True, sending := False, scb_pending_segments := 0\<rparr>;
          len = (if does_not_fit_in_first_frag s then 7 else 6) + datalen_to_send s;
          s2 = send_until_accepted len (length (radio s)) s1
      in if tx_flags (scb_p s) = RECEIVE_STATUS_TYPE_BROAD \<or> dnode (scb_p s) = 0xff
         then t2_sm_post_event EV_MISSING_FRAG_BCAST s2
         else t2_sm_post_event EV_SUCCESS (s2\<lparr>fc_timer := True\<rparr>))"

definition fc_timer_expired :: "ts \<Rightarrow> ts" where
  "fc_timer_expired s =
     (if flag_replied_frag_req s then
        completed S2_TRANSMIT_COMPLETE_FAIL (t2_sm_post_event EV_FRAG_COMPL_TIMER_REQ
          (s\<lparr>transmission_aborted := scb_session_id s, flag_replied_frag_req := False, current_dnode := 0\<rparr>))
      else if transmission_aborted s = scb_session_id s then completed S2_TRANSMIT_COMPLETE_FAIL s
      else if flag_fc_timer_expired_once s \<noteq> 0 then
        t2_sm_post_event EV_FRAG_COMPL_TIMER2 (completed S2_TRANSMIT_COMPLETE_FAIL
          (s\<lparr>flag_fc_timer_expired_once := 0, current_dnode := 0\<rparr>))
      else let s1 = t2_sm_post_event EV_FRAG_COMPL_TIMER s
        in send_last_frag (s1\<lparr>flag_fc_timer_expired_once := flag_fc_timer_expired_once s1 + 1\<rparr>))"

text \<open>The segments that are still to be sent, a byte; a length of 0 divides by zero.\<close>

definition segments :: "nat \<Rightarrow> nat \<Rightarrow> byte" where
  "segments remaining len = (if remaining mod len \<noteq> 0 then of_nat (remaining div len) + 1 else of_nat (remaining div len))"

definition first_hdr :: "ts \<Rightarrow> buffer" where
  "first_hdr s = [COMMAND_CLASS_TRANSPORT_SERVICE, COMMAND_FIRST_FRAGMENT OR (of_nat (length (datagram s) div 256) AND 7),
     of_nat (length (datagram s)), push_bit 4 (scb_session_id s)]"

definition subseq_hdr :: "nat \<Rightarrow> ts \<Rightarrow> buffer" where
  "subseq_hdr off s = [COMMAND_CLASS_TRANSPORT_SERVICE, COMMAND_SUBSEQUENT_FRAGMENT OR (of_nat (length (datagram s) div 256) AND 7),
     of_nat (length (datagram s)), push_bit 4 (scb_session_id s) OR (of_nat (off div 256) AND 7), of_nat off]"

definition send_subseq_frag :: "ts \<Rightarrow> ts" where
  "send_subseq_frag s =
     (let rem = (if remaining_data_len s = 0 then length (datagram s) else remaining_data_len s);
          n = (if rem \<ge> FragmentMaxPayload s then FragmentMaxPayload s else rem);
          s1 = s\<lparr>fc_timer := False, remaining_data_len := rem, datalen_to_send := n\<rparr>;
          off = (length (datagram s) + 65536 - rem) mod 65536
      in if get_frag_compl (scb_session_id s) s1 then s1
         else let s2 = add_crc (of_nat (n + 5)) (copy_datagram 5 off n (put_tx 0 (subseq_hdr off s1) s1))
         in if rem \<le> FragmentMaxPayload s
            then send_last_frag (t2_sm_post_event EV_SEND_LAST_FRAG (s2\<lparr>does_not_fit_in_first_frag := True\<rparr>))
            else case send_txBuf (n + 7) ZCB_ts_senddata (s2\<lparr>reset_timer := True\<rparr>) of (ok, s3) \<Rightarrow>
              t2_sm_post_event EV_SEND_NEW_FRAG
                (if ok then let rem' = (if rem \<ge> FragmentMaxPayload s then rem - FragmentMaxPayload s else rem)
                   in s3\<lparr>remaining_data_len := rem', scb_pending_segments := segments rem' n\<rparr>
                 else s3))"

text \<open>The argument is what \<open>rand\<close> returns.\<close>

definition next_session :: "nat \<Rightarrow> byte \<Rightarrow> byte" where
  "next_session rnd sid = (let i = (if sid = 0 then of_nat (rnd mod 0xf) else sid + 1) in if i > 0xf then 0 else i)"

definition max_payload :: "byte \<Rightarrow> nat" where
  "max_payload flags =
     (if flags AND TRANSMIT_OPTION_EXPLORE \<noteq> 0 then FRAGMENTMAXPAYLOAD - 8
      else if flags AND TRANSMIT_OPTION_NO_ROUTE = 0 then FRAGMENTMAXPAYLOAD - 8 else FRAGMENTMAXPAYLOAD)"

definition send_first_frag :: "nat \<Rightarrow> ts \<Rightarrow> ts" where
  "send_first_frag rnd s =
     (let sid = next_session rnd (scb_session_id s);
          s1 = set_frag_compl sid False (s\<lparr>scb_session_id := sid\<rparr>);
          m = max_payload (tx_flags (scb_p s));
          len = length (datagram s);
          rem = (if len > m then len - m else len);
          n = (if len > m then m else len);
          s2 = s1\<lparr>FragmentMaxPayload := m, remaining_data_len := rem, datalen_to_send := n\<rparr>;
          s3 = add_crc (of_nat (n + 4)) (copy_datagram 4 0 n (put_tx 0 (first_hdr s2) s2));
          s4 = s3\<lparr>scb_pending_segments := segments rem n, ts_fault := (ts_fault s3 \<or> n = 0)\<rparr>
      in if len \<le> m
         then send_last_frag (t2_sm_post_event EV_SEND_LAST_FRAG (s4\<lparr>does_not_fit_in_first_frag := False\<rparr>))
         else case send_txBuf (n + 6) ZCB_ts_senddata (s4\<lparr>reset_timer := True\<rparr>) of (ok, s5) \<Rightarrow>
           if ok then t2_sm_post_event EV_SEND_NEW_FRAG (s5\<lparr>sending := True\<rparr>) else s5)"

definition wait_restart_from_first :: "nat \<Rightarrow> ts \<Rightarrow> ts" where
  "wait_restart_from_first rnd s = send_first_frag rnd s"

definition ZW_TransportService_SendData :: "nat \<Rightarrow> ts_param \<Rightarrow> buffer \<Rightarrow> bool \<Rightarrow> ts \<Rightarrow> bool \<times> ts" where
  "ZW_TransportService_SendData rnd p pData fn s =
     (let s1 = s\<lparr>reset_timer := True\<rparr>
      in if ZW_TransportService_Is_Sending s1 then (False, ts_emit (Completed S2_TRANSMIT_COMPLETE_FAIL) s1)
         else if ZW_TransportService_Is_Receving s1 then (False, ts_emit (Completed S2_TRANSMIT_COMPLETE_FAIL) s1)
         else let s2 = s1\<lparr>datagram := pData, scb_p := p, completedFunc := fn, sending := False,
                flag_replied_frag_req := False, transmission_aborted := 0x11, flag_send_frag_wait := False,
                flag_reply_frag_req := False, flag_fc_timer_expired_once := 0, remaining_data_len := 0,
                current_dnode := dnode p\<rparr>;
              s3 = (case current_state s2 of
                      ST_IDLE \<Rightarrow> t2_sm_post_event EV_START_SEND s2
                    | ST_SEND_FRAG \<Rightarrow> t2_sm_post_event EV_SEND_NEW_FRAG s2
                    | _ \<Rightarrow> s2)
           in (True, send_first_frag rnd s3))"

definition reply_frag_req :: "ts \<Rightarrow> ts" where
  "reply_frag_req s =
     (if get_frag_compl (scb_session_id s) s then s
      else let off = missing_offset s; len = length (datagram s);
               n = (if off + FragmentMaxPayload s > len then (len + 65536 - off) mod 65536 else FragmentMaxPayload s);
               s1 = s\<lparr>datalen_to_send := n\<rparr>;
               s2 = add_crc (of_nat (n + 5)) (copy_datagram 5 off n (put_tx 0 (subseq_hdr off s1) s1))
      in if off + n = len
         then send_last_frag ((t2_sm_post_event EV_SEND_LAST_MISS_FRAG (s2\<lparr>does_not_fit_in_first_frag := True\<rparr>))
                \<lparr>flag_replied_frag_req := True\<rparr>)
         else let s3 = snd (send_txBuf (n + 7) (if sending s then ZCB_ts_senddata else ZCB_reply_frag_req) (s2\<lparr>reset_timer := True\<rparr>))
              in s3\<lparr>flag_replied_frag_req := True, fc_timer := True\<rparr>)"

definition ZCB_temp_callback_last_frag :: "byte \<Rightarrow> ts \<Rightarrow> ts" where
  "ZCB_temp_callback_last_frag status s = s"

definition ZCB_temp_callback_reply_frag_req :: "byte \<Rightarrow> ts \<Rightarrow> ts" where
  "ZCB_temp_callback_reply_frag_req status s =
     t2_sm_post_event EV_SENT_MISS_FRAG (if status \<noteq> S2_TRANSMIT_COMPLETE_OK then completed status s else s)"

section \<open>Receiving\<close>

definition raw_cmd :: "ts_param \<Rightarrow> buffer \<Rightarrow> raw_callback \<Rightarrow> ts \<Rightarrow> bool \<times> ts" where
  "raw_cmd p frame cb s = TS_SEND_RAW (dnode p) (snode p) frame (tx_flags p OR TRANSMIT_OPTION_ACK) cb s"

definition send_frag_wait_cmd :: "ts \<Rightarrow> ts" where
  "send_frag_wait_cmd s =
     (let s1 = s\<lparr>reset_timer := True\<rparr>
      in if sending s1 then
           t2_sm_post_event EV_SUCCESS2 (snd (raw_cmd (frag_wait_p s1)
             [COMMAND_CLASS_TRANSPORT_SERVICE, COMMAND_SEGMENT_WAIT_V2, scb_pending_segments s1] ZCB_ts_senddata s1))
         else let s2 = (if rcb_session_id s1 = NO_SESSION then s1\<lparr>rcb_pending_segments := 0\<rparr>
                  else s1\<lparr>rcb_pending_segments := segments (datagram_size s1) (cur_recvd_data_size s1),
                          ts_fault := (ts_fault s1 \<or> cur_recvd_data_size s1 = 0)\<rparr>)
           in t2_sm_post_event EV_SUCCESS (snd (raw_cmd (frag_wait_p s2)
                [COMMAND_CLASS_TRANSPORT_SERVICE, COMMAND_SEGMENT_WAIT_V2, rcb_pending_segments s2] No_callback s2)))"

text \<open>The wait command at the next callback of a sending session, or at once.\<close>

definition queue_frag_wait :: "ts \<Rightarrow> ts" where
  "queue_frag_wait s = (if sending s then s\<lparr>flag_send_frag_wait := True\<rparr> else send_frag_wait_cmd s)"

definition ZCB_ts_senddata_cb :: "ts \<Rightarrow> ts" where
  "ZCB_ts_senddata_cb s =
     (if flag_reply_frag_req s then reply_frag_req (s\<lparr>flag_reply_frag_req := False\<rparr>)
      else if flag_send_frag_wait s then send_frag_wait_cmd (s\<lparr>flag_send_frag_wait := False\<rparr>)
      else if transmission_aborted s = scb_session_id s then s\<lparr>timer_btwn_2_frags := False\<rparr>
      else s\<lparr>timer_btwn_2_frags := True\<rparr>)"

definition send_frag_complete_cmd :: "ts \<Rightarrow> ts" where
  "send_frag_complete_cmd s =
     (if rcb_session_id s > 0x0f then s
      else let sid = rcb_session_id s;
               s1 = snd (raw_cmd (rcb_p s) [COMMAND_CLASS_TRANSPORT_SERVICE, COMMAND_SEGMENT_COMPLETE_V2, push_bit 4 sid]
                      No_callback (s\<lparr>reset_timer := True\<rparr>));
               s2 = (if TSApplicationCommandHandler s1
                     then ts_emit (Deliver (snode (rcb_p s1)) (dnode (rcb_p s1)) (take (datagram_size s1) (datagramData s1))) s1
                     else s1)
           in t2_sm_post_event EV_SUCCESS (s2\<lparr>recv_frag_compl_list := (recv_frag_compl_list s2)[unat sid := True],
                rcb_session_id := NO_SESSION, current_snode := 0, rx_timer := False\<rparr>))"

text \<open>The first byte after byte 0 whose bit is clear, 0 when the datagram is complete.\<close>

definition get_next_missing_offset :: "ts \<Rightarrow> nat" where
  "get_next_missing_offset s =
     (case find (\<lambda>k. \<not> bit (bytes_recvd_bitmask s ! (k div 8)) (k mod 8) \<and> k \<noteq> 0) [0..<8 * BITMASK_SIZE] of
        None \<Rightarrow> 0
      | Some k \<Rightarrow> if k \<ge> datagram_size s then 0 else k)"

fun frag_req_loop :: "nat \<Rightarrow> ts \<Rightarrow> ts" where
  "frag_req_loop 0 s = snd (raw_cmd (rcb_p s) (take 4 (t2_txBuf s)) No_callback (s\<lparr>reset_timer := True\<rparr>))"
| "frag_req_loop (Suc n) s =
     (case raw_cmd (rcb_p s) (take 4 (t2_txBuf s)) No_callback (s\<lparr>reset_timer := True\<rparr>) of (ok, s1) \<Rightarrow>
        if ok then s1 else frag_req_loop n (s1\<lparr>flag_retry_frag_req_once := of_nat n\<rparr>))"

definition send_frag_req_cmd :: "ts \<Rightarrow> ts" where
  "send_frag_req_cmd s =
     (let off = get_next_missing_offset s
      in if off = 0 then t2_sm_post_event EV_SUCCESS s
         else if rcb_session_id s > 0x0f then s
         else let s1 = put_tx 0 [COMMAND_CLASS_TRANSPORT_SERVICE, COMMAND_SEGMENT_REQUEST_V2,
                     push_bit 4 (rcb_session_id s) OR (of_nat (off div 256) AND 7), of_nat off] s;
                  s2 = frag_req_loop (unat (flag_retry_frag_req_once s1)) s1
              in (t2_sm_post_event EV_SUCCESS (s2\<lparr>rx_data_state := True\<rparr>))\<lparr>rx_timer := True\<rparr>)"

definition find_missing :: "ts \<Rightarrow> ts" where
  "find_missing s =
     (if get_next_missing_offset s mod 256 \<noteq> 0 then
        if rx_flags (rcb_p s) = RECEIVE_STATUS_TYPE_BROAD then discard_all_received_fragments s
        else send_frag_req_cmd (t2_sm_post_event EV_MISSING_FRAG s)
      else if rx_flags (rcb_p s) = RECEIVE_STATUS_TYPE_BROAD then s
      else send_frag_complete_cmd (t2_sm_post_event EV_SEND_FRAG_COMPLETE s))"

definition rx_timer_expired :: "ts \<Rightarrow> ts" where
  "rx_timer_expired s =
     (let s1 = t2_sm_post_event EV_FRAG_RX_TIMER (s\<lparr>rx_timer := False\<rparr>)
      in if rx_data_state s \<and> get_next_missing_offset s1 \<noteq> 0 then discard_all_received_fragments s1
         else find_missing s1)"

text \<open>The loop sets the bit of every byte and stops behind the byte 201.\<close>

fun mark_bytes :: "nat \<Rightarrow> nat \<Rightarrow> buffer \<Rightarrow> buffer" where
  "mark_bytes i 0 m = m"
| "mark_bytes i (Suc n) m =
     (let m' = m[i div 8 := (m ! (i div 8)) OR push_bit (i mod 8) 1]
      in if i > DATAGRAM_SIZE_MAX then m' else mark_bytes (Suc i) n m')"

definition mark_frag_received :: "nat \<Rightarrow> nat \<Rightarrow> ts \<Rightarrow> bool \<times> ts" where
  "mark_frag_received offset n s =
     (if offset \<noteq> 0 \<and> \<not> bit (bytes_recvd_bitmask s ! 0) 0
      then (True, queue_frag_wait (t2_sm_post_event EV_SUBSEQ_DIFF_SESSION s))
      else (False, s\<lparr>bytes_recvd_bitmask := mark_bytes offset n (bytes_recvd_bitmask s)\<rparr>))"

text \<open>The eleven bits of a size or an offset.\<close>

definition field11 :: "byte \<Rightarrow> byte \<Rightarrow> nat" where
  "field11 hi lo = unat (hi AND 7) * 256 + unat lo"

definition copy_in :: "nat \<Rightarrow> buffer \<Rightarrow> ts \<Rightarrow> ts" where
  "copy_in off xs s = s\<lparr>datagramData := take DATAGRAM_SIZE_MAX (wr off xs (datagramData s)),
     ts_fault := (ts_fault s \<or> off + length xs > DATAGRAM_SIZE_MAX)\<rparr>"

definition payload :: "nat \<Rightarrow> nat \<Rightarrow> buffer \<Rightarrow> buffer" where
  "payload off n frame = take n (drop off frame @ replicate n 0)"

definition tie_abort :: "ts \<Rightarrow> ts" where
  "tie_abort s = (if flag_tie_broken s then s\<lparr>transmission_aborted := scb_session_id s\<rparr> else s)"

definition receive_first :: "buffer \<Rightarrow> nat \<Rightarrow> ts \<Rightarrow> ts" where
  "receive_first f len s0 =
     (let s = tie_abort s0; sid = drop_bit 4 (byte_at f 3); dsize = field11 (byte_at f 1) (byte_at f 2); n = len - 6
      in if len \<le> 6 then t2_sm_post_event EV_RECV_NEW_FRAG s
         else if zgw_crc16 0x1D0F (take len f) \<noteq> 0 then t2_sm_post_event EV_RECV_NEW_FRAG s
         else if sid \<noteq> rcb_session_id s \<and> rcb_session_id s \<noteq> NO_SESSION then t2_sm_post_event EV_DIFF_SESSION s
         else if dsize > DATAGRAM_SIZE_MAX then t2_sm_post_event EV_DIFF_SESSION s
         else let s1 = s\<lparr>rx_timer := True, rcb_session_id := sid,
                    recv_frag_compl_list := (recv_frag_compl_list s)[unat sid := False], cur_recvd_data_size := n,
                    datagram_size := dsize, bytes_recvd_bitmask := replicate BITMASK_SIZE 0, current_snode := snode (rcb_p s)\<rparr>
         in case mark_frag_received 0 n (copy_in 0 (payload 4 n f) s1) of (stop, s2) \<Rightarrow>
           if stop then s2
           else if n = dsize then send_frag_complete_cmd (t2_sm_post_event EV_SEND_FRAG_COMPLETE s2)
           else s2\<lparr>rx_data_state := False\<rparr>)"

definition receive_subseq :: "buffer \<Rightarrow> nat \<Rightarrow> ts \<Rightarrow> ts" where
  "receive_subseq f len s0 =
     (let s = tie_abort s0; sid = drop_bit 4 (byte_at f 3); off = field11 (byte_at f 3) (byte_at f 4);
          dsize = field11 (byte_at f 1) (byte_at f 2); n = len - 7
      in if len \<le> 7 then t2_sm_post_event EV_RECV_NEW_FRAG s
         else if zgw_crc16 0x1D0F (take len f) \<noteq> 0 then t2_sm_post_event EV_RECV_NEW_FRAG s
         else if recv_frag_compl_list s ! unat sid then
           (if current_state s = ST_RECEIVING then t2_sm_post_event EV_DUPL_FRAME s else s)
         else if sid \<noteq> rcb_session_id s \<and> rcb_session_id s \<noteq> NO_SESSION then t2_sm_post_event EV_DIFF_SESSION s
         else let s1 = s\<lparr>cur_recvd_data_size := n\<rparr>
         in if off + n > DATAGRAM_SIZE_MAX then
              (if current_state s1 = ST_RECEIVING then t2_sm_post_event EV_DUPL_FRAME s1 else s1)
            else if dsize > DATAGRAM_SIZE_MAX then t2_sm_post_event EV_DIFF_SESSION s1
            else case mark_frag_received off n (s1\<lparr>rx_timer := True\<rparr>) of (stop, s2) \<Rightarrow>
              if stop then s2
              else let s3 = copy_in off (payload 5 n f) (s2\<lparr>datagram_size := dsize\<rparr>)
                in if off + n \<ge> dsize then find_missing (t2_sm_post_event EV_RECV_LAST_FRAG s3)
                   else s3\<lparr>rx_data_state := False\<rparr>)"

text \<open>The tests that segment request and segment complete share: the session, and the node it came from.\<close>

definition check_session :: "byte \<Rightarrow> (ts \<Rightarrow> ts) \<Rightarrow> ts \<Rightarrow> ts" where
  "check_session sid cont s =
     (if sid = transmission_aborted s then t2_sm_post_event EV_FRAG_REQ_COMPL_WAIT_DIFF_SESSION s
      else if sid \<noteq> scb_session_id s then t2_sm_post_event EV_FRAG_REQ_COMPL_WAIT_DIFF_SESSION s
      else if snode (rcb_p s) \<noteq> current_dnode s \<and> current_snode s \<noteq> 0 then t2_sm_post_event EV_FRAG_REQ_COMPL_WAIT_DIFF_NODE s
      else cont (s\<lparr>fc_timer := False\<rparr>))"

definition receive_request :: "buffer \<Rightarrow> ts \<Rightarrow> ts" where
  "receive_request f s =
     check_session (drop_bit 4 (byte_at f 2))
       (\<lambda>s1. let s2 = t2_sm_post_event EV_RECV_FRAG_REQ (s1\<lparr>missing_offset := field11 (byte_at f 2) (byte_at f 3)\<rparr>)
             in if sending s2 then s2\<lparr>flag_reply_frag_req := True\<rparr> else reply_frag_req s2)
       (t2_sm_post_event EV_FRAG_REQ_OR_COMPL s)"

definition receive_complete :: "buffer \<Rightarrow> ts \<Rightarrow> ts" where
  "receive_complete f s =
     check_session (drop_bit 4 (byte_at f 2))
       (\<lambda>s1. t2_sm_post_event EV_RECV_FRAG_COMPL
          (completed S2_TRANSMIT_COMPLETE_OK ((set_frag_compl (drop_bit 4 (byte_at f 2)) True s1)\<lparr>current_dnode := 0\<rparr>)))
       (t2_sm_post_event EV_FRAG_REQ_OR_COMPL s)"

definition receive_wait :: "buffer \<Rightarrow> ts \<Rightarrow> ts" where
  "receive_wait f s =
     (if get_frag_compl (scb_session_id s) s then t2_sm_post_event EV_DUPL_FRAME s
      else let s1 = t2_sm_post_event EV_RECV_FRAG_WAIT s;
               s2 = ZCB_ts_senddata_cb (s1\<lparr>transmission_aborted := scb_session_id s1\<rparr>)
           in s2\<lparr>rcb_pending_segments := byte_at f 2, wait_restart_timer := True\<rparr>)"

definition receive :: "buffer \<Rightarrow> nat \<Rightarrow> ts \<Rightarrow> ts" where
  "receive f len s =
     (let cmd = byte_at f 1 AND 0xf8
      in if byte_at f 0 \<noteq> COMMAND_CLASS_TRANSPORT_SERVICE then s
         else if cmd = COMMAND_FIRST_FRAGMENT then receive_first f len s
         else if cmd = COMMAND_SUBSEQUENT_FRAGMENT then receive_subseq f len s
         else if cmd = COMMAND_SEGMENT_REQUEST_V2 then receive_request f s
         else if cmd = COMMAND_SEGMENT_COMPLETE_V2 then receive_complete f s
         else if cmd = COMMAND_SEGMENT_WAIT_V2 then receive_wait f s
         else s)"

definition ZW_TransportService_Init :: "bool \<Rightarrow> ts \<Rightarrow> ts" where
  "ZW_TransportService_Init commandHandler s = s\<lparr>TSApplicationCommandHandler := commandHandler\<rparr>"

definition initialize_once :: "ts \<Rightarrow> ts" where
  "initialize_once s =
     (if flag_initialize_once s then
        s\<lparr>flag_initialize_once := False, rcb_p := zero_param, rcb_session_id := NO_SESSION, rcb_pending_segments := 0,
          flag_retry_frag_req_once := 1, cur_recvd_data_size := 0, current_snode := 0,
          datagramData := replicate DATAGRAM_SIZE_MAX 0, bytes_recvd_bitmask := replicate BITMASK_SIZE 0\<rparr>
      else s)"

definition third_node :: "ts_param \<Rightarrow> ts \<Rightarrow> bool" where
  "third_node p s \<longleftrightarrow> snode p \<noteq> current_snode s \<and> current_snode s \<noteq> 0 \<or> snode p \<noteq> current_dnode s \<and> current_dnode s \<noteq> 0"

definition tie_break :: "byte \<Rightarrow> ts_param \<Rightarrow> ts \<Rightarrow> ts" where
  "tie_break my p s =
     (if ZW_TransportService_Is_Sending s \<and> dnode (scb_p s) = snode p \<and> ucast my < snode p
      then (t2_sm_post_event EV_TIE_BREAK s)\<lparr>flag_tie_broken := True\<rparr> else s)"

text \<open>
  \<open>my\<close> is \<open>MyNodeID\<close> as this file declares it, a byte; \<open>pCmd\<close> is the memory behind the pointer, of which the
  first \<open>cmdLength\<close> bytes are the frame. Bytes 1 to 4 are read whatever the length.
\<close>

definition TransportService_ApplicationCommandHandler :: "byte \<Rightarrow> ts_param \<Rightarrow> buffer \<Rightarrow> byte \<Rightarrow> ts \<Rightarrow> ts" where
  "TransportService_ApplicationCommandHandler my p pCmd cmdLength s =
     (let s1 = tie_break my p (s\<lparr>reset_timer := True\<rparr>)
      in if snode p = dnode p then s1
         else if unat cmdLength > DATAGRAM_SIZE_MAX then s1
         else let s2 = s1\<lparr>frag_wait_p := p\<rparr>
         in if third_node p s2 \<and> rx_flags p = RECEIVE_STATUS_TYPE_SINGLE then
              (if current_state s2 = ST_SEND_FRAG_WAIT then s2
               else queue_frag_wait (t2_sm_post_event EV_SCAST_DIFF_NODE s2))
            else if third_node p s2 \<and> rx_flags p = RECEIVE_STATUS_TYPE_BROAD then t2_sm_post_event EV_BCAST_DIFF_NODE s2
            else if rcb_session_id s2 = NO_SESSION \<and> byte_at pCmd 1 AND 0xf8 = COMMAND_SUBSEQUENT_FRAGMENT then
              (if field11 (byte_at pCmd 1) (byte_at pCmd 2) > DATAGRAM_SIZE_MAX then t2_sm_post_event EV_DIFF_SESSION s2
               else queue_frag_wait (t2_sm_post_event EV_SUBSEQ_DIFF_SESSION s2))
            else let s3 = (case current_state s2 of
                             ST_IDLE \<Rightarrow> t2_sm_post_event EV_START_RECV s2
                           | ST_RECEIVING \<Rightarrow> t2_sm_post_event EV_RECV_NEW_FRAG s2
                           | _ \<Rightarrow> s2)
              in receive pCmd (unat cmdLength) ((initialize_once s3)\<lparr>rcb_p := p\<rparr>))"

end
