(* ===== verification/Transport_Run.thy ===== *)
theory Transport_Run
  imports Transport_Service
begin

text \<open>
  The transport service as a machine driven by its environment: requests to send, received frames, the
  callbacks of the radio and the five timers, in any order. The main result is the safety of reassembly:
  whatever of the segments is lost, repeated, reordered or damaged, and whatever else happens in between, a
  datagram that is handed to the application is one that was sent, as long as no segment of another datagram
  with the number of the open session is let in.
\<close>

section \<open>The machine\<close>

datatype ts_input =
    Send nat ts_param buffer bool
  | Frame byte ts_param buffer byte
  | RawDone raw_callback byte
  | FcTimer | RxTimer | ResetTimer | RestartTimer nat | BtwnTimer

text \<open>A timer calls its function only while it runs, and does not run any more when it does.\<close>

fun ts_step :: "ts_input \<Rightarrow> ts \<Rightarrow> ts" where
  "ts_step (Send rnd p d fn) s = snd (ZW_TransportService_SendData rnd p d fn s)"
| "ts_step (Frame my p f len) s = TransportService_ApplicationCommandHandler my p f len s"
| "ts_step (RawDone ZCB_ts_senddata st) s = ZCB_ts_senddata_cb s"
| "ts_step (RawDone ZCB_last_frag st) s = ZCB_temp_callback_last_frag st s"
| "ts_step (RawDone ZCB_reply_frag_req st) s = ZCB_temp_callback_reply_frag_req st s"
| "ts_step (RawDone No_callback st) s = s"
| "ts_step FcTimer s = (if fc_timer s then fc_timer_expired (s\<lparr>fc_timer := False\<rparr>) else s)"
| "ts_step RxTimer s = (if rx_timer s then rx_timer_expired (s\<lparr>rx_timer := False\<rparr>) else s)"
| "ts_step ResetTimer s = (if reset_timer s then reset_transport_service (s\<lparr>reset_timer := False\<rparr>) else s)"
| "ts_step (RestartTimer rnd) s =
     (if wait_restart_timer s then wait_restart_from_first rnd (s\<lparr>wait_restart_timer := False\<rparr>) else s)"
| "ts_step BtwnTimer s = (if timer_btwn_2_frags s then send_subseq_frag (s\<lparr>timer_btwn_2_frags := False\<rparr>) else s)"

definition ts_run :: "ts_input list \<Rightarrow> ts \<Rightarrow> ts" where
  "ts_run is s = fold ts_step is s"

text \<open>The static variables at the start of the program.\<close>

definition ts_start :: ts where
  "ts_start = \<lparr>current_state = ST_IDLE, flag_tie_broken = False, flag_initialize_once = True, FragmentMaxPayload = 0,
     t2_txBuf = replicate TXBUF_SIZE 0, datalen_to_send = 0, missing_offset = 0, remaining_data_len = 0, scb_p = zero_param,
     completedFunc = False, scb_session_id = 0, scb_pending_segments = 0, datagram = [], sending = False,
     flag_replied_frag_req = False, transmission_aborted = 0, frag_compl_list = replicate 15 False,
     flag_send_frag_wait = False, flag_reply_frag_req = False, frag_wait_p = zero_param, flag_fc_timer_expired_once = 0,
     current_dnode = 0, does_not_fit_in_first_frag = False, rcb_p = zero_param, rcb_session_id = 0,
     rcb_pending_segments = 0, flag_retry_frag_req_once = 0, recv_frag_compl_list = replicate 16 False,
     datagramData = replicate DATAGRAM_SIZE_MAX 0, cur_recvd_data_size = 0, current_snode = 0,
     bytes_recvd_bitmask = replicate BITMASK_SIZE 0, datagram_size = 0, rx_data_state = False, reset_timer = False,
     wait_restart_timer = False, timer_btwn_2_frags = False, fc_timer = False, rx_timer = False,
     TSApplicationCommandHandler = False, radio = [], ts_outs = [], ts_fault = False\<rparr>"

section \<open>What the receiver's state depends on\<close>

fun deliveries :: "ts_out list \<Rightarrow> (nodeid \<times> nodeid \<times> buffer) list" where
  "deliveries [] = []"
| "deliveries (Deliver x y d # es) = (x, y, d) # deliveries es"
| "deliveries (e # es) = deliveries es"

definition rx_view ::
  "ts \<Rightarrow> bool \<times> byte \<times> ts_param \<times> buffer \<times> buffer \<times> nat \<times> nodeid \<times> bool \<times> (nodeid \<times> nodeid \<times> buffer) list" where
  "rx_view s = (flag_initialize_once s, rcb_session_id s, rcb_p s, datagramData s, bytes_recvd_bitmask s, datagram_size s,
     current_snode s, rx_timer s, deliveries (ts_outs s))"

named_theorems rx_simps \<open>functions that leave the receiver's state alone\<close>

lemma rx_post [rx_simps]: "rx_view (t2_sm_post_event e s) = rx_view s"
  by (simp add: rx_view_def t2_sm_post_event_def)

lemma rx_completed [rx_simps]: "rx_view (completed b s) = rx_view s"
  by (simp add: rx_view_def completed_def ts_emit_def)

lemma rx_raw [rx_simps]: "rx_view (snd (TS_SEND_RAW a b f t c s)) = rx_view s"
  by (cases "radio s") (simp_all add: rx_view_def TS_SEND_RAW_def ts_emit_def)

lemma rx_raw_pair: "TS_SEND_RAW a b f t c s = (ok, s') \<Longrightarrow> rx_view s' = rx_view s"
  using rx_raw [of a b f t c s] by simp

lemma rx_cmd [rx_simps]: "rx_view (snd (raw_cmd p f c s)) = rx_view s"
  by (simp add: raw_cmd_def rx_raw)

lemma rx_tx [rx_simps]: "rx_view (snd (send_txBuf n c s)) = rx_view s"
  by (simp add: send_txBuf_def rx_raw)

lemma rx_tx_pair: "send_txBuf n c s = (ok, s') \<Longrightarrow> rx_view s' = rx_view s"
  using rx_tx [of n c s] by simp

lemma rx_put [rx_simps]: "rx_view (put_tx n xs s) = rx_view s"
  by (simp add: rx_view_def put_tx_def)

lemma rx_copy [rx_simps]: "rx_view (copy_datagram d n m s) = rx_view s"
  by (simp add: rx_view_def copy_datagram_def put_tx_def)

lemma rx_crc [rx_simps]: "rx_view (add_crc n s) = rx_view s"
  by (simp add: add_crc_def Let_def rx_put)

lemma rx_set_frag_compl [rx_simps]: "rx_view (set_frag_compl i b s) = rx_view s"
  by (simp add: rx_view_def set_frag_compl_def)

text \<open>Assignments to fields that are not part of the view.\<close>

lemma rx_fields [rx_simps]:
  "rx_view (s\<lparr>fc_timer := a\<rparr>) = rx_view s" "rx_view (s\<lparr>reset_timer := a\<rparr>) = rx_view s"
  "rx_view (s\<lparr>sending := a\<rparr>) = rx_view s" "rx_view (s\<lparr>scb_pending_segments := b\<rparr>) = rx_view s"
  "rx_view (s\<lparr>transmission_aborted := b\<rparr>) = rx_view s" "rx_view (s\<lparr>flag_replied_frag_req := a\<rparr>) = rx_view s"
  "rx_view (s\<lparr>current_dnode := w\<rparr>) = rx_view s" "rx_view (s\<lparr>flag_fc_timer_expired_once := b\<rparr>) = rx_view s"
  "rx_view (s\<lparr>remaining_data_len := n\<rparr>) = rx_view s" "rx_view (s\<lparr>datalen_to_send := n\<rparr>) = rx_view s"
  "rx_view (s\<lparr>does_not_fit_in_first_frag := a\<rparr>) = rx_view s" "rx_view (s\<lparr>scb_session_id := b\<rparr>) = rx_view s"
  "rx_view (s\<lparr>FragmentMaxPayload := n\<rparr>) = rx_view s" "rx_view (s\<lparr>ts_fault := a\<rparr>) = rx_view s"
  "rx_view (s\<lparr>flag_reply_frag_req := a\<rparr>) = rx_view s" "rx_view (s\<lparr>flag_send_frag_wait := a\<rparr>) = rx_view s"
  "rx_view (s\<lparr>timer_btwn_2_frags := a\<rparr>) = rx_view s" "rx_view (s\<lparr>wait_restart_timer := a\<rparr>) = rx_view s"
  "rx_view (s\<lparr>rcb_pending_segments := b\<rparr>) = rx_view s" "rx_view (s\<lparr>missing_offset := n\<rparr>) = rx_view s"
  "rx_view (s\<lparr>datagram := d\<rparr>) = rx_view s" "rx_view (s\<lparr>scb_p := p\<rparr>) = rx_view s" "rx_view (s\<lparr>completedFunc := a\<rparr>) = rx_view s"
  "rx_view (s\<lparr>frag_wait_p := p\<rparr>) = rx_view s" "rx_view (s\<lparr>flag_tie_broken := a\<rparr>) = rx_view s"
  "rx_view (s\<lparr>rx_data_state := a\<rparr>) = rx_view s" "rx_view (s\<lparr>cur_recvd_data_size := n\<rparr>) = rx_view s"
  "rx_view (s\<lparr>recv_frag_compl_list := l\<rparr>) = rx_view s" "rx_view (s\<lparr>flag_retry_frag_req_once := b\<rparr>) = rx_view s"
  "rx_view (s\<lparr>current_state := st\<rparr>) = rx_view s" "rx_view (s\<lparr>TSApplicationCommandHandler := a\<rparr>) = rx_view s"
  by (simp_all add: rx_view_def)

lemma rx_send_until [rx_simps]: "rx_view (send_until_accepted len n s) = rx_view s"
  by (induction len n s rule: send_until_accepted.induct) (auto simp: rx_simps split: prod.split dest: rx_tx_pair)

lemma rx_last_frag [rx_simps]: "rx_view (send_last_frag s) = rx_view s"
  by (simp add: send_last_frag_def Let_def rx_simps)

lemma rx_fc_timer [rx_simps]: "rx_view (fc_timer_expired s) = rx_view s"
  by (simp add: fc_timer_expired_def Let_def rx_simps)

lemma rx_subseq_frag [rx_simps]: "rx_view (send_subseq_frag s) = rx_view s"
  by (auto simp: send_subseq_frag_def Let_def rx_simps split: prod.split dest!: rx_tx_pair)

lemma rx_first_frag [rx_simps]: "rx_view (send_first_frag rnd s) = rx_view s"
  by (auto simp: send_first_frag_def Let_def rx_simps split: prod.split dest!: rx_tx_pair)

lemma rx_SendData [rx_simps]: "rx_view (snd (ZW_TransportService_SendData rnd p d fn s)) = rx_view s"
  by (simp add: ZW_TransportService_SendData_def Let_def rx_simps rx_completed split: ts_state.split)
    (simp add: rx_view_def ts_emit_def)

lemma rx_reply [rx_simps]: "rx_view (reply_frag_req s) = rx_view s"
  by (simp add: reply_frag_req_def Let_def rx_simps)

lemma rx_wait_cmd [rx_simps]: "rx_view (send_frag_wait_cmd s) = rx_view s"
  by (simp add: send_frag_wait_cmd_def Let_def rx_simps)

lemma rx_queue_wait [rx_simps]: "rx_view (queue_frag_wait s) = rx_view s"
  by (simp add: queue_frag_wait_def rx_simps)

lemma rx_senddata_cb [rx_simps]: "rx_view (ZCB_ts_senddata_cb s) = rx_view s"
  by (simp add: ZCB_ts_senddata_cb_def rx_simps)

lemma rx_reply_cb [rx_simps]: "rx_view (ZCB_temp_callback_reply_frag_req st s) = rx_view s"
  by (simp add: ZCB_temp_callback_reply_frag_req_def rx_simps)

lemma rx_last_cb [rx_simps]: "rx_view (ZCB_temp_callback_last_frag st s) = rx_view s"
  by (simp add: ZCB_temp_callback_last_frag_def)

lemma rx_check_session [rx_simps]: "(\<And>s. rx_view (c s) = rx_view s) \<Longrightarrow> rx_view (check_session sid c s) = rx_view s"
  by (simp add: check_session_def rx_simps)

lemma rx_receive_request [rx_simps]: "rx_view (receive_request f s) = rx_view s"
  by (simp add: receive_request_def Let_def rx_simps)

lemma rx_receive_complete [rx_simps]: "rx_view (receive_complete f s) = rx_view s"
  by (simp add: receive_complete_def rx_simps)

lemma rx_receive_wait [rx_simps]: "rx_view (receive_wait f s) = rx_view s"
  by (simp add: receive_wait_def Let_def rx_simps)

lemma rx_tie_break [rx_simps]: "rx_view (tie_break my p s) = rx_view s"
  by (simp add: tie_break_def rx_simps)

lemma rx_tie_abort [rx_simps]: "rx_view (tie_abort s) = rx_view s"
  by (simp add: tie_abort_def rx_simps)

lemma rx_cmd_pair: "raw_cmd p f c s = (ok, s') \<Longrightarrow> rx_view s' = rx_view s"
  using rx_cmd [of p f c s] by simp

lemma rx_frag_req_loop [rx_simps]: "rx_view (frag_req_loop n s) = rx_view s"
  by (induction n s rule: frag_req_loop.induct) (auto simp: rx_simps split: prod.split dest!: rx_cmd_pair)

section \<open>The bit mask of the received bytes\<close>

definition marked :: "buffer \<Rightarrow> nat \<Rightarrow> bool" where
  "marked m k = bit (m ! (k div 8)) (k mod 8)"

lemma length_mark_bytes [simp]: "length (mark_bytes i n m) = length m"
  by (induction i n m rule: mark_bytes.induct) (simp_all add: Let_def)

lemma marked_set:
  assumes "i div 8 < length m" "k div 8 < length m"
  shows "marked (m[i div 8 := (m ! (i div 8)) OR push_bit (i mod 8) 1]) k \<longleftrightarrow> k = i \<or> marked m k"
proof (cases "k div 8 = i div 8")
  case True
  have "bit (push_bit (i mod 8) (1 :: byte)) (k mod 8) \<longleftrightarrow> k mod 8 = i mod 8"
    by (auto simp: bit_exp_iff)
  moreover have "k = i \<longleftrightarrow> k mod 8 = i mod 8" using True by (metis div_mult_mod_eq)
  ultimately show ?thesis using True assms by (auto simp: marked_def bit_or_iff)
next
  case False
  then show ?thesis using assms by (auto simp: marked_def)
qed

lemma marked_mark_bytes:
  assumes "length m = BITMASK_SIZE" "i + n \<le> DATAGRAM_SIZE_MAX" "k < 8 * BITMASK_SIZE"
  shows "marked (mark_bytes i n m) k \<longleftrightarrow> i \<le> k \<and> k < i + n \<or> marked m k"
  using assms
proof (induction i n m rule: mark_bytes.induct)
  case (2 i n m)
  have "i div 8 < length m" "k div 8 < length m" using 2 by auto
  from marked_set [OF this] 2 show ?case by (auto simp: Let_def)
qed auto

lemma marked_empty [simp]: "k < 8 * BITMASK_SIZE \<Longrightarrow> \<not> marked (replicate BITMASK_SIZE 0) k"
  by (simp add: marked_def less_mult_imp_div_less mult.commute)

lemma find_upt_None: "find P [0..<n] = None \<longleftrightarrow> (\<forall>k<n. \<not> P k)"
  by (simp add: find_None_iff)

lemma missing_zero_iff:
  assumes "datagram_size s \<le> DATAGRAM_SIZE_MAX"
  shows "get_next_missing_offset s = 0 \<longleftrightarrow> (\<forall>k. 0 < k \<longrightarrow> k < datagram_size s \<longrightarrow> marked (bytes_recvd_bitmask s) k)"
proof (cases "find (\<lambda>k. \<not> bit (bytes_recvd_bitmask s ! (k div 8)) (k mod 8) \<and> k \<noteq> 0) [0..<8 * BITMASK_SIZE]")
  case None
  then have "marked (bytes_recvd_bitmask s) k" if "0 < k" "k < 208" for k
    using that by (auto simp: find_None_iff marked_def)
  then show ?thesis using None assms by (simp add: get_next_missing_offset_def)
next
  case (Some k)
  then obtain i where i: "i < 208" "k = i" "\<not> marked (bytes_recvd_bitmask s) k" "k \<noteq> 0"
    "\<forall>j<i. marked (bytes_recvd_bitmask s) j \<or> j = 0"
    by (fastforce simp: find_Some_iff marked_def)
  then have "marked (bytes_recvd_bitmask s) j" if "0 < j" "j < k" for j using that by auto
  with i Some show ?thesis by (auto simp: get_next_missing_offset_def)
qed

lemma missing_bound: "get_next_missing_offset s < 256"
proof (cases "find (\<lambda>k. \<not> bit (bytes_recvd_bitmask s ! (k div 8)) (k mod 8) \<and> k \<noteq> 0) [0..<8 * BITMASK_SIZE]")
  case (Some k)
  then have "k < 208" by (auto simp: find_Some_iff)
  then show ?thesis using Some by (simp add: get_next_missing_offset_def)
qed (simp add: get_next_missing_offset_def)

section \<open>The invariant of reassembly\<close>

text \<open>
  \<open>D x i\<close> is the datagram that node \<open>x\<close> sends in its session \<open>i\<close> at present, \<open>G x\<close> all the datagrams that it ever sends.
  While a session is open, every marked byte of the buffer is the byte of its present datagram.
\<close>

definition session_ok :: "(nodeid \<Rightarrow> byte \<Rightarrow> buffer) \<Rightarrow> ts \<Rightarrow> bool" where
  "session_ok D s \<longleftrightarrow>
     (let d = D (current_snode s) (rcb_session_id s)
      in current_snode s \<noteq> 0 \<and> snode (rcb_p s) = current_snode s \<and> marked (bytes_recvd_bitmask s) 0 \<and>
         datagram_size s = length d \<and>
         (\<forall>k < 8 * BITMASK_SIZE. marked (bytes_recvd_bitmask s) k \<longrightarrow> k < length d \<and> datagramData s ! k = d ! k))"

definition rx_inv :: "(nodeid \<Rightarrow> buffer set) \<Rightarrow> (nodeid \<Rightarrow> byte \<Rightarrow> buffer) \<Rightarrow> ts \<Rightarrow> bool" where
  "rx_inv G D s \<longleftrightarrow>
     length (datagramData s) = DATAGRAM_SIZE_MAX \<and> length (bytes_recvd_bitmask s) = BITMASK_SIZE \<and>
     datagram_size s \<le> DATAGRAM_SIZE_MAX \<and> (flag_initialize_once s \<longrightarrow> \<not> rx_timer s) \<and>
     (\<not> flag_initialize_once s \<longrightarrow> rcb_session_id s \<noteq> NO_SESSION \<longrightarrow> session_ok D s) \<and>
     (\<forall>x i. D x i \<in> G x) \<and> (\<forall>(x, y, e) \<in> set (deliveries (ts_outs s)). e \<in> G x)"

lemma rx_inv_cong: "rx_view s' = rx_view s \<Longrightarrow> rx_inv G D s' = rx_inv G D s"
  by (simp add: rx_view_def rx_inv_def session_ok_def)

text \<open>What is left of the invariant when the open session is forgotten.\<close>

abbreviation rx_base :: "(nodeid \<Rightarrow> buffer set) \<Rightarrow> (nodeid \<Rightarrow> byte \<Rightarrow> buffer) \<Rightarrow> ts \<Rightarrow> bool" where
  "rx_base G D s \<equiv> rx_inv G D (s\<lparr>rcb_session_id := NO_SESSION\<rparr>)"

lemma rx_base_cong: "rx_view s' = rx_view s \<Longrightarrow> rx_base G D s' = rx_base G D s"
  by (simp add: rx_view_def rx_inv_def)

lemma rx_base_inv: "rx_inv G D s \<Longrightarrow> \<forall>x i. E x i \<in> G x \<Longrightarrow> rx_base G E s"
  by (simp add: rx_inv_def)

lemma rx_inv_fields:
  "flag_initialize_once (t2_sm_post_event e s) = flag_initialize_once s"
  "bytes_recvd_bitmask (t2_sm_post_event e s) = bytes_recvd_bitmask s"
  "datagram_size (t2_sm_post_event e s) = datagram_size s"
  "rcb_session_id (t2_sm_post_event e s) = rcb_session_id s"
  by (simp_all add: t2_sm_post_event_def)

lemma rx_inv_complete:
  assumes "rx_inv G D s" "\<not> flag_initialize_once s" "rcb_session_id s \<noteq> NO_SESSION"
    and "\<forall>k. k < datagram_size s \<longrightarrow> marked (bytes_recvd_bitmask s) k"
  shows "take (datagram_size s) (datagramData s) = D (snode (rcb_p s)) (rcb_session_id s)"
proof (rule nth_equalityI)
  from assms have ok: "session_ok D s" and sz: "datagram_size s \<le> 200" "length (datagramData s) = 200"
    by (auto simp: rx_inv_def)
  then have len: "datagram_size s = length (D (snode (rcb_p s)) (rcb_session_id s))"
    by (simp add: session_ok_def Let_def)
  with sz show "length (take (datagram_size s) (datagramData s)) = length (D (snode (rcb_p s)) (rcb_session_id s))"
    by simp
  fix k assume "k < length (take (datagram_size s) (datagramData s))"
  then have "k < datagram_size s" "k < 208" using sz by auto
  with assms(4) ok show "take (datagram_size s) (datagramData s) ! k = D (snode (rcb_p s)) (rcb_session_id s) ! k"
    by (auto simp: session_ok_def Let_def)
qed

lemma raw_cmd_view:
  "rcb_session_id (snd (raw_cmd p f c s)) = rcb_session_id s" "rcb_p (snd (raw_cmd p f c s)) = rcb_p s"
  "datagram_size (snd (raw_cmd p f c s)) = datagram_size s" "datagramData (snd (raw_cmd p f c s)) = datagramData s"
  "deliveries (ts_outs (snd (raw_cmd p f c s))) = deliveries (ts_outs s)"
  using rx_cmd [of p f c s] by (simp_all add: rx_view_def)

lemma rx_view_send_complete:
  assumes "rcb_session_id s \<le> 0xf"
  shows "rx_view (send_frag_complete_cmd s) =
    (flag_initialize_once s, NO_SESSION, rcb_p s, datagramData s, bytes_recvd_bitmask s, datagram_size s, 0, False,
     (if TSApplicationCommandHandler s
      then (snode (rcb_p s), dnode (rcb_p s), take (datagram_size s) (datagramData s)) # deliveries (ts_outs s)
      else deliveries (ts_outs s)))"
proof -
  let ?c = "snd (raw_cmd (rcb_p s) [0x55, 0xE8, push_bit 4 (rcb_session_id s)] No_callback (s\<lparr>reset_timer := True\<rparr>))"
  have "rx_view ?c = rx_view s" by (simp add: rx_simps)
  moreover have "TSApplicationCommandHandler ?c = TSApplicationCommandHandler s"
    by (cases "radio s") (simp_all add: raw_cmd_def TS_SEND_RAW_def ts_emit_def)
  ultimately show ?thesis
    using assms by (simp add: send_frag_complete_cmd_def Let_def rx_post not_less [symmetric]) (simp add: rx_view_def ts_emit_def)
qed

lemma rx_inv_send_complete:
  assumes inv: "rx_inv G D s" "\<not> flag_initialize_once s"
    and all: "\<forall>k. k < datagram_size s \<longrightarrow> marked (bytes_recvd_bitmask s) k"
  shows "rx_inv G D (send_frag_complete_cmd s)"
proof (cases "rcb_session_id s > 0xf")
  case True
  then show ?thesis using inv by (simp add: send_frag_complete_cmd_def)
next
  case False
  then have "rcb_session_id s \<noteq> NO_SESSION" by auto
  note d = rx_inv_complete [OF inv this all]
  from False have "rcb_session_id s \<le> 0xf" by simp
  from rx_view_send_complete [OF this] inv d show ?thesis
    by (auto simp: rx_inv_def rx_view_def split: if_splits)
qed

lemma rx_inv_send_req:
  assumes "rx_inv G D s" "\<not> flag_initialize_once s"
  shows "rx_inv G D (send_frag_req_cmd s)"
proof -
  have "rx_inv G D (s'\<lparr>rx_timer := True\<rparr>)" if "rx_view s' = rx_view s" for s'
    using that assms by (simp add: rx_view_def rx_inv_def session_ok_def)
  then show ?thesis
    using assms by (simp add: send_frag_req_cmd_def Let_def rx_simps rx_inv_cong [OF rx_post])
qed

lemma rx_inv_discard: "rx_inv G D s \<Longrightarrow> rx_inv G D (discard_all_received_fragments s)"
  by (simp add: rx_inv_def discard_all_received_fragments_def)

lemma rx_inv_find_missing:
  assumes inv: "rx_inv G D s" "\<not> flag_initialize_once s" and first: "rcb_session_id s = NO_SESSION \<or> marked (bytes_recvd_bitmask s) 0"
  shows "rx_inv G D (find_missing s)"
proof (cases "get_next_missing_offset s = 0")
  case True
  have sz: "datagram_size s \<le> 200" using inv by (simp add: rx_inv_def)
  show ?thesis
  proof (cases "rcb_session_id s = NO_SESSION")
    case True
    then have "send_frag_complete_cmd (t2_sm_post_event EV_SEND_FRAG_COMPLETE s) = t2_sm_post_event EV_SEND_FRAG_COMPLETE s"
      by (simp add: send_frag_complete_cmd_def t2_sm_post_event_def)
    with inv \<open>get_next_missing_offset s = 0\<close> show ?thesis by (simp add: find_missing_def rx_inv_cong [OF rx_post])
  next
    case False
    with first have "marked (bytes_recvd_bitmask s) 0" by simp
    with True missing_zero_iff [OF sz] have "\<forall>k. k < datagram_size s \<longrightarrow> marked (bytes_recvd_bitmask s) k"
      by (metis neq0_conv)
    with inv True show ?thesis
      by (simp add: find_missing_def rx_inv_send_complete rx_inv_cong [OF rx_post] rx_inv_fields)
  qed
next
  case False
  with missing_bound [of s] inv show ?thesis
    by (simp add: find_missing_def rx_inv_discard rx_inv_send_req rx_inv_cong [OF rx_post] rx_inv_fields)
qed

lemma rx_inv_rx_timer:
  assumes inv: "rx_inv G D s" "\<not> flag_initialize_once s"
  shows "rx_inv G D (rx_timer_expired s)"
proof -
  let ?s = "t2_sm_post_event EV_FRAG_RX_TIMER (s\<lparr>rx_timer := False\<rparr>)"
  have i: "rx_inv G D ?s" "\<not> flag_initialize_once ?s"
    using inv by (simp_all add: rx_inv_cong [OF rx_post] rx_inv_fields) (simp add: rx_inv_def session_ok_def)
  moreover have "rcb_session_id ?s = NO_SESSION \<or> marked (bytes_recvd_bitmask ?s) 0"
    using inv by (auto simp: rx_inv_def session_ok_def Let_def t2_sm_post_event_def)
  ultimately show ?thesis
    unfolding rx_timer_expired_def Let_def by (simp add: rx_inv_discard rx_inv_find_missing)
qed

section \<open>Segments\<close>

text \<open>
  A frame is a segment of one of the datagrams \<open>E\<close>, by session: its size field is the length of that datagram,
  and its payload is the part of the datagram that the offset field names.
\<close>

definition segment_of :: "(byte \<Rightarrow> buffer) \<Rightarrow> buffer \<Rightarrow> bool" where
  "segment_of E g \<longleftrightarrow>
     (let d = E (drop_bit 4 (byte_at g 3)); off = field11 (byte_at g 3) (byte_at g 4)
      in field11 (byte_at g 1) (byte_at g 2) = length d \<and>
         (if byte_at g 1 AND 0xf8 = COMMAND_FIRST_FRAGMENT
          then length g - 6 \<le> length d \<and> take (length g - 6) (drop 4 g) = take (length g - 6) d
          else off + (length g - 7) \<le> length d \<and> take (length g - 7) (drop 5 g) = take (length g - 7) (drop off d)))"

text \<open>A frame whose payload reaches the reassembly buffer.\<close>

definition data_frame :: "buffer \<Rightarrow> bool" where
  "data_frame g \<longleftrightarrow> zgw_crc16 0x1D0F g = 0 \<and>
     (byte_at g 1 AND 0xf8 = COMMAND_FIRST_FRAGMENT \<and> 6 < length g \<or>
      byte_at g 1 AND 0xf8 = COMMAND_SUBSEQUENT_FRAGMENT \<and> 7 < length g)"

text \<open>
  What is assumed of a single frame: it has a source node, and if it passes the checksum it is a segment of a
  datagram of its source node.
\<close>

fun honest :: "(nodeid \<Rightarrow> byte \<Rightarrow> buffer) \<Rightarrow> ts_input \<Rightarrow> bool" where
  "honest D (Frame my p f len) \<longleftrightarrow>
     snode p \<noteq> 0 \<and> unat len \<le> length f \<and>
     (data_frame (take (unat len) f) \<longrightarrow> segment_of (D (snode p)) (take (unat len) f))"
| "honest D _ \<longleftrightarrow> True"

text \<open>A session is open.\<close>

definition receiving :: "ts \<Rightarrow> bool" where
  "receiving s \<longleftrightarrow> \<not> flag_initialize_once s \<and> rcb_session_id s \<noteq> NO_SESSION"

text \<open>The frames of third nodes that the handler keeps out of the open session.\<close>

definition kept_apart :: "ts_param \<Rightarrow> ts \<Rightarrow> bool" where
  "kept_apart p s \<longleftrightarrow> third_node p s \<and> (rx_flags p = RECEIVE_STATUS_TYPE_SINGLE \<or> rx_flags p = RECEIVE_STATUS_TYPE_BROAD)"

text \<open>A first segment with the number of the open session: the handler starts the session anew.\<close>

fun restarts :: "ts_input \<Rightarrow> ts \<Rightarrow> bool" where
  "restarts (Frame my p f len) s \<longleftrightarrow>
     snode p \<noteq> dnode p \<and> unat len \<le> DATAGRAM_SIZE_MAX \<and> unat len \<le> length f \<and> \<not> kept_apart p s \<and>
     byte_at f 0 = COMMAND_CLASS_TRANSPORT_SERVICE \<and> byte_at f 1 AND 0xf8 = COMMAND_FIRST_FRAGMENT \<and>
     data_frame (take (unat len) f) \<and> drop_bit 4 (byte_at f 3) = rcb_session_id s \<and>
     field11 (byte_at f 1) (byte_at f 2) \<le> DATAGRAM_SIZE_MAX"
| "restarts _ s \<longleftrightarrow> False"

fun let_in :: "ts_input \<Rightarrow> ts \<Rightarrow> bool" where
  "let_in (Frame my p f len) s \<longleftrightarrow> third_node p s \<and> \<not> kept_apart p s"
| "let_in _ s \<longleftrightarrow> False"

text \<open>
  A run of the network: every input comes with the datagrams that the nodes send in their sessions at that
  time, which may change from one input to the next. While a session is open, a frame that does not restart
  it is not one of a third node that is let in, and the datagram of this session does not change.
\<close>

fun network_run :: "(nodeid \<Rightarrow> byte \<Rightarrow> buffer) \<Rightarrow> ((nodeid \<Rightarrow> byte \<Rightarrow> buffer) \<times> ts_input) list \<Rightarrow> ts \<Rightarrow> bool" where
  "network_run D [] s \<longleftrightarrow> True"
| "network_run D ((E, i) # es) s \<longleftrightarrow>
     honest E i \<and>
     (receiving s \<and> \<not> restarts i s \<longrightarrow>
        E (current_snode s) (rcb_session_id s) = D (current_snode s) (rcb_session_id s) \<and> \<not> let_in i s) \<and>
     network_run E es (ts_step i s)"

lemma byte_at_take [simp]: "i < n \<Longrightarrow> byte_at (take n f) i = byte_at f i"
  by (simp add: byte_at_def)

lemma payload_take: "off + n \<le> len \<Longrightarrow> len \<le> length f \<Longrightarrow> payload off n f = take n (drop off (take len f))"
  by (simp add: payload_def drop_take min_def)

lemma length_payload [simp]: "length (payload off n f) = n"
  by (simp add: payload_def)

lemma nth_wr:
  assumes "off + length xs \<le> length b" "k < length b"
  shows "wr off xs b ! k = (if off \<le> k \<and> k < off + length xs then xs ! (k - off) else b ! k)"
  using assms by (auto simp: wr_def nth_append min_def)

lemma length_wr_inside [simp]: "off + length xs \<le> length b \<Longrightarrow> length (wr off xs b) = length b"
  by (simp add: wr_def)

lemma copied_session:
  assumes len: "length data = DATAGRAM_SIZE_MAX" "length m = BITMASK_SIZE" "length xs = n"
    and seg: "off + n \<le> length d" "xs = take n (drop off d)" "length d \<le> DATAGRAM_SIZE_MAX"
    and old: "\<forall>k < 8 * BITMASK_SIZE. marked m k \<longrightarrow> k < length d \<and> data ! k = d ! k"
    and k: "k < 8 * BITMASK_SIZE" "marked (mark_bytes off n m) k"
  shows "k < length d \<and> take DATAGRAM_SIZE_MAX (wr off xs data) ! k = d ! k"
proof -
  have *: "off \<le> k \<and> k < off + n \<or> marked m k" using marked_mark_bytes len seg k by simp
  then have kd: "k < length d" using seg old k by auto
  have "wr off xs data ! k = d ! k"
    using * old k seg len kd by (subst nth_wr) auto
  with kd seg len show ?thesis by simp
qed

text \<open>The state after the bytes of a first segment are stored.\<close>

definition stored_first :: "buffer \<Rightarrow> nat \<Rightarrow> ts \<Rightarrow> ts" where
  "stored_first f n s =
     snd (mark_frag_received 0 n (copy_in 0 (payload 4 n f)
       (s\<lparr>rx_timer := True, rcb_session_id := drop_bit 4 (byte_at f 3),
          recv_frag_compl_list := (recv_frag_compl_list s)[unat (drop_bit 4 (byte_at f 3)) := False], cur_recvd_data_size := n,
          datagram_size := field11 (byte_at f 1) (byte_at f 2), bytes_recvd_bitmask := replicate BITMASK_SIZE 0,
          current_snode := snode (rcb_p s)\<rparr>)))"

lemma mark_first: "mark_frag_received 0 n s = (False, snd (mark_frag_received 0 n s))"
  by (simp add: mark_frag_received_def)

lemma receive_first_unfold:
  "receive_first f len s =
     (let s' = tie_abort s; sid = drop_bit 4 (byte_at f 3); ds = field11 (byte_at f 1) (byte_at f 2); s2 = stored_first f (len - 6) s'
      in if len \<le> 6 then t2_sm_post_event EV_RECV_NEW_FRAG s'
         else if zgw_crc16 0x1D0F (take len f) \<noteq> 0 then t2_sm_post_event EV_RECV_NEW_FRAG s'
         else if sid \<noteq> rcb_session_id s' \<and> rcb_session_id s' \<noteq> NO_SESSION then t2_sm_post_event EV_DIFF_SESSION s'
         else if ds > DATAGRAM_SIZE_MAX then t2_sm_post_event EV_DIFF_SESSION s'
         else if len - 6 = ds then send_frag_complete_cmd (t2_sm_post_event EV_SEND_FRAG_COMPLETE s2) else s2\<lparr>rx_data_state := False\<rparr>)"
  unfolding receive_first_def stored_first_def Let_def by (subst mark_first) (simp only: prod.case if_False)

lemma stored_first_view:
  "rx_view (stored_first f n s) = (flag_initialize_once s, drop_bit 4 (byte_at f 3), rcb_p s,
     take DATAGRAM_SIZE_MAX (wr 0 (payload 4 n f) (datagramData s)), mark_bytes 0 n (replicate BITMASK_SIZE 0),
     field11 (byte_at f 1) (byte_at f 2), snode (rcb_p s), True, deliveries (ts_outs s))"
  by (simp add: rx_view_def stored_first_def mark_frag_received_def copy_in_def)

lemma stored_first_inv:
  assumes inv: "rx_base G D s" "\<not> flag_initialize_once s" and src: "snode (rcb_p s) \<noteq> 0"
    and len: "6 < len" "len \<le> length f" "len \<le> DATAGRAM_SIZE_MAX" "field11 (byte_at f 1) (byte_at f 2) \<le> DATAGRAM_SIZE_MAX"
    and cmd: "byte_at f 1 AND 0xf8 = COMMAND_FIRST_FRAGMENT" and seg: "segment_of (D (snode (rcb_p s))) (take len f)"
  shows "rx_inv G D (stored_first f (len - 6) s)"
    and "\<forall>k < 8 * BITMASK_SIZE. marked (bytes_recvd_bitmask (stored_first f (len - 6) s)) k \<longleftrightarrow> k < len - 6"
proof -
  let ?n = "len - 6" and ?m = "replicate BITMASK_SIZE (0 :: byte)" and ?data = "wr 0 (payload 4 (len - 6) f) (datagramData s)"
  let ?d = "D (snode (rcb_p s)) (drop_bit 4 (byte_at f 3))"
  from seg len cmd have g: "field11 (byte_at f 1) (byte_at f 2) = length ?d" "?n \<le> length ?d" "payload 4 ?n f = take ?n (drop 0 ?d)"
    by (simp_all add: segment_of_def Let_def payload_take [of 4 _ len])
  have dl: "length (datagramData s) = 200" using inv by (simp add: rx_inv_def)
  have m: "marked (mark_bytes 0 ?n ?m) k \<longleftrightarrow> k < ?n" if "k < 208" for k
    using marked_mark_bytes [of ?m 0 ?n k] len that by simp
  have c: "k < length ?d \<and> take DATAGRAM_SIZE_MAX ?data ! k = ?d ! k" if "k < 8 * BITMASK_SIZE" "marked (mark_bytes 0 ?n ?m) k" for k
    by (rule copied_session [where m = ?m and n = ?n]) (use that dl g len in auto)
  have l: "length (take 200 ?data) = 200" using dl len by simp
  have v: "rx_view (stored_first f ?n s) = (False, drop_bit 4 (byte_at f 3), rcb_p s, take DATAGRAM_SIZE_MAX ?data,
      mark_bytes 0 ?n ?m, length ?d, snode (rcb_p s), True, deliveries (ts_outs s))"
    using stored_first_view [of f ?n s] inv(2) g(1) by simp
  have "session_ok D (stored_first f ?n s)"
    using v c m [of 0] src len unfolding rx_view_def session_ok_def prod.inject by simp
  with v l g(1) len inv(1) show "rx_inv G D (stored_first f ?n s)" unfolding rx_view_def rx_inv_def prod.inject by simp
  show "\<forall>k < 8 * BITMASK_SIZE. marked (bytes_recvd_bitmask (stored_first f ?n s)) k \<longleftrightarrow> k < ?n"
    using v m unfolding rx_view_def prod.inject by simp
qed

lemma receive_first_restart:
  assumes inv: "rx_base G D s" "\<not> flag_initialize_once s" and src: "snode (rcb_p s) \<noteq> 0"
    and len: "6 < len" "len \<le> length f" "len \<le> DATAGRAM_SIZE_MAX" "field11 (byte_at f 1) (byte_at f 2) \<le> DATAGRAM_SIZE_MAX"
    and cmd: "byte_at f 1 AND 0xf8 = COMMAND_FIRST_FRAGMENT" and seg: "segment_of (D (snode (rcb_p s))) (take len f)"
    and ok: "zgw_crc16 0x1D0F (take len f) = 0" "rcb_session_id s = NO_SESSION \<or> rcb_session_id s = drop_bit 4 (byte_at f 3)"
  shows "rx_inv G D (receive_first f len s)"
proof -
  let ?s = "tie_abort s" and ?ds = "field11 (byte_at f 1) (byte_at f 2)"
  let ?s2 = "stored_first f (len - 6) ?s"
  have t: "rx_view ?s = rx_view s" by (rule rx_tie_abort)
  then have it: "rx_base G D ?s" "\<not> flag_initialize_once ?s" "rcb_p ?s = rcb_p s" "rcb_session_id ?s = rcb_session_id s"
    using inv rx_base_cong [OF t] by (simp_all add: rx_view_def)
  have m: "rx_inv G D ?s2" "\<forall>k < 8 * BITMASK_SIZE. marked (bytes_recvd_bitmask ?s2) k \<longleftrightarrow> k < len - 6"
    by (rule stored_first_inv; use it src len cmd seg in simp)+
  have m2: "\<not> flag_initialize_once ?s2" "datagram_size ?s2 = ?ds"
    using stored_first_view [of f "len - 6" ?s] it(2) by (simp_all add: rx_view_def)
  have "rx_inv G D (send_frag_complete_cmd (t2_sm_post_event EV_SEND_FRAG_COMPLETE ?s2))" if "len - 6 = ?ds"
    using that m m2 len by (intro rx_inv_send_complete) (auto simp: rx_inv_cong [OF rx_post] rx_inv_fields)
  then show ?thesis
    using it m(1) len ok by (auto simp: receive_first_unfold Let_def rx_inv_cong [OF rx_fields(26)])
qed

lemma receive_first_inv:
  assumes inv: "rx_inv G D s" "\<not> flag_initialize_once s" and src: "snode (rcb_p s) \<noteq> 0" and len: "len \<le> length f" "len \<le> DATAGRAM_SIZE_MAX"
    and cmd: "byte_at f 1 AND 0xf8 = COMMAND_FIRST_FRAGMENT"
    and seg: "data_frame (take len f) \<Longrightarrow> segment_of (D (snode (rcb_p s))) (take len f)"
  shows "rx_inv G D (receive_first f len s)"
proof -
  let ?s = "tie_abort s" and ?sid = "drop_bit 4 (byte_at f 3)" and ?ds = "field11 (byte_at f 1) (byte_at f 2)"
  have t: "rx_view ?s = rx_view s" by (rule rx_tie_abort)
  then have it: "rx_inv G D ?s" "rcb_session_id ?s = rcb_session_id s"
    using inv rx_inv_cong [OF t] by (simp_all add: rx_view_def)
  show ?thesis
  proof (cases "len \<le> 6 \<or> zgw_crc16 0x1D0F (take len f) \<noteq> 0 \<or> ?sid \<noteq> rcb_session_id s \<and> rcb_session_id s \<noteq> NO_SESSION \<or> ?ds > DATAGRAM_SIZE_MAX")
    case True
    then show ?thesis using it by (auto simp only: receive_first_unfold Let_def rx_inv_cong [OF rx_post] if_True if_False split: if_split)
  next
    case False
    then have "data_frame (take len f)" using cmd len by (simp add: data_frame_def)
    from seg [OF this] show ?thesis
      using False inv src len cmd rx_base_inv [OF inv(1)] by (intro receive_first_restart) (auto simp: rx_inv_def)
  qed
qed

lemma mark_refused_inv:
  assumes "rx_inv G D s" "fst (mark_frag_received off n s)"
  shows "rx_inv G D (snd (mark_frag_received off n s))"
proof -
  have "rx_view (snd (mark_frag_received off n s)) = rx_view s"
    using assms(2) by (simp add: mark_frag_received_def rx_simps split: if_splits)
  from rx_inv_cong [OF this] assms(1) show ?thesis by simp
qed

text \<open>The state after the bytes of a subsequent segment are stored.\<close>

definition stored_subseq :: "buffer \<Rightarrow> nat \<Rightarrow> nat \<Rightarrow> ts \<Rightarrow> ts" where
  "stored_subseq f off n s =
     copy_in off (payload 5 n f) ((snd (mark_frag_received off n s))\<lparr>datagram_size := field11 (byte_at f 1) (byte_at f 2)\<rparr>)"

lemma receive_subseq_unfold:
  "receive_subseq f len s =
     (let s' = tie_abort s; sid = drop_bit 4 (byte_at f 3); off = field11 (byte_at f 3) (byte_at f 4);
          ds = field11 (byte_at f 1) (byte_at f 2); n = len - 7;
          s1 = s'\<lparr>cur_recvd_data_size := n\<rparr>; s2 = s1\<lparr>rx_timer := True\<rparr>; s3 = stored_subseq f off n s2
      in if len \<le> 7 then t2_sm_post_event EV_RECV_NEW_FRAG s'
         else if zgw_crc16 0x1D0F (take len f) \<noteq> 0 then t2_sm_post_event EV_RECV_NEW_FRAG s'
         else if recv_frag_compl_list s' ! unat sid then (if current_state s' = ST_RECEIVING then t2_sm_post_event EV_DUPL_FRAME s' else s')
         else if sid \<noteq> rcb_session_id s' \<and> rcb_session_id s' \<noteq> NO_SESSION then t2_sm_post_event EV_DIFF_SESSION s'
         else if off + n > DATAGRAM_SIZE_MAX then (if current_state s1 = ST_RECEIVING then t2_sm_post_event EV_DUPL_FRAME s1 else s1)
         else if ds > DATAGRAM_SIZE_MAX then t2_sm_post_event EV_DIFF_SESSION s1
         else if fst (mark_frag_received off n s2) then snd (mark_frag_received off n s2)
         else if off + n \<ge> ds then find_missing (t2_sm_post_event EV_RECV_LAST_FRAG s3)
         else s3\<lparr>rx_data_state := False\<rparr>)"
  unfolding receive_subseq_def stored_subseq_def Let_def case_prod_beta by (rule refl)

lemma stored_subseq_view:
  assumes "\<not> fst (mark_frag_received off n s)"
  shows "rx_view (stored_subseq f off n s) = (flag_initialize_once s, rcb_session_id s, rcb_p s,
     take DATAGRAM_SIZE_MAX (wr off (payload 5 n f) (datagramData s)), mark_bytes off n (bytes_recvd_bitmask s),
     field11 (byte_at f 1) (byte_at f 2), current_snode s, rx_timer s, deliveries (ts_outs s))"
proof -
  have "snd (mark_frag_received off n s) = s\<lparr>bytes_recvd_bitmask := mark_bytes off n (bytes_recvd_bitmask s)\<rparr>"
    using assms by (auto simp: mark_frag_received_def)
  then show ?thesis by (simp add: rx_view_def stored_subseq_def copy_in_def)
qed

lemma stored_subseq_inv:
  assumes inv: "rx_inv G D s" "\<not> flag_initialize_once s"
    and len: "7 < len" "len \<le> length f" "field11 (byte_at f 1) (byte_at f 2) \<le> DATAGRAM_SIZE_MAX"
      "off = field11 (byte_at f 3) (byte_at f 4)" "off + (len - 7) \<le> DATAGRAM_SIZE_MAX"
      "\<not> fst (mark_frag_received off (len - 7) s)"
    and sid: "rcb_session_id s \<noteq> NO_SESSION \<Longrightarrow> rcb_session_id s = drop_bit 4 (byte_at f 3)"
    and cmd: "byte_at f 1 AND 0xf8 = COMMAND_SUBSEQUENT_FRAGMENT" and seg: "segment_of (D (snode (rcb_p s))) (take len f)"
  shows "rx_inv G D (stored_subseq f off (len - 7) s)"
proof -
  let ?n = "len - 7" and ?m = "bytes_recvd_bitmask s" and ?data = "wr off (payload 5 (len - 7) f) (datagramData s)"
  let ?d = "D (snode (rcb_p s)) (drop_bit 4 (byte_at f 3))"
  from seg len cmd have g: "field11 (byte_at f 1) (byte_at f 2) = length ?d" "off + ?n \<le> length ?d" "payload 5 ?n f = take ?n (drop off ?d)"
    by (simp_all add: segment_of_def Let_def payload_take [of 5 _ len])
  have dl: "length (datagramData s) = 200" "length ?m = 26" using inv by (simp_all add: rx_inv_def)
  have l: "length (take 200 ?data) = 200" using dl len by simp
  have v: "rx_view (stored_subseq f off ?n s) = (False, rcb_session_id s, rcb_p s, take DATAGRAM_SIZE_MAX ?data,
      mark_bytes off ?n ?m, length ?d, current_snode s, rx_timer s, deliveries (ts_outs s))"
    using stored_subseq_view [OF len(6), of f] inv(2) g(1) by simp
  have "session_ok D (stored_subseq f off ?n s)" if ns: "rcb_session_id s \<noteq> NO_SESSION"
  proof -
    have ok: "session_ok D s" using inv ns by (simp add: rx_inv_def)
    then have d: "D (current_snode s) (rcb_session_id s) = ?d" using sid [OF ns] by (simp add: session_ok_def Let_def)
    have o: "\<forall>k < 8 * BITMASK_SIZE. marked ?m k \<longrightarrow> k < length ?d \<and> datagramData s ! k = ?d ! k"
      using ok unfolding session_ok_def Let_def d by blast
    have c: "k < length ?d \<and> take DATAGRAM_SIZE_MAX ?data ! k = ?d ! k" if "k < 8 * BITMASK_SIZE" "marked (mark_bytes off ?n ?m) k" for k
      by (rule copied_session [where m = ?m and n = ?n]) (use that dl g len o in auto)
    have "marked (mark_bytes off ?n ?m) 0" using marked_mark_bytes [of ?m off ?n 0] dl len ok by (simp add: session_ok_def Let_def)
    with v c d ok show ?thesis unfolding rx_view_def session_ok_def Let_def prod.inject by simp
  qed
  with v l g(1) len inv(1) show ?thesis unfolding rx_view_def rx_inv_def prod.inject by simp
qed

lemma receive_subseq_inv:
  assumes inv: "rx_inv G D s" "\<not> flag_initialize_once s" and len: "len \<le> length f"
    and cmd: "byte_at f 1 AND 0xf8 = COMMAND_SUBSEQUENT_FRAGMENT"
    and seg: "data_frame (take len f) \<Longrightarrow> segment_of (D (snode (rcb_p s))) (take len f)"
  shows "rx_inv G D (receive_subseq f len s)"
proof -
  let ?s = "tie_abort s" and ?sid = "drop_bit 4 (byte_at f 3)" and ?ds = "field11 (byte_at f 1) (byte_at f 2)"
  let ?off = "field11 (byte_at f 3) (byte_at f 4)"
  let ?s1 = "?s\<lparr>cur_recvd_data_size := len - 7\<rparr>"
  let ?s2 = "?s1\<lparr>rx_timer := True\<rparr>"
  let ?s3 = "stored_subseq f ?off (len - 7) ?s2"
  have t: "rx_view ?s = rx_view s" by (rule rx_tie_abort)
  then have it: "rx_inv G D ?s" "\<not> flag_initialize_once ?s" "rcb_p ?s = rcb_p s"
    using inv rx_inv_cong [OF t] by (simp_all add: rx_view_def)
  then have it1: "rx_inv G D ?s1" by (simp add: rx_inv_cong [OF rx_fields(27)])
  with it(2) have it2: "rx_inv G D ?s2" by (simp add: rx_inv_def session_ok_def)
  note go = receive_subseq_unfold Let_def rx_inv_cong [OF rx_post]
  show ?thesis
  proof (cases "len \<le> 7 \<or> zgw_crc16 0x1D0F (take len f) \<noteq> 0 \<or> ?sid \<noteq> rcb_session_id ?s \<and> rcb_session_id ?s \<noteq> NO_SESSION \<or>
      ?off + (len - 7) > DATAGRAM_SIZE_MAX \<or> ?ds > DATAGRAM_SIZE_MAX \<or> fst (mark_frag_received ?off (len - 7) ?s2)")
    case True
    then show ?thesis using it it1 mark_refused_inv [OF it2] by (auto simp: go)
  next
    case False
    then have df: "data_frame (take len f)" using cmd len by (simp add: data_frame_def)
    have m: "rx_inv G D ?s3" by (rule stored_subseq_inv) (use it it2 len False cmd seg [OF df] in auto)
    have m2: "\<not> flag_initialize_once ?s3" using stored_subseq_view [of ?off "len - 7" ?s2 f] False it(2) by (simp add: rx_view_def)
    have "rcb_session_id ?s3 = NO_SESSION \<or> marked (bytes_recvd_bitmask ?s3) 0"
      using m m2 by (auto simp: rx_inv_def session_ok_def Let_def)
    then have "rx_inv G D (find_missing (t2_sm_post_event EV_RECV_LAST_FRAG ?s3))"
      using m m2 by (intro rx_inv_find_missing) (simp_all add: rx_inv_cong [OF rx_post] rx_inv_fields)
    then show ?thesis using it m False by (auto simp: go rx_inv_cong [OF rx_fields(26)])
  qed
qed

lemma receive_inv:
  assumes inv: "rx_inv G D s" "\<not> flag_initialize_once s" and src: "snode (rcb_p s) \<noteq> 0"
    and len: "len \<le> length f" "len \<le> DATAGRAM_SIZE_MAX"
    and seg: "data_frame (take len f) \<Longrightarrow> segment_of (D (snode (rcb_p s))) (take len f)"
  shows "rx_inv G D (receive f len s)"
  using receive_first_inv [OF inv src len _ seg] receive_subseq_inv [OF inv len(1) _ seg] inv(1)
  by (simp add: receive_def Let_def rx_inv_cong [OF rx_receive_request] rx_inv_cong [OF rx_receive_complete]
      rx_inv_cong [OF rx_receive_wait])

lemma initialize_inv:
  assumes "rx_inv G D s"
  shows "rx_inv G D (initialize_once s)" "\<not> flag_initialize_once (initialize_once s)"
  using assms by (simp_all add: initialize_once_def rx_inv_def)

lemma set_param_inv:
  assumes "rx_inv G D s" "\<not> flag_initialize_once s \<and> rcb_session_id s \<noteq> NO_SESSION \<Longrightarrow> snode p = current_snode s"
  shows "rx_inv G D (s\<lparr>rcb_p := p\<rparr>)"
  using assms by (auto simp: rx_inv_def session_ok_def Let_def)

lemma enter_receive_inv:
  assumes inv: "rx_inv G D s" and hon: "honest D (Frame my p f len)" and th: "receiving s \<Longrightarrow> \<not> third_node p s"
    and len: "unat len \<le> DATAGRAM_SIZE_MAX"
  shows "rx_inv G D (receive f (unat len) ((initialize_once s)\<lparr>rcb_p := p\<rparr>))"
proof -
  have c: "snode p = current_snode s \<or> current_snode s = 0" if "receiving s" using th [OF that] by (auto simp: third_node_def)
  have "rx_inv G D ((initialize_once s)\<lparr>rcb_p := p\<rparr>)"
  proof (rule set_param_inv)
    show "rx_inv G D (initialize_once s)" by (rule initialize_inv [OF inv])
    assume "\<not> flag_initialize_once (initialize_once s) \<and> rcb_session_id (initialize_once s) \<noteq> NO_SESSION"
    then have "\<not> flag_initialize_once s" "rcb_session_id s \<noteq> NO_SESSION" "initialize_once s = s"
      by (cases "flag_initialize_once s"; simp add: initialize_once_def)+
    moreover from this inv have "session_ok D s" unfolding rx_inv_def by blast
    ultimately show "snode p = current_snode (initialize_once s)" using c by (auto simp: session_ok_def Let_def receiving_def)
  qed
  then show ?thesis
    using initialize_inv(2) [OF inv] hon len by (intro receive_inv) simp_all
qed

lemma third_node_cong: "rx_view s' = rx_view s \<Longrightarrow> current_dnode s' = current_dnode s \<Longrightarrow> third_node p s' = third_node p s"
  by (simp add: third_node_def rx_view_def)

lemma post_dnode: "current_dnode (t2_sm_post_event e s) = current_dnode s"
  by (simp add: t2_sm_post_event_def)

lemma tie_break_dnode: "current_dnode (tie_break my p s) = current_dnode s"
  by (simp add: tie_break_def post_dnode)

lemma ts_handler_inv:
  assumes inv: "rx_inv G D s" and hon: "honest D (Frame my p f len)" and apart: "receiving s \<Longrightarrow> third_node p s \<Longrightarrow> kept_apart p s"
  shows "rx_inv G D (TransportService_ApplicationCommandHandler my p f len s)"
proof -
  define s1 where "s1 = tie_break my p (s\<lparr>reset_timer := True\<rparr>)"
  define s2 where "s2 = s1\<lparr>frag_wait_p := p\<rparr>"
  define s3 where "s3 = (case current_state s2 of ST_IDLE \<Rightarrow> t2_sm_post_event EV_START_RECV s2
    | ST_RECEIVING \<Rightarrow> t2_sm_post_event EV_RECV_NEW_FRAG s2 | _ \<Rightarrow> s2)"
  have v: "rx_view s1 = rx_view s" "rx_view s2 = rx_view s" "rx_view s3 = rx_view s"
    by (simp_all add: s1_def s2_def s3_def rx_simps split: ts_state.split)
  have i: "rx_inv G D s1" "rx_inv G D s2" "rx_inv G D s3" using inv v [THEN rx_inv_cong] by simp_all
  have d2: "current_dnode s2 = current_dnode s" by (simp add: s1_def s2_def tie_break_dnode)
  then have d: "current_dnode s2 = current_dnode s" "current_dnode s3 = current_dnode s"
    by (simp_all add: s3_def post_dnode split: ts_state.split)
  have th: "third_node p s2 = third_node p s" "third_node p s3 = third_node p s"
    using third_node_cong [OF v(2) d(1)] third_node_cong [OF v(3) d(2)] by simp_all
  have rec: "receiving s3 = receiving s" using v(3) unfolding receiving_def rx_view_def prod.inject by simp
  have r: "rx_inv G D (receive f (unat len) ((initialize_once s3)\<lparr>rcb_p := p\<rparr>))"
    if "\<not> kept_apart p s" "\<not> DATAGRAM_SIZE_MAX < unat len"
  proof (rule enter_receive_inv [OF i(3) hon])
    show "receiving s3 \<Longrightarrow> \<not> third_node p s3" using apart that(1) th(2) rec by blast
  qed (use that in simp)
  show ?thesis
    using r i(1,2) th(1)
    unfolding TransportService_ApplicationCommandHandler_def Let_def s1_def [symmetric] s2_def [symmetric] s3_def [symmetric]
    by (cases "kept_apart p s") (auto simp: kept_apart_def rx_inv_cong [OF rx_post] rx_inv_cong [OF rx_queue_wait])
qed

text \<open>A first segment that restarts the open session depends on nothing that was received before.\<close>

lemma restart_inv:
  assumes inv: "rx_base G E s" and re: "restarts (Frame my p f len) s" "receiving s" and hon: "honest E (Frame my p f len)"
  shows "rx_inv G E (TransportService_ApplicationCommandHandler my p f len s)"
proof -
  define s1 where "s1 = tie_break my p (s\<lparr>reset_timer := True\<rparr>)"
  define s2 where "s2 = s1\<lparr>frag_wait_p := p\<rparr>"
  define s3 where "s3 = (case current_state s2 of ST_IDLE \<Rightarrow> t2_sm_post_event EV_START_RECV s2
    | ST_RECEIVING \<Rightarrow> t2_sm_post_event EV_RECV_NEW_FRAG s2 | _ \<Rightarrow> s2)"
  have v: "rx_view s2 = rx_view s" "rx_view s3 = rx_view s"
    by (simp_all add: s1_def s2_def s3_def rx_simps split: ts_state.split)
  have th: "third_node p s2 = third_node p s"
    using third_node_cong [OF v(1)] by (simp add: s1_def s2_def tie_break_dnode)
  have ses: "rcb_session_id s2 = rcb_session_id s" "rcb_session_id s3 = rcb_session_id s" "flag_initialize_once s3 = flag_initialize_once s"
    using v unfolding rx_view_def prod.inject by simp_all
  then have init: "initialize_once s3 = s3" using re(2) by (simp add: initialize_once_def receiving_def)
  have "TransportService_ApplicationCommandHandler my p f len s = receive f (unat len) (s3\<lparr>rcb_p := p\<rparr>)"
    using re th ses(1) unfolding TransportService_ApplicationCommandHandler_def Let_def s1_def [symmetric] s2_def [symmetric] s3_def [symmetric] init
    by (auto simp: kept_apart_def receiving_def)
  also have "\<dots> = receive_first f (unat len) (s3\<lparr>rcb_p := p\<rparr>)" using re(1) by (simp add: receive_def)
  also have "rx_inv G E \<dots>"
  proof (rule receive_first_restart)
    have "rx_base G E s3" using inv rx_base_cong [OF v(2)] by simp
    then show "rx_base G E (s3\<lparr>rcb_p := p\<rparr>)" by (simp add: rx_inv_def)
  qed (use re hon ses in \<open>auto simp: data_frame_def receiving_def\<close>)
  finally show ?thesis .
qed

lemma ts_step_inv:
  assumes "rx_inv G D s" "honest D i" "receiving s \<Longrightarrow> \<not> let_in i s"
  shows "rx_inv G D (ts_step i s)"
proof (cases "(i, s)" rule: ts_step.cases)
  case (2 my p f len s')
  then show ?thesis using assms ts_handler_inv [OF assms(1), of my p f len] by auto
next
  case (8 s')
  then show ?thesis
    using assms rx_inv_rx_timer [of G D "s\<lparr>rx_timer := False\<rparr>"] by (auto simp: rx_inv_def session_ok_def)
qed (use assms in \<open>auto simp: rx_inv_cong [OF rx_SendData] rx_inv_cong [OF rx_senddata_cb] rx_inv_cong [OF rx_last_cb]
    rx_inv_cong [OF rx_reply_cb] rx_inv_cong [OF rx_fc_timer] rx_inv_cong [OF rx_first_frag] rx_inv_cong [OF rx_subseq_frag]
    rx_inv_cong [OF rx_fields(1)] rx_inv_cong [OF rx_fields(2)] rx_inv_cong [OF rx_fields(17)] rx_inv_cong [OF rx_fields(18)]
    rx_inv_discard rx_inv_cong [OF rx_fields(30)] reset_transport_service_def wait_restart_from_first_def\<close>)

text \<open>The present datagrams may change while no session is open, and those of other sessions at any time.\<close>

lemma rx_inv_change:
  assumes "rx_inv G D s" "\<forall>x i. E x i \<in> G x"
    and "receiving s \<Longrightarrow> E (current_snode s) (rcb_session_id s) = D (current_snode s) (rcb_session_id s)"
  shows "rx_inv G E s"
  using assms by (auto simp: rx_inv_def session_ok_def receiving_def Let_def)

lemma network_step_inv:
  assumes "rx_inv G D s" "\<forall>x i. E x i \<in> G x" "honest E i"
    and "receiving s \<and> \<not> restarts i s \<longrightarrow>
      E (current_snode s) (rcb_session_id s) = D (current_snode s) (rcb_session_id s) \<and> \<not> let_in i s"
  shows "rx_inv G E (ts_step i s)"
proof (cases "receiving s \<and> restarts i s")
  case True
  then obtain my p f len where i: "i = Frame my p f len" by (cases i) auto
  show ?thesis using True restart_inv [OF rx_base_inv [OF assms(1,2)]] assms(3) unfolding i by simp
next
  case False
  with assms show ?thesis by (intro ts_step_inv rx_inv_change [OF assms(1,2)]) auto
qed

lemma network_run_inv:
  "rx_inv G D s \<Longrightarrow> network_run D es s \<Longrightarrow> \<forall>(E, i) \<in> set es. \<forall>x k. E x k \<in> G x \<Longrightarrow>
     \<exists>E. rx_inv G E (ts_run (map snd es) s)"
proof (induction D es s rule: network_run.induct)
  case (2 D E i es s)
  then have "rx_inv G E (ts_step i s)" by (intro network_step_inv [OF 2(2)]) auto
  with 2 show ?case by (auto simp: ts_run_def)
qed (auto simp: ts_run_def)

section \<open>Safety of reassembly\<close>

text \<open>No session is open and nothing is logged yet.\<close>

definition rx_ready :: "ts \<Rightarrow> bool" where
  "rx_ready s \<longleftrightarrow> length (datagramData s) = DATAGRAM_SIZE_MAX \<and> length (bytes_recvd_bitmask s) = BITMASK_SIZE \<and>
     datagram_size s \<le> DATAGRAM_SIZE_MAX \<and> (if flag_initialize_once s then \<not> rx_timer s else rcb_session_id s = NO_SESSION) \<and>
     ts_outs s = []"

lemma rx_ready_start: "rx_ready (ZW_TransportService_Init b ts_start)"
  by (simp add: rx_ready_def ts_start_def ZW_TransportService_Init_def)

lemma rx_ready_inv: "rx_ready s \<Longrightarrow> \<forall>x i. D x i \<in> G x \<Longrightarrow> rx_inv G D s"
  by (auto simp: rx_ready_def rx_inv_def split: if_splits)

lemma rx_ready_not_receiving: "rx_ready s \<Longrightarrow> \<not> receiving s"
  by (auto simp: rx_ready_def receiving_def split: if_splits)

lemma in_deliveries: "Deliver x y e \<in> set es \<Longrightarrow> (x, y, e) \<in> set (deliveries es)"
  by (induction es rule: deliveries.induct) auto

lemma run_deliveries:
  assumes "rx_ready s" "network_run D es s" "Deliver x y e \<in> set (ts_outs (ts_run (map snd es) s))"
  shows "\<exists>(E, i) \<in> set es. \<exists>k. e = E x k"
proof (cases es)
  case Nil
  with assms show ?thesis by (simp add: ts_run_def rx_ready_def)
next
  case (Cons Ei es')
  obtain E i where Ei: "Ei = (E, i)" by (cases Ei)
  define G where "G x = {e. \<exists>(E, i) \<in> set es. \<exists>k. e = E x k}" for x
  have "rx_inv G E s" by (rule rx_ready_inv [OF assms(1)]) (auto simp: G_def Cons Ei)
  moreover have "network_run E es s" using assms(1,2) rx_ready_not_receiving by (simp add: Cons Ei)
  moreover have "\<forall>(E, i) \<in> set es. \<forall>x k. E x k \<in> G x" by (auto simp: G_def)
  ultimately obtain E where "rx_inv G E (ts_run (map snd es) s)" using network_run_inv by blast
  with in_deliveries [OF assms(3)] have "e \<in> G x" by (auto simp: rx_inv_def)
  then show ?thesis by (simp add: G_def)
qed

end
