(* ===== verification/Transport_Delivery.thy ===== *)
theory Transport_Delivery
  imports Transport_Run
begin

text \<open>
  The transport service from end to end: the segments that a sender puts on the air, what a receiver makes of
  them, and the acknowledgement that completes the transmission. The segmentation of the C code, which is
  spread over callbacks and timers, is related to a function that lists the segments of a datagram.
\<close>

section \<open>The segments of a datagram\<close>

definition with_crc :: "buffer \<Rightarrow> buffer" where
  "with_crc g = g @ [ucast (drop_bit 8 (zgw_crc16 0x1D0F g)), ucast (zgw_crc16 0x1D0F g)]"

definition first_frame :: "byte \<Rightarrow> buffer \<Rightarrow> nat \<Rightarrow> buffer" where
  "first_frame sid d n = with_crc ([COMMAND_CLASS_TRANSPORT_SERVICE, COMMAND_FIRST_FRAGMENT OR (of_nat (length d div 256) AND 7),
     of_nat (length d), push_bit 4 sid] @ take n d)"

definition subseq_frame :: "byte \<Rightarrow> buffer \<Rightarrow> nat \<Rightarrow> nat \<Rightarrow> buffer" where
  "subseq_frame sid d off n = with_crc ([COMMAND_CLASS_TRANSPORT_SERVICE, COMMAND_SUBSEQUENT_FRAGMENT OR (of_nat (length d div 256) AND 7),
     of_nat (length d), push_bit 4 sid OR (of_nat (off div 256) AND 7), of_nat off] @ take n (drop off d))"

function subseq_frames :: "byte \<Rightarrow> buffer \<Rightarrow> nat \<Rightarrow> nat \<Rightarrow> buffer list" where
  "subseq_frames sid d m r =
     (if r \<le> m \<or> m = 0 then [subseq_frame sid d (length d - r) r]
      else subseq_frame sid d (length d - r) m # subseq_frames sid d m (r - m))"
  by pat_completeness auto
termination
  by (relation "measure (\<lambda>(sid, d, m, r). r)") auto

declare subseq_frames.simps [simp del]

definition frames_of :: "byte \<Rightarrow> buffer \<Rightarrow> nat \<Rightarrow> buffer list" where
  "frames_of sid d m =
     (if length d \<le> m then [first_frame sid d (length d)] else first_frame sid d m # subseq_frames sid d m (length d - m))"

lemma crc_with_crc [simp]: "zgw_crc16 0x1D0F (with_crc g) = 0"
  by (simp add: with_crc_def crc16_append [of _ g] crc16_own)

lemma length_with_crc [simp]: "length (with_crc g) = length g + 2"
  by (simp add: with_crc_def)

section \<open>The frame buffer\<close>

lemma wr_zero: "wr 0 xs b = xs @ drop (length xs) b"
  by (simp add: wr_def)

lemma wr_append: "wr (length a) xs (a @ b) = a @ xs @ drop (length xs) b"
  by (simp add: wr_def)

lemma put_crc:
  assumes "t2_txBuf s = g @ b" "length g + length b = TXBUF_SIZE" "length g + 2 \<le> TXBUF_SIZE"
  shows "add_crc (of_nat (length g)) s = s\<lparr>t2_txBuf := with_crc g @ drop 2 b\<rparr>"
proof -
  have "\<not> 52 < length g" using assms by simp
  then show ?thesis
    using assms by (simp add: add_crc_def put_tx_def Let_def with_crc_def wr_def unat_of_nat take_bit_eq_mod)
qed

lemma build_frame:
  assumes len: "length (t2_txBuf s) = TXBUF_SIZE" "length h + n + 2 \<le> TXBUF_SIZE" "off + n \<le> length (datagram s)" and k: "k = length h"
  shows "add_crc (of_nat (n + k)) (copy_datagram k off n (put_tx 0 h s)) =
    s\<lparr>t2_txBuf := with_crc (h @ take n (drop off (datagram s))) @ drop (n + k + 2) (t2_txBuf s)\<rparr>"
proof -
  let ?x = "take n (drop off (datagram s))" and ?b = "t2_txBuf s"
  have n: "length ?x = n" "take n (drop off (datagram s) @ replicate n 0) = ?x" using len by simp_all
  have 1: "put_tx 0 h s = s\<lparr>t2_txBuf := h @ drop (length h) ?b\<rparr>" using len by (simp add: put_tx_def wr_zero)
  have 2: "copy_datagram (length h) off n (put_tx 0 h s) = s\<lparr>t2_txBuf := (h @ ?x) @ drop (length h + n) ?b\<rparr>"
    using len n unfolding 1 by (simp add: copy_datagram_def put_tx_def wr_append add.commute)
  have l: "length (h @ ?x) = n + length h" using n by simp
  show ?thesis unfolding k 2 l [symmetric] using len n by (subst put_crc [where b = "drop (length h + n) ?b"]) (auto simp: add.commute)
qed

section \<open>The sender\<close>

text \<open>The frames that the radio accepted, in the order in which they were sent.\<close>

fun sent :: "ts_out list \<Rightarrow> buffer list" where
  "sent [] = []"
| "sent (Raw a b f t c True # es) = sent es @ [f]"
| "sent (_ # es) = sent es"

text \<open>A sender between two segments, with \<open>r\<close> bytes left, and a sender that waits for the acknowledgement.\<close>

definition tx_session :: "ts_param \<Rightarrow> buffer \<Rightarrow> byte \<Rightarrow> ts \<Rightarrow> bool" where
  "tx_session p d sid s \<longleftrightarrow> scb_p s = p \<and> datagram s = d \<and> scb_session_id s = sid \<and> length (t2_txBuf s) = TXBUF_SIZE \<and>
     radio s = [] \<and> \<not> flag_reply_frag_req s \<and> \<not> flag_send_frag_wait s \<and> transmission_aborted s = 0x11 \<and>
     length (frag_compl_list s) = 15 \<and> \<not> frag_compl_list s ! unat sid \<and> completedFunc s \<and> current_dnode s = dnode p"

definition tx_sending :: "ts_param \<Rightarrow> buffer \<Rightarrow> byte \<Rightarrow> nat \<Rightarrow> nat \<Rightarrow> ts \<Rightarrow> bool" where
  "tx_sending p d sid m r s \<longleftrightarrow> tx_session p d sid s \<and> FragmentMaxPayload s = m \<and> remaining_data_len s = r \<and> current_state s = ST_SEND_FRAG"

definition tx_waiting :: "ts_param \<Rightarrow> buffer \<Rightarrow> byte \<Rightarrow> ts \<Rightarrow> bool" where
  "tx_waiting p d sid s \<longleftrightarrow> tx_session p d sid s \<and> current_state s = ST_WAIT_ACK \<and> fc_timer s"

definition unicast :: "ts_param \<Rightarrow> bool" where
  "unicast p \<longleftrightarrow> dnode p \<noteq> 0xff \<and> tx_flags p \<noteq> RECEIVE_STATUS_TYPE_BROAD"

lemma next_states [simp]:
  "next_state EV_START_SEND ST_IDLE = ST_SEND_FRAG" "next_state EV_SEND_NEW_FRAG ST_SEND_FRAG = ST_SEND_FRAG"
  "next_state EV_SEND_LAST_FRAG ST_SEND_FRAG = ST_SEND_LAST_FRAG" "next_state EV_SUCCESS ST_SEND_LAST_FRAG = ST_WAIT_ACK"
  "next_state EV_TIE_BREAK ST_WAIT_ACK = ST_RECEIVING" "next_state EV_FRAG_REQ_OR_COMPL ST_WAIT_ACK = ST_WAIT_ACK"
  "next_state EV_FRAG_REQ_OR_COMPL ST_RECEIVING = ST_RECEIVING" "next_state EV_RECV_FRAG_COMPL ST_WAIT_ACK = ST_IDLE"
  "next_state EV_RECV_FRAG_COMPL ST_RECEIVING = ST_IDLE" "next_state EV_RECV_NEW_FRAG ST_RECEIVING = ST_RECEIVING"
  "next_state EV_START_RECV ST_IDLE = ST_RECEIVING" "next_state EV_RECV_LAST_FRAG ST_RECEIVING = ST_FIND_MISS_FRAG"
  "next_state EV_SEND_FRAG_COMPLETE ST_FIND_MISS_FRAG = ST_SEND_FRAG_COMPLETE" "next_state EV_SUCCESS ST_SEND_FRAG_COMPLETE = ST_IDLE"
  "next_state EV_SEND_FRAG_COMPLETE ST_RECEIVING = ST_RECEIVING" "next_state EV_SUCCESS ST_RECEIVING = ST_RECEIVING"
  by (simp_all add: next_state_def find_transition_def trans_def)

lemma send_last_frag_ok:
  assumes "radio s = []" "unicast (scb_p s)" "current_state s = ST_SEND_LAST_FRAG"
    and "n = (if does_not_fit_in_first_frag s then 7 else 6) + datalen_to_send s" "n < 256"
  shows "send_last_frag s =
    s\<lparr>current_state := ST_WAIT_ACK, sending := False, scb_pending_segments := 0, reset_timer := True, fc_timer := True,
      ts_outs := Raw (ucast (snode (scb_p s))) (ucast (dnode (scb_p s))) (take n (t2_txBuf s)) (tx_flags (scb_p s) OR 1) ZCB_last_frag True # ts_outs s\<rparr>"
  using assms by (simp add: send_last_frag_def send_txBuf_def TS_SEND_RAW_def ts_emit_def Let_def unicast_def t2_sm_post_event_def)

lemma get_frag_compl_session: "tx_session p d sid s \<Longrightarrow> sid < 15 \<Longrightarrow> \<not> get_frag_compl sid s"
  by (simp add: tx_session_def get_frag_compl_def word_less_nat_alt)

lemma subseq_built:
  assumes s: "tx_session p d sid s" and len: "n \<le> 47" "off + n \<le> length d"
  shows "add_crc (of_nat (n + 5)) (copy_datagram 5 off n (put_tx 0 (subseq_hdr off s) s)) =
    s\<lparr>t2_txBuf := subseq_frame sid d off n @ drop (n + 7) (t2_txBuf s)\<rparr>"
  using assms by (subst build_frame) (auto simp: tx_session_def subseq_hdr_def subseq_frame_def add.commute)

lemma first_built:
  assumes s: "tx_session p d sid s" and len: "n \<le> 47" "n \<le> length d"
  shows "add_crc (of_nat (n + 4)) (copy_datagram 4 0 n (put_tx 0 (first_hdr s) s)) =
    s\<lparr>t2_txBuf := first_frame sid d n @ drop (n + 6) (t2_txBuf s)\<rparr>"
  using assms by (subst build_frame) (auto simp: tx_session_def first_hdr_def first_frame_def add.commute)

lemma length_frames:
  "off + n \<le> length d \<Longrightarrow> length (subseq_frame sid d off n) = n + 7"
  "n \<le> length d \<Longrightarrow> length (first_frame sid d n) = n + 6"
  by (simp_all add: subseq_frame_def first_frame_def)

text \<open>One segment: the radio reports the previous one, the timer between two segments runs out.\<close>

lemma sender_step:
  assumes s: "tx_sending p d sid m r s" and p: "unicast p" and sid: "sid < 15"
    and len: "0 < r" "r \<le> length d" "length d < 65536" "m \<le> 47" "0 < m"
  defines "s' \<equiv> ts_run [RawDone ZCB_ts_senddata 0, BtwnTimer] s"
  shows "r \<le> m \<Longrightarrow> tx_waiting p d sid s' \<and> sent (ts_outs s') = sent (ts_outs s) @ [subseq_frame sid d (length d - r) r] \<and> ts_fault s' = ts_fault s"
    and "m < r \<Longrightarrow> tx_sending p d sid m (r - m) s' \<and> sent (ts_outs s') = sent (ts_outs s) @ [subseq_frame sid d (length d - r) m] \<and> ts_fault s' = ts_fault s"
proof -
  define n where "n = (if r \<ge> m then m else r)"
  define s1 where "s1 = s\<lparr>timer_btwn_2_frags := False, fc_timer := False, remaining_data_len := r, datalen_to_send := n\<rparr>"
  have r0: "r \<noteq> 0" using len by simp
  have "length d + 65536 - r = length d - r + 65536" using len by simp
  then have "(length d + 65536 - r) mod 65536 = (length d - r + 65536) mod 65536" by (rule arg_cong)
  also have "\<dots> = length d - r" using len by (simp only: mod_add_self2) simp
  finally have off: "(length d + 65536 - r) mod 65536 = length d - r" .
  have tx: "tx_session p d sid s" "FragmentMaxPayload s = m" "remaining_data_len s = r" "current_state s = ST_SEND_FRAG"
    using s by (simp_all add: tx_sending_def)
  have s1: "tx_session p d sid s1" using tx(1) by (simp add: tx_session_def s1_def)
  have "sid \<noteq> 0x11" using sid by auto
  then have cb: "s' = send_subseq_frag (s\<lparr>timer_btwn_2_frags := False\<rparr>)"
    using tx(1) by (simp add: s'_def ts_run_def ZCB_ts_senddata_cb_def tx_session_def)
  have b: "add_crc (of_nat (n + 5)) (copy_datagram 5 (length d - r) n (put_tx 0 (subseq_hdr (length d - r) s1) s1)) =
      s1\<lparr>t2_txBuf := subseq_frame sid d (length d - r) n @ drop (n + 7) (t2_txBuf s1)\<rparr>"
    using len by (intro subseq_built [OF s1]) (auto simp: n_def)
  have l: "length (subseq_frame sid d (length d - r) n) = n + 7" using len by (intro length_frames) (auto simp: n_def)
  have e: "s' = (let s2 = s1\<lparr>t2_txBuf := subseq_frame sid d (length d - r) n @ drop (n + 7) (t2_txBuf s1)\<rparr>
      in if r \<le> m then send_last_frag (t2_sm_post_event EV_SEND_LAST_FRAG (s2\<lparr>does_not_fit_in_first_frag := True\<rparr>))
         else case send_txBuf (n + 7) ZCB_ts_senddata (s2\<lparr>reset_timer := True\<rparr>) of (ok, s3) \<Rightarrow>
           t2_sm_post_event EV_SEND_NEW_FRAG
             (if ok then s3\<lparr>remaining_data_len := r - m, scb_pending_segments := segments (r - m) n\<rparr> else s3))"
    using get_frag_compl_session [OF s1 sid] tx r0 off b
    by (cases m r rule: linorder_cases) (simp_all add: cb send_subseq_frag_def Let_def s1_def n_def tx_session_def case_prod_beta)
  have f: "scb_p s1 = p" "datalen_to_send s1 = n" "radio s1 = []" "ts_outs s1 = ts_outs s" "ts_fault s1 = ts_fault s"
    "current_state s1 = ST_SEND_FRAG" "FragmentMaxPayload s1 = m" "n \<le> 47"
    using tx len by (auto simp: s1_def tx_session_def n_def)
  show "tx_waiting p d sid s' \<and> sent (ts_outs s') = sent (ts_outs s) @ [subseq_frame sid d (length d - r) r] \<and> ts_fault s' = ts_fault s"
    if "r \<le> m"
  proof -
    have n: "n = r" using that by (simp add: n_def)
    show ?thesis using that f s1 l p unfolding e n
      by (simp add: send_last_frag_ok t2_sm_post_event_def tx_session_def tx_waiting_def)
  qed
  show "tx_sending p d sid m (r - m) s' \<and> sent (ts_outs s') = sent (ts_outs s) @ [subseq_frame sid d (length d - r) m] \<and> ts_fault s' = ts_fault s"
    if "m < r"
  proof -
    have n: "n = m" using that by (simp add: n_def)
    show ?thesis using that f s1 l p unfolding e n
      by (simp add: send_txBuf_def TS_SEND_RAW_def ts_emit_def t2_sm_post_event_def tx_session_def tx_sending_def)
  qed
qed

text \<open>All segments after the first.\<close>

fun sender_inputs :: "nat \<Rightarrow> ts_input list" where
  "sender_inputs 0 = []"
| "sender_inputs (Suc n) = [RawDone ZCB_ts_senddata 0, BtwnTimer] @ sender_inputs n"

lemma ts_run_append: "ts_run (as @ bs) s = ts_run bs (ts_run as s)"
  by (simp add: ts_run_def)

lemma sender_run:
  assumes "tx_sending p d sid m r s" "unicast p" "sid < 15" "0 < r" "r \<le> length d" "length d < 65536" "m \<le> 47" "0 < m"
  defines "s' \<equiv> ts_run (sender_inputs (length (subseq_frames sid d m r))) s"
  shows "tx_waiting p d sid s' \<and> sent (ts_outs s') = sent (ts_outs s) @ subseq_frames sid d m r \<and> ts_fault s' = ts_fault s"
  using assms(1,4,5) unfolding s'_def
proof (induction r arbitrary: s rule: less_induct)
  case (less r)
  define s1 where "s1 = ts_run [RawDone ZCB_ts_senddata 0, BtwnTimer] s"
  note step = sender_step [OF less.prems(1) assms(2,3) less.prems(2,3) assms(6,7,8), folded s1_def]
  show ?case
  proof (cases "r \<le> m")
    case True
    with step show ?thesis by (simp add: subseq_frames.simps) (simp add: s1_def)
  next
    case False
    then have r: "subseq_frames sid d m r = subseq_frame sid d (length d - r) m # subseq_frames sid d m (r - m)"
      using assms(8) by (subst subseq_frames.simps) simp
    have s1: "tx_sending p d sid m (r - m) s1" "sent (ts_outs s1) = sent (ts_outs s) @ [subseq_frame sid d (length d - r) m]"
      "ts_fault s1 = ts_fault s" using step False by auto
    note ih = less.IH [of "r - m" s1]
    have "ts_run (sender_inputs (length (subseq_frames sid d m r))) s =
        ts_run (sender_inputs (length (subseq_frames sid d m (r - m)))) s1"
      unfolding r by (simp only: list.size sender_inputs.simps ts_run_append s1_def add_Suc_right add_0_right)
    with ih s1 less.prems False assms(8) show ?thesis by (simp add: r)
  qed
qed

lemma max_payload_range: "max_payload flags \<le> 47" "0 < max_payload flags"
  by (simp_all add: max_payload_def)

text \<open>The request of the upper layer, in a state in which the transport service is idle.\<close>

definition tx_idle :: "ts \<Rightarrow> bool" where
  "tx_idle s \<longleftrightarrow> current_state s = ST_IDLE \<and> length (t2_txBuf s) = TXBUF_SIZE \<and> radio s = [] \<and> length (frag_compl_list s) = 15"

lemma sender_first:
  assumes s: "tx_idle s" and p: "unicast p" and sid: "sid = next_session rnd (scb_session_id s)" "sid < 15"
    and len: "0 < length d"
  defines "s' \<equiv> ts_step (Send rnd p d True) s" and "m \<equiv> max_payload (tx_flags p)"
  shows "length d \<le> m \<Longrightarrow> tx_waiting p d sid s' \<and> sent (ts_outs s') = sent (ts_outs s) @ [first_frame sid d (length d)] \<and> ts_fault s' = ts_fault s"
    and "m < length d \<Longrightarrow> tx_sending p d sid m (length d - m) s' \<and> sent (ts_outs s') = sent (ts_outs s) @ [first_frame sid d m] \<and> ts_fault s' = ts_fault s"
proof -
  define n where "n = (if length d > m then m else length d)"
  define rem where "rem = (if length d > m then length d - m else length d)"
  define s0 where "s0 = s\<lparr>reset_timer := True, datagram := d, scb_p := p, completedFunc := True, sending := False,
    flag_replied_frag_req := False, transmission_aborted := 0x11, flag_send_frag_wait := False, flag_reply_frag_req := False,
    flag_fc_timer_expired_once := 0, remaining_data_len := 0, current_dnode := dnode p, current_state := ST_SEND_FRAG\<rparr>"
  define s2 where "s2 = s0\<lparr>scb_session_id := sid, frag_compl_list := (frag_compl_list s)[unat sid := False],
    FragmentMaxPayload := m, remaining_data_len := rem, datalen_to_send := n\<rparr>"
  have u: "unat sid < 15" using sid(2) by (simp add: word_less_nat_alt)
  have e0: "s' = send_first_frag rnd s0"
    using s by (simp add: s'_def ZW_TransportService_SendData_def ZW_TransportService_Is_Sending_def ZW_TransportService_Is_Receving_def
        recv_or_send_def tx_idle_def t2_sm_post_event_def s0_def Let_def)
  have s2: "tx_session p d sid s2" using s u by (simp add: tx_session_def tx_idle_def s2_def s0_def)
  have m47: "m \<le> 47" "0 < m" using max_payload_range [of "tx_flags p"] by (simp_all add: m_def)
  have b: "add_crc (of_nat (n + 4)) (copy_datagram 4 0 n (put_tx 0 (first_hdr s2) s2)) =
      s2\<lparr>t2_txBuf := first_frame sid d n @ drop (n + 6) (t2_txBuf s2)\<rparr>"
    using m47 by (intro first_built [OF s2]) (auto simp: n_def)
  have l: "length (first_frame sid d n) = n + 6" by (intro length_frames) (auto simp: n_def)
  have n0: "n \<noteq> 0" "n \<le> 47" using len m47 by (auto simp: n_def)
  have nx: "next_session rnd (scb_session_id s0) = sid" using sid by (simp add: s0_def)
  have u2: "set_frag_compl sid False (s0\<lparr>scb_session_id := sid\<rparr>) = s0\<lparr>scb_session_id := sid, frag_compl_list := (frag_compl_list s)[unat sid := False]\<rparr>"
    using u by (simp add: set_frag_compl_def s0_def)
  have f0: "datagram s0 = d" "scb_p s0 = p" by (simp_all add: s0_def)
  have e: "s' = (let s4 = s2\<lparr>t2_txBuf := first_frame sid d n @ drop (n + 6) (t2_txBuf s2), scb_pending_segments := segments rem n\<rparr>
      in if length d \<le> m then send_last_frag (t2_sm_post_event EV_SEND_LAST_FRAG (s4\<lparr>does_not_fit_in_first_frag := False\<rparr>))
         else case send_txBuf (n + 6) ZCB_ts_senddata (s4\<lparr>reset_timer := True\<rparr>) of (ok, s5) \<Rightarrow>
           if ok then t2_sm_post_event EV_SEND_NEW_FRAG (s5\<lparr>sending := True\<rparr>) else s5)"
    unfolding e0 send_first_frag_def Let_def nx u2 f0
    unfolding m_def [symmetric]
    unfolding rem_def [symmetric] n_def [symmetric]
    unfolding s2_def [symmetric] b
    using n0 by simp
  have f: "scb_p s2 = p" "datalen_to_send s2 = n" "radio s2 = []" "ts_outs s2 = ts_outs s" "ts_fault s2 = ts_fault s"
    "current_state s2 = ST_SEND_FRAG" "FragmentMaxPayload s2 = m" "remaining_data_len s2 = rem"
    using s by (auto simp: s2_def s0_def tx_idle_def)
  show "tx_waiting p d sid s' \<and> sent (ts_outs s') = sent (ts_outs s) @ [first_frame sid d (length d)] \<and> ts_fault s' = ts_fault s"
    if "length d \<le> m"
  proof -
    have n: "n = length d" using that by (simp add: n_def)
    show ?thesis using that f s2 l p n0(2) unfolding e n
      by (simp add: send_last_frag_ok t2_sm_post_event_def tx_session_def tx_waiting_def)
  qed
  show "tx_sending p d sid m (length d - m) s' \<and> sent (ts_outs s') = sent (ts_outs s) @ [first_frame sid d m] \<and> ts_fault s' = ts_fault s"
    if "m < length d"
  proof -
    have n: "n = m" "rem = length d - m" using that by (simp_all add: n_def rem_def)
    show ?thesis using that f s2 l p n0(2) unfolding e n
      by (simp add: send_txBuf_def TS_SEND_RAW_def ts_emit_def t2_sm_post_event_def tx_session_def tx_sending_def)
  qed
qed

end
