(* ===== verification/Transport_Roundtrip.thy ===== *)
theory Transport_Roundtrip
  imports Transport_Delivery
begin

text \<open>
  The receiver of the segments that \<open>Transport_Delivery\<close> lists, the acknowledgement at the sender, and the
  round trip of a datagram through both machines.
\<close>

section \<open>The fields of a segment\<close>

lemma cmd_field: "(c OR (x AND 7)) AND 0xf8 = c" if "c AND 0xf8 = c" for c x :: byte
proof -
  have "x AND (7 AND 0xf8) = x AND 0" by simp
  then have "(x AND 7) AND 0xf8 = 0" by (simp add: and.assoc)
  then show ?thesis using that by (simp add: bit.conj_disj_distrib2)
qed

lemma low_field: "(c OR (x AND 7)) AND 7 = x AND 7" if "c AND 7 = 0" for c x :: byte
  using that by (simp add: bit.conj_disj_distrib2 and.assoc)

lemma and_7: "x AND 7 = take_bit 3 (x :: byte)"
proof -
  have "(7 :: byte) = Bit_Operations.mask 3" by (simp add: mask_eq_exp_minus_1)
  then show ?thesis by (simp add: take_bit_eq_mask)
qed

lemma unat_low3: "n < 8 \<Longrightarrow> unat (of_nat n AND 7 :: byte) = n"
  by (simp add: and_7 take_bit_eq_mod unat_mod unat_of_nat)

lemma field11_value: "c AND 7 = 0 \<Longrightarrow> n < 2048 \<Longrightarrow> field11 (c OR (of_nat (n div 256) AND 7)) (of_nat n) = n"
  by (simp add: field11_def low_field unat_low3 unat_of_nat take_bit_eq_mod)

lemma shifted_low: "push_bit 4 sid AND 7 = 0" for sid :: byte
  by (simp add: and_7 take_bit_push_bit)

lemma session_field: "drop_bit 4 (push_bit 4 sid OR (x AND 7)) = sid" if "sid < 16" for sid x :: byte
proof -
  have "sid = take_bit 4 sid" using that by (simp add: take_bit_eq_mod word_unat_eq_iff unat_mod word_less_nat_alt)
  then have "i < 4" if "bit sid i" for i using that by (metis bit_take_bit_iff)
  then have 1: "drop_bit 4 (push_bit 4 sid) = sid"
    by (intro bit_word_eqI) (auto simp: bit_drop_bit_eq bit_push_bit_iff)
  have 2: "drop_bit 4 (x AND 7) = 0" by (simp add: and_7 drop_bit_take_bit)
  show ?thesis by (simp add: drop_bit_or 1 2)
qed

lemma session_field0: "sid < 16 \<Longrightarrow> drop_bit 4 (push_bit 4 sid) = (sid :: byte)"
  using session_field [of sid 0] by simp

lemma first_frame_fields:
  assumes "sid < 16" "length d < 2048"
  shows "byte_at (first_frame sid d n) 0 = 0x55" "byte_at (first_frame sid d n) 1 AND 0xf8 = 0xC0"
    "field11 (byte_at (first_frame sid d n) 1) (byte_at (first_frame sid d n) 2) = length d"
    "drop_bit 4 (byte_at (first_frame sid d n) 3) = sid"
  using assms by (simp_all add: first_frame_def byte_at_def with_crc_def cmd_field field11_value session_field0)

lemma first_frame_crc: "zgw_crc16 0x1D0F (first_frame sid d n) = 0"
  unfolding first_frame_def by (rule crc_with_crc)

lemma subseq_frame_fields:
  assumes "sid < 16" "length d < 2048" "off < 2048"
  shows "byte_at (subseq_frame sid d off n) 0 = 0x55" "byte_at (subseq_frame sid d off n) 1 AND 0xf8 = 0xE0"
    "field11 (byte_at (subseq_frame sid d off n) 1) (byte_at (subseq_frame sid d off n) 2) = length d"
    "field11 (byte_at (subseq_frame sid d off n) 3) (byte_at (subseq_frame sid d off n) 4) = off"
    "drop_bit 4 (byte_at (subseq_frame sid d off n) 3) = sid"
  using assms by (simp_all add: subseq_frame_def byte_at_def with_crc_def cmd_field field11_value session_field session_field0 shifted_low)

lemma subseq_frame_crc: "zgw_crc16 0x1D0F (subseq_frame sid d off n) = 0"
  unfolding subseq_frame_def by (rule crc_with_crc)

lemma first_frame_segment:
  assumes "sid < 16" "length d < 2048" "n \<le> length d" "E sid = d"
  shows "segment_of E (first_frame sid d n)"
proof -
  have l: "length (first_frame sid d n) - 6 = n" using assms by (simp add: length_frames)
  have p: "take n (drop 4 (first_frame sid d n)) = take n d" using assms by (simp add: first_frame_def with_crc_def)
  show ?thesis unfolding segment_of_def Let_def l p first_frame_fields [OF assms(1,2)] using assms by simp
qed

lemma subseq_frame_segment:
  assumes "sid < 16" "length d < 2048" "off + n \<le> length d" "E sid = d"
  shows "segment_of E (subseq_frame sid d off n)"
proof -
  have l: "length (subseq_frame sid d off n) - 7 = n" using assms by (simp add: length_frames)
  have p: "take n (drop 5 (subseq_frame sid d off n)) = take n (drop off d)"
    using assms by (simp add: subseq_frame_def with_crc_def)
  have "off < 2048" using assms by simp
  note F = subseq_frame_fields [OF assms(1,2) this]
  show ?thesis unfolding segment_of_def Let_def l p F using assms by simp
qed

section \<open>The receiver\<close>

text \<open>A frame as the radio hands it to the transport service.\<close>

definition rx_frame :: "byte \<Rightarrow> ts_param \<Rightarrow> buffer \<Rightarrow> ts_input" where
  "rx_frame my q f = Frame my q f (of_nat (length f))"

text \<open>A receiver that has the first \<open>c\<close> bytes of the datagram.\<close>

definition rx_session :: "nodeid \<Rightarrow> byte \<Rightarrow> buffer \<Rightarrow> nat \<Rightarrow> ts \<Rightarrow> bool" where
  "rx_session a sid d c s \<longleftrightarrow> rx_inv (\<lambda>_. {d}) (\<lambda>_ _. d) s \<and> \<not> flag_initialize_once s \<and> rcb_session_id s = sid \<and> current_snode s = a \<and>
     datagram_size s = length d \<and> (\<forall>k < 8 * BITMASK_SIZE. marked (bytes_recvd_bitmask s) k \<longleftrightarrow> k < c) \<and>
     current_state s = ST_RECEIVING \<and> \<not> recv_frag_compl_list s ! unat sid \<and> TSApplicationCommandHandler s \<and>
     radio s = [] \<and> current_dnode s \<in> {0, a} \<and> ts_outs s = [] \<and> \<not> ts_fault s"

definition rx_idle :: "nodeid \<Rightarrow> ts \<Rightarrow> bool" where
  "rx_idle a s \<longleftrightarrow> rx_ready s \<and> current_state s = ST_IDLE \<and> current_snode s = 0 \<and> current_dnode s \<in> {0, a} \<and>
     length (recv_frag_compl_list s) = 16 \<and> TSApplicationCommandHandler s \<and> radio s = [] \<and> \<not> ts_fault s"

definition rx_entry :: "ts_param \<Rightarrow> ts \<Rightarrow> ts" where
  "rx_entry q s = (initialize_once (s\<lparr>reset_timer := True, frag_wait_p := q, current_state := ST_RECEIVING\<rparr>))\<lparr>rcb_p := q\<rparr>"

lemma handler_enters:
  assumes st: "current_state s \<in> {ST_IDLE, ST_RECEIVING}" and q: "snode q \<noteq> dnode q" "\<not> third_node q s"
    and len: "length f \<le> DATAGRAM_SIZE_MAX"
    and cmd: "rcb_session_id s = NO_SESSION \<Longrightarrow> byte_at f 1 AND 0xf8 \<noteq> COMMAND_SUBSEQUENT_FRAGMENT"
  shows "ts_step (rx_frame my q f) s = receive f (length f) (rx_entry q s)"
proof -
  have t: "tie_break my q (s\<lparr>reset_timer := True\<rparr>) = s\<lparr>reset_timer := True\<rparr>"
    using st by (auto simp: tie_break_def ZW_TransportService_Is_Sending_def recv_or_send_def)
  have u: "unat (of_nat (length f) :: byte) = length f" using len by (simp add: unat_of_nat take_bit_eq_mod)
  have th: "\<not> third_node q (s\<lparr>reset_timer := True, frag_wait_p := q\<rparr>)" using q by (simp add: third_node_def)
  have p: "(case current_state s of ST_IDLE \<Rightarrow> t2_sm_post_event EV_START_RECV x | ST_RECEIVING \<Rightarrow> t2_sm_post_event EV_RECV_NEW_FRAG x | _ \<Rightarrow> x) =
      x\<lparr>current_state := ST_RECEIVING\<rparr>" if "current_state x = current_state s" for x
    using st that by (auto simp: t2_sm_post_event_def)
  show ?thesis
    using cmd q(1) th len by (auto simp: rx_frame_def TransportService_ApplicationCommandHandler_def Let_def t u p rx_entry_def)
qed

lemma rx_entry_fields:
  "current_state (rx_entry q s) = ST_RECEIVING" "rcb_p (rx_entry q s) = q" "\<not> flag_initialize_once (rx_entry q s)"
  "TSApplicationCommandHandler (rx_entry q s) = TSApplicationCommandHandler s" "radio (rx_entry q s) = radio s"
  "current_dnode (rx_entry q s) = current_dnode s" "recv_frag_compl_list (rx_entry q s) = recv_frag_compl_list s"
  "ts_outs (rx_entry q s) = ts_outs s" "ts_fault (rx_entry q s) = ts_fault s"
  by (simp_all add: rx_entry_def initialize_once_def)

lemma tie_abort_fields:
  "current_state (tie_abort s) = current_state s" "rcb_p (tie_abort s) = rcb_p s"
  "flag_initialize_once (tie_abort s) = flag_initialize_once s"
  "TSApplicationCommandHandler (tie_abort s) = TSApplicationCommandHandler s" "radio (tie_abort s) = radio s"
  "current_dnode (tie_abort s) = current_dnode s" "recv_frag_compl_list (tie_abort s) = recv_frag_compl_list s"
  "ts_outs (tie_abort s) = ts_outs s" "ts_fault (tie_abort s) = ts_fault s" "rcb_session_id (tie_abort s) = rcb_session_id s"
  "bytes_recvd_bitmask (tie_abort s) = bytes_recvd_bitmask s" "datagramData (tie_abort s) = datagramData s"
  "current_snode (tie_abort s) = current_snode s"
  by (simp_all add: tie_abort_def)

lemma send_complete_exact:
  assumes "radio s = []" "TSApplicationCommandHandler s" "rcb_session_id s \<le> 0xf"
  shows "send_frag_complete_cmd s =
    t2_sm_post_event EV_SUCCESS (s\<lparr>reset_timer := True,
      ts_outs := Deliver (snode (rcb_p s)) (dnode (rcb_p s)) (take (datagram_size s) (datagramData s)) #
        Raw (ucast (dnode (rcb_p s))) (ucast (snode (rcb_p s))) [0x55, 0xE8, push_bit 4 (rcb_session_id s)] (tx_flags (rcb_p s) OR 1)
          No_callback True # ts_outs s,
      recv_frag_compl_list := (recv_frag_compl_list s)[unat (rcb_session_id s) := True], rcb_session_id := NO_SESSION,
      current_snode := 0, rx_timer := False\<rparr>)"
  using assms by (simp add: send_frag_complete_cmd_def raw_cmd_def TS_SEND_RAW_def ts_emit_def Let_def not_less [symmetric])

text \<open>A datagram is handed over: what the log holds then, and that the session is closed.\<close>

definition rx_done :: "ts_param \<Rightarrow> byte \<Rightarrow> buffer \<Rightarrow> ts_state \<Rightarrow> ts \<Rightarrow> bool" where
  "rx_done q sid d st s \<longleftrightarrow> current_state s = st \<and> rcb_session_id s = NO_SESSION \<and> \<not> rx_timer s \<and> \<not> ts_fault s \<and>
     ts_outs s = [Deliver (snode q) (dnode q) d,
       Raw (ucast (dnode q)) (ucast (snode q)) [0x55, 0xE8, push_bit 4 sid] (tx_flags q OR 1) No_callback True]"

lemma complete_done:
  assumes s: "rx_session a sid d (length d) (s\<lparr>current_state := ST_RECEIVING\<rparr>)" and sid: "sid < 16" and q: "rcb_p s = q"
    and d: "length d \<le> DATAGRAM_SIZE_MAX"
  shows "rx_done q sid d (next_state EV_SUCCESS (current_state s)) (send_frag_complete_cmd s)"
proof -
  let ?s = "s\<lparr>current_state := ST_RECEIVING\<rparr>"
  have f: "radio s = []" "TSApplicationCommandHandler s" "rcb_session_id s = sid" "ts_outs s = []" "\<not> ts_fault s"
    using s by (simp_all add: rx_session_def)
  have "take (datagram_size ?s) (datagramData ?s) = (\<lambda>_ _. d) (snode (rcb_p ?s)) (rcb_session_id ?s)"
    using s sid d unfolding rx_session_def by (intro rx_inv_complete [where D = "\<lambda>_ _. d"]) auto
  then have t: "take (datagram_size s) (datagramData s) = d" by simp
  have "sid \<le> 0xf" using sid by (simp add: word_less_nat_alt word_le_nat_alt)
  with f q t show ?thesis by (subst send_complete_exact) (simp_all add: rx_done_def t2_sm_post_event_def)
qed

lemma post_state [simp]: "(t2_sm_post_event e s)\<lparr>current_state := x\<rparr> = s\<lparr>current_state := x\<rparr>"
  by (simp add: t2_sm_post_event_def)

lemma rx_session_state: "rx_session a sid d c s \<Longrightarrow> rx_session a sid d c (s\<lparr>current_state := ST_RECEIVING\<rparr>)"
  by (simp add: rx_session_def rx_inv_cong [OF rx_fields(30)])

lemma stored_first_fields:
  "current_state (stored_first f n s) = current_state s" "rcb_p (stored_first f n s) = rcb_p s"
  "TSApplicationCommandHandler (stored_first f n s) = TSApplicationCommandHandler s" "radio (stored_first f n s) = radio s"
  "current_dnode (stored_first f n s) = current_dnode s" "ts_outs (stored_first f n s) = ts_outs s"
  "ts_fault (stored_first f n s) \<longleftrightarrow> ts_fault s \<or> n > DATAGRAM_SIZE_MAX"
  "recv_frag_compl_list (stored_first f n s) = (recv_frag_compl_list s)[unat (drop_bit 4 (byte_at f 3)) := False]"
  "\<not> flag_initialize_once s \<Longrightarrow> \<not> flag_initialize_once (stored_first f n s)"
  "rcb_session_id (stored_first f n s) = drop_bit 4 (byte_at f 3)" "current_snode (stored_first f n s) = snode (rcb_p s)"
  "datagram_size (stored_first f n s) = field11 (byte_at f 1) (byte_at f 2)"
  by (simp_all add: stored_first_def mark_frag_received_def copy_in_def)

lemma receiver_first:
  assumes r: "rx_idle (snode q) r" and q: "snode q \<noteq> dnode q" "snode q \<noteq> 0" and sid: "sid < 16"
    and d: "length d \<le> DATAGRAM_SIZE_MAX" "0 < n" "n \<le> length d" "n \<le> 47"
    and r': "r' = ts_step (rx_frame my q (first_frame sid d n)) r"
  shows "n < length d \<Longrightarrow> rx_session (snode q) sid d n r' \<and> rcb_p r' = q"
    and "n = length d \<Longrightarrow> rx_done q sid d ST_RECEIVING r'"
proof -
  let ?f = "first_frame sid d n"
  let ?r = "tie_abort (rx_entry q r)"
  let ?r2 = "stored_first ?f n ?r"
  have d2: "length d < 2048" "length ?f = n + 6" using d by (simp_all add: length_frames)
  note F = first_frame_fields [OF sid d2(1), of n]
  have e: "r' = receive ?f (n + 6) (rx_entry q r)"
    unfolding r' d2(2) [symmetric] using r q d d2 F by (intro handler_enters) (auto simp: rx_idle_def third_node_def)
  have ini: "rx_inv G D (initialize_once (r\<lparr>reset_timer := True, frag_wait_p := q, current_state := ST_RECEIVING\<rparr>))" if "\<forall>x i. D x i \<in> G x" for G D
    using r rx_ready_inv [of r, OF _ that] that by (intro initialize_inv(1)) (simp add: rx_idle_def rx_inv_def session_ok_def)
  have ns: "rcb_session_id (rx_entry q r) = NO_SESSION"
    using r by (auto simp: rx_entry_def initialize_once_def rx_idle_def rx_ready_def split: if_splits)
  have inv: "rx_inv (\<lambda>_. {d}) (\<lambda>_ _. d) ?r"
    using ini [of "\<lambda>_ _. d"] ns unfolding rx_inv_cong [OF rx_tie_abort] rx_entry_def by (intro set_param_inv) auto
  have base: "rx_base (\<lambda>_. {d}) (\<lambda>_ _. d) ?r" by (rule rx_base_inv [OF inv]) simp
  note fl = tie_abort_fields rx_entry_fields stored_first_fields
  have st: "rx_inv (\<lambda>_. {d}) (\<lambda>_ _. d) (stored_first ?f (n + 6 - 6) ?r)"
    "\<forall>k < 8 * BITMASK_SIZE. marked (bytes_recvd_bitmask (stored_first ?f (n + 6 - 6) ?r)) k \<longleftrightarrow> k < n + 6 - 6"
    by (rule stored_first_inv;
        use inv base d d2 q F first_frame_segment [OF sid d2(1) d(3), of "\<lambda>_. d"] in \<open>simp add: fl\<close>)+
  have u: "unat sid < 16" using sid by (simp add: word_less_nat_alt)
  have ses: "rx_session (snode q) sid d n ?r2"
    using st r d F u by (simp add: rx_session_def fl rx_idle_def rx_ready_def)
  have rr: "r' = (if n = length d then send_frag_complete_cmd (t2_sm_post_event EV_SEND_FRAG_COMPLETE ?r2) else ?r2\<lparr>rx_data_state := False\<rparr>)"
    using d d2 F first_frame_crc [of sid d n] ns
    by (simp add: e receive_def receive_first_unfold Let_def fl)
  show "rx_session (snode q) sid d n r' \<and> rcb_p r' = q" if "n < length d"
  proof
    show "rx_session (snode q) sid d n r'"
      using that ses by (simp add: rr rx_session_def rx_inv_cong [OF rx_fields(26)])
    show "rcb_p r' = q" using that by (simp add: rr fl)
  qed
  show "rx_done q sid d ST_RECEIVING r'" if "n = length d"
  proof -
    let ?r4 = "t2_sm_post_event EV_SEND_FRAG_COMPLETE ?r2"
    have "rx_session (snode q) sid d (length d) (?r4\<lparr>current_state := ST_RECEIVING\<rparr>)"
      using rx_session_state [OF ses] that by simp
    moreover have "rcb_p ?r4 = q" "current_state ?r4 = ST_RECEIVING" by (simp_all add: t2_sm_post_event_def fl)
    ultimately show ?thesis using complete_done [of "snode q" sid d ?r4 q] sid d(1) that by (simp add: rr)
  qed
qed

lemma stored_subseq_fields:
  assumes "\<not> fst (mark_frag_received off n s)"
  shows "current_state (stored_subseq f off n s) = current_state s" "rcb_p (stored_subseq f off n s) = rcb_p s"
    "TSApplicationCommandHandler (stored_subseq f off n s) = TSApplicationCommandHandler s"
    "radio (stored_subseq f off n s) = radio s" "current_dnode (stored_subseq f off n s) = current_dnode s"
    "ts_outs (stored_subseq f off n s) = ts_outs s"
    "ts_fault (stored_subseq f off n s) \<longleftrightarrow> ts_fault s \<or> off + n > DATAGRAM_SIZE_MAX"
    "recv_frag_compl_list (stored_subseq f off n s) = recv_frag_compl_list s"
    "flag_initialize_once (stored_subseq f off n s) = flag_initialize_once s"
    "rcb_session_id (stored_subseq f off n s) = rcb_session_id s" "current_snode (stored_subseq f off n s) = current_snode s"
    "datagram_size (stored_subseq f off n s) = field11 (byte_at f 1) (byte_at f 2)"
    "bytes_recvd_bitmask (stored_subseq f off n s) = mark_bytes off n (bytes_recvd_bitmask s)"
proof -
  have "snd (mark_frag_received off n s) = s\<lparr>bytes_recvd_bitmask := mark_bytes off n (bytes_recvd_bitmask s)\<rparr>"
    using assms by (auto simp: mark_frag_received_def)
  note e = this
  show "current_state (stored_subseq f off n s) = current_state s" "rcb_p (stored_subseq f off n s) = rcb_p s"
    "TSApplicationCommandHandler (stored_subseq f off n s) = TSApplicationCommandHandler s"
    "radio (stored_subseq f off n s) = radio s" "current_dnode (stored_subseq f off n s) = current_dnode s"
    "ts_outs (stored_subseq f off n s) = ts_outs s"
    "ts_fault (stored_subseq f off n s) \<longleftrightarrow> ts_fault s \<or> off + n > DATAGRAM_SIZE_MAX"
    "recv_frag_compl_list (stored_subseq f off n s) = recv_frag_compl_list s"
    "flag_initialize_once (stored_subseq f off n s) = flag_initialize_once s"
    "rcb_session_id (stored_subseq f off n s) = rcb_session_id s" "current_snode (stored_subseq f off n s) = current_snode s"
    "datagram_size (stored_subseq f off n s) = field11 (byte_at f 1) (byte_at f 2)"
    "bytes_recvd_bitmask (stored_subseq f off n s) = mark_bytes off n (bytes_recvd_bitmask s)"
    by (simp_all add: stored_subseq_def copy_in_def e)
qed

lemma receiver_subseq:
  assumes r: "rx_session (snode q) sid d c r" "rcb_p r = q" and q: "snode q \<noteq> dnode q" "snode q \<noteq> 0" "rx_flags q = 0" and sid: "sid < 16"
    and d: "length d \<le> DATAGRAM_SIZE_MAX" "0 < n" "0 < c" "c + n \<le> length d" "n \<le> 47"
    and r': "r' = ts_step (rx_frame my q (subseq_frame sid d c n)) r"
  shows "c + n < length d \<Longrightarrow> rx_session (snode q) sid d (c + n) r' \<and> rcb_p r' = q"
    and "c + n = length d \<Longrightarrow> rx_done q sid d ST_IDLE r'"
proof -
  let ?f = "subseq_frame sid d c n"
  let ?r1 = "tie_abort (rx_entry q r)"
  let ?r2 = "?r1\<lparr>cur_recvd_data_size := n, rx_timer := True\<rparr>"
  let ?r3 = "stored_subseq ?f c n ?r2"
  have d2: "length d < 2048" "c < 2048" "length ?f = n + 7" using d by (simp_all add: length_frames)
  note F = subseq_frame_fields [OF sid d2(1,2), of n]
  have ns: "sid \<noteq> NO_SESSION" using sid by auto
  have e: "r' = receive ?f (n + 7) (rx_entry q r)"
    unfolding r' d2(3) [symmetric] using r q d d2 F ns
    by (intro handler_enters) (auto simp: rx_session_def third_node_def)
  have en: "rx_entry q r = r\<lparr>reset_timer := True, frag_wait_p := q, current_state := ST_RECEIVING, rcb_p := q\<rparr>"
    using r by (simp add: rx_entry_def initialize_once_def rx_session_def)
  have "rx_view (rx_entry q r) = rx_view r" unfolding en using r(2) by (simp add: rx_view_def)
  then have "rx_inv (\<lambda>_. {d}) (\<lambda>_ _. d) ?r1" using r(1) rx_inv_cong unfolding rx_inv_cong [OF rx_tie_abort] rx_session_def by blast
  moreover have "\<not> flag_initialize_once ?r1" by (simp add: tie_abort_fields rx_entry_fields)
  ultimately have inv2: "rx_inv (\<lambda>_. {d}) (\<lambda>_ _. d) ?r2" by (simp add: rx_inv_def session_ok_def)
  have b0: "bytes_recvd_bitmask ?r2 = bytes_recvd_bitmask r" by (simp add: tie_abort_fields en)
  have bl: "length (bytes_recvd_bitmask r) = BITMASK_SIZE" using r by (simp add: rx_session_def rx_inv_def)
  have "marked (bytes_recvd_bitmask r) 0" using r(1) d(3) by (simp add: rx_session_def)
  then have m0: "\<not> fst (mark_frag_received c n ?r2)" by (simp add: mark_frag_received_def b0 marked_def)
  have mk: "\<forall>k < 8 * BITMASK_SIZE. marked (bytes_recvd_bitmask ?r3) k \<longleftrightarrow> k < c + n"
    using r d marked_mark_bytes [OF bl, of c n] by (auto simp: stored_subseq_fields [OF m0] b0 rx_session_def)
  have "rx_inv (\<lambda>_. {d}) (\<lambda>_ _. d) (stored_subseq ?f c (n + 7 - 7) ?r2)"
    by (rule stored_subseq_inv) (use inv2 m0 d d2 F r subseq_frame_segment [OF sid d2(1) d(4), of "\<lambda>_. d"] in
      \<open>auto simp: tie_abort_fields en rx_session_def\<close>)
  then have i3: "rx_inv (\<lambda>_. {d}) (\<lambda>_ _. d) ?r3" by simp
  note fl = stored_subseq_fields [OF m0] tie_abort_fields rx_entry_fields
  have ses: "rx_session (snode q) sid d (c + n) ?r3"
    using i3 mk r d F by (simp add: rx_session_def fl) (simp add: en)
  have r4: "rcb_session_id ?r1 = sid" "\<not> recv_frag_compl_list ?r1 ! unat sid"
    using r(1) by (simp_all add: tie_abort_fields en rx_session_def)
  have rr: "r' = (if c + n \<ge> length d then find_missing (t2_sm_post_event EV_RECV_LAST_FRAG ?r3) else ?r3\<lparr>rx_data_state := False\<rparr>)"
    using d F(2,3,4,5) subseq_frame_crc [of sid d c n] ns r4 m0 d2(3)
    by (simp add: e receive_def F(1) receive_subseq_unfold Let_def fl)
  show "rx_session (snode q) sid d (c + n) r' \<and> rcb_p r' = q" if "c + n < length d"
  proof
    show "rx_session (snode q) sid d (c + n) r'" using that ses by (simp add: rr rx_session_def rx_inv_cong [OF rx_fields(26)])
    show "rcb_p r' = q" using that by (simp add: rr fl)
  qed
  show "rx_done q sid d ST_IDLE r'" if "c + n = length d"
  proof -
    let ?r4 = "t2_sm_post_event EV_SEND_FRAG_COMPLETE (t2_sm_post_event EV_RECV_LAST_FRAG ?r3)"
    have "get_next_missing_offset (t2_sm_post_event EV_RECV_LAST_FRAG ?r3) = 0"
      using ses d that by (subst missing_zero_iff) (auto simp: rx_session_def t2_sm_post_event_def)
    then have "r' = send_frag_complete_cmd ?r4" using that q by (simp add: rr find_missing_def rx_inv_fields) (simp add: t2_sm_post_event_def fl)
    moreover have "rx_session (snode q) sid d (length d) (?r4\<lparr>current_state := ST_RECEIVING\<rparr>)"
      using rx_session_state [OF ses] that by simp
    moreover have "rcb_p ?r4 = q" "current_state ?r4 = ST_SEND_FRAG_COMPLETE" by (simp_all add: t2_sm_post_event_def fl)
    ultimately show ?thesis using complete_done [of "snode q" sid d ?r4 q] sid d(1) by simp
  qed
qed

text \<open>All segments after the first, from the byte \<open>c\<close> on.\<close>

lemma receiver_run:
  assumes "rx_session (snode q) sid d (length d - k) r" "rcb_p r = q" and q: "snode q \<noteq> dnode q" "snode q \<noteq> 0" "rx_flags q = 0"
    and "sid < 16" "length d \<le> DATAGRAM_SIZE_MAX" "0 < m" "m \<le> 47" "0 < k" "k < length d"
  shows "rx_done q sid d ST_IDLE (ts_run (map (rx_frame my q) (subseq_frames sid d m k)) r)"
  using assms(1,2,10,11)
proof (induction k arbitrary: r rule: less_induct)
  case (less k)
  show ?case
  proof (cases "k \<le> m")
    case True
    then show ?thesis
      using receiver_subseq(2) [OF less.prems(1,2) q assms(6,7) _ _ _ _ refl, of k my] less.prems assms(9)
      by (simp add: subseq_frames.simps ts_run_def)
  next
    case False
    then have e: "subseq_frames sid d m k = subseq_frame sid d (length d - k) m # subseq_frames sid d m (k - m)"
      using assms(8) by (subst subseq_frames.simps) simp
    let ?r1 = "ts_step (rx_frame my q (subseq_frame sid d (length d - k) m)) r"
    have "rx_session (snode q) sid d (length d - k + m) ?r1 \<and> rcb_p ?r1 = q"
      using False less.prems assms(8,9) by (intro receiver_subseq(1) [OF less.prems(1,2) q assms(6,7) _ _ _ _ refl]) auto
    moreover have "length d - k + m = length d - (k - m)" using False less.prems by simp
    ultimately show ?thesis
      using less.IH [of "k - m" ?r1] False less.prems assms(8) by (simp add: e ts_run_def)
  qed
qed

lemma receiver_all:
  assumes "rx_idle (snode q) r" and q: "snode q \<noteq> dnode q" "snode q \<noteq> 0" "rx_flags q = 0"
    and "sid < 16" "0 < length d" "length d \<le> DATAGRAM_SIZE_MAX" "0 < m" "m \<le> 47"
  shows "rx_done q sid d (if length d \<le> m then ST_RECEIVING else ST_IDLE) (ts_run (map (rx_frame my q) (frames_of sid d m)) r)"
proof (cases "length d \<le> m")
  case True
  then show ?thesis
    using receiver_first(2) [OF assms(1) q(1,2) assms(5,7) _ _ _ refl, of "length d" my] assms
    by (simp add: frames_of_def ts_run_def)
next
  case False
  let ?r1 = "ts_step (rx_frame my q (first_frame sid d m)) r"
  have "rx_session (snode q) sid d m ?r1 \<and> rcb_p ?r1 = q"
    using False assms by (intro receiver_first(1) [OF assms(1) q(1,2) assms(5,7) _ _ _ refl]) auto
  then have "rx_done q sid d ST_IDLE (ts_run (map (rx_frame my q) (subseq_frames sid d m (length d - m))) ?r1)"
    using False assms by (intro receiver_run) auto
  with False show ?thesis by (simp add: frames_of_def ts_run_def)
qed

section \<open>The acknowledgement\<close>

lemma receive_complete_ok:
  assumes "current_state s \<in> {ST_WAIT_ACK, ST_RECEIVING}" "scb_session_id s = sid" "transmission_aborted s = 0x11" "completedFunc s"
    and "snode (rcb_p s) = current_dnode s" "sid < 15"
  shows "let s' = receive [0x55, 0xE8, push_bit 4 sid] 3 s
    in current_state s' = ST_IDLE \<and> ts_outs s' = Completed S2_TRANSMIT_COMPLETE_OK # ts_outs s \<and> ts_fault s' = ts_fault s \<and> \<not> fc_timer s'"
proof -
  have sid: "unat sid < 15" "sid < 16" "sid \<noteq> 0x11" using assms(6) by (auto simp: word_less_nat_alt)
  show ?thesis
    using assms sid session_field0 [OF sid(2)]
    by (auto simp: receive_def receive_complete_def check_session_def byte_at_def set_frag_compl_def completed_def ts_emit_def
        t2_sm_post_event_def Let_def)
qed

text \<open>A frame of the destination reaches \<open>receive\<close> while the sender waits.\<close>

lemma waiting_enters:
  assumes s: "tx_waiting p d sid s" and q: "snode q = dnode p" "snode q \<noteq> dnode q" "current_snode s = 0"
    and f: "length f \<le> DATAGRAM_SIZE_MAX" "byte_at f 1 AND 0xf8 \<noteq> COMMAND_SUBSEQUENT_FRAGMENT"
  obtains x where "ts_step (rx_frame my q f) s = receive f (length f) x"
    and "current_state x \<in> {ST_WAIT_ACK, ST_RECEIVING}" "scb_session_id x = sid" "transmission_aborted x = 0x11"
      "completedFunc x" "snode (rcb_p x) = current_dnode x" "ts_outs x = ts_outs s" "ts_fault x = ts_fault s"
      "datagram x = d" "frag_compl_list x = frag_compl_list s" "sending x = sending s"
proof
  define s1 where "s1 = tie_break my q (s\<lparr>reset_timer := True\<rparr>)"
  define s2 where "s2 = s1\<lparr>frag_wait_p := q\<rparr>"
  define s3 where "s3 = (case current_state s2 of ST_IDLE \<Rightarrow> t2_sm_post_event EV_START_RECV s2
    | ST_RECEIVING \<Rightarrow> t2_sm_post_event EV_RECV_NEW_FRAG s2 | _ \<Rightarrow> s2)"
  define x where "x = (initialize_once s3)\<lparr>rcb_p := q\<rparr>"
  have f1: "current_state s1 \<in> {ST_WAIT_ACK, ST_RECEIVING}" "scb_session_id s1 = sid" "transmission_aborted s1 = 0x11"
    "completedFunc s1" "current_dnode s1 = snode q" "current_snode s1 = 0" "ts_outs s1 = ts_outs s" "ts_fault s1 = ts_fault s"
    "datagram s1 = d" "frag_compl_list s1 = frag_compl_list s" "sending s1 = sending s"
    using s q by (auto simp: s1_def tie_break_def tx_waiting_def tx_session_def t2_sm_post_event_def)
  have f3: "current_state s3 \<in> {ST_WAIT_ACK, ST_RECEIVING}" "scb_session_id s3 = sid" "transmission_aborted s3 = 0x11"
    "completedFunc s3" "current_dnode s3 = snode q" "ts_outs s3 = ts_outs s" "ts_fault s3 = ts_fault s"
    "datagram s3 = d" "frag_compl_list s3 = frag_compl_list s" "sending s3 = sending s"
    using f1 by (auto simp: s3_def s2_def t2_sm_post_event_def)
  show "current_state x \<in> {ST_WAIT_ACK, ST_RECEIVING}" "scb_session_id x = sid" "transmission_aborted x = 0x11"
    "completedFunc x" "snode (rcb_p x) = current_dnode x" "ts_outs x = ts_outs s" "ts_fault x = ts_fault s"
    "datagram x = d" "frag_compl_list x = frag_compl_list s" "sending x = sending s"
    using f3 by (auto simp: x_def initialize_once_def)
  have th: "\<not> third_node q s2" using f1 by (simp add: third_node_def s2_def)
  have u: "unat (of_nat (length f) :: byte) = length f" using f(1) by (simp add: unat_of_nat take_bit_eq_mod)
  show "ts_step (rx_frame my q f) s = receive f (length f) x"
    using th q(2) f u
    unfolding rx_frame_def ts_step.simps TransportService_ApplicationCommandHandler_def Let_def s1_def [symmetric] s2_def [symmetric]
      s3_def [symmetric] x_def [symmetric]
    by simp
qed

lemma sender_acknowledged:
  assumes s: "tx_waiting p d sid s" and sid: "sid < 15" and q: "snode q = dnode p" "snode q \<noteq> dnode q" "current_snode s = 0"
    and s': "s' = ts_step (rx_frame my q [0x55, 0xE8, push_bit 4 sid]) s"
  shows "current_state s' = ST_IDLE \<and> ts_outs s' = Completed S2_TRANSMIT_COMPLETE_OK # ts_outs s \<and> ts_fault s' = ts_fault s \<and> \<not> fc_timer s'"
proof -
  have l: "length [0x55, 0xE8, push_bit 4 sid] = 3" by simp
  obtain x where x: "s' = receive [0x55, 0xE8, push_bit 4 sid] 3 x" "current_state x \<in> {ST_WAIT_ACK, ST_RECEIVING}"
    "scb_session_id x = sid" "transmission_aborted x = 0x11" "completedFunc x" "snode (rcb_p x) = current_dnode x"
    "ts_outs x = ts_outs s" "ts_fault x = ts_fault s"
    by (rule waiting_enters [OF s q, of "[0x55, 0xE8, push_bit 4 sid]" my, unfolded l]) (simp_all add: byte_at_def s')
  from receive_complete_ok [OF x(2-6) sid] x show ?thesis by (simp add: Let_def)
qed

lemma rx_sender_inputs: "rx_view (ts_run (sender_inputs n) s) = rx_view s"
  by (induction n arbitrary: s) (simp_all add: ts_run_def rx_simps)

section \<open>Round trip\<close>

text \<open>
  C6. A datagram of 1 to 200 bytes makes the round trip of the transport service. The sender, asked to send
  it while idle, puts exactly the segments \<open>frames_of\<close> on the air, one per radio callback and pause; the
  receiver that is given these segments in order hands the datagram, and nothing else, to its application
  and answers with the acknowledgement of the session; and the sender that receives it reports success and
  is idle again. A receiver that got the datagram in a single segment stays in the state \<open>ST_RECEIVING\<close>.
\<close>

theorem transport_roundtrip:
  assumes s: "tx_idle s" "unicast p" "current_snode s = 0" "ts_outs s = []" "\<not> ts_fault s"
    and sid: "next_session rnd (scb_session_id s) < 15" and d: "0 < length d" "length d \<le> DATAGRAM_SIZE_MAX"
    and r: "rx_idle (snode q) r" "snode q \<noteq> dnode q" "snode q \<noteq> 0" "rx_flags q = RECEIVE_STATUS_TYPE_SINGLE"
    and ack: "snode q' = dnode p" "snode q' \<noteq> dnode q'"
  shows "let sid = next_session rnd (scb_session_id s); m = max_payload (tx_flags p);
      s1 = ts_run (Send rnd p d True # sender_inputs (length (frames_of sid d m) - 1)) s;
      r1 = ts_run (map (rx_frame my q) (sent (ts_outs s1))) r;
      s2 = ts_run (map (rx_frame my' q') (sent (ts_outs r1))) s1
    in sent (ts_outs s1) = frames_of sid d m \<and>
       deliveries (ts_outs r1) = [(snode q, dnode q, d)] \<and>
       ts_outs s2 = Completed S2_TRANSMIT_COMPLETE_OK # ts_outs s1 \<and>
       current_state s2 = ST_IDLE \<and>
       current_state r1 = (if length d \<le> m then ST_RECEIVING else ST_IDLE) \<and>
       \<not> ts_fault s2 \<and> \<not> ts_fault r1"
proof -
  define sid where "sid = next_session rnd (scb_session_id s)"
  define m where "m = max_payload (tx_flags p)"
  define s1 where "s1 = ts_run (Send rnd p d True # sender_inputs (length (frames_of sid d m) - 1)) s"
  define r1 where "r1 = ts_run (map (rx_frame my q) (sent (ts_outs s1))) r"
  define s2 where "s2 = ts_run (map (rx_frame my' q') (sent (ts_outs r1))) s1"
  have sid15: "sid < 15" "sid < 16" using assms(6) by (auto simp: sid_def intro: less_trans)
  have m: "0 < m" "m \<le> 47" using max_payload_range [of "tx_flags p"] by (simp_all add: m_def)
  let ?s0 = "ts_step (Send rnd p d True) s"
  note first = sender_first [OF s(1,2) sid_def sid15(1) d(1), folded m_def]
  have w: "tx_waiting p d sid s1 \<and> sent (ts_outs s1) = frames_of sid d m \<and> ts_fault s1 = ts_fault s"
  proof (cases "length d \<le> m")
    case True
    with first(1) s(4) show ?thesis by (simp add: s1_def frames_of_def ts_run_def)
  next
    case False
    then have f: "tx_sending p d sid m (length d - m) ?s0" "sent (ts_outs ?s0) = [first_frame sid d m]" "ts_fault ?s0 = ts_fault s"
      using first(2) s(4) by simp_all
    have "s1 = ts_run (sender_inputs (length (subseq_frames sid d m (length d - m)))) ?s0"
      using False by (simp add: s1_def frames_of_def ts_run_def)
    with sender_run [OF f(1) s(2) sid15(1) _ _ _ m(2,1)] f False d show ?thesis by (simp add: frames_of_def)
  qed
  have rd: "rx_done q sid d (if length d \<le> m then ST_RECEIVING else ST_IDLE) r1"
    unfolding r1_def w [THEN conjunct2, THEN conjunct1] using r sid15 d m by (intro receiver_all) auto
  have "rx_view s1 = rx_view s"
    using rx_sender_inputs [of _ ?s0] by (simp add: s1_def ts_run_def rx_simps)
  then have "current_snode s1 = 0" using s(3) by (simp add: rx_view_def)
  note a = sender_acknowledged [OF w [THEN conjunct1] sid15(1) ack this refl, of my']
  have "s2 = ts_step (rx_frame my' q' [0x55, 0xE8, push_bit 4 sid]) s1"
    using rd by (simp add: s2_def rx_done_def ts_run_def)
  with a rd w s(5) show ?thesis
    unfolding Let_def sid_def [symmetric] m_def [symmetric] s1_def [symmetric] r1_def [symmetric] s2_def [symmetric]
    by (simp add: rx_done_def)
qed

text \<open>A link between node 1 and node 5, as seen by the sender, by the receiver, and by the sender for the answer.\<close>

definition ex_send :: ts_param where
  "ex_send = zero_param\<lparr>snode := 1, dnode := 5, tx_flags := 0x25\<rparr>"

definition ex_recv :: ts_param where
  "ex_recv = zero_param\<lparr>snode := 1, dnode := 5\<rparr>"

definition ex_ack :: ts_param where
  "ex_ack = zero_param\<lparr>snode := 5, dnode := 1\<rparr>"

definition ex_start :: ts where
  "ex_start = ZW_TransportService_Init True ts_start"

lemma ex_ready: "tx_idle ex_start" "rx_idle a ex_start" "unicast ex_send" "current_snode ex_start = 0" "ts_outs ex_start = []"
    "\<not> ts_fault ex_start" "next_session 3 (scb_session_id ex_start) = 3"
  using rx_ready_start [of True]
  by (simp_all add: ex_start_def ZW_TransportService_Init_def ts_start_def tx_idle_def rx_idle_def unicast_def ex_send_def
      next_session_def)

lemma ex_params:
  "snode ex_recv = 1" "dnode ex_recv = 5" "rx_flags ex_recv = 0" "snode ex_ack = 5" "dnode ex_ack = 1" "rx_flags ex_ack = 0"
  "dnode ex_send = 5"
  by (simp_all add: ex_send_def ex_recv_def ex_ack_def zero_param_def)

theorem transport_roundtrip_witness:
  "let d = map of_nat [0..<100]; m = max_payload (tx_flags ex_send);
      s1 = ts_run (Send 3 ex_send d True # sender_inputs (length (frames_of 3 d m) - 1)) ex_start;
      r1 = ts_run (map (rx_frame 5 ex_recv) (sent (ts_outs s1))) ex_start;
      s2 = ts_run (map (rx_frame 1 ex_ack) (sent (ts_outs r1))) s1
    in deliveries (ts_outs r1) = [(1, 5, d)] \<and> hd (ts_outs s2) = Completed S2_TRANSMIT_COMPLETE_OK"
proof -
  let ?d = "map of_nat [0..<100] :: buffer"
  have h: "next_session 3 (scb_session_id ex_start) < 15" "0 < length ?d" "length ?d \<le> DATAGRAM_SIZE_MAX"
    "rx_idle (snode ex_recv) ex_start" "snode ex_recv \<noteq> dnode ex_recv" "snode ex_recv \<noteq> 0" "rx_flags ex_recv = 0"
    "snode ex_ack = dnode ex_send" "snode ex_ack \<noteq> dnode ex_ack"
    using ex_ready by (simp_all add: ex_params)
  show ?thesis
    using transport_roundtrip [OF ex_ready(1,3,4,5,6) h, of 5 1]
    unfolding Let_def ex_ready(7) ex_params(1,2) by (elim conjE) (simp only: list.sel simp_thms)
qed

section \<open>Safety of reassembly\<close>

text \<open>
  C9. Safety of reassembly, and its limits. Take any run of the transport service, with any interleaving of
  transmissions, timers, radio callbacks and received frames, in which segments may be lost, repeated,
  reordered, delayed and mixed with damaged frames and with frames of other nodes. The frames that pass the
  checksum are segments of datagrams of their source nodes, and a node may use a session number again for
  another datagram. Then a datagram handed to the application as coming from node \<open>x\<close> is one that \<open>x\<close> sent, under one
  condition: while a session is open, no segment of another datagram with the same source and session number
  arrives, except a first segment, which starts the session anew, and no frame of a third node arrives with a
  receive status other than singlecast or broadcast, except such a first segment. Both parts are needed. A
  late segment of the previous datagram with the same number is put into the new one: after the first segments of
  \<open>[1, 2, 3, 4]\<close> and \<open>[5, 6, 7, 8]\<close>, both in session 7, the second segment of the former completes \<open>[5, 6, 3, 4]\<close>. And
  a segment of node 9 with receive status 1, the flag of a busy route, during the session of node 5
  completes a datagram of both, which is delivered as coming from node 9.
\<close>

theorem ts_reassembly_safe:
  assumes "rx_ready s" and "network_run D es s" and "Deliver x y e \<in> set (ts_outs (ts_run (map snd es) s))"
  shows "(\<exists>(E, i) \<in> set es. \<exists>k. e = E x k) \<and>
    deliveries (ts_outs (ts_run [rx_frame 1 ex_ack (first_frame 7 [1, 2, 3, 4] 2), rx_frame 1 ex_ack (first_frame 7 [5, 6, 7, 8] 2),
      rx_frame 1 ex_ack (subseq_frame 7 [1, 2, 3, 4] 2 2)] ex_start)) = [(5, 1, [5, 6, 3, 4])] \<and>
    deliveries (ts_outs (ts_run [rx_frame 1 ex_ack (first_frame 7 [1, 2, 3, 4] 2),
      rx_frame 1 (ex_ack\<lparr>snode := 9, rx_flags := 1\<rparr>) (subseq_frame 7 [5, 6, 7, 8] 2 2)] ex_start)) = [(9, 1, [1, 2, 7, 8])]"
proof (intro conjI)
  show "\<exists>(E, i) \<in> set es. \<exists>k. e = E x k" using assms by (rule run_deliveries)
qed code_simp+

text \<open>
  A datagram \<open>[1, 2, 3, 4]\<close> of which only the first segment arrives; a new datagram in the same session: a damaged frame, its
  first segment, a frame of another node, the first segment again but shorter, the last
  byte, and, after the request for the missing one, the last two bytes.
\<close>

definition ex_old :: "nodeid \<Rightarrow> byte \<Rightarrow> buffer" where
  "ex_old x i = [1, 2, 3, 4]"

definition ex_datagrams :: "nodeid \<Rightarrow> byte \<Rightarrow> buffer" where
  "ex_datagrams x i = (if x = 9 then [1, 2, 3, 4] else [0x20, 0x01, 0xFF])"

definition ex_run :: "((nodeid \<Rightarrow> byte \<Rightarrow> buffer) \<times> ts_input) list" where
  "ex_run = [(ex_old, rx_frame 1 ex_ack (first_frame 7 [1, 2, 3, 4] 2)),
     (ex_old, rx_frame 1 ex_ack [0x55, 0xE0, 0x03, 0x72, 0x01, 0x00, 0x00, 0x00]),
     (ex_datagrams, rx_frame 1 ex_ack (first_frame 7 [0x20, 0x01, 0xFF] 2)),
     (ex_datagrams, rx_frame 1 (ex_ack\<lparr>snode := 9\<rparr>) (first_frame 7 [1, 2, 3, 4] 2)),
     (ex_datagrams, rx_frame 1 ex_ack (first_frame 7 [0x20, 0x01, 0xFF] 1)),
     (ex_datagrams, rx_frame 1 ex_ack (subseq_frame 7 [0x20, 0x01, 0xFF] 2 1)),
     (ex_datagrams, rx_frame 1 ex_ack (subseq_frame 7 [0x20, 0x01, 0xFF] 1 2))]"

lemma ex_run_delivers: "Deliver 5 1 [0x20, 0x01, 0xFF] \<in> set (ts_outs (ts_run (map snd ex_run) ex_start))"
  by code_simp

lemma ex_run_network: "network_run ex_old ex_run ex_start"
  by code_simp

theorem ts_reassembly_safe_witness:
  "Deliver 5 1 [0x20, 0x01, 0xFF] \<in> set (ts_outs (ts_run (map snd ex_run) ex_start)) \<and>
   (\<exists>(E, i) \<in> set ex_run. \<exists>k. [0x20, 0x01, 0xFF] = E 5 k)"
  using ts_reassembly_safe [OF _ ex_run_network ex_run_delivers] ex_run_delivers rx_ready_start [of True] by (simp add: ex_start_def)

end
