(* ===== verification/Transport_Faults.thy ===== *)
theory Transport_Faults
  imports Transport_Roundtrip
begin

text \<open>
  Frames with which another node makes the transport service leave its arrays or divide by zero: a segment
  request for an offset behind the end of the datagram, and a frame of a third node before the first
  received frame has initialised the receiver.
\<close>

section \<open>A fault stays\<close>

lemma fault_raw: "ts_fault s \<Longrightarrow> ts_fault (snd (TS_SEND_RAW a b f t c s))"
  by (cases "radio s") (simp_all add: TS_SEND_RAW_def ts_emit_def)

lemma fault_tx: "ts_fault s \<Longrightarrow> ts_fault (snd (send_txBuf n c s))"
  by (simp add: send_txBuf_def fault_raw)

lemma fault_post [simp]: "ts_fault (t2_sm_post_event e s) = ts_fault s"
  by (simp add: t2_sm_post_event_def)

lemma fault_crc: "ts_fault s \<Longrightarrow> ts_fault (add_crc n s)"
  by (simp add: add_crc_def put_tx_def Let_def)

lemma datalen_crc [simp]: "datalen_to_send (add_crc n s) = datalen_to_send s"
  by (simp add: add_crc_def put_tx_def Let_def)

lemma datalen_raw [simp]: "datalen_to_send (snd (send_txBuf n c s)) = datalen_to_send s"
  by (cases "radio s") (simp_all add: send_txBuf_def TS_SEND_RAW_def ts_emit_def)

lemma copy_overrun: "dst + n > TXBUF_SIZE \<Longrightarrow> ts_fault (copy_datagram dst off n s)"
  by (auto simp: copy_datagram_def put_tx_def min_def)

lemma datalen_copy [simp]: "datalen_to_send (copy_datagram dst off n s) = datalen_to_send s"
  "datalen_to_send (put_tx off xs s) = datalen_to_send s"
  by (simp_all add: copy_datagram_def put_tx_def)

section \<open>Segment requests\<close>

lemma reply_overruns:
  assumes "\<not> get_frag_compl (scb_session_id s) s" "length (datagram s) < missing_offset s" "missing_offset s < 2048"
  shows "ts_fault (reply_frag_req s) \<and> datalen_to_send (reply_frag_req s) = 65536 - (missing_offset s - length (datagram s))"
proof -
  let ?n = "(length (datagram s) + 65536 - missing_offset s) mod 65536"
  have n: "?n = 65536 - (missing_offset s - length (datagram s))" using assms by simp
  have "5 + ?n > TXBUF_SIZE" unfolding n using assms by simp
  then have "ts_fault (copy_datagram 5 (missing_offset s) ?n x)" for x by (rule copy_overrun)
  then show ?thesis
    using assms n by (simp add: reply_frag_req_def Let_def fault_tx fault_crc)
qed

lemma request_fields:
  assumes "sid < 16" "off < 2048"
  defines "f \<equiv> [0x55, 0xC8, push_bit 4 sid OR (of_nat (off div 256) AND 7), of_nat off]"
  shows "byte_at f 0 = 0x55" "byte_at f 1 AND 0xf8 = COMMAND_SEGMENT_REQUEST_V2" "drop_bit 4 (byte_at f 2) = sid"
    "field11 (byte_at f 2) (byte_at f 3) = off"
  using assms by (simp_all add: byte_at_def f_def session_field session_field0 field11_value shifted_low)

lemma request_overruns:
  assumes s: "tx_waiting p d sid s" "\<not> sending s" "current_snode s = 0" and sid: "sid < 15"
    and q: "snode q = dnode p" "snode q \<noteq> dnode q" and off: "length d < off" "off < 2048"
    and s': "s' = ts_step (rx_frame my q [0x55, 0xC8, push_bit 4 sid OR (of_nat (off div 256) AND 7), of_nat off]) s"
  shows "ts_fault s' \<and> datalen_to_send s' = 65536 - (off - length d)"
proof -
  let ?f = "[0x55, 0xC8, push_bit 4 sid OR (of_nat (off div 256) AND 7), of_nat off]"
  have sid2: "sid < 16" "sid \<noteq> 0x11" "unat sid < 15" using sid by (auto simp: word_less_nat_alt)
  note F = request_fields [OF sid2(1) off(2)]
  obtain x where e: "s' = receive ?f (length ?f) x" and x: "scb_session_id x = sid" "transmission_aborted x = 0x11"
    "snode (rcb_p x) = current_dnode x" "datagram x = d" "frag_compl_list x = frag_compl_list s" "sending x = sending s"
    by (rule waiting_enters [OF s(1) q s(3), of ?f my]) (use F in \<open>simp_all add: s'\<close>)
  define y where "y = (t2_sm_post_event EV_RECV_FRAG_REQ ((t2_sm_post_event EV_FRAG_REQ_OR_COMPL x)\<lparr>fc_timer := False, missing_offset := off\<rparr>))"
  have y: "scb_session_id y = sid" "datagram y = d" "missing_offset y = off" "frag_compl_list y = frag_compl_list s"
    using x by (simp_all add: y_def t2_sm_post_event_def)
  have "s' = reply_frag_req y"
    using F x s(2) sid2(2) by (simp add: e receive_def receive_request_def check_session_def Let_def y_def t2_sm_post_event_def)
  moreover have "\<not> get_frag_compl (scb_session_id y) y"
    using s(1) y sid2 by (simp add: get_frag_compl_def tx_waiting_def tx_session_def)
  ultimately show ?thesis using reply_overruns [of y] y off by simp
qed

section \<open>Frames of a third node\<close>

lemma third_node_divides:
  assumes s: "tx_waiting p d sid s" "\<not> sending s" "rcb_session_id s \<noteq> NO_SESSION" "cur_recvd_data_size s = 0"
    and q: "snode q \<noteq> dnode p" "dnode p \<noteq> 0" "snode q \<noteq> dnode q" "rx_flags q = RECEIVE_STATUS_TYPE_SINGLE"
    and f: "length f \<le> DATAGRAM_SIZE_MAX" and s': "s' = ts_step (rx_frame my q f) s"
  shows "ts_fault s'"
proof -
  define x where "x = s\<lparr>reset_timer := True, frag_wait_p := q\<rparr>"
  have t: "tie_break my q (s\<lparr>reset_timer := True\<rparr>) = s\<lparr>reset_timer := True\<rparr>"
    using s q by (simp add: tie_break_def tx_waiting_def tx_session_def)
  have th: "third_node q x" using s q by (simp add: x_def third_node_def tx_waiting_def tx_session_def)
  have u: "unat (of_nat (length f) :: byte) = length f" using f by (simp add: unat_of_nat take_bit_eq_mod)
  have st: "current_state x = ST_WAIT_ACK" using s by (simp add: x_def tx_waiting_def)
  have "s' = queue_frag_wait (t2_sm_post_event EV_SCAST_DIFF_NODE x)"
    unfolding s' rx_frame_def ts_step.simps TransportService_ApplicationCommandHandler_def Let_def t u x_def [symmetric]
    using th q f st by simp
  then show ?thesis
    using s by (simp add: queue_frag_wait_def send_frag_wait_cmd_def Let_def raw_cmd_def x_def t2_sm_post_event_def fault_raw)
qed

text \<open>
  C26. Two frames from the air break the memory or the arithmetic of a gateway that waits for the
  acknowledgement of a datagram. A segment request of the destination for an offset behind the end of the
  datagram makes \<open>reply_frag_req\<close> compute a length of more than 63000 bytes (the difference wraps at 16
  bits) and copy them into the frame buffer of 54 bytes. And any singlecast frame of a third node, while no
  frame has initialised the receiver since the start, makes \<open>send_frag_wait_cmd\<close> divide by the size 0.
\<close>

theorem transport_remote_faults:
  assumes s: "tx_waiting p d sid s" "\<not> sending s" "current_snode s = 0" "sid < 15" and q: "snode q \<noteq> dnode q"
  shows "(snode q = dnode p \<and> length d < off \<and> off < 2048 \<longrightarrow>
      (let s' = ts_step (rx_frame my q [0x55, 0xC8, push_bit 4 sid OR (of_nat (off div 256) AND 7), of_nat off]) s
       in ts_fault s' \<and> datalen_to_send s' = 65536 - (off - length d))) \<and>
    (snode q \<noteq> dnode p \<and> dnode p \<noteq> 0 \<and> rx_flags q = RECEIVE_STATUS_TYPE_SINGLE \<and> length f \<le> DATAGRAM_SIZE_MAX \<and>
      rcb_session_id s \<noteq> NO_SESSION \<and> cur_recvd_data_size s = 0 \<longrightarrow> ts_fault (ts_step (rx_frame my q f) s))"
  using request_overruns [OF s _ q _ _ refl] third_node_divides [OF s(1,2) _ _ _ _ q _ _ refl] by (simp add: Let_def)

lemma ex_waiting:
  defines "s \<equiv> ts_step (Send 3 ex_send [0x20, 0x01] True) ex_start"
  shows "tx_waiting ex_send [0x20, 0x01] 3 s" "\<not> sending s" "current_snode s = 0" "rcb_session_id s \<noteq> NO_SESSION" "cur_recvd_data_size s = 0"
proof -
  show "tx_waiting ex_send [0x20, 0x01] 3 s"
    using sender_first(1) [OF ex_ready(1,3), of 3 3 "[0x20, 0x01]"] ex_ready(7) by (simp add: s_def max_payload_def)
  have "rx_view s = rx_view ex_start" by (simp add: s_def rx_simps)
  then show "current_snode s = 0" "rcb_session_id s \<noteq> NO_SESSION"
    by (simp_all add: rx_view_def ex_start_def ts_start_def ZW_TransportService_Init_def)
  show "\<not> sending s" "cur_recvd_data_size s = 0"
    unfolding s_def by code_simp+
qed

theorem transport_remote_faults_witness:
  "(let s = ts_step (Send 3 ex_send [0x20, 0x01] True) ex_start
    in ts_fault (ts_step (rx_frame 1 ex_ack [0x55, 0xC8, 0x30, 0x03]) s) \<and>
       ts_fault (ts_step (rx_frame 1 (ex_ack\<lparr>snode := 7\<rparr>) [0x55, 0xC0, 0x00]) s))"
  using transport_remote_faults [OF ex_waiting(1-3), of ex_ack 3 1] transport_remote_faults [OF ex_waiting(1-3), of "ex_ack\<lparr>snode := 7\<rparr>" 0 1 "[0x55, 0xC0, 0x00]"]
    ex_waiting(4,5)
  by (simp add: Let_def ex_ack_def ex_send_def zero_param_def)

end
