(* ===== verification/S0_Crypto.thy ===== *)
theory S0_Crypto
  imports Rijndael
begin

text \<open>
  The cryptography of Security 0: the output-feedback cipher and the CBC authentication code of
  \<open>src/src/transport/Security_Scheme0.c\<close>, the derivation of its four keys, and the random number generator
  of \<open>src/src/transport/ZW_PRNG.c\<close>.

  The block cipher \<open>enc\<close> (block, then key) is the first argument of the definitions; the gateway passes
  \<open>SerialAPI_AES128_Encrypt\<close>. The static variables \<open>aes_key\<close> and \<open>aes_iv\<close>, which are set by \<open>aes_set_key_tpt\<close>
  before every use, are the arguments \<open>key\<close> and \<open>iv\<close>. The answers of the radio module to
  \<open>SerialAPI_GetRandom\<close> are a parameter: \<open>rng k\<close> is the content of the array \<open>rnd\<close> after the \<open>k\<close>-th call.
  The lemmas hold for any \<open>block_cipher\<close>, and the table-driven AES is one.
\<close>

section \<open>Definitions\<close>

text \<open>\<open>aes_ofb\<close>: the data and the vector that the call leaves behind. The loop counter is a byte, and so is the length.\<close>

fun aes_ofb_loop :: "(buffer \<Rightarrow> buffer \<Rightarrow> buffer) \<Rightarrow> buffer \<Rightarrow> nat \<Rightarrow> buffer \<Rightarrow> buffer \<Rightarrow> buffer \<times> buffer" where
  "aes_ofb_loop enc key i iv [] = ([], iv)"
| "aes_ofb_loop enc key i iv (d # ds) =
     (let iv = (if i mod 16 = 0 then enc iv key else iv);
          (ds, iv') = aes_ofb_loop enc key (Suc i) iv ds
      in ((d XOR iv ! (i mod 16)) # ds, iv'))"

definition aes_ofb :: "(buffer \<Rightarrow> buffer \<Rightarrow> buffer) \<Rightarrow> buffer \<Rightarrow> buffer \<Rightarrow> buffer \<Rightarrow> buffer" where
  "aes_ofb enc key iv data = fst (aes_ofb_loop enc key 0 iv data)"

fun cbc_mac_loop :: "(buffer \<Rightarrow> buffer \<Rightarrow> buffer) \<Rightarrow> buffer \<Rightarrow> nat \<Rightarrow> buffer \<Rightarrow> buffer \<Rightarrow> buffer" where
  "cbc_mac_loop enc key i mac [] = mac"
| "cbc_mac_loop enc key i mac (d # ds) =
     (let mac = mac[i mod 16 := mac ! (i mod 16) XOR d]
      in cbc_mac_loop enc key (Suc i) (if i mod 16 = 15 then enc mac key else mac) ds)"

definition aes_cbc_mac :: "(buffer \<Rightarrow> buffer \<Rightarrow> buffer) \<Rightarrow> buffer \<Rightarrow> buffer \<Rightarrow> buffer \<Rightarrow> buffer" where
  "aes_cbc_mac enc key iv data =
     (let mac = cbc_mac_loop enc key 0 (enc iv key) data
      in if length data mod 16 \<noteq> 0 then enc mac key else mac)"

text \<open>The keys that \<open>sec0_set_key\<close> derives: for authentication and encryption, under the network key and under zero.\<close>

record s0_keys =
  enckey :: buffer
  authkey :: buffer
  enckeyz :: buffer
  authkeyz :: buffer

definition sec0_set_key :: "(buffer \<Rightarrow> buffer \<Rightarrow> buffer) \<Rightarrow> buffer \<Rightarrow> s0_keys" where
  "sec0_set_key enc netkey =
     (let temp = replicate 16 0
      in \<lparr>enckey = enc (replicate 16 0xAA) (take 16 netkey), authkey = enc (replicate 16 0x55) (take 16 netkey),
          enckeyz = enc (replicate 16 0xAA) temp, authkeyz = enc (replicate 16 0x55) temp\<rparr>)"

subsection \<open>The random number generator\<close>

fun GetRNGData_loop :: "(nat \<Rightarrow> buffer) \<Rightarrow> nat \<Rightarrow> nat \<Rightarrow> buffer \<Rightarrow> nat \<Rightarrow> buffer \<times> nat" where
  "GetRNGData_loop rng 0 j rnd k = ([], k)"
| "GetRNGData_loop rng (Suc n) j rnd k =
     (let (rnd, k) = (if j = 0 then (rng k, Suc k) else (rnd, k));
          (ds, k) = GetRNGData_loop rng n ((j + 1) mod 8) rnd k
      in (rnd ! j # ds, k))"

definition GetRNGData :: "(nat \<Rightarrow> buffer) \<Rightarrow> nat \<Rightarrow> nat \<Rightarrow> buffer \<times> nat" where
  "GetRNGData rng noRNDDataBytes k = GetRNGData_loop rng noRNDDataBytes 0 (replicate 8 0) k"

definition xor16 :: "buffer \<Rightarrow> buffer \<Rightarrow> buffer" where
  "xor16 a b = xor_bytes (take 16 a) (take 16 b)"

definition AESRaw :: "(buffer \<Rightarrow> buffer \<Rightarrow> buffer) \<Rightarrow> buffer \<Rightarrow> buffer \<Rightarrow> buffer" where
  "AESRaw enc pKey pSrc = enc pSrc pKey"

text \<open>One of the two iterations of \<open>PRNGUpdate\<close>; the state is the array \<open>h\<close> and the number of calls made.\<close>

definition prng_absorb :: "(buffer \<Rightarrow> buffer \<Rightarrow> buffer) \<Rightarrow> (nat \<Rightarrow> buffer) \<Rightarrow> buffer \<times> nat \<Rightarrow> buffer \<times> nat" where
  "prng_absorb enc rng = (\<lambda>(h, k). let (key, k) = GetRNGData rng 16 k; ltemp = AESRaw enc key h in (xor16 ltemp h, k))"

definition PRNGUpdate :: "(buffer \<Rightarrow> buffer \<Rightarrow> buffer) \<Rightarrow> (nat \<Rightarrow> buffer) \<Rightarrow> nat \<Rightarrow> buffer \<Rightarrow> buffer \<times> nat" where
  "PRNGUpdate enc rng k prngState =
     (let (h, k) = (prng_absorb enc rng ^^ 2) (replicate 16 0xA5, k);
          prngState = xor16 prngState h
      in (AESRaw enc prngState (replicate 16 0x36), k))"

definition InitPRNG :: "(buffer \<Rightarrow> buffer \<Rightarrow> buffer) \<Rightarrow> (nat \<Rightarrow> buffer) \<Rightarrow> nat \<Rightarrow> buffer \<times> nat" where
  "InitPRNG enc rng k = PRNGUpdate enc rng k (replicate 16 0)"

text \<open>\<open>PRNGOutput\<close>: eight bytes and the next state.\<close>

definition PRNGOutput :: "(buffer \<Rightarrow> buffer \<Rightarrow> buffer) \<Rightarrow> buffer \<Rightarrow> buffer \<times> buffer" where
  "PRNGOutput enc prngState =
     (take 8 (AESRaw enc prngState (replicate 16 0x5C)), AESRaw enc prngState (replicate 16 0x36))"

section \<open>Reference definitions\<close>

text \<open>The key stream of output feedback: the iterated encryptions of the vector, one after the other.\<close>

primrec ofb_stream :: "(buffer \<Rightarrow> buffer \<Rightarrow> buffer) \<Rightarrow> buffer \<Rightarrow> nat \<Rightarrow> buffer \<Rightarrow> buffer" where
  "ofb_stream enc key 0 iv = []"
| "ofb_stream enc key (Suc n) iv = (let iv = enc iv key in iv @ ofb_stream enc key n iv)"

text \<open>CBC-MAC of whole blocks, and the padding with zeros up to a whole number of blocks.\<close>

fun cbc_mac_spec :: "(buffer \<Rightarrow> buffer \<Rightarrow> buffer) \<Rightarrow> buffer \<Rightarrow> buffer \<Rightarrow> buffer \<Rightarrow> buffer" where
  "cbc_mac_spec enc key mac [] = mac"
| "cbc_mac_spec enc key mac (d # ds) = cbc_mac_spec enc key (enc (xor_bytes mac (take 16 (d # ds))) key) (drop 15 ds)"

definition zero_pad :: "buffer \<Rightarrow> buffer" where
  "zero_pad data = data @ replicate ((16 - length data mod 16) mod 16) 0"

section \<open>Properties of the loops\<close>

lemma snd_ofb_loop_length: "length (fst (aes_ofb_loop enc key i iv ds)) = length ds"
  by (induction ds arbitrary: i iv) (simp_all add: Let_def split: prod.split, metis fst_conv)

lemma length_aes_ofb [simp]: "length (aes_ofb enc key iv data) = length data"
  by (simp add: aes_ofb_def snd_ofb_loop_length)

text \<open>The vectors do not depend on the data, so applying the cipher twice gives the data back.\<close>

lemma ofb_loop_involution: "fst (aes_ofb_loop enc key i iv (fst (aes_ofb_loop enc key i iv ds))) = ds"
proof (induction ds arbitrary: i iv)
  case (Cons d ds)
  define v where "v = (if i mod 16 = 0 then enc iv key else iv)"
  show ?case using Cons.IH [of "Suc i" v]
    by (simp add: v_def [symmetric] Let_def case_prod_unfold xor.assoc)
qed simp

lemma aes_ofb_involution [simp]: "aes_ofb enc key iv (aes_ofb enc key iv data) = data"
  by (simp add: aes_ofb_def ofb_loop_involution)

text \<open>Within one block the loop adds the data to the vector.\<close>

lemma cbc_loop_within:
  assumes "length mac = 16" "k + length ds \<le> 15" "i mod 16 = k"
  shows "cbc_mac_loop enc key i mac ds = take k mac @ xor_bytes (drop k mac) ds @ drop (k + length ds) mac"
  using assms
proof (induction ds arbitrary: i k mac)
  case Nil
  then show ?case by simp
next
  case (Cons d ds)
  have "Suc i mod 16 = Suc k" using Cons.prems by (simp add: mod_Suc)
  moreover have "drop k mac = mac ! k # drop (Suc k) mac" using Cons.prems by (simp add: Cons_nth_drop_Suc)
  ultimately show ?case using Cons.prems Cons.IH [of "mac[k := mac ! k XOR d]" "Suc k" "Suc i"]
    by (simp add: Let_def take_Suc_conv_app_nth)
qed

lemma cbc_loop_append: "cbc_mac_loop enc key i mac (xs @ ys) = cbc_mac_loop enc key (i + length xs) (cbc_mac_loop enc key i mac xs) ys"
  by (induction xs arbitrary: i mac) (simp_all add: Let_def)

lemma cbc_loop_block:
  assumes "length mac = 16" "length b = 16" "i mod 16 = 0"
  shows "cbc_mac_loop enc key i mac b = enc (xor_bytes mac b) key"
proof -
  obtain c d where b: "b = c @ [d]" "length c = 15" using assms(2) by (cases b rule: rev_cases) auto
  obtain m e where m: "mac = m @ [e]" "length m = 15" using assms(1) by (cases mac rule: rev_cases) auto
  have k: "(i + 15) mod 16 = 15" using assms(3) by presburger
  have c: "cbc_mac_loop enc key i (m @ [e]) c = xor_bytes m c @ [e]"
    using cbc_loop_within [of mac 0 c i enc key] assms b m xor_bytes_append [of m c "[e]" "[]"] by simp
  have "xor_bytes mac b = xor_bytes m c @ [e XOR d]" using b m xor_bytes_append [of m c "[e]" "[d]"] by simp
  then show ?thesis using b m k by (simp add: cbc_loop_append c Let_def nth_append list_update_append)
qed

lemma cbc_spec_block:
  assumes "length b = 16"
  shows "cbc_mac_spec enc key mac (b @ ds) = cbc_mac_spec enc key (enc (xor_bytes mac b) key) ds"
proof (cases b)
  case (Cons x xs)
  then have "take 16 (x # xs @ ds) = b" "drop 15 (xs @ ds) = ds" using assms by (simp_all add: numeral_eq_Suc)
  then show ?thesis using Cons by simp
qed (use assms in simp)

lemma zero_pad_block: "length b = 16 \<Longrightarrow> zero_pad (b @ ds) = b @ zero_pad ds"
  by (simp add: zero_pad_def)

lemma xor_bytes_zeros:
  assumes "length ds + n = length mac"
  shows "xor_bytes mac (ds @ replicate n 0) = xor_bytes mac ds @ drop (length ds) mac"
proof -
  have "xor_bytes mac (ds @ replicate n 0) = xor_bytes (take (length ds) mac @ drop (length ds) mac) (ds @ replicate n 0)" by simp
  also have "\<dots> = xor_bytes (take (length ds) mac) ds @ xor_bytes (drop (length ds) mac) (replicate n 0)"
    using assms by (intro xor_bytes_append) simp
  also have "xor_bytes (drop (length ds) mac) (replicate n 0) = drop (length ds) mac"
    using assms by (simp add: xor_bytes_commute [of _ "replicate n 0"] xor_bytes_zero)
  also have "xor_bytes (take (length ds) mac) ds = xor_bytes mac ds"
    using take_xor_bytes [of "length ds" mac ds] by simp
  finally show ?thesis .
qed

context block_cipher
begin

lemma cbc_loop_spec:
  assumes "length key = 16" "length mac = 16" "i mod 16 = 0"
  shows "(let m = cbc_mac_loop enc key i mac ds in if length ds mod 16 \<noteq> 0 then enc m key else m) =
    cbc_mac_spec enc key mac (zero_pad ds)"
  using assms(2,3)
proof (induction ds arbitrary: mac i rule: length_induct)
  case (1 ds)
  show ?case
  proof (cases "16 \<le> length ds")
    case True
    define b where "b = take 16 ds"
    define r where "r = drop 16 ds"
    have ds: "ds = b @ r" "length b = 16" "length r < length ds" using True by (simp_all add: b_def r_def)
    have l: "length (enc (xor_bytes mac b) key) = 16" using assms(1) 1 ds by (simp add: enc_length)
    have "(i + 16) mod 16 = 0" using 1 by simp
    from 1(1) [rule_format, OF ds(3) l this] show ?thesis
      using ds cbc_loop_block [OF 1(2) ds(2) 1(3)]
      by (simp add: ds(1) cbc_loop_append cbc_spec_block zero_pad_block)
  next
    case False
    show ?thesis
    proof (cases "ds = []")
      case ne: False
      have p: "zero_pad ds = ds @ replicate (16 - length ds) 0" using False ne by (simp add: zero_pad_def)
      have "cbc_mac_loop enc key i mac ds = xor_bytes mac (zero_pad ds)"
        using cbc_loop_within [of mac 0 ds i enc key] xor_bytes_zeros [of ds "16 - length ds" mac] 1 False by (simp add: p)
      moreover have "cbc_mac_spec enc key mac (zero_pad ds @ []) = enc (xor_bytes mac (zero_pad ds)) key"
        using False by (subst cbc_spec_block) (simp_all add: p)
      ultimately show ?thesis using False ne by simp
    qed (simp add: zero_pad_def)
  qed
qed

lemma aes_cbc_mac_spec:
  assumes "length key = 16" "length iv = 16"
  shows "aes_cbc_mac enc key iv data = cbc_mac_spec enc key (enc iv key) (zero_pad data)"
  unfolding aes_cbc_mac_def using assms by (intro cbc_loop_spec) (simp_all add: enc_length)

lemma length_ofb_stream: "length key = 16 \<Longrightarrow> length iv = 16 \<Longrightarrow> length (ofb_stream enc key n iv) = 16 * n"
  by (induction n arbitrary: iv) (simp_all add: Let_def enc_length)

lemma ofb_loop_within:
  assumes "length iv = 16" "k + length ds \<le> 16" "i mod 16 = k" "0 < k \<or> ds = []"
  shows "aes_ofb_loop enc key i iv ds = (xor_bytes ds (drop k iv), iv)"
  using assms
proof (induction ds arbitrary: i k)
  case (Cons d ds)
  have "Suc i mod 16 = Suc k \<or> ds = []" using Cons.prems by (auto simp: mod_Suc)
  moreover have "drop k iv = iv ! k # drop (Suc k) iv" using Cons.prems by (simp add: Cons_nth_drop_Suc)
  ultimately show ?case using Cons.prems Cons.IH [of "Suc k" "Suc i"] by (auto simp: Let_def)
qed simp

lemma ofb_loop_append:
  "aes_ofb_loop enc key i iv (xs @ ys) =
     (let (xs', iv') = aes_ofb_loop enc key i iv xs; (ys', iv'') = aes_ofb_loop enc key (i + length xs) iv' ys in (xs' @ ys', iv''))"
  by (induction xs arbitrary: i iv) (simp_all add: Let_def split: prod.split)

lemma ofb_loop_block:
  assumes "length iv = 16" "length key = 16" "b \<noteq> []" "length b \<le> 16" "i mod 16 = 0"
  shows "aes_ofb_loop enc key i iv b = (xor_bytes b (enc iv key), enc iv key)"
proof (cases b)
  case (Cons x xs)
  have l: "length (enc iv key) = 16" using assms by (simp add: enc_length)
  then obtain e es where e: "enc iv key = e # es" by (cases "enc iv key") auto
  have "Suc i mod 16 = 1" using assms(5) by presburger
  then have "aes_ofb_loop enc key (Suc i) (enc iv key) xs = (xor_bytes xs (drop 1 (enc iv key)), enc iv key)"
    using ofb_loop_within [OF l, of 1 xs "Suc i" key] assms Cons by simp
  then show ?thesis using Cons assms(5) by (simp add: e)
qed (use assms in simp)

lemma ofb_loop_spec:
  assumes "length key = 16" "length iv = 16" "i mod 16 = 0" "length ds \<le> 16 * n"
  shows "fst (aes_ofb_loop enc key i iv ds) = xor_bytes ds (ofb_stream enc key n iv)"
  using assms(2-)
proof (induction n arbitrary: ds iv i)
  case (Suc n)
  define b where "b = take 16 ds"
  define r where "r = drop 16 ds"
  have ds: "ds = b @ r" "length r \<le> 16 * n" using Suc by (simp_all add: b_def r_def)
  have l: "length (enc iv key) = 16" using assms(1) Suc.prems by (simp add: enc_length)
  show ?case
  proof (cases "16 \<le> length ds")
    case True
    then have b: "length b = 16" "b \<noteq> []" by (auto simp: b_def)
    have "(i + 16) mod 16 = 0" using Suc.prems by simp
    from Suc.IH [OF l this ds(2)] ofb_loop_block [OF Suc.prems(1) assms(1) b(2) _ Suc.prems(2)] b show ?thesis
      unfolding ds(1) ofb_loop_append by (simp add: Let_def case_prod_unfold xor_bytes_append l)
  next
    case False
    show ?thesis
    proof (cases "ds = []")
      case ne: False
      have "xor_bytes ds (enc iv key @ ofb_stream enc key n (enc iv key)) = xor_bytes ds (enc iv key)"
        using False l take_xor_bytes [of "length ds" ds "enc iv key @ ofb_stream enc key n (enc iv key)"]
          take_xor_bytes [of "length ds" ds "enc iv key"] by simp
      then show ?thesis using ofb_loop_block [OF Suc.prems(1) assms(1) ne _ Suc.prems(2)] False by (simp add: Let_def)
    qed simp
  qed
qed simp

text \<open>Output feedback adds the stream of iterated encryptions of the vector to the data.\<close>

lemma aes_ofb_stream:
  "length key = 16 \<Longrightarrow> length iv = 16 \<Longrightarrow> length data \<le> 16 * n \<Longrightarrow>
    aes_ofb enc key iv data = xor_bytes data (ofb_stream enc key n iv)"
  by (simp add: aes_ofb_def ofb_loop_spec)

lemma length_cbc_spec:
  "length key = 16 \<Longrightarrow> length mac = 16 \<Longrightarrow> length ds mod 16 = 0 \<Longrightarrow> length (cbc_mac_spec enc key mac ds) = 16"
proof (induction enc\<equiv>enc key mac ds rule: cbc_mac_spec.induct)
  case (2 key mac d ds)
  have m: "(length ds + 1) mod 16 = 0" using 2(4) by simp
  then have "15 \<le> length ds" "(length ds - 15) mod 16 = 0" by presburger+
  then have "length (enc (xor_bytes mac (take 16 (d # ds))) key) = 16" "length (drop 15 ds) mod 16 = 0"
    using 2(2,3) by (simp_all add: enc_length)
  then show ?case using 2 by simp
qed simp

lemma length_zero_pad: "length (zero_pad data) mod 16 = 0"
proof (cases "length data mod 16 = 0")
  case False
  have "length data + 16 - length data mod 16 = 16 * (length data div 16) + 16"
    using mult_div_mod_eq [of 16 "length data"] by linarith
  with False show ?thesis by (simp add: zero_pad_def)
qed (simp add: zero_pad_def)

lemma length_aes_cbc_mac: "length key = 16 \<Longrightarrow> length iv = 16 \<Longrightarrow> length (aes_cbc_mac enc key iv data) = 16"
  by (simp add: aes_cbc_mac_spec length_cbc_spec enc_length length_zero_pad)

lemma length_PRNGOutput:
  "length prng = 16 \<Longrightarrow> length (fst (PRNGOutput enc prng)) = 8" "length prng = 16 \<Longrightarrow> length (snd (PRNGOutput enc prng)) = 16"
  by (simp_all add: PRNGOutput_def AESRaw_def enc_length)

lemma sec0_set_key_lengths:
  assumes "length k = 16"
  shows "length (enckey (sec0_set_key enc k)) = 16" "length (authkey (sec0_set_key enc k)) = 16"
    "length (enckeyz (sec0_set_key enc k)) = 16" "length (authkeyz (sec0_set_key enc k)) = 16"
  using assms by (simp_all add: sec0_set_key_def Let_def enc_length)

end

lemma length_rijndael:
  "length key = 16 \<Longrightarrow> length b = 16 \<Longrightarrow> length (SerialAPI_AES128_Encrypt b key) = 16"
  by (simp add: SerialAPI_AES128_Encrypt_def rijndaelEncrypt_def Let_def split: prod.split)

interpretation rj: block_cipher SerialAPI_AES128_Encrypt
  by unfold_locales (rule length_rijndael)

end
