(* ===== verification/S0_Nonce.thy ===== *)
theory S0_Nonce
  imports S0_Crypto "HOL-Library.Multiset"
begin

text \<open>
  The nonces of Security 0 (\<open>src/src/transport/Security_Scheme0.c\<close>): the blacklist of the external nonces
  that were used, the table of the nonces that were sent or received, with its timeouts, and the loop
  that draws a new one. The blacklist is a list with the index of the next element to overwrite.

  The interface of the table is the locale \<open>nonce_store\<close>: a store of tokens that are issued, redeemed and
  forgotten. Its client lemmas keep the books: what was redeemed and what is still in the store never
  exceeds what was issued. The table is an instance.
\<close>

section \<open>Definitions\<close>

abbreviation (input) NONCE_TABLE_SIZE :: nat where "NONCE_TABLE_SIZE \<equiv> 15"
abbreviation (input) NONCE_TIMEOUT :: byte where "NONCE_TIMEOUT \<equiv> 10"
abbreviation (input) NONCE_BLACKLIST_SIZE :: nat where "NONCE_BLACKLIST_SIZE \<equiv> 10"

record nonce_blacklist_t =
  b_nonce :: buffer
  b_src :: byte
  b_dst :: byte
  in_use :: bool

definition sec0_is_nonce_blacklisted :: "byte \<Rightarrow> byte \<Rightarrow> buffer \<Rightarrow> nonce_blacklist_t list \<Rightarrow> bool" where
  "sec0_is_nonce_blacklisted src dst nonce bl \<longleftrightarrow>
     (\<exists>e \<in> set bl. in_use e \<and> b_nonce e = take 8 nonce \<and> b_src e = src \<and> b_dst e = dst)"

definition sec0_blacklist_add_nonce :: "byte \<Rightarrow> byte \<Rightarrow> buffer \<Rightarrow> nonce_blacklist_t list \<times> nat \<Rightarrow> nonce_blacklist_t list \<times> nat" where
  "sec0_blacklist_add_nonce src dst nonce = (\<lambda>(bl, k).
     (bl[k := \<lparr>b_nonce = take 8 nonce, b_src = src, b_dst = dst, in_use = True\<rparr>], (k + 1) mod NONCE_BLACKLIST_SIZE))"

record nonce_t =
  n_src :: byte
  n_dst :: byte
  n_timeout :: byte
  reply_nonce :: bool
  n_nonce :: buffer

definition register_nonce :: "byte \<Rightarrow> byte \<Rightarrow> bool \<Rightarrow> buffer \<Rightarrow> nonce_t list \<Rightarrow> bool \<times> nonce_t list" where
  "register_nonce src dst reply nonce table =
     (case (if reply then find_index (\<lambda>e. reply_nonce e \<and> 0 < n_timeout e \<and> n_src e = src \<and> n_dst e = dst) table else None) of
        Some i \<Rightarrow> (True, table[i := (table ! i)\<lparr>n_timeout := NONCE_TIMEOUT, n_nonce := take 8 nonce\<rparr>])
      | None \<Rightarrow>
         (case find_index (\<lambda>e. n_timeout e = 0) table of
            Some i \<Rightarrow> (True, table[i := \<lparr>n_src = src, n_dst = dst, n_timeout = NONCE_TIMEOUT, reply_nonce = reply, n_nonce = take 8 nonce\<rparr>])
          | None \<Rightarrow> (False, table)))"

definition get_nonce :: "byte \<Rightarrow> byte \<Rightarrow> byte \<Rightarrow> bool \<Rightarrow> nonce_t list \<Rightarrow> buffer option" where
  "get_nonce src dst ri any_nonce table =
     map_option n_nonce
       (find (\<lambda>e. 0 < n_timeout e \<and> n_src e = src \<and> n_dst e = dst \<and> (any_nonce \<or> n_nonce e ! 0 = ri)) table)"

definition nonce_clear :: "byte \<Rightarrow> byte \<Rightarrow> nonce_t list \<Rightarrow> nonce_t list" where
  "nonce_clear src dst table =
     map (\<lambda>e. if n_timeout e \<noteq> 0 \<and> n_src e = src \<and> n_dst e = dst then e\<lparr>n_timeout := 0\<rparr> else e) table"

text \<open>The loop that draws nonces until the first byte is not that of a registered one.\<close>

partial_function (option) fresh_nonce :: "nonce_t list \<Rightarrow> byte \<Rightarrow> byte \<Rightarrow> buffer \<Rightarrow> (buffer \<times> buffer) option" where
  "fresh_nonce table src dst prng =
     (case PRNGOutput SerialAPI_AES128_Encrypt prng of (nonce, prng) \<Rightarrow>
        if get_nonce src dst (nonce ! 0) False table \<noteq> None then fresh_nonce table src dst prng else Some (nonce, prng))"

section \<open>A store of tokens\<close>

locale nonce_store =
  fixes tokens :: "'t \<Rightarrow> 'x multiset"
    and token :: "'y \<Rightarrow> 'x"
    and issue :: "bool \<Rightarrow> 'y \<Rightarrow> 't \<Rightarrow> 't"
    and redeem :: "'x \<Rightarrow> 't \<Rightarrow> 't"
    and age :: "'t \<Rightarrow> 't"
  assumes issue_tokens: "tokens (issue r y t) \<subseteq># add_mset (token y) (tokens t)"
    and redeem_tokens: "x \<in># tokens t \<Longrightarrow> add_mset x (tokens (redeem x t)) \<subseteq># tokens t"
    and redeem_mono: "tokens (redeem x t) \<subseteq># tokens t"
    and age_tokens: "tokens (age t) \<subseteq># tokens t"
begin

text \<open>\<open>V\<close> are the tokens redeemed so far, and \<open>I\<close> those issued.\<close>

lemma ledger_issue:
  assumes "tokens t + V \<subseteq># I"
  shows "tokens (issue r y t) + V \<subseteq># I + {#token y#}"
proof -
  have "tokens (issue r y t) + V \<subseteq># add_mset (token y) (tokens t) + V" by (rule subset_mset.add_right_mono [OF issue_tokens])
  also have "\<dots> = tokens t + V + {#token y#}" by simp
  also have "\<dots> \<subseteq># I + {#token y#}" by (rule subset_mset.add_right_mono [OF assms])
  finally show ?thesis .
qed

lemma ledger_redeem:
  assumes "tokens t + V \<subseteq># I" "x \<in># tokens t"
  shows "tokens (redeem x t) + (V + {#x#}) \<subseteq># I"
proof -
  have "tokens (redeem x t) + (V + {#x#}) = add_mset x (tokens (redeem x t)) + V" by simp
  also have "\<dots> \<subseteq># tokens t + V" by (rule subset_mset.add_right_mono [OF redeem_tokens [OF assms(2)]])
  also note assms(1)
  finally show ?thesis .
qed

lemma ledger_forget: "tokens t + V \<subseteq># I \<Longrightarrow> tokens (redeem x t) + V \<subseteq># I"
  by (rule subset_mset.order_trans [OF subset_mset.add_right_mono [OF redeem_mono]])

lemma ledger_age: "tokens t + V \<subseteq># I \<Longrightarrow> tokens (age t) + V \<subseteq># I"
  by (rule subset_mset.order_trans [OF subset_mset.add_right_mono [OF age_tokens]])

lemma ledger_redeemed: "tokens t + V \<subseteq># I \<Longrightarrow> V \<subseteq># I"
  by (rule subset_mset.order_trans [OF mset_subset_eq_add_right])

end

section \<open>The table is such a store\<close>

definition live :: "nonce_t \<Rightarrow> (byte \<times> byte \<times> buffer) multiset" where
  "live e = (if 0 < n_timeout e then {#(n_src e, n_dst e, n_nonce e)#} else {#})"

definition live_nonces :: "nonce_t list \<Rightarrow> (byte \<times> byte \<times> buffer) multiset" where
  "live_nonces table = (\<Sum>e\<leftarrow>table. live e)"

definition nonce_age :: "nonce_t list \<Rightarrow> nonce_t list" where
  "nonce_age table = map (\<lambda>e. if 0 < n_timeout e then e\<lparr>n_timeout := n_timeout e - 1\<rparr> else e) table"

lemma sum_list_update_mset:
  fixes f :: "'a \<Rightarrow> 'b multiset"
  assumes "i < length xs"
  shows "(\<Sum>x\<leftarrow>xs[i := y]. f x) + f (xs ! i) = (\<Sum>x\<leftarrow>xs. f x) + f y"
  using assms
proof (induction xs arbitrary: i)
  case (Cons x xs)
  then show ?case by (cases i) (auto simp: add.commute add.assoc)
qed simp

lemma live_nonces_update: "i < length table \<Longrightarrow> live_nonces (table[i := e]) + live (table ! i) = live_nonces table + live e"
  unfolding live_nonces_def by (rule sum_list_update_mset)

lemma live_nonces_mono:
  assumes "\<And>e. live (f e) \<subseteq># live e"
  shows "live_nonces (map f table) \<subseteq># live_nonces table"
  using assms by (induction table) (simp_all add: live_nonces_def subset_mset.add_mono)

lemma register_nonce_live: "live_nonces (snd (register_nonce src dst r nonce table)) \<subseteq># add_mset (src, dst, take 8 nonce) (live_nonces table)"
proof -
  let ?x = "(src, dst, take 8 nonce)"
  have up: "live_nonces (table[i := e]) \<subseteq># add_mset ?x (live_nonces table)" if "i < length table" "live e = {#?x#}" for i e
  proof -
    have "live_nonces (table[i := e]) \<subseteq># live_nonces (table[i := e]) + live (table ! i)" by simp
    also have "\<dots> = add_mset ?x (live_nonces table)" using live_nonces_update [OF that(1), of e] that(2) by simp
    finally show ?thesis .
  qed
  show ?thesis
  proof (cases "if r then find_index (\<lambda>e. reply_nonce e \<and> 0 < n_timeout e \<and> n_src e = src \<and> n_dst e = dst) table else None")
    case None
    show ?thesis
    proof (cases "find_index (\<lambda>e. n_timeout e = 0) table")
      case Some: (Some i)
      with find_index_Some [OF Some] None show ?thesis by (simp add: register_nonce_def live_def up)
    qed (simp add: register_nonce_def None)
  next
    case (Some i)
    then have "i < length table \<and> n_src (table ! i) = src \<and> n_dst (table ! i) = dst"
      by (auto split: if_splits dest: find_index_Some)
    with Some show ?thesis by (simp add: register_nonce_def live_def up)
  qed
qed

lemma nonce_clear_live_mono: "live_nonces (nonce_clear src dst table) \<subseteq># live_nonces table"
  unfolding nonce_clear_def by (rule live_nonces_mono) (simp add: live_def)

lemma nonce_clear_none: "(src, dst, n) \<notin># live_nonces (nonce_clear src dst table)"
  by (induction table) (auto simp: live_nonces_def nonce_clear_def live_def)

lemma nonce_clear_redeems:
  assumes "(src, dst, n) \<in># live_nonces table"
  shows "add_mset (src, dst, n) (live_nonces (nonce_clear src dst table)) \<subseteq># live_nonces table"
  using assms nonce_clear_live_mono [of src dst table] nonce_clear_none [of src dst n table]
  by (auto simp: insert_subset_eq_iff not_in_iff dest: mset_subset_eq_count intro!: mset_subset_eqI)

lemma nonce_age_live: "live_nonces (nonce_age table) \<subseteq># live_nonces table"
  unfolding nonce_age_def by (rule live_nonces_mono) (simp add: live_def)

interpretation nonces: nonce_store live_nonces "\<lambda>(src, dst, n). (src, dst, take 8 n)"
  "\<lambda>r (src, dst, n) t. snd (register_nonce src dst r n t)" "\<lambda>(src, dst, n). nonce_clear src dst" nonce_age
  by unfold_locales (auto simp: register_nonce_live nonce_clear_redeems nonce_clear_live_mono nonce_age_live)

section \<open>Look-up\<close>

lemma live_nonces_iff: "(src, dst, n) \<in># live_nonces table \<longleftrightarrow>
    (\<exists>e \<in> set table. 0 < n_timeout e \<and> n_src e = src \<and> n_dst e = dst \<and> n_nonce e = n)"
  by (induction table) (auto simp: live_nonces_def live_def)

lemma get_nonce_live:
  assumes "get_nonce src dst ri a table = Some n"
  shows "(src, dst, n) \<in># live_nonces table" "a \<or> n ! 0 = ri"
proof -
  obtain i where "i < length table" "0 < n_timeout (table ! i)" "n_src (table ! i) = src" "n_dst (table ! i) = dst"
      "a \<or> n_nonce (table ! i) ! 0 = ri" "n = n_nonce (table ! i)"
    using assms by (auto simp: get_nonce_def find_Some_iff)
  then show "(src, dst, n) \<in># live_nonces table" "a \<or> n ! 0 = ri"
    by (auto simp: live_nonces_iff)
qed

lemma get_nonce_None: "get_nonce src dst ri True table = None \<longleftrightarrow> (\<forall>n. (src, dst, n) \<notin># live_nonces table)"
  by (auto simp: get_nonce_def find_None_iff live_nonces_iff)

lemma get_nonce_weaken: "get_nonce src dst ri True table = None \<Longrightarrow> get_nonce src dst ri' a table = None"
  by (auto simp: get_nonce_def find_None_iff)

end
