(* ===== verification/S0_Scheme.thy ===== *)
theory S0_Scheme
  imports S0_Nonce Send_Data
begin

text \<open>
  Security 0 (\<open>src/src/transport/Security_Scheme0.c\<close>): the two transmit sessions with their state machine, and the receive sessions that decrypt and
  reassemble messages of one or two frames.

  The state is the record \<open>s0\<close>. A transmit session is named by its index; \<open>s_data\<close> is the memory of the
  client from the session's data pointer on, and a byte past the end of this list reads as zero. A client
  callback with its user pointer is a number; calls of clients are recorded in \<open>s0_called\<close>, together with the
  status and the extended status. Frames given to \<open>send_data\<close> are recorded in \<open>s0_sent\<close>, and its answers are
  taken from \<open>s0_radio\<close>, true when that is used up; \<open>s0_pending\<close> are the callbacks it holds. Three fields keep the history: \<open>s0_accepted\<close> lists the
  callbacks of accepted requests, \<open>s0_issued\<close> the nonces that were given to the table and \<open>s0_verified\<close> the nonces
  under which the tag of a received frame was found right, each with the two nodes it stands for.
  The clock does not advance during one call.

  The result \<open>None\<close> of an operation that draws a nonce means that the loop which looks for a nonce with a
  new first byte does not end. The result \<open>None\<close> of \<open>sec0_decrypt_message\<close> means a copy beyond the end of an array.
\<close>

section \<open>Constants\<close>

abbreviation (input) NUM_TX_SESSIONS :: nat where "NUM_TX_SESSIONS \<equiv> 2"
abbreviation (input) MAX_ENCRYPTED_MSG_SIZE :: nat where "MAX_ENCRYPTED_MSG_SIZE \<equiv> 128"
abbreviation (input) MAX_RXSESSIONS :: nat where "MAX_RXSESSIONS \<equiv> 2"
abbreviation (input) NONCE_REQUEST_TIMEOUT_MSEC :: u64 where "NONCE_REQUEST_TIMEOUT_MSEC \<equiv> 500"
abbreviation (input) SECURITY_NONCE_GET :: byte where "SECURITY_NONCE_GET \<equiv> 0x40"
abbreviation (input) SECURITY_NONCE_REPORT :: byte where "SECURITY_NONCE_REPORT \<equiv> 0x80"
abbreviation (input) SECURITY_MESSAGE_ENCAPSULATION :: byte where "SECURITY_MESSAGE_ENCAPSULATION \<equiv> 0x81"
abbreviation (input) SECURITY_MESSAGE_ENCAPSULATION_NONCE_GET :: byte where "SECURITY_MESSAGE_ENCAPSULATION_NONCE_GET \<equiv> 0xC1"
abbreviation (input) NETWORK_KEY_SET :: byte where "NETWORK_KEY_SET \<equiv> 0x06"
abbreviation (input) SEQUENCED_BIT_MASK :: byte where "SEQUENCED_BIT_MASK \<equiv> 0x10"
abbreviation (input) SECOND_FRAME_BIT_MASK :: byte where "SECOND_FRAME_BIT_MASK \<equiv> 0x20"

section \<open>Sessions and state\<close>

datatype tx_state = NONCE_GET | NONCE_GET_SENT | ENC_MSG | ENC_MSG_SENT | ENC_MSG2 | ENC_MSG2_SENT | TX_DONE | TX_FAIL

text \<open>The extended status is only copied and cleared; it is the list of its bytes.\<close>

type_synonym tx_ext = buffer

record sec_tx_session =
  s_param :: ts_param
  s_data :: buffer
  s_data_len :: nat
  s_state :: tx_state
  s_tx_code :: tx_status
  s_transition_time :: u64
  s_timer :: "u64 option"
  s_crypted_msg :: buffer
  s_seq :: byte
  s_callback :: "nat option"
  s_tx_ext_status :: tx_ext

datatype rx_session_state_t = RX_INIT | RX_ENC1 | RX_ENC2 | RX_SESSION_DONE

record rx_session_t =
  r_snode :: byte
  r_dnode :: byte
  r_state :: rx_session_state_t
  r_seq_nr :: byte
  r_msg :: buffer
  r_msg_len :: nat
  r_timeout :: u64

text \<open>The callbacks that the module passes to \<open>send_data\<close>, with the session as user pointer.\<close>

datatype s0_cb = noce_get_cb nat | msg1_cb nat | msg2_cb nat

record s0 =
  tx_sessions :: "sec_tx_session list"
  nonce_blacklist :: "nonce_blacklist_t list"
  blacklist_next_elem :: nat
  nonce_table :: "nonce_t list"
  nonce_timer :: bool
  s0_keys :: s0_keys
  s0_seq :: byte
  rxsessions :: "rx_session_t list"
  networkKey :: buffer
  nvm_netkey :: buffer
  prngState :: buffer
  s0_clock :: u64
  secure_learn_active :: bool
  s0_radio :: "bool list"
  s0_sent :: "(ts_param \<times> buffer \<times> s0_cb option) list"
  s0_pending :: "s0_cb list"
  s0_called :: "(nat \<times> tx_status \<times> tx_ext option) list"
  s0_accepted :: "nat list"
  s0_issued :: "(byte \<times> byte \<times> buffer) list"
  s0_verified :: "(byte \<times> byte \<times> buffer) list"

definition s0_send_data :: "ts_param \<Rightarrow> buffer \<Rightarrow> s0_cb option \<Rightarrow> s0 \<Rightarrow> bool \<times> s0" where
  "s0_send_data p data cb z =
     (let z' = z\<lparr>s0_radio := tl (s0_radio z)\<rparr>
      in if s0_radio z \<noteq> [] \<and> \<not> hd (s0_radio z) then (False, z')
         else (True, z'\<lparr>s0_sent := s0_sent z @ [(p, data, cb)], s0_pending := s0_pending z @ (case cb of None \<Rightarrow> [] | Some c \<Rightarrow> [c])\<rparr>))"

definition issue_nonce :: "byte \<Rightarrow> byte \<Rightarrow> bool \<Rightarrow> buffer \<Rightarrow> s0 \<Rightarrow> s0" where
  "issue_nonce src dst reply nonce z =
     z\<lparr>nonce_table := snd (register_nonce src dst reply nonce (nonce_table z)), s0_issued := s0_issued z @ [(src, dst, take 8 nonce)]\<rparr>"

definition upd_tx :: "nat \<Rightarrow> (sec_tx_session \<Rightarrow> sec_tx_session) \<Rightarrow> s0 \<Rightarrow> s0" where
  "upd_tx i f z = z\<lparr>tx_sessions := (tx_sessions z)[i := f (tx_sessions z ! i)]\<rparr>"

definition upd_rx :: "nat \<Rightarrow> (rx_session_t \<Rightarrow> rx_session_t) \<Rightarrow> s0 \<Rightarrow> s0" where
  "upd_rx i f z = z\<lparr>rxsessions := (rxsessions z)[i := f (rxsessions z ! i)]\<rparr>"

section \<open>Sending\<close>

definition get_tx_session_by_node :: "byte \<Rightarrow> byte \<Rightarrow> s0 \<Rightarrow> nat option" where
  "get_tx_session_by_node sn dn z =
     find_index (\<lambda>s. dnode (s_param s) = ucast dn \<and> snode (s_param s) = ucast sn) (tx_sessions z)"

definition get_node_max_frame_size :: "byte \<Rightarrow> nat" where
  "get_node_max_frame_size dn = 46"

definition rd :: "buffer \<Rightarrow> nat \<Rightarrow> byte" where
  "rd mem i = (if i < length mem then mem ! i else 0)"

text \<open>The length of the part that the next frame carries, and whether something is left for another one.\<close>

definition frame_part :: "sec_tx_session \<Rightarrow> nat \<times> bool" where
  "frame_part s =
     (let maxlen = get_node_max_frame_size (ucast (dnode (s_param s)))
      in if s_data_len s + 20 > maxlen then (maxlen - 20, True) else (s_data_len s, False))"

definition enc_flags :: "bool \<Rightarrow> bool \<Rightarrow> byte \<Rightarrow> byte" where
  "enc_flags pass2 more_to_send seq =
     (if pass2 then SEQUENCED_BIT_MASK OR SECOND_FRAME_BIT_MASK OR (seq AND 0xF)
      else if more_to_send then SEQUENCED_BIT_MASK OR (seq AND 0xF) else 0)"

text \<open>The frame that \<open>encrypt_msg\<close> composes from the plain text, with the receiver's nonce in the second half of \<open>iv\<close>.\<close>

definition s0_frame :: "buffer \<Rightarrow> buffer \<Rightarrow> buffer \<Rightarrow> byte \<Rightarrow> byte \<Rightarrow> byte \<Rightarrow> buffer \<Rightarrow> buffer" where
  "s0_frame ekey akey iv sh sn dn plain =
     (let payload = aes_ofb SerialAPI_AES128_Encrypt ekey iv plain;
          auth = [sh, sn, dn, of_nat (length plain)];
          mac = aes_cbc_mac SerialAPI_AES128_Encrypt akey iv (auth @ payload)
      in [COMMAND_CLASS_SECURITY, sh] @ take 8 iv @ payload @ [iv ! 8] @ take 8 mac)"

definition encrypt_msg :: "nat \<Rightarrow> bool \<Rightarrow> s0 \<Rightarrow> (nat \<times> s0) option" where
  "encrypt_msg i pass2 z =
     (let s = tx_sessions z ! i;
          sn = ucast (snode (s_param s));
          dn = ucast (dnode (s_param s));
          (len, more_to_send) = frame_part s
      in case fresh_nonce (nonce_table z) dn sn (prngState z) of
           None \<Rightarrow> None
         | Some (nonce, prng) \<Rightarrow>
             let z = z\<lparr>prngState := prng\<rparr>
             in (case get_nonce dn sn 0 True (nonce_table z) of
                   None \<Rightarrow> Some (0, z)
                 | Some rnonce \<Rightarrow>
                     let iv = nonce @ rnonce;
                         z = issue_nonce sn dn True nonce (z\<lparr>nonce_table := nonce_clear dn sn (nonce_table z)\<rparr>);
                         plain = enc_flags pass2 more_to_send (s_seq s) # map (rd (s_data s)) [0..<len];
                         key_set = (rd (s_data s) 0 = COMMAND_CLASS_SECURITY \<and> rd (s_data s) 1 = NETWORK_KEY_SET);
                         sh = (if more_to_send then SECURITY_MESSAGE_ENCAPSULATION_NONCE_GET else SECURITY_MESSAGE_ENCAPSULATION);
                         msg = s0_frame (if key_set then enckeyz (s0_keys z) else enckey (s0_keys z))
                           (if key_set then authkeyz (s0_keys z) else authkey (s0_keys z)) iv sh sn dn plain
                     in Some (len + 20,
                          upd_tx i (\<lambda>s. s\<lparr>s_data := drop len (s_data s), s_data_len := s_data_len s - len,
                              s_crypted_msg := msg @ drop (len + 20) (s_crypted_msg s)\<rparr>) z)))"

definition call_client :: "nat option \<Rightarrow> tx_status \<Rightarrow> tx_ext option \<Rightarrow> s0 \<Rightarrow> s0" where
  "call_client cb status ext z =
     (case cb of None \<Rightarrow> z | Some c \<Rightarrow> z\<lparr>s0_called := s0_called z @ [(c, status, ext)]\<rparr>)"

text \<open>Entering a state, and the two final states of \<open>tx_session_state_set\<close>, which the other cases enter too.\<close>

definition tx_enter :: "nat \<Rightarrow> tx_state \<Rightarrow> s0 \<Rightarrow> s0" where
  "tx_enter i state z = upd_tx i (\<lambda>s. s\<lparr>s_state := state, s_transition_time := s0_clock z\<rparr>) z"

definition tx_end :: "nat \<Rightarrow> tx_status \<Rightarrow> tx_ext option \<Rightarrow> s0 \<Rightarrow> s0" where
  "tx_end i status ext z =
     (let z = upd_tx i (\<lambda>s. s\<lparr>s_param := (s_param s)\<lparr>dnode := 0\<rparr>, s_timer := None\<rparr>) z;
          z = call_client (s_callback (tx_sessions z ! i)) status ext z
      in upd_tx i (\<lambda>s. s\<lparr>s_tx_ext_status := map (\<lambda>_. 0) (s_tx_ext_status s)\<rparr>) z)"

definition tx_set_done :: "nat \<Rightarrow> s0 \<Rightarrow> s0" where
  "tx_set_done i z =
     (let z = tx_enter i TX_DONE z in tx_end i TRANSMIT_COMPLETE_OK (Some (s_tx_ext_status (tx_sessions z ! i))) z)"

definition tx_set_fail :: "nat \<Rightarrow> s0 \<Rightarrow> s0" where
  "tx_set_fail i z = (let z = tx_enter i TX_FAIL z in tx_end i (s_tx_code (tx_sessions z ! i)) None z)"

definition tx_fail_code :: "nat \<Rightarrow> tx_status \<Rightarrow> s0 \<Rightarrow> s0" where
  "tx_fail_code i code z = tx_set_fail i (upd_tx i (\<lambda>s. s\<lparr>s_tx_code := code\<rparr>) z)"

definition set_tx_timer :: "nat \<Rightarrow> u64 option \<Rightarrow> s0 \<Rightarrow> s0" where
  "set_tx_timer i t z = upd_tx i (\<lambda>s. s\<lparr>s_timer := t\<rparr>) z"

definition nonce_get_frame :: buffer where
  "nonce_get_frame = [COMMAND_CLASS_SECURITY, SECURITY_NONCE_GET]"

text \<open>The two states in which a frame is encrypted and sent.\<close>

definition tx_send_enc :: "nat \<Rightarrow> bool \<Rightarrow> s0 \<Rightarrow> s0 option" where
  "tx_send_enc i pass2 z =
     (case encrypt_msg i pass2 (set_tx_timer i None z) of
        None \<Rightarrow> None
      | Some (len, z) \<Rightarrow>
          if len = 0 then Some (tx_fail_code i TRANSMIT_COMPLETE_FAIL z)
          else case s0_send_data (s_param (tx_sessions z ! i)) (take len (s_crypted_msg (tx_sessions z ! i)))
                 (Some (if pass2 then msg2_cb i else msg1_cb i)) z of
                 (ok, z) \<Rightarrow> Some (if ok then z else tx_fail_code i TRANSMIT_COMPLETE_FAIL z))"

definition tx_session_state_set :: "nat \<Rightarrow> tx_state \<Rightarrow> s0 \<Rightarrow> s0 option" where
  "tx_session_state_set i state z =
     (let z = tx_enter i state z;
          s = tx_sessions z ! i;
          timeout = NONCE_REQUEST_TIMEOUT_MSEC + s0_clock z - s_transition_time s
      in case state of
           NONCE_GET \<Rightarrow>
             (case s0_send_data (s_param s) nonce_get_frame (Some (noce_get_cb i)) z of (ok, z) \<Rightarrow>
                Some (if \<not> ok then tx_fail_code i TRANSMIT_COMPLETE_FAIL z
                      else if secure_learn_active z then set_tx_timer i (Some 10000) z else z))
         | NONCE_GET_SENT \<Rightarrow> Some (if \<not> secure_learn_active z then set_tx_timer i (Some timeout) z else z)
         | ENC_MSG \<Rightarrow> tx_send_enc i False z
         | ENC_MSG_SENT \<Rightarrow> Some (if s_data_len s = 0 then tx_set_done i z else set_tx_timer i (Some timeout) z)
         | ENC_MSG2 \<Rightarrow> tx_send_enc i True z
         | ENC_MSG2_SENT \<Rightarrow> Some (tx_set_done i z)
         | TX_DONE \<Rightarrow> Some (tx_set_done i z)
         | TX_FAIL \<Rightarrow> Some (tx_set_fail i z))"

definition tx_timeout :: "nat \<Rightarrow> s0 \<Rightarrow> s0" where
  "tx_timeout i z = tx_fail_code i TRANSMIT_COMPLETE_FAIL z"

definition noce_get_callback :: "tx_status \<Rightarrow> nat \<Rightarrow> s0 \<Rightarrow> s0 option" where
  "noce_get_callback status i z =
     (let z = upd_tx i (\<lambda>s. s\<lparr>s_tx_code := status\<rparr>) z
      in if s_state (tx_sessions z ! i) = NONCE_GET
         then tx_session_state_set i (if status = TRANSMIT_COMPLETE_OK then NONCE_GET_SENT else TX_FAIL) z
         else Some z)"

definition store_ext :: "tx_status \<Rightarrow> tx_ext option \<Rightarrow> sec_tx_session \<Rightarrow> sec_tx_session" where
  "store_ext status t s =
     (case t of Some e \<Rightarrow> if status = TRANSMIT_COMPLETE_OK then s\<lparr>s_tx_ext_status := e\<rparr> else s | None \<Rightarrow> s)"

definition msg1_callback :: "tx_status \<Rightarrow> nat \<Rightarrow> tx_ext option \<Rightarrow> s0 \<Rightarrow> s0 option" where
  "msg1_callback status i t z =
     (if s_state (tx_sessions z ! i) = ENC_MSG
      then tx_session_state_set i (if status = TRANSMIT_COMPLETE_OK then ENC_MSG_SENT else TX_FAIL)
             (upd_tx i (\<lambda>s. store_ext status t (s\<lparr>s_tx_code := status\<rparr>)) z)
      else Some z)"

definition msg2_callback :: "tx_status \<Rightarrow> nat \<Rightarrow> tx_ext option \<Rightarrow> s0 \<Rightarrow> s0 option" where
  "msg2_callback status i t z =
     (if s_state (tx_sessions z ! i) = ENC_MSG2
      then tx_session_state_set i (if status = TRANSMIT_COMPLETE_OK then ENC_MSG2_SENT else TX_FAIL)
             (upd_tx i (\<lambda>s. store_ext status t (s\<lparr>s_tx_code := status\<rparr>)) z)
      else Some z)"

definition get_seq :: "s0 \<Rightarrow> byte \<times> s0" where
  "get_seq z = (s0_seq z + 1, z\<lparr>s0_seq := s0_seq z + 1\<rparr>)"

text \<open>
  The return value, and the next state. The node identifiers of the parameters are 16 bits wide, those of the search for a session 8.
\<close>

definition sec0_send_data :: "ts_param \<Rightarrow> buffer \<Rightarrow> byte \<Rightarrow> nat option \<Rightarrow> s0 \<Rightarrow> (bool \<times> s0) option" where
  "sec0_send_data p data len cb z =
     (case get_tx_session_by_node (ucast (snode p)) (ucast (dnode p)) z of
        Some _ \<Rightarrow> Some (False, z)
      | None \<Rightarrow>
         (case find_index (\<lambda>s. dnode (s_param s) = 0) (tx_sessions z) of
            None \<Rightarrow> Some (False, z)
          | Some i \<Rightarrow>
             (case get_seq z of (seq, z) \<Rightarrow>
                let z = upd_tx i (\<lambda>s. s\<lparr>s_param := p, s_data := data, s_data_len := unat len, s_seq := seq, s_callback := cb\<rparr>) z;
                    z = z\<lparr>s0_accepted := s0_accepted z @ (case cb of None \<Rightarrow> [] | Some c \<Rightarrow> [c])\<rparr>
                in map_option (Pair True) (tx_session_state_set i NONCE_GET z))))"

definition sec0_register_nonce :: "byte \<Rightarrow> byte \<Rightarrow> buffer \<Rightarrow> s0 \<Rightarrow> s0 option" where
  "sec0_register_nonce src dst nonce z =
     (if sec0_is_nonce_blacklisted src dst nonce (nonce_blacklist z) then Some z
      else case get_tx_session_by_node dst src z of
        None \<Rightarrow> Some z
      | Some i \<Rightarrow>
          let (bl, k) = sec0_blacklist_add_nonce src dst nonce (nonce_blacklist z, blacklist_next_elem z);
              z = (issue_nonce src dst False nonce z)\<lparr>nonce_blacklist := bl, blacklist_next_elem := k\<rparr>;
              s = tx_sessions z ! i
          in if s_state s = NONCE_GET_SENT \<or> s_state s = NONCE_GET then tx_session_state_set i ENC_MSG z
             else if s_state s = ENC_MSG_SENT \<or> s_state s = ENC_MSG \<and> 0 < s_data_len s then tx_session_state_set i ENC_MSG2 z
             else Some z)"

definition sec0_abort_all_tx_sessions :: "s0 \<Rightarrow> s0" where
  "sec0_abort_all_tx_sessions z =
     fold (\<lambda>i z. if dnode (s_param (tx_sessions z ! i)) \<noteq> 0 then tx_fail_code i TRANSMIT_COMPLETE_FAIL z else z)
       [0..<NUM_TX_SESSIONS] z"

section \<open>Receiving\<close>

definition is_free :: "u64 \<Rightarrow> rx_session_t \<Rightarrow> bool" where
  "is_free now e \<longleftrightarrow> r_state e = RX_SESSION_DONE \<or> r_timeout e < now"

definition new_rx_session :: "byte \<Rightarrow> byte \<Rightarrow> s0 \<Rightarrow> nat option \<times> s0" where
  "new_rx_session sn dn z =
     (case find_index (is_free (s0_clock z)) (rxsessions z) of
        None \<Rightarrow> (None, z)
      | Some k \<Rightarrow> (Some k, upd_rx k (\<lambda>e. e\<lparr>r_snode := sn, r_dnode := dn, r_timeout := s0_clock z + 10000\<rparr>) z))"

definition free_rx_session :: "nat \<Rightarrow> s0 \<Rightarrow> s0" where
  "free_rx_session k z = upd_rx k (\<lambda>e. e\<lparr>r_state := RX_SESSION_DONE\<rparr>) z"

definition get_rx_session_by_nodes :: "byte \<Rightarrow> byte \<Rightarrow> s0 \<Rightarrow> nat option" where
  "get_rx_session_by_nodes sn dn z =
     find_index (\<lambda>e. \<not> is_free (s0_clock z) e \<and> r_dnode e = dn \<and> r_snode e = sn) (rxsessions z)"

definition rx_session_for :: "byte \<Rightarrow> byte \<Rightarrow> s0 \<Rightarrow> nat option \<times> s0" where
  "rx_session_for sn dn z =
     (case get_rx_session_by_nodes sn dn z of
        Some k \<Rightarrow> (Some k, z)
      | None \<Rightarrow>
         (case new_rx_session sn dn z of
            (None, z) \<Rightarrow> (None, z)
          | (Some k, z) \<Rightarrow> (Some k, upd_rx k (\<lambda>e. e\<lparr>r_state := RX_INIT\<rparr>) z)))"

text \<open>
  What becomes of a decrypted payload: the flags and what follows them, up to the end of the frame, of which
  the tag and the nonce identifier are the last nine bytes. The length \<open>n\<close> of the frame is at least 19; a
  copy of \<open>n - 20\<close> bytes has a negative length when it is 19.
\<close>

definition rx_payload :: "nat \<Rightarrow> nat \<Rightarrow> buffer \<Rightarrow> buffer \<Rightarrow> s0 \<Rightarrow> (nat \<times> buffer \<times> s0) option" where
  "rx_payload k n payload dec z =
     (let flags = payload ! 0;
          s = rxsessions z ! k
      in if flags AND SEQUENCED_BIT_MASK \<noteq> 0 then
           if flags AND SECOND_FRAME_BIT_MASK = 0 then
             let msg_len = (if n = 19 then 255 else n - 20)
             in case store_at 0 (map (rd (drop 1 payload)) [0..<msg_len]) (r_msg s) of
                  None \<Rightarrow> None
                | Some m \<Rightarrow> Some (0, dec, upd_rx k (\<lambda>e. e\<lparr>r_state := RX_ENC1, r_seq_nr := flags AND 0xF, r_msg := m, r_msg_len := msg_len\<rparr>) z)
           else if r_state s \<noteq> RX_ENC1 \<or> flags AND 0xF \<noteq> r_seq_nr s then Some (0, dec, z)
           else if n = 19 then None
           else case store_at 0 (take (r_msg_len s) (r_msg s)) dec of
                  None \<Rightarrow> None
                | Some d \<Rightarrow>
                   (case store_at (r_msg_len s) (take (n - 20) (drop 1 payload)) d of
                      None \<Rightarrow> None
                    | Some d \<Rightarrow> Some ((r_msg_len s + n - 20) mod 256, d, free_rx_session k z))
         else if n = 19 then None
         else case store_at 0 (take (n - 20) (drop 1 payload)) dec of
                None \<Rightarrow> None
              | Some d \<Rightarrow> Some (n - 20, d, free_rx_session k z))"

definition sec0_decrypt_message :: "byte \<Rightarrow> byte \<Rightarrow> buffer \<Rightarrow> buffer \<Rightarrow> s0 \<Rightarrow> (nat \<times> buffer \<times> s0) option" where
  "sec0_decrypt_message sn dn enc_data dec_message z =
     (let n = length enc_data
      in if n < 19 then Some (0, dec_message, z)
         else case get_nonce dn sn (enc_data ! (n - 9)) False (nonce_table z) of
           None \<Rightarrow> Some (0, dec_message, z)
         | Some nonce \<Rightarrow>
             let iv = take 8 (drop 2 enc_data) @ nonce;
                 z = z\<lparr>nonce_table := nonce_clear dn sn (nonce_table z)\<rparr>
             in (case rx_session_for sn dn z of
                   (None, z) \<Rightarrow> Some (0, dec_message, z)
                 | (Some k, z) \<Rightarrow>
                     let plen = n - 19;
                         auth = [enc_data ! 1, sn, dn, of_nat plen] @ take plen (drop 10 enc_data)
                     in (case store_at 0 auth dec_message of
                           None \<Rightarrow> None
                         | Some dec \<Rightarrow>
                             let mac = aes_cbc_mac SerialAPI_AES128_Encrypt (authkey (s0_keys z)) iv auth
                             in if take 8 mac \<noteq> drop (n - 8) enc_data then Some (0, dec, z)
                                else rx_payload k n
                                  (aes_ofb SerialAPI_AES128_Encrypt (enckey (s0_keys z)) iv (take plen (drop 10 enc_data)) @
                                     drop (10 + plen) enc_data) dec (z\<lparr>s0_verified := s0_verified z @ [(dn, sn, nonce)]\<rparr>))))"

section \<open>The other operations\<close>

definition no_ts_param :: ts_param where
  "no_ts_param = \<lparr>snode = 0, dnode = 0, sendpoint = 0, dendpoint = 0, tx_flags = 0, rx_flags = 0, scheme = NO_SCHEME,
     node_list = replicate NODEMASK_SIZE 0, is_mcast_with_folloup = False, force_verify_delivery = False,
     is_multicommand = False, discard_timeout = 0\<rparr>"

definition no_tx_session :: "tx_ext \<Rightarrow> sec_tx_session" where
  "no_tx_session ext = \<lparr>s_param = no_ts_param, s_data = [], s_data_len = 0, s_state = NONCE_GET, s_tx_code = TRANSMIT_COMPLETE_OK,
     s_transition_time = 0, s_timer = None, s_crypted_msg = replicate 46 0, s_seq = 0, s_callback = None,
     s_tx_ext_status = map (\<lambda>_. 0) ext\<rparr>"

definition sec0_init :: "s0 \<Rightarrow> s0" where
  "sec0_init z =
     z\<lparr>tx_sessions := map (\<lambda>s. no_tx_session (s_tx_ext_status s)) (tx_sessions z),
       nonce_blacklist := map (\<lambda>_. \<lparr>b_nonce = replicate 8 0, b_src = 0, b_dst = 0, in_use = False\<rparr>) (nonce_blacklist z),
       blacklist_next_elem := 0, nonce_timer := True,
       rxsessions := map (\<lambda>e. e\<lparr>r_state := RX_SESSION_DONE\<rparr>) (rxsessions z)\<rparr>"

definition nonce_timer_timeout :: "s0 \<Rightarrow> s0" where
  "nonce_timer_timeout z =
     z\<lparr>nonce_table := nonce_age (nonce_table z), nonce_timer := True\<rparr>"

text \<open>\<open>dst0\<close> is what the local variable \<open>dst\<close> holds before it is set.\<close>

definition sec0_send_nonce :: "sd_net \<Rightarrow> ts_param \<Rightarrow> ts_param \<Rightarrow> s0 \<Rightarrow> s0 option" where
  "sec0_send_nonce nt dst0 src z =
     (case fresh_nonce (nonce_table z) (ucast (dnode src)) (ucast (snode src)) (prngState z) of
        None \<Rightarrow> None
      | Some (nonce, prng) \<Rightarrow>
         (case s0_send_data (ts_param_make_reply nt dst0 src) ([COMMAND_CLASS_SECURITY, SECURITY_NONCE_REPORT] @ nonce) None (z\<lparr>prngState := prng\<rparr>) of
            (ok, z) \<Rightarrow> Some
              (if ok then issue_nonce (ucast (dnode src)) (ucast (snode src)) False nonce z else z)))"

definition sec0_reset_netkey :: "s0 \<Rightarrow> s0" where
  "sec0_reset_netkey z =
     (let (a, prng) = PRNGOutput SerialAPI_AES128_Encrypt (prngState z);
          (b, prng) = PRNGOutput SerialAPI_AES128_Encrypt prng
      in z\<lparr>networkKey := a @ b, nvm_netkey := a @ b, prngState := prng\<rparr>)"

section \<open>What encryption does\<close>

text \<open>The frame of session \<open>s\<close>, from the sender's and the receiver's nonce, and the session after it.\<close>

definition next_frame :: "s0_keys \<Rightarrow> bool \<Rightarrow> buffer \<Rightarrow> sec_tx_session \<Rightarrow> buffer" where
  "next_frame ks pass2 iv s =
     (let key_set = (rd (s_data s) 0 = COMMAND_CLASS_SECURITY \<and> rd (s_data s) 1 = NETWORK_KEY_SET);
          (len, more_to_send) = frame_part s
      in s0_frame (if key_set then enckeyz ks else enckey ks) (if key_set then authkeyz ks else authkey ks) iv
           (if more_to_send then SECURITY_MESSAGE_ENCAPSULATION_NONCE_GET else SECURITY_MESSAGE_ENCAPSULATION)
           (ucast (snode (s_param s))) (ucast (dnode (s_param s)))
           (enc_flags pass2 more_to_send (s_seq s) # map (rd (s_data s)) [0..<len]))"

definition after_frame :: "buffer \<Rightarrow> sec_tx_session \<Rightarrow> sec_tx_session" where
  "after_frame msg s =
     s\<lparr>s_data := drop (fst (frame_part s)) (s_data s), s_data_len := s_data_len s - fst (frame_part s),
       s_crypted_msg := msg @ drop (fst (frame_part s) + 20) (s_crypted_msg s)\<rparr>"

lemma encrypt_msg_split:
  fixes i z
  defines "s \<equiv> tx_sessions z ! i"
  defines "sn \<equiv> ucast (snode (s_param s)) :: byte" and "dn \<equiv> ucast (dnode (s_param s)) :: byte"
  shows "encrypt_msg i pass2 z =
    (case fresh_nonce (nonce_table z) dn sn (prngState z) of
       None \<Rightarrow> None
     | Some (nonce, prng) \<Rightarrow>
         (case get_nonce dn sn 0 True (nonce_table z) of
            None \<Rightarrow> Some (0, z\<lparr>prngState := prng\<rparr>)
          | Some rnonce \<Rightarrow> Some (fst (frame_part s) + 20,
              upd_tx i (\<lambda>_. after_frame (next_frame (s0_keys z) pass2 (nonce @ rnonce) s) s)
                (issue_nonce sn dn True nonce (z\<lparr>prngState := prng, nonce_table := nonce_clear dn sn (nonce_table z)\<rparr>)))))"
proof -
  have k: "s0_keys (issue_nonce a b c d y) = s0_keys y" "tx_sessions (issue_nonce a b c d y) = tx_sessions y" for a b c d y
    by (simp_all add: issue_nonce_def)
  obtain n m where f: "frame_part s = (n, m)" by (cases "frame_part s")
  show ?thesis
    unfolding encrypt_msg_def s_def [symmetric] sn_def [symmetric] dn_def [symmetric] f
    by (simp add: Let_def f after_frame_def next_frame_def k upd_tx_def s_def [symmetric] sn_def [symmetric] dn_def [symmetric]
        split: option.split prod.split)
qed

end
