(* ===== verification/S0_Run.thy ===== *)
theory S0_Run
  imports S0_Scheme
begin

text \<open>
  Security 0 as a machine driven by its environment, in any order: requests to send, nonce reports, nonce
  requests and encrypted messages from the network, the callbacks of \<open>send_data\<close>, the timers, and the
  commands of the layer above. Three results hold for every run: no nonce lets more than one frame
  through, every accepted request is answered exactly once, and no session is left waiting for nothing
  unless learn mode changes on the way.
\<close>

section \<open>The machine\<close>

datatype s0_event =
    Request ts_param buffer byte "nat option"
  | Nonce_report byte byte buffer
  | Nonce_request ts_param ts_param
  | Message byte byte buffer
  | Sent s0_cb tx_status "tx_ext option"
  | Tx_timer nat
  | Nonce_tick
  | Init
  | Abort_all
  | Set_key buffer
  | Reset_key
  | Clock u64
  | Learn bool

fun s0_callback :: "s0_cb \<Rightarrow> tx_status \<Rightarrow> tx_ext option \<Rightarrow> s0 \<Rightarrow> s0 option" where
  "s0_callback (noce_get_cb i) status t z = noce_get_callback status i z"
| "s0_callback (msg1_cb i) status t z = msg1_callback status i t z"
| "s0_callback (msg2_cb i) status t z = msg2_callback status i t z"

text \<open>
  A callback comes only for a frame that \<open>send_data\<close> has taken, and once for each; a timer calls its
  function only while it runs. The buffer for a decrypted message is that of \<open>security_CommandHandler\<close>, 64 bytes on the stack.
\<close>

fun s0_step :: "sd_net \<Rightarrow> s0_event \<Rightarrow> s0 \<Rightarrow> s0 option" where
  "s0_step nt (Request p data len cb) z = map_option snd (sec0_send_data p data len cb z)"
| "s0_step nt (Nonce_report src dst nonce) z = sec0_register_nonce src dst nonce z"
| "s0_step nt (Nonce_request dst0 src) z = sec0_send_nonce nt dst0 src z"
| "s0_step nt (Message sn dn f) z = map_option (snd \<circ> snd) (sec0_decrypt_message sn dn f (replicate 64 0) z)"
| "s0_step nt (Sent cb status t) z =
     (if cb \<in> set (s0_pending z) then s0_callback cb status t (z\<lparr>s0_pending := remove1 cb (s0_pending z)\<rparr>) else Some z)"
| "s0_step nt (Tx_timer i) z =
     Some (if i < length (tx_sessions z) \<and> s_timer (tx_sessions z ! i) \<noteq> None then tx_timeout i (set_tx_timer i None z) else z)"
| "s0_step nt Nonce_tick z = Some (if nonce_timer z then nonce_timer_timeout z else z)"
| "s0_step nt Init z = Some (sec0_init z)"
| "s0_step nt Abort_all z = Some (sec0_abort_all_tx_sessions z)"
| "s0_step nt (Set_key k) z = Some (z\<lparr>s0_keys := sec0_set_key SerialAPI_AES128_Encrypt k\<rparr>)"
| "s0_step nt Reset_key z = Some (sec0_reset_netkey z)"
| "s0_step nt (Clock t) z = Some (z\<lparr>s0_clock := t\<rparr>)"
| "s0_step nt (Learn b) z = Some (z\<lparr>secure_learn_active := b\<rparr>)"

fun s0_run :: "sd_net \<Rightarrow> s0_event list \<Rightarrow> s0 \<Rightarrow> s0 option" where
  "s0_run nt [] z = Some z"
| "s0_run nt (e # es) z = Option.bind (s0_step nt e z) (s0_run nt es)"

text \<open>The static variables at the start of the program; \<open>ext\<close> is a cleared extended status.\<close>

definition s0_start :: "tx_ext \<Rightarrow> s0" where
  "s0_start ext = \<lparr>tx_sessions = replicate NUM_TX_SESSIONS (no_tx_session ext),
     nonce_blacklist = replicate 10 \<lparr>b_nonce = replicate 8 0, b_src = 0, b_dst = 0, in_use = False\<rparr>, blacklist_next_elem = 0,
     nonce_table = replicate 15 \<lparr>n_src = 0, n_dst = 0, n_timeout = 0, reply_nonce = False, n_nonce = replicate 8 0\<rparr>,
     nonce_timer = False,
     s0_keys = \<lparr>enckey = replicate 16 0, authkey = replicate 16 0, enckeyz = replicate 16 0, authkeyz = replicate 16 0\<rparr>,
     s0_seq = 0,
     rxsessions = replicate MAX_RXSESSIONS \<lparr>r_snode = 0, r_dnode = 0, r_state = RX_INIT, r_seq_nr = 0,
       r_msg = replicate MAX_ENCRYPTED_MSG_SIZE 0, r_msg_len = 0, r_timeout = 0\<rparr>,
     networkKey = replicate 16 0, nvm_netkey = [], prngState = replicate 16 0, s0_clock = 0, secure_learn_active = False,
     s0_radio = [], s0_sent = [], s0_pending = [], s0_called = [], s0_accepted = [], s0_issued = [], s0_verified = []\<rparr>"

lemma s0_run_invariant:
  assumes "s0_run nt es z = Some z'" "P z" "\<And>e z z'. e \<in> set es \<Longrightarrow> P z \<Longrightarrow> s0_step nt e z = Some z' \<Longrightarrow> P z'"
  shows "P z'"
  using assms
proof (induction es arbitrary: z)
  case (Cons e es)
  then obtain y where "s0_step nt e z = Some y" "s0_run nt es y = Some z'" by (auto simp: bind_eq_Some_conv)
  then show ?case using Cons by (metis list.set_intros(1,2))
qed simp

section \<open>Every nonce is redeemed at most once\<close>

definition nonce_view :: "s0 \<Rightarrow> nonce_t list \<times> (byte \<times> byte \<times> buffer) list \<times> (byte \<times> byte \<times> buffer) list" where
  "nonce_view z = (nonce_table z, s0_issued z, s0_verified z)"

definition ledger :: "s0 \<Rightarrow> bool" where
  "ledger z \<longleftrightarrow> live_nonces (nonce_table z) + mset (s0_verified z) \<subseteq># mset (s0_issued z)"

lemma ledger_cong: "nonce_view z = nonce_view z' \<Longrightarrow> ledger z \<longleftrightarrow> ledger z'"
  by (simp add: nonce_view_def ledger_def)

named_theorems nview \<open>operations that leave nonces and their history alone\<close>

lemma nview_fields [nview]:
  "nonce_view (z\<lparr>tx_sessions := a\<rparr>) = nonce_view z" "nonce_view (z\<lparr>s0_called := b\<rparr>) = nonce_view z"
  "nonce_view (z\<lparr>s0_radio := c\<rparr>) = nonce_view z" "nonce_view (z\<lparr>s0_sent := d\<rparr>) = nonce_view z"
  "nonce_view (z\<lparr>s0_pending := e\<rparr>) = nonce_view z" "nonce_view (z\<lparr>prngState := f\<rparr>) = nonce_view z"
  "nonce_view (z\<lparr>s0_seq := g\<rparr>) = nonce_view z" "nonce_view (z\<lparr>s0_accepted := h\<rparr>) = nonce_view z"
  "nonce_view (z\<lparr>nonce_blacklist := i\<rparr>) = nonce_view z" "nonce_view (z\<lparr>blacklist_next_elem := j\<rparr>) = nonce_view z"
  "nonce_view (z\<lparr>rxsessions := k\<rparr>) = nonce_view z" "nonce_view (z\<lparr>s0_keys := l\<rparr>) = nonce_view z"
  "nonce_view (z\<lparr>s0_clock := m\<rparr>) = nonce_view z" "nonce_view (z\<lparr>secure_learn_active := n\<rparr>) = nonce_view z"
  "nonce_view (z\<lparr>networkKey := o'\<rparr>) = nonce_view z" "nonce_view (z\<lparr>nvm_netkey := q\<rparr>) = nonce_view z"
  "nonce_view (z\<lparr>nonce_timer := s\<rparr>) = nonce_view z"
  by (simp_all add: nonce_view_def)

lemma nview_upd_tx [nview]: "nonce_view (upd_tx i f z) = nonce_view z"
  by (simp add: upd_tx_def nview)

lemma nview_upd_rx [nview]: "nonce_view (upd_rx i f z) = nonce_view z"
  by (simp add: upd_rx_def nview)

lemma nview_send [nview]: "nonce_view (snd (s0_send_data p d c z)) = nonce_view z"
  by (simp add: s0_send_data_def Let_def nview)

lemma nview_send_pair: "s0_send_data p d c z = (ok, z') \<Longrightarrow> nonce_view z' = nonce_view z"
  using nview_send [of p d c z] by simp

lemma nview_end [nview]: "nonce_view (tx_end i s t z) = nonce_view z"
  by (simp add: tx_end_def Let_def nview call_client_def split: option.split)

lemma nview_tx [nview]:
  "nonce_view (tx_enter i s z) = nonce_view z" "nonce_view (set_tx_timer i t z) = nonce_view z"
  "nonce_view (tx_set_done i z) = nonce_view z" "nonce_view (tx_set_fail i z) = nonce_view z"
  "nonce_view (tx_fail_code i c z) = nonce_view z"
  by (simp_all add: tx_enter_def set_tx_timer_def tx_set_done_def tx_set_fail_def tx_fail_code_def Let_def nview)

lemma ledger_nview: "nonce_view z' = nonce_view z \<Longrightarrow> ledger z \<Longrightarrow> ledger z'"
  using ledger_cong by blast

lemma ledger_issue_nonce: "ledger z \<Longrightarrow> ledger (issue_nonce src dst r n z)"
  using nonces.ledger_issue [of "nonce_table z" "mset (s0_verified z)" "mset (s0_issued z)" r "(src, dst, n)"]
  by (simp add: ledger_def issue_nonce_def)

lemma ledger_clear:
  assumes "ledger z"
  shows "ledger (z\<lparr>nonce_table := nonce_clear src dst (nonce_table z)\<rparr>)"
    "ledger (z\<lparr>prngState := p, nonce_table := nonce_clear src dst (nonce_table z)\<rparr>)"
  using assms nonces.ledger_forget [of "nonce_table z" "mset (s0_verified z)" "mset (s0_issued z)" "(src, dst, [])"]
  by (simp_all add: ledger_def)

lemma ledger_encrypt: "encrypt_msg i pass2 z = Some (len, z') \<Longrightarrow> ledger z \<Longrightarrow> ledger z'"
  unfolding encrypt_msg_split
  by (auto split: prod.splits option.splits intro!: ledger_nview [OF nview_upd_tx] ledger_issue_nonce ledger_clear
      intro: ledger_nview [OF nview_fields(6)])

lemma ledger_send_enc: "tx_send_enc i pass2 z = Some z' \<Longrightarrow> ledger z \<Longrightarrow> ledger z'"
  unfolding tx_send_enc_def
  by (auto split: option.splits prod.splits if_splits dest!: nview_send_pair
      dest: ledger_encrypt [OF _ ledger_nview [OF nview_tx(2)]] intro: ledger_nview simp: nview_tx)

lemma ledger_state_set: "tx_session_state_set i s z = Some z' \<Longrightarrow> ledger z \<Longrightarrow> ledger z'"
  unfolding tx_session_state_set_def Let_def
  by (auto split: tx_state.splits prod.splits if_splits dest!: nview_send_pair
      dest: ledger_send_enc [OF _ ledger_nview [OF nview_tx(1)]] intro: ledger_nview simp: nview_tx)

lemma ledger_callback:
  assumes "s0_callback cb status t z = Some z'" "ledger z"
  shows "ledger z'"
proof -
  have u: "ledger (upd_tx i f z)" for i f using assms(2) by (rule ledger_nview [OF nview_upd_tx])
  show ?thesis using assms u
    by (cases cb) (auto simp: noce_get_callback_def msg1_callback_def msg2_callback_def Let_def split: if_splits dest: ledger_state_set)
qed

lemma ledger_via:
  assumes "ledger x"
  shows "nonce_view y = nonce_view x \<Longrightarrow> ledger y"
    and "tx_session_state_set i s y = Some z' \<Longrightarrow> nonce_view y = nonce_view x \<Longrightarrow> ledger z'"
  using assms ledger_nview ledger_state_set by metis+

lemma ledger_request: "sec0_send_data p d len cb z = Some (ok, z') \<Longrightarrow> ledger z \<Longrightarrow> ledger z'"
  unfolding sec0_send_data_def get_seq_def Let_def
  by (auto simp: nview split: option.splits elim!: ledger_via(2) [of z])

lemma ledger_register:
  assumes "sec0_register_nonce src dst n z = Some z'" "ledger z"
  shows "ledger z'"
proof -
  have "ledger ((issue_nonce src dst False n z)\<lparr>nonce_blacklist := bl, blacklist_next_elem := k\<rparr>)" for bl k
    by (rule ledger_via(1) [OF ledger_issue_nonce [OF assms(2), of src dst False n]]) (simp add: nview)
  with assms show ?thesis
    by (auto simp: sec0_register_nonce_def Let_def split: option.splits prod.splits if_splits dest: ledger_state_set)
qed

lemma ledger_send_nonce: "sec0_send_nonce nt dst0 src z = Some z' \<Longrightarrow> ledger z \<Longrightarrow> ledger z'"
  unfolding sec0_send_nonce_def
  by (auto split: option.splits prod.splits if_splits dest!: nview_send_pair intro!: ledger_issue_nonce intro: ledger_nview simp: nview)

lemma ledger_abort: "ledger z \<Longrightarrow> ledger (sec0_abort_all_tx_sessions z)"
  by (auto simp: sec0_abort_all_tx_sessions_def upt_rec intro: ledger_nview simp: nview)

lemma nview_rx_payload: "rx_payload k n pl dec z = Some (len, dec', z') \<Longrightarrow> nonce_view z' = nonce_view z"
  by (auto simp: rx_payload_def free_rx_session_def Let_def nview split: if_splits option.splits)

lemma nview_rx_session: "rx_session_for sn dn z = (k, z') \<Longrightarrow> nonce_view z' = nonce_view z"
  by (auto simp: rx_session_for_def new_rx_session_def nview split: option.splits prod.splits)

text \<open>The cases of \<open>sec0_decrypt_message\<close>, with the nonce that the frame refers to.\<close>

definition auth_part :: "byte \<Rightarrow> byte \<Rightarrow> buffer \<Rightarrow> buffer" where
  "auth_part sn dn f = [f ! 1, sn, dn, of_nat (length f - 19)] @ take (length f - 19) (drop 10 f)"

definition tag_ok :: "s0_keys \<Rightarrow> byte \<Rightarrow> byte \<Rightarrow> buffer \<Rightarrow> buffer \<Rightarrow> bool" where
  "tag_ok ks sn dn nonce f \<longleftrightarrow>
     take 8 (aes_cbc_mac SerialAPI_AES128_Encrypt (authkey ks) (take 8 (drop 2 f) @ nonce) (auth_part sn dn f)) = drop (length f - 8) f"

definition plain_part :: "s0_keys \<Rightarrow> buffer \<Rightarrow> buffer \<Rightarrow> buffer" where
  "plain_part ks nonce f =
     aes_ofb SerialAPI_AES128_Encrypt (enckey ks) (take 8 (drop 2 f) @ nonce) (take (length f - 19) (drop 10 f)) @
       drop (10 + (length f - 19)) f"

lemma decrypt_split:
  "sec0_decrypt_message sn dn f dec z =
     (if length f < 19 then Some (0, dec, z)
      else case get_nonce dn sn (f ! (length f - 9)) False (nonce_table z) of
        None \<Rightarrow> Some (0, dec, z)
      | Some nonce \<Rightarrow>
         (case rx_session_for sn dn (z\<lparr>nonce_table := nonce_clear dn sn (nonce_table z)\<rparr>) of
            (None, z) \<Rightarrow> Some (0, dec, z)
          | (Some k, z) \<Rightarrow>
             (case store_at 0 (auth_part sn dn f) dec of
                None \<Rightarrow> None
              | Some d \<Rightarrow>
                  if \<not> tag_ok (s0_keys z) sn dn nonce f then Some (0, d, z)
                  else rx_payload k (length f) (plain_part (s0_keys z) nonce f) d (z\<lparr>s0_verified := s0_verified z @ [(dn, sn, nonce)]\<rparr>))))"
  unfolding sec0_decrypt_message_def Let_def auth_part_def tag_ok_def plain_part_def by (rule refl)

lemma ledger_decrypt:
  assumes "sec0_decrypt_message sn dn f dec z = Some (len, dec', z')" "ledger z"
  shows "ledger z'"
proof (cases "length f < 19 \<or> get_nonce dn sn (f ! (length f - 9)) False (nonce_table z) = None")
  case True
  then show ?thesis using assms by (auto simp: decrypt_split split: option.splits)
next
  case False
  then obtain nonce where n: "get_nonce dn sn (f ! (length f - 9)) False (nonce_table z) = Some nonce" "\<not> length f < 19" by auto
  define y where "y = z\<lparr>nonce_table := nonce_clear dn sn (nonce_table z)\<rparr>"
  obtain k y' where k: "rx_session_for sn dn y = (k, y')" by (cases "rx_session_for sn dn y")
  have v: "nonce_view y' = nonce_view y" using k by (rule nview_rx_session)
  have l: "ledger y'" using v ledger_clear(1) [OF assms(2)] unfolding y_def by (rule ledger_nview)
  have "ledger (y'\<lparr>s0_verified := s0_verified y' @ [(dn, sn, nonce)]\<rparr>)"
    using nonces.ledger_redeem [of "nonce_table z" "mset (s0_verified z)" "mset (s0_issued z)" "(dn, sn, nonce)"]
      get_nonce_live(1) [OF n(1)] assms(2) v by (simp add: ledger_def nonce_view_def y_def)
  with l show ?thesis using assms(1) n
    by (auto simp: decrypt_split y_def [symmetric] k split: option.splits if_splits dest!: nview_rx_payload intro: ledger_nview)
qed

lemma ledger_step:
  assumes "s0_step nt e z = Some z'" "ledger z"
  shows "ledger z'"
proof (cases e)
  case Nonce_tick
  then show ?thesis using assms nonces.ledger_age [of "nonce_table z" "mset (s0_verified z)" "mset (s0_issued z)"]
    by (auto simp: nonce_timer_timeout_def ledger_def split: if_splits)
next
  case (Sent cb s t)
  then show ?thesis using assms ledger_callback [of cb s t "z\<lparr>s0_pending := remove1 cb (s0_pending z)\<rparr>" z']
      ledger_nview [OF nview_fields(5), of z] by (auto split: if_splits)
next
  case (Tx_timer i)
  then show ?thesis using assms by (auto simp: tx_timeout_def nview split: if_splits intro: ledger_nview)
next
  case Reset_key
  then show ?thesis using assms by (auto simp: sec0_reset_netkey_def Let_def ledger_def split: prod.splits)
next
  case Init
  then show ?thesis using assms by (auto simp: sec0_init_def ledger_def)
qed (use assms in \<open>auto simp: ledger_def [of "s0_keys_update _ z"] ledger_def [of "s0_clock_update _ z"]
    ledger_def [of "secure_learn_active_update _ z"] ledger_def [of z]
    dest: ledger_request ledger_register ledger_send_nonce ledger_decrypt intro: ledger_abort ledger_nview [OF _ assms(2)] simp: nview\<close>)

lemma decrypt_verified:
  assumes "sec0_decrypt_message sn dn f dec z = Some (len, dec', z')" "0 < len"
  shows "\<exists>nonce. s0_verified z' = s0_verified z @ [(dn, sn, nonce)] \<and> s0_issued z' = s0_issued z \<and> tag_ok (s0_keys z) sn dn nonce f"
proof -
  obtain nonce where n: "get_nonce dn sn (f ! (length f - 9)) False (nonce_table z) = Some nonce" "\<not> length f < 19"
    using assms by (auto simp: decrypt_split split: if_splits option.splits)
  define y where "y = z\<lparr>nonce_table := nonce_clear dn sn (nonce_table z)\<rparr>"
  obtain ko y' where k: "rx_session_for sn dn y = (ko, y')" by (cases "rx_session_for sn dn y")
  have v: "s0_verified y' = s0_verified z" "s0_issued y' = s0_issued z" using nview_rx_session [OF k] by (simp_all add: nonce_view_def y_def)
  have ks: "s0_keys y' = s0_keys z"
    using k by (auto simp: rx_session_for_def new_rx_session_def upd_rx_def y_def split: option.splits prod.splits)
  show ?thesis using assms n v ks
    by (auto simp: decrypt_split y_def [symmetric] k nonce_view_def split: option.splits if_splits dest!: nview_rx_payload)
qed

lemma sum_list_all_empty: "\<forall>x \<in> set xs. f x = {#} \<Longrightarrow> (\<Sum>x\<leftarrow>xs. f x) = {#}"
  by (induction xs) simp_all

lemma ledger_start: "ledger (s0_start ext)"
  unfolding ledger_def live_nonces_def by (subst sum_list_all_empty) (simp_all add: s0_start_def live_def)

text \<open>A network and a request, for examples.\<close>

definition demo_net :: sd_net where
  "demo_net = \<lparr>MyNodeID = 1, GetCacheEntryFlag = (\<lambda>_. 0), SupportsCmdClass = (\<lambda>_ _. False)\<rparr>"

definition demo_param :: ts_param where
  "demo_param = no_ts_param\<lparr>snode := 1, dnode := 5, scheme := SECURITY_SCHEME_0\<rparr>"

lemma fresh_nonce_empty:
  "get_nonce src dst 0 True t = None \<Longrightarrow> fresh_nonce t src dst prng = Some (PRNGOutput SerialAPI_AES128_Encrypt prng)"
  by (subst fresh_nonce.simps) (simp add: case_prod_unfold get_nonce_weaken)

text \<open>
  C37. Every nonce lets at most one frame of Security 0 through. In every run, the nonces under which a received
  frame was found authentic are, with multiplicities, among the nonces that were issued, and in every state
  that is reached a message that is handed up has the right tag under a nonce for exactly this sender and
  receiver, which has been issued and not been redeemed before: a recorded frame is refused until the same
  nonce is issued again.
\<close>

theorem s0_nonce_redeemed_once:
  assumes "s0_run nt es (s0_start ext) = Some z"
  shows "mset (s0_verified z) \<subseteq># mset (s0_issued z) \<and>
    (\<forall>sn dn f dec len dec' z'. sec0_decrypt_message sn dn f dec z = Some (len, dec', z') \<longrightarrow> 0 < len \<longrightarrow>
      (\<exists>nonce. tag_ok (s0_keys z) sn dn nonce f \<and> add_mset (dn, sn, nonce) (mset (s0_verified z)) \<subseteq># mset (s0_issued z)))"
proof -
  have l: "ledger z" by (rule s0_run_invariant [OF assms]) (use ledger_start ledger_step in blast)+
  have "\<exists>nonce. tag_ok (s0_keys z) sn dn nonce f \<and> add_mset (dn, sn, nonce) (mset (s0_verified z)) \<subseteq># mset (s0_issued z)"
    if d: "sec0_decrypt_message sn dn f dec z = Some (len, dec', z')" "0 < len" for sn dn f dec len dec' z'
  proof -
    obtain nonce where n: "s0_verified z' = s0_verified z @ [(dn, sn, nonce)]" "s0_issued z' = s0_issued z" "tag_ok (s0_keys z) sn dn nonce f"
      using decrypt_verified [OF d] by auto
    have "mset (s0_verified z') \<subseteq># mset (s0_issued z')"
      using ledger_decrypt [OF d(1) l] unfolding ledger_def by (rule nonces.ledger_redeemed)
    then show ?thesis using n by auto
  qed
  then show ?thesis using nonces.ledger_redeemed l unfolding ledger_def by blast
qed

theorem s0_nonce_redeemed_once_witness:
  "\<exists>z. s0_run demo_net [Nonce_request no_ts_param demo_param] (s0_start []) = Some z \<and>
    mset (s0_verified z) \<subseteq># mset (s0_issued z) \<and> size (mset (s0_issued z)) = 1"
proof -
  have "get_nonce 5 1 0 True (nonce_table (s0_start [])) = None"
    by (simp add: s0_start_def get_nonce_def find_None_iff)
  moreover have "s0_radio (s0_start []) = []" "s0_issued (s0_start []) = []" by (simp_all add: s0_start_def)
  ultimately obtain z where z: "s0_run demo_net [Nonce_request no_ts_param demo_param] (s0_start []) = Some z" "length (s0_issued z) = 1"
    by (simp add: sec0_send_nonce_def demo_param_def fresh_nonce_empty s0_send_data_def issue_nonce_def Let_def case_prod_unfold)
  then show ?thesis using s0_nonce_redeemed_once [OF z(1)] by (intro exI [of _ z]) simp
qed

section \<open>Every accepted request is answered once\<close>

fun cb_session :: "s0_cb \<Rightarrow> nat" where
  "cb_session (noce_get_cb i) = i"
| "cb_session (msg1_cb i) = i"
| "cb_session (msg2_cb i) = i"

definition held_cb :: "sec_tx_session \<Rightarrow> nat multiset" where
  "held_cb s = (if dnode (s_param s) = 0 then {#} else case s_callback s of None \<Rightarrow> {#} | Some c \<Rightarrow> {#c#})"

definition held_callbacks :: "s0 \<Rightarrow> nat multiset" where
  "held_callbacks z = (\<Sum>s\<leftarrow>tx_sessions z. held_cb s)"

text \<open>An open session may still call its client; a closed one has ended and waits for nothing.\<close>

definition open_session :: "sec_tx_session \<Rightarrow> bool" where
  "open_session s \<longleftrightarrow> dnode (s_param s) \<noteq> 0 \<or> s_callback s = None"

definition session_ok :: "sec_tx_session \<Rightarrow> bool" where
  "session_ok s \<longleftrightarrow> open_session s \<or> (s_state s = TX_DONE \<or> s_state s = TX_FAIL) \<and> s_timer s = None"

definition tx_inv :: "s0 \<Rightarrow> bool" where
  "tx_inv z \<longleftrightarrow> length (tx_sessions z) = NUM_TX_SESSIONS \<and> (\<forall>s \<in> set (tx_sessions z). session_ok s) \<and>
     (\<forall>cb \<in> set (s0_pending z). cb_session cb < NUM_TX_SESSIONS) \<and>
     mset (map fst (s0_called z)) + held_callbacks z = mset (s0_accepted z)"

definition tx_open :: "nat \<Rightarrow> s0 \<Rightarrow> bool" where
  "tx_open i z \<longleftrightarrow> tx_inv z \<and> i < NUM_TX_SESSIONS \<and> open_session (tx_sessions z ! i)"

definition tx_view :: "s0 \<Rightarrow> sec_tx_session list \<times> s0_cb list \<times> (nat \<times> tx_status \<times> tx_ext option) list \<times> nat list" where
  "tx_view z = (tx_sessions z, s0_pending z, s0_called z, s0_accepted z)"

lemma tx_view_cong:
  assumes "tx_view z' = tx_view z"
  shows "tx_inv z' \<longleftrightarrow> tx_inv z" "tx_open i z' \<longleftrightarrow> tx_open i z"
  using assms by (simp_all add: tx_view_def tx_inv_def tx_open_def held_callbacks_def)

lemma tx_view_fields:
  "tx_view (z\<lparr>s0_radio := c\<rparr>) = tx_view z" "tx_view (z\<lparr>s0_sent := d\<rparr>) = tx_view z" "tx_view (z\<lparr>prngState := f\<rparr>) = tx_view z"
  "tx_view (z\<lparr>s0_seq := g\<rparr>) = tx_view z" "tx_view (z\<lparr>nonce_blacklist := i\<rparr>) = tx_view z"
  "tx_view (z\<lparr>blacklist_next_elem := j\<rparr>) = tx_view z" "tx_view (z\<lparr>rxsessions := k\<rparr>) = tx_view z"
  "tx_view (z\<lparr>s0_keys := l\<rparr>) = tx_view z" "tx_view (z\<lparr>s0_clock := m\<rparr>) = tx_view z"
  "tx_view (z\<lparr>secure_learn_active := n\<rparr>) = tx_view z" "tx_view (z\<lparr>networkKey := o'\<rparr>) = tx_view z"
  "tx_view (z\<lparr>nvm_netkey := q\<rparr>) = tx_view z" "tx_view (z\<lparr>nonce_timer := s\<rparr>) = tx_view z"
  "tx_view (z\<lparr>nonce_table := t\<rparr>) = tx_view z" "tx_view (z\<lparr>s0_issued := u\<rparr>) = tx_view z" "tx_view (z\<lparr>s0_verified := v\<rparr>) = tx_view z"
  by (simp_all add: tx_view_def)

lemma tx_view_issue: "tx_view (issue_nonce a b c d z) = tx_view z"
  by (simp add: issue_nonce_def tx_view_def)

lemma held_update:
  "i < length (tx_sessions z) \<Longrightarrow> held_callbacks (z\<lparr>tx_sessions := (tx_sessions z)[i := s]\<rparr>) + held_cb (tx_sessions z ! i) = held_callbacks z + held_cb s"
  unfolding held_callbacks_def by (simp add: sum_list_update_mset)

text \<open>An update that leaves the destination and the callback of an open session alone.\<close>

lemma tx_open_upd:
  assumes "tx_open i z" "dnode (s_param (f (tx_sessions z ! i))) = dnode (s_param (tx_sessions z ! i))"
    "s_callback (f (tx_sessions z ! i)) = s_callback (tx_sessions z ! i)"
  shows "tx_open i (upd_tx i f z)"
proof -
  have "held_cb (f (tx_sessions z ! i)) = held_cb (tx_sessions z ! i)" using assms by (simp add: held_cb_def)
  moreover have "open_session (f (tx_sessions z ! i))" using assms by (simp add: tx_open_def open_session_def)
  ultimately show ?thesis
    using assms(1) held_update [of i z "f (tx_sessions z ! i)"]
    by (auto simp: tx_open_def tx_inv_def upd_tx_def session_ok_def dest!: set_update_subset_insert [THEN subsetD])
qed

lemma tx_open_ops:
  assumes "tx_open i z"
  shows "tx_open i (tx_enter i s z)" "tx_open i (set_tx_timer i t z)" "tx_open i (upd_tx i (\<lambda>s. s\<lparr>s_tx_code := c\<rparr>) z)"
    "tx_open i (upd_tx i (\<lambda>s. store_ext c e (s\<lparr>s_tx_code := c\<rparr>)) z)"
  using assms by (simp_all add: tx_enter_def set_tx_timer_def tx_open_upd store_ext_def split: option.split)

lemma tx_view_keep: "tx_view y = tx_view z \<Longrightarrow> tx_open i z \<Longrightarrow> tx_open i y" "tx_view y = tx_view z \<Longrightarrow> tx_inv z \<Longrightarrow> tx_inv y"
  using tx_view_cong by blast+

lemma tx_open_enc:
  assumes "encrypt_msg i pass2 z = Some (len, z')" "tx_open i z"
  shows "tx_open i z'"
proof -
  define s where "s = tx_sessions z ! i"
  have "tx_open i (upd_tx i (\<lambda>_. after_frame m s) (issue_nonce a b True n (z\<lparr>prngState := p, nonce_table := t\<rparr>)))" for m a b n p t
    by (rule tx_open_upd [OF tx_view_keep(1) [OF _ assms(2)]])
      (simp_all add: tx_view_issue tx_view_fields issue_nonce_def after_frame_def s_def)
  moreover have "tx_open i (z\<lparr>prngState := p\<rparr>)" for p using assms(2) by (rule tx_view_keep(1) [OF tx_view_fields(3)])
  ultimately show ?thesis using assms(1) unfolding encrypt_msg_split s_def
    by (auto split: prod.splits option.splits)
qed

lemma tx_open_send:
  assumes "s0_send_data p d (Some cb) z = (ok, z')" "tx_open i z" "cb_session cb = i"
  shows "tx_open i z'"
  using assms by (auto simp: s0_send_data_def Let_def tx_open_def tx_inv_def held_callbacks_def split: if_splits)

lemma tx_end_inv:
  assumes "tx_open i z" "s_state (tx_sessions z ! i) = TX_DONE \<or> s_state (tx_sessions z ! i) = TX_FAIL"
  shows "tx_inv (tx_end i c e z)"
proof -
  define s where "s = tx_sessions z ! i"
  define s' where "s' = s\<lparr>s_param := (s_param s)\<lparr>dnode := 0\<rparr>, s_timer := None, s_tx_ext_status := map (\<lambda>_. 0) (s_tx_ext_status s)\<rparr>"
  have i: "i < length (tx_sessions z)" using assms by (simp add: tx_open_def tx_inv_def)
  have e: "tx_end i c e z = (call_client (s_callback s) c e z)\<lparr>tx_sessions := (tx_sessions z)[i := s']\<rparr>"
    using i by (simp add: tx_end_def upd_tx_def call_client_def s'_def s_def Let_def split: option.split)
  have ok: "session_ok s'" and n: "held_cb s' = {#}" using assms(2) by (simp_all add: s'_def s_def session_ok_def held_cb_def)
  have "held_cb s = (case s_callback s of None \<Rightarrow> {#} | Some c \<Rightarrow> {#c#})"
    using assms(1) by (auto simp: held_cb_def s_def tx_open_def open_session_def)
  then have "held_callbacks z = held_callbacks (z\<lparr>tx_sessions := (tx_sessions z)[i := s']\<rparr>) +
      (case s_callback s of None \<Rightarrow> {#} | Some c \<Rightarrow> {#c#})"
    using held_update [OF i, of s'] n by (simp add: s_def [symmetric])
  then show ?thesis
    using assms(1) ok unfolding e
    by (auto simp: tx_open_def tx_inv_def call_client_def held_callbacks_def split: option.splits
        dest!: set_update_subset_insert [THEN subsetD])
qed

lemma enter_state [simp]: "i < length (tx_sessions z) \<Longrightarrow> s_state (tx_sessions (tx_enter i s z) ! i) = s"
  by (simp add: tx_enter_def upd_tx_def)

lemma tx_open_length: "tx_open i z \<Longrightarrow> i < length (tx_sessions z)"
  by (simp add: tx_open_def tx_inv_def)

lemma tx_set_inv:
  assumes "tx_open i z"
  shows "tx_inv (tx_set_done i z)" "tx_inv (tx_set_fail i z)" "tx_inv (tx_fail_code i c z)"
proof -
  show "tx_inv (tx_set_done i z)" using assms by (simp add: tx_set_done_def Let_def tx_end_inv tx_open_ops tx_open_length)
  show "tx_inv (tx_set_fail i z)" using assms by (simp add: tx_set_fail_def Let_def tx_end_inv tx_open_ops tx_open_length)
  have "tx_open i (upd_tx i (\<lambda>s. s\<lparr>s_tx_code := c\<rparr>) z)" by (rule tx_open_ops(3) [OF assms])
  then show "tx_inv (tx_fail_code i c z)" by (simp add: tx_fail_code_def tx_set_fail_def Let_def tx_end_inv tx_open_ops tx_open_length)
qed

lemma tx_open_inv: "tx_open i z \<Longrightarrow> tx_inv z"
  by (simp add: tx_open_def)

lemma tx_send_enc_inv:
  assumes "tx_send_enc i pass2 z = Some z'" "tx_open i z"
  shows "tx_inv z'"
  using assms(1) tx_open_ops(2) [OF assms(2), of None]
  by (auto simp: tx_send_enc_def tx_set_inv(3) split: option.splits prod.splits if_splits
      dest!: tx_open_enc intro: tx_open_inv dest: tx_open_send [where i = i])

lemma tx_state_set_inv:
  assumes "tx_session_state_set i s z = Some z'" "tx_open i z"
  shows "tx_inv z'"
proof -
  note o = tx_open_ops(1) [OF assms(2), of s]
  show ?thesis
  proof (cases s)
    case NONCE_GET
    then show ?thesis using assms(1) o
      by (auto simp: tx_session_state_set_def Let_def tx_set_inv(3) tx_open_inv tx_open_inv [OF tx_open_ops(2)]
          split: prod.splits if_splits dest!: tx_open_send [where i = i])
  qed (use assms(1) o in \<open>auto simp: tx_session_state_set_def Let_def tx_set_inv tx_open_inv [OF tx_open_ops(2)] tx_open_inv
      split: if_splits intro: tx_send_enc_inv\<close>)
qed

text \<open>The two sessions are always there.\<close>

lemma tx_inv_session: "tx_inv z \<Longrightarrow> i < NUM_TX_SESSIONS \<Longrightarrow> session_ok (tx_sessions z ! i)"
  by (simp add: tx_inv_def)

lemma tx_open_if:
  assumes "tx_inv z" "i < NUM_TX_SESSIONS"
    "s_state (tx_sessions z ! i) \<noteq> TX_DONE \<and> s_state (tx_sessions z ! i) \<noteq> TX_FAIL \<or> s_timer (tx_sessions z ! i) \<noteq> None \<or>
     dnode (s_param (tx_sessions z ! i)) \<noteq> 0"
  shows "tx_open i z"
  using assms tx_inv_session [OF assms(1,2)] by (auto simp: tx_open_def session_ok_def open_session_def)

lemma tx_code_inv:
  assumes "tx_inv z"
  shows "tx_inv (upd_tx i (\<lambda>s. s\<lparr>s_tx_code := c\<rparr>) z)"
proof (cases "i < length (tx_sessions z)")
  case True
  let ?s = "(tx_sessions z ! i)\<lparr>s_tx_code := c\<rparr>"
  have "session_ok ?s" "held_cb ?s = held_cb (tx_sessions z ! i)"
    using assms True by (simp_all add: tx_inv_def session_ok_def open_session_def held_cb_def)
  then show ?thesis using assms held_update [OF True, of ?s]
    by (auto simp: tx_inv_def upd_tx_def dest!: set_update_subset_insert [THEN subsetD])
qed (use assms in \<open>simp add: upd_tx_def list_update_beyond linorder_not_less\<close>)

lemma callback_inv:
  assumes "s0_callback cb status t z = Some z'" "tx_inv z" "cb_session cb < NUM_TX_SESSIONS"
  shows "tx_inv z'"
proof (cases cb)
  case (noce_get_cb i)
  define y where "y = upd_tx i (\<lambda>s. s\<lparr>s_tx_code := status\<rparr>) z"
  have "tx_inv y" unfolding y_def using assms(2) by (rule tx_code_inv)
  with noce_get_cb show ?thesis using assms
    by (auto simp: noce_get_callback_def Let_def y_def [symmetric] split: if_splits intro!: tx_open_if elim!: tx_state_set_inv)
next
  case (msg1_cb i)
  then show ?thesis using assms
    by (auto simp: msg1_callback_def split: if_splits intro!: tx_open_ops(4) tx_open_if elim!: tx_state_set_inv)
next
  case (msg2_cb i)
  then show ?thesis using assms
    by (auto simp: msg2_callback_def split: if_splits intro!: tx_open_ops(4) tx_open_if elim!: tx_state_set_inv)
qed

lemma request_inv:
  assumes "sec0_send_data p d len cb z = Some (ok, z')" "tx_inv z" "dnode p \<noteq> 0"
  shows "tx_inv z'"
proof (cases "z' = z")
  case False
  then obtain i where i: "find_index (\<lambda>s. dnode (s_param s) = 0) (tx_sessions z) = Some i"
    using assms(1) by (auto simp: sec0_send_data_def split: option.splits)
  define s where "s = (tx_sessions z ! i)\<lparr>s_param := p, s_data := d, s_data_len := unat len, s_seq := s0_seq z + 1, s_callback := cb\<rparr>"
  define y where "y = z\<lparr>s0_seq := s0_seq z + 1, tx_sessions := (tx_sessions z)[i := s],
    s0_accepted := s0_accepted z @ (case cb of None \<Rightarrow> [] | Some c \<Rightarrow> [c])\<rparr>"
  have l: "i < length (tx_sessions z)" "dnode (s_param (tx_sessions z ! i)) = 0" using find_index_Some [OF i] by simp_all
  have z': "tx_session_state_set i NONCE_GET y = Some z'"
    using assms(1) i False by (auto simp: sec0_send_data_def get_seq_def Let_def upd_tx_def y_def s_def split: option.splits)
  have h: "held_cb (tx_sessions z ! i) = {#}" "held_cb s = (case cb of None \<Rightarrow> {#} | Some c \<Rightarrow> {#c#})" "open_session s"
    using l assms(3) by (simp_all add: held_cb_def s_def open_session_def split: option.split)
  have "held_callbacks y = held_callbacks z + held_cb s" using held_update [OF l(1), of s] h by (simp add: held_callbacks_def y_def)
  then have "tx_open i y" using assms(2) h l
    by (auto simp: tx_open_def tx_inv_def y_def session_ok_def split: option.splits dest!: set_update_subset_insert [THEN subsetD])
  with z' show ?thesis by (rule tx_state_set_inv)
qed (use assms in simp)

lemma register_inv:
  assumes "sec0_register_nonce src dst n z = Some z'" "tx_inv z"
  shows "tx_inv z'"
proof -
  have y: "tx_inv ((issue_nonce src dst False n z)\<lparr>nonce_blacklist := bl, blacklist_next_elem := k\<rparr>)" for bl k
    by (rule tx_view_keep(2) [OF _ assms(2)]) (simp add: tx_view_issue tx_view_fields)
  have "get_tx_session_by_node dst src z = Some i \<Longrightarrow> i < NUM_TX_SESSIONS" for i
    using assms(2) by (auto simp: get_tx_session_by_node_def tx_inv_def dest: find_index_Some)
  then show ?thesis using assms(1) assms(2) y
    by (auto simp: sec0_register_nonce_def Let_def split: option.splits prod.splits if_splits
        elim!: tx_state_set_inv intro!: tx_open_if)
qed

lemma abort_inv: "tx_inv z \<Longrightarrow> tx_inv (sec0_abort_all_tx_sessions z)"
  by (simp add: sec0_abort_all_tx_sessions_def upt_rec tx_set_inv(3) tx_open_if)

lemma tx_view_rx_payload: "rx_payload k n pl dec z = Some (len, dec', z') \<Longrightarrow> tx_view z' = tx_view z"
  by (auto simp: rx_payload_def free_rx_session_def Let_def upd_rx_def tx_view_fields split: if_splits option.splits)

lemma tx_view_rx_session: "rx_session_for sn dn z = (k, z') \<Longrightarrow> tx_view z' = tx_view z"
  by (auto simp: rx_session_for_def new_rx_session_def upd_rx_def tx_view_fields split: option.splits prod.splits)

lemma tx_view_decrypt: "sec0_decrypt_message sn dn f dec z = Some (len, dec', z') \<Longrightarrow> tx_view z' = tx_view z"
  unfolding decrypt_split
  by (auto split: if_splits option.splits prod.splits dest!: tx_view_rx_payload tx_view_rx_session simp: tx_view_fields)

lemma send_nonce_inv: "sec0_send_nonce nt dst0 src z = Some z' \<Longrightarrow> tx_view z' = tx_view z"
  by (auto simp: sec0_send_nonce_def s0_send_data_def Let_def tx_view_def issue_nonce_def split: option.splits prod.splits if_splits)

lemma tx_inv_step:
  assumes "s0_step nt e z = Some z'" "tx_inv z" "e \<noteq> Init" "\<And>p d len cb. e = Request p d len cb \<Longrightarrow> dnode p \<noteq> 0"
  shows "tx_inv z'"
proof (cases e)
  case (Sent cb s t)
  have "tx_inv (z\<lparr>s0_pending := remove1 cb (s0_pending z)\<rparr>)"
    using assms(2) by (auto simp: tx_inv_def held_callbacks_def dest: set_remove1_subset [THEN subsetD])
  then show ?thesis using assms(1,2) Sent callback_inv [of cb s t "z\<lparr>s0_pending := remove1 cb (s0_pending z)\<rparr>" z']
    by (auto simp: tx_inv_def split: if_splits)
next
  case (Tx_timer i)
  have "tx_open i (set_tx_timer i None z)" if "i < length (tx_sessions z)" "s_timer (tx_sessions z ! i) \<noteq> None"
    using that assms(2) tx_open_if [OF assms(2), of i] by (simp add: tx_inv_def tx_open_ops(2))
  then show ?thesis using assms Tx_timer by (auto simp: tx_timeout_def tx_set_inv(3) split: if_splits)
next
  case (Request p d len cb)
  then show ?thesis using assms by (auto intro: request_inv)
next
  case (Message sn dn f)
  then show ?thesis using assms by (auto dest!: tx_view_decrypt elim: tx_view_keep(2))
next
  case (Nonce_request a b)
  then show ?thesis using assms by (auto dest!: send_nonce_inv elim: tx_view_keep(2))
next
  case Reset_key
  then show ?thesis using assms by (auto simp: sec0_reset_netkey_def tx_view_fields split: prod.splits intro: tx_view_keep(2) [OF _ assms(2)])
qed (use assms in \<open>auto simp: nonce_timer_timeout_def tx_view_fields split: if_splits
    intro: register_inv abort_inv tx_view_keep(2) [OF _ assms(2)]\<close>)

lemma tx_inv_start: "tx_inv (s0_start ext)"
  unfolding tx_inv_def held_callbacks_def
  by (subst sum_list_all_empty) (simp_all add: s0_start_def no_tx_session_def no_ts_param_def session_ok_def open_session_def held_cb_def)

text \<open>
  C27. Every accepted request of Security 0 is answered exactly once, whatever the radio and the network do: in every run
  without a new initialisation, in which requests name a destination, the callbacks that were called and
  those that the sessions still hold are, with multiplicities, the callbacks of the accepted requests.
\<close>

theorem s0_exactly_one_answer:
  assumes "s0_run nt es (s0_start ext) = Some z" "\<forall>e \<in> set es. e \<noteq> Init" "\<forall>p d len cb. Request p d len cb \<in> set es \<longrightarrow> dnode p \<noteq> 0"
  shows "mset (map fst (s0_called z)) + held_callbacks z = mset (s0_accepted z)"
proof -
  have "tx_inv z"
  proof (rule s0_run_invariant [OF assms(1), where P = tx_inv, OF tx_inv_start])
    fix e x x' assume e: "e \<in> set es" "tx_inv x" "s0_step nt e x = Some x'"
    have "e \<noteq> Init" "\<And>p d len cb. e = Request p d len cb \<Longrightarrow> dnode p \<noteq> 0" using assms(2,3) e(1) by blast+
    with e(3,2) show "tx_inv x'" by (rule tx_inv_step)
  qed
  then show ?thesis by (simp add: tx_inv_def)
qed

theorem s0_exactly_one_answer_witness:
  "\<exists>z. s0_run demo_net [Request demo_param [0x25, 0x02] 2 (Some 7), Sent (noce_get_cb 0) TRANSMIT_COMPLETE_NO_ACK None] (s0_start []) = Some z \<and>
    map fst (s0_called z) = [7] \<and> mset (map fst (s0_called z)) + held_callbacks z = mset (s0_accepted z)"
proof -
  let ?es = "[Request demo_param [0x25, 0x02] 2 (Some 7), Sent (noce_get_cb 0) TRANSMIT_COMPLETE_NO_ACK None]"
  have "case s0_run demo_net ?es (s0_start []) of None \<Rightarrow> False | Some z \<Rightarrow> map fst (s0_called z) = [7]" by code_simp
  then obtain z where z: "s0_run demo_net ?es (s0_start []) = Some z" "map fst (s0_called z) = [7]" by (auto split: option.splits)
  have "mset (map fst (s0_called z)) + held_callbacks z = mset (s0_accepted z)"
    by (rule s0_exactly_one_answer [OF z(1)]) (simp_all add: demo_param_def)
  with z show ?thesis by (intro exI [of _ z] conjI)
qed

end
