(* ===== verification/S0_Live.thy ===== *)
theory S0_Live
  imports S0_Run
begin

text \<open>
  What the transmit sessions of Security 0 wait for. As long as learn mode does not begin between a nonce
  request and its callback, a session in use always has a callback of \<open>send_data\<close> outstanding or its timer
  running, and what it waits for moves it forward. When learn mode begins at that moment, neither is the case.
\<close>

section \<open>Waiting sessions\<close>

lemma ucast_byte_zero: "(ucast (b :: byte) :: u16) = 0 \<longleftrightarrow> b = 0"
  by (simp add: unat_eq_zero [symmetric] unsigned_ucast_eq)

definition session_waits :: "nat \<Rightarrow> s0_cb set \<Rightarrow> bool \<Rightarrow> sec_tx_session \<Rightarrow> bool" where
  "session_waits i pend learn s \<longleftrightarrow> dnode (s_param s) = 0 \<or>
     (case s_state s of
        NONCE_GET \<Rightarrow> noce_get_cb i \<in> pend \<and> (learn \<longrightarrow> s_timer s \<noteq> None)
      | NONCE_GET_SENT \<Rightarrow> s_timer s \<noteq> None
      | ENC_MSG \<Rightarrow> msg1_cb i \<in> pend
      | ENC_MSG_SENT \<Rightarrow> s_timer s \<noteq> None
      | ENC_MSG2 \<Rightarrow> msg2_cb i \<in> pend
      | _ \<Rightarrow> False)"

definition waits :: "nat \<Rightarrow> s0 \<Rightarrow> bool" where
  "waits i z \<longleftrightarrow> session_waits i (set (s0_pending z)) (secure_learn_active z) (tx_sessions z ! i)"

definition others_wait :: "nat \<Rightarrow> s0 \<Rightarrow> bool" where
  "others_wait i z \<longleftrightarrow> length (tx_sessions z) = NUM_TX_SESSIONS \<and> i < NUM_TX_SESSIONS \<and> (\<forall>j < NUM_TX_SESSIONS. j \<noteq> i \<longrightarrow> waits j z)"

definition all_wait :: "s0 \<Rightarrow> bool" where
  "all_wait z \<longleftrightarrow> length (tx_sessions z) = NUM_TX_SESSIONS \<and> (\<forall>j < NUM_TX_SESSIONS. waits j z)"

lemma all_wait_others: "all_wait z \<longleftrightarrow> others_wait i z \<and> waits i z" if "i < NUM_TX_SESSIONS"
  using that by (auto simp: all_wait_def others_wait_def)

lemma all_wait_other: "all_wait z \<Longrightarrow> i < NUM_TX_SESSIONS \<Longrightarrow> others_wait i z"
  by (simp add: all_wait_others)

lemma session_waits_mono: "session_waits i p l s \<Longrightarrow> p \<subseteq> q \<Longrightarrow> session_waits i q l s"
  by (auto simp: session_waits_def split: tx_state.splits)

lemma others_upd [simp]: "others_wait i (upd_tx i f z) = others_wait i z"
  by (auto simp: others_wait_def upd_tx_def waits_def)

lemma others_enter [simp]: "others_wait i (tx_enter i s z) = others_wait i z"
  by (simp add: tx_enter_def)

lemma others_timer [simp]: "others_wait i (set_tx_timer i t z) = others_wait i z"
  by (simp add: set_tx_timer_def)

lemma upd_tx_nth: "others_wait i z \<Longrightarrow> tx_sessions (upd_tx i f z) ! i = f (tx_sessions z ! i)"
  by (simp add: others_wait_def upd_tx_def)

lemma upd_tx_fields [simp]:
  "s0_pending (upd_tx i f z) = s0_pending z" "secure_learn_active (upd_tx i f z) = secure_learn_active z" "s0_clock (upd_tx i f z) = s0_clock z"
  by (simp_all add: upd_tx_def)

lemma call_client_wait: "others_wait i (call_client c s t z) = others_wait i z" "tx_sessions (call_client c s t z) = tx_sessions z"
  by (simp_all add: call_client_def others_wait_def waits_def split: option.split)

lemma tx_end_wait:
  assumes "others_wait i z"
  shows "all_wait (tx_end i c e z)"
proof -
  have i: "i < NUM_TX_SESSIONS" using assms by (simp add: others_wait_def)
  have "others_wait i (tx_end i c e z)" using assms by (simp add: tx_end_def Let_def call_client_wait)
  moreover have "waits i (tx_end i c e z)"
    using assms by (simp add: waits_def session_waits_def tx_end_def Let_def upd_tx_nth call_client_wait)
  ultimately show ?thesis by (simp add: all_wait_others [OF i])
qed

lemma tx_final_wait:
  assumes "others_wait i z"
  shows "all_wait (tx_set_done i z)" "all_wait (tx_set_fail i z)" "all_wait (tx_fail_code i c z)"
  using assms by (simp_all add: tx_set_done_def tx_set_fail_def tx_fail_code_def Let_def tx_end_wait)

lemma send_wait:
  assumes "s0_send_data p d (Some cb) z = (ok, z')" "others_wait i z"
  shows "others_wait i z'" "tx_sessions z' = tx_sessions z" "secure_learn_active z' = secure_learn_active z" "ok \<Longrightarrow> cb \<in> set (s0_pending z')"
  using assms
  by (auto simp: s0_send_data_def Let_def others_wait_def waits_def split: if_splits elim!: session_waits_mono)

lemma encrypt_wait:
  assumes "encrypt_msg i pass2 z = Some (len, z')" "others_wait i z"
  shows "others_wait i z'" "s_state (tx_sessions z' ! i) = s_state (tx_sessions z ! i)"
proof -
  have "others_wait i (z\<lparr>prngState := p\<rparr>)" "others_wait i (issue_nonce a b c d (z\<lparr>prngState := p, nonce_table := t\<rparr>))" for p a b c d t
    using assms(2) by (simp_all add: others_wait_def waits_def issue_nonce_def)
  with assms show "others_wait i z'" "s_state (tx_sessions z' ! i) = s_state (tx_sessions z ! i)"
    unfolding encrypt_msg_split by (auto split: option.splits prod.splits simp: upd_tx_nth after_frame_def)
qed

lemma send_enc_wait:
  assumes "tx_send_enc i pass2 z = Some z'" "others_wait i z" "s_state (tx_sessions z ! i) = (if pass2 then ENC_MSG2 else ENC_MSG)"
  shows "all_wait z'"
proof -
  have i: "i < NUM_TX_SESSIONS" using assms(2) by (simp add: others_wait_def)
  obtain len y where e: "encrypt_msg i pass2 (set_tx_timer i None z) = Some (len, y)"
    using assms(1) by (auto simp: tx_send_enc_def split: option.splits)
  have y: "others_wait i y" "s_state (tx_sessions y ! i) = (if pass2 then ENC_MSG2 else ENC_MSG)"
    using encrypt_wait [OF e] assms(2,3) by (simp_all add: set_tx_timer_def upd_tx_nth)
  obtain ok x where x: "s0_send_data (s_param (tx_sessions y ! i)) (take len (s_crypted_msg (tx_sessions y ! i)))
      (Some (if pass2 then msg2_cb i else msg1_cb i)) y = (ok, x)" by (cases "s0_send_data (s_param (tx_sessions y ! i))
      (take len (s_crypted_msg (tx_sessions y ! i))) (Some (if pass2 then msg2_cb i else msg1_cb i)) y")
  have "ok \<Longrightarrow> all_wait x"
    using send_wait [OF x y(1)] y(2) by (auto simp: all_wait_others [OF i] waits_def session_waits_def)
  with send_wait(1) [OF x y(1)] y(1) assms(1) e x show ?thesis
    by (auto simp: tx_send_enc_def tx_final_wait split: if_splits)
qed

lemma enter_nth: "others_wait i z \<Longrightarrow> tx_sessions (tx_enter i s z) ! i = (tx_sessions z ! i)\<lparr>s_state := s, s_transition_time := s0_clock z\<rparr>"
  by (simp add: tx_enter_def upd_tx_nth)

lemma enter_learn [simp]: "secure_learn_active (tx_enter i s z) = secure_learn_active z" "s0_pending (tx_enter i s z) = s0_pending z"
  by (simp_all add: tx_enter_def)

lemma set_timer_wait:
  assumes "others_wait i z" "s_state (tx_sessions z ! i) = NONCE_GET_SENT \<or> s_state (tx_sessions z ! i) = ENC_MSG_SENT \<or>
    s_state (tx_sessions z ! i) = NONCE_GET \<and> noce_get_cb i \<in> set (s0_pending z)"
  shows "all_wait (set_tx_timer i (Some t) z)"
proof -
  have i: "i < NUM_TX_SESSIONS" using assms(1) by (simp add: others_wait_def)
  show ?thesis using assms
    by (auto simp: all_wait_others [OF i] waits_def session_waits_def set_tx_timer_def upd_tx_nth)
qed

lemma state_set_wait:
  assumes "tx_session_state_set i s z = Some z'" "others_wait i z"
    "s = NONCE_GET_SENT \<Longrightarrow> secure_learn_active z \<Longrightarrow> dnode (s_param (tx_sessions z ! i)) \<noteq> 0 \<Longrightarrow> s_timer (tx_sessions z ! i) \<noteq> None"
  shows "all_wait z'"
proof -
  have i: "i < NUM_TX_SESSIONS" using assms(2) by (simp add: others_wait_def)
  define y where "y = tx_enter i s z"
  have o: "others_wait i y" and n: "s_state (tx_sessions y ! i) = s" "s_timer (tx_sessions y ! i) = s_timer (tx_sessions z ! i)" and p: "s_param (tx_sessions y ! i) = s_param (tx_sessions z ! i)"
    using assms(2) by (simp_all add: y_def enter_nth)
  note u = assms(1) [unfolded tx_session_state_set_def Let_def, folded y_def]
  show ?thesis
  proof (cases s)
    case NONCE_GET
    obtain ok x where x: "s0_send_data (s_param (tx_sessions y ! i)) nonce_get_frame (Some (noce_get_cb i)) y = (ok, x)"
      by (cases "s0_send_data (s_param (tx_sessions y ! i)) nonce_get_frame (Some (noce_get_cb i)) y")
    note w = send_wait [OF x o]
    have "ok \<Longrightarrow> \<not> secure_learn_active x \<Longrightarrow> all_wait x"
      using w n NONCE_GET by (auto simp: all_wait_others [OF i] waits_def session_waits_def)
    moreover have "z' = (if \<not> ok then tx_fail_code i TRANSMIT_COMPLETE_FAIL x
        else if secure_learn_active x then set_tx_timer i (Some 10000) x else x)"
      using u x by (simp add: NONCE_GET)
    ultimately show ?thesis using w n NONCE_GET by (auto simp: tx_final_wait set_timer_wait split: if_splits)
  next
    case NONCE_GET_SENT
    have "secure_learn_active y \<Longrightarrow> all_wait y"
      using o n p NONCE_GET_SENT assms(3) by (auto simp: all_wait_others [OF i] waits_def session_waits_def y_def)
    moreover have "z' = (if \<not> secure_learn_active y then set_tx_timer i (Some (500 + s0_clock y - s_transition_time (tx_sessions y ! i))) y else y)"
      using u by (simp add: NONCE_GET_SENT)
    ultimately show ?thesis using o n NONCE_GET_SENT by (auto simp: set_timer_wait)
  qed (use o n u in \<open>auto simp: tx_final_wait set_timer_wait split: if_splits intro: send_enc_wait\<close>)
qed

section \<open>The invariant\<close>

lemma callback_wait:
  assumes "s0_callback cb status t (z\<lparr>s0_pending := remove1 cb (s0_pending z)\<rparr>) = Some z'" "all_wait z" "cb_session cb < NUM_TX_SESSIONS"
  shows "all_wait z'"
proof -
  define i where "i = cb_session cb"
  define y where "y = z\<lparr>s0_pending := remove1 cb (s0_pending z)\<rparr>"
  have i: "i < NUM_TX_SESSIONS" using assms(3) by (simp add: i_def)
  have other: "session_waits j (set (s0_pending y)) l s" if "session_waits j (set (s0_pending z)) l s" "j \<noteq> i" for j l s
    using that by (cases cb) (auto simp: session_waits_def y_def i_def in_set_remove1 split: tx_state.splits)
  have o: "others_wait i y" using assms(2) i other by (auto simp: all_wait_def others_wait_def waits_def y_def)
  have same: "waits i (upd_tx i (\<lambda>s. s\<lparr>s_tx_code := status\<rparr>) y) = waits i y" using o by (simp add: waits_def upd_tx_nth session_waits_def split: tx_state.split)
  have w: "waits i z" using assms(2) i by (simp add: all_wait_def)
  have c: "s0_callback cb status t y = Some z'" using assms(1) by (simp add: y_def)
  show ?thesis
  proof (cases cb)
    case (noce_get_cb k)
    then have k: "k = i" by (simp add: i_def)
    define x where "x = upd_tx i (\<lambda>s. s\<lparr>s_tx_code := status\<rparr>) y"
    have x: "tx_sessions x ! i = (tx_sessions z ! i)\<lparr>s_tx_code := status\<rparr>" "others_wait i x" "secure_learn_active x = secure_learn_active z"
      using o by (simp_all add: x_def upd_tx_nth) (simp_all add: y_def)
    show ?thesis
    proof (cases "s_state (tx_sessions z ! i) = NONCE_GET")
      case True
      have "tx_session_state_set i (if status = TRANSMIT_COMPLETE_OK then NONCE_GET_SENT else TX_FAIL) x = Some z'"
        using c True x noce_get_cb k unfolding x_def by (simp add: noce_get_callback_def Let_def)
      then show ?thesis
        by (rule state_set_wait [OF _ x(2)]) (use w True x in \<open>auto simp: waits_def session_waits_def split: if_splits\<close>)
    next
      case False
      then have "waits i y" using w noce_get_cb
        by (auto simp: waits_def session_waits_def y_def in_set_remove1 split: tx_state.splits)
      moreover have "z' = x" using c False x noce_get_cb k unfolding x_def by (simp add: noce_get_callback_def Let_def)
      ultimately show ?thesis using same x(2) by (simp add: all_wait_others [OF i] x_def)
    qed
  next
    case (msg1_cb k)
    then have k: "k = i" by (simp add: i_def)
    have "waits i y" if "s_state (tx_sessions z ! i) \<noteq> ENC_MSG"
      using that w msg1_cb by (auto simp: waits_def session_waits_def y_def in_set_remove1 split: tx_state.splits)
    moreover have "all_wait z'" if "tx_session_state_set i s (upd_tx i f y) = Some z'" "s \<noteq> NONCE_GET_SENT" for s f
      using that o by (auto intro: state_set_wait)
    ultimately show ?thesis using assms(1) msg1_cb k o
      by (auto simp: msg1_callback_def y_def all_wait_others [OF i] split: if_splits)
  next
    case (msg2_cb k)
    then have k: "k = i" by (simp add: i_def)
    have "waits i y" if "s_state (tx_sessions z ! i) \<noteq> ENC_MSG2"
      using that w msg2_cb by (auto simp: waits_def session_waits_def y_def in_set_remove1 split: tx_state.splits)
    moreover have "all_wait z'" if "tx_session_state_set i s (upd_tx i f y) = Some z'" "s \<noteq> NONCE_GET_SENT" for s f
      using that o by (auto intro: state_set_wait)
    ultimately show ?thesis using assms(1) msg2_cb k o
      by (auto simp: msg2_callback_def y_def all_wait_others [OF i] split: if_splits)
  qed
qed

lemma request_wait:
  assumes "sec0_send_data p d len cb z = Some (ok, z')" "all_wait z"
  shows "all_wait z'"
proof (cases "z' = z")
  case False
  then obtain i y where y: "find_index (\<lambda>s. dnode (s_param s) = 0) (tx_sessions z) = Some i"
      "tx_session_state_set i NONCE_GET (y\<lparr>s0_accepted := s0_accepted y @ (case cb of None \<Rightarrow> [] | Some c \<Rightarrow> [c])\<rparr>) = Some z'"
      "y = upd_tx i (\<lambda>s. s\<lparr>s_param := p, s_data := d, s_data_len := unat len, s_seq := s0_seq z + 1, s_callback := cb\<rparr>) (z\<lparr>s0_seq := s0_seq z + 1\<rparr>)"
    using assms(1) by (auto simp: sec0_send_data_def get_seq_def Let_def split: option.splits)
  have i: "i < NUM_TX_SESSIONS" using find_index_Some [OF y(1)] assms(2) by (simp add: all_wait_def)
  have "others_wait i y" using assms(2) i unfolding y(3) others_upd by (simp add: all_wait_def others_wait_def waits_def)
  then have "others_wait i (y\<lparr>s0_accepted := a\<rparr>)" for a by (simp add: others_wait_def waits_def)
  then show ?thesis using state_set_wait [OF y(2)] by simp
qed (use assms in simp)

lemma register_wait:
  assumes "sec0_register_nonce src dst n z = Some z'" "all_wait z"
  shows "all_wait z'"
proof -
  have y: "all_wait ((issue_nonce src dst False n z)\<lparr>nonce_blacklist := bl, blacklist_next_elem := k\<rparr>)" for bl k
    using assms(2) by (simp add: all_wait_def waits_def issue_nonce_def)
  have i: "get_tx_session_by_node dst src z = Some i \<Longrightarrow> i < NUM_TX_SESSIONS" for i
    using assms(2) by (auto simp: get_tx_session_by_node_def all_wait_def dest: find_index_Some)
  have "all_wait z'" if "tx_session_state_set i s x = Some z'" "all_wait x" "i < NUM_TX_SESSIONS" "s \<noteq> NONCE_GET_SENT" for i s x
    using state_set_wait [OF that(1)] that(4) all_wait_other [OF that(2,3)] by blast
  with y i assms show ?thesis
    by (auto simp: sec0_register_nonce_def Let_def split: option.splits prod.splits if_splits)
qed

definition wait_view :: "s0 \<Rightarrow> sec_tx_session list \<times> s0_cb list \<times> bool" where
  "wait_view z = (tx_sessions z, s0_pending z, secure_learn_active z)"

lemma wait_view_keep: "wait_view z' = wait_view z \<Longrightarrow> all_wait z \<Longrightarrow> all_wait z'"
  by (simp add: wait_view_def all_wait_def waits_def)

lemma rx_wait_view:
  "rx_payload k n pl dec z = Some (len, dec', z') \<Longrightarrow> wait_view z' = wait_view z"
  "rx_session_for sn dn z = (ko, z') \<Longrightarrow> wait_view z' = wait_view z"
  by (auto simp: rx_payload_def free_rx_session_def Let_def upd_rx_def wait_view_def rx_session_for_def new_rx_session_def
      split: if_splits option.splits prod.splits)

lemma decrypt_wait: "sec0_decrypt_message sn dn f dec z = Some (len, dec', z') \<Longrightarrow> wait_view z' = wait_view z"
  unfolding decrypt_split
  by (auto split: if_splits option.splits prod.splits dest!: rx_wait_view simp: wait_view_def)

lemma send_nonce_wait: "sec0_send_nonce nt dst0 src z = Some z' \<Longrightarrow> wait_view z' = wait_view z"
  by (auto simp: sec0_send_nonce_def s0_send_data_def Let_def wait_view_def issue_nonce_def split: option.splits prod.splits if_splits)

lemma abort_wait: "all_wait z \<Longrightarrow> all_wait (sec0_abort_all_tx_sessions z)"
  by (simp add: sec0_abort_all_tx_sessions_def upt_rec tx_final_wait(3) all_wait_other)

text \<open>Only sending adds callbacks, and they are those of the session.\<close>

definition pend_ok :: "s0 \<Rightarrow> bool" where
  "pend_ok z \<longleftrightarrow> (\<forall>cb \<in> set (s0_pending z). cb_session cb < NUM_TX_SESSIONS)"

lemma pend_send: "s0_send_data p d (Some cb) z = (ok, z') \<Longrightarrow> pend_ok z \<Longrightarrow> cb_session cb < NUM_TX_SESSIONS \<Longrightarrow> pend_ok z'"
  by (auto simp: s0_send_data_def Let_def pend_ok_def split: if_splits)

lemma pend_upd [simp]: "pend_ok (upd_tx i f z) = pend_ok z" "pend_ok (tx_enter i s z) = pend_ok z" "pend_ok (set_tx_timer i t z) = pend_ok z"
  "pend_ok (call_client c s' e z) = pend_ok z" "pend_ok (tx_set_done i z) = pend_ok z" "pend_ok (tx_set_fail i z) = pend_ok z"
  "pend_ok (tx_fail_code i k z) = pend_ok z"
  by (simp_all add: pend_ok_def tx_enter_def set_tx_timer_def call_client_def tx_set_done_def tx_set_fail_def tx_fail_code_def tx_end_def Let_def
      split: option.split)

lemma pend_encrypt: "encrypt_msg i pass2 z = Some (len, z') \<Longrightarrow> pend_ok z \<Longrightarrow> pend_ok z'"
  unfolding encrypt_msg_split by (auto simp: pend_ok_def issue_nonce_def split: option.splits prod.splits)

lemma pend_send_enc:
  assumes "tx_send_enc i pass2 z = Some z'" "pend_ok z" "i < NUM_TX_SESSIONS"
  shows "pend_ok z'"
  using assms by (auto simp: tx_send_enc_def split: option.splits prod.splits if_splits dest!: pend_encrypt pend_send)

lemma pend_state_set:
  assumes "tx_session_state_set i s z = Some z'" "pend_ok z" "i < NUM_TX_SESSIONS"
  shows "pend_ok z'"
  using assms by (cases s) (auto simp: tx_session_state_set_def Let_def split: prod.splits if_splits dest!: pend_send pend_send_enc)

lemma pend_callback:
  assumes "s0_callback cb status t z = Some z'" "pend_ok z" "cb_session cb < NUM_TX_SESSIONS"
  shows "pend_ok z'"
  using assms by (cases cb) (auto simp: noce_get_callback_def msg1_callback_def msg2_callback_def Let_def split: if_splits dest!: pend_state_set)

definition wait_inv :: "s0 \<Rightarrow> bool" where
  "wait_inv z \<longleftrightarrow> all_wait z \<and> pend_ok z"

lemma wait_view_inv: "wait_view z' = wait_view z \<Longrightarrow> wait_inv z \<Longrightarrow> wait_inv z'"
  using wait_view_keep [of z' z] by (simp add: wait_inv_def wait_view_def pend_ok_def)

lemma pend_request:
  assumes "sec0_send_data p d len cb z = Some (ok, z')" "pend_ok z" "length (tx_sessions z) = NUM_TX_SESSIONS"
  shows "pend_ok z'"
proof -
  have "pend_ok (z\<lparr>s0_seq := a\<rparr>)" "pend_ok (y\<lparr>s0_accepted := b\<rparr>) = pend_ok y" for a b y using assms(2) by (simp_all add: pend_ok_def)
  moreover have "find_index P (tx_sessions z) = Some i \<Longrightarrow> i < NUM_TX_SESSIONS" for P i using assms(3) by (auto dest: find_index_Some)
  ultimately show ?thesis using assms(1,2)
    by (auto simp: sec0_send_data_def get_seq_def Let_def split: option.splits dest!: pend_state_set)
qed

lemma pend_register:
  assumes "sec0_register_nonce src dst n z = Some z'" "pend_ok z" "length (tx_sessions z) = NUM_TX_SESSIONS"
  shows "pend_ok z'"
proof -
  have "pend_ok ((issue_nonce src dst False n z)\<lparr>nonce_blacklist := bl, blacklist_next_elem := k\<rparr>)" for bl k
    using assms(2) by (simp add: pend_ok_def issue_nonce_def)
  moreover have "get_tx_session_by_node dst src z = Some i \<Longrightarrow> i < NUM_TX_SESSIONS" for i
    using assms(3) by (auto simp: get_tx_session_by_node_def dest: find_index_Some)
  ultimately show ?thesis using assms(1,2)
    by (auto simp: sec0_register_nonce_def Let_def split: option.splits prod.splits if_splits dest: pend_state_set)
qed

text \<open>
  Outside learn mode the timer is started by the callback of the nonce request; until then the session has none.
\<close>

definition untimed_nonce_request :: "s0 \<Rightarrow> bool" where
  "untimed_nonce_request z \<longleftrightarrow>
     (\<exists>s \<in> set (tx_sessions z). dnode (s_param s) \<noteq> 0 \<and> s_state s = NONCE_GET \<and> s_timer s = None)"

lemma learn_wait:
  assumes "all_wait z" "b \<longrightarrow> \<not> untimed_nonce_request z"
  shows "all_wait (z\<lparr>secure_learn_active := b\<rparr>)"
  unfolding all_wait_def
proof (intro conjI allI impI)
  show len: "length (tx_sessions (z\<lparr>secure_learn_active := b\<rparr>)) = NUM_TX_SESSIONS" using assms(1) by (simp add: all_wait_def)
  fix j assume j: "j < NUM_TX_SESSIONS"
  then have "waits j z" "tx_sessions z ! j \<in> set (tx_sessions z)" using assms(1) by (simp_all add: all_wait_def)
  then show "waits j (z\<lparr>secure_learn_active := b\<rparr>)"
    using assms(2) by (auto simp: waits_def session_waits_def untimed_nonce_request_def split: tx_state.splits)
qed

lemma wait_inv_step:
  assumes "s0_step nt e z = Some z'" "wait_inv z" "e = Learn True \<longrightarrow> \<not> untimed_nonce_request z"
  shows "wait_inv z'"
proof (cases e)
  case (Sent cb s t)
  have "pend_ok (z\<lparr>s0_pending := remove1 cb (s0_pending z)\<rparr>)"
    using assms(2) by (auto simp: wait_inv_def pend_ok_def dest: set_remove1_subset [THEN subsetD])
  moreover have "cb \<in> set (s0_pending z) \<Longrightarrow> cb_session cb < NUM_TX_SESSIONS" using assms(2) by (simp add: wait_inv_def pend_ok_def)
  ultimately show ?thesis using assms(1,2) Sent
    by (auto simp: wait_inv_def split: if_splits dest: callback_wait pend_callback)
next
  case (Tx_timer i)
  have "others_wait i z" if "i < length (tx_sessions z)" using that assms(2) by (auto simp: wait_inv_def all_wait_def intro: all_wait_other)
  then show ?thesis using assms Tx_timer by (auto simp: wait_inv_def tx_timeout_def tx_final_wait(3) split: if_splits)
next
  case (Request p d len cb)
  then show ?thesis using assms(1,2) by (auto simp: wait_inv_def all_wait_def [of z] dest: request_wait pend_request)
next
  case (Nonce_report src dst n)
  then show ?thesis using assms(1,2) by (auto simp: wait_inv_def all_wait_def [of z] dest: register_wait pend_register)
next
  case (Message sn dn f)
  then show ?thesis using assms by (auto dest!: decrypt_wait elim: wait_view_inv)
next
  case (Nonce_request a b)
  then show ?thesis using assms by (auto dest!: send_nonce_wait elim: wait_view_inv)
next
  case Init
  then show ?thesis using assms
    by (auto simp: wait_inv_def pend_ok_def sec0_init_def all_wait_def waits_def session_waits_def no_tx_session_def no_ts_param_def)
next
  case Abort_all
  have "pend_ok (sec0_abort_all_tx_sessions z) = pend_ok z" by (simp add: sec0_abort_all_tx_sessions_def upt_rec)
  then show ?thesis using Abort_all assms by (auto simp: wait_inv_def abort_wait)
next
  case (Learn b)
  then show ?thesis using assms learn_wait [of z b] by (auto simp: wait_inv_def pend_ok_def)
qed (use assms in \<open>auto simp: nonce_timer_timeout_def sec0_reset_netkey_def wait_view_def split: if_splits prod.splits
    intro: wait_view_inv [OF _ assms(2)]\<close>)

section \<open>Progress\<close>

primrec stage :: "tx_state \<Rightarrow> nat" where
  "stage NONCE_GET = 0"
| "stage NONCE_GET_SENT = 1"
| "stage ENC_MSG = 2"
| "stage ENC_MSG_SENT = 3"
| "stage ENC_MSG2 = 4"
| "stage ENC_MSG2_SENT = 5"
| "stage TX_DONE = 6"
| "stage TX_FAIL = 6"

abbreviation session_stage :: "nat \<Rightarrow> s0 \<Rightarrow> nat" where
  "session_stage i z \<equiv> stage (s_state (tx_sessions z ! i))"

lemma end_stage: "i < length (tx_sessions z) \<Longrightarrow> s_state (tx_sessions (tx_end i c e z) ! i) = s_state (tx_sessions z ! i)"
  by (simp add: tx_end_def upd_tx_def call_client_def Let_def split: option.split)

lemma final_stage:
  assumes "i < length (tx_sessions z)"
  shows "s_state (tx_sessions (tx_set_done i z) ! i) = TX_DONE" "s_state (tx_sessions (tx_set_fail i z) ! i) = TX_FAIL"
    "s_state (tx_sessions (tx_fail_code i c z) ! i) = TX_FAIL"
  using assms by (simp_all add: tx_set_done_def tx_set_fail_def tx_fail_code_def Let_def end_stage tx_enter_def upd_tx_def)

lemma timer_stage: "i < length (tx_sessions z) \<Longrightarrow> s_state (tx_sessions (set_tx_timer i t z) ! i) = s_state (tx_sessions z ! i)"
  by (simp add: set_tx_timer_def upd_tx_def)

lemma length_tx [simp]: "length (tx_sessions (upd_tx i f z)) = length (tx_sessions z)" "length (tx_sessions (tx_enter i s z)) = length (tx_sessions z)"
  "length (tx_sessions (set_tx_timer i t z)) = length (tx_sessions z)"
  by (simp_all add: upd_tx_def tx_enter_def set_tx_timer_def)

lemma plain_state_set:
  assumes "i < length (tx_sessions z)" "s = NONCE_GET_SENT \<or> s = ENC_MSG_SENT \<or> s = ENC_MSG2_SENT \<or> s = TX_FAIL"
  shows "\<exists>z'. tx_session_state_set i s z = Some z' \<and> stage s \<le> session_stage i z'"
  using assms by (auto simp: tx_session_state_set_def Let_def final_stage timer_stage)

lemma waiting_progress:
  assumes "waits i z" "i < length (tx_sessions z)" "dnode (s_param (tx_sessions z ! i)) \<noteq> 0"
  shows "(\<exists>cb \<in> set (s0_pending z). \<forall>status t. \<exists>z'. s0_step nt (Sent cb status t) z = Some z' \<and> session_stage i z < session_stage i z') \<or>
    s_timer (tx_sessions z ! i) \<noteq> None \<and> (\<exists>z'. s0_step nt (Tx_timer i) z = Some z' \<and> session_stage i z < session_stage i z')"
proof -
  have timer: "\<exists>z'. s0_step nt (Tx_timer i) z = Some z' \<and> s_state (tx_sessions z' ! i) = TX_FAIL" if "s_timer (tx_sessions z ! i) \<noteq> None"
    using that assms(2) by (simp add: tx_timeout_def final_stage)
  have step_on: "\<exists>z'. tx_session_state_set i (if status = TRANSMIT_COMPLETE_OK then s else TX_FAIL) y = Some z' \<and> session_stage i z < session_stage i z'"
    if "length (tx_sessions y) = length (tx_sessions z)" "s = NONCE_GET_SENT \<or> s = ENC_MSG_SENT \<or> s = ENC_MSG2_SENT"
      "session_stage i z < stage s" for y s status
    using that assms(2) plain_state_set [of i y s] plain_state_set [of i y TX_FAIL] by (cases s) fastforce+
  show ?thesis
  proof (cases "s_state (tx_sessions z ! i)")
    case NONCE_GET
    then have "noce_get_cb i \<in> set (s0_pending z)" using assms by (simp add: waits_def session_waits_def)
    moreover have "\<exists>z'. s0_step nt (Sent (noce_get_cb i) status t) z = Some z' \<and> session_stage i z < session_stage i z'" for status t
      using step_on [of "upd_tx i (\<lambda>s. s\<lparr>s_tx_code := status\<rparr>) (z\<lparr>s0_pending := remove1 (noce_get_cb i) (s0_pending z)\<rparr>)" NONCE_GET_SENT status]
        NONCE_GET calculation assms(2) by (simp add: noce_get_callback_def Let_def upd_tx_def)
    ultimately show ?thesis by blast
  next
    case ENC_MSG
    then have "msg1_cb i \<in> set (s0_pending z)" using assms by (simp add: waits_def session_waits_def)
    moreover have "\<exists>z'. s0_step nt (Sent (msg1_cb i) status t) z = Some z' \<and> session_stage i z < session_stage i z'" for status t
      using step_on [of "upd_tx i (\<lambda>s. store_ext status t (s\<lparr>s_tx_code := status\<rparr>)) (z\<lparr>s0_pending := remove1 (msg1_cb i) (s0_pending z)\<rparr>)" ENC_MSG_SENT status]
        ENC_MSG calculation assms(2) by (simp add: msg1_callback_def)
    ultimately show ?thesis by blast
  next
    case ENC_MSG2
    then have "msg2_cb i \<in> set (s0_pending z)" using assms by (simp add: waits_def session_waits_def)
    moreover have "\<exists>z'. s0_step nt (Sent (msg2_cb i) status t) z = Some z' \<and> session_stage i z < session_stage i z'" for status t
      using step_on [of "upd_tx i (\<lambda>s. store_ext status t (s\<lparr>s_tx_code := status\<rparr>)) (z\<lparr>s0_pending := remove1 (msg2_cb i) (s0_pending z)\<rparr>)" ENC_MSG2_SENT status]
        ENC_MSG2 calculation assms(2) by (simp add: msg2_callback_def)
    ultimately show ?thesis by blast
  qed (use assms timer in \<open>auto simp: waits_def session_waits_def\<close>)
qed

lemma wait_inv_start: "wait_inv ((s0_start ext)\<lparr>secure_learn_active := b\<rparr>)"
  by (auto simp: wait_inv_def all_wait_def waits_def session_waits_def pend_ok_def s0_start_def no_tx_session_def no_ts_param_def nth_Cons'
      numeral_2_eq_2)

lemma s0_run_append: "s0_run nt (es @ fs) z = Option.bind (s0_run nt es z) (s0_run nt fs)"
  by (induction es arbitrary: z) (simp_all split: Option.bind_split)

lemma wait_inv_run:
  assumes "s0_run nt es z0 = Some z" "wait_inv z0"
    and "\<And>es1 es2 y. es = es1 @ Learn True # es2 \<Longrightarrow> s0_run nt es1 z0 = Some y \<Longrightarrow> \<not> untimed_nonce_request y"
  shows "wait_inv z"
  using assms(1,3)
proof (induction es arbitrary: z rule: rev_induct)
  case (snoc e es)
  then obtain y where y: "s0_run nt es z0 = Some y" "s0_step nt e y = Some z"
    by (auto simp: s0_run_append bind_eq_Some_conv)
  from y(1) have "wait_inv y" by (rule snoc.IH) (use snoc.prems(2) in force)
  with y show ?case using snoc.prems(2) [of es "[]" y] by (intro wait_inv_step [OF y(2)]) auto
qed (use assms(2) in simp)

text \<open>
  C24. No transmit session of Security 0 is stuck, unless learn mode begins at the wrong moment. Take any run
  in which, whenever learn mode is switched on, no session waits for the callback of its nonce request
  without a timer; switching it off, or on at any other time, is not restricted. In every state of such a run a
  session in use has a callback of \<open>send_data\<close> outstanding or its timer running, and
  whatever that callback reports, or the timer, moves the session to a later state; there are seven. Otherwise
  a session can hang: when learn mode begins after a nonce request was handed to the radio and before its
  callback, the session is left in \<open>NONCE_GET_SENT\<close> with no callback outstanding and no timer, so that a
  lost nonce report blocks the node for good.
\<close>

theorem s0_session_progress:
  assumes "s0_run nt es ((s0_start ext)\<lparr>secure_learn_active := b\<rparr>) = Some z"
    "\<forall>es1 es2 y. es = es1 @ Learn True # es2 \<longrightarrow> s0_run nt es1 ((s0_start ext)\<lparr>secure_learn_active := b\<rparr>) = Some y \<longrightarrow>
       \<not> untimed_nonce_request y"
    "i < NUM_TX_SESSIONS" "dnode (s_param (tx_sessions z ! i)) \<noteq> 0"
  shows "((\<exists>cb \<in> set (s0_pending z). \<forall>status t. \<exists>z'. s0_step nt (Sent cb status t) z = Some z' \<and> session_stage i z < session_stage i z') \<or>
      s_timer (tx_sessions z ! i) \<noteq> None \<and> (\<exists>z'. s0_step nt (Tx_timer i) z = Some z' \<and> session_stage i z < session_stage i z')) \<and>
    (\<forall>p d len cb. (ucast (dnode p) :: byte) \<noteq> 0 \<longrightarrow>
      (\<exists>y. s0_run nt [Request p d len cb, Learn True, Sent (noce_get_cb 0) TRANSMIT_COMPLETE_OK None] (s0_start ext) = Some y \<and>
        dnode (s_param (tx_sessions y ! 0)) = dnode p \<and> s_state (tx_sessions y ! 0) = NONCE_GET_SENT \<and>
        s_timer (tx_sessions y ! 0) = None \<and> s0_pending y = []))"
proof
  have "wait_inv z"
    by (rule wait_inv_run [OF assms(1) wait_inv_start]) (use assms(2) in blast)
  then show "(\<exists>cb \<in> set (s0_pending z). \<forall>status t. \<exists>z'. s0_step nt (Sent cb status t) z = Some z' \<and> session_stage i z < session_stage i z') \<or>
      s_timer (tx_sessions z ! i) \<noteq> None \<and> (\<exists>z'. s0_step nt (Tx_timer i) z = Some z' \<and> session_stage i z < session_stage i z')"
    using assms(3,4) by (intro waiting_progress) (simp_all add: wait_inv_def all_wait_def)
next
  show "\<forall>p d len cb. (ucast (dnode p) :: byte) \<noteq> 0 \<longrightarrow>
      (\<exists>y. s0_run nt [Request p d len cb, Learn True, Sent (noce_get_cb 0) TRANSMIT_COMPLETE_OK None] (s0_start ext) = Some y \<and>
        dnode (s_param (tx_sessions y ! 0)) = dnode p \<and> s_state (tx_sessions y ! 0) = NONCE_GET_SENT \<and>
        s_timer (tx_sessions y ! 0) = None \<and> s0_pending y = [])"
    by (auto simp: s0_start_def no_tx_session_def no_ts_param_def sec0_send_data_def get_tx_session_by_node_def get_seq_def upd_tx_def
        tx_session_state_set_def tx_enter_def s0_send_data_def Let_def noce_get_callback_def numeral_2_eq_2 ucast_byte_zero split: option.split)
qed

text \<open>A session that is opened in learn mode and waits for the callback of its nonce request after learn mode ended.\<close>

theorem s0_session_progress_witness:
  "\<exists>z. s0_run demo_net [Learn True, Request demo_param [0x25, 0x02] 2 (Some 7), Learn False] ((s0_start [])\<lparr>secure_learn_active := False\<rparr>) = Some z \<and>
     dnode (s_param (tx_sessions z ! 0)) = 5 \<and>
     ((\<exists>cb \<in> set (s0_pending z). \<forall>status t. \<exists>z'. s0_step demo_net (Sent cb status t) z = Some z' \<and> session_stage 0 z < session_stage 0 z') \<or>
      s_timer (tx_sessions z ! 0) \<noteq> None \<and> (\<exists>z'. s0_step demo_net (Tx_timer 0) z = Some z' \<and> session_stage 0 z < session_stage 0 z'))"
proof -
  let ?es = "[Learn True, Request demo_param [0x25, 0x02] 2 (Some 7), Learn False]"
  let ?z0 = "(s0_start [])\<lparr>secure_learn_active := False\<rparr>"
  have "case s0_run demo_net ?es ?z0 of None \<Rightarrow> False | Some z \<Rightarrow> dnode (s_param (tx_sessions z ! 0)) = 5"
    by code_simp
  then obtain z where z: "s0_run demo_net ?es ?z0 = Some z" "dnode (s_param (tx_sessions z ! 0)) = 5"
    by (auto split: option.splits)
  have "\<not> untimed_nonce_request ?z0"
    by (simp add: untimed_nonce_request_def s0_start_def no_tx_session_def no_ts_param_def)
  then have "\<forall>es1 es2 y. ?es = es1 @ Learn True # es2 \<longrightarrow> s0_run demo_net es1 ?z0 = Some y \<longrightarrow> \<not> untimed_nonce_request y"
    by (auto simp: Cons_eq_append_conv)
  with z s0_session_progress [OF z(1), of 0] show ?thesis by (intro exI [of _ z]) simp
qed

end
