(* ===== verification/S0_Secure.thy ===== *)
theory S0_Secure
  imports S0_Live
begin

text \<open>
  Two gateways that run Security 0 with the same network key: what one sends the other receives, in one
  frame or in two. Then the limits of the receiver, whose buffers are written before a frame is known to be
  authentic, and those of the sender, which looks for the key-set command in every part of a message.
\<close>

section \<open>Nonces\<close>

lemma fresh_nonce_result:
  assumes "fresh_nonce t src dst prng = Some (n, p)" "length prng = 16"
  shows "length n = 8 \<and> length p = 16 \<and> get_nonce src dst (n ! 0) False t = None"
proof -
  let ?P = "\<lambda>t src dst prng r. length prng = 16 \<longrightarrow>
    length (fst r) = 8 \<and> length (snd r) = 16 \<and> get_nonce src dst (fst r ! 0) False t = (None :: buffer option)"
  have "?P t src dst prng (n, p)"
  proof (rule fresh_nonce.raw_induct [OF _ assms(1), where P = ?P])
    fix f t src dst and prng :: buffer and r
    assume ih: "\<And>t src dst prng r. f t src dst prng = Some r \<Longrightarrow> ?P t src dst prng r"
      and body: "(case PRNGOutput SerialAPI_AES128_Encrypt prng of (nonce, prng) \<Rightarrow>
        if get_nonce src dst (nonce ! 0) False t \<noteq> None then f t src dst prng else Some (nonce, prng)) = Some r"
    show "?P t src dst prng r"
      using body rj.length_PRNGOutput [of prng] by (auto simp: case_prod_unfold split: if_splits dest!: ih)
  qed
  then show ?thesis using assms(2) by simp
qed

definition free_slots :: "nonce_t list \<Rightarrow> nat" where
  "free_slots t = length (filter (\<lambda>e. n_timeout e = 0) t)"

definition no_nonce :: "byte \<Rightarrow> byte \<Rightarrow> nonce_t list \<Rightarrow> bool" where
  "no_nonce src dst t \<longleftrightarrow> (\<forall>e \<in> set t. 0 < n_timeout e \<longrightarrow> n_src e \<noteq> src \<or> n_dst e \<noteq> dst)"

lemma no_nonce_live: "no_nonce src dst t \<longleftrightarrow> (\<forall>n. (src, dst, n) \<notin># live_nonces t)"
  by (auto simp: no_nonce_def live_nonces_iff)

lemma free_slots_update:
  "i < length t \<Longrightarrow> free_slots (t[i := e]) + of_bool (n_timeout (t ! i) = 0) = free_slots t + of_bool (n_timeout e = 0)"
proof (induction t arbitrary: i)
  case (Cons x t)
  then show ?case by (cases i) (auto simp: free_slots_def)
qed simp

lemma register_slots: "free_slots t \<le> Suc (free_slots (snd (register_nonce src dst r n t)))"
proof -
  have "free_slots t \<le> Suc (free_slots (t[i := e]))" for i e
    using free_slots_update [of i t e] by (cases "i < length t") (auto simp: of_bool_def list_update_beyond linorder_not_less split: if_splits)
  then show ?thesis by (auto simp: register_nonce_def split: option.splits)
qed

text \<open>A nonce that is not a reply nonce, entered in a table that has room and no nonce for the two nodes.\<close>

lemma find_update_only:
  "i < length xs \<Longrightarrow> \<forall>x \<in> set xs. \<not> P x \<Longrightarrow> find P (xs[i := y]) = (if P y then Some y else None)"
proof (induction xs arbitrary: i)
  case (Cons x xs)
  then show ?case by (cases i) (auto simp: find_None_iff)
qed simp

lemma register_fresh:
  fixes n :: buffer
  assumes "0 < free_slots t" "no_nonce src dst t"
  defines "t' \<equiv> snd (register_nonce src dst False n t)"
  shows "get_nonce src dst ri a t' = (if a \<or> take 8 n ! 0 = ri then Some (take 8 n) else None)"
    "free_slots (nonce_clear src dst t') = free_slots t" "no_nonce src dst (nonce_clear src dst t')"
proof -
  have "\<exists>e \<in> set t. n_timeout e = 0" using assms(1) by (auto simp: free_slots_def filter_empty_conv)
  then obtain i where i: "find_index (\<lambda>e. n_timeout e = 0) t = Some i" by (auto simp: find_index_ex [symmetric])
  define e where "e = \<lparr>n_src = src, n_dst = dst, n_timeout = 10, reply_nonce = False, n_nonce = take 8 n\<rparr>"
  have t': "t' = t[i := e]" by (simp add: t'_def register_nonce_def i e_def)
  have l: "i < length t" "n_timeout (t ! i) = 0" using find_index_Some [OF i] by simp_all
  have c: "nonce_clear src dst t' = t[i := e\<lparr>n_timeout := 0\<rparr>]"
    unfolding t' nonce_clear_def map_update using assms(2)
    by (auto simp: e_def no_nonce_def word_gt_0 intro!: arg_cong2 [where f = "\<lambda>xs y. xs[i := y]"] map_idI)
  show "get_nonce src dst ri a t' = (if a \<or> take 8 n ! 0 = ri then Some (take 8 n) else None)"
    unfolding t' get_nonce_def using assms(2) by (subst find_update_only [OF l(1)]) (auto simp: no_nonce_def e_def)
  show "free_slots (nonce_clear src dst t') = free_slots t" unfolding c using free_slots_update [OF l(1), of "e\<lparr>n_timeout := 0\<rparr>"] l(2) by simp
  show "no_nonce src dst (nonce_clear src dst t')" by (simp add: no_nonce_live nonce_clear_none)
qed

lemma register_other:
  assumes "no_nonce src dst t" "(src', dst') \<noteq> (src, dst)"
  shows "no_nonce src dst (snd (register_nonce src' dst' r n t))"
proof -
  have "no_nonce src dst (t[i := e])" if "n_src e \<noteq> src \<or> n_dst e \<noteq> dst" for i e
    using assms(1) that by (auto simp: no_nonce_def dest!: set_update_subset_insert [THEN subsetD])
  moreover have "n_src (t ! i) \<noteq> src \<or> n_dst (t ! i) \<noteq> dst"
    if "find_index (\<lambda>e. reply_nonce e \<and> 0 < n_timeout e \<and> n_src e = src' \<and> n_dst e = dst') t = Some i" for i
    using find_index_Some [OF that] assms(2) by auto
  ultimately show ?thesis using assms by (simp add: register_nonce_def split: option.split)
qed

section \<open>Frames\<close>

definition keys_ok :: "s0_keys \<Rightarrow> bool" where
  "keys_ok ks \<longleftrightarrow> length (enckey ks) = 16 \<and> length (authkey ks) = 16"

lemma s0_frame_parts:
  fixes sh sn dn :: byte and plain :: buffer
  assumes "length nonce = 8" "length rnonce = 8" "keys_ok ks"
  defines "f \<equiv> s0_frame (enckey ks) (authkey ks) (nonce @ rnonce) sh sn dn plain"
  shows "length f = 19 + length plain" "f ! (length f - 9) = rnonce ! 0" "tag_ok ks sn dn rnonce f"
    "auth_part sn dn f = [sh, sn, dn, of_nat (length plain)] @ aes_ofb SerialAPI_AES128_Encrypt (enckey ks) (nonce @ rnonce) plain"
    "\<exists>tail. plain_part ks rnonce f = plain @ tail"
proof -
  define c where "c = aes_ofb SerialAPI_AES128_Encrypt (enckey ks) (nonce @ rnonce) plain"
  define m where "m = take 8 (aes_cbc_mac SerialAPI_AES128_Encrypt (authkey ks) (nonce @ rnonce) ([sh, sn, dn, of_nat (length plain)] @ c))"
  have f: "f = COMMAND_CLASS_SECURITY # sh # nonce @ c @ [rnonce ! 0] @ m"
    using assms(1) by (simp add: f_def s0_frame_def Let_def c_def m_def nth_append)
  have l: "length c = length plain" "length m = 8"
    using assms by (simp_all add: c_def m_def rj.length_aes_cbc_mac keys_ok_def)
  show n: "length f = 19 + length plain" using l assms(1) by (simp add: f)
  have parts: "f ! 1 = sh" "take 8 (drop 2 f) = nonce" "take (length plain) (drop 10 f) = c"
    using l assms(1) by (simp_all add: f numeral_eq_Suc)
  show "f ! (length f - 9) = rnonce ! 0" using l assms(1) by (simp add: n f nth_append)
  show a: "auth_part sn dn f = [sh, sn, dn, of_nat (length plain)] @ c" using parts by (simp add: auth_part_def n)
  have "f = (COMMAND_CLASS_SECURITY # sh # nonce @ c @ [rnonce ! 0]) @ m" by (simp add: f)
  then have "drop (length f - 8) f = m" using l assms(1) n by (metis add_diff_cancel_right' append_eq_conv_conj length_append)
  then show "tag_ok ks sn dn rnonce f" unfolding tag_ok_def a parts(2) by (simp add: m_def)
  show "\<exists>tail. plain_part ks rnonce f = plain @ tail"
    using parts by (simp add: plain_part_def n c_def)
qed

section \<open>Receiving a frame\<close>

lemma decrypt_frame:
  fixes sh sn dn flags :: byte and body :: buffer
  assumes "length nonce = 8" "length rnonce = 8" "keys_ok (s0_keys y)" "length dec = 64" "length body \<le> 26"
    "get_nonce dn sn (rnonce ! 0) False (nonce_table y) = Some rnonce"
    "rx_session_for sn dn (y\<lparr>nonce_table := nonce_clear dn sn (nonce_table y)\<rparr>) = (Some k, y')"
  defines "f \<equiv> s0_frame (enckey (s0_keys y)) (authkey (s0_keys y)) (nonce @ rnonce) sh sn dn (flags # body)"
  shows "\<exists>d tail. length d = 64 \<and> sec0_decrypt_message sn dn f dec y =
    rx_payload k (20 + length body) (flags # body @ tail) d (y'\<lparr>s0_verified := s0_verified y' @ [(dn, sn, rnonce)]\<rparr>)"
proof -
  note f = s0_frame_parts [OF assms(1-3), where sh = sh and sn = sn and dn = dn and plain = "flags # body", folded f_def]
  obtain tail where tail: "plain_part (s0_keys y) rnonce f = flags # body @ tail" using f(5) by auto
  have "length (auth_part sn dn f) \<le> length dec" using assms(4,5) by (simp add: f(4))
  then obtain d where d: "store_at 0 (auth_part sn dn f) dec = Some d" using store_at_Some_iff [of 0 _ dec] by auto
  have k: "s0_keys y' = s0_keys y"
    using assms(7) by (auto simp: rx_session_for_def new_rx_session_def upd_rx_def split: option.splits prod.splits)
  have "length d = 64" using store_at_length [OF d] assms(4) by simp
  moreover have "sec0_decrypt_message sn dn f dec y =
    rx_payload k (20 + length body) (flags # body @ tail) d (y'\<lparr>s0_verified := s0_verified y' @ [(dn, sn, rnonce)]\<rparr>)"
    using f(1-3) tail d k assms(6,7) by (simp add: decrypt_split)
  ultimately show ?thesis by blast
qed

lemma flag_bits:
  fixes s :: byte
  shows "(SEQUENCED_BIT_MASK OR (s AND 0xF)) AND SEQUENCED_BIT_MASK \<noteq> 0" "(SEQUENCED_BIT_MASK OR (s AND 0xF)) AND SECOND_FRAME_BIT_MASK = 0"
    "(SEQUENCED_BIT_MASK OR SECOND_FRAME_BIT_MASK OR (s AND 0xF)) AND SEQUENCED_BIT_MASK \<noteq> 0"
    "(SEQUENCED_BIT_MASK OR SECOND_FRAME_BIT_MASK OR (s AND 0xF)) AND SECOND_FRAME_BIT_MASK \<noteq> 0"
    "(SEQUENCED_BIT_MASK OR (s AND 0xF)) AND 0xF = s AND 0xF"
    "(SEQUENCED_BIT_MASK OR SECOND_FRAME_BIT_MASK OR (s AND 0xF)) AND 0xF = s AND 0xF"
  by (simp_all add: bit.conj_disj_distrib2 and.assoc)

lemma payload_single:
  assumes "length d = 64" "length body \<le> 64"
  shows "\<exists>d'. rx_payload k (20 + length body) (0 # body @ tail) d y = Some (length body, d', free_rx_session k y) \<and>
    take (length body) d' = body"
proof -
  obtain d' where "store_at 0 body d = Some d'" using assms store_at_Some_iff [of 0 body d] by auto
  then show ?thesis using store_at_read_back [of 0 body d d'] by (simp add: rx_payload_def Let_def)
qed

lemma payload_first:
  assumes "length (r_msg (rxsessions y ! k)) = 128" "length body \<le> 128" "k < length (rxsessions y)"
    "flags AND SEQUENCED_BIT_MASK \<noteq> 0" "flags AND SECOND_FRAME_BIT_MASK = 0"
  shows "\<exists>m. take (length body) m = body \<and> length m = 128 \<and>
    rx_payload k (20 + length body) (flags # body @ tail) d y =
      Some (0, d, upd_rx k (\<lambda>e. e\<lparr>r_state := RX_ENC1, r_seq_nr := flags AND 0xF, r_msg := m, r_msg_len := length body\<rparr>) y)"
proof -
  have b: "map (rd (body @ tail)) [0..<length body] = body"
    by (rule nth_equalityI) (simp_all add: rd_def nth_append)
  obtain m where m: "store_at 0 body (r_msg (rxsessions y ! k)) = Some m"
    using assms(1,2) store_at_Some_iff [of 0 body "r_msg (rxsessions y ! k)"] by auto
  show ?thesis
    using m b assms store_at_read_back [OF m] store_at_length [OF m] by (auto simp: rx_payload_def Let_def)
qed

lemma payload_second:
  assumes "length d = 64" "r_state (rxsessions y ! k) = RX_ENC1" "r_seq_nr (rxsessions y ! k) = flags AND 0xF"
    "take (r_msg_len (rxsessions y ! k)) (r_msg (rxsessions y ! k)) = body1" "r_msg_len (rxsessions y ! k) = length body1"
    "length body1 + length body \<le> 64" "flags AND SEQUENCED_BIT_MASK \<noteq> 0" "flags AND SECOND_FRAME_BIT_MASK \<noteq> 0"
  shows "\<exists>d'. rx_payload k (20 + length body) (flags # body @ tail) d y = Some (length body1 + length body, d', free_rx_session k y) \<and>
    take (length body1 + length body) d' = body1 @ body"
proof -
  obtain d1 where d1: "store_at 0 body1 d = Some d1" using assms store_at_Some_iff [of 0 body1 d] by auto
  have l: "length d1 = 64" using store_at_length [OF d1] assms(1) by simp
  obtain d2 where d2: "store_at (length body1) body d1 = Some d2" using assms(6) l store_at_Some_iff [of "length body1" body d1] by auto
  have "d1 = body1 @ drop (length body1) d" "d2 = take (length body1) d1 @ body @ drop (length body1 + length body) d1"
    using d1 d2 by (auto simp: store_at_def split: if_splits)
  then have "take (length body1 + length body) d2 = body1 @ body" by simp
  then show ?thesis using d1 d2 assms by (simp add: rx_payload_def Let_def)
qed

section \<open>Sending a frame\<close>

definition key_set_at :: "buffer \<Rightarrow> bool" where
  "key_set_at d \<longleftrightarrow> rd d 0 = COMMAND_CLASS_SECURITY \<and> rd d 1 = NETWORK_KEY_SET"

lemma frame_part_simp: "frame_part s = (if 26 < s_data_len s then (26, True) else (s_data_len s, False))"
  by (simp add: frame_part_def get_node_max_frame_size_def Let_def)

lemma next_frame_plain:
  assumes "\<not> key_set_at (s_data s)" "s_data s = msg @ rest" "s_data_len s = length msg"
  shows "next_frame ks pass2 iv s = s0_frame (enckey ks) (authkey ks) iv
    (if 26 < length msg then SECURITY_MESSAGE_ENCAPSULATION_NONCE_GET else SECURITY_MESSAGE_ENCAPSULATION)
    (ucast (snode (s_param s))) (ucast (dnode (s_param s))) (enc_flags pass2 (26 < length msg) (s_seq s) # take 26 msg)"
proof -
  have "map (rd (msg @ rest)) [0..<n] = take n msg" if "n \<le> length msg" for n
    using that by (intro nth_equalityI) (simp_all add: rd_def nth_append)
  then show ?thesis using assms by (auto simp: next_frame_def frame_part_simp key_set_at_def Let_def)
qed

definition session_of :: "nat \<Rightarrow> byte \<Rightarrow> byte \<Rightarrow> s0 \<Rightarrow> bool" where
  "session_of i a b z \<longleftrightarrow> get_tx_session_by_node a b z = Some i"

lemma session_of_param:
  assumes "session_of i a b z"
  shows "i < length (tx_sessions z)" "snode (s_param (tx_sessions z ! i)) = ucast a" "dnode (s_param (tx_sessions z ! i)) = ucast b"
  using assms by (auto simp: session_of_def get_tx_session_by_node_def dest: find_index_Some)

lemma ucast_byte_back [simp]: "(ucast (ucast (b :: byte) :: u16) :: byte) = b"
  by (rule bit_word_eqI) (simp add: bit_simps)

section \<open>One exchange of a nonce and a frame\<close>

text \<open>The receiver \<open>y\<close> of node \<open>b\<close> sends a nonce.\<close>

lemma send_nonce_ok:
  assumes "sec0_send_nonce nt dst0 q y = Some y1" "snode q = ucast a" "dnode q = ucast b" "length (prngState y) = 16" "s0_radio y = []"
    "no_nonce b a (nonce_table y)" "0 < free_slots (nonce_table y)"
  obtains n p where "length n = 8" "fst (snd (last (s0_sent y1))) = [COMMAND_CLASS_SECURITY, SECURITY_NONCE_REPORT] @ n"
    "get_nonce b a (n ! 0) False (nonce_table y1) = Some n" "s0_keys y1 = s0_keys y" "rxsessions y1 = rxsessions y" "s0_clock y1 = s0_clock y"
    "length (prngState y1) = 16" "s0_radio y1 = []" "no_nonce b a (nonce_clear b a (nonce_table y1))"
    "free_slots (nonce_clear b a (nonce_table y1)) = free_slots (nonce_table y)"
proof -
  obtain n p where f: "fresh_nonce (nonce_table y) b a (prngState y) = Some (n, p)"
    using assms(1-3) by (auto simp: sec0_send_nonce_def split: option.splits)
  note r = fresh_nonce_result [OF f assms(4)]
  have "y1 = issue_nonce b a False n (y\<lparr>prngState := p, s0_radio := [],
      s0_sent := s0_sent y @ [(ts_param_make_reply nt dst0 q, [COMMAND_CLASS_SECURITY, SECURITY_NONCE_REPORT] @ n, None)]\<rparr>)"
    using assms(1-3,5) f by (simp add: sec0_send_nonce_def s0_send_data_def Let_def)
  then show ?thesis using r assms(5) register_fresh [OF assms(7,6), where n = n] by (intro that [of n]) (simp_all add: issue_nonce_def)
qed

text \<open>The session of the sender \<open>z\<close> gets the nonce.\<close>

definition awaits_nonce :: "bool \<Rightarrow> sec_tx_session \<Rightarrow> bool" where
  "awaits_nonce pass2 s \<longleftrightarrow>
     (if pass2 then s_state s = ENC_MSG_SENT \<or> s_state s = ENC_MSG \<and> 0 < s_data_len s
      else s_state s = NONCE_GET_SENT \<or> s_state s = NONCE_GET)"

lemma next_frame_cong: "s_data s = s_data s' \<Longrightarrow> s_data_len s = s_data_len s' \<Longrightarrow> s_param s = s_param s' \<Longrightarrow> s_seq s = s_seq s' \<Longrightarrow>
    next_frame ks p iv s = next_frame ks p iv s'"
  by (simp add: next_frame_def frame_part_simp Let_def)

lemma issue_tx [simp]: "tx_sessions (issue_nonce c d r n z) = tx_sessions z"
  by (simp add: issue_nonce_def)

lemma length_next_frame:
  assumes "length nonce = 8" "length rnonce = 8" "keys_ok ks" "length (enckeyz ks) = 16" "length (authkeyz ks) = 16"
  shows "length (next_frame ks pass2 (nonce @ rnonce) s) = fst (frame_part s) + 20"
proof -
  have "length (s0_frame e k (nonce @ rnonce) sh sn dn plain) = 19 + length plain" if "length k = 16" for e k sh sn dn plain
    using that assms(1,2) by (simp add: s0_frame_def Let_def rj.length_aes_cbc_mac)
  then show ?thesis using assms by (simp add: next_frame_def keys_ok_def Let_def split: prod.split)
qed

lemma register_nonce_ok:
  assumes "sec0_register_nonce b a n z = Some z1" "\<not> sec0_is_nonce_blacklisted b a n (nonce_blacklist z)" "session_of i a b z"
    "awaits_nonce pass2 (tx_sessions z ! i)" "length n = 8" "length (prngState z) = 16" "s0_radio z = []"
    "no_nonce b a (nonce_table z)" "0 < free_slots (nonce_table z)" "a \<noteq> b"
    "keys_ok (s0_keys z)" "length (enckeyz (s0_keys z)) = 16" "length (authkeyz (s0_keys z)) = 16"
  obtains nonce s1 where "length nonce = 8"
    "s0_sent z1 = s0_sent z @ [(s_param (tx_sessions z ! i), next_frame (s0_keys z) pass2 (nonce @ n) (tx_sessions z ! i), Some (if pass2 then msg2_cb i else msg1_cb i))]"
    "tx_sessions z1 ! i = s1" "s_data s1 = drop (fst (frame_part (tx_sessions z ! i))) (s_data (tx_sessions z ! i))"
    "s_data_len s1 = s_data_len (tx_sessions z ! i) - fst (frame_part (tx_sessions z ! i))"
    "s_state s1 = (if pass2 then ENC_MSG2 else ENC_MSG)" "s_seq s1 = s_seq (tx_sessions z ! i)" "session_of i a b z1"
    "s0_keys z1 = s0_keys z" "length (prngState z1) = 16" "s0_radio z1 = []" "no_nonce b a (nonce_table z1)"
    "free_slots (nonce_table z) \<le> Suc (free_slots (nonce_table z1))"
proof -
  define s where "s = tx_sessions z ! i"
  define S where "S = (if pass2 then ENC_MSG2 else ENC_MSG)"
  have i: "i < length (tx_sessions z)" and p: "ucast (snode (s_param s)) = a" "ucast (dnode (s_param s)) = b"
    using session_of_param [OF assms(3)] by (simp_all add: s_def)
  obtain bl k where bl: "sec0_blacklist_add_nonce b a n (nonce_blacklist z, blacklist_next_elem z) = (bl, k)"
    by (cases "sec0_blacklist_add_nonce b a n (nonce_blacklist z, blacklist_next_elem z)")
  define x where "x = (issue_nonce b a False n z)\<lparr>nonce_blacklist := bl, blacklist_next_elem := k\<rparr>"
  define s' where "s' = s\<lparr>s_state := S, s_transition_time := s0_clock z, s_timer := None\<rparr>"
  define w where "w = set_tx_timer i None (tx_enter i S x)"
  have x: "tx_sessions x = tx_sessions z" "s0_clock x = s0_clock z" by (simp_all add: x_def issue_nonce_def)
  have w: "tx_sessions w ! i = s'" "nonce_table w = snd (register_nonce b a False n (nonce_table z))" "prngState w = prngState z"
      "s0_keys w = s0_keys z" "s0_radio w = []" "s0_sent w = s0_sent z" "tx_sessions w = (tx_sessions z)[i := s']"
    using i x assms(7) by (simp_all add: w_def set_tx_timer_def tx_enter_def upd_tx_def s'_def s_def x_def issue_nonce_def)
  have set: "tx_send_enc i pass2 (tx_enter i S x) = Some z1"
    using assms(1-4) bl by (auto simp: sec0_register_nonce_def session_of_def awaits_nonce_def x_def [symmetric] x(1) tx_session_state_set_def
        S_def Let_def split: if_splits)
  obtain m y where e: "encrypt_msg i pass2 w = Some (m, y)"
    using set by (auto simp: tx_send_enc_def w_def [symmetric] split: option.splits)
  have ps: "ucast (snode (s_param s')) = a" "ucast (dnode (s_param s')) = b" using p by (simp_all add: s'_def)
  obtain nonce prng where f: "fresh_nonce (nonce_table w) b a (prngState w) = Some (nonce, prng)"
    using e unfolding encrypt_msg_split w(1) ps by (auto split: option.splits)
  note r = fresh_nonce_result [OF f, unfolded w(3), OF assms(6)]
  note reg = register_fresh [OF assms(9,8), where n = n, folded w(2)]
  have g: "get_nonce b a 0 True (nonce_table w) = Some n" using reg(1) [where ri = 0 and a = True] assms(5) by simp
  define frame where "frame = next_frame (s0_keys z) pass2 (nonce @ n) s'"
  define u where "u = issue_nonce a b True nonce (w\<lparr>prngState := prng, nonce_table := nonce_clear b a (nonce_table w)\<rparr>)"
  have y: "m = fst (frame_part s') + 20" "y = upd_tx i (\<lambda>_. after_frame frame s') u"
    using e unfolding encrypt_msg_split w(1) ps by (simp_all add: f g w(4) frame_def u_def)
  have fr: "frame = next_frame (s0_keys z) pass2 (nonce @ n) s" "frame_part s' = frame_part s"
    unfolding frame_def by (rule next_frame_cong) (simp_all add: s'_def frame_part_simp)
  have lf: "length frame = m" unfolding y(1) frame_def using r assms by (intro length_next_frame) simp_all
  have u: "tx_sessions u = tx_sessions w" "s0_radio u = []" "s0_sent u = s0_sent z" "s0_keys u = s0_keys z" "prngState u = prng"
      "nonce_table u = snd (register_nonce a b True nonce (nonce_clear b a (nonce_table w)))"
    using w by (simp_all add: u_def issue_nonce_def)
  have iu: "i < length (tx_sessions u)" using i by (simp add: u(1) w(7))
  have z1: "z1 = y\<lparr>s0_radio := [], s0_sent := s0_sent z @ [(s_param s, frame, Some (if pass2 then msg2_cb i else msg1_cb i))],
      s0_pending := s0_pending y @ [if pass2 then msg2_cb i else msg1_cb i]\<rparr>"
    using set e lf y(1) iu u(2,3) unfolding tx_send_enc_def w_def [symmetric]
    by (simp add: s0_send_data_def Let_def y(2) upd_tx_def after_frame_def s'_def)
  show ?thesis
  proof (rule that [of nonce "after_frame frame s'"])
    show "session_of i a b z1" using assms(3) i unfolding session_of_def get_tx_session_by_node_def
      by (simp add: z1 y(2) upd_tx_def u(1) w(7) find_index_update after_frame_def s'_def s_def)
  qed (use r iu u reg register_slots [of "nonce_clear b a (nonce_table w)" a b True nonce] assms(10) in
      \<open>simp_all add: z1 y(2) upd_tx_def after_frame_def fr s_def s'_def S_def register_other frame_part_simp\<close>)
qed

section \<open>Receive sessions\<close>

lemma find_index_first: "k < length xs \<Longrightarrow> P (xs ! k) \<Longrightarrow> \<forall>j < k. \<not> P (xs ! j) \<Longrightarrow> find_index P xs = Some k"
proof (induction xs arbitrary: k)
  case (Cons x xs)
  show ?case
  proof (cases k)
    case (Suc m)
    then have "\<not> P x" "\<forall>j < m. \<not> P (xs ! j)" using Cons.prems(3) by (force, fastforce)
    then show ?thesis using Cons Suc by simp
  qed (use Cons in simp)
qed simp

definition rx_match :: "byte \<Rightarrow> byte \<Rightarrow> u64 \<Rightarrow> rx_session_t \<Rightarrow> bool" where
  "rx_match sn dn now e \<longleftrightarrow> \<not> is_free now e \<and> r_dnode e = dn \<and> r_snode e = sn"

lemma rx_session_for_eq:
  "rx_session_for sn dn y =
     (case find_index (rx_match sn dn (s0_clock y)) (rxsessions y) of
        Some k \<Rightarrow> (Some k, y)
      | None \<Rightarrow>
         (case find_index (is_free (s0_clock y)) (rxsessions y) of
            None \<Rightarrow> (None, y)
          | Some k \<Rightarrow> (Some k, y\<lparr>rxsessions := (rxsessions y)
              [k := (rxsessions y ! k)\<lparr>r_snode := sn, r_dnode := dn, r_timeout := s0_clock y + 10000, r_state := RX_INIT\<rparr>]\<rparr>)))"
  unfolding rx_session_for_def get_rx_session_by_nodes_def new_rx_session_def rx_match_def [abs_def]
  by (auto simp: upd_rx_def split: option.splits dest!: find_index_Some)

lemma rx_session_for_found:
  assumes "rx_session_for sn dn y = (Some k, y')" "s0_clock y \<le> s0_clock y + 10000"
  obtains rs where "y' = y\<lparr>rxsessions := rs\<rparr>" "k < length rs" "length rs = length (rxsessions y)" "map r_msg rs = map r_msg (rxsessions y)"
    "rx_match sn dn (s0_clock y) (rs ! k)" "\<forall>j < k. \<not> rx_match sn dn (s0_clock y) (rs ! j)"
proof (cases "find_index (rx_match sn dn (s0_clock y)) (rxsessions y)")
  case (Some j)
  with find_index_Some [OF Some] assms(1) that [of "rxsessions y"] show ?thesis by (simp add: rx_session_for_eq)
next
  case None
  then obtain e where f: "find_index (is_free (s0_clock y)) (rxsessions y) = Some k"
      "e = (rxsessions y ! k)\<lparr>r_snode := sn, r_dnode := dn, r_timeout := s0_clock y + 10000, r_state := RX_INIT\<rparr>"
      "y' = y\<lparr>rxsessions := (rxsessions y)[k := e]\<rparr>"
    using assms(1) by (auto simp: rx_session_for_eq split: option.splits)
  have k: "k < length (rxsessions y)" using find_index_Some [OF f(1)] by simp
  have n: "\<not> rx_match sn dn (s0_clock y) (rxsessions y ! j)" if "j < length (rxsessions y)" for j
    using None that by (auto simp: find_index_None)
  have m: "map r_msg ((rxsessions y)[k := e]) = map r_msg (rxsessions y)"
    using k by (simp add: map_update f(2)) (metis list_update_id nth_map)
  have "rx_match sn dn (s0_clock y) e" using assms(2) by (simp add: f(2) rx_match_def is_free_def)
  with k n m f(3) show ?thesis by (intro that [of "(rxsessions y)[k := e]"]) auto
qed

lemma rx_session_for_same:
  assumes "rxsessions x = rxsessions y" "s0_clock x = s0_clock y"
  shows "fst (rx_session_for sn dn x) = fst (rx_session_for sn dn y)"
  using assms by (simp add: rx_session_for_eq split: option.split)

section \<open>The round trip\<close>

text \<open>A gateway \<open>z\<close> that sends for node \<open>a\<close> to node \<open>b\<close>, and a gateway \<open>y\<close> that receives for node \<open>b\<close>.\<close>

definition s0_sender :: "nat \<Rightarrow> byte \<Rightarrow> byte \<Rightarrow> s0 \<Rightarrow> bool" where
  "s0_sender i a b z \<longleftrightarrow> a \<noteq> b \<and> session_of i a b z \<and> keys_ok (s0_keys z) \<and> length (enckeyz (s0_keys z)) = 16 \<and>
     length (authkeyz (s0_keys z)) = 16 \<and> length (prngState z) = 16 \<and> s0_radio z = [] \<and>
     no_nonce b a (nonce_table z) \<and> 0 < free_slots (nonce_table z)"

definition s0_receiver :: "byte \<Rightarrow> byte \<Rightarrow> s0 \<Rightarrow> bool" where
  "s0_receiver a b y \<longleftrightarrow> length (prngState y) = 16 \<and> s0_radio y = [] \<and>
     (\<forall>e \<in> set (rxsessions y). length (r_msg e) = MAX_ENCRYPTED_MSG_SIZE) \<and>
     fst (rx_session_for a b y) \<noteq> None \<and> s0_clock y \<le> s0_clock y + 10000"

text \<open>The nonce \<open>n\<close> is in the table of the receiver, and the sender has not used it before.\<close>

definition nonce_offered :: "byte \<Rightarrow> byte \<Rightarrow> buffer \<Rightarrow> s0 \<Rightarrow> s0 \<Rightarrow> bool" where
  "nonce_offered a b n z y \<longleftrightarrow> length n = 8 \<and> get_nonce b a (n ! 0) False (nonce_table y) = Some n \<and>
     \<not> sec0_is_nonce_blacklisted b a n (nonce_blacklist z)"

definition last_frame :: "s0 \<Rightarrow> buffer" where
  "last_frame z = fst (snd (last (s0_sent z)))"

text \<open>What a session carries: the message, and no key-set command at its start.\<close>

definition carries :: "buffer \<Rightarrow> buffer \<Rightarrow> sec_tx_session \<Rightarrow> bool" where
  "carries msg rest s \<longleftrightarrow> s_data s = msg @ rest \<and> s_data_len s = length msg \<and> \<not> key_set_at (msg @ rest)"

lemma clear_frees: "get_nonce b a ri False t = Some n \<Longrightarrow> 0 < free_slots (nonce_clear b a t)"
  by (auto simp: get_nonce_def find_Some_iff free_slots_def nonce_clear_def filter_empty_conv word_gt_0 intro!: bexI [of _ "t ! _"])

definition rx_side :: "byte \<Rightarrow> byte \<Rightarrow> s0 \<Rightarrow> nat \<Rightarrow> s0 \<Rightarrow> bool" where
  "rx_side a b y k y2 \<longleftrightarrow> k < length (rxsessions y2) \<and> (\<forall>e \<in> set (rxsessions y2). length (r_msg e) = MAX_ENCRYPTED_MSG_SIZE) \<and>
     rx_match a b (s0_clock y) (rxsessions y2 ! k) \<and> (\<forall>j < k. \<not> rx_match a b (s0_clock y) (rxsessions y2 ! j)) \<and>
     s0_keys y2 = s0_keys y \<and> s0_clock y2 = s0_clock y \<and> length (prngState y2) = 16 \<and> s0_radio y2 = [] \<and>
     no_nonce b a (nonce_table y2) \<and> 0 < free_slots (nonce_table y2)"

text \<open>What the sender sends on a nonce, and what is left of the message.\<close>

lemma sender_frame:
  assumes "s0_sender i a b z" "nonce_offered a b n z y" "awaits_nonce pass2 (tx_sessions z ! i)" "carries msg rest (tx_sessions z ! i)"
    "sec0_register_nonce b a n z = Some z1"
  obtains nonce where "length nonce = 8" "last_frame z1 = s0_frame (enckey (s0_keys z)) (authkey (s0_keys z)) (nonce @ n)
      (if 26 < length msg then SECURITY_MESSAGE_ENCAPSULATION_NONCE_GET else SECURITY_MESSAGE_ENCAPSULATION) a b
      (enc_flags pass2 (26 < length msg) (s_seq (tx_sessions z ! i)) # take 26 msg)"
    "s_data (tx_sessions z1 ! i) = drop 26 msg @ rest" "s_data_len (tx_sessions z1 ! i) = length (drop 26 msg)"
    "s_state (tx_sessions z1 ! i) = (if pass2 then ENC_MSG2 else ENC_MSG)" "s_seq (tx_sessions z1 ! i) = s_seq (tx_sessions z ! i)"
    "s0_keys z1 = s0_keys z" "1 < free_slots (nonce_table z) \<Longrightarrow> s0_sender i a b z1"
proof -
  let ?s = "tx_sessions z ! i"
  have sd: "a \<noteq> b" "session_of i a b z" "keys_ok (s0_keys z)" "length (enckeyz (s0_keys z)) = 16"
      "length (authkeyz (s0_keys z)) = 16" "length (prngState z) = 16" "s0_radio z = []" "no_nonce b a (nonce_table z)" "0 < free_slots (nonce_table z)"
    using assms(1) by (simp_all add: s0_sender_def)
  have n: "length n = 8" "\<not> sec0_is_nonce_blacklisted b a n (nonce_blacklist z)" using assms(2) by (simp_all add: nonce_offered_def)
  have c: "\<not> key_set_at (s_data ?s)" "s_data ?s = msg @ rest" "s_data_len ?s = length msg" using assms(4) by (simp_all add: carries_def)
  obtain nonce s1 where z: "length nonce = 8"
    "s0_sent z1 = s0_sent z @ [(s_param ?s, next_frame (s0_keys z) pass2 (nonce @ n) ?s, Some (if pass2 then msg2_cb i else msg1_cb i))]"
    "tx_sessions z1 ! i = s1" "s_data s1 = drop (fst (frame_part ?s)) (s_data ?s)" "s_data_len s1 = s_data_len ?s - fst (frame_part ?s)"
    "s_state s1 = (if pass2 then ENC_MSG2 else ENC_MSG)" "s_seq s1 = s_seq ?s" "session_of i a b z1"
    "s0_keys z1 = s0_keys z" "length (prngState z1) = 16" "s0_radio z1 = []" "no_nonce b a (nonce_table z1)"
    "free_slots (nonce_table z) \<le> Suc (free_slots (nonce_table z1))"
    by (rule register_nonce_ok [OF assms(5) n(2) sd(2) assms(3) n(1) sd(6-9,1,3-5)])
  have "fst (frame_part ?s) = min 26 (length msg)" "drop (min 26 (length msg)) msg = drop 26 msg"
    using c(3) by (simp_all add: frame_part_simp min_def)
  then show thesis
    using z c sd next_frame_plain [OF c] session_of_param [OF sd(2)] by (intro that [of nonce]) (simp_all add: last_frame_def s0_sender_def)
qed

text \<open>What the receiver does with it.\<close>

lemma receiver_frame:
  assumes "s0_receiver a b y" "nonce_offered a b n z y" "keys_ok (s0_keys y)" "length nonce = 8" "length body \<le> 26"
    "f = s0_frame (enckey (s0_keys y)) (authkey (s0_keys y)) (nonce @ n) sh a b (flags # body)"
  obtains k d tail y2 where "length d = 64" "rx_side a b y k y2" "fst (rx_session_for a b y) = Some k"
    "find_index (rx_match a b (s0_clock y)) (rxsessions y) \<noteq> None \<Longrightarrow> rxsessions y2 = rxsessions y"
    "sec0_decrypt_message a b f (replicate 64 0) y = rx_payload k (20 + length body) (flags # body @ tail) d y2"
proof -
  have n: "length n = 8" "get_nonce b a (n ! 0) False (nonce_table y) = Some n" using assms(2) by (simp_all add: nonce_offered_def)
  define yc where "yc = y\<lparr>nonce_table := nonce_clear b a (nonce_table y)\<rparr>"
  have same: "fst (rx_session_for a b yc) = fst (rx_session_for a b y)" by (rule rx_session_for_same) (simp_all add: yc_def)
  then obtain k y' where k: "rx_session_for a b yc = (Some k, y')" using assms(1) by (cases "rx_session_for a b yc") (auto simp: s0_receiver_def)
  have c: "s0_clock yc \<le> s0_clock yc + 10000" using assms(1) by (simp add: yc_def s0_receiver_def)
  obtain rs where rs: "y' = yc\<lparr>rxsessions := rs\<rparr>" "k < length rs" "length rs = length (rxsessions yc)" "map r_msg rs = map r_msg (rxsessions yc)"
    "rx_match a b (s0_clock yc) (rs ! k)" "\<forall>j < k. \<not> rx_match a b (s0_clock yc) (rs ! j)"
    by (rule rx_session_for_found [OF k c])
  have "\<exists>d tail. length d = 64 \<and> sec0_decrypt_message a b f (replicate 64 0) y =
      rx_payload k (20 + length body) (flags # body @ tail) d (y'\<lparr>s0_verified := s0_verified y' @ [(b, a, n)]\<rparr>)"
    unfolding assms(6) by (rule decrypt_frame [OF assms(4) n(1) assms(3) _ assms(5) n(2) k [unfolded yc_def]]) simp
  then obtain d tail where d: "length d = 64" "sec0_decrypt_message a b f (replicate 64 0) y =
      rx_payload k (20 + length body) (flags # body @ tail) d (y'\<lparr>s0_verified := s0_verified y' @ [(b, a, n)]\<rparr>)" by blast
  have m: "length (r_msg e) = MAX_ENCRYPTED_MSG_SIZE" if "e \<in> set rs" for e
  proof -
    have "r_msg e \<in> set (map r_msg (rxsessions y))" using that imageI [OF that, of r_msg] rs(4) by (simp add: yc_def flip: set_map)
    then show ?thesis using assms(1) by (auto simp: s0_receiver_def)
  qed
  have "rx_side a b y k (y'\<lparr>s0_verified := s0_verified y' @ [(b, a, n)]\<rparr>)"
    using rs m assms(1) clear_frees [OF n(2)] by (simp add: rx_side_def yc_def s0_receiver_def no_nonce_live nonce_clear_none)
  moreover have "find_index (rx_match a b (s0_clock y)) (rxsessions y) \<noteq> None \<Longrightarrow> rs = rxsessions y"
    using k rs(1) by (auto simp: rx_session_for_eq yc_def split: option.splits dest: arg_cong [where f = rxsessions])
  ultimately show thesis
    using d k same rs by (intro that [of d k "y'\<lparr>s0_verified := s0_verified y' @ [(b, a, n)]\<rparr>" tail]) simp_all
qed

lemma single_frame_received:
  assumes "s0_sender i a b z" "s0_receiver a b y" "s0_keys z = s0_keys y" "nonce_offered a b n z y" "awaits_nonce False (tx_sessions z ! i)"
    "carries msg rest (tx_sessions z ! i)" "length msg \<le> 26" "sec0_register_nonce b a n z = Some z1"
  shows "\<exists>d y2. sec0_decrypt_message a b (last_frame z1) (replicate 64 0) y = Some (length msg, d, y2) \<and> take (length msg) d = msg"
proof -
  have ko: "keys_ok (s0_keys y)" using assms(1,3) by (simp add: s0_sender_def)
  obtain nonce where f: "length nonce = 8" "last_frame z1 = s0_frame (enckey (s0_keys y)) (authkey (s0_keys y)) (nonce @ n)
      SECURITY_MESSAGE_ENCAPSULATION a b (0 # msg)"
    by (rule sender_frame [OF assms(1,4-6,8)], rule that) (use assms(3,7) in \<open>simp_all add: enc_flags_def\<close>)
  obtain k d tail y2 where "length d = 64"
    "sec0_decrypt_message a b (last_frame z1) (replicate 64 0) y = rx_payload k (20 + length msg) (0 # msg @ tail) d y2"
    by (rule receiver_frame [OF assms(2,4) ko f(1) assms(7) f(2)])
  then show ?thesis using payload_single [of d msg k tail y2] assms(7) by auto
qed

text \<open>The receive session after the first of two frames, and the second frame.\<close>

definition half_received :: "byte \<Rightarrow> byte \<Rightarrow> byte \<Rightarrow> buffer \<Rightarrow> s0 \<Rightarrow> bool" where
  "half_received a b seq part y \<longleftrightarrow> (\<exists>k. find_index (rx_match a b (s0_clock y)) (rxsessions y) = Some k \<and>
     r_state (rxsessions y ! k) = RX_ENC1 \<and> r_seq_nr (rxsessions y ! k) = seq AND 0xF \<and>
     r_msg_len (rxsessions y ! k) = length part \<and> take (length part) (r_msg (rxsessions y ! k)) = part)"

lemma first_frame_received:
  assumes "s0_sender i a b z" "s0_receiver a b y" "s0_keys z = s0_keys y" "nonce_offered a b n z y" "awaits_nonce False (tx_sessions z ! i)"
    "carries msg rest (tx_sessions z ! i)" "26 < length msg" "sec0_register_nonce b a n z = Some z1"
  shows "\<exists>d y2. sec0_decrypt_message a b (last_frame z1) (replicate 64 0) y = Some (0, d, y2) \<and> s0_receiver a b y2 \<and> s0_keys y2 = s0_keys y \<and>
    no_nonce b a (nonce_table y2) \<and> 0 < free_slots (nonce_table y2) \<and> half_received a b (s_seq (tx_sessions z ! i)) (take 26 msg) y2"
proof -
  define seq where "seq = s_seq (tx_sessions z ! i)"
  define fl where "fl = SEQUENCED_BIT_MASK OR (seq AND 0xF)"
  have ko: "keys_ok (s0_keys y)" using assms(1,3) by (simp add: s0_sender_def)
  obtain nonce where f: "length nonce = 8" "last_frame z1 = s0_frame (enckey (s0_keys y)) (authkey (s0_keys y)) (nonce @ n)
      SECURITY_MESSAGE_ENCAPSULATION_NONCE_GET a b (fl # take 26 msg)"
    by (rule sender_frame [OF assms(1,4-6,8)], rule that) (use assms(3,7) in \<open>simp_all add: enc_flags_def fl_def seq_def\<close>)
  have b: "length (take 26 msg) \<le> 26" "length (take 26 msg) = 26" "length (take 26 msg) \<le> 128" using assms(7) by simp_all
  obtain k d tail y2 where e: "length d = 64" "rx_side a b y k y2"
    "sec0_decrypt_message a b (last_frame z1) (replicate 64 0) y = rx_payload k (20 + length (take 26 msg)) (fl # take 26 msg @ tail) d y2"
    by (rule receiver_frame [OF assms(2,4) ko f(1) b(1) f(2)])
  have k: "k < length (rxsessions y2)" "length (r_msg (rxsessions y2 ! k)) = 128" using e(2) by (simp_all add: rx_side_def)
  obtain m where m: "take 26 m = take 26 msg" "length m = 128" "sec0_decrypt_message a b (last_frame z1) (replicate 64 0) y =
      Some (0, d, upd_rx k (\<lambda>e. e\<lparr>r_state := RX_ENC1, r_seq_nr := fl AND 0xF, r_msg := m, r_msg_len := 26\<rparr>) y2)"
    using payload_first [OF k(2) b(3) k(1), of fl tail d] flag_bits(1,2) [of seq] e(3) b(2) by (auto simp: fl_def)
  define e' where "e' = (rxsessions y2 ! k)\<lparr>r_state := RX_ENC1, r_seq_nr := fl AND 0xF, r_msg := m, r_msg_len := 26\<rparr>"
  define y' where "y' = y2\<lparr>rxsessions := (rxsessions y2)[k := e']\<rparr>"
  have "rx_match a b (s0_clock y) e'" using e(2) by (simp add: e'_def rx_side_def rx_match_def is_free_def)
  then have i: "find_index (rx_match a b (s0_clock y')) (rxsessions y') = Some k"
    using e(2) by (intro find_index_first) (simp_all add: rx_side_def y'_def)
  then have "half_received a b seq (take 26 msg) y'"
    using k(1) m(1) b(2) flag_bits(5) [of seq] by (auto simp: half_received_def y'_def e'_def fl_def)
  moreover have "fst (rx_session_for a b y') = Some k" using i by (simp add: rx_session_for_eq)
  moreover have "s0_receiver a b y'" if "fst (rx_session_for a b y') = Some k"
    using that assms(2) e(2) m(2)
    by (auto simp: s0_receiver_def rx_side_def y'_def e'_def dest!: set_update_subset_insert [THEN subsetD])
  moreover have "s0_keys y' = s0_keys y" "no_nonce b a (nonce_table y')" "0 < free_slots (nonce_table y')"
    using e(2) by (simp_all add: rx_side_def y'_def)
  moreover have "upd_rx k (\<lambda>e. e\<lparr>r_state := RX_ENC1, r_seq_nr := fl AND 0xF, r_msg := m, r_msg_len := 26\<rparr>) y2 = y'"
    by (simp add: upd_rx_def y'_def e'_def)
  ultimately show ?thesis using m(3) unfolding seq_def by auto
qed

lemma second_frame_received:
  assumes "s0_sender i a b z" "s0_receiver a b y" "s0_keys z = s0_keys y" "nonce_offered a b n z y" "awaits_nonce True (tx_sessions z ! i)"
    "carries msg rest (tx_sessions z ! i)" "length msg \<le> 26" "sec0_register_nonce b a n z = Some z1"
    "half_received a b (s_seq (tx_sessions z ! i)) part y" "length part = 26"
  shows "\<exists>d y2. sec0_decrypt_message a b (last_frame z1) (replicate 64 0) y = Some (length (part @ msg), d, y2) \<and>
    take (length (part @ msg)) d = part @ msg"
proof -
  define seq where "seq = s_seq (tx_sessions z ! i)"
  define fl where "fl = SEQUENCED_BIT_MASK OR SECOND_FRAME_BIT_MASK OR (seq AND 0xF)"
  have ko: "keys_ok (s0_keys y)" using assms(1,3) by (simp add: s0_sender_def)
  obtain nonce where f: "length nonce = 8" "last_frame z1 = s0_frame (enckey (s0_keys y)) (authkey (s0_keys y)) (nonce @ n)
      SECURITY_MESSAGE_ENCAPSULATION a b (fl # msg)"
    by (rule sender_frame [OF assms(1,4-6,8)], rule that) (use assms(3,7) in \<open>simp_all add: enc_flags_def fl_def seq_def\<close>)
  obtain k where h: "find_index (rx_match a b (s0_clock y)) (rxsessions y) = Some k" "r_state (rxsessions y ! k) = RX_ENC1"
      "r_seq_nr (rxsessions y ! k) = seq AND 0xF" "r_msg_len (rxsessions y ! k) = length part"
      "take (length part) (r_msg (rxsessions y ! k)) = part"
    using assms(9) by (auto simp: half_received_def seq_def)
  obtain k' d tail y2 where e: "length d = 64" "fst (rx_session_for a b y) = Some k'"
      "find_index (rx_match a b (s0_clock y)) (rxsessions y) \<noteq> None \<Longrightarrow> rxsessions y2 = rxsessions y"
      "sec0_decrypt_message a b (last_frame z1) (replicate 64 0) y = rx_payload k' (20 + length msg) (fl # msg @ tail) d y2"
    by (rule receiver_frame [OF assms(2,4) ko f(1) assms(7) f(2)]) (rule that; assumption)
  have k: "k' = k" "rxsessions y2 = rxsessions y" using e(2,3) h(1) by (auto simp: rx_session_for_eq)
  have "\<exists>d'. rx_payload k (20 + length msg) (fl # msg @ tail) d y2 = Some (length part + length msg, d', free_rx_session k y2) \<and>
      take (length part + length msg) d' = part @ msg"
    by (rule payload_second) (use e(1) h k(2) assms(7,10) flag_bits(3,4,6) [of seq] in \<open>simp_all add: fl_def\<close>)
  then show ?thesis using e(4) by (auto simp: k(1))
qed

text \<open>
  C18. Security 0 delivers what it is given. Gateway \<open>z\<close> holds a request to send \<open>msg\<close> from node \<open>a\<close> to node \<open>b\<close>,
  gateway \<open>y\<close> receives for \<open>b\<close>, both have the same keys, room in their tables and a radio that takes every
  frame, and \<open>n\<close> is a nonce of \<open>y\<close> that reaches \<open>z\<close>. A message of at most 26 bytes arrives in the frame that \<open>z\<close>
  then sends. A message of 27 to 52 bytes arrives in two frames, when its second part does not look like the
  command that sets the network key: the first frame is accepted, and when the receiver sends another nonce
  and the sender answers it, the second frame gives the whole message.
\<close>

theorem s0_roundtrip:
  assumes "s0_sender i a b z" "s0_receiver a b y" "s0_keys z = s0_keys y" "nonce_offered a b n z y" "1 < free_slots (nonce_table z)"
    "awaits_nonce False (tx_sessions z ! i)" "carries msg rest (tx_sessions z ! i)" "length msg \<le> 52" "\<not> key_set_at (drop 26 (msg @ rest))"
    "sec0_register_nonce b a n z = Some z1"
  shows "if length msg \<le> 26
    then \<exists>d y2. sec0_decrypt_message a b (last_frame z1) (replicate 64 0) y = Some (length msg, d, y2) \<and> take (length msg) d = msg
    else \<exists>d y2. sec0_decrypt_message a b (last_frame z1) (replicate 64 0) y = Some (0, d, y2) \<and>
      (\<forall>nt dst0 q y3 z2. snode q = ucast a \<longrightarrow> dnode q = ucast b \<longrightarrow> sec0_send_nonce nt dst0 q y2 = Some y3 \<longrightarrow>
        \<not> sec0_is_nonce_blacklisted b a (drop 2 (last_frame y3)) (nonce_blacklist z1) \<longrightarrow>
        sec0_register_nonce b a (drop 2 (last_frame y3)) z1 = Some z2 \<longrightarrow>
        (\<exists>d y4. sec0_decrypt_message a b (last_frame z2) (replicate 64 0) y3 = Some (length msg, d, y4) \<and> take (length msg) d = msg))"
proof (cases "length msg \<le> 26")
  case True
  then show ?thesis using single_frame_received [OF assms(1-4,6,7) True assms(10)] by simp
next
  case False
  then have len: "26 < length msg" by simp
  obtain nonce where z1: "s_data (tx_sessions z1 ! i) = drop 26 msg @ rest" "s_data_len (tx_sessions z1 ! i) = length (drop 26 msg)"
      "s_state (tx_sessions z1 ! i) = ENC_MSG" "s_seq (tx_sessions z1 ! i) = s_seq (tx_sessions z ! i)" "s0_keys z1 = s0_keys z" "s0_sender i a b z1"
    by (rule sender_frame [OF assms(1,4,6,7,10)], rule that) (use assms(5) in simp_all)
  have c: "carries (drop 26 msg) rest (tx_sessions z1 ! i)" using z1(1,2) assms(9) len by (simp add: carries_def)
  have aw: "awaits_nonce True (tx_sessions z1 ! i)" using z1(2,3) len by (simp add: awaits_nonce_def)
  obtain d y2 where y2: "sec0_decrypt_message a b (last_frame z1) (replicate 64 0) y = Some (0, d, y2)" "s0_receiver a b y2" "s0_keys y2 = s0_keys y"
      "no_nonce b a (nonce_table y2)" "0 < free_slots (nonce_table y2)" "half_received a b (s_seq (tx_sessions z1 ! i)) (take 26 msg) y2"
    using first_frame_received [OF assms(1-4,6,7) len assms(10)] z1(4) by auto
  have "\<exists>d y4. sec0_decrypt_message a b (last_frame z2) (replicate 64 0) y3 = Some (length msg, d, y4) \<and> take (length msg) d = msg"
    if q: "snode q = ucast a" "dnode q = ucast b" "sec0_send_nonce nt dst0 q y2 = Some y3"
      "\<not> sec0_is_nonce_blacklisted b a (drop 2 (last_frame y3)) (nonce_blacklist z1)"
      "sec0_register_nonce b a (drop 2 (last_frame y3)) z1 = Some z2" for nt dst0 q y3 z2
  proof -
    have r: "length (prngState y2) = 16" "s0_radio y2 = []" using y2(2) by (simp_all add: s0_receiver_def)
    obtain n2 where y3: "length n2 = 8" "drop 2 (last_frame y3) = n2" "get_nonce b a (n2 ! 0) False (nonce_table y3) = Some n2"
        "s0_keys y3 = s0_keys y2" "rxsessions y3 = rxsessions y2" "s0_clock y3 = s0_clock y2" "length (prngState y3) = 16" "s0_radio y3 = []"
      by (rule send_nonce_ok [OF q(3,1,2) r y2(4,5)], rule that) (simp_all add: last_frame_def)
    have "s0_receiver a b y3" "half_received a b (s_seq (tx_sessions z1 ! i)) (take 26 msg) y3"
      using y2(2,6) y3 rx_session_for_same [of y3 y2 a b] by (simp_all add: s0_receiver_def half_received_def)
    moreover have "s0_keys z1 = s0_keys y3" using assms(3) z1(5) y2(3) y3(4) by simp
    moreover have "nonce_offered a b n2 z1 y3" using y3 q(4) by (simp add: nonce_offered_def)
    ultimately show ?thesis
      using second_frame_received [OF z1(6) _ _ _ aw c, of y3 n2 z2 "take 26 msg"] assms(8) len q(5) y3(2) by simp
  qed
  with False y2(1) show ?thesis by auto
qed

text \<open>The sender finds a nonce of its own at once when the first byte it draws is not that of the receiver's.\<close>

lemma register_returns:
  assumes "s0_sender i a b z" "nonce_offered a b n z y" "awaits_nonce pass2 (tx_sessions z ! i)"
    "fst (PRNGOutput SerialAPI_AES128_Encrypt (prngState z)) ! 0 \<noteq> n ! 0"
  shows "\<exists>z1. sec0_register_nonce b a n z = Some z1"
proof -
  have sd: "session_of i a b z" "no_nonce b a (nonce_table z)" "0 < free_slots (nonce_table z)" using assms(1) by (simp_all add: s0_sender_def)
  have n: "length n = 8" "\<not> sec0_is_nonce_blacklisted b a n (nonce_blacklist z)" using assms(2) by (simp_all add: nonce_offered_def)
  have ret: "\<exists>x. tx_send_enc i p (tx_enter i s ((issue_nonce b a False n z)\<lparr>nonce_blacklist := bl, blacklist_next_elem := k\<rparr>)) = Some x" for p s bl k
  proof -
    define w where "w = set_tx_timer i None (tx_enter i s ((issue_nonce b a False n z)\<lparr>nonce_blacklist := bl, blacklist_next_elem := k\<rparr>))"
    have w: "nonce_table w = snd (register_nonce b a False n (nonce_table z))" "prngState w = prngState z"
        "s_param (tx_sessions w ! i) = s_param (tx_sessions z ! i)"
      using session_of_param(1) [OF sd(1)] by (simp_all add: w_def set_tx_timer_def tx_enter_def upd_tx_def issue_nonce_def)
    have "get_nonce b a (fst (PRNGOutput SerialAPI_AES128_Encrypt (prngState z)) ! 0) False (nonce_table w) = None"
      using register_fresh(1) [OF sd(3,2), where n = n] n(1) assms(4) by (simp add: w(1))
    then have "fresh_nonce (nonce_table w) b a (prngState w) = Some (PRNGOutput SerialAPI_AES128_Encrypt (prngState z))"
      by (subst fresh_nonce.simps) (simp add: w(2) case_prod_unfold)
    then have "encrypt_msg i p w \<noteq> None"
      unfolding encrypt_msg_split w(3) using session_of_param(2,3) [OF sd(1)] by (auto split: option.split prod.split)
    then show ?thesis unfolding tx_send_enc_def w_def [symmetric] by (cases "encrypt_msg i p w") (simp_all add: case_prod_unfold)
  qed
  show ?thesis
    using n(2) sd(1) assms(3) ret
    by (cases "sec0_blacklist_add_nonce b a n (nonce_blacklist z, blacklist_next_elem z)")
      (auto simp: sec0_register_nonce_def session_of_def awaits_nonce_def tx_session_state_set_def Let_def split: if_splits)
qed

definition demo_nonce :: buffer where
  "demo_nonce = (fst (PRNGOutput SerialAPI_AES128_Encrypt (replicate 16 0)) ! 0 + 1) # replicate 7 0"

definition demo_sender :: s0 where
  "demo_sender = (s0_start [])\<lparr>tx_sessions := [(no_tx_session [])\<lparr>s_param := demo_param, s_data := [0x25, 0x02], s_data_len := 2,
     s_state := NONCE_GET_SENT, s_callback := Some 7\<rparr>, no_tx_session []]\<rparr>"

definition demo_receiver :: s0 where
  "demo_receiver = issue_nonce 5 1 False demo_nonce (sec0_init (s0_start []))"

lemma demo_nonce_length [simp]: "length demo_nonce = 8" "demo_nonce ! 0 \<noteq> fst (PRNGOutput SerialAPI_AES128_Encrypt (replicate 16 0)) ! 0"
  by (simp_all add: demo_nonce_def)

lemma demo_start: "no_nonce 5 1 (nonce_table (s0_start []))" "1 < free_slots (nonce_table (s0_start []))"
  by (simp_all add: s0_start_def no_nonce_def free_slots_def)

lemma demo_ok: "s0_sender 0 1 5 demo_sender" "awaits_nonce False (tx_sessions demo_sender ! 0)" "carries [0x25, 0x02] [] (tx_sessions demo_sender ! 0)"
  "1 < free_slots (nonce_table demo_sender)" "s0_receiver 1 5 demo_receiver" "nonce_offered 1 5 demo_nonce demo_sender demo_receiver"
  "s0_keys demo_sender = s0_keys demo_receiver" "\<not> key_set_at (drop 26 ([0x25, 0x02] @ []))"
proof -
  have t: "nonce_table demo_sender = nonce_table (s0_start [])" by (simp add: demo_sender_def)
  have b: "get_nonce 5 1 (demo_nonce ! 0) False (nonce_table demo_receiver) = Some demo_nonce"
    using register_fresh(1) [OF _ demo_start(1), where n = demo_nonce] demo_start(2) by (simp add: demo_receiver_def issue_nonce_def sec0_init_def)
  show "s0_sender 0 1 5 demo_sender"
    using demo_start by (simp add: s0_sender_def t) (simp add: demo_sender_def s0_start_def session_of_def get_tx_session_by_node_def demo_param_def
        no_ts_param_def keys_ok_def)
  show "awaits_nonce False (tx_sessions demo_sender ! 0)" by (simp add: demo_sender_def awaits_nonce_def)
  show "carries [0x25, 0x02] [] (tx_sessions demo_sender ! 0)" by (simp add: demo_sender_def carries_def key_set_at_def rd_def)
  show "1 < free_slots (nonce_table demo_sender)" using demo_start by (simp add: t)
  show "s0_receiver 1 5 demo_receiver"
    by (simp add: s0_receiver_def demo_receiver_def issue_nonce_def rx_session_for_eq s0_start_def sec0_init_def numeral_2_eq_2 rx_match_def is_free_def)
  show "nonce_offered 1 5 demo_nonce demo_sender demo_receiver"
    using b by (simp add: nonce_offered_def demo_sender_def s0_start_def sec0_is_nonce_blacklisted_def)
  show "s0_keys demo_sender = s0_keys demo_receiver" by (simp add: demo_sender_def demo_receiver_def issue_nonce_def sec0_init_def)
  show "\<not> key_set_at (drop 26 ([0x25, 0x02] @ []))" by (simp add: key_set_at_def rd_def)
qed

theorem s0_roundtrip_witness:
  "\<exists>z1. sec0_register_nonce 5 1 demo_nonce demo_sender = Some z1 \<and>
    (\<exists>d y2. sec0_decrypt_message 1 5 (last_frame z1) (replicate 64 0) demo_receiver = Some (2, d, y2) \<and> take 2 d = [0x25, 0x02])"
proof -
  have "fst (PRNGOutput SerialAPI_AES128_Encrypt (prngState demo_sender)) ! 0 \<noteq> demo_nonce ! 0"
    using demo_nonce_length(2) [symmetric] by (simp add: demo_sender_def s0_start_def)
  then obtain z1 where z1: "sec0_register_nonce 5 1 demo_nonce demo_sender = Some z1"
    using register_returns [OF demo_ok(1,6,2)] by auto
  then show ?thesis using s0_roundtrip [OF demo_ok(1,5,7,6,4,2,3) _ demo_ok(8) z1] by (auto simp: numeral_2_eq_2)
qed

section \<open>The second part of a message under the zero key\<close>

definition zero_keys :: s0_keys where
  "zero_keys = sec0_set_key SerialAPI_AES128_Encrypt (replicate 16 0)"

lemma zero_keys_ok: "keys_ok zero_keys"
  using rj.sec0_set_key_lengths [of "replicate 16 0"] by (simp add: zero_keys_def keys_ok_def)

text \<open>
  C20. The second frame of a message can be readable for everybody. The sender looks for the key-set command
  at the start of each part of a message, not of the message: when the part that is left for the second
  frame begins with the bytes 98 06 (the 27th and 28th of the message), it is encrypted and authenticated
  under the keys that belong to the all-zero network key, whatever the network key is. The nonces are sent in
  the clear, so the frame can be verified and decrypted without any secret.
\<close>

theorem s0_second_part_zero_key:
  assumes "s0_sender i a b z" "s0_keys z = sec0_set_key SerialAPI_AES128_Encrypt key" "nonce_offered a b n z y"
    "awaits_nonce True (tx_sessions z ! i)" "s_data (tx_sessions z ! i) = part @ rest" "s_data_len (tx_sessions z ! i) = length part"
    "take 2 part = [COMMAND_CLASS_SECURITY, NETWORK_KEY_SET]" "length part \<le> 26" "sec0_register_nonce b a n z = Some z1"
  shows "tag_ok zero_keys a b n (last_frame z1) \<and>
    (\<exists>tail. plain_part zero_keys n (last_frame z1) = enc_flags True False (s_seq (tx_sessions z ! i)) # part @ tail)"
proof -
  let ?s = "tx_sessions z ! i"
  obtain r where part: "part = COMMAND_CLASS_SECURITY # NETWORK_KEY_SET # r"
    using assms(7) by (cases part; cases "List.tl part") auto
  have sd: "a \<noteq> b" "session_of i a b z" "keys_ok (s0_keys z)" "length (enckeyz (s0_keys z)) = 16"
      "length (authkeyz (s0_keys z)) = 16" "length (prngState z) = 16" "s0_radio z = []" "no_nonce b a (nonce_table z)" "0 < free_slots (nonce_table z)"
    using assms(1) by (simp_all add: s0_sender_def)
  have n: "length n = 8" "\<not> sec0_is_nonce_blacklisted b a n (nonce_blacklist z)" using assms(3) by (simp_all add: nonce_offered_def)
  obtain nonce where f: "length nonce = 8" "last_frame z1 = next_frame (s0_keys z) True (nonce @ n) ?s"
    by (rule register_nonce_ok [OF assms(9) n(2) sd(2) assms(4) n(1) sd(6-9,1,3-5)], rule that) (simp_all add: last_frame_def)
  have m: "map (rd (part @ rest)) [0..<length part] = part" by (rule nth_equalityI) (simp_all add: rd_def nth_append)
  have k: "enckeyz (s0_keys z) = enckey zero_keys" "authkeyz (s0_keys z) = authkey zero_keys"
    by (simp_all add: assms(2) zero_keys_def sec0_set_key_def Let_def)
  have "last_frame z1 = s0_frame (enckey zero_keys) (authkey zero_keys) (nonce @ n) SECURITY_MESSAGE_ENCAPSULATION a b
      (enc_flags True False (s_seq ?s) # part)"
    using f(2) assms(5,6,8) m k session_of_param(2,3) [OF sd(2)]
    by (simp add: next_frame_def frame_part_simp Let_def part rd_def)
  then show ?thesis using s0_frame_parts(3,5) [OF f(1) n(1) zero_keys_ok] by (metis append_Cons)
qed

definition demo_long_sender :: s0 where
  "demo_long_sender = demo_sender\<lparr>tx_sessions := [(no_tx_session [])\<lparr>s_param := demo_param, s_data := [0x98, 0x06, 0x41], s_data_len := 3,
     s_state := ENC_MSG_SENT, s_seq := 1, s_callback := Some 7\<rparr>, no_tx_session []],
     s0_keys := sec0_set_key SerialAPI_AES128_Encrypt (replicate 16 7)\<rparr>"

lemma demo_long_ok: "s0_sender 0 1 5 demo_long_sender" "awaits_nonce True (tx_sessions demo_long_sender ! 0)"
  "nonce_offered 1 5 demo_nonce demo_long_sender demo_receiver"
proof -
  show "s0_sender 0 1 5 demo_long_sender"
    using demo_ok(1) rj.sec0_set_key_lengths [of "replicate 16 7"]
    by (simp add: s0_sender_def demo_long_sender_def keys_ok_def session_of_def get_tx_session_by_node_def demo_param_def no_ts_param_def)
  show "awaits_nonce True (tx_sessions demo_long_sender ! 0)" by (simp add: demo_long_sender_def awaits_nonce_def)
  show "nonce_offered 1 5 demo_nonce demo_long_sender demo_receiver" using demo_ok(6) by (simp add: nonce_offered_def demo_long_sender_def)
qed

theorem s0_second_part_zero_key_witness:
  "\<exists>z1. sec0_register_nonce 5 1 demo_nonce demo_long_sender = Some z1 \<and> tag_ok zero_keys 1 5 demo_nonce (last_frame z1) \<and>
    (\<exists>flags tail. plain_part zero_keys demo_nonce (last_frame z1) = flags # [0x98, 0x06, 0x41] @ tail)"
proof -
  have "fst (PRNGOutput SerialAPI_AES128_Encrypt (prngState demo_long_sender)) ! 0 \<noteq> demo_nonce ! 0"
    using demo_nonce_length(2) [symmetric] by (simp add: demo_long_sender_def demo_sender_def s0_start_def)
  then obtain z1 where z1: "sec0_register_nonce 5 1 demo_nonce demo_long_sender = Some z1"
    using register_returns [OF demo_long_ok(1,3,2)] by auto
  have "tag_ok zero_keys 1 5 demo_nonce (last_frame z1) \<and> (\<exists>tail. plain_part zero_keys demo_nonce (last_frame z1) =
      enc_flags True False (s_seq (tx_sessions demo_long_sender ! 0)) # [0x98, 0x06, 0x41] @ tail)"
    by (rule s0_second_part_zero_key [OF demo_long_ok(1) _ demo_long_ok(3,2) _ _ _ _ z1, of "replicate 16 7" _ "[]"])
      (simp_all add: demo_long_sender_def)
  then show ?thesis using z1 by blast
qed

section \<open>The bounds of the receiver\<close>

definition rx_bounded :: "s0 \<Rightarrow> bool" where
  "rx_bounded z \<longleftrightarrow> (\<forall>e \<in> set (rxsessions z). length (r_msg e) = MAX_ENCRYPTED_MSG_SIZE \<and> r_msg_len e \<le> 26)"

lemma rx_bounded_upd:
  assumes "rx_bounded z" "\<And>e. e \<in> set (rxsessions z) \<Longrightarrow> length (r_msg (f e)) = MAX_ENCRYPTED_MSG_SIZE \<and> r_msg_len (f e) \<le> 26"
  shows "rx_bounded (upd_rx k f z)"
proof (cases "k < length (rxsessions z)")
  case True
  then show ?thesis using assms by (auto simp: rx_bounded_def upd_rx_def dest!: set_update_subset_insert [THEN subsetD])
qed (use assms(1) in \<open>simp add: upd_rx_def rx_bounded_def list_update_beyond linorder_not_less\<close>)

lemma rx_session_bounded:
  assumes "rx_session_for sn dn z = (Some k, z')" "rx_bounded z"
  shows "rx_bounded z' \<and> k < length (rxsessions z')"
  using assms unfolding rx_session_for_def get_rx_session_by_nodes_def new_rx_session_def
  by (auto simp: upd_rx_def rx_bounded_def split: option.splits dest!: find_index_Some set_update_subset_insert [THEN subsetD])

lemma rx_payload_bounded:
  assumes "rx_bounded z" "k < length (rxsessions z)" "length d = 64" "20 \<le> n" "n \<le> 46" "length payload = n - 10"
  shows "\<exists>len d' z'. rx_payload k n payload d z = Some (len, d', z') \<and> len \<le> 52 \<and> rx_bounded z'"
proof -
  let ?s = "rxsessions z ! k"
  have s: "length (r_msg ?s) = 128" "r_msg_len ?s \<le> 26" using assms(1,2) by (simp_all add: rx_bounded_def)
  have free: "rx_bounded (free_rx_session k z)" unfolding free_rx_session_def by (rule rx_bounded_upd [OF assms(1)]) (use assms(1) in \<open>auto simp: rx_bounded_def\<close>)
  obtain m where "store_at 0 (map (rd (drop 1 payload)) [0..<n - 20]) (r_msg ?s) = Some m"
    using s(1) assms(5) store_at_Some_iff [of 0 "map (rd (drop 1 payload)) [0..<n - 20]" "r_msg ?s"] by auto
  then have first: "\<exists>m. store_at 0 (map (rd (drop 1 payload)) [0..<n - 20]) (r_msg ?s) = Some m \<and> length m = 128"
    using store_at_length s(1) by metis
  have one: "\<exists>d'. store_at 0 (take (n - 20) (drop 1 payload)) d = Some d'"
    using assms(3,5) store_at_Some_iff [of 0 "take (n - 20) (drop 1 payload)" d] by simp
  have two: "\<exists>d1 d2. store_at 0 (take (r_msg_len ?s) (r_msg ?s)) d = Some d1 \<and> store_at (r_msg_len ?s) (take (n - 20) (drop 1 payload)) d1 = Some d2"
  proof -
    obtain d1 where d1: "store_at 0 (take (r_msg_len ?s) (r_msg ?s)) d = Some d1"
      using s assms(3) store_at_Some_iff [of 0 "take (r_msg_len ?s) (r_msg ?s)" d] by auto
    have "length d1 = 64" using store_at_length [OF d1] assms(3) by simp
    then obtain d2 where "store_at (r_msg_len ?s) (take (n - 20) (drop 1 payload)) d1 = Some d2"
      using s(2) assms(5) store_at_Some_iff [of "r_msg_len ?s" "take (n - 20) (drop 1 payload)" d1] by auto
    with d1 show ?thesis by blast
  qed
  have upd: "rx_bounded (upd_rx k (\<lambda>e. e\<lparr>r_state := RX_ENC1, r_seq_nr := q, r_msg := m, r_msg_len := n - 20\<rparr>) z)" if "length m = 128" for q m
    by (rule rx_bounded_upd [OF assms(1)]) (use that assms(5) in simp)
  have "n \<noteq> 19" "r_msg_len ?s + n - 20 < 256" "r_msg_len ?s + n - 20 \<le> 52" "n - 20 \<le> 52" using assms(4,5) s(2) by auto
  then show ?thesis using first one two upd free assms(1) by (auto simp: rx_payload_def Let_def)
qed

lemma decrypt_in_bounds:
  assumes "rx_bounded z" "length f \<le> 46" "length f \<noteq> 19"
  shows "\<exists>len d z'. sec0_decrypt_message a b f (replicate 64 0) z = Some (len, d, z') \<and> len \<le> 52 \<and> rx_bounded z'"
proof (cases "length f < 19 \<or> get_nonce b a (f ! (length f - 9)) False (nonce_table z) = None")
  case True
  then show ?thesis using assms(1) by (auto simp: decrypt_split)
next
  case False
  then obtain nonce where n: "get_nonce b a (f ! (length f - 9)) False (nonce_table z) = Some nonce" "\<not> length f < 19" by auto
  define y where "y = z\<lparr>nonce_table := nonce_clear b a (nonce_table z)\<rparr>"
  have y: "rx_bounded y" using assms(1) by (simp add: y_def rx_bounded_def)
  have "length (auth_part a b f) \<le> 64" using assms(2) by (simp add: auth_part_def)
  then obtain d where d: "store_at 0 (auth_part a b f) (replicate 64 0) = Some d" using store_at_Some_iff [of 0 "auth_part a b f" "replicate 64 0"] by auto
  show ?thesis
  proof (cases "rx_session_for a b y")
    case (Pair ko x)
    show ?thesis
    proof (cases ko)
      case None
      then have "x = y" using Pair by (auto simp: rx_session_for_eq split: option.splits)
      then show ?thesis using Pair None n y by (simp add: decrypt_split y_def [symmetric])
    next
      case (Some k)
      have x: "rx_bounded x" "k < length (rxsessions x)" using rx_session_bounded [of a b y k x] Pair Some y by simp_all
      then have x': "rx_bounded (x\<lparr>s0_verified := v\<rparr>)" "k < length (rxsessions (x\<lparr>s0_verified := v\<rparr>))" for v by (simp_all add: rx_bounded_def)
      have l: "length d = 64" "20 \<le> length f" "length (plain_part ks nonce f) = length f - 10" for ks
        using store_at_length [OF d] n(2) assms(3) by (simp_all add: plain_part_def)
      show ?thesis using Pair Some n d x rx_payload_bounded [OF x' l(1,2) assms(2) l(3)] by (simp add: decrypt_split y_def [symmetric])
    qed
  qed
qed

lemma decrypt_overruns:
  assumes "80 \<le> length f" "get_nonce b a (f ! (length f - 9)) False (nonce_table z) \<noteq> None" "fst (rx_session_for a b z) \<noteq> None"
  shows "sec0_decrypt_message a b f (replicate 64 0) z = None"
proof -
  obtain nonce where n: "get_nonce b a (f ! (length f - 9)) False (nonce_table z) = Some nonce" using assms(2) by auto
  define y where "y = z\<lparr>nonce_table := nonce_clear b a (nonce_table z)\<rparr>"
  have "fst (rx_session_for a b y) \<noteq> None" using assms(3) rx_session_for_same [of y z a b] by (simp add: y_def)
  then obtain k x where x: "rx_session_for a b y = (Some k, x)" by (cases "rx_session_for a b y") auto
  have "store_at 0 (auth_part a b f) (replicate 64 0) = None" using assms(1) by (simp add: store_at_None_iff auth_part_def)
  then show ?thesis using assms(1) n x by (simp add: decrypt_split y_def [symmetric])
qed

lemma decrypt_negative_copy:
  assumes "rx_bounded z" "length f = 19" "get_nonce b a (f ! 10) False (nonce_table z) = Some nonce" "fst (rx_session_for a b z) \<noteq> None"
    "tag_ok (s0_keys z) a b nonce f" "f ! 10 AND SECOND_FRAME_BIT_MASK = 0"
  shows "sec0_decrypt_message a b f (replicate 64 0) z = None"
proof -
  define y where "y = z\<lparr>nonce_table := nonce_clear b a (nonce_table z)\<rparr>"
  have "fst (rx_session_for a b y) \<noteq> None" using assms(4) rx_session_for_same [of y z a b] by (simp add: y_def)
  then obtain k x where x: "rx_session_for a b y = (Some k, x)" by (cases "rx_session_for a b y") auto
  have xb: "rx_bounded x" "k < length (rxsessions x)" using rx_session_bounded [OF x] assms(1) by (simp_all add: y_def rx_bounded_def)
  have k: "s0_keys x = s0_keys z" using x by (auto simp: rx_session_for_eq y_def split: option.splits)
  obtain d where d: "store_at 0 (auth_part a b f) (replicate 64 0) = Some d"
    using store_at_Some_iff [of 0 "auth_part a b f" "replicate 64 0"] assms(2) by (auto simp: auth_part_def)
  have "aes_ofb SerialAPI_AES128_Encrypt key iv [] = []" for key iv by (simp add: aes_ofb_def)
  then have p: "plain_part (s0_keys z) nonce f ! 0 = f ! 10" using assms(2) by (simp add: plain_part_def)
  have "length (r_msg (rxsessions x ! k)) = 128" using xb by (simp add: rx_bounded_def)
  then have "store_at 0 (map g [0..<255]) (r_msg (rxsessions x ! k)) = None" for g :: "nat \<Rightarrow> byte" by (simp add: store_at_None_iff)
  then have "rx_payload k 19 (plain_part (s0_keys z) nonce f) d (x\<lparr>s0_verified := v\<rparr>) = None" for v
    using assms(6) p by (simp add: rx_payload_def Let_def)
  then show ?thesis using assms(2,3,5) x d k by (simp add: decrypt_split y_def [symmetric])
qed

text \<open>
  C36. The bounds of the receiver of Security 0. As long as the receive sessions are within bounds, a frame of at most
  46 bytes, the length of the frames that the gateway sends, and not of 19 bytes is handled without a copy
  beyond the end of an array, gives at most 52 bytes and keeps the sessions within bounds. A frame of 80
  bytes or more that names a nonce of the table and finds a session overruns the buffer of 64 bytes of
  \<open>security_CommandHandler\<close>, before its tag is looked at: the sender needs no key. A frame of 19 bytes with the
  right tag makes a copy of a negative length.
\<close>

theorem s0_receive_bounds:
  assumes "rx_bounded z"
  shows "(length f \<le> 46 \<and> length f \<noteq> 19 \<longrightarrow>
      (\<exists>len d z'. sec0_decrypt_message a b f (replicate 64 0) z = Some (len, d, z') \<and> len \<le> 52 \<and> rx_bounded z')) \<and>
    (80 \<le> length f \<and> get_nonce b a (f ! (length f - 9)) False (nonce_table z) \<noteq> None \<and> fst (rx_session_for a b z) \<noteq> None \<longrightarrow>
      sec0_decrypt_message a b f (replicate 64 0) z = None) \<and>
    (\<forall>nonce. length f = 19 \<and> get_nonce b a (f ! 10) False (nonce_table z) = Some nonce \<and> fst (rx_session_for a b z) \<noteq> None \<and>
      tag_ok (s0_keys z) a b nonce f \<and> f ! 10 AND SECOND_FRAME_BIT_MASK = 0 \<longrightarrow>
      sec0_decrypt_message a b f (replicate 64 0) z = None)"
  using assms decrypt_in_bounds decrypt_overruns decrypt_negative_copy by blast

text \<open>A forged frame of 80 bytes that names the nonce of the receiver.\<close>

definition demo_forged :: buffer where
  "demo_forged = replicate 71 0 @ [demo_nonce ! 0] @ replicate 8 0"

theorem s0_receive_bounds_witness:
  "rx_bounded demo_receiver \<and> sec0_decrypt_message 1 5 demo_forged (replicate 64 0) demo_receiver = None \<and>
    (\<exists>len d z'. sec0_decrypt_message 1 5 (replicate 30 0) (replicate 64 0) demo_receiver = Some (len, d, z') \<and> len \<le> 52 \<and> rx_bounded z')"
proof -
  have b: "rx_bounded demo_receiver"
    by (simp add: rx_bounded_def demo_receiver_def issue_nonce_def sec0_init_def s0_start_def)
  have "get_nonce 5 1 (demo_forged ! (length demo_forged - 9)) False (nonce_table demo_receiver) \<noteq> None" "80 \<le> length demo_forged"
    using demo_ok(6) by (simp_all add: nonce_offered_def demo_forged_def nth_append)
  moreover have "fst (rx_session_for 1 5 demo_receiver) \<noteq> None" using demo_ok(5) by (simp add: s0_receiver_def)
  ultimately show ?thesis
    using b s0_receive_bounds [OF b, of demo_forged 1 5] s0_receive_bounds [OF b, of "replicate 30 0" 1 5] by simp
qed

end
