(* ===== verification/Spec2Isabelle.thy ===== *)
theory Spec2Isabelle
  imports Serial_Frame S2_Handshake Crc32 Addressing Node_Queue Frame_Check Send_Request Command_Handler Frame_Input Transport_Faults S0_Secure
begin

text \<open>
  \<^bold>\<open>Verification of the Z/IP gateway.\<close>

  The gateway connects a Z-Wave network to an IP network. It is an event-driven C program on the
  Contiki runtime. Packets from the IP side are queued per node (\<open>src/src/node_queue.c\<close>), handed to the
  transmission layer (\<open>src/src/transport/ZW_SendDataAppl.c\<close>), protected by Security 2 (\<open>src/libs2\<close>), Security 0
  (\<open>src/src/transport/Security_Scheme0.c\<close>) or CRC-16, and written as frames to the radio chip over a serial line (\<open>src/src/serialapi/conhandle.c\<close>);
  answers travel the other way. Node addresses are mapped to IPv6 and IPv4 addresses
  (\<open>src/src/zip_router_ipv6_utils.c\<close>, \<open>src/src/ipv46_nat.c\<close>).

  \<^bold>\<open>How the code is modelled.\<close> A C struct is a record, an enum a datatype, a fixed-width integer a machine
  word, a buffer a list of bytes; a received Z/IP packet is a function from offsets to bytes, because the code
  reads behind its end. A C function is a definition of the same name; where a function is long
  its loops and branches are definitions of their own. State is passed explicitly. A write or read
  outside an array, a failed assertion and a null dereference are error values, so that their absence is
  a theorem. Calls into parts that are not modelled are recorded as effects of the state, and what those
  parts answer is an argument. Blocks of a memory pool are named by their index.

  \<^bold>\<open>The theories.\<close>

  \<^item> \<open>ZGW_Prelude\<close>: C integer types, buffers, \<open>memcpy\<close> with bounds, bytewise exclusive or, searching in
    arrays, byte orders; the collections \<open>buf_simps\<close> and \<open>xor_simps\<close>.
  \<^item> \<open>Contiki_Core\<close>: timers, linked lists and memory pools of \<open>src/contiki/core\<close>, with the locales
    \<open>obj_list\<close> and \<open>block_pool\<close> that state what the clients rely on.
  \<^item> \<open>Serial_Frame\<close>: the frame layer of \<open>conhandle.c\<close>, with timeouts and the 255-byte buffers. A frame
    that is sent is received; an altered byte is refused; the receive invariant is kept; the buffer
    overruns of long frames are exhibited.
  \<^item> \<open>AES\<close>: the block cipher and CBC mode of \<open>src/libs2/crypto/aes\<close>, with the locales \<open>block_cipher\<close> and
    \<open>block_permutation\<close>. Decryption inverts encryption, for every key and block.
  \<^item> \<open>S2_Keys\<close>: AES-CMAC, the CTR_DRBG random generator, the nonce generator, key derivation and the key
    scrambler. The C code is shown equal to the specified CMAC up to 4080 bytes.
  \<^item> \<open>S2_CCM\<close>: authenticated encryption of \<open>src/libs2/crypto/ccm\<close>: round trip, and acceptance of nothing
    but encryptions.
  \<^item> \<open>S2_Span\<close>, \<open>S2_Message\<close>, \<open>S2_FSM\<close>: the Security 2 transport of \<open>src/libs2/protocol/S2.c\<close>. \<open>S2_Span\<close> has the
    context with its tables of singlecast and multicast nonces, sequence numbers, nonce reports and additional
    data; \<open>S2_Message\<close> encryption and decryption with all extensions; \<open>S2_FSM\<close> the state machine, the functions
    of the library, the handler of received frames and the step relation \<open>s2_reachable\<close> over everything the
    environment can do.
  \<^item> \<open>S2_Delivery\<close>: an abstract state machine that the transport refines; every accepted transmission is
    reported exactly once, and every wait ends. \<open>S2_Secure\<close>: the sizes that the lemmas on messages assume hold
    in every reachable context.
    \<open>S2_Channel\<close>: what an accepted message proves, and the period of the multicast nonce. \<open>S2_Stream\<close>:
    delivery between two contexts in sync. \<open>S2_Resync\<close>, \<open>S2_Handshake\<close>: the exchange of nonces that brings two
    contexts in sync, and what a nonce report without a nonce leads to.
  \<^item> \<open>Crc32\<close>, \<open>Frame_Check\<close>: the two CRCs and the command analyzer. The CRC-32 table computes the bitwise
    register; the CRC-16 changes with every alteration of two adjacent bytes; the binary search terminates
    and decides membership in the generated tables of \<open>src/src-gen/get_list.c\<close>.
  \<^item> \<open>Frame_Input\<close>: the handler of received Z-Wave frames, \<open>ApplicationCommandHandlerZIP\<close> of \<open>src/src/ZIP_Router.c\<close>.
    CRC-16 encapsulated frames come back unchanged, and alterations are detected as long as the class byte is
    not altered. The handler is the one without \<open>AURA_DEV\<close>; the file as it is defines that name, which
    leaves the handler empty.
  \<^item> \<open>Addressing\<close>: the NAT table and the address maps, with the locale \<open>node_table\<close>.
  \<^item> \<open>Packet_Queue\<close>: the packet queues of \<open>contiki/core/net/uip-packetqueue.c\<close>, with the locale
    \<open>bounded_fifo\<close>.
  \<^item> \<open>Node_Queue\<close>: the node queues on top of them, as a step relation over input, transmission, completion, expiry and
    initialisation, with the documented invariants, progress, the accounting of frames and what the expiry
    of a frame under transmission leads to.
  \<^item> \<open>Multicast_Groups\<close>: node masks, with the locale \<open>node_set\<close>, and the multicast group manager, whose
    doubly linked list inside an array is shown to implement a least-recently-used order.
  \<^item> \<open>Send_Data\<close>: the transmission layer: scheme selection, the two queues over one pool of sessions, locks,
    back-off, discard timers, abort, as a step relation over requests, callbacks, events and timers.
  \<^item> \<open>Send_Request\<close>: requests that wait for a reply (\<open>src/src/transport/ZW_SendRequest.c\<close>), with callbacks that
    may call the module again; every request gets exactly one final call, and an abort ends only one of the
    requests it is meant to end.
  \<^item> \<open>Zip_Packet\<close>, \<open>Command_Handler\<close>: the Z/IP packets of \<open>src/src/ZW_udp_server.c\<close>, built and received, the
    dispatcher of command classes (\<open>src/src/command_handler.c\<close>) and the entry of the application in
    \<open>src/src/ZW_ZIPApplication.c\<close>. Packets round-trip; a handler runs only for a command with the scheme it asks
    for; but the scheme of a command from IP is the one its packet claims.
  \<^item> \<open>Transport_Service\<close>: segmentation and reassembly of long frames (\<open>src/libs2/transport_service\<close>) with the
    table-driven state machine. \<open>Transport_Run\<close>: the machine under every sequence of requests, frames, radio
    callbacks and timers, and the invariant of reassembly. \<open>Transport_Delivery\<close>, \<open>Transport_Roundtrip\<close>: the
    segments that the sender produces, their delivery, the acknowledgement, and the safety of reassembly with the two conditions it needs.
    \<open>Transport_Faults\<close>: frames from the air that overrun a buffer or divide by zero.
  \<^item> \<open>Rijndael\<close>: the table-driven AES of \<open>src/src/transport/rijndael-alg-fst.c\<close>, shown equal to the bytewise one.
  \<^item> \<open>S0_Crypto\<close>, \<open>S0_Nonce\<close>, \<open>S0_Scheme\<close>: Security 0 (\<open>src/src/transport/Security_Scheme0.c\<close>, \<open>ZW_PRNG.c\<close>): the
    cipher and authentication code against their textbook definitions, the random generator, the nonce
    table with the locale \<open>nonce_store\<close>, transmit and receive sessions. \<open>S0_Run\<close>: the module under every sequence
    of events; every nonce is redeemed at most once, and every accepted request is answered once. \<open>S0_Live\<close>: what
    sessions wait for. \<open>S0_Secure\<close>: the round trip between two gateways, the bounds of the receiver, and the
    second frames that are encrypted under the zero key.

  \<^bold>\<open>Interfaces.\<close> Each locale is interpreted on the definitions that model the code: \<open>cl\<close> and \<open>mb\<close> in
  \<open>Contiki_Core\<close>, \<open>aes\<close> in \<open>AES\<close>, \<open>rj\<close> in \<open>S0_Crypto\<close>, \<open>nonces\<close> in \<open>S0_Nonce\<close>, \<open>nt\<close> in \<open>Addressing\<close>, \<open>pq\<close> in \<open>Packet_Queue\<close>, \<open>nm\<close> in \<open>Multicast_Groups\<close>.
  The clients use the interpreted facts: the packet queues and the transmission layer rest on the pool laws
  \<open>mb\<close>, the node queues on the queue laws \<open>pq\<close>, the ledger of Security 0 nonces on \<open>nonces\<close>, the CMAC, CCM and nonce theorems on the cipher.

  \<^bold>\<open>Bounds and termination.\<close> The retry loop of the last segment counts the refusals that the radio has
  left, after which the radio accepts; no definition uses fuel. The loop of Security 0 that draws a nonce is a
  partial function, whose result is \<open>None\<close> when it does not end; it is shown to end at once when the first byte
  drawn is not that of the other node's nonce. The loop that aborts requests is another one, since its callbacks
  may change the list it follows; it is shown to return when they do not. Loops over arrays are structural; the binary search, the
  bit count of the group distance and the receive loop of the serial layer have termination proofs. Pools
  have the sizes of the code (8 sessions, 64 packets); the number of multicast groups is the length of the
  table. The event queue of the operating system is taken as unbounded, and its events are delivered in
  order.

  \<^bold>\<open>Not modelled.\<close> The S2 inclusion, the mailbox, the resource directory, network management, the command class handlers, the provisioning list,
  the bridge, the serial API commands, the network services, the IP stack and the tools. Curve25519,
  SQLite, cJSON and the generated state machines are third-party or generated code. The order in which the
  remaining parts are to be added: the mailbox, the network-management queue, the
  provisioning list.
\<close>

end
